(* ===== verification/Float64.thy ===== *)
theory Float64
  imports Main
begin

text \<open>
  IEEE 754 double precision as the sources use it: finite values by mantissa and binary exponent, rounding to 53 bits with
  ties to even, comparison, addition and the conversion of an \<open>int64\<close>.  The two zeros are one value: no operation
  modelled here tells them apart.
\<close>

subsection \<open>Finite values and rounding\<close>

datatype float64 = Fl int int  \<comment> \<open>\<open>Fl m e\<close> is \<open>m * 2^e\<close>\<close>

fun bit_len :: "nat \<Rightarrow> nat" where
  "bit_len n = (if n = 0 then 0 else Suc (bit_len (n div 2)))"

declare bit_len.simps [simp del]

lemma bit_len_0 [simp]: "bit_len 0 = 0"
  by (simp add: bit_len.simps)

lemma bit_len_pos: "0 < n \<Longrightarrow> bit_len n = Suc (bit_len (n div 2))"
  by (simp add: bit_len.simps)

definition round_shift :: "nat \<Rightarrow> nat \<Rightarrow> nat" where
  "round_shift s n =
     (let q = n div 2 ^ s; r = n mod 2 ^ s
      in if 2 ^ s < 2 * r \<or> (2 ^ s = 2 * r \<and> s \<noteq> 0 \<and> odd q) then q + 1 else q)"

subsection \<open>Doubles\<close>

datatype double = NaN | Inf bool  \<comment> \<open>\<open>Inf True\<close> is minus infinity\<close> | Finite float64

text \<open>The finite value nearest to \<open>m * 2^e\<close>; beyond the range it is an infinity.\<close>

definition round_double :: "int \<Rightarrow> int \<Rightarrow> double" where
  "round_double m e =
     (let s = bit_len (nat \<bar>m\<bar>) - 53; q = round_shift s (nat \<bar>m\<bar>)
      in if q \<noteq> 0 \<and> 1024 < int (bit_len q) + int s + e then Inf (m < 0)
         else Finite (Fl (sgn m * int q) (int s + e)))"

text \<open>\<open>float64(i)\<close>.\<close>

definition double_of_int :: "int \<Rightarrow> double" where
  "double_of_int i = round_double i 0"

text \<open>Two finite values over their common, smaller exponent.\<close>

definition fl_align :: "float64 \<Rightarrow> float64 \<Rightarrow> int \<times> int \<times> int" where
  "fl_align x y = (case (x, y) of (Fl m e, Fl n f) \<Rightarrow> (m * 2 ^ nat (e - min e f), n * 2 ^ nat (f - min e f), min e f))"

definition fl_less :: "float64 \<Rightarrow> float64 \<Rightarrow> bool" where
  "fl_less x y = (case fl_align x y of (m, n, _) \<Rightarrow> m < n)"

text \<open>Go's \<open><\<close>: false when either side is not a number.\<close>

fun double_less :: "double \<Rightarrow> double \<Rightarrow> bool" where
  "double_less NaN y = False"
| "double_less x NaN = False"
| "double_less (Inf b) (Inf c) = (b \<and> \<not> c)"
| "double_less (Inf b) (Finite y) = b"
| "double_less (Finite x) (Inf c) = (\<not> c)"
| "double_less (Finite x) (Finite y) = fl_less x y"

definition isNaN_double :: "double \<Rightarrow> bool" where
  "isNaN_double x = (x = NaN)"

fun double_add :: "double \<Rightarrow> double \<Rightarrow> double" where
  "double_add NaN y = NaN"
| "double_add x NaN = NaN"
| "double_add (Inf b) (Inf c) = (if b = c then Inf b else NaN)"
| "double_add (Inf b) (Finite y) = Inf b"
| "double_add (Finite x) (Inf c) = Inf c"
| "double_add (Finite x) (Finite y) = (case fl_align x y of (m, n, e) \<Rightarrow> round_double (m + n) e)"

subsection \<open>The order of finite values\<close>

lemma fl_less_iff:
  assumes "e \<ge> k" and "f \<ge> k"
  shows "fl_less (Fl m e) (Fl n f) \<longleftrightarrow> m * 2 ^ nat (e - k) < n * 2 ^ nat (f - k)"
proof -
  let ?d = "min e f"
  have p: "nat (e - k) = nat (e - ?d) + nat (?d - k)" "nat (f - k) = nat (f - ?d) + nat (?d - k)" using assms by auto
  have "m * 2 ^ nat (e - k) < n * 2 ^ nat (f - k) \<longleftrightarrow>
      m * 2 ^ nat (e - ?d) * 2 ^ nat (?d - k) < n * 2 ^ nat (f - ?d) * (2::int) ^ nat (?d - k)"
    unfolding p power_add by (simp add: mult.assoc)
  also have "\<dots> \<longleftrightarrow> m * 2 ^ nat (e - ?d) < n * 2 ^ nat (f - ?d)" by simp
  finally show ?thesis by (simp add: fl_less_def fl_align_def)
qed

lemma fl_less_irrefl: "\<not> fl_less x x"
  by (cases x) (simp add: fl_less_def fl_align_def)

lemma fl_less_asym: "fl_less x y \<Longrightarrow> \<not> fl_less y x"
  by (cases x; cases y) (auto simp: fl_less_def fl_align_def min.commute)

lemma fl_less_weak_trans: "\<not> fl_less x y \<Longrightarrow> \<not> fl_less y z \<Longrightarrow> \<not> fl_less x z"
proof (cases x; cases y; cases z)
  fix m e n f p g
  assume e: "x = Fl m e" "y = Fl n f" "z = Fl p g" and n: "\<not> fl_less x y" "\<not> fl_less y z"
  define k where "k = min e (min f g)"
  have "e \<ge> k" "f \<ge> k" "g \<ge> k" by (auto simp: k_def)
  then show ?thesis using n unfolding e by (simp add: fl_less_iff [of k])
qed

lemma double_less_asym: "double_less x y \<Longrightarrow> \<not> double_less y x"
  by (cases x; cases y) (auto dest: fl_less_asym)

lemma double_less_weak_trans:
  "x \<noteq> NaN \<Longrightarrow> y \<noteq> NaN \<Longrightarrow> z \<noteq> NaN \<Longrightarrow> \<not> double_less x y \<Longrightarrow> \<not> double_less y z \<Longrightarrow> \<not> double_less x z"
  by (cases x; cases y; cases z) (auto dest: fl_less_weak_trans)

end
