(* ===== verification/Go_Prelude.thy ===== *)
theory Go_Prelude
  imports Main "HOL-Library.Char_ord" "HOL-Library.List_Lexorder" "HOL-Library.Sublist"
begin

text \<open>
  The vocabulary every component shares: results and errors as values, Go's fixed-width
  integers as \<open>int\<close>/\<open>nat\<close> with the wrap-around written out, Go strings as byte lists
  (\<open>string\<close>, ordered lexicographically by byte as Go's \<open><\<close> does), the parts of
  the packages \<open>strings\<close>, \<open>strconv\<close> and \<open>sort\<close> the sources call, and the generic
  lemmas about them.  Instants (\<open>time.Time\<close>) and durations are integers counting
  nanoseconds.
\<close>

named_theorems go_defs \<open>definitions a component unfolds to compute with its operations\<close>
named_theorems go_inv \<open>preservation lemmas of a component's invariant\<close>

subsection \<open>Results, errors and contexts\<close>

text \<open>A Go pair \<open>(T, error)\<close>: either the error or the value.\<close>

datatype ('e, 'a) result = Err 'e | Ok 'a

primrec is_ok :: "('e, 'a) result \<Rightarrow> bool" where
  "is_ok (Err e) = False"
| "is_ok (Ok a) = True"

text \<open>An error text before \<open>fmt\<close> renders it: the format and its arguments.\<close>

datatype gmsg = Msg string "string list"

text \<open>The state of a \<open>context.Context\<close> when an operation asks \<open>ctx.Err()\<close>.\<close>

datatype ctx = CtxLive | CtxCanceled | CtxDeadline

type_synonym time = int
type_synonym duration = int

definition second :: duration where "second = 1000000000"
definition millisecond :: duration where "millisecond = 1000000"

subsection \<open>Fixed-width integers\<close>

definition u64 :: "nat \<Rightarrow> nat" where "u64 n = n mod 2 ^ 64"

definition i64 :: "int \<Rightarrow> int" where
  "i64 x = (x + 2 ^ 63) mod 2 ^ 64 - 2 ^ 63"

definition i32 :: "int \<Rightarrow> int" where
  "i32 x = (x + 2 ^ 31) mod 2 ^ 32 - 2 ^ 31"

text \<open>\<open>x << n\<close> on a 64-bit signed value.\<close>

definition shl64 :: "int \<Rightarrow> nat \<Rightarrow> int" where
  "shl64 x n = i64 (x * 2 ^ n)"

definition max_i64 :: int where "max_i64 = 2 ^ 63 - 1"
definition min_i64 :: int where "min_i64 = - (2 ^ 63)"

text \<open>\<open>time.Time.Sub\<close> saturates at the extreme durations.\<close>

definition time_sub :: "time \<Rightarrow> time \<Rightarrow> duration" where
  "time_sub a b = max min_i64 (min max_i64 (a - b))"

lemma u64_small [simp]: "n < 2 ^ 64 \<Longrightarrow> u64 n = n"
  by (simp add: u64_def)

lemma u64_bound [simp]: "u64 n < 2 ^ 64"
  by (simp add: u64_def)

lemma i64_id: "min_i64 \<le> x \<Longrightarrow> x \<le> max_i64 \<Longrightarrow> i64 x = x"
  by (simp add: i64_def min_i64_def max_i64_def)

lemma i64_range: "min_i64 \<le> i64 x \<and> i64 x \<le> max_i64"
proof -
  have "0 \<le> (x + 2 ^ 63) mod 2 ^ 64" and "(x + 2 ^ 63) mod 2 ^ 64 < (2::int) ^ 64"
    by simp_all
  then show ?thesis by (simp add: i64_def min_i64_def max_i64_def)
qed

lemma time_sub_pos_iff [simp]: "0 < time_sub a b \<longleftrightarrow> b < a"
  by (auto simp: time_sub_def min_i64_def max_i64_def)

subsection \<open>The package strings\<close>

definition hasPrefix :: "string \<Rightarrow> string \<Rightarrow> bool" where
  "hasPrefix s p = prefix p s"

definition hasSuffix :: "string \<Rightarrow> string \<Rightarrow> bool" where
  "hasSuffix s p = suffix p s"

definition trimPrefix :: "string \<Rightarrow> string \<Rightarrow> string" where
  "trimPrefix s p = (if prefix p s then drop (length p) s else s)"

definition trimSuffix :: "string \<Rightarrow> string \<Rightarrow> string" where
  "trimSuffix s p = (if suffix p s then take (length s - length p) s else s)"

definition cutPrefix :: "string \<Rightarrow> string \<Rightarrow> string option" where
  "cutPrefix s p = (if prefix p s then Some (drop (length p) s) else None)"

text \<open>\<open>strings.Index\<close>: the first position \<open>sub\<close> occurs at; \<open>None\<close> for \<open>-1\<close>.\<close>

fun go_index :: "string \<Rightarrow> string \<Rightarrow> nat option" where
  "go_index [] sub = (if sub = [] then Some 0 else None)"
| "go_index (c # s) sub =
     (if prefix sub (c # s) then Some 0 else map_option Suc (go_index s sub))"

definition go_cut :: "string \<Rightarrow> string \<Rightarrow> (string \<times> string) option" where
  "go_cut s sep =
     (case go_index s sep of None \<Rightarrow> None | Some i \<Rightarrow> Some (take i s, drop (i + length sep) s))"

definition go_contains :: "string \<Rightarrow> string \<Rightarrow> bool" where
  "go_contains s sub = (go_index s sub \<noteq> None)"

text \<open>\<open>strings.LastIndex\<close> for a one-byte separator.\<close>

fun last_index :: "char \<Rightarrow> string \<Rightarrow> nat option" where
  "last_index c [] = None"
| "last_index c (x # s) =
     (case last_index c s of Some i \<Rightarrow> Some (Suc i) | None \<Rightarrow> if x = c then Some 0 else None)"

text \<open>\<open>strings.Split\<close> and \<open>strings.Join\<close> for a one-byte separator.\<close>

fun split_on :: "char \<Rightarrow> string \<Rightarrow> string list" where
  "split_on c [] = [[]]"
| "split_on c (x # s) =
     (if x = c then [] # split_on c s
      else case split_on c s of [] \<Rightarrow> [[x]] | w # ws \<Rightarrow> (x # w) # ws)"

fun join_with :: "string \<Rightarrow> string list \<Rightarrow> string" where
  "join_with sep [] = []"
| "join_with sep [w] = w"
| "join_with sep (w # v # ws) = w @ sep @ join_with sep (v # ws)"

abbreviation slash :: char where "slash \<equiv> CHR ''/''"

text \<open>ASCII case folding, as \<open>strings.ToLower\<close>, \<open>ToUpper\<close> and \<open>EqualFold\<close> act on ASCII text.\<close>

definition lower_char :: "char \<Rightarrow> char" where
  "lower_char c = (if CHR ''A'' \<le> c \<and> c \<le> CHR ''Z'' then char_of (of_char c + (32::nat)) else c)"

definition upper_char :: "char \<Rightarrow> char" where
  "upper_char c = (if CHR ''a'' \<le> c \<and> c \<le> CHR ''z'' then char_of (of_char c - (32::nat)) else c)"

definition equalFold :: "string \<Rightarrow> string \<Rightarrow> bool" where
  "equalFold s t = (map lower_char s = map lower_char t)"

subsection \<open>The package strconv\<close>

definition digit_char :: "nat \<Rightarrow> char" where "digit_char n = char_of (48 + n)"

definition is_digit :: "char \<Rightarrow> bool" where
  "is_digit c = (48 \<le> (of_char c :: nat) \<and> (of_char c :: nat) \<le> 57)"

definition digit_val :: "char \<Rightarrow> nat" where "digit_val c = of_char c - 48"

fun dec :: "nat \<Rightarrow> string" where
  "dec n = (if n < 10 then [digit_char n] else dec (n div 10) @ [digit_char (n mod 10)])"

declare dec.simps [simp del]

text \<open>\<open>strconv.FormatInt(n, 10)\<close> and \<open>fmt\<close>'s \<open>%d\<close>.\<close>

definition itoa :: "int \<Rightarrow> string" where
  "itoa i = (if i < 0 then CHR ''-'' # dec (nat (- i)) else dec (nat i))"

definition dec_val :: "string \<Rightarrow> nat" where
  "dec_val s = foldl (\<lambda>a c. 10 * a + digit_val c) 0 s"

definition parse_digits :: "string \<Rightarrow> nat option" where
  "parse_digits s = (if s \<noteq> [] \<and> list_all is_digit s then Some (dec_val s) else None)"

text \<open>\<open>strconv.ParseInt(s, 10, 64)\<close>; \<open>None\<close> is its syntax or range error.\<close>

definition parseInt :: "string \<Rightarrow> int option" where
  "parseInt s =
     (let neg = (s \<noteq> [] \<and> hd s = CHR ''-'');
          t = (if s \<noteq> [] \<and> (hd s = CHR ''-'' \<or> hd s = CHR ''+'') then tl s else s)
      in case parse_digits t of
           None \<Rightarrow> None
         | Some n \<Rightarrow>
             if neg then (if n \<le> 2 ^ 63 then Some (- int n) else None)
             else (if n < 2 ^ 63 then Some (int n) else None))"

text \<open>\<open>strconv.ParseUint(s, 10, 64)\<close>.\<close>

definition parseUint :: "string \<Rightarrow> nat option" where
  "parseUint s =
     (case parse_digits s of None \<Rightarrow> None | Some n \<Rightarrow> if n < 2 ^ 64 then Some n else None)"

text \<open>\<open>fmt\<close>'s \<open>%0*d\<close> for a non-negative number: zeros on the left up to the width.\<close>

definition zero_pad :: "nat \<Rightarrow> string \<Rightarrow> string" where
  "zero_pad w s = replicate (w - length s) (CHR ''0'') @ s"

subsection \<open>The package sort\<close>

text \<open>\<open>sort.Search\<close>: binary search over \<open>[i, j)\<close>, as the library writes it.\<close>

function sort_search :: "(nat \<Rightarrow> bool) \<Rightarrow> nat \<Rightarrow> nat \<Rightarrow> nat" where
  "sort_search f i j =
     (if i < j
      then (let h = (i + j) div 2
            in if \<not> f h then sort_search f (Suc h) j else sort_search f i h)
      else i)"
  by pat_completeness auto
termination
  by (relation "measure (\<lambda>(f, i, j). j - i)") auto

declare sort_search.simps [simp del]

definition searchStrings :: "string list \<Rightarrow> string \<Rightarrow> nat" where
  "searchStrings xs x = sort_search (\<lambda>i. x \<le> xs ! i) 0 (length xs)"

subsection \<open>Lemmas\<close>

lemma split_on_ne [simp]: "split_on c s \<noteq> []"
  by (induction s) (auto split: list.splits)

lemma join_split_on [simp]: "join_with [c] (split_on c s) = s"
proof (induction s)
  case Nil
  show ?case by simp
next
  case (Cons x s)
  obtain w ws where "split_on c s = w # ws"
    by (cases "split_on c s") auto
  with Cons.IH show ?case
    by (cases ws) auto
qed

lemma split_on_word: "c \<notin> set w \<Longrightarrow> split_on c w = [w]"
  by (induction w) auto

lemma split_on_append: "c \<notin> set w \<Longrightarrow> split_on c (w @ c # s) = w # split_on c s"
  by (induction w) auto

lemma split_join_with:
  "ws \<noteq> [] \<Longrightarrow> (\<And>w. w \<in> set ws \<Longrightarrow> c \<notin> set w) \<Longrightarrow> split_on c (join_with [c] ws) = ws"
  by (induction "[c]" ws rule: join_with.induct) (auto simp: split_on_word split_on_append)

lemma split_on_seps: "w \<in> set (split_on c s) \<Longrightarrow> c \<notin> set w"
  by (induction s arbitrary: w) (auto split: list.splits if_splits)

lemma go_index_SomeD:
  "go_index s sub = Some i \<Longrightarrow>
     i \<le> length s \<and> prefix sub (drop i s) \<and> (\<forall>j<i. \<not> prefix sub (drop j s))"
proof (induction s sub arbitrary: i rule: go_index.induct)
  case (1 sub)
  then show ?case by (auto split: if_splits)
next
  case (2 c s sub)
  show ?case
  proof (cases "prefix sub (c # s)")
    case True
    with "2.prems" show ?thesis by simp
  next
    case False
    with "2.prems" obtain k where k: "go_index s sub = Some k" "i = Suc k" by auto
    with "2.IH" False have ih: "k \<le> length s" "prefix sub (drop k s)"
      "\<forall>j<k. \<not> prefix sub (drop j s)" by auto
    have "\<not> prefix sub (drop j (c # s))" if "j < i" for j
      using that False ih(3) k(2) by (cases j) auto
    with ih k show ?thesis by auto
  qed
qed

lemma go_index_None_iff: "go_index s sub = None \<longleftrightarrow> (\<forall>i\<le>length s. \<not> prefix sub (drop i s))"
proof (induction s sub rule: go_index.induct)
  case (1 sub)
  show ?case by auto
next
  case (2 c s sub)
  have "(\<forall>i\<le>length (c # s). \<not> prefix sub (drop i (c # s))) \<longleftrightarrow>
        \<not> prefix sub (c # s) \<and> (\<forall>i\<le>length s. \<not> prefix sub (drop i s))"
    by (auto simp: all_conj_distrib less_Suc_eq_le Suc_le_eq elim: allE [where x = 0] allE [where x = "Suc _"])
       (metis drop_Cons' diff_Suc_1 drop0 le_diff_conv Suc_eq_plus1 )+
  with 2 show ?case by simp
qed

lemma go_index_char:
  "c \<notin> set a \<Longrightarrow> go_index (a @ (c # sep) @ b) (c # sep) = Some (length a)"
  by (induction a) auto

lemma go_cut_first:
  "c \<notin> set a \<Longrightarrow> go_cut (a @ (c # sep) @ b) (c # sep) = Some (a, b)"
  using go_index_char [of c a sep b] by (simp add: go_cut_def)

lemma last_index_none: "c \<notin> set b \<Longrightarrow> last_index c b = None"
  by (induction b) auto

lemma last_index_append: "c \<notin> set b \<Longrightarrow> last_index c (a @ c # b) = Some (length a)"
  by (induction a) (auto simp: last_index_none)

lemma last_index_Some: "last_index c s = Some i \<Longrightarrow> \<exists>a b. s = a @ c # b \<and> length a = i \<and> c \<notin> set b"
proof (induction s arbitrary: i)
  case (Cons x s)
  show ?case
  proof (cases "last_index c s")
    case None
    then have "c \<notin> set s" by (induction s) (auto split: option.splits if_splits)
    with None Cons.prems show ?thesis
      by (intro exI [of _ "[]"] exI [of _ s]) (auto split: if_splits)
  next
    case (Some k)
    with Cons.IH obtain a b where "s = a @ c # b" "length a = k" "c \<notin> set b" by blast
    with Some Cons.prems show ?thesis
      by (intro exI [of _ "x # a"] exI [of _ b]) auto
  qed
qed simp

lemma digit_char_code: "n < 10 \<Longrightarrow> of_char (digit_char n) = 48 + n"
  by (simp add: digit_char_def)

lemma is_digit_digit_char [simp]: "n < 10 \<Longrightarrow> is_digit (digit_char n)"
  by (simp add: is_digit_def digit_char_code)

lemma digit_val_digit_char [simp]: "n < 10 \<Longrightarrow> digit_val (digit_char n) = n"
  by (simp add: digit_val_def digit_char_code)

lemma dec_ne [simp]: "dec n \<noteq> []"
  by (subst dec.simps) simp

lemma dec_digits [simp]: "list_all is_digit (dec n)"
proof (induction n rule: dec.induct)
  case (1 n)
  then show ?case by (subst dec.simps) simp
qed

lemma dec_val_append [simp]: "dec_val (s @ [c]) = 10 * dec_val s + digit_val c"
  by (simp add: dec_val_def)

lemma dec_val_Nil [simp]: "dec_val [] = 0"
  by (simp add: dec_val_def)

lemma dec_val_dec [simp]: "dec_val (dec n) = n"
proof (induction n rule: dec.induct)
  case (1 n)
  show ?case
  proof (cases "n < 10")
    case True
    then show ?thesis
      using dec_val_append [of "[]" "digit_char n"] by (subst dec.simps) simp
  next
    case False
    with "1.IH" show ?thesis by (subst dec.simps) simp
  qed
qed

lemma parse_digits_dec [simp]: "parse_digits (dec n) = Some n"
  by (simp add: parse_digits_def)

lemma dec_inject [simp]: "dec m = dec n \<longleftrightarrow> m = n"
  by (metis dec_val_dec)

lemma digit_not_sign: "is_digit c \<Longrightarrow> c \<noteq> CHR ''-'' \<and> c \<noteq> CHR ''+'' \<and> c \<noteq> CHR ''/'' \<and> c \<noteq> CHR 0x00"
  by (auto simp: is_digit_def)

lemma hd_dec: "is_digit (hd (dec n))"
  using dec_digits [of n] by (cases "dec n") auto

lemma dec_no_sep: "c \<in> {CHR ''-'', CHR ''+'', CHR ''/'', CHR 0x00} \<Longrightarrow> c \<notin> set (dec n)"
  using dec_digits [of n] digit_not_sign by (auto simp: list_all_iff)

lemma parseInt_itoa:
  assumes "min_i64 \<le> i" and "i \<le> max_i64"
  shows "parseInt (itoa i) = Some i"
  using assms digit_not_sign [OF hd_dec]
  by (auto simp: parseInt_def itoa_def Let_def min_i64_def max_i64_def)

lemma itoa_inject [simp]: "itoa i = itoa j \<longleftrightarrow> i = j"
  using digit_not_sign [OF hd_dec] by (auto simp: itoa_def) (metis list.sel(1))+

text \<open>Strings of digits of one length compare as the numbers they denote.\<close>

lemma dec_val_Cons: "dec_val (c # s) = digit_val c * 10 ^ length s + dec_val s"
  by (induction s rule: rev_induct) (auto simp: dec_val_append [of "_ # _", simplified] algebra_simps,
      simp add: dec_val_def)

lemma dec_val_less: "list_all is_digit s \<Longrightarrow> dec_val s < 10 ^ length s"
proof (induction s rule: rev_induct)
  case (snoc c s)
  then have "digit_val c \<le> 9" by (auto simp: is_digit_def digit_val_def le_diff_conv)
  with snoc show ?case by simp
qed simp

lemma digit_char_less: "is_digit c \<Longrightarrow> is_digit d \<Longrightarrow> c < d \<longleftrightarrow> digit_val c < digit_val d"
  by (auto simp: less_char_def is_digit_def digit_val_def)

lemma digit_val_inj: "digit_val c = digit_val d \<Longrightarrow> is_digit c \<Longrightarrow> is_digit d \<Longrightarrow> c = d"
  by (metis digit_val_def is_digit_def eq_diff_iff of_char_eq_iff)

lemma dec_val_mono:
  assumes "length s = length t" and "list_all is_digit s" and "list_all is_digit t"
  shows "s < t \<longleftrightarrow> dec_val s < dec_val t"
  using assms
proof (induction s t rule: list_induct2)
  case (Cons c s d t)
  then have b: "dec_val s < 10 ^ length t" "dec_val t < 10 ^ length t"
    using dec_val_less [of s] dec_val_less [of t] by auto
  have *: "a * B + x < b * B + y" if "a < b" "x < B" for a b x y B :: nat
  proof -
    have "a * B + x < (a + 1) * B" using that by simp
    also have "\<dots> \<le> b * B" using that by (intro mult_le_mono1) simp
    finally show ?thesis by simp
  qed
  from Cons.prems have "c = d \<longleftrightarrow> digit_val c = digit_val d"
    by (auto dest: digit_val_inj)
  with Cons b * [of "digit_val c" "digit_val d" "dec_val s" "10 ^ length t" "dec_val t"]
    * [of "digit_val d" "digit_val c" "dec_val t" "10 ^ length t" "dec_val s"]
  show ?case by (auto simp: dec_val_Cons digit_char_less)
qed simp

lemma length_dec_le: "n < 10 ^ w \<Longrightarrow> 0 < w \<Longrightarrow> length (dec n) \<le> w"
proof (induction n arbitrary: w rule: dec.induct)
  case (1 n)
  show ?case
  proof (cases "n < 10")
    case True
    with 1 show ?thesis by (subst dec.simps) simp
  next
    case False
    with "1.prems" obtain v where v: "w = Suc v" "0 < v"
      by (cases w) (auto, metis gr0I less_one power_0 mult.right_neutral)
    with "1.prems" False have "n div 10 < 10 ^ v" by auto
    with "1.IH" False v have "length (dec (n div 10)) \<le> v" by simp
    with False v show ?thesis by (subst dec.simps) simp
  qed
qed

lemma zero_pad_digits: "list_all is_digit s \<Longrightarrow> list_all is_digit (zero_pad w s)"
  by (auto simp: zero_pad_def list_all_iff is_digit_def)

lemma dec_val_zeros: "dec_val (replicate k (CHR ''0'') @ s) = dec_val s"
  by (induction k) (auto simp: dec_val_Cons digit_val_def)

lemma dec_val_zero_pad [simp]: "dec_val (zero_pad w s) = dec_val s"
  by (simp add: zero_pad_def dec_val_zeros)

lemma length_zero_pad: "length s \<le> w \<Longrightarrow> length (zero_pad w s) = w"
  by (simp add: zero_pad_def)

text \<open>Zero-padded to a common width, numbers sort as strings.\<close>

lemma zero_pad_dec_less:
  assumes "m < 10 ^ w" and "n < 10 ^ w" and "0 < w"
  shows "zero_pad w (dec m) < zero_pad w (dec n) \<longleftrightarrow> m < n"
  using assms
  by (subst dec_val_mono) (simp_all add: length_zero_pad length_dec_le zero_pad_digits)

lemma parse_zero_pad [simp]: "parse_digits (zero_pad w (dec n)) = Some n"
  using zero_pad_digits [of "dec n" w] by (simp add: parse_digits_def) (simp add: zero_pad_def)

subsection \<open>sort.Search finds the boundary\<close>

lemma sort_search_bounds: "i \<le> j \<Longrightarrow> i \<le> sort_search f i j \<and> sort_search f i j \<le> j"
proof (induction f i j rule: sort_search.induct)
  case (1 f i j)
  show ?case
  proof (cases "i < j")
    case True
    let ?h = "(i + j) div 2"
    from True have h: "i \<le> ?h" "?h < j" by auto
    show ?thesis
    proof (cases "f ?h")
      case f: True
      with "1.IH"(2) [OF True refl] h show ?thesis
        by (simp add: sort_search.simps [of f i j] Let_def)
    next
      case f: False
      with "1.IH"(1) [OF True refl] h True show ?thesis
        by (simp add: sort_search.simps [of f i j] Let_def)
    qed
  next
    case False
    then have "sort_search f i j = i" by (simp add: sort_search.simps [of f i j])
    with "1.prems" show ?thesis by simp
  qed
qed

lemma sort_search_boundary:
  assumes "\<And>a b. a \<le> b \<Longrightarrow> b < j \<Longrightarrow> f a \<Longrightarrow> f b"
    and "i \<le> k" and "k \<le> j"
    and "\<And>a. i \<le> a \<Longrightarrow> a < k \<Longrightarrow> \<not> f a"
    and "\<And>a. k \<le> a \<Longrightarrow> a < j \<Longrightarrow> f a"
  shows "sort_search f i j = k"
  using assms
proof (induction f i j rule: sort_search.induct)
  case (1 f i j)
  show ?case
  proof (cases "i < j")
    case True
    let ?h = "(i + j) div 2"
    from True have h: "i \<le> ?h" "?h < j" by auto
    show ?thesis
    proof (cases "f ?h")
      case f: True
      with "1.prems" h have "k \<le> ?h" by (meson not_le)
      with f "1.prems" h have "sort_search f i ?h = k"
        by (intro "1.IH"(2) [OF True refl]) auto
      with f True show ?thesis by (simp add: sort_search.simps [of f i j] Let_def)
    next
      case f: False
      with "1.prems" h have "Suc ?h \<le> k" by (metis not_less_eq_eq)
      with f "1.prems" h have "sort_search f (Suc ?h) j = k"
        by (intro "1.IH"(1) [OF True refl]) auto
      with f True show ?thesis by (simp add: sort_search.simps [of f i j] Let_def)
    qed
  next
    case False
    with "1.prems" show ?thesis by (simp add: sort_search.simps [of f i j])
  qed
qed

text \<open>On a sorted list \<open>sort.SearchStrings\<close> returns the number of elements below the key.\<close>

lemma searchStrings_split:
  assumes "\<And>y. y \<in> set a \<Longrightarrow> y < x" and "\<And>y. y \<in> set b \<Longrightarrow> x \<le> y"
  shows "searchStrings (a @ b) x = length a"
  unfolding searchStrings_def
proof (rule sort_search_boundary)
  fix i k
  assume ik: "i \<le> k" "k < length (a @ b)" and "x \<le> (a @ b) ! i"
  then have "length a \<le> i"
    using assms(1) by (metis leD nth_append nth_mem not_le)
  with ik show "x \<le> (a @ b) ! k"
    using assms(2) by (auto simp: nth_append)
next
  fix i assume "0 \<le> i" "i < length a"
  then show "\<not> x \<le> (a @ b) ! i" using assms(1) by (auto simp: nth_append not_le)
next
  fix i assume "length a \<le> i" "i < length (a @ b)"
  then show "x \<le> (a @ b) ! i" using assms(2) by (auto simp: nth_append)
qed simp_all

lemma sorted_split_at:
  fixes x :: "'a :: linorder"
  assumes "sorted xs"
  shows "xs = takeWhile (\<lambda>y. y < x) xs @ dropWhile (\<lambda>y. y < x) xs"
    and "y \<in> set (takeWhile (\<lambda>y. y < x) xs) \<Longrightarrow> y < x"
    and "y \<in> set (dropWhile (\<lambda>y. y < x) xs) \<Longrightarrow> x \<le> y"
proof -
  show "xs = takeWhile (\<lambda>y. y < x) xs @ dropWhile (\<lambda>y. y < x) xs" by simp
  show "y < x" if "y \<in> set (takeWhile (\<lambda>y. y < x) xs)"
    using that by (rule set_takeWhileD [THEN conjunct2])
  show "x \<le> y" if "y \<in> set (dropWhile (\<lambda>y. y < x) xs)"
    using that assms by (induction xs) (auto split: if_splits)
qed

lemma searchStrings_sorted:
  assumes "sorted xs"
  shows "searchStrings xs x = length (takeWhile (\<lambda>y. y < x) xs)"
proof -
  let ?a = "takeWhile (\<lambda>y. y < x) xs" and ?b = "dropWhile (\<lambda>y. y < x) xs"
  have "searchStrings (?a @ ?b) x = length ?a"
    using sorted_split_at(2,3) [OF assms, where x = x] by (intro searchStrings_split) blast+
  then show ?thesis by simp
qed

subsection \<open>Segments of a path\<close>

lemma segment_eq:
  "c \<notin> set p \<Longrightarrow> c \<notin> set q \<Longrightarrow> p @ c # x = q @ c # y \<longleftrightarrow> p = q \<and> x = y"
proof (induction p arbitrary: q)
  case Nil
  then show ?case by (cases q) auto
next
  case (Cons a p)
  then show ?case by (cases q) auto
qed

lemma segment_prefix:
  "c \<notin> set p \<Longrightarrow> c \<notin> set q \<Longrightarrow> prefix (p @ c # x) (q @ c # y) \<longleftrightarrow> p = q \<and> prefix x y"
proof (induction p arbitrary: q)
  case Nil
  then show ?case by (cases q) auto
next
  case (Cons a p)
  then show ?case by (cases q) auto
qed

lemma last_sep_eq:
  assumes "(c::char) \<notin> set x" and "c \<notin> set y" and "a @ c # x = b @ c # y"
  shows "a = b \<and> x = y"
  using assms last_index_append [of c x a] last_index_append [of c y b] by (metis append_eq_append_conv list.inject option.inject)

lemma append_less_iff: "(s @ t < s @ u) \<longleftrightarrow> (t < (u :: string))"
  by (induction s) auto

lemma length_split_on: "length (split_on c s) = Suc (count_list s c)"
  by (induction s) (auto split: list.splits)

lemma go_contains_char: "go_contains s [c] \<longleftrightarrow> c \<in> set s"
  by (induction s) (auto simp: go_contains_def)

end
