(* ===== verification/Gerr.thy ===== *)
theory Gerr
  imports Go_Prelude
begin

text \<open>
  The canonical error type (package \<open>core/gerr\<close>): codes, the error value with its
  cause chain, the JSON envelope it renders to, and \<open>status.Error\<close>, the gRPC error the
  RPC services return.  A message is kept as format and arguments.
\<close>

subsection \<open>Codes (code.go)\<close>

text \<open>\<open>type Code int32\<close>, with the values of \<open>google.rpc.Code\<close>.\<close>

type_synonym gcode = int

abbreviation (input) OK :: gcode where "OK \<equiv> 0"
abbreviation (input) Canceled :: gcode where "Canceled \<equiv> 1"
abbreviation (input) Unknown :: gcode where "Unknown \<equiv> 2"
abbreviation (input) InvalidArgument :: gcode where "InvalidArgument \<equiv> 3"
abbreviation (input) DeadlineExceeded :: gcode where "DeadlineExceeded \<equiv> 4"
abbreviation (input) NotFound :: gcode where "NotFound \<equiv> 5"
abbreviation (input) AlreadyExists :: gcode where "AlreadyExists \<equiv> 6"
abbreviation (input) PermissionDenied :: gcode where "PermissionDenied \<equiv> 7"
abbreviation (input) ResourceExhausted :: gcode where "ResourceExhausted \<equiv> 8"
abbreviation (input) FailedPrecondition :: gcode where "FailedPrecondition \<equiv> 9"
abbreviation (input) Aborted :: gcode where "Aborted \<equiv> 10"
abbreviation (input) OutOfRange :: gcode where "OutOfRange \<equiv> 11"
abbreviation (input) Unimplemented :: gcode where "Unimplemented \<equiv> 12"
abbreviation (input) Internal :: gcode where "Internal \<equiv> 13"
abbreviation (input) Unavailable :: gcode where "Unavailable \<equiv> 14"
abbreviation (input) DataLoss :: gcode where "DataLoss \<equiv> 15"
abbreviation (input) Unauthenticated :: gcode where "Unauthenticated \<equiv> 16"

definition codeNames :: "(gcode \<times> string) list" where
  "codeNames =
    [(OK, ''OK''), (Canceled, ''CANCELLED''), (Unknown, ''UNKNOWN''),
     (InvalidArgument, ''INVALID_ARGUMENT''), (DeadlineExceeded, ''DEADLINE_EXCEEDED''),
     (NotFound, ''NOT_FOUND''), (AlreadyExists, ''ALREADY_EXISTS''),
     (PermissionDenied, ''PERMISSION_DENIED''), (ResourceExhausted, ''RESOURCE_EXHAUSTED''),
     (FailedPrecondition, ''FAILED_PRECONDITION''), (Aborted, ''ABORTED''),
     (OutOfRange, ''OUT_OF_RANGE''), (Unimplemented, ''UNIMPLEMENTED''),
     (Internal, ''INTERNAL''), (Unavailable, ''UNAVAILABLE''), (DataLoss, ''DATA_LOSS''),
     (Unauthenticated, ''UNAUTHENTICATED'')]"

definition code_String :: "gcode \<Rightarrow> string" where
  "code_String c = (case map_of codeNames c of Some n \<Rightarrow> n | None \<Rightarrow> ''UNKNOWN'')"

definition canonicalHTTP :: "(gcode \<times> int) list" where
  "canonicalHTTP =
    [(OK, 200), (Canceled, 499), (Unknown, 500), (InvalidArgument, 400),
     (DeadlineExceeded, 504), (NotFound, 404), (AlreadyExists, 409), (PermissionDenied, 403),
     (ResourceExhausted, 429), (FailedPrecondition, 400), (Aborted, 409), (OutOfRange, 400),
     (Unimplemented, 501), (Internal, 500), (Unavailable, 503), (DataLoss, 500),
     (Unauthenticated, 401)]"

subsection \<open>Details (detail.go)\<close>

record field_violation =
  fvField :: string
  fvDescription :: string

record precondition_violation =
  pvType :: string
  pvSubject :: string
  pvDescription :: string

datatype detail =
    ErrorInfo string string "(string \<times> string) list"  \<comment> \<open>Reason, Domain, Metadata\<close>
  | BadRequest "field_violation list"
  | PreconditionFailure "precondition_violation list"

subsection \<open>Errors (gerr.go)\<close>

record gerr =
  eCode :: gcode
  eMessage :: gmsg
  eReason :: string
  eLocation :: string
  eLocationType :: string
  eDomain :: string
  eDetails :: "detail list"
  eHttpStatus :: int

text \<open>
  A Go \<open>error\<close>: a sentinel or foreign error, one wrapped with \<open>%w\<close>, or a \<open>*gerr.Error\<close>
  with its cause.
\<close>

datatype goerr = Plain gmsg | Wrapped gmsg goerr | GErr gerr "goerr option"

definition New :: "gcode \<Rightarrow> gmsg \<Rightarrow> gerr" where
  "New c m = \<lparr>eCode = c, eMessage = m, eReason = '''', eLocation = '''', eLocationType = '''',
              eDomain = '''', eDetails = [], eHttpStatus = 0\<rparr>"

definition Wrap :: "goerr \<Rightarrow> gcode \<Rightarrow> gmsg \<Rightarrow> goerr" where
  "Wrap err c m = GErr (New c m) (Some err)"

text \<open>\<open>errors.As(err, **Error)\<close>: the first \<open>*Error\<close> of the chain, with its own cause.\<close>

fun as_gerr :: "goerr \<Rightarrow> (gerr \<times> goerr option) option" where
  "as_gerr (Plain m) = None"
| "as_gerr (Wrapped m e) = as_gerr e"
| "as_gerr (GErr g c) = Some (g, c)"

text \<open>\<open>err.Error()\<close> of a foreign error, as the argument \<open>From\<close> formats.\<close>

fun err_text :: "goerr \<Rightarrow> string list" where
  "err_text (Plain (Msg f as)) = f # as"
| "err_text (Wrapped (Msg f as) e) = f # as @ err_text e"
| "err_text (GErr g c) =
     (code_String (eCode g) # (case eMessage g of Msg f as \<Rightarrow> f # as)) @
     (case c of None \<Rightarrow> [] | Some e \<Rightarrow> err_text e)"

definition From :: "goerr option \<Rightarrow> (gerr \<times> goerr option) option" where
  "From err =
     (case err of
        None \<Rightarrow> None
      | Some e \<Rightarrow>
          (case as_gerr e of
             Some g \<Rightarrow> Some g
           | None \<Rightarrow> Some (New Internal (Msg ''%s'' (err_text e)), Some e)))"

text \<open>\<open>(e *Error) Is(target)\<close>: errors match on the code alone.\<close>

definition err_Is :: "gerr \<Rightarrow> goerr \<Rightarrow> bool" where
  "err_Is e target = (case as_gerr target of None \<Rightarrow> False | Some (t, _) \<Rightarrow> eCode e = eCode t)"

definition WithHTTPStatus :: "int \<Rightarrow> gerr \<Rightarrow> gerr" where
  "WithHTTPStatus s e = e\<lparr>eHttpStatus := s\<rparr>"

definition WithReason :: "string \<Rightarrow> gerr \<Rightarrow> gerr" where
  "WithReason r e = e\<lparr>eReason := r\<rparr>"

definition WithLocation :: "string \<Rightarrow> string \<Rightarrow> gerr \<Rightarrow> gerr" where
  "WithLocation l lt e = e\<lparr>eLocation := l, eLocationType := lt\<rparr>"

definition WithDomain :: "string \<Rightarrow> gerr \<Rightarrow> gerr" where
  "WithDomain d e = e\<lparr>eDomain := d\<rparr>"

definition With :: "detail list \<Rightarrow> gerr \<Rightarrow> gerr" where
  "With ds e = e\<lparr>eDetails := eDetails e @ ds\<rparr>"

definition NewUnimplemented :: "string \<Rightarrow> gerr" where
  "NewUnimplemented oper =
     WithReason ''notImplemented''
       (WithHTTPStatus 501 (New Unimplemented (Msg ''operation not implemented: %s'' [oper])))"

definition HTTPStatus :: "gerr \<Rightarrow> int" where
  "HTTPStatus e =
     (if eHttpStatus e \<noteq> 0 then eHttpStatus e
      else case map_of canonicalHTTP (eCode e) of Some s \<Rightarrow> s | None \<Rightarrow> 500)"

definition HTTPStatusIsExplicit :: "gerr \<Rightarrow> bool" where
  "HTTPStatusIsExplicit e = (eHttpStatus e \<noteq> 0)"

subsection \<open>The JSON envelope (json.go)\<close>

record envelope_entry =
  enMessage :: gmsg
  enDomain :: string
  enReason :: string
  enLocation :: string
  enLocationType :: string

record envelope =
  evCode :: int
  evMessage :: gmsg
  evErrors :: "envelope_entry list"
  evStatus :: string

text \<open>The loop of \<open>lowerCamel\<close>; the flag says the next letter is raised.\<close>

fun camel_loop :: "bool \<Rightarrow> string \<Rightarrow> string" where
  "camel_loop up [] = []"
| "camel_loop up (c # s) =
     (if c = CHR ''_'' then camel_loop True s
      else if up then upper_char c # camel_loop False s
      else c # camel_loop up s)"

definition lowerCamel :: "string \<Rightarrow> string" where
  "lowerCamel s =
     (if s = '''' \<or> CHR ''_'' \<notin> set s then s else camel_loop False (map lower_char s))"

text \<open>\<open>ErrorInfo\<close> details fill an empty reason and an empty domain, the first one winning.\<close>

fun fill_info :: "detail list \<Rightarrow> string \<times> string \<Rightarrow> string \<times> string" where
  "fill_info [] rd = rd"
| "fill_info (ErrorInfo r d m # ds) (reason, domain) =
     fill_info ds (if reason = '''' then lowerCamel r else reason,
                   if domain = '''' then d else domain)"
| "fill_info (BadRequest _ # ds) rd = fill_info ds rd"
| "fill_info (PreconditionFailure _ # ds) rd = fill_info ds rd"

fun detail_entries :: "string \<Rightarrow> detail \<Rightarrow> envelope_entry list" where
  "detail_entries domain (ErrorInfo _ _ _) = []"
| "detail_entries domain (BadRequest fvs) =
     map (\<lambda>fv. \<lparr>enMessage = Msg (fvDescription fv) [], enDomain = domain, enReason = ''invalid'',
                enLocation = fvField fv, enLocationType = ''parameter''\<rparr>) fvs"
| "detail_entries domain (PreconditionFailure pvs) =
     map (\<lambda>pv. \<lparr>enMessage = Msg (pvDescription pv) [], enDomain = domain,
                enReason = lowerCamel (pvType pv), enLocation = pvSubject pv,
                enLocationType = ''''\<rparr>) pvs"

definition Envelope :: "gerr \<Rightarrow> envelope" where
  "Envelope e =
     (let (reason, domain0) = fill_info (eDetails e) (eReason e, eDomain e);
          domain = (if domain0 = '''' then ''global'' else domain0);
          primary = (if reason \<noteq> '''' \<or> eLocation e \<noteq> ''''
                     then [\<lparr>enMessage = eMessage e, enDomain = domain, enReason = reason,
                            enLocation = eLocation e, enLocationType = eLocationType e\<rparr>]
                     else [])
      in \<lparr>evCode = HTTPStatus e, evMessage = eMessage e,
          evErrors = primary @ concat (map (detail_entries domain) (eDetails e)),
          evStatus = code_String (eCode e)\<rparr>)"

text \<open>\<open>WriteJSON\<close>: the status line and the body it commits.\<close>

definition WriteJSON :: "goerr option \<Rightarrow> int \<times> envelope" where
  "WriteJSON err =
     (let e = (case From err of Some (g, _) \<Rightarrow> g | None \<Rightarrow> New Internal (Msg ''nil error'' []))
      in (HTTPStatus e, Envelope e))"

subsection \<open>gRPC status errors\<close>

text \<open>\<open>status.Errorf(code, format, args)\<close>, the error the RPC surfaces return.\<close>

record rpc_error =
  rpcCode :: gcode
  rpcMsg :: gmsg

definition Errorf :: "gcode \<Rightarrow> string \<Rightarrow> string list \<Rightarrow> rpc_error" where
  "Errorf c f as = \<lparr>rpcCode = c, rpcMsg = Msg f as\<rparr>"

lemmas gerr_with = New_def WithHTTPStatus_def WithReason_def WithLocation_def WithDomain_def With_def
declare Errorf_def [simp]

subsection \<open>Properties\<close>

lemma upper_char_not_underscore: "c \<noteq> CHR ''_'' \<Longrightarrow> CHR ''_'' \<noteq> upper_char c"
proof
  assume c: "c \<noteq> CHR ''_''" and eq: "CHR ''_'' = upper_char c"
  show False
  proof (cases "CHR ''a'' \<le> c \<and> c \<le> CHR ''z''")
    case True
    then have "(97::nat) \<le> of_char c" "of_char c \<le> (122::nat)"
      by (auto simp: less_eq_char_def)
    moreover from eq True have "CHR ''_'' = char_of (of_char c - (32::nat))"
      by (simp add: upper_char_def)
    then have "of_char (CHR ''_'') = (of_char (char_of (of_char c - (32::nat)) :: char) :: nat)"
      by (rule arg_cong)
    ultimately show False by auto
  next
    case False
    with c eq show False by (auto simp: upper_char_def split: if_splits)
  qed
qed

lemma camel_loop_no_underscore: "CHR ''_'' \<notin> set (camel_loop up s)"
  by (induction up s rule: camel_loop.induct) (simp_all add: upper_char_not_underscore)

lemma lowerCamel_no_underscore: "CHR ''_'' \<notin> set (lowerCamel s)"
  by (simp add: lowerCamel_def camel_loop_no_underscore)

lemma fill_info_keeps_reason: "r \<noteq> '''' \<Longrightarrow> fst (fill_info ds (r, d)) = r"
  by (induction ds "(r, d)" arbitrary: d rule: fill_info.induct) auto

lemma fill_info_keeps_domain: "d \<noteq> '''' \<Longrightarrow> snd (fill_info ds (r, d)) = d"
  by (induction ds "(r, d)" arbitrary: r rule: fill_info.induct) auto

lemma as_gerr_Wrap [simp]: "as_gerr (Wrap e c m) = Some (New c m, Some e)"
  by (simp add: Wrap_def)

end
