(* ===== verification/Fault_Rules.thy ===== *)
theory Fault_Rules
  imports Float64 Gerr
begin

text \<open>
  Fault injection (\<open>core/faults\<close>): rules that decide which requests fail, the live list that
  counts their firings, and the gRPC interceptor that applies them.

  \<open>Rule.Rate\<close> is a finite \<open>float64\<close>, given by mantissa and binary exponent; the product
  \<open>float64(seen) * rate\<close> is rounded to 53 bits, ties to even, as IEEE 754 does, before
  \<open>int(...)\<close> truncates it.  The counters of a live rule are \<open>int\<close>s in the code and natural numbers here: they agree
  until a rule has seen \<open>2^63\<close> requests, and a counter converts to \<open>float64\<close> exactly until it has seen \<open>2^53\<close>.
\<close>

subsection \<open>float64 products\<close>

primrec fl_pos :: "float64 \<Rightarrow> bool" where
  "fl_pos (Fl m e) = (0 < m)"

text \<open>\<open>int(float64(n) * r)\<close> for a positive rate.\<close>

primrec fl_times :: "nat \<Rightarrow> float64 \<Rightarrow> nat" where
  "fl_times n (Fl m e) =
     (let p = n * nat m; s = bit_len p - 53; q = round_shift s p; x = int s + e
      in if 0 \<le> x then q * 2 ^ nat x else q div 2 ^ nat (- x))"

subsection \<open>Rules\<close>

record rule =
  rMethod :: string
  rPath :: string
  rStatus :: int
  rCode :: gcode
  rMessage :: string
  rLatency :: duration
  rCount :: int
  rRate :: float64

definition rule_matches :: "rule \<Rightarrow> string \<Rightarrow> string \<Rightarrow> bool" where
  "rule_matches r method path =
     (if rMethod r \<noteq> '''' \<and> \<not> equalFold (rMethod r) method then False
      else if rPath r = '''' then True
      else if hasSuffix (rPath r) ''*'' then hasPrefix path (trimSuffix (rPath r) ''*'')
      else rPath r = path)"

definition rule_status :: "rule \<Rightarrow> int" where
  "rule_status r = (if rStatus r = 0 then 503 else rStatus r)"

definition rule_message :: "rule \<Rightarrow> string" where
  "rule_message r = (if rMessage r = '''' then ''injected fault'' else rMessage r)"

definition codeFor :: "int \<Rightarrow> gcode" where
  "codeFor status =
     (if status = 400 then InvalidArgument
      else if status = 401 then Unauthenticated
      else if status = 403 then PermissionDenied
      else if status = 404 then NotFound
      else if status = 409 then Aborted
      else if status = 429 then ResourceExhausted
      else if status = 500 then Internal
      else if status = 501 then Unimplemented
      else if status = 504 then DeadlineExceeded
      else Unavailable)"

definition rule_code :: "rule \<Rightarrow> gcode" where
  "rule_code r = (if rCode r \<noteq> 0 then rCode r else codeFor (rule_status r))"

definition FailsRequest :: "rule \<Rightarrow> bool" where
  "FailsRequest r \<longleftrightarrow> rStatus r \<noteq> 0 \<or> rCode r \<noteq> 0 \<or> rLatency r = 0"

definition rule_Err :: "rule \<Rightarrow> gerr" where
  "rule_Err r = WithHTTPStatus (rule_status r) (New (rule_code r) (Msg (rule_message r) []))"

subsection \<open>The live set\<close>

record live =
  lvRule :: rule
  lvLeft :: int
  lvSeen :: nat
  lvFailed :: nat

type_synonym fault_set = "live list"

definition Add :: "rule \<Rightarrow> fault_set \<Rightarrow> fault_set" where
  "Add r s = s @ [\<lparr>lvRule = r, lvLeft = (if rCount r \<le> 0 then -1 else rCount r), lvSeen = 0, lvFailed = 0\<rparr>]"

definition Clear :: "fault_set \<Rightarrow> fault_set" where
  "Clear s = []"

definition Len :: "fault_set \<Rightarrow> nat" where
  "Len s = length s"

text \<open>What \<open>Match\<close> does to the first rule that claims the request: it returns the answer and what is left of the rule.\<close>

definition claim_rule :: "live \<Rightarrow> rule option \<times> live list" where
  "claim_rule l =
     (let l1 = l\<lparr>lvSeen := lvSeen l + 1\<rparr>
      in if fl_pos (rRate (lvRule l)) \<and> fl_times (lvSeen l1) (rRate (lvRule l)) \<le> lvFailed l1
         then (None, [l1])
         else let l2 = l1\<lparr>lvFailed := lvFailed l1 + 1\<rparr>
              in if 0 < lvLeft l2
                 then (if lvLeft l2 - 1 = 0 then (Some (lvRule l), [])
                       else (Some (lvRule l), [l2\<lparr>lvLeft := lvLeft l2 - 1\<rparr>]))
                 else (Some (lvRule l), [l2]))"

fun Match :: "string \<Rightarrow> string \<Rightarrow> fault_set \<Rightarrow> rule option \<times> fault_set" where
  "Match method path [] = (None, [])"
| "Match method path (l # ls) =
     (if \<not> rule_matches (lvRule l) method path
      then (let (r, ls') = Match method path ls in (r, l # ls'))
      else (let (r, kept) = claim_rule l in (r, kept @ ls)))"

definition Snapshot :: "fault_set \<Rightarrow> rule list" where
  "Snapshot s = map (\<lambda>l. if 0 < lvLeft l then (lvRule l)\<lparr>rCount := lvLeft l\<rparr> else lvRule l) s"

definition Rules :: "fault_set \<Rightarrow> rule list" where
  "Rules s = map lvRule s"

subsection \<open>The gRPC interceptor\<close>

text \<open>
  \<open>elapsed\<close> is the outcome of \<open>sleep\<close>: whether the latency passed on the clock before the
  call was cancelled.  \<open>status.FromContextError\<close> maps a context error onto its code.
\<close>

fun FromContextError :: "ctx \<Rightarrow> rpc_error" where
  "FromContextError CtxDeadline = Errorf DeadlineExceeded ''context deadline exceeded'' []"
| "FromContextError CtxCanceled = Errorf Canceled ''context canceled'' []"
| "FromContextError CtxLive = Errorf OK '''' []"

definition UnaryServerInterceptor ::
  "string \<Rightarrow> ctx \<Rightarrow> bool \<Rightarrow> (rpc_error, 'a) result \<Rightarrow> fault_set \<Rightarrow> (rpc_error, 'a) result \<times> fault_set" where
  "UnaryServerInterceptor fullMethod cx elapsed handled s =
     (case Match '''' fullMethod s of
        (None, s') \<Rightarrow> (handled, s')
      | (Some r, s') \<Rightarrow>
          if 0 < rLatency r \<and> \<not> elapsed then (Err (FromContextError cx), s')
          else if \<not> FailsRequest r then (handled, s')
          else (Err (Errorf (rule_code r) (rule_message r) []), s'))"

subsection \<open>Lemmas\<close>

text \<open>Only the first rule that claims a request sees it.\<close>

lemma Match_first:
  assumes "\<forall>l\<in>set pre. \<not> rule_matches (lvRule l) m p" and "rule_matches (lvRule l) m p"
  shows "Match m p (pre @ l # post) = (fst (claim_rule l), pre @ snd (claim_rule l) @ post)"
  using assms(1) by (induction pre) (simp_all add: assms(2) split: prod.split)

lemma Match_none: "\<forall>l\<in>set s. \<not> rule_matches (lvRule l) m p \<Longrightarrow> Match m p s = (None, s)"
  by (induction s) auto

text \<open>A sequence of requests against the set.\<close>

fun match_all :: "(string \<times> string) list \<Rightarrow> fault_set \<Rightarrow> rule option list \<times> fault_set" where
  "match_all [] s = ([], s)"
| "match_all ((m, p) # reqs) s =
     (let (r, s1) = Match m p s; (rs, s2) = match_all reqs s1 in (r # rs, s2))"

definition claims :: "live list \<Rightarrow> rule \<Rightarrow> string \<times> string \<Rightarrow> bool" where
  "claims pre r q \<longleftrightarrow> rule_matches r (fst q) (snd q) \<and> (\<forall>l\<in>set pre. \<not> rule_matches (lvRule l) (fst q) (snd q))"

lemma match_all_counted:
  assumes "\<forall>q\<in>set reqs. claims pre (lvRule l) q" and "\<not> fl_pos (rRate (lvRule l))"
    and "lvLeft l = int (length reqs + c)" and "0 < length reqs + c"
  shows "match_all reqs (pre @ l # post) =
    (replicate (length reqs) (Some (lvRule l)),
     pre @ (if c = 0 then []
            else [l\<lparr>lvSeen := lvSeen l + length reqs, lvFailed := lvFailed l + length reqs, lvLeft := int c\<rparr>]) @ post)"
  using assms
proof (induction reqs arbitrary: l)
  case (Cons q reqs)
  obtain m p where q: "q = (m, p)" by force
  let ?l = "l\<lparr>lvSeen := lvSeen l + 1, lvFailed := lvFailed l + 1, lvLeft := lvLeft l - 1\<rparr>"
  have first: "Match m p (pre @ l # post) = (fst (claim_rule l), pre @ snd (claim_rule l) @ post)"
    using Cons.prems(1) q by (intro Match_first) (auto simp: claims_def)
  have claim: "claim_rule l = (Some (lvRule l), if length reqs + c = 0 then [] else [?l])"
    using Cons.prems(2,3) by (cases "length reqs + c") (auto simp: claim_rule_def Let_def)
  show ?case
  proof (cases "length reqs + c = 0")
    case True
    with first claim q show ?thesis by simp
  next
    case False
    have "match_all reqs (pre @ ?l # post) =
      (replicate (length reqs) (Some (lvRule l)),
       pre @ (if c = 0 then []
              else [?l\<lparr>lvSeen := lvSeen ?l + length reqs, lvFailed := lvFailed ?l + length reqs, lvLeft := int c\<rparr>]) @ post)"
      using Cons.IH [of ?l] Cons.prems False by simp
    with first claim q False show ?thesis by simp
  qed
qed auto

text \<open>The rate gate: how many of the requests seen so far have failed.\<close>

lemma match_all_rated:
  assumes "\<forall>q\<in>set reqs. claims pre (lvRule l) q" and "rRate (lvRule l) = rt" and "fl_pos rt" and "lvLeft l = -1"
    and "lvFailed l = fl_times (lvSeen l) rt"
    and "\<forall>i<length reqs. fl_times (lvSeen l + i) rt \<le> fl_times (Suc (lvSeen l + i)) rt \<and>
           fl_times (Suc (lvSeen l + i)) rt \<le> Suc (fl_times (lvSeen l + i) rt)"
  shows "match_all reqs (pre @ l # post) =
    (map (\<lambda>i. if fl_times (lvSeen l + i) rt < fl_times (Suc (lvSeen l + i)) rt then Some (lvRule l) else None) [0..<length reqs],
     pre @ l\<lparr>lvSeen := lvSeen l + length reqs, lvFailed := fl_times (lvSeen l + length reqs) rt\<rparr> # post)"
  using assms
proof (induction reqs arbitrary: l)
  case (Cons q reqs)
  obtain m p where q: "q = (m, p)" by force
  let ?b = "fl_times (lvSeen l) rt < fl_times (Suc (lvSeen l)) rt"
  let ?l = "l\<lparr>lvSeen := lvSeen l + 1, lvFailed := fl_times (lvSeen l + 1) rt\<rparr>"
  have step: "fl_times (lvSeen l) rt \<le> fl_times (Suc (lvSeen l)) rt"
    "fl_times (Suc (lvSeen l)) rt \<le> Suc (fl_times (lvSeen l) rt)"
    using Cons.prems(6) by (auto dest: spec [of _ 0])
  have first: "Match m p (pre @ l # post) = (fst (claim_rule l), pre @ snd (claim_rule l) @ post)"
    using Cons.prems(1) q by (intro Match_first) (auto simp: claims_def)
  have claim: "claim_rule l = (if ?b then Some (lvRule l) else None, [?l])"
    using Cons.prems(2-5) step by (auto simp: claim_rule_def Let_def)
  have "\<forall>i<length reqs. fl_times (lvSeen ?l + i) rt \<le> fl_times (Suc (lvSeen ?l + i)) rt \<and>
           fl_times (Suc (lvSeen ?l + i)) rt \<le> Suc (fl_times (lvSeen ?l + i) rt)"
    using Cons.prems(6) by (auto dest: spec [of _ "Suc _"])
  then have rest: "match_all reqs (pre @ ?l # post) =
    (map (\<lambda>i. if fl_times (Suc (lvSeen l) + i) rt < fl_times (Suc (Suc (lvSeen l) + i)) rt then Some (lvRule l) else None) [0..<length reqs],
     pre @ l\<lparr>lvSeen := Suc (lvSeen l) + length reqs, lvFailed := fl_times (Suc (lvSeen l) + length reqs) rt\<rparr> # post)"
    using Cons.IH [of ?l] Cons.prems by simp
  have "[0..<length (q # reqs)] = 0 # map Suc [0..<length reqs]"
    by (simp add: upt_conv_Cons map_Suc_upt del: upt_Suc)
  with first claim rest q show ?case by (simp add: Let_def comp_def del: upt_Suc)
qed (simp add: fl_times_def)

subsection \<open>Properties\<close>

text \<open>
  C37: a rule added with \<open>Count = c\<close> and no rate is the one \<open>Match\<close> returns for exactly the first \<open>c\<close> requests that
  match it and no rule before it claims; it is then dropped, leaving the other rules as they were, so the next
  request is decided by the remaining rules alone.  What the rule does to those requests, an error or a delay, is what it says.
\<close>

theorem counted_rule_fails_exactly_count:
  assumes "\<forall>q\<in>set reqs. claims s r q" and "\<not> fl_pos (rRate r)" and "0 < rCount r"
    and "int (length reqs) = rCount r"
  shows "match_all reqs (Add r s) = (replicate (length reqs) (Some r), s)"
proof -
  have "reqs \<noteq> []" using assms(3,4) by auto
  then show ?thesis
    using match_all_counted [of reqs s "\<lparr>lvRule = r, lvLeft = rCount r, lvSeen = 0, lvFailed = 0\<rparr>" 0 "[]"] assms
    by (simp add: Add_def)
qed

definition demo_rule :: "int \<Rightarrow> float64 \<Rightarrow> rule" where
  "demo_rule c rt = \<lparr>rMethod = '''', rPath = ''/storage/*'', rStatus = 0, rCode = 0, rMessage = '''',
     rLatency = 0, rCount = c, rRate = rt\<rparr>"

lemma demo_rule_claims: "claims [] (demo_rule c rt) (''GET'', ''/storage/b'')"
  by (simp add: claims_def demo_rule_def rule_matches_def hasSuffix_def hasPrefix_def trimSuffix_def suffix_def)

theorem counted_rule_fails_exactly_count_witness:
  "match_all [(''GET'', ''/storage/b''), (''GET'', ''/storage/b'')] (Add (demo_rule 2 (Fl 0 0)) []) =
     ([Some (demo_rule 2 (Fl 0 0)), Some (demo_rule 2 (Fl 0 0))], [])"
  using counted_rule_fails_exactly_count
    [of "[(''GET'', ''/storage/b''), (''GET'', ''/storage/b'')]" "[]" "demo_rule 2 (Fl 0 0)"]
    demo_rule_claims [of 2 "Fl 0 0"]
  by (simp add: demo_rule_def numeral_2_eq_2)

text \<open>
  A rule with a rate and no count fails request number \<open>i+1\<close> exactly when
  \<open>int(float64(i+1) * rate)\<close> exceeds \<open>int(float64(i) * rate)\<close>, so after \<open>n\<close> requests it has failed
  \<open>int(float64(n) * rate)\<close> of them, wherever the rounded product grows by at most one per request.
\<close>

theorem rated_rule_fails_rounded_share:
  assumes "\<forall>q\<in>set reqs. claims s r q" and "fl_pos (rRate r)" and "rCount r \<le> 0"
    and "\<forall>i<length reqs. fl_times i (rRate r) \<le> fl_times (Suc i) (rRate r) \<and>
           fl_times (Suc i) (rRate r) \<le> Suc (fl_times i (rRate r))"
  shows "match_all reqs (Add r s) =
    (map (\<lambda>i. if fl_times i (rRate r) < fl_times (Suc i) (rRate r) then Some r else None) [0..<length reqs],
     s @ [\<lparr>lvRule = r, lvLeft = -1, lvSeen = length reqs, lvFailed = fl_times (length reqs) (rRate r)\<rparr>])"
proof -
  have "fl_times 0 (rRate r) = 0"
    by (cases "rRate r") (simp add: round_shift_def)
  then show ?thesis
    using match_all_rated [of reqs s "\<lparr>lvRule = r, lvLeft = -1, lvSeen = 0, lvFailed = 0\<rparr>" "rRate r" "[]"] assms
    by (simp add: Add_def)
qed

text \<open>The \<open>float64\<close> nearest to 0.2.\<close>

definition fl_fifth :: float64 where
  "fl_fifth = Fl 3602879701896397 (-54)"

lemma fl_fifth_times:
  "fl_times 0 fl_fifth = 0" "fl_times 1 fl_fifth = 0" "fl_times 2 fl_fifth = 0" "fl_times 3 fl_fifth = 0"
  "fl_times 4 fl_fifth = 0" "fl_times 5 fl_fifth = 1"
  by (simp_all add: fl_fifth_def round_shift_def bit_len_pos Let_def)

theorem rated_rule_fails_rounded_share_witness:
  "fst (match_all (replicate 5 (''GET'', ''/storage/b'')) (Add (demo_rule 0 fl_fifth) [])) =
     [None, None, None, None, Some (demo_rule 0 fl_fifth)]"
proof -
  let ?r = "demo_rule 0 fl_fifth"
  have rate: "rRate ?r = fl_fifth" "fl_pos fl_fifth" "rCount ?r \<le> 0" by (simp_all add: demo_rule_def fl_fifth_def)
  have up: "\<forall>i<5. fl_times i fl_fifth \<le> fl_times (Suc i) fl_fifth \<and> fl_times (Suc i) fl_fifth \<le> Suc (fl_times i fl_fifth)"
    using fl_fifth_times by (auto simp: less_Suc_eq numeral_eq_Suc simp del: fl_times.simps)
  have "[0..<5] = [0, 1, 2, 3, 4::nat]" by (simp add: upt_rec)
  with rated_rule_fails_rounded_share [of "replicate 5 (''GET'', ''/storage/b'')" "[]" ?r]
    rate up demo_rule_claims [of 0 fl_fifth] fl_fifth_times
  show ?thesis by (simp del: fl_times.simps add: numeral_eq_Suc)
qed

text \<open>Every armed rule has a firing left: -1 without a count, otherwise one to \<open>Count\<close>.\<close>

definition left_ok :: "live \<Rightarrow> bool" where
  "left_ok l = (if rCount (lvRule l) \<le> 0 then lvLeft l = -1 else 0 < lvLeft l \<and> lvLeft l \<le> rCount (lvRule l))"

definition fault_wf :: "fault_set \<Rightarrow> bool" where
  "fault_wf s = list_all left_ok s"

lemma Add_fault_wf [go_inv]: "fault_wf s \<Longrightarrow> fault_wf (Add r s)"
  by (simp add: fault_wf_def Add_def left_ok_def)

lemma claim_rule_left_ok: "left_ok l \<Longrightarrow> list_all left_ok (snd (claim_rule l))"
  unfolding claim_rule_def Let_def left_ok_def by (cases "rCount (lvRule l) \<le> 0") auto

lemma Match_fault_wf [go_inv]: "fault_wf s \<Longrightarrow> fault_wf (snd (Match m p s))"
  by (induction s) (auto simp: fault_wf_def dest: claim_rule_left_ok split: prod.splits)

text \<open>
  Arming the rules of a \<open>Snapshot\<close> in an empty set gives rules that match the same requests in
  the same order and have the same number of firings left as the set the snapshot was taken of.
\<close>

theorem snapshot_keeps_remaining_firings:
  assumes "fault_wf s"
  shows "map (\<lambda>l. ((lvRule l)\<lparr>rCount := 0\<rparr>, lvLeft l)) (foldl (\<lambda>s r. Add r s) [] (Snapshot s)) =
           map (\<lambda>l. ((lvRule l)\<lparr>rCount := 0\<rparr>, lvLeft l)) s"
proof -
  have "foldl (\<lambda>s r. Add r s) a rs = a @ concat (map (\<lambda>r. Add r []) rs)" for a rs
    by (induction rs arbitrary: a) (simp_all add: Add_def)
  then have restored: "foldl (\<lambda>s r. Add r s) [] (Snapshot s) = concat (map (\<lambda>r. Add r []) (Snapshot s))" by simp
  show ?thesis
    unfolding restored using assms
    by (induction s) (simp_all add: Snapshot_def Add_def fault_wf_def left_ok_def split: if_splits)
qed

theorem snapshot_keeps_remaining_firings_witness:
  "map lvLeft (foldl (\<lambda>s r. Add r s) [] (Snapshot (Add (demo_rule 2 (Fl 0 0)) []))) = [2]"
  using snapshot_keeps_remaining_firings [OF Add_fault_wf, of "[]" "demo_rule 2 (Fl 0 0)"]
  by (simp add: fault_wf_def Add_def Snapshot_def demo_rule_def left_ok_def)

end
