(* ===== verification/Log_Ring.thy ===== *)
theory Log_Ring
  imports Go_Prelude
begin

text \<open>
  The bounded log of a child process (\<open>core/logring\<close>): chunks are cut into lines, the last
  \<open>max\<close> lines are kept and each new line is offered to the followers' buffered channels.
  A channel is its number with the lines it buffers.
\<close>

subsection \<open>State and operations\<close>

record ring =
  rgMax :: nat
  rgLines :: "string list"
  rgPartial :: string
  rgSubs :: "(nat \<times> string list) list"
  rgNext :: nat  \<comment> \<open>number of the next channel made\<close>

abbreviation newline :: char where "newline \<equiv> CHR 0x0A"

definition chanCap :: nat where "chanCap = 256"

definition New_ring :: "nat \<Rightarrow> ring" where
  "New_ring mx = \<lparr>rgMax = mx, rgLines = [], rgPartial = '''', rgSubs = [], rgNext = 0\<rparr>"

definition trimRight_cr :: "string \<Rightarrow> string" where
  "trimRight_cr s = rev (dropWhile (\<lambda>c. c = CHR 0x0D) (rev s))"

text \<open>A send that does not block: a full channel loses the line.\<close>

definition offer :: "string \<Rightarrow> string list \<Rightarrow> string list" where
  "offer line buf = (if length buf < chanCap then buf @ [line] else buf)"

definition appendLine :: "string \<Rightarrow> ring \<Rightarrow> ring" where
  "appendLine line l =
     (let ls = rgLines l @ [line];
          over = int (length ls) - int (rgMax l)
      in l\<lparr>rgLines := (if 0 < over then drop (nat over) ls else ls),
           rgSubs := map (\<lambda>(ch, buf). (ch, offer line buf)) (rgSubs l)\<rparr>)"

function write_loop :: "ring \<Rightarrow> ring" where
  "write_loop l =
     (case go_index (rgPartial l) [newline] of
        None \<Rightarrow> l
      | Some i \<Rightarrow>
          write_loop ((appendLine (trimRight_cr (take i (rgPartial l))) l)\<lparr>rgPartial := drop (i + 1) (rgPartial l)\<rparr>))"
  by pat_completeness auto
termination
proof (relation "measure (\<lambda>l. length (rgPartial l))")
  fix l :: ring and i
  assume "go_index (rgPartial l) [newline] = Some i"
  then have "prefix [newline] (drop i (rgPartial l))" using go_index_SomeD by blast
  then have "rgPartial l \<noteq> ''''" by auto
  then show "((appendLine (trimRight_cr (take i (rgPartial l))) l)\<lparr>rgPartial := drop (i + 1) (rgPartial l)\<rparr>, l)
      \<in> measure (\<lambda>l. length (rgPartial l))" by simp
qed simp

declare write_loop.simps [simp del]

definition Write :: "string \<Rightarrow> ring \<Rightarrow> int \<times> ring" where
  "Write p l = (int (length p), write_loop (l\<lparr>rgPartial := rgPartial l @ p\<rparr>))"

definition ring_Snapshot :: "ring \<Rightarrow> string list" where
  "ring_Snapshot l = rgLines l"

definition Tail :: "nat \<Rightarrow> ring \<Rightarrow> string" where
  "Tail n l =
     (let ls = ring_Snapshot l
      in join_with [newline] (if n < length ls then drop (length ls - n) ls else ls))"

definition Follow :: "ring \<Rightarrow> nat \<times> ring" where
  "Follow l = (rgNext l, l\<lparr>rgSubs := rgSubs l @ [(rgNext l, [])], rgNext := rgNext l + 1\<rparr>)"

definition Unfollow :: "nat \<Rightarrow> ring \<Rightarrow> ring" where
  "Unfollow ch l = l\<lparr>rgSubs := filter (\<lambda>(c, _). c \<noteq> ch) (rgSubs l)\<rparr>"

subsection \<open>Specification\<close>

definition last_n :: "nat \<Rightarrow> 'a list \<Rightarrow> 'a list" where
  "last_n n xs = drop (length xs - n) xs"

text \<open>The complete lines of a text, as a child would have written them, and what follows the last newline.\<close>

definition complete_lines :: "string \<Rightarrow> string list" where
  "complete_lines s = map trimRight_cr (butlast (split_on newline s))"

definition rest_of :: "string \<Rightarrow> string" where
  "rest_of s = last (split_on newline s)"

definition push_lines :: "string list \<Rightarrow> ring \<Rightarrow> ring" where
  "push_lines ls l = fold appendLine ls l"

lemma complete_lines_simps:
  "newline \<notin> set s \<Longrightarrow> complete_lines s = []"
  "newline \<notin> set w \<Longrightarrow> complete_lines (w @ newline # s) = trimRight_cr w # complete_lines s"
  "newline \<notin> set s \<Longrightarrow> rest_of s = s"
  "newline \<notin> set w \<Longrightarrow> rest_of (w @ newline # s) = rest_of s"
  by (simp_all add: complete_lines_def rest_of_def split_on_word split_on_append)

lemma appendLine_partial: "appendLine x (l\<lparr>rgPartial := p\<rparr>) = (appendLine x l)\<lparr>rgPartial := p\<rparr>"
  by (simp add: appendLine_def Let_def)

lemma push_lines_partial: "push_lines ls (l\<lparr>rgPartial := p\<rparr>) = (push_lines ls l)\<lparr>rgPartial := p\<rparr>"
  by (induction ls arbitrary: l) (simp_all add: push_lines_def appendLine_partial)

lemma write_loop_spec:
  "write_loop l = (push_lines (complete_lines (rgPartial l)) l)\<lparr>rgPartial := rest_of (rgPartial l)\<rparr>"
proof (induction l rule: write_loop.induct)
  case (1 l)
  show ?case
  proof (cases "newline \<in> set (rgPartial l)")
    case True
    then obtain a b where s: "rgPartial l = a @ newline # b" "newline \<notin> set a" by (metis split_list_first)
    then have i: "go_index (rgPartial l) [newline] = Some (length a)" using go_index_char [of newline a "[]" b] by simp
    have "write_loop l = write_loop ((appendLine (trimRight_cr a) l)\<lparr>rgPartial := b\<rparr>)"
      by (subst write_loop.simps) (simp add: i, simp add: s)
    also have "\<dots> = (push_lines (complete_lines b) (appendLine (trimRight_cr a) l))\<lparr>rgPartial := rest_of b\<rparr>"
      using "1.IH" [OF i] s by (simp add: push_lines_partial)
    finally show ?thesis using s by (simp add: complete_lines_simps push_lines_def)
  next
    case False
    have "\<not> prefix [newline] (drop i (rgPartial l))" for i
      using False set_mono_prefix [of "[newline]" "drop i (rgPartial l)"] by (auto dest: in_set_dropD)
    then have "go_index (rgPartial l) [newline] = None"
      by (simp add: go_index_None_iff)
    with False show ?thesis
      by (subst write_loop.simps) (simp add: complete_lines_simps push_lines_def)
  qed
qed

lemma split_on_join: "split_on c (s @ t) = butlast (split_on c s) @ split_on c (last (split_on c s) @ t)"
proof (induction "length s" arbitrary: s rule: less_induct)
  case less
  show ?case
  proof (cases "c \<in> set s")
    case True
    then obtain a b where s: "s = a @ c # b" "c \<notin> set a" by (metis split_list_first)
    with less [of b] show ?thesis by (simp add: split_on_append)
  qed (simp add: split_on_word)
qed

lemma complete_lines_append: "complete_lines (s @ t) = complete_lines s @ complete_lines (rest_of s @ t)"
  by (simp add: complete_lines_def rest_of_def split_on_join [of newline s t] butlast_append)

lemma rest_of_append: "rest_of (s @ t) = rest_of (rest_of s @ t)"
  by (simp add: rest_of_def split_on_join [of newline s t])

lemma push_lines_append: "push_lines (a @ b) l = push_lines b (push_lines a l)"
  by (simp add: push_lines_def)

lemma push_partial [simp]: "rgPartial (push_lines ls l) = rgPartial l"
  by (induction ls arbitrary: l) (simp_all add: push_lines_def appendLine_def Let_def)

lemma appendLine_lines: "rgLines (appendLine x l) = last_n (rgMax l) (rgLines l @ [x])"
proof -
  have "nat (int (length (rgLines l @ [x])) - int (rgMax l)) = length (rgLines l @ [x]) - rgMax l"
    by linarith
  then show ?thesis by (simp add: appendLine_def Let_def last_n_def)
qed

lemma last_n_snoc: "last_n n (last_n n xs @ ys) = last_n n (xs @ ys)"
proof (cases "length xs \<le> n")
  case False
  then have "length xs + length ys - (length xs - n + n) + (length xs - n) = length xs + length ys - n" by simp
  with False show ?thesis by (simp add: last_n_def)
qed (simp add: last_n_def)

lemma push_lines_lines: "rgLines l = last_n (rgMax l) ks \<Longrightarrow> rgLines (push_lines ls l) = last_n (rgMax l) (ks @ ls)"
proof (induction ls arbitrary: l ks)
  case (Cons x ls)
  have "rgMax (appendLine x l) = rgMax l" by (simp add: appendLine_def Let_def)
  with Cons.IH [of "appendLine x l" "ks @ [x]"] Cons.prems show ?case
    by (simp add: push_lines_def appendLine_lines last_n_snoc)
qed (simp add: push_lines_def)

lemma push_lines_subs:
  "rgSubs (push_lines ls l) = map (\<lambda>(ch, buf). (ch, fold offer ls buf)) (rgSubs l)"
  by (induction ls arbitrary: l) (auto simp: push_lines_def appendLine_def Let_def)

lemma fold_offer: "length buf \<le> chanCap \<Longrightarrow> fold offer ls buf = take chanCap (buf @ ls)"
  by (induction ls arbitrary: buf) (auto simp: offer_def take_Cons' Suc_diff_Suc)

subsection \<open>Properties\<close>

text \<open>
  C38: how a child's output is cut into chunks makes no difference: writing \<open>a\<close> and then \<open>b\<close>
  leaves the ring, its pending line and every follower exactly as writing \<open>a @ b\<close> at once.
\<close>

theorem Write_chunk_invariant: "snd (Write b (snd (Write a l))) = snd (Write (a @ b) l)"
  by (simp add: Write_def write_loop_spec push_lines_partial push_lines_append
      complete_lines_append [of "rgPartial l @ a" b, simplified] rest_of_append [of "rgPartial l @ a" b, simplified])

text \<open>
  After any text is written to a new ring, in whatever chunks, the ring holds exactly the last
  \<open>max\<close> complete lines of the text, without their line ends, and a follower that has not read yet
  holds the first 256 lines completed since it began to follow.
\<close>

theorem Write_keeps_last_lines:
  "ring_Snapshot (snd (Write s (New_ring mx))) = last_n mx (complete_lines s) \<and>
   rgSubs (snd (Write s (snd (Follow (New_ring mx))))) = [(0, take 256 (complete_lines s))]"
  using push_lines_lines [of "New_ring mx\<lparr>rgPartial := s\<rparr>" "[]" "complete_lines s"]
  by (simp add: ring_Snapshot_def Write_def write_loop_spec push_lines_partial push_lines_subs fold_offer
      Follow_def New_ring_def last_n_def chanCap_def)

end
