(* ===== verification/Event_Bus.thy ===== *)
theory Event_Bus
  imports Go_Prelude "HOL-Library.Multiset" "HOL-Library.AList"
begin

text \<open>
  The in-process event bus (\<open>core/events\<close>).  A handler is a value of the client's type \<open>'h\<close> and
  a payload of type \<open>'d\<close>.  \<open>Publish\<close> starts one goroutine per interested subscriber; the
  goroutines whose handler has not returned are \<open>busWork\<close>, and run in any order.  \<open>busWG\<close> is the
  counter of the wait group, which \<open>Sync\<close> waits on.
\<close>

subsection \<open>State and operations\<close>

record 'd event =
  evType :: string
  evSource :: string
  evSubject :: string
  evResource :: string
  evService :: string
  evKind :: string
  evTime :: time
  evData :: 'd

text \<open>The payloads the services publish: the values of a \<open>map[string]any\<close>, before encoding.\<close>

datatype jval = JStr string | JTime time | JMap "(string \<times> string) list"

type_synonym payload = "(string \<times> jval) list"

record ('h, 'd) subscription =
  subMatch :: "('d event \<Rightarrow> bool) option"  \<comment> \<open>\<open>None\<close> is the nil \<open>Match\<close>\<close>
  subFn :: 'h

record ('h, 'd) bus =
  busNext :: nat
  busSubs :: "(nat \<times> ('h, 'd) subscription) list"
  busStarted :: nat
  busWG :: int
  busWork :: "('h \<times> 'd event) list"

definition New_bus :: "('h, 'd) bus" where
  "New_bus = \<lparr>busNext = 0, busSubs = [], busStarted = 0, busWG = 0, busWork = []\<rparr>"

definition Subscribe ::
  "('d event \<Rightarrow> bool) option \<Rightarrow> 'h \<Rightarrow> ('h, 'd) bus \<Rightarrow> nat \<times> ('h, 'd) bus" where
  "Subscribe m fn b =
     (let i = busNext b
      in (i, b\<lparr>busNext := u64 (busNext b + 1),
               busSubs := AList.update i \<lparr>subMatch = m, subFn = fn\<rparr> (busSubs b)\<rparr>))"

definition Unsubscribe :: "nat \<Rightarrow> ('h, 'd) bus \<Rightarrow> ('h, 'd) bus" where
  "Unsubscribe i b = b\<lparr>busSubs := AList.delete i (busSubs b)\<rparr>"

definition accepts :: "('h, 'd) subscription \<Rightarrow> 'd event \<Rightarrow> bool" where
  "accepts s e = (case subMatch s of None \<Rightarrow> True | Some m \<Rightarrow> m e)"

definition interested :: "'d event \<Rightarrow> ('h, 'd) bus \<Rightarrow> 'h list" where
  "interested e b = map (\<lambda>(i, s). subFn s) (filter (\<lambda>(i, s). accepts s e) (busSubs b))"

text \<open>One turn of the loop of \<open>Publish\<close>, and what a goroutine does when its handler has returned.\<close>

definition launch :: "'h \<times> 'd event \<Rightarrow> ('h, 'd) bus \<Rightarrow> ('h, 'd) bus" where
  "launch d b = b\<lparr>busStarted := u64 (busStarted b + 1), busWG := busWG b + 1, busWork := busWork b @ [d]\<rparr>"

definition finished :: "('h, 'd) bus \<Rightarrow> ('h, 'd) bus" where
  "finished b = b\<lparr>busWG := busWG b - 1\<rparr>"

definition Publish :: "'d event \<Rightarrow> ('h, 'd) bus \<Rightarrow> ('h, 'd) bus" where
  "Publish e b = foldl (\<lambda>b fn. launch (fn, e) b) b (interested e b)"

definition Started :: "('h, 'd) bus \<Rightarrow> nat" where
  "Started b = busStarted b"

text \<open>\<open>Sync\<close> returns once the counter of the wait group is zero.\<close>

definition Sync_returns :: "('h, 'd) bus \<Rightarrow> bool" where
  "Sync_returns b \<longleftrightarrow> busWG b = 0"

subsection \<open>Runs of the bus\<close>

text \<open>
  A run of the bus: subscribers come and go, publishers overlap and the goroutines run in any order.
  A publisher first takes the handlers interested in its event, then starts them one by one; \<open>todo\<close>
  is what the publishers under way have still to start.  A goroutine runs its handler, then counts
  itself off; \<open>n\<close> is the number of those between the two.  \<open>log\<close> is the deliveries made and
  \<open>want\<close> the deliveries the published events call for.
\<close>

inductive bus_run ::
  "('h \<times> 'd event) multiset \<Rightarrow> ('h \<times> 'd event) multiset \<Rightarrow> ('h \<times> 'd event) list \<Rightarrow> nat \<Rightarrow> ('h, 'd) bus \<Rightarrow> bool" where
  start: "bus_run {#} {#} [] 0 New_bus"
| publish: "bus_run want todo log n b \<Longrightarrow>
    bus_run (want + image_mset (\<lambda>x. (subFn (snd x), e)) (filter_mset (\<lambda>x. accepts (snd x) e) (mset (busSubs b))))
      (todo + mset (map (\<lambda>fn. (fn, e)) (interested e b))) log n b"
| launch: "bus_run want (add_mset d todo) log n b \<Longrightarrow> bus_run want todo log n (launch d b)"
| deliver: "bus_run want todo log n b \<Longrightarrow> busWork b = xs @ d # ys \<Longrightarrow>
    bus_run want todo (log @ [d]) (Suc n) (b\<lparr>busWork := xs @ ys\<rparr>)"
| finish: "bus_run want todo log (Suc n) b \<Longrightarrow> bus_run want todo log n (finished b)"
| subscribe: "bus_run want todo log n b \<Longrightarrow> bus_run want todo log n (snd (Subscribe m fn b))"
| unsubscribe: "bus_run want todo log n b \<Longrightarrow> bus_run want todo log n (Unsubscribe i b)"

lemma u64_add [simp]: "u64 (u64 a + b) = u64 (a + b)"
  by (simp add: u64_def mod_add_left_eq)

lemma u64_Suc [simp]: "u64 (Suc (u64 a)) = u64 (Suc a)"
  by (simp add: u64_def mod_Suc_eq)

lemma Subscribe_fields [simp]:
  "busWork (snd (Subscribe m fn b)) = busWork b" "busStarted (snd (Subscribe m fn b)) = busStarted b"
  "busWG (snd (Subscribe m fn b)) = busWG b"
  by (simp_all add: Subscribe_def Let_def)

lemma Unsubscribe_fields [simp]:
  "busWork (Unsubscribe i b) = busWork b" "busStarted (Unsubscribe i b) = busStarted b" "busWG (Unsubscribe i b) = busWG b"
  by (simp_all add: Unsubscribe_def)

lemma launch_fields [simp]:
  "busWork (launch d b) = busWork b @ [d]" "busStarted (launch d b) = u64 (busStarted b + 1)" "busWG (launch d b) = busWG b + 1"
  "busSubs (launch d b) = busSubs b"
  by (simp_all add: launch_def)

lemma interested_mset:
  "mset (map (\<lambda>fn. (fn, e)) (interested e b)) =
     image_mset (\<lambda>x. (subFn (snd x), e)) (filter_mset (\<lambda>x. accepts (snd x) e) (mset (busSubs b)))"
  by (simp add: interested_def image_mset.compositionality comp_def case_prod_beta)

text \<open>The counter is the goroutines not counted off, and every wanted delivery is at one place.\<close>

lemma bus_run_inv:
  "bus_run want todo log n b \<Longrightarrow>
     busWG b = int (length (busWork b) + n) \<and> want = todo + mset (busWork b) + mset log \<and>
     busStarted b = u64 (length log + length (busWork b))"
proof (induction rule: bus_run.induct)
  case (publish want todo log n b e)
  then show ?case using interested_mset [of e b] by simp
qed (simp_all add: New_bus_def finished_def u64_def [of 0])

text \<open>From any state the publishers and goroutines can all run to their end.\<close>

lemma bus_run_launches:
  "bus_run want (todo + mset ds) log n b \<Longrightarrow> bus_run want todo log n (foldl (\<lambda>b d. launch d b) b ds)"
  by (induction ds arbitrary: b) (auto intro: bus_run.launch)

lemma bus_run_deliveries:
  "bus_run want todo log n b \<Longrightarrow> \<exists>b'. bus_run want todo (log @ busWork b) (n + length (busWork b)) b' \<and> busWork b' = []"
proof (induction "busWork b" arbitrary: b log n)
  case Nil
  then show ?case by (intro exI [of _ b]) (simp add: Nil(1) [symmetric])
next
  case (Cons d ds)
  have "bus_run want todo (log @ [d]) (Suc n) (b\<lparr>busWork := ds\<rparr>)"
    using bus_run.deliver [OF Cons.prems, of "[]" d ds] Cons.hyps(2) by simp
  then show ?case using Cons.hyps(1) [of "b\<lparr>busWork := ds\<rparr>" "log @ [d]" "Suc n"] by (simp add: Cons.hyps(2) [symmetric])
qed

lemma bus_run_finishes: "bus_run want todo log n b \<Longrightarrow> \<exists>b'. bus_run want todo log 0 b' \<and> busWork b' = busWork b"
proof (induction n arbitrary: b)
  case (Suc n)
  then show ?case using Suc.IH [OF bus_run.finish [OF Suc.prems]] by (simp add: finished_def)
qed blast

text \<open>A whole \<open>Publish\<close> is such a run.\<close>

lemma bus_run_Publish:
  assumes "bus_run want {#} log n b"
  shows "bus_run (want + image_mset (\<lambda>x. (subFn (snd x), e)) (filter_mset (\<lambda>x. accepts (snd x) e) (mset (busSubs b)))) {#} log n (Publish e b)"
  using bus_run_launches [of _ "{#}" "map (\<lambda>fn. (fn, e)) (interested e b)" log n b] bus_run.publish [OF assms, of e]
  by (simp add: Publish_def foldl_map)

subsection \<open>Properties\<close>

text \<open>
  C35: whenever \<open>Sync\<close> returns and no publisher is inside \<open>Publish\<close>, each event published so far has been
  delivered exactly once to every subscriber that was registered when it was published and whose match
  accepts it, and to no one else, however publishers, goroutines and changes of the subscribers
  interleaved.  The wait group never goes below zero, which would panic, and from every state the
  publishers and goroutines can run until \<open>Sync\<close> returns.
\<close>

theorem publish_delivers_once:
  assumes "bus_run want todo log n b"
  shows "(todo = {#} \<and> Sync_returns b \<longrightarrow> mset log = want) \<and> 0 \<le> busWG b \<and>
    (\<exists>log' b'. bus_run want {#} (log @ log') 0 b' \<and> Sync_returns b')"
proof -
  obtain ds where ds: "todo = mset ds" by (metis ex_mset)
  then have "bus_run want {#} log n (foldl (\<lambda>b d. launch d b) b ds)" using bus_run_launches [of want "{#}"] assms by simp
  then obtain b1 log' n' where "bus_run want {#} (log @ log') n' b1" "busWork b1 = []" using bus_run_deliveries by blast
  then obtain b' where b': "bus_run want {#} (log @ log') 0 b'" "busWork b' = []" using bus_run_finishes by metis
  then have "Sync_returns b'" using bus_run_inv [OF b'(1)] by (simp add: Sync_returns_def)
  moreover have "busWork b = []" if "Sync_returns b" using bus_run_inv [OF assms] that by (simp add: Sync_returns_def) (metis add_nonneg_eq_0_iff of_nat_0_eq_iff of_nat_0_le_iff length_0_conv)
  ultimately show ?thesis using b'(1) bus_run_inv [OF assms] by auto
qed

definition demo_event :: "unit event" where
  "demo_event = \<lparr>evType = ''t'', evSource = '''', evSubject = '''', evResource = '''', evService = '''',
     evKind = '''', evTime = 0, evData = ()\<rparr>"

definition demo_bus :: "(nat, unit) bus" where
  "demo_bus = Unsubscribe 1 (snd (Subscribe None 5 (snd (Subscribe (Some (\<lambda>e. evType e = ''t'')) 7 New_bus))))"

lemma demo_bus_run: "bus_run {#} {#} [] 0 demo_bus"
  unfolding demo_bus_def by (intro bus_run.unsubscribe bus_run.subscribe bus_run.start)

lemma demo_bus_subs: "busSubs demo_bus = [(0, \<lparr>subMatch = Some (\<lambda>e. evType e = ''t''), subFn = 7\<rparr>)]"
  by (simp add: demo_bus_def Unsubscribe_def Subscribe_def New_bus_def)

theorem publish_delivers_once_witness:
  "\<exists>b'. bus_run {#(7 :: nat, demo_event)#} {#} [(7, demo_event)] 0 b' \<and> Sync_returns b'"
proof -
  have run: "bus_run {#(7 :: nat, demo_event)#} {#} [] 0 (Publish demo_event demo_bus)"
    using bus_run_Publish [OF demo_bus_run, of demo_event]
    by (simp add: demo_bus_subs accepts_def) (simp add: demo_event_def)
  obtain log b' where l: "bus_run {#(7 :: nat, demo_event)#} {#} log 0 b'" "Sync_returns b'"
    using publish_delivers_once [OF run] by (metis append_Nil)
  then have "mset log = {#(7, demo_event)#}" using publish_delivers_once [OF l(1)] by simp
  then have "log = [(7, demo_event)]" by simp
  with l show ?thesis by blast
qed

text \<open>
  \<open>Started\<close> counts every delivery made and every delivery in flight, however publishing,
  delivering and changes of subscribers interleave; so two equal readings around a \<open>Sync\<close> mean
  that no new work was launched.
\<close>

theorem started_counts_deliveries:
  "bus_run want todo log n b \<Longrightarrow> Started b = u64 (length log + length (busWork b))"
  by (simp add: Started_def bus_run_inv)

theorem started_counts_deliveries_witness:
  "Started (Publish demo_event demo_bus) = u64 (length ([] :: (nat \<times> unit event) list) + length (busWork (Publish demo_event demo_bus)))"
  by (rule started_counts_deliveries [OF bus_run_Publish [OF demo_bus_run]])

end
