(* ===== verification/KV_Store.thy ===== *)
theory KV_Store
  imports Go_Prelude
begin

text \<open>
  The metadata layer (\<open>store/store.go\<close>, \<open>store/memory.go\<close>): a versioned key/value map with
  compare-and-swap writes, prefix listing with opaque page tokens, prefix reset, snapshot and
  restore.  Every mutation holds the write lock across compare and swap, so an operation is one
  step on the state and a concurrent history is a sequence of such steps.

  The store is polymorphic in the value: a service keeps its records in decoded form.  The
  zero of the value type stands for the nil slice a missing map entry reads as.
\<close>

subsection \<open>Errors, entries and state\<close>

datatype store_error = ErrCtx ctx | ErrNotFound | ErrVersionMismatch | ErrInvalidPageToken

text \<open>\<open>Error()\<close> of a store error.\<close>

fun store_text :: "store_error \<Rightarrow> string" where
  "store_text ErrNotFound = ''store: key not found''"
| "store_text ErrVersionMismatch = ''store: version mismatch''"
| "store_text ErrInvalidPageToken = ''store: invalid page token''"
| "store_text (ErrCtx CtxDeadline) = ''context deadline exceeded''"
| "store_text (ErrCtx _) = ''context canceled''"

record 'v entry =
  entVal :: 'v
  entVersion :: nat

text \<open>\<open>KV\<close> and the snapshot's \<open>Entry\<close> have the same fields.\<close>

record 'v kv =
  kvKey :: string
  kvVal :: 'v
  kvVersion :: nat

record 'v memory =
  memM :: "string \<rightharpoonup> 'v entry"
  memKeys :: "string list"

definition NewMemory :: "'v memory" where
  "NewMemory = \<lparr>memM = Map.empty, memKeys = []\<rparr>"

subsection \<open>Page tokens\<close>

text \<open>\<open>base64.RawURLEncoding\<close>.  Decoding skips carriage returns and newlines, and does not
  insist that the unused bits of the last character are zero.\<close>

text \<open>The alphabet \<open>A-Z a-z 0-9 - _\<close>, by position.\<close>

definition b64_char :: "nat \<Rightarrow> char" where
  "b64_char n =
     char_of (if n < 26 then n + 65 else if n < 52 then n + 71 else if n < 62 then n - 4
              else if n = 62 then 45 else (95::nat))"

definition b64_val :: "char \<Rightarrow> nat option" where
  "b64_val c =
     (let n = (of_char c :: nat)
      in if 65 \<le> n \<and> n \<le> 90 then Some (n - 65)
         else if 97 \<le> n \<and> n \<le> 122 then Some (n - 71)
         else if 48 \<le> n \<and> n \<le> 57 then Some (n + 4)
         else if n = 45 then Some 62
         else if n = 95 then Some 63
         else None)"

fun b64_sextets :: "nat list \<Rightarrow> nat list" where
  "b64_sextets [] = []"
| "b64_sextets [a] = [a div 4, a mod 4 * 16]"
| "b64_sextets [a, b] = [a div 4, a mod 4 * 16 + b div 16, b mod 16 * 4]"
| "b64_sextets (a # b # c # r) =
     [a div 4, a mod 4 * 16 + b div 16, b mod 16 * 4 + c div 64, c mod 64] @ b64_sextets r"

fun b64_octets :: "nat list \<Rightarrow> nat list option" where
  "b64_octets [] = Some []"
| "b64_octets [x] = None"
| "b64_octets [x, y] = Some [x * 4 + y div 16]"
| "b64_octets [x, y, z] = Some [x * 4 + y div 16, y mod 16 * 16 + z div 4]"
| "b64_octets (x # y # z # w # r) =
     map_option (\<lambda>t. [x * 4 + y div 16, y mod 16 * 16 + z div 4, z mod 4 * 64 + w] @ t)
       (b64_octets r)"

fun b64_vals :: "string \<Rightarrow> nat list option" where
  "b64_vals [] = Some []"
| "b64_vals (c # s) =
     (case b64_val c of
        None \<Rightarrow> None
      | Some n \<Rightarrow> map_option (\<lambda>t. n # t) (b64_vals s))"

definition encodeToken :: "string \<Rightarrow> string" where
  "encodeToken key = map b64_char (b64_sextets (map of_char key))"

definition decodeToken :: "string \<Rightarrow> (store_error, string) result" where
  "decodeToken tok =
     (case b64_vals (filter (\<lambda>c. c \<noteq> CHR 0x0A \<and> c \<noteq> CHR 0x0D) tok) of
        None \<Rightarrow> Err ErrInvalidPageToken
      | Some vs \<Rightarrow>
          (case b64_octets vs of
             None \<Rightarrow> Err ErrInvalidPageToken
           | Some bs \<Rightarrow> Ok (map char_of bs)))"

definition PageToken :: "string \<Rightarrow> string" where "PageToken key = encodeToken key"

subsection \<open>The operations\<close>

definition insertKey :: "string \<Rightarrow> string list \<Rightarrow> string list" where
  "insertKey key ks = (let i = searchStrings ks key in take i ks @ key # drop i ks)"

definition removeKey :: "string \<Rightarrow> string list \<Rightarrow> string list" where
  "removeKey key ks =
     (let i = searchStrings ks key
      in if i < length ks \<and> ks ! i = key then take i ks @ drop (Suc i) ks else ks)"

definition mem_Get ::
  "ctx \<Rightarrow> string \<Rightarrow> 'v memory \<Rightarrow> (store_error, 'v \<times> nat) result" where
  "mem_Get cx key s =
     (if cx \<noteq> CtxLive then Err (ErrCtx cx)
      else case memM s key of
             None \<Rightarrow> Err ErrNotFound
           | Some e \<Rightarrow> Ok (entVal e, entVersion e))"

definition mem_Put ::
  "ctx \<Rightarrow> string \<Rightarrow> 'v \<Rightarrow> nat \<Rightarrow> 'v memory \<Rightarrow> (store_error, nat) result \<times> 'v memory" where
  "mem_Put cx key v ifVersion s =
     (if cx \<noteq> CtxLive then (Err (ErrCtx cx), s)
      else case memM s key of
             Some e \<Rightarrow>
               if ifVersion = 0 then (Err ErrVersionMismatch, s)
               else if entVersion e \<noteq> ifVersion then (Err ErrVersionMismatch, s)
               else let nxt = u64 (entVersion e + 1)
                    in (Ok nxt, s\<lparr>memM := (memM s)(key \<mapsto> \<lparr>entVal = v, entVersion = nxt\<rparr>)\<rparr>)
           | None \<Rightarrow>
               if ifVersion \<noteq> 0 then (Err ErrVersionMismatch, s)
               else (Ok 1,
                     \<lparr>memM = (memM s)(key \<mapsto> \<lparr>entVal = v, entVersion = 1\<rparr>),
                      memKeys = insertKey key (memKeys s)\<rparr>))"

definition mem_Delete ::
  "ctx \<Rightarrow> string \<Rightarrow> nat \<Rightarrow> 'v memory \<Rightarrow> (store_error, unit) result \<times> 'v memory" where
  "mem_Delete cx key ifVersion s =
     (if cx \<noteq> CtxLive then (Err (ErrCtx cx), s)
      else case memM s key of
             None \<Rightarrow> (Err ErrNotFound, s)
           | Some e \<Rightarrow>
               if ifVersion \<noteq> 0 \<and> entVersion e \<noteq> ifVersion then (Err ErrVersionMismatch, s)
               else (Ok (), \<lparr>memM = (memM s)(key := None), memKeys = removeKey key (memKeys s)\<rparr>))"

text \<open>Reading \<open>s.m[k]\<close>: an absent key gives the zero entry.\<close>

definition kv_at :: "('v::zero) memory \<Rightarrow> string \<Rightarrow> 'v kv" where
  "kv_at s k =
     (case memM s k of
        None \<Rightarrow> \<lparr>kvKey = k, kvVal = 0, kvVersion = 0\<rparr>
      | Some e \<Rightarrow> \<lparr>kvKey = k, kvVal = entVal e, kvVersion = entVersion e\<rparr>)"

text \<open>The scan of \<open>List\<close> over the keys from its start position.\<close>

fun list_scan ::
  "('v::zero) memory \<Rightarrow> string \<Rightarrow> int \<Rightarrow> string list \<Rightarrow> 'v kv list \<Rightarrow> 'v kv list \<times> string" where
  "list_scan s pfx limit [] out = (out, '''')"
| "list_scan s pfx limit (k # ks) out =
     (if \<not> prefix pfx k then (out, '''')
      else if 0 < limit \<and> int (length out) = limit then (out, encodeToken (kvKey (last out)))
      else list_scan s pfx limit ks (out @ [kv_at s k]))"

definition mem_List ::
  "ctx \<Rightarrow> string \<Rightarrow> int \<Rightarrow> string \<Rightarrow> ('v::zero) memory
     \<Rightarrow> (store_error, 'v kv list \<times> string) result" where
  "mem_List cx pfx limit pageToken s =
     (if cx \<noteq> CtxLive then Err (ErrCtx cx)
      else
        let start =
          (if pageToken = '''' then Ok pfx
           else case decodeToken pageToken of
                  Err e \<Rightarrow> Err e
                | Ok decoded \<Rightarrow>
                    if \<not> prefix pfx decoded then Err ErrInvalidPageToken else Ok decoded)
        in case start of
             Err e \<Rightarrow> Err e
           | Ok after \<Rightarrow>
               (let i = searchStrings (memKeys s) after;
                    i' = (if pageToken \<noteq> '''' \<and> i < length (memKeys s) \<and> memKeys s ! i = after
                          then Suc i else i)
                in Ok (list_scan s pfx limit (drop i' (memKeys s)) [])))"

definition mem_Reset ::
  "ctx \<Rightarrow> string \<Rightarrow> 'v memory \<Rightarrow> (store_error, unit) result \<times> 'v memory" where
  "mem_Reset cx keyPrefix s =
     (if cx \<noteq> CtxLive then (Err (ErrCtx cx), s)
      else if keyPrefix = '''' then (Ok (), NewMemory)
      else (Ok (),
            \<lparr>memM = (\<lambda>k. if k \<in> set (memKeys s) \<and> prefix keyPrefix k then None else memM s k),
             memKeys = filter (\<lambda>k. \<not> prefix keyPrefix k) (memKeys s)\<rparr>))"

definition mem_Snapshot :: "('v::zero) memory \<Rightarrow> 'v kv list" where
  "mem_Snapshot s = map (kv_at s) (memKeys s)"

definition restore_map :: "'v kv list \<Rightarrow> (string \<rightharpoonup> 'v entry)" where
  "restore_map es =
     foldl (\<lambda>m e. m(kvKey e \<mapsto> \<lparr>entVal = kvVal e, entVersion = kvVersion e\<rparr>)) Map.empty es"

definition mem_Restore :: "'v kv list \<Rightarrow> 'v memory" where
  "mem_Restore es = \<lparr>memM = restore_map es, memKeys = sort (map kvKey es)\<rparr>"

subsection \<open>Well-formedness\<close>

text \<open>The key list is the sorted domain of the map, and no version is the reserved zero.\<close>

definition versions_ok :: "'v memory \<Rightarrow> bool" where
  "versions_ok s \<longleftrightarrow> (\<forall>k e. memM s k = Some e \<longrightarrow> 0 < entVersion e \<and> entVersion e < 2 ^ 64)"

definition mem_wf :: "'v memory \<Rightarrow> bool" where
  "mem_wf s \<longleftrightarrow> sorted_wrt (<) (memKeys s) \<and> set (memKeys s) = dom (memM s) \<and> versions_ok s"

subsection \<open>Page tokens round-trip\<close>

lemma b64_char_code:
  "n < 64 \<Longrightarrow> (of_char (b64_char n) :: nat) =
     (if n < 26 then n + 65 else if n < 52 then n + 71 else if n < 62 then n - 4
      else if n = 62 then 45 else 95)"
  by (simp add: b64_char_def)

lemma b64_val_char [simp]: "n < 64 \<Longrightarrow> b64_val (b64_char n) = Some n"
  by (auto simp: b64_val_def Let_def b64_char_code)

lemma b64_char_not_newline:
  "n < 64 \<Longrightarrow> b64_char n \<noteq> CHR 0x0A \<and> b64_char n \<noteq> CHR 0x0D"
proof -
  assume "n < 64"
  then have "(of_char (b64_char n) :: nat) \<noteq> 10 \<and> (of_char (b64_char n) :: nat) \<noteq> 13"
    by (auto simp: b64_char_code)
  then show ?thesis by auto
qed

lemma b64_sextets_bound: "\<forall>b\<in>set bs. b < 256 \<Longrightarrow> \<forall>x\<in>set (b64_sextets bs). x < 64"
  by (induction bs rule: b64_sextets.induct) (auto simp: less_mult_imp_div_less)

lemma b64_octets_sextets: "\<forall>b\<in>set bs. b < 256 \<Longrightarrow> b64_octets (b64_sextets bs) = Some bs"
proof (induction bs rule: b64_sextets.induct)
  case (4 a b c r)
  have "a = a div 4 * 4 + (a mod 4 * 16 + b div 16) div 16"
    using 4(2) by auto
  moreover have "b = (a mod 4 * 16 + b div 16) mod 16 * 16 + (b mod 16 * 4 + c div 64) div 4"
    using 4(2) by (simp add: less_mult_imp_div_less)
  moreover have "c = (b mod 16 * 4 + c div 64) mod 4 * 64 + c mod 64"
    using 4(2) by (simp add: less_mult_imp_div_less)
  ultimately show ?case using 4 by (simp add: less_mult_imp_div_less)
qed (auto simp: less_mult_imp_div_less)

lemma b64_vals_map: "\<forall>x\<in>set xs. x < 64 \<Longrightarrow> b64_vals (map b64_char xs) = Some xs"
  by (induction xs) auto

lemma filter_b64: "\<forall>x\<in>set xs. x < 64 \<Longrightarrow>
    filter (\<lambda>c. c \<noteq> CHR 0x0A \<and> c \<noteq> CHR 0x0D) (map b64_char xs) = map b64_char xs"
  by (induction xs) (auto simp: b64_char_not_newline)

lemma decode_encodeToken [simp]: "decodeToken (encodeToken key) = Ok key"
proof -
  have "\<forall>b\<in>set (map of_char key :: nat list). b < 256" by auto
  then show ?thesis
    using b64_sextets_bound [of "map of_char key"]
    by (simp add: decodeToken_def encodeToken_def filter_b64 b64_vals_map b64_octets_sextets
        o_def map_idI)
qed

lemma encodeToken_eq_Nil [simp]: "encodeToken key = '''' \<longleftrightarrow> key = ''''"
  by (metis decode_encodeToken encodeToken_def b64_sextets.simps(1) list.simps(8) result.inject(2))

subsection \<open>Sorted key lists\<close>

lemma insertKey_eq:
  "sorted ks \<Longrightarrow> insertKey key ks = takeWhile (\<lambda>y. y < key) ks @ key # dropWhile (\<lambda>y. y < key) ks"
  by (simp add: insertKey_def Let_def searchStrings_sorted takeWhile_eq_take [symmetric]
      dropWhile_eq_drop [symmetric])

lemma strict_sorted_imp: "sorted_wrt (<) (ks :: string list) \<Longrightarrow> sorted ks"
  by (simp add: strict_sorted_iff)

lemma insertKey_sorted:
  assumes "sorted_wrt (<) ks" and "key \<notin> set ks"
  shows "sorted_wrt (<) (insertKey key ks)" and "set (insertKey key ks) = insert key (set ks)"
proof -
  define a b where "a = takeWhile (\<lambda>y. y < key) ks" and "b = dropWhile (\<lambda>y. y < key) ks"
  have s: "sorted ks" using assms(1) by (rule strict_sorted_imp)
  have ks: "ks = a @ b" by (simp add: a_def b_def)
  have a: "\<forall>y\<in>set a. y < key" and b: "\<forall>y\<in>set b. key \<le> y"
    using sorted_split_at [OF s, where x = key] by (auto simp: a_def b_def)
  have "key \<notin> set b" using assms(2) ks by simp
  with b have b': "\<forall>y\<in>set b. key < y" by (metis order.not_eq_order_implies_strict)
  have ik: "insertKey key ks = a @ key # b"
    using insertKey_eq [OF s] by (simp add: a_def b_def)
  from assms(1) ks have "sorted_wrt (<) a" "sorted_wrt (<) b" "\<forall>x\<in>set a. \<forall>y\<in>set b. x < y"
    by (simp_all add: sorted_wrt_append)
  with a b' show "sorted_wrt (<) (insertKey key ks)"
    by (simp add: ik sorted_wrt_append)
  show "set (insertKey key ks) = insert key (set ks)"
    unfolding ik by (simp add: ks)
qed

lemma removeKey_split:
  assumes "\<forall>y\<in>set a. y < key" and "\<forall>y\<in>set b. key < y" and "key \<le> k"
    and "k \<noteq> key \<longrightarrow> (\<forall>y\<in>set b. k < y)"
  shows "removeKey key (a @ k # b) = filter (\<lambda>k. k \<noteq> key) (a @ k # b)"
proof -
  have "searchStrings (a @ k # b) key = length a"
    using assms by (intro searchStrings_split) auto
  moreover have "filter (\<lambda>k. k \<noteq> key) a = a" "filter (\<lambda>k. k \<noteq> key) b = b"
    using assms(1,2) by (auto simp: filter_id_conv)
  ultimately show ?thesis by (simp add: removeKey_def Let_def)
qed

lemma removeKey_eq_filter:
  assumes "sorted_wrt (<) ks"
  shows "removeKey key ks = filter (\<lambda>k. k \<noteq> key) ks"
proof -
  define a b where "a = takeWhile (\<lambda>y. y < key) ks" and "b = dropWhile (\<lambda>y. y < key) ks"
  have s: "sorted ks" using assms by (rule strict_sorted_imp)
  have ks: "ks = a @ b" by (simp add: a_def b_def)
  have a: "\<forall>y\<in>set a. y < key" and b: "\<forall>y\<in>set b. key \<le> y"
    using sorted_split_at [OF s, where x = key] by (auto simp: a_def b_def)
  show ?thesis
  proof (cases b)
    case Nil
    have "searchStrings (a @ []) key = length a" using a by (intro searchStrings_split) auto
    moreover have "filter (\<lambda>k. k \<noteq> key) a = a" using a by (auto simp: filter_id_conv)
    ultimately show ?thesis using Nil ks by (simp add: removeKey_def)
  next
    case (Cons k c)
    with assms ks have kc: "\<forall>y\<in>set c. k < y" by (simp add: sorted_wrt_append)
    from b Cons have "key \<le> k" by simp
    with kc have "\<forall>y\<in>set c. key < y" by (blast intro: order.strict_trans1)
    with a kc \<open>key \<le> k\<close> have "removeKey key (a @ k # c) = filter (\<lambda>k. k \<noteq> key) (a @ k # c)"
      by (intro removeKey_split) simp_all
    with ks Cons show ?thesis by simp
  qed
qed

subsection \<open>Strings with a common prefix form an interval\<close>

lemma prefix_imp_le: "prefix p s \<Longrightarrow> p \<le> (s :: string)"
  by (induction p s rule: list_induct2') auto

lemma prefix_interval: "p \<le> y \<Longrightarrow> y \<le> z \<Longrightarrow> prefix p z \<Longrightarrow> prefix p (y :: string)"
proof (induction p arbitrary: y z)
  case (Cons c p)
  then obtain z' where z: "z = c # z'" "prefix p z'" by (cases z) auto
  with Cons.prems obtain d y' where y: "y = d # y'" by (cases y) auto
  with Cons.prems z have "d = c" "p \<le> y'" "y' \<le> z'" by auto
  with Cons.IH z y show ?case by auto
qed simp

lemma scan_is_filter:
  assumes "sorted ks" and "\<forall>k\<in>set ks. a \<le> k" and "p \<le> a"
  shows "takeWhile (prefix p) ks = filter (prefix p) (ks :: string list)"
  using assms
proof (induction ks)
  case (Cons k ks)
  show ?case
  proof (cases "prefix p k")
    case True
    with Cons show ?thesis by simp
  next
    case False
    have "\<not> prefix p z" if "z \<in> set ks" for z
      using that Cons.prems False prefix_interval [of p k z] order.trans [of p a k] by auto
    with False show ?thesis by (simp add: filter_empty_conv)
  qed
qed simp

subsection \<open>Well-formedness is kept\<close>

lemma mem_wfI:
  "sorted_wrt (<) (memKeys s) \<Longrightarrow> set (memKeys s) = dom (memM s) \<Longrightarrow> versions_ok s \<Longrightarrow> mem_wf s"
  by (simp add: mem_wf_def)

lemma mem_wfD:
  assumes "mem_wf s"
  shows "sorted_wrt (<) (memKeys s)" and "sorted (memKeys s)" and "distinct (memKeys s)"
    and "set (memKeys s) = dom (memM s)" and "versions_ok s"
  using assms by (auto simp: mem_wf_def strict_sorted_iff)

lemma versions_okD:
  "versions_ok s \<Longrightarrow> memM s k = Some e \<Longrightarrow> 0 < entVersion e \<and> entVersion e < 2 ^ 64"
  by (simp add: versions_ok_def)

lemma versions_ok_upd:
  "versions_ok s \<Longrightarrow> 0 < v \<Longrightarrow> v < 2 ^ 64 \<Longrightarrow>
   versions_ok (s\<lparr>memM := (memM s)(k \<mapsto> \<lparr>entVal = x, entVersion = v\<rparr>)\<rparr>)"
  by (auto simp: versions_ok_def)

lemma mem_wf_New [simp]: "mem_wf NewMemory"
  by (simp add: mem_wf_def NewMemory_def versions_ok_def)

text \<open>The version counter of a key has room for one more write before it wraps.\<close>

definition key_room :: "'v memory \<Rightarrow> string \<Rightarrow> bool" where
  "key_room s k \<longleftrightarrow> (case memM s k of None \<Rightarrow> True | Some e \<Rightarrow> entVersion e + 1 < 2 ^ 64)"

lemma mem_Put_wf [go_inv]:
  assumes "mem_wf s" and "key_room s key"
  shows "mem_wf (snd (mem_Put cx key v ifv s))"
proof (cases "memM s key")
  case None
  then have "key \<notin> set (memKeys s)" using mem_wfD(4) [OF assms(1)] by auto
  note ins = insertKey_sorted [OF mem_wfD(1) [OF assms(1)] this]
  have "versions_ok \<lparr>memM = (memM s)(key \<mapsto> \<lparr>entVal = v, entVersion = 1\<rparr>), memKeys = ks\<rparr>" for ks
    using mem_wfD(5) [OF assms(1)] by (auto simp: versions_ok_def)
  with None ins assms(1) mem_wfD(4) [OF assms(1)] show ?thesis
    by (auto simp: mem_Put_def intro!: mem_wfI)
next
  case (Some e)
  with assms(2) have room: "entVersion e + 1 < 2 ^ 64" by (simp add: key_room_def)
  then have "u64 (entVersion e + 1) = entVersion e + 1" by simp
  moreover have "insert key (dom (memM s)) = dom (memM s)" using Some by auto
  ultimately show ?thesis
    using Some assms(1) room
    by (auto simp: mem_Put_def Let_def mem_wf_def intro!: versions_ok_upd)
qed

lemma mem_Delete_wf [go_inv]: "mem_wf s \<Longrightarrow> mem_wf (snd (mem_Delete cx key ifv s))"
  by (auto simp: mem_Delete_def mem_wf_def removeKey_eq_filter versions_ok_def
      sorted_wrt_filter split: option.splits if_splits)

lemma mem_Reset_wf [go_inv]: "mem_wf s \<Longrightarrow> mem_wf (snd (mem_Reset cx p s))"
  by (auto simp: mem_Reset_def mem_wf_def NewMemory_def versions_ok_def sorted_wrt_filter
      split: if_splits)

lemma restore_map_snoc:
  "restore_map (es @ [e]) = (restore_map es)(kvKey e \<mapsto> \<lparr>entVal = kvVal e, entVersion = kvVersion e\<rparr>)"
  by (simp add: restore_map_def)

lemma restore_map_Nil [simp]: "restore_map [] = Map.empty"
  by (simp add: restore_map_def)

lemma dom_restore_map: "dom (restore_map es) = kvKey ` set es"
  by (induction es rule: rev_induct) (auto simp: restore_map_snoc set_eq_iff dom_def)

lemma restore_map_SomeD:
  "restore_map es k = Some e \<Longrightarrow>
     \<exists>x\<in>set es. kvKey x = k \<and> e = \<lparr>entVal = kvVal x, entVersion = kvVersion x\<rparr>"
  by (induction es rule: rev_induct) (auto simp: restore_map_snoc split: if_splits)

lemma mem_Restore_wf:
  assumes "distinct (map kvKey es)" and "\<forall>e\<in>set es. 0 < kvVersion e \<and> kvVersion e < 2 ^ 64"
  shows "mem_wf (mem_Restore es)"
  using assms
  by (auto simp: mem_Restore_def mem_wf_def versions_ok_def strict_sorted_iff dom_restore_map
      dest!: restore_map_SomeD)

lemma kv_at_key [simp]: "kvKey (kv_at s k) = k"
  by (simp add: kv_at_def split: option.splits)

lemma map_kvKey_kv_at [simp]: "map (kvKey \<circ> kv_at s) ks = ks"
  by (simp add: o_def)

lemma restore_map_kv_at:
  "distinct ks \<Longrightarrow> restore_map (map (kv_at s) ks) k =
     (if k \<in> set ks then Some \<lparr>entVal = kvVal (kv_at s k), entVersion = kvVersion (kv_at s k)\<rparr> else None)"
  by (induction ks rule: rev_induct) (auto simp: restore_map_snoc)

lemma kv_at_Some: "memM s k = Some e \<Longrightarrow> kv_at s k = \<lparr>kvKey = k, kvVal = entVal e, kvVersion = entVersion e\<rparr>"
  by (simp add: kv_at_def)

text \<open>A snapshot restores to the state it was taken of.\<close>

lemma mem_Restore_Snapshot: "mem_wf s \<Longrightarrow> mem_Restore (mem_Snapshot s) = s"
proof -
  assume wf: "mem_wf s"
  have "restore_map (mem_Snapshot s) = memM s"
  proof
    fix k
    show "restore_map (mem_Snapshot s) k = memM s k"
      using mem_wfD(3,4) [OF wf]
      by (cases "memM s k") (auto simp: mem_Snapshot_def restore_map_kv_at kv_at_Some domI dest: domD)
  qed
  moreover have "sort (map kvKey (mem_Snapshot s)) = memKeys s"
    using mem_wfD(2) [OF wf] by (simp add: mem_Snapshot_def sorted_sort_id)
  ultimately show ?thesis by (simp add: mem_Restore_def)
qed

subsection \<open>Listing\<close>

text \<open>What \<open>List\<close> promises: the entries under the prefix after the token's key, in key order,
  cut at the scan budget with a token that names the last key returned.\<close>

definition list_keys :: "string \<Rightarrow> string option \<Rightarrow> 'v memory \<Rightarrow> string list" where
  "list_keys pfx after s =
     filter (\<lambda>k. prefix pfx k \<and> (case after of None \<Rightarrow> True | Some a \<Rightarrow> a < k)) (memKeys s)"

definition list_spec ::
  "('v::zero) memory \<Rightarrow> string \<Rightarrow> int \<Rightarrow> string option \<Rightarrow> 'v kv list \<times> string" where
  "list_spec s pfx limit after =
     (let ks = list_keys pfx after s
      in if 0 < limit \<and> limit < int (length ks)
         then (map (kv_at s) (take (nat limit) ks), encodeToken (ks ! (nat limit - 1)))
         else (map (kv_at s) ks, ''''))"

lemma list_scan_takeWhile:
  "list_scan s pfx limit ks out =
     (let m = takeWhile (prefix pfx) ks; n = nat limit - length out
      in if 0 < limit \<and> int (length out) \<le> limit \<and> n < length m
         then (out @ map (kv_at s) (take n m),
               encodeToken (kvKey (last (out @ map (kv_at s) (take n m)))))
         else (out @ map (kv_at s) m, ''''))"
proof (induction s pfx limit ks out rule: list_scan.induct)
  case (2 s pfx limit k ks out)
  show ?case
  proof (cases "prefix pfx k \<and> \<not> (0 < limit \<and> int (length out) = limit)")
    case True
    let ?m = "takeWhile (prefix pfx) ks"
    have n: "nat limit - length out = Suc (nat limit - Suc (length out))"
      if "0 < limit" "int (length out) \<le> limit" using that True by auto
    have "list_scan s pfx limit (k # ks) out = list_scan s pfx limit ks (out @ [kv_at s k])"
      using True by auto
    also have "\<dots> = (let m = ?m; n = nat limit - length (out @ [kv_at s k])
      in if 0 < limit \<and> int (length (out @ [kv_at s k])) \<le> limit \<and> n < length m
         then ((out @ [kv_at s k]) @ map (kv_at s) (take n m),
               encodeToken (kvKey (last ((out @ [kv_at s k]) @ map (kv_at s) (take n m)))))
         else ((out @ [kv_at s k]) @ map (kv_at s) m, ''''))"
      using "2.IH" True by auto
    finally show ?thesis using True n by (auto simp: Let_def)
  next
    case False
    then show ?thesis by (auto simp: Let_def)
  qed
qed simp

lemma drop_search_filter:
  assumes "sorted_wrt (<) ks"
  shows "drop (searchStrings ks a) ks = filter (\<lambda>y. a \<le> y) (ks :: string list)"
proof -
  define x y where "x = takeWhile (\<lambda>y. y < a) ks" and "y = dropWhile (\<lambda>y. y < a) ks"
  note s = strict_sorted_imp [OF assms]
  have ks: "ks = x @ y" by (simp add: x_def y_def)
  have "\<forall>k\<in>set x. \<not> a \<le> k" "\<forall>k\<in>set y. a \<le> k"
    using sorted_split_at [OF s, where x = a] by (auto simp: x_def y_def not_le)
  then have "filter (\<lambda>y. a \<le> y) ks = y" by (simp add: ks)
  moreover have "searchStrings ks a = length x"
    using searchStrings_sorted [OF s, of a] by (simp add: x_def)
  ultimately show ?thesis by (simp add: ks)
qed

text \<open>After a token the search skips the named key when it is still there.\<close>

lemma drop_search_after:
  assumes "sorted_wrt (<) ks"
  shows "drop (let i = searchStrings ks a in if i < length ks \<and> ks ! i = a then Suc i else i) ks
           = filter (\<lambda>y. a < y) (ks :: string list)"
proof -
  define i where "i = searchStrings ks a"
  have d: "drop i ks = filter (\<lambda>y. a \<le> y) ks" unfolding i_def by (rule drop_search_filter [OF assms])
  have dist: "distinct ks" using assms by (simp add: strict_sorted_iff)
  show ?thesis
  proof (cases "i < length ks \<and> ks ! i = a")
    case True
    then have "drop i ks = a # drop (Suc i) ks" by (metis Cons_nth_drop_Suc)
    with dist have nin: "a \<notin> set (drop (Suc i) ks)" by (metis distinct.simps(2) distinct_drop)
    have "filter (\<lambda>y. a < y) ks = filter (\<lambda>y. y \<noteq> a) (filter (\<lambda>y. a \<le> y) ks)"
      by (simp add: order_less_le conj_commute) (metis (mono_tags, lifting) filter_cong)
    also have "\<dots> = drop (Suc i) ks"
      using \<open>drop i ks = a # drop (Suc i) ks\<close> nin
      by (simp add: d [symmetric] filter_id_conv) metis
    finally show ?thesis using True by (simp add: i_def [symmetric])
  next
    case False
    have "a \<notin> set ks"
    proof
      assume "a \<in> set ks"
      then have "a \<in> set (drop i ks)" by (simp add: d)
      then obtain j where j: "j < length (drop i ks)" "drop i ks ! j = a" by (metis in_set_conv_nth)
      have "0 < j" using j False by (cases j) auto
      have "sorted_wrt (<) (drop i ks)" using assms by (simp add: sorted_wrt_drop)
      then have "drop i ks ! 0 < a" using j \<open>0 < j\<close> by (metis sorted_wrt_nth_less)
      moreover have "drop i ks ! 0 \<in> set (drop i ks)" using j by (intro nth_mem) auto
      then have "a \<le> drop i ks ! 0" by (simp add: d)
      ultimately show False by (meson leD)
    qed
    then have "filter (\<lambda>y. a \<le> y) ks = filter (\<lambda>y. a < y) ks"
      by (intro filter_cong) (auto simp: order_less_le)
    with False d show ?thesis by (auto simp: i_def [symmetric] Let_def)
  qed
qed

lemma scan_filter:
  assumes "sorted_wrt (<) ks" and "p \<le> a"
  shows "takeWhile (prefix p) (filter (\<lambda>y. a \<le> y) ks) = filter (\<lambda>k. prefix p k \<and> a \<le> k) (ks :: string list)"
    and "takeWhile (prefix p) (filter (\<lambda>y. a < y) ks) = filter (\<lambda>k. prefix p k \<and> a < k) ks"
proof -
  have s: "sorted (filter Q ks)" for Q
    using assms(1) by (simp add: strict_sorted_imp sorted_wrt_filter)
  show "takeWhile (prefix p) (filter (\<lambda>y. a \<le> y) ks) = filter (\<lambda>k. prefix p k \<and> a \<le> k) ks"
    by (subst scan_is_filter [OF s, of _ a]) (use assms(2) in \<open>auto simp: conj_commute\<close>)
  show "takeWhile (prefix p) (filter (\<lambda>y. a < y) ks) = filter (\<lambda>k. prefix p k \<and> a < k) ks"
    by (subst scan_is_filter [OF s, of _ a]) (use assms(2) in \<open>auto simp: conj_commute\<close>)
qed

lemma list_scan_spec:
  assumes "takeWhile (prefix pfx) ks = list_keys pfx after s"
  shows "list_scan s pfx limit ks [] = list_spec s pfx limit after"
  using assms by (auto simp: list_scan_takeWhile list_spec_def Let_def last_map last_conv_nth min_def
      nth_append simp flip: length_0_conv)

theorem mem_List_first:
  assumes "mem_wf s"
  shows "mem_List CtxLive pfx limit '''' s = Ok (list_spec s pfx limit None)"
proof -
  note sw = mem_wfD(1) [OF assms]
  have "takeWhile (prefix pfx) (drop (searchStrings (memKeys s) pfx) (memKeys s)) =
      list_keys pfx None s"
    using scan_filter(1) [OF sw order_refl]
    by (simp add: drop_search_filter [OF sw] list_keys_def)
       (metis (mono_tags, lifting) filter_cong prefix_imp_le)
  then show ?thesis by (simp add: mem_List_def list_scan_spec)
qed

theorem mem_List_after:
  assumes "mem_wf s" and "prefix pfx a" and "a \<noteq> ''''"
  shows "mem_List CtxLive pfx limit (encodeToken a) s = Ok (list_spec s pfx limit (Some a))"
proof -
  note sw = mem_wfD(1) [OF assms(1)]
  have "takeWhile (prefix pfx)
          (drop (let i = searchStrings (memKeys s) a
                 in if i < length (memKeys s) \<and> memKeys s ! i = a then Suc i else i) (memKeys s)) =
      list_keys pfx (Some a) s"
    using scan_filter(2) [OF sw prefix_imp_le [OF assms(2)]]
    by (simp add: drop_search_after [OF sw] list_keys_def)
  from list_scan_spec [OF this] show ?thesis
    using assms by (simp add: mem_List_def Let_def)
qed

text \<open>Following the tokens from page to page.\<close>

fun list_pages :: "nat \<Rightarrow> string \<Rightarrow> int \<Rightarrow> string \<Rightarrow> ('v::zero) memory \<Rightarrow> 'v kv list option" where
  "list_pages 0 pfx limit tok s = None"
| "list_pages (Suc fuel) pfx limit tok s =
     (case mem_List CtxLive pfx limit tok s of
        Err e \<Rightarrow> None
      | Ok (kvs, nxt) \<Rightarrow>
          if nxt = '''' then Some kvs
          else map_option (\<lambda>r. kvs @ r) (list_pages fuel pfx limit nxt s))"

lemma filter_after_nth:
  assumes "sorted_wrt (<) ks" and "i < length ks"
  shows "filter (\<lambda>k. ks ! i < k) ks = drop (Suc i) (ks :: string list)"
proof -
  have ks: "ks = take i ks @ ks ! i # drop (Suc i) ks" using assms(2) by (rule id_take_nth_drop)
  have "sorted_wrt (<) (take i ks @ ks ! i # drop (Suc i) ks)" using assms by (simp add: ks [symmetric])
  then have a: "\<forall>k\<in>set (take i ks). k < ks ! i" and b: "\<forall>k\<in>set (drop (Suc i) ks). ks ! i < k"
    unfolding sorted_wrt_append by auto
  have "filter (\<lambda>k. ks ! i < k) (take i ks @ ks ! i # drop (Suc i) ks) = drop (Suc i) ks"
    using a b by (auto simp: filter_id_conv filter_empty_conv dest: order.strict_implies_not_eq)
  with ks show ?thesis by simp
qed

lemma list_keys_sorted: "mem_wf s \<Longrightarrow> sorted_wrt (<) (list_keys pfx after s)"
  by (simp add: list_keys_def mem_wfD(1) sorted_wrt_filter)

lemma list_keys_after:
  assumes "mem_wf s" and "i < length (list_keys pfx after s)"
  shows "list_keys pfx (Some (list_keys pfx after s ! i)) s = drop (Suc i) (list_keys pfx after s)"
proof -
  let ?ks = "list_keys pfx after s"
  have "\<forall>k\<in>set ?ks. case after of None \<Rightarrow> True | Some a \<Rightarrow> a < k"
    by (auto simp: list_keys_def)
  then have "case after of None \<Rightarrow> True | Some a \<Rightarrow> a < ?ks ! i"
    using assms(2) by simp
  then have "list_keys pfx (Some (?ks ! i)) s = filter (\<lambda>k. ?ks ! i < k) ?ks"
    by (auto simp: list_keys_def intro!: filter_cong split: option.splits intro: order.strict_trans)
  with filter_after_nth [OF list_keys_sorted [OF assms(1)] assms(2)] show ?thesis by simp
qed

lemma list_keys_prefix: "k \<in> set (list_keys pfx after s) \<Longrightarrow> prefix pfx k"
  by (simp add: list_keys_def)

lemma list_pages_all:
  assumes "mem_wf s" and "pfx \<noteq> ''''" and "0 < limit"
    and "tok = '''' \<and> after = None \<or> (\<exists>a. tok = encodeToken a \<and> after = Some a \<and> prefix pfx a)"
    and "length (list_keys pfx after s) < fuel"
  shows "list_pages fuel pfx limit tok s = Some (map (kv_at s) (list_keys pfx after s))"
  using assms(4,5)
proof (induction fuel arbitrary: tok after)
  case (Suc fuel)
  let ?ks = "list_keys pfx after s"
  have page: "mem_List CtxLive pfx limit tok s = Ok (list_spec s pfx limit after)"
    using Suc.prems(1)
  proof
    assume "\<exists>a. tok = encodeToken a \<and> after = Some a \<and> prefix pfx a"
    then obtain a where a: "tok = encodeToken a" "after = Some a" "prefix pfx a" by blast
    with assms(2) have "a \<noteq> ''''" by auto
    with a show ?thesis by (simp add: mem_List_after [OF assms(1)])
  qed (simp add: mem_List_first [OF assms(1)])
  show ?case
  proof (cases "limit < int (length ?ks)")
    case False
    with page show ?thesis by (simp add: list_spec_def Let_def)
  next
    case True
    define n where "n = nat limit - 1"
    have n: "n < length ?ks" "nat limit = Suc n" using True assms(3) by (auto simp: n_def)
    have pre: "prefix pfx (?ks ! n)" using list_keys_prefix [OF nth_mem [OF n(1)]] .
    with assms(2) have ne: "encodeToken (?ks ! n) \<noteq> ''''" by auto
    note rest = list_keys_after [OF assms(1) n(1)]
    have "list_pages fuel pfx limit (encodeToken (?ks ! n)) s =
        Some (map (kv_at s) (drop (Suc n) ?ks))"
      using Suc.IH [of "encodeToken (?ks ! n)" "Some (?ks ! n)"] Suc.prems(2) n pre
      by (auto simp: rest)
    moreover have "list_spec s pfx limit after =
        (map (kv_at s) (take (Suc n) ?ks), encodeToken (?ks ! n))"
      using True assms(3) n by (simp add: list_spec_def Let_def)
    ultimately show ?thesis
      using page ne by (simp add: map_append [symmetric] del: map_append)
  qed
qed simp

subsection \<open>Facts the services share\<close>

text \<open>A write at the version just read succeeds; a listing without a budget returns every entry.\<close>

lemma put_current:
  assumes "mem_wf m" and "key_room m k"
  obtains v m' where "mem_Put CtxLive k x (case mem_Get CtxLive k m of Ok (_, i) \<Rightarrow> i | Err _ \<Rightarrow> 0) m = (Ok v, m')"
    "memM m' = (memM m)(k \<mapsto> \<lparr>entVal = x, entVersion = v\<rparr>)" "mem_wf m'"
proof -
  let ?i = "case mem_Get CtxLive k m of Ok (_, i) \<Rightarrow> i | Err _ \<Rightarrow> 0"
  have "\<exists>v m'. mem_Put CtxLive k x ?i m = (Ok v, m') \<and> memM m' = (memM m)(k \<mapsto> \<lparr>entVal = x, entVersion = v\<rparr>)"
  proof (cases "memM m k")
    case (Some e)
    then have "0 < entVersion e" using mem_wfD(5) [OF assms(1)] versions_okD by blast
    then show ?thesis using Some by (simp add: mem_Get_def mem_Put_def Let_def)
  qed (simp add: mem_Get_def mem_Put_def)
  then show thesis using that mem_Put_wf [OF assms, of CtxLive x ?i] by auto
qed

lemma list_all_entries:
  assumes "mem_wf m"
  shows "\<exists>tok. mem_List CtxLive pfx 0 '''' m = Ok (map (kv_at m) (list_keys pfx None m), tok)"
  using mem_List_first [OF assms, of pfx 0] by (simp add: list_spec_def Let_def)

lemma listed_key: "mem_wf m \<Longrightarrow> k \<in> set (list_keys pfx None m) \<longleftrightarrow> prefix pfx k \<and> memM m k \<noteq> None"
  by (auto simp: list_keys_def mem_wfD(4))

lemma mem_Delete_map:
  "mem_Delete CtxLive k 0 m = (r, m') \<Longrightarrow> memM m' = (memM m)(k := None)"
  by (auto simp: mem_Delete_def fun_eq_iff split: option.splits)

subsection \<open>The compare-and-swap interface\<close>

text \<open>What the services rely on: a partial map from keys to a value and its version, where a
  write names the version it replaces.\<close>

locale cas_store =
  fixes look :: "'s \<Rightarrow> string \<Rightarrow> ('v \<times> nat) option"
    and put :: "string \<Rightarrow> 'v \<Rightarrow> nat \<Rightarrow> 's \<Rightarrow> (store_error, nat) result \<times> 's"
    and del :: "string \<Rightarrow> nat \<Rightarrow> 's \<Rightarrow> (store_error, unit) result \<times> 's"
    and good :: "'s \<Rightarrow> bool"
  assumes version_pos: "good s \<Longrightarrow> look s k = Some (w, n) \<Longrightarrow> 0 < n"
    and put_new: "good s \<Longrightarrow> look s k = None \<Longrightarrow>
      \<exists>s'. put k v 0 s = (Ok 1, s') \<and> look s' = (look s)(k \<mapsto> (v, 1)) \<and> good s'"
    and put_swap: "good s \<Longrightarrow> look s k = Some (w, n) \<Longrightarrow> n + 1 < 2 ^ 64 \<Longrightarrow>
      \<exists>s'. put k v n s = (Ok (n + 1), s') \<and> look s' = (look s)(k \<mapsto> (v, n + 1)) \<and> good s'"
    and put_absent: "good s \<Longrightarrow> look s k = None \<Longrightarrow> n \<noteq> 0 \<Longrightarrow>
      put k v n s = (Err ErrVersionMismatch, s)"
    and put_stale: "good s \<Longrightarrow> look s k = Some (w, m) \<Longrightarrow> n \<noteq> m \<Longrightarrow>
      put k v n s = (Err ErrVersionMismatch, s)"
    and del_absent: "good s \<Longrightarrow> look s k = None \<Longrightarrow> del k n s = (Err ErrNotFound, s)"
    and del_stale: "good s \<Longrightarrow> look s k = Some (w, m) \<Longrightarrow> n \<noteq> 0 \<Longrightarrow> n \<noteq> m \<Longrightarrow>
      del k n s = (Err ErrVersionMismatch, s)"
    and del_match: "good s \<Longrightarrow> look s k = Some (w, m) \<Longrightarrow> n = 0 \<or> n = m \<Longrightarrow>
      \<exists>s'. del k n s = (Ok (), s') \<and> look s' = (look s)(k := None) \<and> good s'"
begin

definition room :: "'s \<Rightarrow> string \<Rightarrow> bool" where
  "room s k \<longleftrightarrow> (\<forall>w n. look s k = Some (w, n) \<longrightarrow> n + 1 < 2 ^ 64)"

lemma put_cases:
  assumes "good s" and "room s k"
  obtains (stored) s' m where "put k v n s = (Ok m, s')" "look s' = (look s)(k \<mapsto> (v, m))" "good s'"
      "m = n + 1" "n = (case look s k of None \<Rightarrow> 0 | Some (w, i) \<Rightarrow> i)"
  | (lost) "put k v n s = (Err ErrVersionMismatch, s)"
      "n \<noteq> (case look s k of None \<Rightarrow> 0 | Some (w, i) \<Rightarrow> i)"
proof (cases "look s k")
  case None
  show ?thesis
  proof (cases "n = 0")
    case True
    with put_new [OF assms(1) None, of v] None stored [of 1] show ?thesis by auto
  next
    case False
    with put_absent [OF assms(1) None] None lost show ?thesis by auto
  qed
next
  case (Some p)
  obtain w i where p: "p = (w, i)" by force
  with Some have some: "look s k = Some (w, i)" by simp
  show ?thesis
  proof (cases "n = i")
    case True
    moreover have "i + 1 < 2 ^ 64" using assms(2) some by (auto simp: room_def)
    ultimately show ?thesis
      using put_swap [OF assms(1) some, of v] some stored [of "i + 1"] by auto
  next
    case False
    with put_stale [OF assms(1) some] some lost show ?thesis by auto
  qed
qed

lemma put_keeps: "good s \<Longrightarrow> room s k \<Longrightarrow> good (snd (put k v n s))"
  by (rule put_cases [of s k v n]; simp)

lemma put_frame: "good s \<Longrightarrow> room s k \<Longrightarrow> j \<noteq> k \<Longrightarrow> look (snd (put k v n s)) j = look s j"
  by (rule put_cases [of s k v n]; simp)

lemma put_then_look:
  "good s \<Longrightarrow> room s k \<Longrightarrow> put k v n s = (Ok m, s') \<Longrightarrow> look s' k = Some (v, m)"
  by (rule put_cases [of s k v n]; auto)

text \<open>Of two writers that name the same version, the second loses and changes nothing.\<close>

lemma cas_exclusive:
  assumes "good s" and "room s k" and "put k v n s = (Ok m, s')"
  shows "put k v' n s' = (Err ErrVersionMismatch, s')"
  using assms(1,2)
proof (rule put_cases [of s k v n])
  fix t i assume t: "put k v n s = (Ok i, t)" "look t = (look s)(k \<mapsto> (v, i))" "good t" "i = n + 1"
  with assms(3) have "good s'" "look s' k = Some (v, n + 1)" by auto
  from put_stale [OF this] show ?thesis by simp
qed (use assms(3) in simp)

end

definition mem_look :: "'v memory \<Rightarrow> string \<Rightarrow> ('v \<times> nat) option" where
  "mem_look s k = map_option (\<lambda>e. (entVal e, entVersion e)) (memM s k)"

lemma mem_look_upd:
  "memM s' = (memM s)(k \<mapsto> \<lparr>entVal = v, entVersion = n\<rparr>) \<Longrightarrow> mem_look s' = (mem_look s)(k \<mapsto> (v, n))"
  by (rule ext) (simp add: mem_look_def)

lemma mem_look_del: "memM s' = (memM s)(k := None) \<Longrightarrow> mem_look s' = (mem_look s)(k := None)"
  by (rule ext) (simp add: mem_look_def)

interpretation mem: cas_store mem_look "mem_Put CtxLive" "mem_Delete CtxLive" mem_wf
proof
  fix s :: "'a memory" and k w n
  assume "mem_wf s" "mem_look s k = Some (w, n)"
  then show "0 < n" by (auto simp: mem_look_def dest: versions_okD [OF mem_wfD(5)])
next
  fix s :: "'a memory" and k v
  assume a: "mem_wf s" "mem_look s k = None"
  then have "key_room s k" by (simp add: mem_look_def key_room_def)
  with a mem_Put_wf [OF a(1), of k CtxLive v 0]
  show "\<exists>s'. mem_Put CtxLive k v 0 s = (Ok 1, s') \<and> mem_look s' = (mem_look s)(k \<mapsto> (v, 1)) \<and> mem_wf s'"
    by (auto simp: mem_Put_def mem_look_def fun_eq_iff)
next
  fix s :: "'a memory" and k w n v
  assume a: "mem_wf s" "mem_look s k = Some (w, n)" and n: "n + 1 < 2 ^ 64"
  then have "key_room s k" by (auto simp: mem_look_def key_room_def)
  with a n mem_Put_wf [OF a(1), of k CtxLive v n] versions_okD [OF mem_wfD(5) [OF a(1)], of k]
  show "\<exists>s'. mem_Put CtxLive k v n s = (Ok (n + 1), s') \<and>
      mem_look s' = (mem_look s)(k \<mapsto> (v, n + 1)) \<and> mem_wf s'"
    by (auto simp: mem_Put_def mem_look_def Let_def fun_eq_iff)
next
  fix s :: "'a memory" and k w m n v
  assume a: "mem_wf s" "mem_look s k = Some (w, m)" "n \<noteq> m"
  then show "mem_Put CtxLive k v n s = (Err ErrVersionMismatch, s)"
    by (auto simp: mem_Put_def mem_look_def)
next
  fix s :: "'a memory" and k w m n
  assume a: "mem_wf s" "mem_look s k = Some (w, m)" "n = 0 \<or> n = m"
  with mem_Delete_wf [OF a(1), of CtxLive k n]
  show "\<exists>s'. mem_Delete CtxLive k n s = (Ok (), s') \<and> mem_look s' = (mem_look s)(k := None) \<and> mem_wf s'"
    by (auto simp: mem_Delete_def mem_look_def fun_eq_iff)
qed (auto simp: mem_Put_def mem_Delete_def mem_look_def)

subsection \<open>Histories\<close>

text \<open>Concurrent callers take the lock one at a time, so what a caller sees between its read and
  its write is some sequence of operations.\<close>

datatype 'v kv_op = OpPut string 'v nat | OpDelete string nat | OpReset string

fun run_op :: "'v kv_op \<Rightarrow> 'v memory \<Rightarrow> 'v memory" where
  "run_op (OpPut k v n) s = snd (mem_Put CtxLive k v n s)"
| "run_op (OpDelete k n) s = snd (mem_Delete CtxLive k n s)"
| "run_op (OpReset p) s = snd (mem_Reset CtxLive p s)"

definition run_ops :: "'v kv_op list \<Rightarrow> 'v memory \<Rightarrow> 'v memory" where
  "run_ops ops s = fold run_op ops s"

text \<open>The operation may remove the key.\<close>

fun removes :: "string \<Rightarrow> 'v kv_op \<Rightarrow> bool" where
  "removes k (OpPut j v n) = False"
| "removes k (OpDelete j n) = (j = k)"
| "removes k (OpReset p) = prefix p k"

lemma run_op_look:
  assumes "\<not> removes k op" and "memM s k = Some e" and "entVersion e + 1 < 2 ^ 64"
  shows "\<exists>e'. memM (run_op op s) k = Some e' \<and>
     (e' = e \<or> entVersion e' = entVersion e + 1)"
proof (cases op)
  case (OpPut j v n)
  with assms show ?thesis by (auto simp: mem_Put_def Let_def split: option.splits)
next
  case (OpDelete j n)
  with assms show ?thesis by (auto simp: mem_Delete_def split: option.splits)
next
  case (OpReset p)
  with assms show ?thesis by (auto simp: mem_Reset_def)
qed

lemma run_ops_version:
  assumes "\<forall>op\<in>set ops. \<not> removes k op" and "memM s k = Some e"
    and "entVersion e + length ops < 2 ^ 64"
  shows "\<exists>e'. memM (run_ops ops s) k = Some e' \<and> (e' = e \<or> entVersion e < entVersion e')"
  using assms
proof (induction ops arbitrary: s e)
  case Nil
  then show ?case by (simp add: run_ops_def)
next
  case (Cons op ops)
  then obtain e1 where e1: "memM (run_op op s) k = Some e1" "e1 = e \<or> entVersion e1 = entVersion e + 1"
    using run_op_look [of k op s e] by auto
  with Cons.prems have "entVersion e1 + length ops < 2 ^ 64" by auto
  with Cons e1(1) obtain e2 where "memM (run_ops ops (run_op op s)) k = Some e2"
    "e2 = e1 \<or> entVersion e1 < entVersion e2" by force
  with e1(2) show ?case by (auto simp: run_ops_def)
qed

subsection \<open>Properties\<close>

text \<open>
  C14: following page tokens from the first page to the last returns, for any scan budget, every
  entry under the prefix exactly once and in key order; one page per stored key is enough.
\<close>

theorem list_pages_complete:
  assumes "mem_wf s" and "pfx \<noteq> ''''" and "0 < limit"
  shows "list_pages (Suc (length (memKeys s))) pfx limit '''' s =
           Some (map (kv_at s) (filter (prefix pfx) (memKeys s)))"
proof -
  have "length (list_keys pfx None s) \<le> length (memKeys s)" by (simp add: list_keys_def)
  then show ?thesis
    using list_pages_all [OF assms, of "''''" None "Suc (length (memKeys s))"]
    by (simp add: list_keys_def le_imp_less_Suc del: list_pages.simps)
qed

text \<open>A store with one key, as two calls of \<open>Put\<close> leave it.\<close>

definition demo_store :: "nat memory" where
  "demo_store = snd (mem_Put CtxLive ''p/x'' 8 1 (snd (mem_Put CtxLive ''p/x'' 7 0 NewMemory)))"

lemma demo_store_eq:
  "demo_store = \<lparr>memM = [''p/x'' \<mapsto> \<lparr>entVal = 8, entVersion = 2\<rparr>], memKeys = [''p/x'']\<rparr>"
  by (simp add: demo_store_def mem_Put_def NewMemory_def insertKey_def searchStrings_def
      sort_search.simps Let_def u64_def, simp add: numeral_2_eq_2)

lemma demo_store_wf: "mem_wf demo_store"
  by (auto simp: demo_store_eq mem_wf_def versions_ok_def split: if_splits)

theorem list_pages_complete_witness:
  "mem_wf demo_store \<and> list_pages 2 ''p/'' 1 '''' demo_store = Some [\<lparr>kvKey = ''p/x'', kvVal = 8, kvVersion = 2\<rparr>]"
  using list_pages_complete [OF demo_store_wf, of "''p/''" 1] demo_store_wf
  by (simp add: demo_store_eq kv_at_def numeral_2_eq_2)

text \<open>
  C10: a compare-and-swap at a version read earlier is refused, and changes nothing, whenever the
  entry changed in between, whatever other callers did, as long as none of them removed the key.
\<close>

theorem stale_cas_fails:
  assumes "memM s k = Some e" and "0 < entVersion e" and "\<forall>op\<in>set ops. \<not> removes k op"
    and "entVersion e + length ops < 2 ^ 64"
    and "memM (run_ops ops s) k \<noteq> Some e"
  shows "mem_Put CtxLive k v (entVersion e) (run_ops ops s) = (Err ErrVersionMismatch, run_ops ops s)"
  using run_ops_version [OF assms(3,1,4)] assms(2,5) by (auto simp: mem_Put_def)

theorem stale_cas_fails_witness:
  "mem_Put CtxLive ''p/x'' 9 2 (run_ops [OpPut ''p/x'' 5 2] demo_store) =
     (Err ErrVersionMismatch, run_ops [OpPut ''p/x'' 5 2] demo_store)"
proof -
  have "memM demo_store ''p/x'' = Some \<lparr>entVal = 8, entVersion = 2\<rparr>" by (simp add: demo_store_eq)
  moreover have "memM (run_ops [OpPut ''p/x'' 5 2] demo_store) ''p/x'' \<noteq> Some \<lparr>entVal = 8, entVersion = 2\<rparr>"
    by (simp add: run_ops_def demo_store_eq mem_Put_def)
  ultimately show ?thesis
    using stale_cas_fails [of demo_store "''p/x''" "\<lparr>entVal = 8, entVersion = 2\<rparr>" "[OpPut ''p/x'' 5 2]" 9]
    by simp
qed

text \<open>
  Versions restart at one when a key is deleted and written again, so a compare-and-swap at
  a version read before the deletion is accepted although the entry it read is gone.
\<close>

theorem recreated_key_accepts_stale_version:
  fixes s :: "'v memory"
  assumes "mem_wf s" and "memM s k = Some e" and "entVersion e = 1"
  shows "fst (mem_Put CtxLive k v 1 (run_ops [OpDelete k 0, OpPut k w 0] s)) = Ok 2"
  using assms by (simp add: run_ops_def mem_Delete_def mem_Put_def)

theorem recreated_key_accepts_stale_version_witness:
  "fst (mem_Put CtxLive ''p/x'' 3 1
     (run_ops [OpDelete ''p/x'' 0, OpPut ''p/x'' 5 0] (snd (mem_Put CtxLive ''p/x'' (7::nat) 0 NewMemory)))) = Ok 2"
  by (rule recreated_key_accepts_stale_version [of _ _ "\<lparr>entVal = 7, entVersion = 1\<rparr>"])
    (auto simp: mem_Put_def NewMemory_def mem_wf_def versions_ok_def insertKey_def searchStrings_def
      sort_search.simps split: if_splits)

text \<open>Restoring a snapshot gives back the store it was taken of, versions included.\<close>

theorem snapshot_restores: "mem_wf s \<Longrightarrow> mem_Restore (mem_Snapshot s) = s"
  by (rule mem_Restore_Snapshot)

theorem snapshot_restores_witness: "mem_wf demo_store \<and> mem_Restore (mem_Snapshot demo_store) = demo_store"
  using snapshot_restores [OF demo_store_wf] demo_store_wf by simp

end
