(* ===== verification/Fake_Clock.thy ===== *)
theory Fake_Clock
  imports Go_Prelude
begin

text \<open>
  The manual clock (\<open>core/clock/fake.go\<close>): a queue of timers sorted by deadline and insertion
  order, moved only by \<open>Advance\<close> and \<open>AdvanceTo\<close>, which run the callbacks that come due.

  A timer is a heap object in Go, so it carries its address \<open>tPtr\<close>; the \<open>fired\<close> flags are the
  set of addresses \<open>ckFired\<close>.  A callback is a value of the client's type \<open>'f\<close>; the client's
  \<open>exec\<close> runs it on the client's state and the clock, which it may call back.
\<close>

subsection \<open>State\<close>

record 'f fakeTimer =
  tPtr :: nat
  tWhen :: time
  tSeq :: nat
  tF :: 'f

record 'f fakeClock =
  ckNow :: time
  ckSeq :: nat
  ckQ :: "'f fakeTimer list"
  ckIn :: bool
  ckPtr :: nat
  ckFired :: "nat list"

datatype clock_panic = PanicReentrant | PanicCallback string

definition NewFake :: "time \<Rightarrow> 'f fakeClock" where
  "NewFake now = \<lparr>ckNow = now, ckSeq = 0, ckQ = [], ckIn = False, ckPtr = 0, ckFired = []\<rparr>"

definition before :: "'f fakeTimer \<Rightarrow> 'f fakeTimer \<Rightarrow> bool" where
  "before t u = (if tWhen t = tWhen u then tSeq t < tSeq u else tWhen t < tWhen u)"

subsection \<open>Operations\<close>

definition AfterFunc :: "duration \<Rightarrow> 'f \<Rightarrow> 'f fakeClock \<Rightarrow> nat \<times> 'f fakeClock" where
  "AfterFunc d f c =
     (let t = \<lparr>tPtr = ckPtr c, tWhen = ckNow c + d, tSeq = ckSeq c, tF = f\<rparr>;
          i = sort_search (\<lambda>i. before t (ckQ c ! i)) 0 (length (ckQ c))
      in (tPtr t, c\<lparr>ckSeq := u64 (ckSeq c + 1), ckPtr := ckPtr c + 1,
                    ckQ := take i (ckQ c) @ t # drop i (ckQ c)\<rparr>))"

fun remove_timer :: "nat \<Rightarrow> 'f fakeTimer list \<Rightarrow> 'f fakeTimer list" where
  "remove_timer p [] = []"
| "remove_timer p (t # q) = (if tPtr t = p then q else t # remove_timer p q)"

definition Stop :: "nat \<Rightarrow> 'f fakeClock \<Rightarrow> bool \<times> 'f fakeClock" where
  "Stop p c =
     (if p \<in> set (ckFired c) then (False, c)
      else if p \<in> tPtr ` set (ckQ c)
      then (True, c\<lparr>ckQ := remove_timer p (ckQ c), ckFired := p # ckFired c\<rparr>)
      else (False, c))"

definition SetNow :: "time \<Rightarrow> 'f fakeClock \<Rightarrow> 'f fakeClock" where
  "SetNow t c = c\<lparr>ckNow := t\<rparr>"

definition Pending :: "'f fakeClock \<Rightarrow> int" where
  "Pending c = int (length (ckQ c))"

text \<open>
  The loop of \<open>runTo\<close>.  It returns the timers it fired, in order, with the final state;
  \<open>None\<close> is fuel that ran out.  A panic of a callback leaves the loop with \<open>in\<close> still set.
\<close>

type_synonym ('f, 'w) callback = "'f \<Rightarrow> 'w \<times> 'f fakeClock \<Rightarrow> (clock_panic, unit) result \<times> 'w \<times> 'f fakeClock"

fun run_loop ::
  "nat \<Rightarrow> ('f, 'w) callback \<Rightarrow> time \<Rightarrow> 'w \<times> 'f fakeClock \<Rightarrow>
   ('f fakeTimer list \<times> (clock_panic, unit) result \<times> 'w \<times> 'f fakeClock) option" where
  "run_loop 0 exec target (w, c) = None"
| "run_loop (Suc n) exec target (w, c) =
     (case ckQ c of
        [] \<Rightarrow> Some ([], Ok (), w, c)
      | t # q \<Rightarrow>
          if target < tWhen t then Some ([], Ok (), w, c)
          else
            (case exec (tF t) (w, c\<lparr>ckQ := q, ckFired := tPtr t # ckFired c, ckNow := tWhen t\<rparr>) of
               (Err e, w', c') \<Rightarrow> Some ([t], Err e, w', c')
             | (Ok _, w', c') \<Rightarrow>
                 map_option (\<lambda>(ts, r). (t # ts, r)) (run_loop n exec target (w', c'))))"

definition runTo ::
  "nat \<Rightarrow> ('f, 'w) callback \<Rightarrow> time \<Rightarrow> 'w \<times> 'f fakeClock \<Rightarrow>
   ('f fakeTimer list \<times> (clock_panic, unit) result \<times> 'w \<times> 'f fakeClock) option" where
  "runTo fuel exec target wc =
     (if ckIn (snd wc) then Some ([], Err PanicReentrant, wc)
      else (case run_loop fuel exec target (fst wc, (snd wc)\<lparr>ckIn := True\<rparr>) of
              None \<Rightarrow> None
            | Some (ts, Err e, w, c) \<Rightarrow> Some (ts, Err e, w, c)
            | Some (ts, Ok _, w, c) \<Rightarrow> Some (ts, Ok (), w, c\<lparr>ckNow := target, ckIn := False\<rparr>)))"

definition Advance ::
  "nat \<Rightarrow> ('f, 'w) callback \<Rightarrow> duration \<Rightarrow> 'w \<times> 'f fakeClock \<Rightarrow>
   ('f fakeTimer list \<times> (clock_panic, unit) result \<times> 'w \<times> 'f fakeClock) option" where
  "Advance fuel exec d wc = runTo fuel exec (ckNow (snd wc) + d) wc"

definition AdvanceTo ::
  "nat \<Rightarrow> ('f, 'w) callback \<Rightarrow> time \<Rightarrow> 'w \<times> 'f fakeClock \<Rightarrow>
   ('f fakeTimer list \<times> (clock_panic, bool) result \<times> 'w \<times> 'f fakeClock) option" where
  "AdvanceTo fuel exec target wc =
     (if target < ckNow (snd wc) then Some ([], Ok False, wc)
      else if ckNow (snd wc) < target
      then (case runTo fuel exec target wc of
              None \<Rightarrow> None
            | Some (ts, Err e, wc') \<Rightarrow> Some (ts, Err e, wc')
            | Some (ts, Ok _, wc') \<Rightarrow> Some (ts, Ok True, wc'))
      else Some ([], Ok True, wc))"

subsection \<open>The queue invariant\<close>

definition due_order :: "'f fakeTimer \<Rightarrow> 'f fakeTimer \<Rightarrow> bool" where
  "due_order t u \<longleftrightarrow> \<not> before u t"

definition clock_wf :: "'f fakeClock \<Rightarrow> bool" where
  "clock_wf c \<longleftrightarrow>
     sorted_wrt due_order (ckQ c) \<and> distinct (map tPtr (ckQ c)) \<and>
     (\<forall>t\<in>set (ckQ c). tPtr t < ckPtr c \<and> tPtr t \<notin> set (ckFired c)) \<and>
     (\<forall>p\<in>set (ckFired c). p < ckPtr c)"

lemma due_order_iff: "due_order t u \<longleftrightarrow> tWhen t < tWhen u \<or> tWhen t = tWhen u \<and> tSeq t \<le> tSeq u"
  by (auto simp: due_order_def before_def)

lemma due_order_trans: "due_order a b \<Longrightarrow> due_order b c \<Longrightarrow> due_order a c"
  by (auto simp: due_order_iff)

lemma before_trans_due: "before t a \<Longrightarrow> due_order a b \<Longrightarrow> before t b"
  by (auto simp: due_order_iff before_def split: if_splits)

lemma before_imp_due: "before t u \<Longrightarrow> due_order t u"
  by (auto simp: due_order_iff before_def split: if_splits)

text \<open>On a sorted queue the binary search finds the first timer due strictly later.\<close>

lemma insert_position:
  assumes "sorted_wrt due_order q"
  shows "sort_search (\<lambda>i. before t (q ! i)) 0 (length q) = length (takeWhile (\<lambda>u. \<not> before t u) q)"
proof (rule sort_search_boundary)
  let ?k = "length (takeWhile (\<lambda>u. \<not> before t u) q)"
  show mono: "before t (q ! b)" if "a \<le> b" "b < length q" "before t (q ! a)" for a b
    using that sorted_wrt_nth_less [OF assms, of a b] before_trans_due by (cases "a = b") auto
  show "\<not> before t (q ! a)" if "0 \<le> a" "a < ?k" for a
    using that by (metis nth_mem set_takeWhileD takeWhile_nth)
  show "before t (q ! a)" if "?k \<le> a" "a < length q" for a
    using that nth_length_takeWhile [of "\<lambda>u. \<not> before t u" q] mono [of ?k a] by auto
qed (auto simp: length_takeWhile_le)

lemma AfterFunc_queue:
  assumes "sorted_wrt due_order (ckQ c)"
  shows "\<exists>a b t. ckQ c = a @ b \<and> ckQ (snd (AfterFunc d f c)) = a @ t # b \<and>
           t = \<lparr>tPtr = ckPtr c, tWhen = ckNow c + d, tSeq = ckSeq c, tF = f\<rparr> \<and>
           (\<forall>u\<in>set a. due_order u t) \<and> (\<forall>u\<in>set b. due_order t u)"
proof -
  let ?t = "\<lparr>tPtr = ckPtr c, tWhen = ckNow c + d, tSeq = ckSeq c, tF = f\<rparr>"
  let ?a = "takeWhile (\<lambda>u. \<not> before ?t u) (ckQ c)" and ?b = "dropWhile (\<lambda>u. \<not> before ?t u) (ckQ c)"
  have b: "before ?t u" if "u \<in> set ?b" for u
  proof -
    have ne: "?b \<noteq> []" using that by (metis empty_iff empty_set)
    then have h: "before ?t (hd ?b)" using hd_dropWhile by blast
    have "sorted_wrt due_order ?b" using assms by (metis sorted_wrt_append takeWhile_dropWhile_id)
    with ne that h show ?thesis by (cases ?b) (auto intro: before_trans_due)
  qed
  have "ckQ (snd (AfterFunc d f c)) = ?a @ ?t # ?b"
    using insert_position [OF assms, of ?t]
    by (simp add: AfterFunc_def Let_def takeWhile_eq_take [symmetric] dropWhile_eq_drop [symmetric])
  moreover have "\<forall>u\<in>set ?a. due_order u ?t"
    by (auto simp: due_order_def dest: set_takeWhileD)
  moreover have "\<forall>u\<in>set ?b. due_order ?t u"
    using b by (blast intro: before_imp_due)
  ultimately show ?thesis by (intro exI [of _ ?a] exI [of _ ?b] exI [of _ ?t]) simp
qed

lemma AfterFunc_fields [simp]:
  "ckNow (snd (AfterFunc d f c)) = ckNow c" "ckIn (snd (AfterFunc d f c)) = ckIn c"
  "ckFired (snd (AfterFunc d f c)) = ckFired c" "ckPtr (snd (AfterFunc d f c)) = ckPtr c + 1"
  "fst (AfterFunc d f c) = ckPtr c"
  by (simp_all add: AfterFunc_def Let_def)

lemma AfterFunc_empty:
  "ckQ c = [] \<Longrightarrow> ckQ (snd (AfterFunc d f c)) = [\<lparr>tPtr = ckPtr c, tWhen = ckNow c + d, tSeq = ckSeq c, tF = f\<rparr>]"
  by (simp add: AfterFunc_def Let_def)

lemma AfterFunc_wf [go_inv]: "clock_wf c \<Longrightarrow> clock_wf (snd (AfterFunc d f c))"
proof -
  assume wf: "clock_wf c"
  then obtain a b t where q: "ckQ c = a @ b" "ckQ (snd (AfterFunc d f c)) = a @ t # b" "tPtr t = ckPtr c"
    and ord: "\<forall>u\<in>set a. due_order u t" "\<forall>u\<in>set b. due_order t u"
    using AfterFunc_queue [of c d f] by (auto simp: clock_wf_def)
  have "ckPtr c \<notin> tPtr ` set (ckQ c)" "ckPtr c \<notin> set (ckFired c)"
    using wf by (auto simp: clock_wf_def)
  with wf q ord show ?thesis
    by (simp add: clock_wf_def sorted_wrt_append less_Suc_eq ball_Un image_Un)
qed

lemma set_remove_timer: "distinct (map tPtr q) \<Longrightarrow> set (remove_timer p q) = {t \<in> set q. tPtr t \<noteq> p}"
  by (induction q) (auto simp: image_iff)

lemma remove_timer_sub: "subseq (remove_timer p q) q"
  by (induction q) (auto intro: subseq_Cons')

lemma Stop_fields [simp]:
  "ckNow (snd (Stop p c)) = ckNow c" "ckIn (snd (Stop p c)) = ckIn c" "ckPtr (snd (Stop p c)) = ckPtr c"
  by (simp_all add: Stop_def)

lemma subseq_set: "subseq xs ys \<Longrightarrow> set xs \<subseteq> set ys"
  by (induction rule: list_emb.induct) auto

lemma sorted_wrt_subseq: "subseq xs ys \<Longrightarrow> sorted_wrt P ys \<Longrightarrow> sorted_wrt P xs"
  by (induction rule: list_emb.induct) (auto dest: subseq_set)

lemma distinct_subseq: "subseq xs ys \<Longrightarrow> distinct ys \<Longrightarrow> distinct xs"
  by (induction rule: list_emb.induct) (auto dest: subseq_set)

lemma Stop_wf [go_inv]: "clock_wf c \<Longrightarrow> clock_wf (snd (Stop p c))"
  unfolding clock_wf_def Stop_def
  using remove_timer_sub [of p "ckQ c"]
  by (auto simp: set_remove_timer intro: sorted_wrt_subseq distinct_subseq subseq_map)

lemma SetNow_wf [go_inv]: "clock_wf c \<Longrightarrow> clock_wf (SetNow t c)"
  by (simp add: SetNow_def clock_wf_def)

lemma NewFake_wf [go_inv]: "clock_wf (NewFake t)"
  by (simp add: NewFake_def clock_wf_def)

subsection \<open>What a callback may do\<close>

text \<open>
  \<open>clock_calls lo n c c'\<close>: a callback turned \<open>c\<close> into \<open>c'\<close> by stopping timers and arming
  \<open>n\<close> new ones, none with a delay below \<open>lo\<close>.
\<close>

inductive clock_calls :: "duration \<Rightarrow> nat \<Rightarrow> 'f fakeClock \<Rightarrow> 'f fakeClock \<Rightarrow> bool" for lo where
  none: "clock_calls lo 0 c c"
| arm: "clock_calls lo n c c' \<Longrightarrow> lo \<le> d \<Longrightarrow> clock_calls lo (Suc n) c (snd (AfterFunc d f c'))"
| stop: "clock_calls lo n c c' \<Longrightarrow> clock_calls lo n c (snd (Stop p c'))"

definition well_behaved :: "duration \<Rightarrow> nat \<Rightarrow> ('f, 'w) callback \<Rightarrow> bool" where
  "well_behaved lo k exec \<longleftrightarrow>
     (\<forall>f w c. \<exists>w' c' n. exec f (w, c) = (Ok (), w', c') \<and> n \<le> k \<and> clock_calls lo n c c')"

lemma calls_now: "clock_calls lo n c c' \<Longrightarrow> ckNow c' = ckNow c \<and> ckIn c' = ckIn c"
  by (induction rule: clock_calls.induct) auto

lemma calls_wf: "clock_calls lo n c c' \<Longrightarrow> clock_wf c \<Longrightarrow> clock_wf c'"
  by (induction rule: clock_calls.induct) (auto intro: go_inv)

lemma calls_fired: "clock_calls lo n c c' \<Longrightarrow> set (ckFired c) \<subseteq> set (ckFired c')"
  by (induction rule: clock_calls.induct) (auto simp: Stop_def)

lemma set_AfterFunc:
  "clock_wf c \<Longrightarrow> set (ckQ (snd (AfterFunc d f c))) =
     insert \<lparr>tPtr = ckPtr c, tWhen = ckNow c + d, tSeq = ckSeq c, tF = f\<rparr> (set (ckQ c))"
  using AfterFunc_queue [of c d f] by (auto simp: clock_wf_def)

lemma set_Stop:
  "clock_wf c \<Longrightarrow> set (ckQ (snd (Stop p c))) = {t \<in> set (ckQ c). tPtr t \<noteq> p}"
  by (auto simp: Stop_def set_remove_timer clock_wf_def)

lemma fired_Stop:
  "clock_wf c \<Longrightarrow> set (ckFired (snd (Stop p c))) =
     set (ckFired c) \<union> (if p \<in> tPtr ` set (ckQ c) then {p} else {})"
  by (auto simp: Stop_def clock_wf_def)

text \<open>A timer leaves the queue only when stopped; a new one is due at least \<open>lo\<close> from now.\<close>

lemma calls_queue:
  "clock_calls lo n c c' \<Longrightarrow> clock_wf c \<Longrightarrow>
     (\<forall>t\<in>set (ckQ c). t \<in> set (ckQ c') \<or> tPtr t \<in> set (ckFired c')) \<and>
     (\<forall>t\<in>set (ckQ c'). t \<in> set (ckQ c) \<or> ckNow c + lo \<le> tWhen t)"
proof (induction rule: clock_calls.induct)
  case (arm n c c' d f)
  then show ?case
    using set_AfterFunc [OF calls_wf [OF arm.hyps(1) arm.prems], of d f] calls_now [OF arm.hyps(1)]
    by auto
next
  case (stop n c c' p)
  then show ?case
    using set_Stop [OF calls_wf [OF stop.hyps(1) stop.prems], of p]
      fired_Stop [OF calls_wf [OF stop.hyps(1) stop.prems], of p] by auto
qed simp

subsection \<open>Termination of the loop\<close>

text \<open>
  A timer due at \<open>w \<le> target\<close> can cause at most \<open>(k+1)^(1 + (target - w) / lo)\<close> firings when every
  callback arms at most \<open>k\<close> timers, each at least \<open>lo > 0\<close> ahead.
\<close>

definition due_weight :: "duration \<Rightarrow> nat \<Rightarrow> time \<Rightarrow> 'f fakeTimer \<Rightarrow> nat" where
  "due_weight lo k target t =
     (if tWhen t \<le> target then (k + 1) ^ Suc (nat ((target - tWhen t) div lo)) else 0)"

definition queue_weight :: "duration \<Rightarrow> nat \<Rightarrow> time \<Rightarrow> 'f fakeTimer list \<Rightarrow> nat" where
  "queue_weight lo k target q = sum_list (map (due_weight lo k target) q)"

lemma queue_weight_Cons [simp]:
  "queue_weight lo k target [] = 0"
  "queue_weight lo k target (t # q) = due_weight lo k target t + queue_weight lo k target q"
  "queue_weight lo k target (a @ b) = queue_weight lo k target a + queue_weight lo k target b"
  by (simp_all add: queue_weight_def)

lemma queue_weight_subseq: "subseq a b \<Longrightarrow> queue_weight lo k target a \<le> queue_weight lo k target b"
  by (induction rule: list_emb.induct) auto

lemma due_weight_armed:
  assumes "0 < lo" and "now \<le> target" and "now + lo \<le> tWhen t"
  shows "due_weight lo k target t \<le> (k + 1) ^ nat ((target - now) div lo)"
proof (cases "tWhen t \<le> target")
  case True
  have "target - tWhen t \<le> target - now - lo" using assms by simp
  then have "(target - tWhen t) div lo \<le> (target - now - lo) div lo"
    using assms(1) by (simp add: zdiv_mono1)
  moreover have "(target - now - lo) div lo = (target - now) div lo - 1"
    using assms(1) div_add_self2 [of lo "target - now - lo"] by simp
  ultimately have "(target - tWhen t) div lo + 1 \<le> (target - now) div lo" by simp
  moreover have "0 \<le> (target - tWhen t) div lo" using True assms(1) by (simp add: pos_imp_zdiv_nonneg_iff)
  ultimately have "Suc (nat ((target - tWhen t) div lo)) \<le> nat ((target - now) div lo)" by linarith
  then show ?thesis using True by (auto simp: due_weight_def intro!: power_increasing simp del: power_Suc)
qed (simp add: due_weight_def)

lemma calls_weight:
  assumes "clock_calls lo n c c'" and "clock_wf c" and "0 < lo" and "ckNow c \<le> target"
  shows "queue_weight lo k target (ckQ c') \<le>
           queue_weight lo k target (ckQ c) + n * (k + 1) ^ nat ((target - ckNow c) div lo)"
  using assms
proof (induction rule: clock_calls.induct)
  case (arm n c c' d f)
  obtain a b t where q: "ckQ c' = a @ b" "ckQ (snd (AfterFunc d f c')) = a @ t # b"
    "t = \<lparr>tPtr = ckPtr c', tWhen = ckNow c' + d, tSeq = ckSeq c', tF = f\<rparr>"
    using AfterFunc_queue [of c' d f] calls_wf [OF arm.hyps(1) arm.prems(1)] by (auto simp: clock_wf_def)
  have "due_weight lo k target t \<le> (k + 1) ^ nat ((target - ckNow c) div lo)"
    using arm.hyps arm.prems q(3) calls_now [OF arm.hyps(1)] by (intro due_weight_armed) auto
  then show ?case using arm.IH [OF arm.prems] q by simp
next
  case (stop n c c' p)
  have "queue_weight lo k target (ckQ (snd (Stop p c'))) \<le> queue_weight lo k target (ckQ c')"
    by (auto simp: Stop_def intro: queue_weight_subseq remove_timer_sub)
  with stop.IH [OF stop.prems] show ?case by linarith
qed simp

text \<open>One turn of the loop: the timer popped, the callback run.\<close>

definition popped :: "'f fakeTimer \<Rightarrow> 'f fakeTimer list \<Rightarrow> 'f fakeClock \<Rightarrow> 'f fakeClock" where
  "popped t q c = c\<lparr>ckQ := q, ckFired := tPtr t # ckFired c, ckNow := tWhen t\<rparr>"

lemma popped_fields [simp]:
  "ckQ (popped t q c) = q" "ckNow (popped t q c) = tWhen t" "ckIn (popped t q c) = ckIn c"
  "ckFired (popped t q c) = tPtr t # ckFired c"
  by (simp_all add: popped_def)

lemma popped_wf: "clock_wf c \<Longrightarrow> ckQ c = t # q \<Longrightarrow> clock_wf (popped t q c)"
proof -
  assume a: "clock_wf c" "ckQ c = t # q"
  then have "\<forall>u\<in>set q. tPtr u \<noteq> tPtr t" by (simp add: clock_wf_def) (metis imageI)
  with a show ?thesis by (simp add: clock_wf_def popped_def)
qed

lemma turn_weight:
  assumes "clock_wf c" and "ckQ c = t # q" and "tWhen t \<le> target" and "0 < lo"
    and "clock_calls lo n (popped t q c) c'" and "n \<le> k"
  shows "queue_weight lo k target (ckQ c') < queue_weight lo k target (ckQ c)"
proof -
  let ?m = "nat ((target - tWhen t) div lo)"
  have "queue_weight lo k target (ckQ c') \<le> queue_weight lo k target q + n * (k + 1) ^ ?m"
    using calls_weight [OF assms(5) popped_wf [OF assms(1,2)] assms(4), of target k] assms(3) by simp
  moreover have "n * (k + 1) ^ ?m \<le> k * (k + 1) ^ ?m" (is "?x \<le> ?y") using assms(6) by (rule mult_le_mono1)
  moreover have "k * (k + 1) ^ ?m < (k + 1) ^ Suc ?m" by simp
  ultimately have "queue_weight lo k target (ckQ c') < queue_weight lo k target q + (k + 1) ^ Suc ?m"
    by linarith
  then show ?thesis using assms(2,3) by (simp add: due_weight_def del: power_Suc)
qed

lemma run_loop_Suc_due:
  assumes "ckQ c = t # q" and "tWhen t \<le> target" and "exec (tF t) (w, popped t q c) = (Ok (), w', c')"
  shows "run_loop (Suc n) exec target (w, c) =
           map_option (\<lambda>(ts, r). (t # ts, r)) (run_loop n exec target (w', c'))"
  using assms by (simp add: popped_def)

text \<open>The loop's contract, by induction on the fuel.\<close>

definition ran ::
  "time \<Rightarrow> 'f fakeClock \<Rightarrow> 'f fakeTimer list \<Rightarrow> 'f fakeClock \<Rightarrow> bool" where
  "ran target c ts c' \<longleftrightarrow>
     clock_wf c' \<and> ckIn c' = ckIn c \<and>
     (\<forall>t\<in>set (ckQ c'). target < tWhen t) \<and>
     sorted (map tWhen ts) \<and> (\<forall>t\<in>set ts. tWhen t \<le> target) \<and>
     (ts = [] \<or> ckQ c \<noteq> [] \<and> hd ts = hd (ckQ c)) \<and>
     distinct (map tPtr ts) \<and> (\<forall>t\<in>set ts. tPtr t \<notin> set (ckFired c)) \<and>
     set (ckFired c) \<union> tPtr ` set ts \<subseteq> set (ckFired c') \<and>
     (\<forall>t\<in>set (ckQ c). t \<in> set (ckQ c') \<or> tPtr t \<in> set (ckFired c'))"

lemma ran_done:
  assumes "clock_wf c" and "ckQ c = [] \<or> target < tWhen (hd (ckQ c))"
  shows "ran target c [] c"
proof -
  have "target < tWhen t" if "t \<in> set (ckQ c)" for t
    using assms that by (cases "ckQ c") (auto simp: clock_wf_def due_order_iff)
  with assms(1) show ?thesis by (simp add: ran_def)
qed

lemma ran_turn:
  assumes "clock_wf c" and "ckQ c = t # q" and "tWhen t \<le> target" and "0 \<le> lo"
    and "clock_calls lo n (popped t q c) c1" and "ran target c1 ts c'"
  shows "ran target c (t # ts) c'"
proof -
  note wf1 = popped_wf [OF assms(1,2)]
  have now: "ckNow c1 = tWhen t" "ckIn c1 = ckIn c" using calls_now [OF assms(5)] by auto
  have q1: "\<forall>u\<in>set q. u \<in> set (ckQ c1) \<or> tPtr u \<in> set (ckFired c1)"
    "\<forall>u\<in>set (ckQ c1). u \<in> set q \<or> tWhen t + lo \<le> tWhen u"
    using calls_queue [OF assms(5) wf1] by auto
  have fired: "tPtr t \<in> set (ckFired c1)" "set (ckFired c) \<subseteq> set (ckFired c1)"
    using calls_fired [OF assms(5)] by auto
  have later: "tWhen t \<le> tWhen u" if "u \<in> set q" for u
    using assms(1,2) that by (auto simp: clock_wf_def due_order_iff)
  have "tWhen t \<le> tWhen u" if "u \<in> set ts" for u
  proof -
    have "sorted (map tWhen ts)" "hd ts \<in> set (ckQ c1)"
      using assms(6) that by (auto simp: ran_def)
    then have "tWhen t \<le> tWhen (hd ts)" "tWhen (hd ts) \<le> tWhen u"
      using q1(2) later assms(4) that by (fastforce, cases ts, auto)
    then show ?thesis by simp
  qed
  moreover have "tPtr t \<notin> set (ckFired c)"
    using assms(1,2) by (simp add: clock_wf_def)
  ultimately show ?thesis
    using assms(2,3,6) now q1(1) fired unfolding ran_def by auto
qed

lemma run_loop_ran:
  assumes "well_behaved lo k exec" and "0 < lo"
  shows "clock_wf c \<Longrightarrow> queue_weight lo k target (ckQ c) < fuel \<Longrightarrow>
    \<exists>ts w' c'. run_loop fuel exec target (w, c) = Some (ts, Ok (), w', c') \<and> ran target c ts c'"
proof (induction fuel arbitrary: w c)
  case (Suc fuel)
  show ?case
  proof (cases "ckQ c = [] \<or> target < tWhen (hd (ckQ c))")
    case True
    with ran_done [OF Suc.prems(1) True] show ?thesis by (cases "ckQ c") auto
  next
    case False
    then obtain t q where q: "ckQ c = t # q" "tWhen t \<le> target" by (cases "ckQ c") auto
    obtain w1 c1 n where e: "exec (tF t) (w, popped t q c) = (Ok (), w1, c1)" "n \<le> k"
      "clock_calls lo n (popped t q c) c1"
      using assms(1) unfolding well_behaved_def by blast
    have wf1: "clock_wf c1" using calls_wf [OF e(3) popped_wf [OF Suc.prems(1) q(1)]] .
    moreover have "queue_weight lo k target (ckQ c1) < fuel"
      using turn_weight [OF Suc.prems(1) q assms(2) e(3,2)] Suc.prems(2) by linarith
    ultimately obtain ts w' c' where r: "run_loop fuel exec target (w1, c1) = Some (ts, Ok (), w', c')"
      "ran target c1 ts c'"
      using Suc.IH by blast
    have "ran target c (t # ts) c'"
      using ran_turn [OF Suc.prems(1) q _ e(3) r(2)] assms(2) by simp
    with r(1) show ?thesis using run_loop_Suc_due [OF q, of exec w w1 c1 fuel] e(1) by auto
  qed
qed simp

lemma runTo_ran:
  assumes "well_behaved lo k exec" and "0 < lo" and "clock_wf c" and "\<not> ckIn c"
    and "queue_weight lo k target (ckQ c) < fuel"
  obtains ts w' c' where "runTo fuel exec target (w, c) = Some (ts, Ok (), w', c'\<lparr>ckNow := target, ckIn := False\<rparr>)"
    and "ran target (c\<lparr>ckIn := True\<rparr>) ts c'"
proof -
  have "clock_wf (c\<lparr>ckIn := True\<rparr>)" using assms(3) by (simp add: clock_wf_def)
  then show thesis
    using run_loop_ran [OF assms(1,2), of "c\<lparr>ckIn := True\<rparr>" target fuel w] assms(4,5) that
    by (auto simp: runTo_def)
qed

subsection \<open>Properties\<close>

text \<open>The client's callback with a record of which callbacks ran and of the time the clock showed them.\<close>

definition logged :: "('f, 'w) callback \<Rightarrow> ('f, 'w \<times> ('f \<times> time) list) callback" where
  "logged exec f wc =
     (let (r, w, c) = exec f (fst (fst wc), snd wc) in (r, (w, snd (fst wc) @ [(f, ckNow (snd wc))]), c))"

lemma logged_well_behaved:
  assumes "well_behaved lo k exec"
  shows "well_behaved lo k (logged exec)"
  unfolding well_behaved_def
proof (intro allI)
  fix f and w :: "'b \<times> ('a \<times> time) list" and c
  obtain w' c' n where "exec f (fst w, c) = (Ok (), w', c')" "n \<le> k" "clock_calls lo n c c'"
    using assms unfolding well_behaved_def by blast
  then show "\<exists>w' c' n. logged exec f (w, c) = (Ok (), w', c') \<and> n \<le> k \<and> clock_calls lo n c c'"
    by (auto simp: logged_def)
qed

lemma run_loop_logged:
  "run_loop n (logged exec) target (wl, c) = Some (ts, r, wl', c') \<Longrightarrow> snd wl' = snd wl @ map (\<lambda>t. (tF t, tWhen t)) ts"
proof (induction n arbitrary: wl c ts)
  case (Suc n)
  show ?case
  proof (cases "ckQ c = [] \<or> target < tWhen (hd (ckQ c))")
    case True
    then show ?thesis using Suc.prems by (auto split: list.splits)
  next
    case False
    then obtain u q where q: "ckQ c = u # q" "\<not> target < tWhen u" by (cases "ckQ c") auto
    obtain r1 w1 c1 where e: "exec (tF u) (fst wl, popped u q c) = (r1, w1, c1)" by (metis prod_cases3)
    then have l: "logged exec (tF u) (wl, popped u q c) = (r1, (w1, snd wl @ [(tF u, tWhen u)]), c1)"
      by (simp add: logged_def popped_def)
    show ?thesis
    proof (cases r1)
      case (Err x)
      then show ?thesis using Suc.prems q l by (auto simp: popped_def)
    next
      case (Ok x)
      then obtain ts1 where ts: "ts = u # ts1" and r: "run_loop n (logged exec) target ((w1, snd wl @ [(tF u, tWhen u)]), c1) = Some (ts1, r, wl', c')"
        using Suc.prems q l by (auto simp: popped_def)
      show ?thesis using Suc.IH [OF r] ts by simp
    qed
  qed
qed simp

text \<open>A timer that was due and did not fire was taken off the queue by a callback.\<close>

definition unqueues :: "('f, 'w) callback \<Rightarrow> 'f fakeTimer \<Rightarrow> bool" where
  "unqueues exec t \<longleftrightarrow> (\<exists>f w c. t \<in> set (ckQ c) \<and> t \<notin> set (ckQ (snd (snd (exec f (w, c))))))"

lemma run_loop_queue:
  "run_loop n exec target (w, c) = Some (ts, Ok (), w', c') \<Longrightarrow> t \<in> set (ckQ c) \<Longrightarrow>
     t \<in> set ts \<or> t \<in> set (ckQ c') \<or> unqueues exec t"
proof (induction n arbitrary: w c ts)
  case (Suc n)
  show ?case
  proof (cases "ckQ c")
    case (Cons u q)
    show ?thesis
    proof (cases "target < tWhen u")
      case False
      let ?e = "exec (tF u) (w, popped u q c)"
      obtain w1 c1 ts1 where e: "?e = (Ok (), w1, c1)" "ts = u # ts1" "run_loop n exec target (w1, c1) = Some (ts1, Ok (), w', c')"
        using Suc.prems(1) Cons False by (auto simp: popped_def split: prod.splits result.splits)
      show ?thesis
      proof (cases "t = u \<or> t \<in> set (ckQ c1)")
        case True
        then show ?thesis using Suc.IH [OF e(3)] e(2) by auto
      next
        case gone: False
        then have "t \<in> set (ckQ (popped u q c))" using Suc.prems(2) Cons by (simp add: popped_def)
        moreover have "t \<notin> set (ckQ (snd (snd ?e)))" using gone e(1) by simp
        ultimately show ?thesis unfolding unqueues_def by blast
      qed
    qed (use Suc.prems Cons in auto)
  qed (use Suc.prems in simp)
qed simp

lemma logged_unqueues: "unqueues (logged exec) t \<longleftrightarrow> unqueues exec t"
  by (simp add: unqueues_def logged_def case_prod_beta)

text \<open>
  C23: \<open>Advance\<close> terminates whenever callbacks arm finitely many timers, each strictly in the
  future; and then the callbacks that ran are exactly those of the timers \<open>ts\<close>, each once, in
  deadline order, each reading its own deadline on the clock.  Every timer due by the new time is
  among them unless a callback took it off the queue, nothing due is left, and the clock reads
  exactly the target.
\<close>

theorem Advance_fires_due_in_order:
  assumes "well_behaved lo k exec" and "0 < lo" and "clock_wf c" and "\<not> ckIn c"
    and "\<forall>t\<in>set (ckQ c). ckNow c \<le> tWhen t"
    and "queue_weight lo k (ckNow c + d) (ckQ c) < fuel"
  shows "\<exists>ts w' c'. Advance fuel (logged exec) d ((w, []), c) = Some (ts, Ok (), (w', map (\<lambda>t. (tF t, tWhen t)) ts), c') \<and>
           ckNow c' = ckNow c + d \<and> \<not> ckIn c' \<and> clock_wf c' \<and>
           (\<forall>t\<in>set (ckQ c'). ckNow c' < tWhen t) \<and>
           sorted (ckNow c # map tWhen ts) \<and> (\<forall>t\<in>set ts. tWhen t \<le> ckNow c') \<and>
           distinct (map tPtr ts) \<and>
           (\<forall>t\<in>set (ckQ c). tWhen t \<le> ckNow c' \<longrightarrow> t \<in> set ts \<or> unqueues exec t)"
proof -
  obtain ts wl c' where r: "runTo fuel (logged exec) (ckNow c + d) ((w, []), c) =
      Some (ts, Ok (), wl, c'\<lparr>ckNow := ckNow c + d, ckIn := False\<rparr>)"
    and ran: "ran (ckNow c + d) (c\<lparr>ckIn := True\<rparr>) ts c'"
    using runTo_ran [OF logged_well_behaved [OF assms(1)] assms(2-4,6)] by blast
  obtain w' l where wl: "wl = (w', l)" by force
  obtain c1 where loop: "run_loop fuel (logged exec) (ckNow c + d) ((w, []), c\<lparr>ckIn := True\<rparr>) = Some (ts, Ok (), (w', l), c1)"
    "c1\<lparr>ckNow := ckNow c + d, ckIn := False\<rparr> = c'\<lparr>ckNow := ckNow c + d, ckIn := False\<rparr>"
    using r assms(4) wl by (auto simp: runTo_def split: option.splits prod.splits result.splits)
  have l: "l = map (\<lambda>t. (tF t, tWhen t)) ts" using run_loop_logged [OF loop(1)] by simp
  have q: "ckQ c1 = ckQ c'" using arg_cong [OF loop(2), of ckQ] by simp
  have "sorted (ckNow c # map tWhen ts)"
    using ran assms(5) by (cases ts) (fastforce simp: ran_def dest: list.set_sel(1))+
  moreover have "t \<in> set ts \<or> unqueues exec t" if "t \<in> set (ckQ c)" "tWhen t \<le> ckNow c + d" for t
    using that ran run_loop_queue [OF loop(1), of t] by (auto simp: ran_def q logged_unqueues)
  ultimately show ?thesis
    using r ran wl l by (intro exI [of _ ts] exI [of _ w'] exI [of _ "c'\<lparr>ckNow := ckNow c + d, ckIn := False\<rparr>"])
      (auto simp: Advance_def ran_def clock_wf_def)
qed

text \<open>A callback that re-arms itself every ten units, and a clock holding one such timer.\<close>

definition ticker :: "(nat, nat) callback" where
  "ticker f wc = (Ok (), Suc (fst wc), snd (AfterFunc 10 f (snd wc)))"

lemma ticker_well_behaved: "well_behaved 10 1 ticker"
proof -
  have "clock_calls 10 1 c (snd (AfterFunc 10 f c))" for f :: nat and c
    using clock_calls.arm [OF clock_calls.none [of 10 c], of 10 f] by simp
  then show ?thesis unfolding well_behaved_def ticker_def by fastforce
qed

theorem Advance_fires_due_in_order_witness:
  "\<exists>ts w c. Advance 70 (logged ticker) 25 ((0, []), snd (AfterFunc 10 (7::nat) (NewFake 0))) =
       Some (ts, Ok (), (w, map (\<lambda>t. (tF t, tWhen t)) ts), c) \<and>
     ckNow c = 25 \<and> (\<forall>t\<in>set (ckQ c). 25 < tWhen t) \<and> sorted (0 # map tWhen ts)"
proof -
  let ?c = "snd (AfterFunc 10 (7::nat) (NewFake 0))"
  have "ckQ ?c = [\<lparr>tPtr = 0, tWhen = 10, tSeq = 0, tF = 7\<rparr>]" and now: "ckNow ?c = 0"
    by (simp_all add: AfterFunc_def NewFake_def sort_search.simps)
  then have "\<forall>t\<in>set (ckQ ?c). ckNow ?c \<le> tWhen t" and "queue_weight 10 1 (ckNow ?c + 25) (ckQ ?c) < 70"
    by (simp_all add: due_weight_def)
  then obtain ts w c where "Advance 70 (logged ticker) 25 ((0, []), ?c) = Some (ts, Ok (), (w, map (\<lambda>t. (tF t, tWhen t)) ts), c)"
    "ckNow c = ckNow ?c + 25" "\<forall>t\<in>set (ckQ c). ckNow c < tWhen t" "sorted (ckNow ?c # map tWhen ts)"
    using Advance_fires_due_in_order [OF ticker_well_behaved _ AfterFunc_wf [OF NewFake_wf], of 10 7 0 25 70 0]
    by (auto simp: NewFake_def)
  then show ?thesis unfolding now by auto
qed

text \<open>
  A timer that \<open>Stop\<close> reported as cancelled is not fired by any later \<open>Advance\<close>, even when
  the callbacks that run re-arm and stop timers of their own; and it cannot be stopped twice.
\<close>

theorem stopped_timer_never_fires:
  assumes "well_behaved lo k exec" and "0 < lo" and "clock_wf c" and "\<not> ckIn c"
    and "Stop p c = (True, c1)" and "queue_weight lo k (ckNow c + d) (ckQ c1) < fuel"
  shows "fst (Stop p c1) = False \<and>
    (\<exists>ts w' c'. Advance fuel exec d (w, c1) = Some (ts, Ok (), w', c') \<and> p \<notin> tPtr ` set ts)"
proof -
  have c1: "c1 = snd (Stop p c)" "p \<in> set (ckFired c1)"
    using assms(5) by (auto simp: Stop_def split: if_splits)
  then have wf: "clock_wf c1" "\<not> ckIn c1" "ckNow c1 = ckNow c"
    using assms(3,4) by (simp_all add: Stop_wf)
  obtain ts w' c' where "runTo fuel exec (ckNow c + d) (w, c1) =
      Some (ts, Ok (), w', c'\<lparr>ckNow := ckNow c + d, ckIn := False\<rparr>)"
    "ran (ckNow c + d) (c1\<lparr>ckIn := True\<rparr>) ts c'"
    using runTo_ran [OF assms(1,2) wf(1,2) assms(6)] by blast
  moreover from this c1(2) have "p \<notin> tPtr ` set ts" by (auto simp: ran_def)
  ultimately show ?thesis
    using c1(2) wf(3) by (auto simp: Advance_def Stop_def)
qed

theorem stopped_timer_never_fires_witness:
  "\<exists>ts w c. Advance 5 ticker 25 (0, snd (Stop 0 (snd (AfterFunc 10 (7::nat) (NewFake 0))))) = Some (ts, Ok (), w, c) \<and>
     0 \<notin> tPtr ` set ts"
proof -
  let ?c = "snd (AfterFunc 10 (7::nat) (NewFake 0))"
  have s: "Stop 0 ?c = (True, snd (Stop 0 ?c))" and q: "ckQ (snd (Stop 0 ?c)) = []"
    by (simp_all add: AfterFunc_def NewFake_def sort_search.simps Stop_def)
  then show ?thesis
    using stopped_timer_never_fires [OF ticker_well_behaved _ AfterFunc_wf [OF NewFake_wf] _ s, of 25 5 0]
    by (simp add: NewFake_def)
qed

text \<open>
  While one \<open>Advance\<close> is between two callbacks, with the lock released, a second \<open>AdvanceTo\<close>
  to a later time does not converge with it: it panics and moves nothing.  An earlier target is
  reported unreachable and the current time is a no-op, in every state.
\<close>

theorem AdvanceTo_during_run_panics:
  "ckIn c \<Longrightarrow> AdvanceTo fuel exec target (w, c) =
     Some ([], if target < ckNow c then Ok False else if target = ckNow c then Ok True
               else Err PanicReentrant, w, c)"
  by (simp add: AdvanceTo_def runTo_def)

theorem AdvanceTo_during_run_panics_witness:
  "AdvanceTo 9 ticker 5 (0, (NewFake 0)\<lparr>ckIn := True\<rparr>) =
     Some ([], Err PanicReentrant, 0, (NewFake 0)\<lparr>ckIn := True\<rparr>)"
  using AdvanceTo_during_run_panics [of "(NewFake 0)\<lparr>ckIn := True\<rparr>" 9 ticker 5 0]
  by (simp add: NewFake_def)

text \<open>A callback that records the time it reads.\<close>

definition time_logger :: "(nat, time list) callback" where
  "time_logger f wc = (Ok (), fst wc @ [ckNow (snd wc)], snd wc)"

text \<open>
  A timer armed with a negative delay is not due now but in the past: the callback that
  \<open>Advance\<close> runs for it reads a time earlier than the one the clock showed before.
\<close>

theorem negative_delay_reads_past:
  assumes "d < 0" and "ckQ c = []" and "\<not> ckIn c" and "0 \<le> e"
  shows "\<exists>ts c'. Advance 2 time_logger e ([], snd (AfterFunc d f c)) = Some (ts, Ok (), [ckNow c + d], c') \<and>
           ckNow c + d < ckNow c"
  using assms
  by (simp add: Advance_def runTo_def AfterFunc_def Let_def sort_search.simps numeral_2_eq_2 time_logger_def)

theorem negative_delay_reads_past_witness:
  "\<exists>ts c'. Advance 2 time_logger 0 ([], snd (AfterFunc (-5) 7 (NewFake 100))) = Some (ts, Ok (), [95], c')"
  using negative_delay_reads_past [of "-5" "NewFake 100" 0 7] by (auto simp: NewFake_def)

end
