(* ===== verification/Go_Json.thy ===== *)
theory Go_Json
  imports Go_Prelude
begin

text \<open>
  Text through \<open>encoding/json\<close>: a string is encoded byte for byte as long as it is UTF-8; a byte that is not part of
  a valid encoding is replaced by the three bytes of U+FFFD, so it does not come back.
\<close>

definition in_range :: "nat \<Rightarrow> nat \<Rightarrow> char \<Rightarrow> bool" where
  "in_range lo hi c \<longleftrightarrow> lo \<le> of_char c \<and> of_char c \<le> hi"

abbreviation continues :: "char \<Rightarrow> bool" where "continues \<equiv> in_range 0x80 0xBF"

text \<open>The number of bytes of the character a text starts with; zero if its first byte begins none.\<close>

definition wide2 :: "string \<Rightarrow> bool" where
  "wide2 s \<longleftrightarrow> 2 \<le> length s \<and> in_range 0xC2 0xDF (s ! 0) \<and> continues (s ! 1)"

definition wide3 :: "string \<Rightarrow> bool" where
  "wide3 s \<longleftrightarrow> 3 \<le> length s \<and>
     (in_range 0xE0 0xE0 (s ! 0) \<and> in_range 0xA0 0xBF (s ! 1) \<or> in_range 0xED 0xED (s ! 0) \<and> in_range 0x80 0x9F (s ! 1) \<or>
      (in_range 0xE1 0xEC (s ! 0) \<or> in_range 0xEE 0xEF (s ! 0)) \<and> continues (s ! 1)) \<and> continues (s ! 2)"

definition wide4 :: "string \<Rightarrow> bool" where
  "wide4 s \<longleftrightarrow> 4 \<le> length s \<and>
     (in_range 0xF0 0xF0 (s ! 0) \<and> in_range 0x90 0xBF (s ! 1) \<or> in_range 0xF4 0xF4 (s ! 0) \<and> in_range 0x80 0x8F (s ! 1) \<or>
      in_range 0xF1 0xF3 (s ! 0) \<and> continues (s ! 1)) \<and> continues (s ! 2) \<and> continues (s ! 3)"

definition rune_width :: "string \<Rightarrow> nat" where
  "rune_width s =
     (if s = [] then 0 else if of_char (hd s) < (0x80::nat) then 1
      else if wide2 s then 2 else if wide3 s then 3 else if wide4 s then 4 else 0)"

function json_text :: "string \<Rightarrow> string" where
  "json_text [] = []"
| "json_text (a # s) =
     (if rune_width (a # s) = 0 then [CHR 0xEF, CHR 0xBF, CHR 0xBD] @ json_text s
      else take (rune_width (a # s)) (a # s) @ json_text (drop (rune_width (a # s)) (a # s)))"
  by pat_completeness auto
termination by (relation "measure length") auto

declare json_text.simps(2) [simp del]

text \<open>UTF-8 texts are those that come back.\<close>

definition utf8 :: "string \<Rightarrow> bool" where
  "utf8 s \<longleftrightarrow> json_text s = s"

lemma utf8I [simp]: "utf8 s \<Longrightarrow> json_text s = s"
  by (simp add: utf8_def)

lemma nth_front: "2 \<le> length s \<Longrightarrow> (s @ t) ! 0 = s ! 0 \<and> (s @ t) ! 1 = s ! 1"
  "3 \<le> length s \<Longrightarrow> (s @ t) ! 0 = s ! 0 \<and> (s @ t) ! 1 = s ! 1 \<and> (s @ t) ! 2 = s ! 2"
  "4 \<le> length s \<Longrightarrow> (s @ t) ! 0 = s ! 0 \<and> (s @ t) ! 1 = s ! 1 \<and> (s @ t) ! 2 = s ! 2 \<and> (s @ t) ! 3 = s ! 3"
  by (auto simp: nth_append)

lemma wide_append:
  "wide2 s \<Longrightarrow> wide2 (s @ t)" "wide3 s \<Longrightarrow> wide3 (s @ t)" "wide4 s \<Longrightarrow> wide4 (s @ t)"
  unfolding wide2_def wide3_def wide4_def using nth_front [of s t] by (metis length_append trans_le_add1)+

lemma wide_lead:
  "wide3 s \<Longrightarrow> \<not> wide2 (s @ t)" "wide4 s \<Longrightarrow> \<not> wide2 (s @ t)" "wide4 s \<Longrightarrow> \<not> wide3 (s @ t)"
  using nth_front(2,3) [of s t] by (auto simp: wide2_def wide3_def wide4_def in_range_def)

lemma rune_width_append: "0 < rune_width s \<Longrightarrow> rune_width (s @ t) = rune_width s"
  using wide_append [of s t] wide_lead [of s t] by (simp add: rune_width_def split: if_splits)

lemma rune_width_le: "rune_width s \<le> length s"
  by (cases s) (auto simp: rune_width_def wide2_def wide3_def wide4_def)

lemma json_text_longer: "length s \<le> length (json_text s)"
proof (induction s rule: json_text.induct)
  case (2 a s)
  then show ?case using rune_width_le [of "a # s"] by (auto simp: json_text.simps(2))
qed simp

lemma utf8_Cons:
  "utf8 (a # s) \<longleftrightarrow> 0 < rune_width (a # s) \<and> utf8 (drop (rune_width (a # s)) (a # s))"
proof (cases "rune_width (a # s) = 0")
  case True
  then show ?thesis using json_text_longer [of s] by (auto simp: utf8_def json_text.simps(2) dest: arg_cong [of _ _ length])
next
  case False
  then show ?thesis
    by (simp add: utf8_def json_text.simps(2)) (metis append_take_drop_id same_append_eq)
qed

lemma utf8_append: "utf8 s \<Longrightarrow> utf8 t \<Longrightarrow> utf8 (s @ t)"
proof (induction s rule: json_text.induct)
  case (2 a s)
  then have w: "0 < rune_width (a # s)" "utf8 (drop (rune_width (a # s)) (a # s))" by (auto simp: utf8_Cons)
  then have "utf8 (drop (rune_width (a # s)) (a # s) @ t)" using 2 by simp
  moreover have "drop (rune_width (a # s)) (a # s @ t) = drop (rune_width (a # s)) (a # s) @ t"
    using rune_width_le [of "a # s"] by (metis append_Cons drop_append diff_is_0_eq drop0)
  ultimately show ?case using w(1) rune_width_append [OF w(1), of t] by (simp add: utf8_Cons)
qed simp

lemma utf8_ascii: "list_all (\<lambda>c. of_char c < (0x80::nat)) s \<Longrightarrow> utf8 s"
  by (induction s) (auto simp: utf8_Cons rune_width_def, simp add: utf8_def)

end
