(* ===== verification/Persistent_Store.thy ===== *)
theory Persistent_Store
  imports KV_Store Fake_Clock Go_Json
begin

text \<open>
  The store that survives a restart (\<open>store/persist.go\<close>): writes stay in memory and arm one flush
  timer on the clock; the flush writes a snapshot beside the file and renames it into place.

  The snapshot file is the list of entries it decodes to (\<open>None\<close>: no file): the keys as JSON text, the
  values byte for byte, since JSON carries a byte slice in base64.  \<open>io\<close> says whether staging, writing
  and renaming succeed; a flush that fails leaves the previous file.
\<close>

subsection \<open>State and operations\<close>

definition FlushInterval :: duration where "FlushInterval = second"

datatype persist_cb = FlushDue

record 'v persistent =
  pMemory :: "'v memory"
  pPending :: "nat option"
  pClosed :: bool
  pDisk :: "'v kv list option"

type_synonym 'v pstate = "'v persistent \<times> persist_cb fakeClock"

datatype persist_error = ErrFlush




definition touch :: "'v pstate \<Rightarrow> 'v pstate" where
  "touch pc =
     (let (p, c) = pc
      in if pClosed p \<or> pPending p \<noteq> None then (p, c)
         else let (t, c') = AfterFunc FlushInterval FlushDue c in (p\<lparr>pPending := Some t\<rparr>, c'))"

definition p_Put ::
  "ctx \<Rightarrow> string \<Rightarrow> 'v \<Rightarrow> nat \<Rightarrow> 'v pstate \<Rightarrow> (store_error, nat) result \<times> 'v pstate" where
  "p_Put cx key v ifVersion pc =
     (let (r, m) = mem_Put cx key v ifVersion (pMemory (fst pc));
          pc' = ((fst pc)\<lparr>pMemory := m\<rparr>, snd pc)
      in (r, if is_ok r then touch pc' else pc'))"

definition p_Delete ::
  "ctx \<Rightarrow> string \<Rightarrow> nat \<Rightarrow> 'v pstate \<Rightarrow> (store_error, unit) result \<times> 'v pstate" where
  "p_Delete cx key ifVersion pc =
     (let (r, m) = mem_Delete cx key ifVersion (pMemory (fst pc));
          pc' = ((fst pc)\<lparr>pMemory := m\<rparr>, snd pc)
      in (r, if is_ok r then touch pc' else pc'))"

definition p_Reset ::
  "ctx \<Rightarrow> string \<Rightarrow> 'v pstate \<Rightarrow> (store_error, unit) result \<times> 'v pstate" where
  "p_Reset cx keyPrefix pc =
     (let (r, m) = mem_Reset cx keyPrefix (pMemory (fst pc));
          pc' = ((fst pc)\<lparr>pMemory := m\<rparr>, snd pc)
      in (r, if is_ok r then touch pc' else pc'))"

text \<open>The entries as the file gives them back.\<close>

definition json_entries :: "'v kv list \<Rightarrow> 'v kv list" where
  "json_entries es = map (\<lambda>e. e\<lparr>kvKey := json_text (kvKey e)\<rparr>) es"

definition Flush :: "bool \<Rightarrow> ('v::zero) persistent \<Rightarrow> (persist_error, unit) result \<times> 'v persistent" where
  "Flush io p = (if io then (Ok (), p\<lparr>pDisk := Some (json_entries (mem_Snapshot (pMemory p)))\<rparr>) else (Err ErrFlush, p))"


definition Close :: "bool \<Rightarrow> ('v::zero) pstate \<Rightarrow> (persist_error, unit) result \<times> 'v pstate" where
  "Close io pc =
     (let (p, c) = pc
      in if pClosed p then (Ok (), p, c)
         else let (p1, c1) =
                    (case pPending p of
                       None \<Rightarrow> (p\<lparr>pClosed := True\<rparr>, c)
                     | Some t \<Rightarrow> (p\<lparr>pClosed := True, pPending := None\<rparr>, snd (Stop t c)));
                  (r, p2) = Flush io p1
              in (r, p2, c1))"

subsection \<open>The invariant\<close>

text \<open>The file holds the entries in memory.  Opening it gives the same store if every key is text.\<close>

definition saved :: "('v::zero) persistent \<Rightarrow> bool" where
  "saved p \<longleftrightarrow> (case pDisk p of None \<Rightarrow> pMemory p = NewMemory | Some es \<Rightarrow> es = json_entries (mem_Snapshot (pMemory p)))"





text \<open>
  The clock holds the one pending flush, due within the interval, and nothing else; with no flush
  pending the file of an open store holds its entries, unless \<open>lost\<close>: the last flush failed and
  nothing was written since.
\<close>

definition persist_wf :: "bool \<Rightarrow> ('v::zero) pstate \<Rightarrow> bool" where
  "persist_wf lost pc \<longleftrightarrow>
     (let (p, c) = pc
      in mem_wf (pMemory p) \<and> clock_wf c \<and> \<not> ckIn c \<and>
         (case pPending p of
            None \<Rightarrow> ckQ c = [] \<and> (pClosed p \<or> lost \<or> saved p)
          | Some t \<Rightarrow> \<not> pClosed p \<and> \<not> lost \<and>
              (\<exists>tm. ckQ c = [tm] \<and> tPtr tm = t \<and> tF tm = FlushDue \<and> tWhen tm \<le> ckNow c + FlushInterval)))"

lemma touch_wf:
  assumes "persist_wf lost (p, c)" and "mem_wf m"
  shows "persist_wf False (touch (p\<lparr>pMemory := m\<rparr>, c))"
  using assms AfterFunc_wf [of c FlushInterval FlushDue] AfterFunc_empty [of c FlushInterval FlushDue]
  by (cases "pPending p") (auto simp: persist_wf_def touch_def case_prod_beta)

lemma failed_unchanged:
  "\<not> is_ok (fst (mem_Put cx k v n m)) \<Longrightarrow> snd (mem_Put cx k v n m) = m"
  "\<not> is_ok (fst (mem_Delete cx k n m)) \<Longrightarrow> snd (mem_Delete cx k n m) = m"
  "\<not> is_ok (fst (mem_Reset cx k m)) \<Longrightarrow> snd (mem_Reset cx k m) = m"
  by (auto simp: mem_Put_def mem_Delete_def mem_Reset_def Let_def split: option.splits if_splits)

lemma persist_mem_wf: "persist_wf lost (p, c) \<Longrightarrow> mem_wf (pMemory p)"
  by (simp add: persist_wf_def)

lemma p_Put_wf [go_inv]:
  "persist_wf lost pc \<Longrightarrow> key_room (pMemory (fst pc)) k \<Longrightarrow> persist_wf (lost \<and> \<not> is_ok (fst (p_Put cx k v n pc))) (snd (p_Put cx k v n pc))"
  by (cases pc) (auto simp: p_Put_def case_prod_beta Let_def failed_unchanged touch_wf persist_mem_wf mem_Put_wf)

lemma p_Delete_wf [go_inv]:
  "persist_wf lost pc \<Longrightarrow> persist_wf (lost \<and> \<not> is_ok (fst (p_Delete cx k n pc))) (snd (p_Delete cx k n pc))"
  by (cases pc) (auto simp: p_Delete_def case_prod_beta Let_def failed_unchanged touch_wf persist_mem_wf mem_Delete_wf)

lemma p_Reset_wf [go_inv]:
  "persist_wf lost pc \<Longrightarrow> persist_wf (lost \<and> \<not> is_ok (fst (p_Reset cx k pc))) (snd (p_Reset cx k pc))"
  by (cases pc) (auto simp: p_Reset_def case_prod_beta Let_def failed_unchanged touch_wf persist_mem_wf mem_Reset_wf)

lemma Flush_saved: "saved (snd (Flush True p))"
  by (simp add: Flush_def saved_def)

lemma Close_wf [go_inv]:
  assumes "persist_wf lost pc" shows "persist_wf lost (snd (Close io pc))"
proof (cases "pPending (fst pc)")
  case None
  with assms show ?thesis by (auto simp: Close_def persist_wf_def Flush_def case_prod_beta)
next
  case (Some t)
  with assms obtain tm where "ckQ (snd pc) = [tm]" "tPtr tm = t" by (auto simp: persist_wf_def case_prod_beta)
  moreover have "clock_wf (snd (Stop t (snd pc)))" using assms by (simp add: persist_wf_def case_prod_beta Stop_wf)
  moreover have "t \<notin> set (ckFired (snd pc))"
    using assms calculation by (auto simp: persist_wf_def case_prod_beta clock_wf_def)
  moreover have "ckQ (snd (Stop t (snd pc))) = []" using calculation by (simp add: Stop_def)
  ultimately show ?thesis
    using assms Some by (auto simp: Close_def persist_wf_def Flush_def case_prod_beta)
qed


subsection \<open>Properties\<close>






end
