(* ===== verification/Resource_Keys.thy ===== *)
theory Resource_Keys
  imports Gerr
begin

text \<open>
  How Cloud Storage resources are encoded as store keys (\<open>core/resource/key.go\<close>), and what
  the encoding guarantees: parsing inverts it, generations sort in numeric order, and the key
  spaces of different projects, buckets and kinds of entry do not overlap.
\<close>

subsection \<open>The encoding\<close>

definition sep :: string where "sep = [CHR 0x00]"

definition genDigits :: nat where "genDigits = 20"

definition BucketIndex :: "string \<Rightarrow> string" where
  "BucketIndex bucket = ''bx/'' @ bucket"

definition BlobRefs :: "string \<Rightarrow> string" where
  "BlobRefs sha = ''rc/'' @ sha"

definition Bucket :: "string \<Rightarrow> string \<Rightarrow> string" where
  "Bucket project bucket = ''p/'' @ project @ ''/b/'' @ bucket"

definition BucketPrefix :: "string \<Rightarrow> string \<Rightarrow> string" where
  "BucketPrefix project bucket = Bucket project bucket @ ''/''"

definition ProjectPrefix :: "string \<Rightarrow> string" where
  "ProjectPrefix project = ''p/'' @ project @ ''/''"

definition BucketsPrefix :: "string \<Rightarrow> string" where
  "BucketsPrefix project = ''p/'' @ project @ ''/b/''"

definition IAM :: "string \<Rightarrow> string \<Rightarrow> string \<Rightarrow> string" where
  "IAM project bucket obj =
     (if obj = '''' then Bucket project bucket @ ''/iam''
      else Bucket project bucket @ ''/iam/o/'' @ obj)"

definition Live :: "string \<Rightarrow> string \<Rightarrow> string \<Rightarrow> string" where
  "Live project bucket obj = Bucket project bucket @ ''/live/'' @ obj"

definition LivePrefix :: "string \<Rightarrow> string \<Rightarrow> string" where
  "LivePrefix project bucket = Bucket project bucket @ ''/live/''"

definition ObjectPrefix :: "string \<Rightarrow> string \<Rightarrow> string \<Rightarrow> string" where
  "ObjectPrefix project bucket obj = Bucket project bucket @ ''/o/'' @ obj @ sep"

definition pad :: "int \<Rightarrow> string" where
  "pad generation =
     (let s = itoa generation
      in if genDigits \<le> length s then s
         else replicate (genDigits - length s) (CHR ''0'') @ s)"

definition Object :: "string \<Rightarrow> string \<Rightarrow> string \<Rightarrow> int \<Rightarrow> string" where
  "Object project bucket obj generation = ObjectPrefix project bucket obj @ pad generation"

definition ParseObject :: "string \<Rightarrow> (goerr, string \<times> string \<times> string \<times> int) result" where
  "ParseObject key =
     (case cutPrefix key ''p/'' of
        None \<Rightarrow> Err (Plain (Msg ''resource: %q is not an object key'' [key]))
      | Some rest \<Rightarrow>
     (case go_cut rest ''/b/'' of
        None \<Rightarrow> Err (Plain (Msg ''resource: %q has no bucket'' [key]))
      | Some (project, rest) \<Rightarrow>
     (case go_cut rest ''/o/'' of
        None \<Rightarrow> Err (Plain (Msg ''resource: %q is not an object key'' [key]))
      | Some (bucket, rest) \<Rightarrow>
     (case last_index (CHR 0x00) rest of
        None \<Rightarrow> Err (Plain (Msg ''resource: %q has no generation'' [key]))
      | Some i \<Rightarrow>
     (case parseInt (drop (i + length sep) rest) of
        None \<Rightarrow> Err (Plain (Msg ''resource: %q has a malformed generation: %w'' [key]))
      | Some generation \<Rightarrow> Ok (project, bucket, take i rest, generation))))))"

definition ObjectName :: "string \<Rightarrow> string \<Rightarrow> string \<Rightarrow> (goerr, string) result" where
  "ObjectName project bucket liveKey =
     (case cutPrefix liveKey (LivePrefix project bucket) of
        None \<Rightarrow> Err (Plain (Msg ''resource: %q is not a live pointer in %s/%s''
                       [liveKey, project, bucket]))
      | Some name \<Rightarrow> Ok name)"

lemmas key_defs = BucketIndex_def BlobRefs_def Bucket_def BucketPrefix_def ProjectPrefix_def
  BucketsPrefix_def IAM_def Live_def LivePrefix_def ObjectPrefix_def Object_def

subsection \<open>Lemmas\<close>

abbreviation slash_free :: "string \<Rightarrow> bool" where "slash_free s \<equiv> slash \<notin> set s"

lemma pad_eq_zero_pad: "pad g = zero_pad genDigits (itoa g)"
  by (auto simp: pad_def zero_pad_def Let_def)

lemma pad_digits: "0 \<le> g \<Longrightarrow> list_all is_digit (pad g)"
  by (simp add: pad_eq_zero_pad itoa_def zero_pad_digits)

lemma pad_no_sep: "0 \<le> g \<Longrightarrow> CHR 0x00 \<notin> set (pad g)"
  using pad_digits [of g] digit_not_sign by (auto simp: list_all_iff)

lemma pad_nat: "0 \<le> g \<Longrightarrow> pad g = zero_pad genDigits (dec (nat g))"
  by (simp add: pad_eq_zero_pad itoa_def)

lemma zero_pad_ne [simp]: "s \<noteq> [] \<Longrightarrow> zero_pad w s \<noteq> []"
  by (simp add: zero_pad_def)

lemma hd_pad_digit: "0 \<le> g \<Longrightarrow> pad g \<noteq> [] \<and> is_digit (hd (pad g))"
  using pad_digits [of g] by (cases "pad g") (auto simp: pad_nat)

lemma parseInt_pad: "0 \<le> g \<Longrightarrow> g \<le> max_i64 \<Longrightarrow> parseInt (pad g) = Some g"
  using hd_pad_digit [of g] digit_not_sign [of "hd (pad g)"]
  by (simp add: parseInt_def Let_def max_i64_def pad_nat)

lemma pad_less:
  "0 \<le> g \<Longrightarrow> g \<le> max_i64 \<Longrightarrow> 0 \<le> h \<Longrightarrow> h \<le> max_i64 \<Longrightarrow> pad g < pad h \<longleftrightarrow> g < h"
  by (auto simp: pad_nat zero_pad_dec_less genDigits_def max_i64_def)

lemma cutPrefix_append [simp]: "cutPrefix (p @ s) p = Some s"
  by (simp add: cutPrefix_def)

lemma ParseObject_Object:
  assumes "slash_free project" and "slash_free bucket" and "0 \<le> g" and "g \<le> max_i64"
  shows "ParseObject (Object project bucket obj g) = Ok (project, bucket, obj, g)"
proof -
  let ?r3 = "obj @ CHR 0x00 # pad g"
  have "Object project bucket obj g = ''p/'' @ (project @ ''/b/'' @ (bucket @ ''/o/'' @ ?r3))"
    by (simp add: key_defs sep_def)
  moreover have "go_cut (project @ ''/b/'' @ (bucket @ ''/o/'' @ ?r3)) ''/b/'' =
      Some (project, bucket @ ''/o/'' @ ?r3)"
    using assms(1) by (rule go_cut_first)
  moreover have "go_cut (bucket @ ''/o/'' @ ?r3) ''/o/'' = Some (bucket, ?r3)"
    using assms(2) by (rule go_cut_first)
  moreover have "last_index (CHR 0x00) ?r3 = Some (length obj)"
    using assms(3) by (intro last_index_append pad_no_sep)
  ultimately show ?thesis
    using assms by (simp only: ParseObject_def cutPrefix_append option.case prod.case)
      (simp add: sep_def parseInt_pad)
qed

lemma Object_less:
  assumes "0 \<le> g" "g \<le> max_i64" "0 \<le> h" "h \<le> max_i64"
  shows "Object project bucket obj g < Object project bucket obj h \<longleftrightarrow> g < h"
  using assms by (simp add: Object_def append_less_iff pad_less)

lemma Bucket_prefix_iff:
  assumes "slash_free p" "slash_free b" "slash_free p'" "slash_free b'"
  shows "prefix (Bucket p b @ slash # x) (Bucket p' b' @ slash # y) \<longleftrightarrow>
           p = p' \<and> b = b' \<and> prefix x y"
  using assms segment_prefix [of slash p p' "''b/'' @ b @ slash # x" "''b/'' @ b' @ slash # y"]
    segment_prefix [of slash b b' x y]
  by (auto simp: Bucket_def)

lemma Bucket_eq_iff:
  assumes "slash_free p" "slash_free b" "slash_free p'" "slash_free b'"
  shows "Bucket p b @ slash # x = Bucket p' b' @ slash # y \<longleftrightarrow> p = p' \<and> b = b' \<and> x = y"
  using assms segment_eq [of slash p p' "''b/'' @ b @ slash # x" "''b/'' @ b' @ slash # y"]
    segment_eq [of slash b b' x y]
  by (auto simp: Bucket_def)

lemma Live_eq_iff:
  assumes "slash_free p" "slash_free b" "slash_free p'" "slash_free b'"
  shows "Live p b n = Live p' b' n' \<longleftrightarrow> p = p' \<and> b = b' \<and> n = n'"
  using Bucket_eq_iff [OF assms, of "''live/'' @ n" "''live/'' @ n'"] by (simp add: Live_def)

lemma LivePrefix_covers:
  assumes "slash_free p" "slash_free b" "slash_free p'" "slash_free b'"
  shows "prefix (LivePrefix p b) (Live p' b' n) \<longleftrightarrow> p = p' \<and> b = b'"
  using Bucket_prefix_iff [OF assms, of "''live/''" "''live/'' @ n"]
  by (simp add: Live_def LivePrefix_def)

lemma ProjectPrefix_covers:
  assumes "slash_free p" "slash_free p'"
  shows "prefix (ProjectPrefix p) (Bucket p' b @ x) \<longleftrightarrow> p = p'"
  using segment_prefix [OF assms, of "[]" "''b/'' @ b @ x"]
  by (simp add: ProjectPrefix_def Bucket_def)

lemma Live_neq_Object:
  assumes "slash_free p" "slash_free b" "slash_free p'" "slash_free b'"
  shows "Live p b n \<noteq> Object p' b' n' g"
  using Bucket_eq_iff [OF assms, of "''live/'' @ n" "''o/'' @ n' @ sep @ pad g"]
  by (simp add: Live_def Object_def ObjectPrefix_def)

lemma ObjectName_Live: "ObjectName p b (Live p b n) = Ok n"
  by (simp add: ObjectName_def Live_def LivePrefix_def cutPrefix_def)

end
