(* ===== verification/Blob_Store.thy ===== *)
theory Blob_Store
  imports Go_Prelude "HOL-Library.Word"
begin

text \<open>
  The content-addressed blob tree (\<open>store/blob\<close>).  A tree is the map from digest to content that
  its files form.  SHA-256 and MD5 are parameters (\<open>hashes\<close>, rendered as the source renders
  them); CRC-32C is computed.  File-system failures are not modelled: an operation's only error is
  a cancelled context or an absent blob.
\<close>

unbundle bit_operations_syntax

subsection \<open>CRC-32C and base64 (hash/crc32, encoding/base64)\<close>

definition castagnoli :: "32 word" where "castagnoli = 0x82F63B78"

definition crc_bit :: "32 word \<Rightarrow> 32 word" where
  "crc_bit c = (if bit c 0 then drop_bit 1 c XOR castagnoli else drop_bit 1 c)"

definition crc_byte :: "32 word \<Rightarrow> char \<Rightarrow> 32 word" where
  "crc_byte c b = (crc_bit ^^ 8) (c XOR word_of_nat (of_char b))"

definition crc32c :: "string \<Rightarrow> 32 word" where
  "crc32c s = NOT (foldl crc_byte (NOT 0) s)"

definition std64_char :: "nat \<Rightarrow> char" where
  "std64_char n =
     (if n < 26 then char_of (65 + n) else if n < 52 then char_of (71 + n)
      else if n < 62 then char_of (n - 4) else if n = 62 then CHR ''+'' else CHR ''/'')"

fun std64 :: "nat list \<Rightarrow> string" where
  "std64 [] = ''''"
| "std64 [a] = [std64_char (a div 4), std64_char (a mod 4 * 16), CHR ''='', CHR ''='']"
| "std64 [a, b] = [std64_char (a div 4), std64_char (a mod 4 * 16 + b div 16), std64_char (b mod 16 * 4), CHR ''='']"
| "std64 (a # b # c # s) =
     std64_char (a div 4) # std64_char (a mod 4 * 16 + b div 16) #
     std64_char (b mod 16 * 4 + c div 64) # std64_char (c mod 64) # std64 s"

definition big_endian32 :: "32 word \<Rightarrow> nat list" where
  "big_endian32 w = map (\<lambda>i. unat (drop_bit i w) mod 256) [24, 16, 8, 0]"

subsection \<open>State\<close>

record hashes =
  hSha256 :: "string \<Rightarrow> string"  \<comment> \<open>lowercase hex\<close>
  hMd5 :: "string \<Rightarrow> string"     \<comment> \<open>standard base64\<close>

record blob_ref =
  rfSHA256 :: string
  rfSize :: int
  rfCRC32C :: string
  rfMD5 :: string

record blob_store =
  bsRoot :: string
  bsOwned :: bool
  bsFiles :: "string \<rightharpoonup> string"

datatype blob_error = BlobCtx ctx | BlobNotFound string

definition New_blobs :: "string \<Rightarrow> blob_store" where
  "New_blobs root = \<lparr>bsRoot = root, bsOwned = False, bsFiles = Map.empty\<rparr>"

definition blob_Path :: "blob_store \<Rightarrow> string \<Rightarrow> string" where
  "blob_Path s sha =
     (if length sha < 2 then bsRoot s @ ''/blobs/__/'' @ sha
      else bsRoot s @ ''/blobs/'' @ take 2 sha @ ''/'' @ sha)"

definition hashes_ref :: "hashes \<Rightarrow> string \<Rightarrow> blob_ref" where
  "hashes_ref H content =
     \<lparr>rfSHA256 = hSha256 H content, rfSize = int (length content),
      rfCRC32C = std64 (big_endian32 (crc32c content)), rfMD5 = hMd5 H content\<rparr>"

subsection \<open>Operations\<close>

definition blob_Put ::
  "hashes \<Rightarrow> ctx \<Rightarrow> string \<Rightarrow> blob_store \<Rightarrow> (blob_error, blob_ref) result \<times> blob_store" where
  "blob_Put H cx content s =
     (if cx \<noteq> CtxLive then (Err (BlobCtx cx), s)
      else let ref = hashes_ref H content
           in case bsFiles s (rfSHA256 ref) of
                Some _ \<Rightarrow> (Ok ref, s)
              | None \<Rightarrow> (Ok ref, s\<lparr>bsFiles := (bsFiles s)(rfSHA256 ref \<mapsto> content)\<rparr>))"

definition blob_Open :: "string \<Rightarrow> blob_store \<Rightarrow> (blob_error, string) result" where
  "blob_Open sha s = (case bsFiles s sha of None \<Rightarrow> Err (BlobNotFound sha) | Some c \<Rightarrow> Ok c)"

definition blob_Delete :: "string \<Rightarrow> blob_store \<Rightarrow> blob_store" where
  "blob_Delete sha s = s\<lparr>bsFiles := (bsFiles s)(sha := None)\<rparr>"

definition blob_Reset :: "blob_store \<Rightarrow> blob_store" where
  "blob_Reset s = s\<lparr>bsFiles := Map.empty\<rparr>"

definition blob_Close :: "blob_store \<Rightarrow> blob_store" where
  "blob_Close s = (if \<not> bsOwned s then s else s\<lparr>bsFiles := Map.empty\<rparr>)"

text \<open>\<open>Fork\<close> links every file into a new directory that the fork owns.\<close>

definition blob_Fork :: "string \<Rightarrow> blob_store \<Rightarrow> blob_store" where
  "blob_Fork dir s = \<lparr>bsRoot = dir, bsOwned = True, bsFiles = bsFiles s\<rparr>"

subsection \<open>Invariant\<close>

text \<open>Every file holds the content its name is the digest of.\<close>

definition blob_wf :: "hashes \<Rightarrow> blob_store \<Rightarrow> bool" where
  "blob_wf H s \<longleftrightarrow> (\<forall>sha c. bsFiles s sha = Some c \<longrightarrow> hSha256 H c = sha)"

text \<open>No two different contents share a digest: what content addressing relies on.\<close>

definition collision_free :: "hashes \<Rightarrow> bool" where
  "collision_free H \<longleftrightarrow> inj (hSha256 H)"

lemma blob_wf_ops [go_inv]:
  "blob_wf H (New_blobs r)"
  "blob_wf H s \<Longrightarrow> blob_wf H (snd (blob_Put H cx c s))"
  "blob_wf H s \<Longrightarrow> blob_wf H (blob_Delete sha s)"
  "blob_wf H s \<Longrightarrow> blob_wf H (blob_Reset s)"
  "blob_wf H s \<Longrightarrow> blob_wf H (blob_Close s)"
  "blob_wf H s \<Longrightarrow> blob_wf H (blob_Fork dir s)"
  by (auto simp: blob_wf_def New_blobs_def blob_Put_def hashes_ref_def blob_Delete_def blob_Reset_def blob_Close_def
      blob_Fork_def Let_def split: option.splits)

lemma blob_Put_ref: "fst (blob_Put H CtxLive c s) = Ok (hashes_ref H c)"
  by (simp add: blob_Put_def Let_def split: option.split)

lemma blob_Put_content:
  assumes "blob_wf H s" and "collision_free H"
  shows "bsFiles (snd (blob_Put H CtxLive c s)) = (bsFiles s)(hSha256 H c \<mapsto> c)"
proof (cases "bsFiles s (hSha256 H c)")
  case (Some c')
  with assms have "c' = c" by (auto simp: blob_wf_def collision_free_def dest: injD)
  with Some show ?thesis by (auto simp: blob_Put_def Let_def hashes_ref_def)
qed (simp add: blob_Put_def Let_def hashes_ref_def)

lemma blob_Put_keeps: "bsFiles s sha = Some c \<Longrightarrow> bsFiles (snd (blob_Put H cx c' s)) sha = Some c"
  by (auto simp: blob_Put_def Let_def hashes_ref_def split: option.split)

text \<open>Files of different digests have different paths.\<close>

lemma blob_Path_inj:
  assumes "slash \<notin> set a" and "slash \<notin> set b" and "blob_Path s a = blob_Path s b"
  shows "a = b"
proof -
  have "last (split_on slash (blob_Path s x)) = x" if "slash \<notin> set x" for x
  proof -
    have "last (split_on slash (pre @ slash # x)) = x" for pre
    proof (induction "length pre" arbitrary: pre rule: less_induct)
      case less
      show ?case
      proof (cases "slash \<in> set pre")
        case True
        then obtain u v where "pre = u @ slash # v" "slash \<notin> set u" by (metis split_list_first)
        with less [of v] show ?thesis by (simp add: split_on_append)
      qed (simp add: split_on_append split_on_word that)
    qed
    from this [of "bsRoot s @ ''/blobs/__''"] this [of "bsRoot s @ ''/blobs/'' @ take 2 x"]
    show ?thesis by (simp add: blob_Path_def)
  qed
  with assms show ?thesis by metis
qed

subsection \<open>Properties\<close>

text \<open>
  Content put into the tree is what \<open>Open\<close> returns for the digest \<open>Put\<close> reported, with its
  length; the tree stays content-addressed, every other blob is untouched, and putting the same
  content twice changes nothing.
\<close>

theorem blob_put_open:
  assumes "blob_wf H s" and "collision_free H" and "blob_Put H CtxLive c s = (Ok ref, s')"
  shows "blob_Open (rfSHA256 ref) s' = Ok c \<and> rfSize ref = int (length c) \<and> blob_wf H s' \<and>
         (\<forall>sha. sha \<noteq> rfSHA256 ref \<longrightarrow> blob_Open sha s' = blob_Open sha s) \<and>
         blob_Put H CtxLive c s' = (Ok ref, s')"
proof -
  have ref: "ref = hashes_ref H c" using blob_Put_ref [of H c s] assms(3) by simp
  have files: "bsFiles s' = (bsFiles s)(hSha256 H c \<mapsto> c)"
    using blob_Put_content [OF assms(1,2), of c] assms(3) by simp
  have "blob_wf H s'" using blob_wf_ops(2) [OF assms(1), of CtxLive c] assms(3) by simp
  with ref files show ?thesis by (simp add: blob_Open_def hashes_ref_def blob_Put_def Let_def)
qed

definition demo_hashes :: hashes where
  "demo_hashes = \<lparr>hSha256 = (\<lambda>s. CHR ''h'' # s), hMd5 = (\<lambda>s. s)\<rparr>"

lemma demo_hashes_ok: "collision_free demo_hashes" "hSha256 demo_hashes c \<noteq> ''''"
  by (simp_all add: collision_free_def demo_hashes_def inj_def)

theorem blob_put_open_witness:
  "blob_Open ''hab'' (snd (blob_Put demo_hashes CtxLive ''ab'' (New_blobs ''r''))) = Ok ''ab''"
  using blob_put_open [OF blob_wf_ops(1) demo_hashes_ok(1), of "''ab''" "''r''" "hashes_ref demo_hashes ''ab''"]
  by (simp add: blob_Put_def Let_def hashes_ref_def demo_hashes_def New_blobs_def)

text \<open>The register after each byte of the check string.\<close>

lemma crc_check_bytes:
  "crc_byte 0xFFFFFFFF (CHR ''1'') = 0x6F0A661C"
  "crc_byte 0x6F0A661C (CHR ''2'') = 0x8CAA3B9F"
  "crc_byte 0x8CAA3B9F (CHR ''3'') = 0xEF84D04D"
  "crc_byte 0xEF84D04D (CHR ''4'') = 0x9C50B11"
  "crc_byte 0x9C50B11 (CHR ''5'') = 0xE72EDCCA"
  "crc_byte 0xE72EDCCA (CHR ''6'') = 0xBECA8E79"
  "crc_byte 0xBECA8E79 (CHR ''7'') = 0xEDBD6815"
  "crc_byte 0xEDBD6815 (CHR ''8'') = 0x9F787F65"
  "crc_byte 0x9F787F65 (CHR ''9'') = 0x1CF96D7C"
  by code_simp+

text \<open>
  CN: the checksum reported for content is CRC-32C and not the IEEE polynomial: the check value of
  the nine digits is \<open>E3069283\<close>, reported as its big-endian bytes in base64.
\<close>

theorem crc32c_check_value:
  "crc32c ''123456789'' = 0xE3069283 \<and> rfCRC32C (hashes_ref H ''123456789'') = ''4waSgw==''"
proof -
  have "NOT 0 = (0xFFFFFFFF :: 32 word)" "NOT 0x1CF96D7C = (0xE3069283 :: 32 word)"
    by simp_all
  then have "crc32c ''123456789'' = 0xE3069283"
    by (simp only: crc32c_def foldl.simps crc_check_bytes)
  moreover have "big_endian32 0xE3069283 = [227, 6, 146, 131]"
    by (simp add: big_endian32_def unat_drop_bit_eq drop_bit_eq_div)
  moreover have "std64 [227, 6, 146, 131] = ''4waSgw==''"
    by (simp add: std64_char_def char_of_def bit_0)
  ultimately show ?thesis by (simp add: hashes_ref_def)
qed

end
