(* ===== verification/Storage_Base.thy ===== *)
theory Storage_Base
  imports Resource_Keys KV_Store Blob_Store Event_Bus
begin

text \<open>
  Cloud Storage, the base layer (\<open>services/storage\<close>: \<open>storage.go\<close>, \<open>bucket.go\<close>, \<open>blobref.go\<close>,
  \<open>iam.go\<close>, \<open>notify.go\<close> and the types of \<open>object.go\<close>): metadata in the key-value store, content in
  the blob tree, events on the bus.

  Stored values are kept in decoded form, one constructor of \<open>sval\<close> per kind of record; reading a
  key that holds another kind is the decoding error.  Metadata maps are association lists; an empty
  one is stored as absent (\<open>omitempty\<close>).  \<open>svNow\<close> is the reading of the clock during the call.
\<close>

subsection \<open>Data\<close>

record bucket =
  bkName :: string
  bkProject :: string
  bkLocation :: string
  bkStorageClass :: string
  bkVersioning :: bool
  bkMetageneration :: int
  bkCreated :: time
  bkUpdated :: time

type_synonym metadata = "(string \<times> string) list option"

record object =
  obBucket :: string
  obName :: string
  obGeneration :: int
  obMetageneration :: int
  obSize :: int
  obContentType :: string
  obMetadata :: metadata
  obCRC32C :: string
  obMD5 :: string
  obETag :: string
  obBlob :: string
  obCreated :: time
  obUpdated :: time

record live_ptr =
  lpGeneration :: int
  lpHighest :: int

record binding =
  bdRole :: string
  bdMembers :: "string list"

record policy =
  plKind :: string
  plResourceID :: string
  plVersion :: int
  plEtag :: string
  plBindings :: "binding list option"

datatype sval =
    SNil
  | SProject string
  | SBucket bucket
  | SObject object
  | SLive live_ptr
  | SCount int
  | SPolicy policy

instantiation sval :: zero
begin
definition zero_sval_def: "0 = SNil"
instance ..
end

record 'h svc =
  svKV :: "sval memory"
  svBlobs :: blob_store
  svNow :: time
  svBus :: "('h, payload) bus option"

record preconditions =
  pcGenerationMatch :: "int option"
  pcGenerationNotMatch :: "int option"
  pcMetagenerationMatch :: "int option"
  pcMetagenerationNotMatch :: "int option"

definition noPreconditions :: preconditions where
  "noPreconditions = \<lparr>pcGenerationMatch = None, pcGenerationNotMatch = None,
     pcMetagenerationMatch = None, pcMetagenerationNotMatch = None\<rparr>"

subsection \<open>Errors\<close>

definition store_goerr :: "store_error \<Rightarrow> goerr" where
  "store_goerr e = Plain (Msg (store_text e) [])"

definition wrapInternal :: "store_error \<Rightarrow> string \<Rightarrow> goerr" where
  "wrapInternal e msg = Wrap (store_goerr e) Internal (Msg msg [])"

text \<open>\<open>json.Unmarshal\<close> of a record of another kind.\<close>

definition decodeError :: "string \<Rightarrow> goerr" where
  "decodeError msg = Wrap (Plain (Msg ''json'' [])) Internal (Msg msg [])"

definition badBucketName :: "string \<Rightarrow> string \<Rightarrow> goerr" where
  "badBucketName name why =
     GErr (WithReason ''invalid'' (WithHTTPStatus 400
       (New InvalidArgument (Msg ''Invalid bucket name %q: %s'' [name, why])))) None"

definition notFoundBucket :: "string \<Rightarrow> goerr" where
  "notFoundBucket name =
     GErr (WithReason ''notFound'' (WithHTTPStatus 404
       (New NotFound (Msg ''The specified bucket does not exist: %s'' [name])))) None"

definition conflict :: "string \<Rightarrow> string \<Rightarrow> goerr" where
  "conflict message name =
     GErr (WithReason ''conflict'' (WithHTTPStatus 409
       (New AlreadyExists (Msg ''%s (%s)'' [message, name])))) None"

definition preconditionFailed :: "string \<Rightarrow> string \<Rightarrow> goerr" where
  "preconditionFailed bucket name =
     GErr (WithReason ''conditionNotMet'' (WithHTTPStatus 412
       (New FailedPrecondition
         (Msg ''At least one of the pre-conditions you specified did not hold (%s/%s)'' [bucket, name])))) None"

definition notModified :: "string \<Rightarrow> string \<Rightarrow> goerr" where
  "notModified bucket name =
     GErr (WithReason ''notModified'' (WithHTTPStatus 304
       (New Aborted (Msg ''The conditional request failed: %s/%s'' [bucket, name])))) None"

definition notFoundObject :: "string \<Rightarrow> string \<Rightarrow> goerr" where
  "notFoundObject bucket name =
     GErr (WithReason ''notFound'' (WithHTTPStatus 404
       (New NotFound (Msg ''No such object: %s/%s'' [bucket, name])))) None"

definition contention :: "string \<Rightarrow> goerr" where
  "contention msg = GErr (WithReason ''conflict'' (WithHTTPStatus 409 (New Aborted (Msg msg [])))) None"

definition required :: "string \<Rightarrow> goerr" where
  "required msg = GErr (WithReason ''required'' (WithHTTPStatus 400 (New InvalidArgument (Msg msg [])))) None"

definition errRaceLost :: goerr where
  "errRaceLost = Plain (Msg ''storage: live pointer moved'' [])"

definition isNotFound :: "goerr \<Rightarrow> bool" where
  "isNotFound e = (case as_gerr e of None \<Rightarrow> False | Some (g, _) \<Rightarrow> eCode g = NotFound)"

subsection \<open>Store access\<close>

definition kvGet :: "ctx \<Rightarrow> string \<Rightarrow> 'h svc \<Rightarrow> (store_error, sval \<times> nat) result" where
  "kvGet cx k s = mem_Get cx k (svKV s)"

definition kvPut :: "ctx \<Rightarrow> string \<Rightarrow> sval \<Rightarrow> nat \<Rightarrow> 'h svc \<Rightarrow> (store_error, nat) result \<times> 'h svc" where
  "kvPut cx k v n s = (let (r, m) = mem_Put cx k v n (svKV s) in (r, s\<lparr>svKV := m\<rparr>))"

definition kvDelete :: "ctx \<Rightarrow> string \<Rightarrow> nat \<Rightarrow> 'h svc \<Rightarrow> (store_error, unit) result \<times> 'h svc" where
  "kvDelete cx k n s = (let (r, m) = mem_Delete cx k n (svKV s) in (r, s\<lparr>svKV := m\<rparr>))"

subsection \<open>Buckets (bucket.go)\<close>

definition orDefault :: "string \<Rightarrow> string \<Rightarrow> string" where
  "orDefault v d = (if v = '''' then d else v)"

definition DefaultLocation :: string where "DefaultLocation = ''US''"
definition DefaultStorageClass :: string where "DefaultStorageClass = ''STANDARD''"

definition validBucketName :: "string \<Rightarrow> goerr option" where
  "validBucketName name =
     (if name = '''' then Some (badBucketName name ''must not be empty'')
      else if length name < 3 \<or> 222 < length name
      then Some (badBucketName name ''must be between 3 and 222 characters'')
      else if slash \<in> set name \<or> CHR 0x00 \<in> set name
      then Some (badBucketName name ''must not contain a slash or a NUL'')
      else None)"

definition CreateBucket :: "ctx \<Rightarrow> bucket \<Rightarrow> 'h svc \<Rightarrow> (goerr, bucket) result \<times> 'h svc" where
  "CreateBucket cx b0 s =
     (case validBucketName (bkName b0) of
        Some e \<Rightarrow> (Err e, s)
      | None \<Rightarrow>
          if bkProject b0 = '''' then (Err (required ''a bucket needs a project''), s)
          else
            let b = b0\<lparr>bkLocation := orDefault (bkLocation b0) DefaultLocation,
                       bkStorageClass := orDefault (bkStorageClass b0) DefaultStorageClass,
                       bkMetageneration := 1, bkCreated := svNow s, bkUpdated := svNow s\<rparr>
            in case kvPut cx (BucketIndex (bkName b)) (SProject (bkProject b)) 0 s of
                 (Err ErrVersionMismatch, s1) \<Rightarrow>
                   (Err (conflict ''You already own this bucket. Please select another name.'' (bkName b)), s1)
               | (Err e, s1) \<Rightarrow> (Err (wrapInternal e ''claiming the bucket name''), s1)
               | (Ok _, s1) \<Rightarrow>
                   (case kvPut cx (Bucket (bkProject b) (bkName b)) (SBucket b) 0 s1 of
                      (Err e, s2) \<Rightarrow>
                        (Err (wrapInternal e ''storing bucket metadata''),
                         snd (kvDelete cx (BucketIndex (bkName b)) 0 s2))
                    | (Ok _, s2) \<Rightarrow> (Ok b, s2)))"

definition ProjectOf :: "ctx \<Rightarrow> string \<Rightarrow> 'h svc \<Rightarrow> (goerr, string) result" where
  "ProjectOf cx bucket s =
     (case kvGet cx (BucketIndex bucket) s of
        Err ErrNotFound \<Rightarrow> Err (notFoundBucket bucket)
      | Err e \<Rightarrow> Err (wrapInternal e (''resolving the bucket'' @ CHR 0x27 # ''s project''))
      | Ok (SProject p, _) \<Rightarrow> Ok p
      | Ok _ \<Rightarrow> Ok '''')"

definition bucket_of :: "ctx \<Rightarrow> string \<Rightarrow> string \<Rightarrow> 'h svc \<Rightarrow> (goerr, bucket \<times> nat) result" where
  "bucket_of cx project name s =
     (case kvGet cx (Bucket project name) s of
        Err ErrNotFound \<Rightarrow> Err (notFoundBucket name)
      | Err e \<Rightarrow> Err (wrapInternal e ''reading bucket metadata'')
      | Ok (SBucket b, version) \<Rightarrow> Ok (b, version)
      | Ok _ \<Rightarrow> Err (decodeError ''decoding bucket metadata''))"

definition GetBucket :: "ctx \<Rightarrow> string \<Rightarrow> string \<Rightarrow> 'h svc \<Rightarrow> (goerr, bucket) result" where
  "GetBucket cx project name s =
     (case bucket_of cx project name s of Err e \<Rightarrow> Err e | Ok (b, _) \<Rightarrow> Ok b)"

fun decode_buckets :: "string \<Rightarrow> sval kv list \<Rightarrow> (goerr, bucket list) result" where
  "decode_buckets pfx [] = Ok []"
| "decode_buckets pfx (kv # kvs) =
     (if slash \<in> set (trimPrefix (kvKey kv) pfx) then decode_buckets pfx kvs
      else (case kvVal kv of
              SBucket b \<Rightarrow>
                (case decode_buckets pfx kvs of Err e \<Rightarrow> Err e | Ok bs \<Rightarrow> Ok (b # bs))
            | _ \<Rightarrow> Err (decodeError ''decoding bucket metadata'')))"

definition ListBuckets :: "ctx \<Rightarrow> string \<Rightarrow> 'h svc \<Rightarrow> (goerr, bucket list) result" where
  "ListBuckets cx project s =
     (case mem_List cx (BucketsPrefix project) 0 '''' (svKV s) of
        Err e \<Rightarrow> Err (wrapInternal e ''listing buckets'')
      | Ok (entries, _) \<Rightarrow> decode_buckets (BucketsPrefix project) entries)"

record bucket_patch =
  bpStorageClass :: string
  bpVersioning :: "bool option"
  bpPreconditions :: preconditions

definition UpdateBucket ::
  "ctx \<Rightarrow> string \<Rightarrow> string \<Rightarrow> bucket_patch \<Rightarrow> 'h svc \<Rightarrow> (goerr, bucket) result \<times> 'h svc" where
  "UpdateBucket cx project name patch s =
     (case bucket_of cx project name s of
        Err e \<Rightarrow> (Err e, s)
      | Ok (b, version) \<Rightarrow>
          if (case pcMetagenerationMatch (bpPreconditions patch) of None \<Rightarrow> False | Some m \<Rightarrow> bkMetageneration b \<noteq> m)
          then (Err (preconditionFailed name ''''), s)
          else if (case pcMetagenerationNotMatch (bpPreconditions patch) of None \<Rightarrow> False | Some m \<Rightarrow> bkMetageneration b = m)
          then (Err (preconditionFailed name ''''), s)
          else
            let b' = b\<lparr>bkStorageClass := (if bpStorageClass patch \<noteq> '''' then bpStorageClass patch else bkStorageClass b),
                       bkVersioning := (case bpVersioning patch of None \<Rightarrow> bkVersioning b | Some v \<Rightarrow> v),
                       bkMetageneration := i64 (bkMetageneration b + 1), bkUpdated := svNow s\<rparr>
            in case kvPut cx (Bucket project name) (SBucket b') version s of
                 (Err ErrVersionMismatch, s1) \<Rightarrow> (Err (preconditionFailed name ''''), s1)
               | (Err e, s1) \<Rightarrow> (Err (wrapInternal e ''storing bucket metadata''), s1)
               | (Ok _, s1) \<Rightarrow> (Ok b', s1))"

definition DeleteBucket :: "ctx \<Rightarrow> string \<Rightarrow> string \<Rightarrow> 'h svc \<Rightarrow> (goerr, unit) result \<times> 'h svc" where
  "DeleteBucket cx project name s =
     (case bucket_of cx project name s of
        Err e \<Rightarrow> (Err e, s)
      | Ok _ \<Rightarrow>
     (case mem_List cx (LivePrefix project name) 1 '''' (svKV s) of
        Err e \<Rightarrow> (Err (wrapInternal e ''checking whether the bucket is empty''), s)
      | Ok (live, _) \<Rightarrow>
          if live \<noteq> [] then (Err (conflict ''The bucket you tried to delete is not empty.'' name), s)
          else (case kvDelete cx (Bucket project name) 0 s of
                  (Err ErrNotFound, s1) \<Rightarrow> (Err (notFoundBucket name), s1)
                | (Err e, s1) \<Rightarrow> (Err (wrapInternal e ''deleting bucket metadata''), s1)
                | (Ok _, s1) \<Rightarrow>
                    (case kvDelete cx (BucketIndex name) 0 s1 of
                       (Err ErrNotFound, s2) \<Rightarrow> (Ok (), s2)
                     | (Err e, s2) \<Rightarrow> (Err (wrapInternal e ''releasing the bucket name''), s2)
                     | (Ok _, s2) \<Rightarrow> (Ok (), s2)))))"

subsection \<open>Content references (blobref.go)\<close>

definition maxRefAttempts :: nat where "maxRefAttempts = 64"

fun adjust_loop :: "nat \<Rightarrow> ctx \<Rightarrow> string \<Rightarrow> int \<Rightarrow> 'h svc \<Rightarrow> (goerr, unit) result \<times> 'h svc" where
  "adjust_loop 0 cx sha delta s = (Err (contention ''too much contention on a content reference count''), s)"
| "adjust_loop (Suc n) cx sha delta s =
     (let got = (case kvGet cx (BlobRefs sha) s of
                   Err ErrNotFound \<Rightarrow> Ok (0, 0)
                 | Err e \<Rightarrow> Err e
                 | Ok (SCount c, version) \<Rightarrow> Ok (c, version)
                 | Ok (_, version) \<Rightarrow> Ok (0, version))
      in case got of
           Err e \<Rightarrow> (Err (wrapInternal e ''reading a content reference count''), s)
         | Ok (c, version) \<Rightarrow>
             let count = c + delta
             in if 0 < count
                then (case kvPut cx (BlobRefs sha) (SCount count) version s of
                        (Err ErrVersionMismatch, s1) \<Rightarrow> adjust_loop n cx sha delta s1
                      | (Err e, s1) \<Rightarrow> (Err (wrapInternal e ''updating a content reference count''), s1)
                      | (Ok _, s1) \<Rightarrow> (Ok (), s1))
                else if version \<noteq> 0
                then (case kvDelete cx (BlobRefs sha) version s of
                        (Err ErrVersionMismatch, s1) \<Rightarrow> adjust_loop n cx sha delta s1
                      | (Err ErrNotFound, s1) \<Rightarrow> (Ok (), s1\<lparr>svBlobs := blob_Delete sha (svBlobs s1)\<rparr>)
                      | (Err e, s1) \<Rightarrow> (Err (wrapInternal e ''clearing a content reference count''), s1)
                      | (Ok _, s1) \<Rightarrow> (Ok (), s1\<lparr>svBlobs := blob_Delete sha (svBlobs s1)\<rparr>))
                else (Ok (), s\<lparr>svBlobs := blob_Delete sha (svBlobs s)\<rparr>))"

definition adjustRefs :: "ctx \<Rightarrow> string \<Rightarrow> int \<Rightarrow> 'h svc \<Rightarrow> (goerr, unit) result \<times> 'h svc" where
  "adjustRefs cx sha delta s =
     (if sha = '''' then (Ok (), s) else adjust_loop maxRefAttempts cx sha delta s)"

definition retainBlob :: "ctx \<Rightarrow> string \<Rightarrow> 'h svc \<Rightarrow> (goerr, unit) result \<times> 'h svc" where
  "retainBlob cx sha s = adjustRefs cx sha 1 s"

definition releaseBlob :: "ctx \<Rightarrow> string \<Rightarrow> 'h svc \<Rightarrow> (goerr, unit) result \<times> 'h svc" where
  "releaseBlob cx sha s = adjustRefs cx sha (-1) s"

subsection \<open>Reset (storage.go)\<close>

fun drop_claims :: "ctx \<Rightarrow> string \<Rightarrow> sval kv list \<Rightarrow> 'h svc \<Rightarrow> (goerr, unit) result \<times> 'h svc" where
  "drop_claims cx project [] s = (Ok (), s)"
| "drop_claims cx project (kv # kvs) s =
     (if kvVal kv \<noteq> SProject project then drop_claims cx project kvs s
      else (case kvDelete cx (kvKey kv) 0 s of
              (Err e, s1) \<Rightarrow> (Err (wrapInternal e ''releasing a bucket claim''), s1)
            | (Ok _, s1) \<Rightarrow> drop_claims cx project kvs s1))"

definition dropBucketClaims :: "ctx \<Rightarrow> string \<Rightarrow> 'h svc \<Rightarrow> (goerr, unit) result \<times> 'h svc" where
  "dropBucketClaims cx project s =
     (case mem_List cx ''bx/'' 0 '''' (svKV s) of
        Err e \<Rightarrow> (Err (wrapInternal e ''listing bucket claims''), s)
      | Ok (entries, _) \<Rightarrow> drop_claims cx project entries s)"

definition Reset :: "ctx \<Rightarrow> string \<Rightarrow> 'h svc \<Rightarrow> (goerr, unit) result \<times> 'h svc" where
  "Reset cx project s =
     (case mem_Reset cx (if project \<noteq> '''' then ProjectPrefix project else '''') (svKV s) of
        (Err e, m) \<Rightarrow> (Err (wrapInternal e ''clearing metadata''), s\<lparr>svKV := m\<rparr>)
      | (Ok _, m) \<Rightarrow>
          let s1 = s\<lparr>svKV := m\<rparr>
          in if project = '''' then (Ok (), s1\<lparr>svBlobs := blob_Reset (svBlobs s1)\<rparr>)
             else dropBucketClaims cx project s1)"

subsection \<open>IAM policies (iam.go)\<close>

definition emptyPolicy :: "string \<Rightarrow> string \<Rightarrow> string \<Rightarrow> policy" where
  "emptyPolicy project bucket obj =
     \<lparr>plKind = ''storage#policy'',
      plResourceID = ''projects/_/buckets/'' @ bucket @ (if obj \<noteq> '''' then ''/objects/'' @ obj else ''''),
      plVersion = 1, plEtag = ''CAE='', plBindings = Some []\<rparr>"

definition etagFor :: "policy \<Rightarrow> string" where
  "etagFor p =
     (let n = sum_list (map (\<lambda>b. 1 + length (bdMembers b)) (case plBindings p of None \<Rightarrow> [] | Some bs \<Rightarrow> bs))
      in ''CA'' @ [char_of (65 + n mod 26)] @ ''='')"

definition GetIAMPolicy :: "ctx \<Rightarrow> string \<Rightarrow> string \<Rightarrow> string \<Rightarrow> 'h svc \<Rightarrow> (goerr, policy) result" where
  "GetIAMPolicy cx project bucket obj s =
     (case bucket_of cx project bucket s of
        Err e \<Rightarrow> Err e
      | Ok _ \<Rightarrow>
          (case kvGet cx (IAM project bucket obj) s of
             Err ErrNotFound \<Rightarrow> Ok (emptyPolicy project bucket obj)
           | Err e \<Rightarrow> Err (wrapInternal e ''reading the IAM policy'')
           | Ok (SPolicy p, _) \<Rightarrow> Ok p
           | Ok _ \<Rightarrow> Err (decodeError ''decoding the IAM policy'')))"

definition SetIAMPolicy ::
  "ctx \<Rightarrow> string \<Rightarrow> string \<Rightarrow> string \<Rightarrow> policy \<Rightarrow> 'h svc \<Rightarrow> (goerr, policy) result \<times> 'h svc" where
  "SetIAMPolicy cx project bucket obj p0 s =
     (case bucket_of cx project bucket s of
        Err e \<Rightarrow> (Err e, s)
      | Ok _ \<Rightarrow>
          let base = emptyPolicy project bucket obj;
              p1 = p0\<lparr>plKind := plKind base, plResourceID := plResourceID base,
                      plVersion := (if plVersion p0 = 0 then 1 else plVersion p0),
                      plBindings := (case plBindings p0 of None \<Rightarrow> Some [] | Some bs \<Rightarrow> Some bs)\<rparr>;
              p = p1\<lparr>plEtag := etagFor p1\<rparr>;
              got = (case kvGet cx (IAM project bucket obj) s of
                       Err ErrNotFound \<Rightarrow> Ok 0 | Err e \<Rightarrow> Err e | Ok (_, version) \<Rightarrow> Ok version)
          in case got of
               Err e \<Rightarrow> (Err (wrapInternal e ''reading the IAM policy''), s)
             | Ok version \<Rightarrow>
                 (case kvPut cx (IAM project bucket obj) (SPolicy p) version s of
                    (Err ErrVersionMismatch, s1) \<Rightarrow> (Err (preconditionFailed bucket obj), s1)
                  | (Err e, s1) \<Rightarrow> (Err (wrapInternal e ''storing the IAM policy''), s1)
                  | (Ok _, s1) \<Rightarrow> (Ok p, s1)))"

subsection \<open>Events (notify.go)\<close>

definition EventFinalized :: string where "EventFinalized = ''google.storage.object.finalize''"
definition EventDeleted :: string where "EventDeleted = ''google.storage.object.delete''"
definition EventArchived :: string where "EventArchived = ''google.storage.object.archive''"
definition EventUpdated :: string where "EventUpdated = ''google.storage.object.metadataUpdate''"
definition ServiceName :: string where "ServiceName = ''storage.googleapis.com''"

definition SourceOf :: "string \<Rightarrow> string" where
  "SourceOf bucket = ''//storage.googleapis.com/projects/_/buckets/'' @ bucket"

definition resourceName :: "object \<Rightarrow> string" where
  "resourceName o1 =
     ''projects/_/buckets/'' @ obBucket o1 @ ''/objects/'' @ obName o1 @ ''#'' @ itoa (obGeneration o1)"

definition objectPayload :: "object \<Rightarrow> payload" where
  "objectPayload o1 =
     [(''kind'', JStr ''storage#object''),
      (''id'', JStr (obBucket o1 @ ''/'' @ obName o1 @ ''/'' @ itoa (obGeneration o1))),
      (''bucket'', JStr (obBucket o1)), (''name'', JStr (obName o1)),
      (''generation'', JStr (itoa (obGeneration o1))),
      (''metageneration'', JStr (itoa (obMetageneration o1))),
      (''size'', JStr (itoa (obSize o1))), (''contentType'', JStr (obContentType o1)),
      (''crc32c'', JStr (obCRC32C o1)), (''md5Hash'', JStr (obMD5 o1)), (''etag'', JStr (obETag o1)),
      (''timeCreated'', JTime (obCreated o1)), (''updated'', JTime (obUpdated o1))] @
     (case obMetadata o1 of
        None \<Rightarrow> []
      | Some m \<Rightarrow> if 0 < length m then [(''metadata'', JMap m)] else [])"

definition object_event :: "string \<Rightarrow> object \<Rightarrow> time \<Rightarrow> payload event" where
  "object_event kind o1 now =
     \<lparr>evType = kind, evSource = SourceOf (obBucket o1), evSubject = ''objects/'' @ obName o1,
      evResource = resourceName o1, evService = ServiceName, evKind = ''storage#object'',
      evTime = now, evData = objectPayload o1\<rparr>"

definition notify :: "string \<Rightarrow> object \<Rightarrow> 'h svc \<Rightarrow> 'h svc" where
  "notify kind o1 s =
     (case svBus s of
        None \<Rightarrow> s
      | Some b \<Rightarrow> s\<lparr>svBus := Some (Publish (object_event kind o1 (svNow s)) b)\<rparr>)"

end
