(* ===== verification/Storage_Objects.thy ===== *)
theory Storage_Objects
  imports Storage_Base Go_Json
begin

text \<open>
  Cloud Storage objects (\<open>object.go\<close>, \<open>copy.go\<close>): generations, preconditions, the live pointer
  and its compare-and-swap, copies and compositions.

  A write reads the live pointer and, later, swaps it; \<open>env n\<close> is what other callers did to the
  state between the read and the writes of attempt \<open>n\<close>.  \<open>quiet\<close> is the environment that does
  nothing.
\<close>

subsection \<open>Generations and preconditions\<close>

record write_req =
  wrBucket :: string
  wrName :: string
  wrContentType :: string
  wrMetadata :: metadata
  wrPreconditions :: preconditions

definition maxWriteAttempts :: nat where "maxWriteAttempts = 64"
definition maxGenerationProbes :: nat where "maxGenerationProbes = 1024"
definition maxResolveAttempts :: nat where "maxResolveAttempts = 8"

definition isSet :: "preconditions \<Rightarrow> bool" where
  "isSet p \<longleftrightarrow> pcGenerationMatch p \<noteq> None \<or> pcGenerationNotMatch p \<noteq> None \<or>
     pcMetagenerationMatch p \<noteq> None \<or> pcMetagenerationNotMatch p \<noteq> None"

text \<open>Generations stay far below \<open>2^63\<close>: the clock would have to pass the year 294247.\<close>

definition unixMicro :: "time \<Rightarrow> int" where
  "unixMicro t = i64 (t div 1000)"

definition nextGeneration :: "time \<Rightarrow> int \<Rightarrow> int" where
  "nextGeneration now highest =
     (let candidate = unixMicro now
      in if candidate \<le> highest then i64 (highest + 1) else candidate)"

definition conditionHeld :: "bool \<Rightarrow> string \<Rightarrow> string \<Rightarrow> goerr" where
  "conditionHeld rd bucket name = (if rd then notModified bucket name else preconditionFailed bucket name)"

definition checkPreconditions ::
  "preconditions \<Rightarrow> object option \<Rightarrow> string \<Rightarrow> string \<Rightarrow> bool \<Rightarrow> goerr option" where
  "checkPreconditions p existing bucket name rd =
     (if (case pcGenerationMatch p of
            None \<Rightarrow> False
          | Some want \<Rightarrow>
              (want = 0 \<and> existing \<noteq> None) \<or>
              (want \<noteq> 0 \<and> (case existing of None \<Rightarrow> True | Some ob \<Rightarrow> obGeneration ob \<noteq> want)))
      then Some (preconditionFailed bucket name)
      else if (case pcGenerationNotMatch p of
            None \<Rightarrow> False
          | Some want \<Rightarrow>
              (case existing of None \<Rightarrow> want = 0 | Some ob \<Rightarrow> obGeneration ob = want))
      then Some (conditionHeld rd bucket name)
      else if (case pcMetagenerationMatch p of
            None \<Rightarrow> False
          | Some want \<Rightarrow> (case existing of None \<Rightarrow> True | Some ob \<Rightarrow> obMetageneration ob \<noteq> want))
      then Some (preconditionFailed bucket name)
      else if (case pcMetagenerationNotMatch p of
            None \<Rightarrow> False
          | Some want \<Rightarrow> (case existing of None \<Rightarrow> False | Some ob \<Rightarrow> obMetageneration ob = want))
      then Some (conditionHeld rd bucket name)
      else None)"

definition etag :: "object \<Rightarrow> string" where
  "etag ob = ''CN'' @ itoa (obGeneration ob) @ ''EA'' @ itoa (obMetageneration ob) @ ''E=''"

text \<open>
  What comes back of an object through \<open>json.Marshal\<close> and \<open>json.Unmarshal\<close>: bytes of its texts that are not UTF-8 are
  replaced, and an empty metadata map is omitted.  Entity tag, digests and the content's name are ASCII.  A metadata map is listed in the order of its keys, the order
  the encoder writes them in; of two keys that become one the later stays.
\<close>

definition json_map :: "(string \<times> string) list \<Rightarrow> (string \<times> string) list" where
  "json_map m = fold (\<lambda>(k, v). AList.update (json_text k) (json_text v)) m []"

definition stored_object :: "object \<Rightarrow> object" where
  "stored_object ob =
     ob\<lparr>obBucket := json_text (obBucket ob), obName := json_text (obName ob), obContentType := json_text (obContentType ob),
        obMetadata := (case obMetadata ob of None \<Rightarrow> None | Some m \<Rightarrow> if m = [] then None else Some (json_map m))\<rparr>"

subsection \<open>Reading\<close>

definition readLive ::
  "ctx \<Rightarrow> string \<Rightarrow> string \<Rightarrow> string \<Rightarrow> 'h svc \<Rightarrow> (goerr, live_ptr \<times> nat) result" where
  "readLive cx project bucket name s =
     (case kvGet cx (Live project bucket name) s of
        Err ErrNotFound \<Rightarrow> Ok (\<lparr>lpGeneration = 0, lpHighest = 0\<rparr>, 0)
      | Err e \<Rightarrow> Err (wrapInternal e ''reading the live pointer'')
      | Ok (SLive l, version) \<Rightarrow> Ok (l, version)
      | Ok _ \<Rightarrow> Err (decodeError ''decoding the live pointer''))"

definition readGenerationVersion ::
  "ctx \<Rightarrow> string \<Rightarrow> string \<Rightarrow> string \<Rightarrow> int \<Rightarrow> 'h svc \<Rightarrow> (goerr, object \<times> nat) result" where
  "readGenerationVersion cx project bucket name generation s =
     (case kvGet cx (Object project bucket name generation) s of
        Err ErrNotFound \<Rightarrow> Err (notFoundObject bucket name)
      | Err e \<Rightarrow> Err (wrapInternal e ''reading object metadata'')
      | Ok (SObject ob, version) \<Rightarrow> Ok (ob, version)
      | Ok _ \<Rightarrow> Err (decodeError ''decoding object metadata''))"

definition readGeneration ::
  "ctx \<Rightarrow> string \<Rightarrow> string \<Rightarrow> string \<Rightarrow> int \<Rightarrow> 'h svc \<Rightarrow> (goerr, object) result" where
  "readGeneration cx project bucket name generation s =
     (case readGenerationVersion cx project bucket name generation s of
        Err e \<Rightarrow> Err e | Ok (ob, _) \<Rightarrow> Ok ob)"

text \<open>
  The retry of \<open>resolveLive\<close>: every attempt reads the pointer and then the generation it names.
  \<open>Ok (None, 0)\<close> is the zero \<open>Object\<close> with version 0: no such object.
\<close>

fun resolve_loop ::
  "nat \<Rightarrow> ctx \<Rightarrow> string \<Rightarrow> string \<Rightarrow> string \<Rightarrow> 'h svc \<Rightarrow> (goerr, object option \<times> nat) result" where
  "resolve_loop 0 cx project bucket name s =
     Err (contention ''the object changed faster than it could be read'')"
| "resolve_loop (Suc n) cx project bucket name s =
     (case readLive cx project bucket name s of
        Err e \<Rightarrow> Err e
      | Ok (current, version) \<Rightarrow>
          if version = 0 then Ok (None, 0)
          else (case readGeneration cx project bucket name (lpGeneration current) s of
                  Ok ob \<Rightarrow> Ok (Some ob, version)
                | Err e \<Rightarrow> if isNotFound e then resolve_loop n cx project bucket name s else Err e))"

definition resolveLive ::
  "ctx \<Rightarrow> string \<Rightarrow> string \<Rightarrow> string \<Rightarrow> 'h svc \<Rightarrow> (goerr, object option \<times> nat) result" where
  "resolveLive cx project bucket name s = resolve_loop maxResolveAttempts cx project bucket name s"

text \<open>The zero value \<open>Object{}\<close>.\<close>

definition zeroObject :: object where
  "zeroObject = \<lparr>obBucket = '''', obName = '''', obGeneration = 0, obMetageneration = 0, obSize = 0,
     obContentType = '''', obMetadata = None, obCRC32C = '''', obMD5 = '''', obETag = '''', obBlob = '''',
     obCreated = 0, obUpdated = 0\<rparr>"

definition GetObjectIf ::
  "ctx \<Rightarrow> string \<Rightarrow> string \<Rightarrow> string \<Rightarrow> int option \<Rightarrow> preconditions \<Rightarrow> 'h svc \<Rightarrow> (goerr, object) result" where
  "GetObjectIf cx project bucket name generation p s =
     (let found =
        (case generation of
           Some g \<Rightarrow> readGeneration cx project bucket name g s
         | None \<Rightarrow>
             (case resolveLive cx project bucket name s of
                Err e \<Rightarrow> Err e
              | Ok (Some ob, version) \<Rightarrow> if version = 0 then Err (notFoundObject bucket name) else Ok ob
              | Ok (None, version) \<Rightarrow> Err (notFoundObject bucket name)))
      in case found of
           Err e \<Rightarrow>
             if isSet p \<and> isNotFound e
             then (case checkPreconditions p None bucket name True of
                     None \<Rightarrow> Ok zeroObject   \<comment> \<open>\<open>return Object{}, nil\<close>\<close>
                   | Some e' \<Rightarrow> Err e')
             else Err e
         | Ok ob \<Rightarrow>
             (case checkPreconditions p (Some ob) bucket name True of
                Some e \<Rightarrow> Err e
              | None \<Rightarrow> Ok ob))"

definition GetObject ::
  "ctx \<Rightarrow> string \<Rightarrow> string \<Rightarrow> string \<Rightarrow> int option \<Rightarrow> 'h svc \<Rightarrow> (goerr, object) result" where
  "GetObject cx project bucket name generation s =
     GetObjectIf cx project bucket name generation noPreconditions s"

fun blob_goerr :: "blob_error \<Rightarrow> goerr" where
  "blob_goerr (BlobCtx c) = store_goerr (ErrCtx c)"
| "blob_goerr (BlobNotFound sha) = Wrapped (Msg ''%w: %s'' [sha]) (Plain (Msg ''blob: not found'' []))"

definition OpenObject ::
  "ctx \<Rightarrow> string \<Rightarrow> string \<Rightarrow> string \<Rightarrow> int option \<Rightarrow> preconditions \<Rightarrow> 'h svc \<Rightarrow> (goerr, object \<times> string) result" where
  "OpenObject cx project bucket name generation p s =
     (case GetObjectIf cx project bucket name generation p s of
        Err e \<Rightarrow> Err e
      | Ok ob \<Rightarrow>
          (case blob_Open (obBlob ob) (svBlobs s) of
             Err e \<Rightarrow> Err (Wrap (blob_goerr e) Internal (Msg ''opening object content'' []))
           | Ok content \<Rightarrow> Ok (ob, content)))"

subsection \<open>Writing\<close>

definition casLive ::
  "ctx \<Rightarrow> string \<Rightarrow> string \<Rightarrow> string \<Rightarrow> live_ptr \<Rightarrow> nat \<Rightarrow> 'h svc \<Rightarrow> (goerr, unit) result \<times> 'h svc" where
  "casLive cx project bucket name l version s =
     (case kvPut cx (Live project bucket name) (SLive l) version s of
        (Err ErrVersionMismatch, s1) \<Rightarrow> (Err errRaceLost, s1)
      | (Err e, s1) \<Rightarrow> (Err (wrapInternal e ''publishing the live pointer''), s1)
      | (Ok _, s1) \<Rightarrow> (Ok (), s1))"

definition putGeneration ::
  "ctx \<Rightarrow> string \<Rightarrow> object \<Rightarrow> 'h svc \<Rightarrow> (goerr, unit) result \<times> 'h svc" where
  "putGeneration cx project ob s =
     (case kvPut cx (Object project (obBucket ob) (obName ob) (obGeneration ob)) (SObject (stored_object ob)) 0 s of
        (Err ErrVersionMismatch, s1) \<Rightarrow> (Err errRaceLost, s1)
      | (Err e, s1) \<Rightarrow> (Err (wrapInternal e ''storing object metadata''), s1)
      | (Ok _, s1) \<Rightarrow> (Ok (), s1))"

definition with_generation :: "int \<Rightarrow> object \<Rightarrow> object" where
  "with_generation g ob = (let o1 = ob\<lparr>obGeneration := g\<rparr> in o1\<lparr>obETag := etag o1\<rparr>)"

fun claim_loop ::
  "nat \<Rightarrow> ctx \<Rightarrow> string \<Rightarrow> object \<Rightarrow> int \<Rightarrow> 'h svc \<Rightarrow> (goerr, int) result \<times> 'h svc" where
  "claim_loop 0 cx project ob generation s = (Err (contention ''could not allocate a generation''), s)"
| "claim_loop (Suc n) cx project ob generation s =
     (case putGeneration cx project (with_generation generation ob) s of
        (Ok _, s1) \<Rightarrow> (Ok generation, s1)
      | (Err e, s1) \<Rightarrow>
          if e = errRaceLost then claim_loop n cx project ob (generation + 1) s1 else (Err e, s1))"

definition claimGeneration ::
  "ctx \<Rightarrow> string \<Rightarrow> object \<Rightarrow> int \<Rightarrow> 'h svc \<Rightarrow> (goerr, int) result \<times> 'h svc" where
  "claimGeneration cx project ob start s =
     claim_loop (nat (i64 (start + int maxGenerationProbes) - start)) cx project ob start s"

definition dropGeneration :: "ctx \<Rightarrow> string \<Rightarrow> object \<Rightarrow> 'h svc \<Rightarrow> (goerr, unit) result \<times> 'h svc" where
  "dropGeneration cx project ob s =
     (case kvDelete cx (Object project (obBucket ob) (obName ob) (obGeneration ob)) 0 s of
        (Err ErrNotFound, s1) \<Rightarrow> releaseBlob cx (obBlob ob) s1
      | (Err e, s1) \<Rightarrow> (Err (wrapInternal e ''removing a superseded generation''), s1)
      | (Ok _, s1) \<Rightarrow> releaseBlob cx (obBlob ob) s1)"

text \<open>The read half of \<open>publish\<close>: the live pointer, its version and the object it names.\<close>

definition publish_read ::
  "ctx \<Rightarrow> string \<Rightarrow> write_req \<Rightarrow> 'h svc \<Rightarrow> (goerr, live_ptr \<times> nat \<times> object option) result" where
  "publish_read cx project w s =
     (case readLive cx project (wrBucket w) (wrName w) s of
        Err e \<Rightarrow> Err e
      | Ok (current, version) \<Rightarrow>
          let existing =
            (if version \<noteq> 0
             then (case readGeneration cx project (wrBucket w) (wrName w) (lpGeneration current) s of
                     Err e \<Rightarrow> Err (if isNotFound e then errRaceLost else e)
                   | Ok ob \<Rightarrow> Ok (Some ob))
             else Ok None)
          in case existing of
               Err e \<Rightarrow> Err e
             | Ok ex \<Rightarrow>
                 (case checkPreconditions (wrPreconditions w) ex (wrBucket w) (wrName w) False of
                    Some e \<Rightarrow> Err e
                  | None \<Rightarrow> Ok (current, version, ex)))"

definition new_object :: "write_req \<Rightarrow> blob_ref \<Rightarrow> time \<Rightarrow> object" where
  "new_object w ref now =
     \<lparr>obBucket = wrBucket w, obName = wrName w, obGeneration = 0, obMetageneration = 1,
      obSize = rfSize ref, obContentType = orDefault (wrContentType w) ''application/octet-stream'',
      obMetadata = wrMetadata w, obCRC32C = rfCRC32C ref, obMD5 = rfMD5 ref, obETag = '''',
      obBlob = rfSHA256 ref, obCreated = now, obUpdated = now\<rparr>"

text \<open>The write half: claim a generation, take the reference, swap the pointer, drop what it superseded.\<close>

definition publish_write ::
  "ctx \<Rightarrow> string \<Rightarrow> write_req \<Rightarrow> blob_ref \<Rightarrow> bool \<Rightarrow> live_ptr \<Rightarrow> nat \<Rightarrow> object option \<Rightarrow> 'h svc
     \<Rightarrow> (goerr, object) result \<times> 'h svc" where
  "publish_write cx project w ref versioning current version existing s =
     (let ob0 = new_object w ref (svNow s)
      in case claimGeneration cx project ob0 (nextGeneration (svNow s) (lpHighest current)) s of
           (Err e, s1) \<Rightarrow> (Err e, s1)
         | (Ok generation, s1) \<Rightarrow>
             let ob = with_generation generation ob0
             in case retainBlob cx (rfSHA256 ref) s1 of
                  (Err e, s2) \<Rightarrow> (Err e, s2)
                | (Ok _, s2) \<Rightarrow>
                    (case casLive cx project (wrBucket w) (wrName w)
                            \<lparr>lpGeneration = generation, lpHighest = generation\<rparr> version s2 of
                       (Err e, s3) \<Rightarrow> (Err e, snd (releaseBlob cx (rfSHA256 ref) s3))
                     | (Ok _, s3) \<Rightarrow>
                         (case (if \<not> versioning then existing else None) of
                            None \<Rightarrow> (Ok ob, notify EventFinalized ob s3)
                          | Some old \<Rightarrow>
                              (case dropGeneration cx project old s3 of
                                 (Err e, s4) \<Rightarrow> (Err e, s4)
                               | (Ok _, s4) \<Rightarrow> (Ok ob, notify EventFinalized ob s4)))))"

definition publish ::
  "('h svc \<Rightarrow> 'h svc) \<Rightarrow> ctx \<Rightarrow> string \<Rightarrow> write_req \<Rightarrow> blob_ref \<Rightarrow> bool \<Rightarrow> 'h svc
     \<Rightarrow> (goerr, object) result \<times> 'h svc" where
  "publish others cx project w ref versioning s =
     (case publish_read cx project w s of
        Err e \<Rightarrow> (Err e, s)
      | Ok (current, version, existing) \<Rightarrow>
          publish_write cx project w ref versioning current version existing (others s))"

fun publish_loop ::
  "nat \<Rightarrow> (nat \<Rightarrow> 'h svc \<Rightarrow> 'h svc) \<Rightarrow> ctx \<Rightarrow> string \<Rightarrow> write_req \<Rightarrow> blob_ref \<Rightarrow> bool \<Rightarrow> 'h svc
     \<Rightarrow> (goerr, object) result \<times> 'h svc" where
  "publish_loop 0 env cx project w ref versioning s = (Err (contention ''too much contention on the object''), s)"
| "publish_loop (Suc n) env cx project w ref versioning s =
     (case publish (env n) cx project w ref versioning s of
        (Ok ob, s1) \<Rightarrow> (Ok ob, s1)
      | (Err e, s1) \<Rightarrow>
          if e \<noteq> errRaceLost then (Err e, s1)
          else if pcGenerationMatch (wrPreconditions w) \<noteq> None \<or> pcMetagenerationMatch (wrPreconditions w) \<noteq> None
          then (Err (preconditionFailed (wrBucket w) (wrName w)), s1)
          else publish_loop n env cx project w ref versioning s1)"

definition publishRef ::
  "(nat \<Rightarrow> 'h svc \<Rightarrow> 'h svc) \<Rightarrow> ctx \<Rightarrow> string \<Rightarrow> write_req \<Rightarrow> blob_ref \<Rightarrow> 'h svc \<Rightarrow> (goerr, object) result \<times> 'h svc" where
  "publishRef env cx project w ref s =
     (case bucket_of cx project (wrBucket w) s of
        Err e \<Rightarrow> (Err e, s)
      | Ok (bkt, _) \<Rightarrow> publish_loop maxWriteAttempts env cx project w ref (bkVersioning bkt) s)"

definition quiet :: "nat \<Rightarrow> 'h svc \<Rightarrow> 'h svc" where
  "quiet n s = s"

text \<open>The checks and the upload of \<open>WriteObject\<close>, before the content is published.\<close>

definition store_content ::
  "hashes \<Rightarrow> ctx \<Rightarrow> string \<Rightarrow> write_req \<Rightarrow> string \<Rightarrow> 'h svc \<Rightarrow> (goerr, blob_ref) result \<times> 'h svc" where
  "store_content H cx project w content s =
     (case bucket_of cx project (wrBucket w) s of
        Err e \<Rightarrow> (Err e, s)
      | Ok _ \<Rightarrow>
          if wrName w = '''' then (Err (required ''an object needs a name''), s)
          else (case blob_Put H cx content (svBlobs s) of
                  (Err e, bs) \<Rightarrow> (Err (Wrap (blob_goerr e) Internal (Msg ''storing object content'' [])), s\<lparr>svBlobs := bs\<rparr>)
                | (Ok ref, bs) \<Rightarrow> (Ok ref, s\<lparr>svBlobs := bs\<rparr>)))"

definition WriteObject ::
  "hashes \<Rightarrow> (nat \<Rightarrow> 'h svc \<Rightarrow> 'h svc) \<Rightarrow> ctx \<Rightarrow> string \<Rightarrow> write_req \<Rightarrow> string \<Rightarrow> 'h svc \<Rightarrow> (goerr, object) result \<times> 'h svc" where
  "WriteObject H env cx project w content s =
     (case store_content H cx project w content s of
        (Err e, s1) \<Rightarrow> (Err e, s1)
      | (Ok ref, s1) \<Rightarrow> publishRef env cx project w ref s1)"

definition UpdateObject ::
  "ctx \<Rightarrow> string \<Rightarrow> string \<Rightarrow> string \<Rightarrow> write_req \<Rightarrow> 'h svc \<Rightarrow> (goerr, object) result \<times> 'h svc" where
  "UpdateObject cx project bucket name patch s =
     (case readLive cx project bucket name s of
        Err e \<Rightarrow> (Err e, s)
      | Ok (current, version) \<Rightarrow>
          if version = 0 then (Err (notFoundObject bucket name), s)
          else
     (case readGenerationVersion cx project bucket name (lpGeneration current) s of
        Err e \<Rightarrow> (Err (if isNotFound e then preconditionFailed bucket name else e), s)
      | Ok (ob, obVersion) \<Rightarrow>
     (case checkPreconditions (wrPreconditions patch) (Some ob) bucket name False of
        Some e \<Rightarrow> (Err e, s)
      | None \<Rightarrow>
          let o1 = ob\<lparr>obContentType := (if wrContentType patch \<noteq> '''' then wrContentType patch else obContentType ob),
                      obMetadata := (if wrMetadata patch \<noteq> None then wrMetadata patch else obMetadata ob),
                      obMetageneration := i64 (obMetageneration ob + 1), obUpdated := svNow s\<rparr>;
              o2 = o1\<lparr>obETag := etag o1\<rparr>
          in case kvPut cx (Object project bucket name (obGeneration o2)) (SObject (stored_object o2)) obVersion s of
               (Err ErrVersionMismatch, s1) \<Rightarrow> (Err (preconditionFailed bucket name), s1)
             | (Err e, s1) \<Rightarrow> (Err (wrapInternal e ''storing object metadata''), s1)
             | (Ok _, s1) \<Rightarrow> (Ok o2, notify EventUpdated o2 s1))))"

definition DeleteObject ::
  "ctx \<Rightarrow> string \<Rightarrow> string \<Rightarrow> string \<Rightarrow> preconditions \<Rightarrow> 'h svc \<Rightarrow> (goerr, unit) result \<times> 'h svc" where
  "DeleteObject cx project bucket name p s =
     (case resolveLive cx project bucket name s of
        Err e \<Rightarrow> (Err e, s)
      | Ok (None, _) \<Rightarrow> (Err (notFoundObject bucket name), s)
      | Ok (Some ob, version) \<Rightarrow>
     (case checkPreconditions p (Some ob) bucket name False of
        Some e \<Rightarrow> (Err e, s)
      | None \<Rightarrow>
     (case bucket_of cx project bucket s of
        Err e \<Rightarrow> (Err e, s)
      | Ok (bkt, _) \<Rightarrow>
     (case kvDelete cx (Live project bucket name) version s of
        (Err ErrVersionMismatch, s1) \<Rightarrow> (Err (preconditionFailed bucket name), s1)
      | (Err e, s1) \<Rightarrow> (Err (wrapInternal e ''deleting the live pointer''), s1)
      | (Ok _, s1) \<Rightarrow>
          if bkVersioning bkt then (Ok (), notify EventArchived ob s1)
          else (case dropGeneration cx project ob s1 of
                  (Err e, s2) \<Rightarrow> (Err e, s2)
                | (Ok _, s2) \<Rightarrow> (Ok (), notify EventDeleted ob s2))))))"

subsection \<open>Copy and compose (copy.go)\<close>

record source_ref =
  srBucket :: string
  srName :: string
  srGeneration :: "int option"

definition CopyObject ::
  "(nat \<Rightarrow> 'h svc \<Rightarrow> 'h svc) \<Rightarrow> ctx \<Rightarrow> string \<Rightarrow> source_ref \<Rightarrow> write_req \<Rightarrow> 'h svc \<Rightarrow> (goerr, object) result \<times> 'h svc" where
  "CopyObject env cx project src dst s =
     (case GetObject cx project (srBucket src) (srName src) (srGeneration src) s of
        Err e \<Rightarrow> (Err e, s)
      | Ok from \<Rightarrow>
     (case bucket_of cx project (wrBucket dst) s of
        Err e \<Rightarrow> (Err e, s)
      | Ok _ \<Rightarrow>
          let dst' = dst\<lparr>wrContentType := (if wrContentType dst = '''' then obContentType from else wrContentType dst),
                         wrMetadata := (if wrMetadata dst = None then obMetadata from else wrMetadata dst)\<rparr>
          in publishRef env cx project dst'
               \<lparr>rfSHA256 = obBlob from, rfSize = obSize from, rfCRC32C = obCRC32C from, rfMD5 = obMD5 from\<rparr> s))"

fun open_sources ::
  "ctx \<Rightarrow> string \<Rightarrow> string \<Rightarrow> source_ref list \<Rightarrow> 'h svc \<Rightarrow> (goerr, string) result" where
  "open_sources cx project dstBucket [] s = Ok ''''"
| "open_sources cx project dstBucket (src # srcs) s =
     (case OpenObject cx project (if srBucket src = '''' then dstBucket else srBucket src)
             (srName src) (srGeneration src) noPreconditions s of
        Err e \<Rightarrow> Err e
      | Ok (_, content) \<Rightarrow>
          (case open_sources cx project dstBucket srcs s of
             Err e \<Rightarrow> Err e
           | Ok rest \<Rightarrow> Ok (content @ rest)))"

definition ComposeObject ::
  "hashes \<Rightarrow> (nat \<Rightarrow> 'h svc \<Rightarrow> 'h svc) \<Rightarrow> ctx \<Rightarrow> string \<Rightarrow> source_ref list \<Rightarrow> write_req \<Rightarrow> 'h svc \<Rightarrow> (goerr, object) result \<times> 'h svc" where
  "ComposeObject H env cx project sources dst s =
     (if sources = [] then (Err (required ''compose needs at least one source object''), s)
      else if 32 < length sources
      then (Err (GErr (WithReason ''invalid'' (WithHTTPStatus 400
              (New InvalidArgument (Msg ''compose accepts at most 32 source objects, got %d'' [dec (length sources)])))) None), s)
      else (case bucket_of cx project (wrBucket dst) s of
              Err e \<Rightarrow> (Err e, s)
            | Ok _ \<Rightarrow>
                (case open_sources cx project (wrBucket dst) sources s of
                   Err e \<Rightarrow> (Err e, s)
                 | Ok content \<Rightarrow>
                     WriteObject H env cx project
                       (dst\<lparr>wrContentType := (if wrContentType dst = '''' then ''application/octet-stream'' else wrContentType dst)\<rparr>)
                       content s)))"

end
