(* ===== verification/Storage_Inv.thy ===== *)
theory Storage_Inv
  imports Storage_Objects
begin

text \<open>
  The invariant of Cloud Storage: how object metadata, content reference counts and stored content
  hang together, that every operation keeps it, and what it gives: the content of every generation
  that can be read is there.
\<close>

subsection \<open>References and counts\<close>

definition obj_at :: "'h svc \<Rightarrow> string \<Rightarrow> object option" where
  "obj_at s k = (case memM (svKV s) k of Some e \<Rightarrow> (case entVal e of SObject ob \<Rightarrow> Some ob | _ \<Rightarrow> None) | None \<Rightarrow> None)"

definition refs :: "'h svc \<Rightarrow> string \<Rightarrow> string set" where
  "refs s sha = {k. \<exists>ob. obj_at s k = Some ob \<and> obBlob ob = sha}"

definition refcount :: "'h svc \<Rightarrow> string \<Rightarrow> int" where
  "refcount s sha = (case memM (svKV s) (BlobRefs sha) of Some e \<Rightarrow> (case entVal e of SCount c \<Rightarrow> c | _ \<Rightarrow> 0) | None \<Rightarrow> 0)"

text \<open>
  An object record stands under its own key, has content, and its size is its content's.  The names in the record are those
  in the key only if they are UTF-8; \<open>X\<close> are buckets and names that need not be.
\<close>

definition obj_ok :: "(string \<times> string) set \<Rightarrow> hashes \<Rightarrow> string \<Rightarrow> object \<Rightarrow> bool" where
  "obj_ok X H k ob \<longleftrightarrow>
     (\<exists>p b nm. slash_free p \<and> slash_free b \<and> 0 \<le> obGeneration ob \<and> k = Object p b nm (obGeneration ob) \<and>
        obBucket ob = json_text b \<and> obName ob = json_text nm \<and> (utf8 b \<and> utf8 nm \<or> (b, nm) \<in> X)) \<and>
     obBlob ob \<noteq> '''' \<and> (\<forall>c. hSha256 H c = obBlob ob \<longrightarrow> obSize ob = int (length c))"

text \<open>
  The invariant, with room for \<open>n\<close> more writes of a key before its version wraps, and \<open>d sha\<close>
  references not yet counted (or, if negative, already given up).
\<close>

definition sinv :: "(string \<times> string) set \<Rightarrow> hashes \<Rightarrow> nat \<Rightarrow> (string \<Rightarrow> int) \<Rightarrow> 'h svc \<Rightarrow> bool" where
  "sinv X H n d s \<longleftrightarrow>
     finite (dom (memM (svKV s))) \<and>
     (\<forall>k e. memM (svKV s) k = Some e \<longrightarrow> 0 < entVersion e \<and> entVersion e + n < 2 ^ 64) \<and>
     (\<forall>k ob. obj_at s k = Some ob \<longrightarrow> obj_ok X H k ob) \<and>
     (\<forall>k e l. memM (svKV s) k = Some e \<and> entVal e = SLive l \<longrightarrow> 0 \<le> lpGeneration l \<and> 0 \<le> lpHighest l \<and> lpHighest l < max_i64) \<and>
     (\<forall>sha. int (card (refs s sha)) \<le> refcount s sha + d sha) \<and>
     (\<forall>sha. 0 < refcount s sha \<longrightarrow> bsFiles (svBlobs s) sha \<noteq> None) \<and>
     blob_wf H (svBlobs s) \<and> 0 \<le> svNow s"

abbreviation settled :: "string \<Rightarrow> int" where "settled \<equiv> \<lambda>_. 0"

lemma sinvD:
  assumes "sinv X H n d s"
  shows "finite (dom (memM (svKV s)))"
    and "\<And>k e. memM (svKV s) k = Some e \<Longrightarrow> 0 < entVersion e \<and> entVersion e + n < 2 ^ 64"
    and "\<And>k ob. obj_at s k = Some ob \<Longrightarrow> obj_ok X H k ob"
    and "\<And>k e l. memM (svKV s) k = Some e \<Longrightarrow> entVal e = SLive l \<Longrightarrow> 0 \<le> lpGeneration l \<and> 0 \<le> lpHighest l \<and> lpHighest l < max_i64"
    and "\<And>sha. int (card (refs s sha)) \<le> refcount s sha + d sha"
    and "\<And>sha. 0 < refcount s sha \<Longrightarrow> bsFiles (svBlobs s) sha \<noteq> None"
    and "blob_wf H (svBlobs s)" and "0 \<le> svNow s"
  using assms unfolding sinv_def by blast+

lemma sinvI:
  assumes "finite (dom (memM (svKV s)))"
    and "\<And>k e. memM (svKV s) k = Some e \<Longrightarrow> 0 < entVersion e \<and> entVersion e + n < 2 ^ 64"
    and "\<And>k ob. obj_at s k = Some ob \<Longrightarrow> obj_ok X H k ob"
    and "\<And>k e l. memM (svKV s) k = Some e \<Longrightarrow> entVal e = SLive l \<Longrightarrow> 0 \<le> lpGeneration l \<and> 0 \<le> lpHighest l \<and> lpHighest l < max_i64"
    and "\<And>sha. int (card (refs s sha)) \<le> refcount s sha + d sha"
    and "\<And>sha. 0 < refcount s sha \<Longrightarrow> bsFiles (svBlobs s) sha \<noteq> None"
    and "blob_wf H (svBlobs s)" and "0 \<le> svNow s"
  shows "sinv X H n d s"
  using assms unfolding sinv_def by blast

lemma sinv_mono: "sinv X H m d s \<Longrightarrow> n \<le> m \<Longrightarrow> sinv X H n d s"
proof (rule sinvI)
  assume a: "sinv X H m d s" "n \<le> m"
  note D = sinvD [OF a(1)]
  show "0 < entVersion e \<and> entVersion e + n < 2 ^ 64" if "memM (svKV s) k = Some e" for k e
    using D(2) [OF that] a(2) by linarith
  show "bsFiles (svBlobs s) sha \<noteq> None" if "0 < refcount s sha" for sha using D(6) [OF that] .
  show "0 \<le> lpGeneration l \<and> 0 \<le> lpHighest l \<and> lpHighest l < max_i64" if "memM (svKV s) k = Some e" "entVal e = SLive l" for k e l
    using D(4) [OF that] .
qed (rule sinvD, assumption+)+

lemma finite_refs: "finite (dom (memM (svKV s))) \<Longrightarrow> finite (refs s sha)"
  by (rule finite_subset [of _ "dom (memM (svKV s))"]) (auto simp: refs_def obj_at_def split: option.splits)

text \<open>A reference whose content is counted can be opened.\<close>

lemma ref_content:
  assumes "sinv X H n settled s" and "obj_at s k = Some ob"
  obtains c where "bsFiles (svBlobs s) (obBlob ob) = Some c" "hSha256 H c = obBlob ob" "obSize ob = int (length c)"
proof -
  have "k \<in> refs s (obBlob ob)" using assms(2) by (simp add: refs_def)
  then have "0 < card (refs s (obBlob ob))"
    using finite_refs [OF sinvD(1) [OF assms(1)]] by (auto simp: card_gt_0_iff)
  then have "0 < refcount s (obBlob ob)" using sinvD(5) [OF assms(1), of "obBlob ob"] by simp
  then obtain c where c: "bsFiles (svBlobs s) (obBlob ob) = Some c" using sinvD(6) [OF assms(1)] by blast
  then have "hSha256 H c = obBlob ob" using sinvD(7) [OF assms(1)] by (simp add: blob_wf_def)
  moreover have "obSize ob = int (length c)"
    using sinvD(3) [OF assms] \<open>hSha256 H c = obBlob ob\<close> by (simp add: obj_ok_def)
  ultimately show thesis using c that by blast
qed

subsection \<open>Keys\<close>

lemma rc_key_distinct [simp]:
  "BlobRefs sha \<noteq> Bucket p b" "BlobRefs sha \<noteq> Live p b n" "BlobRefs sha \<noteq> Object p b n g"
  "BlobRefs sha \<noteq> BucketIndex b" "BlobRefs sha \<noteq> IAM p b n"
  "Bucket p b \<noteq> BlobRefs sha" "Live p b n \<noteq> BlobRefs sha" "Object p b n g \<noteq> BlobRefs sha"
  "BucketIndex b \<noteq> BlobRefs sha" "IAM p b n \<noteq> BlobRefs sha"
  by (simp_all add: key_defs)

lemma BlobRefs_inject [simp]: "BlobRefs a = BlobRefs b \<longleftrightarrow> a = b"
  by (simp add: BlobRefs_def)

lemma pad_inject: "0 \<le> g \<Longrightarrow> 0 \<le> h \<Longrightarrow> pad g = pad h \<longleftrightarrow> g = h"
  by (metis pad_nat dec_val_dec dec_val_zero_pad int_nat_eq)

lemma Object_eq_iff:
  assumes "slash_free p" "slash_free b" "slash_free p'" "slash_free b'" "0 \<le> g" "0 \<le> h"
  shows "Object p b n g = Object p' b' n' h \<longleftrightarrow> p = p' \<and> b = b' \<and> n = n' \<and> g = h"
proof
  assume "Object p b n g = Object p' b' n' h"
  then have *: "p = p'" "b = b'" "n @ CHR 0x00 # pad g = n' @ CHR 0x00 # pad h"
    using Bucket_eq_iff [OF assms(1-4), of "''o/'' @ n @ CHR 0x00 # pad g" "''o/'' @ n' @ CHR 0x00 # pad h"]
    by (auto simp: Object_def ObjectPrefix_def sep_def)
  then have "n = n' \<and> pad g = pad h" using assms(5,6) by (intro last_sep_eq) (auto simp: pad_no_sep)
  with * assms(5,6) show "p = p' \<and> b = b' \<and> n = n' \<and> g = h" by (simp add: pad_inject)
qed simp

subsection \<open>One store operation at a time\<close>

lemma kvPut_err: "kvPut cx k v n s = (Err e, s') \<Longrightarrow> s' = s"
  by (auto simp: kvPut_def mem_Put_def Let_def split: if_splits option.splits)

lemma kvPut_ok:
  "kvPut cx k v n s = (Ok m, s') \<Longrightarrow>
     svBlobs s' = svBlobs s \<and> svNow s' = svNow s \<and> svBus s' = svBus s \<and> memM (svKV s') = (memM (svKV s))(k \<mapsto> \<lparr>entVal = v, entVersion = m\<rparr>) \<and>
     (n = 0 \<and> memM (svKV s) k = None \<and> m = 1 \<or>
      (\<exists>e. memM (svKV s) k = Some e \<and> entVersion e = n \<and> m = u64 (n + 1) \<and> n \<noteq> 0))"
  by (auto simp: kvPut_def mem_Put_def Let_def split: if_splits option.splits)

lemma kvDelete_err: "kvDelete cx k n s = (Err e, s') \<Longrightarrow> s' = s"
  by (auto simp: kvDelete_def mem_Delete_def Let_def split: if_splits option.splits)

lemma kvDelete_ok:
  "kvDelete cx k n s = (Ok u, s') \<Longrightarrow>
     svBlobs s' = svBlobs s \<and> svNow s' = svNow s \<and> svBus s' = svBus s \<and> memM (svKV s') = (memM (svKV s))(k := None) \<and> memM (svKV s) k \<noteq> None"
  by (auto simp: kvDelete_def mem_Delete_def Let_def split: if_splits option.splits)

lemma obj_at_upd:
  "memM (svKV s') = (memM (svKV s))(k \<mapsto> \<lparr>entVal = v, entVersion = m\<rparr>) \<Longrightarrow>
     obj_at s' j = (if j = k then (case v of SObject ob \<Rightarrow> Some ob | _ \<Rightarrow> None) else obj_at s j)"
  by (simp add: obj_at_def)

lemma obj_at_del:
  "memM (svKV s') = (memM (svKV s))(k := None) \<Longrightarrow> obj_at s' j = (if j = k then None else obj_at s j)"
  by (simp add: obj_at_def)

lemma obj_at_not_rc: "sinv X H n d s \<Longrightarrow> obj_at s k = Some ob \<Longrightarrow> k \<noteq> BlobRefs sha"
  using sinvD(3) by (fastforce simp: obj_ok_def)

lemma put_version:
  assumes "sinv X H (Suc n) d s" and "kvPut cx k v m s = (Ok nv, s')" and "n < 2 ^ 63"
  shows "0 < nv \<and> nv + n < 2 ^ 64"
proof -
  from kvPut_ok [OF assms(2)] consider "nv = 1" | e where "memM (svKV s) k = Some e" "entVersion e = m" "nv = u64 (m + 1)"
    by blast
  then show ?thesis
  proof cases
    case 2
    with sinvD(2) [OF assms(1), of k e] show ?thesis by (simp add: u64_small)
  qed (use assms(3) in simp)
qed

text \<open>
  The shape of every step of the store: one entry written or removed.  What it does to the
  references is given by the objects it adds or takes away.
\<close>

lemma sinv_step:
  assumes inv: "sinv X H (Suc n) d s"
    and keep: "svBlobs s' = svBlobs s" "svNow s' = svNow s"
    and kv: "memM (svKV s') = (memM (svKV s))(k := x)"
    and ver: "\<And>e. x = Some e \<Longrightarrow> 0 < entVersion e \<and> entVersion e + n < 2 ^ 64"
    and obj: "\<And>e ob. x = Some e \<Longrightarrow> entVal e = SObject ob \<Longrightarrow> obj_ok X H k ob"
    and lv: "\<And>e l. x = Some e \<Longrightarrow> entVal e = SLive l \<Longrightarrow> 0 \<le> lpGeneration l \<and> 0 \<le> lpHighest l \<and> lpHighest l < max_i64"
    and rf: "\<And>sha. int (card (refs s' sha)) \<le> refcount s' sha + d' sha"
    and fl: "\<And>sha. 0 < refcount s' sha \<Longrightarrow> bsFiles (svBlobs s) sha \<noteq> None"
  shows "sinv X H n d' s'"
proof (rule sinvI)
  note D = sinvD [OF inv]
  show "finite (dom (memM (svKV s')))" using D(1) unfolding kv by (cases x) auto
  show "0 < entVersion e \<and> entVersion e + n < 2 ^ 64" if "memM (svKV s') j = Some e" for j e
    using that ver D(2) [of j e] unfolding kv by (cases "j = k") auto
  show "obj_ok X H j ob" if "obj_at s' j = Some ob" for j ob
    using that obj D(3) [of j ob] unfolding obj_at_def kv by (cases "j = k") (auto split: option.splits sval.splits)
  show "0 \<le> lpGeneration l \<and> 0 \<le> lpHighest l \<and> lpHighest l < max_i64" if "memM (svKV s') j = Some e" "entVal e = SLive l" for j e l
    using that lv D(4) [of j e l] unfolding kv by (cases "j = k") auto
  show "bsFiles (svBlobs s') sha \<noteq> None" if "0 < refcount s' sha" for sha
    using fl [OF that] keep by simp
qed (use rf keep sinvD [OF inv] in auto)

lemma refcount_frame: "k \<noteq> BlobRefs sha \<Longrightarrow> memM (svKV s') = (memM (svKV s))(k := x) \<Longrightarrow> refcount s' sha = refcount s sha"
  by (simp add: refcount_def)

lemma refs_le:
  assumes "sinv X H n d s" and "refs s' sha \<subseteq> refs s sha"
  shows "int (card (refs s' sha)) \<le> refcount s sha + d sha"
  using card_mono [OF finite_refs [OF sinvD(1) [OF assms(1)]] assms(2)] sinvD(5) [OF assms(1), of sha] by linarith

text \<open>Writing a record that is not an object, outside the counts.\<close>

lemma kvPut_plain:
  assumes inv: "sinv X H (Suc n) d s" and put: "kvPut cx k v m s = (Ok nv, s')" and n: "n < 2 ^ 63"
    and k: "\<And>sha. k \<noteq> BlobRefs sha" and v: "\<And>ob. v \<noteq> SObject ob"
    and l: "\<And>l. v = SLive l \<Longrightarrow> 0 \<le> lpGeneration l \<and> 0 \<le> lpHighest l \<and> lpHighest l < max_i64"
  shows "sinv X H n d s'"
proof -
  note K = kvPut_ok [OF put]
  have sub: "refs s' sha \<subseteq> refs s sha" for sha
    using v obj_at_upd [of s' s k v nv] K by (auto simp: refs_def split: if_splits sval.splits)
  have cnt: "refcount s' sha = refcount s sha" for sha
    by (rule refcount_frame [OF k]) (use K in blast)
  show ?thesis
  proof (rule sinv_step [OF inv])
    show "int (card (refs s' sha)) \<le> refcount s' sha + d sha" for sha
      using refs_le [OF inv sub] cnt by simp
  qed (use K put_version [OF inv put n] v l cnt sinvD(6) [OF inv] in auto)
qed

text \<open>Writing a new object record: one more reference.\<close>

lemma kvPut_object:
  assumes inv: "sinv X H (Suc n) d s" and put: "kvPut cx k (SObject ob) 0 s = (Ok nv, s')" and n: "n < 2 ^ 63"
    and k: "\<And>sha. k \<noteq> BlobRefs sha" and ok: "obj_ok X H k ob"
  shows "sinv X H n (d(obBlob ob := d (obBlob ob) + 1)) s'"
proof -
  note K = kvPut_ok [OF put]
  have new: "refs s' sha = (if sha = obBlob ob then insert k (refs s sha) else refs s sha)" for sha
    using obj_at_upd [of s' s k "SObject ob" nv] K by (auto simp: refs_def obj_at_def split: if_splits)
  have cnt: "refcount s' sha = refcount s sha" for sha
    by (rule refcount_frame [OF k]) (use K in blast)
  have "int (card (insert k (refs s sha))) \<le> refcount s sha + (d sha + 1)" for sha
    using sinvD(5) [OF inv, of sha] card_insert_le_m1 [of "card (refs s sha) + 1"]
      card_insert_if [OF finite_refs [OF sinvD(1) [OF inv]], of k sha] by (auto split: if_splits)
  then show ?thesis
    by (intro sinv_step [OF inv]) (use K put_version [OF inv put n] ok cnt new sinvD(5,6) [OF inv] in auto)
qed

text \<open>Rewriting an object record with the same content: no reference changes.\<close>

lemma kvPut_same_blob:
  assumes inv: "sinv X H (Suc n) d s" and put: "kvPut cx k (SObject ob) m s = (Ok nv, s')" and n: "n < 2 ^ 63"
    and old: "obj_at s k = Some ob0" and same: "obBlob ob = obBlob ob0" and ok: "obj_ok X H k ob"
  shows "sinv X H n d s'"
proof -
  note K = kvPut_ok [OF put]
  have rfs: "refs s' sha = refs s sha" for sha
    using obj_at_upd [of s' s k "SObject ob" nv] K old same by (auto simp: refs_def split: if_splits)
  have cnt: "refcount s' sha = refcount s sha" for sha
    by (rule refcount_frame [OF obj_at_not_rc [OF inv old]]) (use K in blast)
  show ?thesis
    by (rule sinv_step [OF inv]) (use K put_version [OF inv put n] ok cnt rfs sinvD(5,6) [OF inv] in auto)
qed

text \<open>Removing an entry that is not a count; removing an object gives up its reference.\<close>

lemma kvDelete_plain:
  assumes inv: "sinv X H (Suc n) d s" and del: "kvDelete cx k m s = (Ok u, s')" and k: "\<And>sha. k \<noteq> BlobRefs sha"
  shows "sinv X H n d s'"
proof -
  note K = kvDelete_ok [OF del]
  have sub: "refs s' sha \<subseteq> refs s sha" for sha
    using obj_at_del [of s' s k] K by (auto simp: refs_def split: if_splits)
  have cnt: "refcount s' sha = refcount s sha" for sha
    by (rule refcount_frame [OF k]) (use K in blast)
  show ?thesis
  proof (rule sinv_step [OF inv])
    show "int (card (refs s' sha)) \<le> refcount s' sha + d sha" for sha
      using refs_le [OF inv sub] cnt by simp
  qed (use K cnt sinvD(6) [OF inv] in auto)
qed

lemma kvDelete_object:
  assumes inv: "sinv X H (Suc n) d s" and del: "kvDelete cx k m s = (Ok u, s')" and old: "obj_at s k = Some ob"
  shows "sinv X H n (d(obBlob ob := d (obBlob ob) - 1)) s'"
proof -
  note K = kvDelete_ok [OF del]
  have new: "refs s' sha = (if sha = obBlob ob then refs s sha - {k} else refs s sha)" for sha
    using obj_at_del [of s' s k] K old by (auto simp: refs_def split: if_splits)
  have cnt: "refcount s' sha = refcount s sha" for sha
    by (rule refcount_frame [OF obj_at_not_rc [OF inv old]]) (use K in blast)
  have mem: "k \<in> refs s (obBlob ob)" using old by (simp add: refs_def)
  have "int (card (refs s (obBlob ob) - {k})) = int (card (refs s (obBlob ob))) - 1"
    using card.remove [OF finite_refs [OF sinvD(1) [OF inv]] mem] by simp
  then have "int (card (refs s (obBlob ob) - {k})) \<le> refcount s (obBlob ob) + (d (obBlob ob) - 1)"
    using sinvD(5) [OF inv, of "obBlob ob"] by linarith
  then show ?thesis
    by (intro sinv_step [OF inv]) (use K cnt new sinvD(5,6) [OF inv] in auto)
qed

subsection \<open>Reference counts\<close>

definition rc_version :: "'h svc \<Rightarrow> string \<Rightarrow> nat" where
  "rc_version s sha = (case memM (svKV s) (BlobRefs sha) of None \<Rightarrow> 0 | Some e \<Rightarrow> entVersion e)"

lemma kvPut_at_version:
  assumes "\<And>e. memM (svKV s) (BlobRefs sha) = Some e \<Longrightarrow> 0 < entVersion e"
  obtains nv s' where "kvPut CtxLive (BlobRefs sha) v (rc_version s sha) s = (Ok nv, s')"
  using assms
  by (cases "memM (svKV s) (BlobRefs sha)") (auto simp: kvPut_def mem_Put_def Let_def rc_version_def)

lemma kvDelete_at_version:
  assumes "memM (svKV s) k = Some e"
  obtains s' where "kvDelete CtxLive k (entVersion e) s = (Ok (), s')"
  using assms by (auto simp: kvDelete_def mem_Delete_def Let_def)

lemma adjust_first:
  "adjust_loop (Suc m) CtxLive sha \<delta> s =
     (let cnt = refcount s sha + \<delta> in
      if 0 < cnt
      then (case kvPut CtxLive (BlobRefs sha) (SCount cnt) (rc_version s sha) s of
              (Err ErrVersionMismatch, s1) \<Rightarrow> adjust_loop m CtxLive sha \<delta> s1
            | (Err e, s1) \<Rightarrow> (Err (wrapInternal e ''updating a content reference count''), s1)
            | (Ok _, s1) \<Rightarrow> (Ok (), s1))
      else if rc_version s sha \<noteq> 0
      then (case kvDelete CtxLive (BlobRefs sha) (rc_version s sha) s of
              (Err ErrVersionMismatch, s1) \<Rightarrow> adjust_loop m CtxLive sha \<delta> s1
            | (Err ErrNotFound, s1) \<Rightarrow> (Ok (), s1\<lparr>svBlobs := blob_Delete sha (svBlobs s1)\<rparr>)
            | (Err e, s1) \<Rightarrow> (Err (wrapInternal e ''clearing a content reference count''), s1)
            | (Ok _, s1) \<Rightarrow> (Ok (), s1\<lparr>svBlobs := blob_Delete sha (svBlobs s1)\<rparr>))
      else (Ok (), s\<lparr>svBlobs := blob_Delete sha (svBlobs s)\<rparr>))"
  by (cases "memM (svKV s) (BlobRefs sha)")
    (auto simp: Let_def kvGet_def mem_Get_def rc_version_def refcount_def split: sval.split)

text \<open>Taking content away that nothing counts any more.\<close>

lemma sinv_blob_Delete:
  assumes "sinv X H n d s" and "refcount s sha \<le> 0"
  shows "sinv X H n d (s\<lparr>svBlobs := blob_Delete sha (svBlobs s)\<rparr>)"
proof -
  have eq: "obj_at (s\<lparr>svBlobs := b\<rparr>) = obj_at s" "refcount (s\<lparr>svBlobs := b\<rparr>) = refcount s"
    "refs (s\<lparr>svBlobs := b\<rparr>) = refs s" for b
    by (simp_all add: fun_eq_iff obj_at_def refcount_def refs_def)
  note D = sinvD [OF assms(1)]
  show ?thesis
  proof (rule sinvI, simp_all only: eq)
    show "bsFiles (svBlobs (s\<lparr>svBlobs := blob_Delete sha (svBlobs s)\<rparr>)) a \<noteq> None" if "0 < refcount s a" for a
      using that D(6) [OF that] assms(2) by (auto simp: blob_Delete_def)
  qed (use D blob_wf_ops(3) in auto)
qed

text \<open>With nobody else at the count, the first attempt of \<open>adjustRefs\<close> succeeds.\<close>

lemma adjust_seq:
  assumes inv: "sinv X H (Suc n) d s" and n: "n < 2 ^ 63" and sha: "sha \<noteq> ''''"
    and fresh: "0 < refcount s sha + \<delta> \<Longrightarrow> bsFiles (svBlobs s) sha \<noteq> None"
  obtains s' where "adjustRefs CtxLive sha \<delta> s = (Ok (), s')" and "sinv X H n (d(sha := d sha - \<delta>)) s'"
    and "\<And>k. k \<noteq> BlobRefs sha \<Longrightarrow> memM (svKV s') k = memM (svKV s) k" and "svNow s' = svNow s" and "svBus s' = svBus s"
    and "0 < refcount s sha + \<delta> \<Longrightarrow> svBlobs s' = svBlobs s"
    and "refcount s sha + \<delta> \<le> 0 \<Longrightarrow> bsFiles (svBlobs s') sha = None"
proof -
  let ?c = "refcount s sha + \<delta>"
  have pos: "\<And>e. memM (svKV s) (BlobRefs sha) = Some e \<Longrightarrow> 0 < entVersion e" using sinvD(2) [OF inv] by blast
  have "adjustRefs CtxLive sha \<delta> s = adjust_loop (Suc 63) CtxLive sha \<delta> s"
    using sha by (simp add: adjustRefs_def maxRefAttempts_def del: adjust_loop.simps)
  note loop = this [unfolded adjust_first Let_def]
  have no_obj: "obj_at s (BlobRefs sha) = None" using obj_at_not_rc [OF inv] by (metis option.exhaust)
  consider (put) "0 < ?c" | (del) e where "?c \<le> 0" "memM (svKV s) (BlobRefs sha) = Some e"
    | (none) "?c \<le> 0" "memM (svKV s) (BlobRefs sha) = None" by fastforce
  then show thesis
  proof cases
    case put
    obtain nv s' where p: "kvPut CtxLive (BlobRefs sha) (SCount ?c) (rc_version s sha) s = (Ok nv, s')"
      using kvPut_at_version [OF pos] by blast
    note K = kvPut_ok [OF p]
    have rfs: "refs s' a = refs s a" for a
      using obj_at_upd [of s' s "BlobRefs sha" "SCount ?c" nv] K no_obj by (auto simp: refs_def split: if_splits)
    have cnt: "refcount s' a = (if a = sha then ?c else refcount s a)" for a
      using K by (auto simp: refcount_def)
    have "sinv X H n (d(sha := d sha - \<delta>)) s'"
      by (rule sinv_step [OF inv]) (use K put_version [OF inv p n] rfs cnt sinvD(5,6) [OF inv] fresh put in \<open>auto split: if_splits\<close>)
    with put p K loop show thesis by (intro that [of s']) auto
  next
    case del
    then have ver: "rc_version s sha = entVersion e" "rc_version s sha \<noteq> 0" using pos [of e] by (auto simp: rc_version_def)
    obtain s1 where p: "kvDelete CtxLive (BlobRefs sha) (rc_version s sha) s = (Ok (), s1)"
      using kvDelete_at_version [OF del(2)] ver(1) by metis
    note K = kvDelete_ok [OF p]
    have rfs: "refs s1 a = refs s a" for a
      using obj_at_del [of s1 s "BlobRefs sha"] K no_obj by (auto simp: refs_def split: if_splits)
    have cnt: "refcount s1 a = (if a = sha then 0 else refcount s a)" for a
      using K by (auto simp: refcount_def)
    have "sinv X H n (d(sha := d sha - \<delta>)) s1"
    proof (rule sinv_step [OF inv])
      show "int (card (refs s1 a)) \<le> refcount s1 a + (d(sha := d sha - \<delta>)) a" for a
        using sinvD(5) [OF inv, of a] rfs cnt del(1) by auto
    qed (use K cnt sinvD(6) [OF inv] in \<open>auto split: if_splits\<close>)
    then have "sinv X H n (d(sha := d sha - \<delta>)) (s1\<lparr>svBlobs := blob_Delete sha (svBlobs s1)\<rparr>)"
      by (rule sinv_blob_Delete) (simp add: cnt)
    with del p K loop ver show thesis
      by (intro that [of "s1\<lparr>svBlobs := blob_Delete sha (svBlobs s1)\<rparr>"]) (auto simp: blob_Delete_def)
  next
    case none
    then have "refcount s sha = 0" "rc_version s sha = 0" by (simp_all add: refcount_def rc_version_def)
    moreover have "sinv X H n (d(sha := d sha - \<delta>)) s"
      using none(1) calculation sinvD [OF sinv_mono [OF inv, of n]] sinvD(5) [OF inv, of sha]
      by (intro sinvI) auto
    ultimately show thesis
      using none loop sinv_blob_Delete [of X H n "d(sha := d sha - \<delta>)" s sha]
      by (intro that [of "s\<lparr>svBlobs := blob_Delete sha (svBlobs s)\<rparr>"]) (auto simp: blob_Delete_def)
  qed
qed

subsection \<open>The parts of a write\<close>

lemma sinv_notify [simp]: "sinv X H n d (notify kind ob s) = sinv X H n d s"
  by (cases "svBus s") (simp_all add: notify_def sinv_def obj_at_def refs_def refcount_def)

lemma claim_loop_err: "claim_loop m cx project ob g s = (Err e, s') \<Longrightarrow> s' = s"
  by (induction m arbitrary: g) (auto simp: putGeneration_def split: prod.splits result.splits store_error.splits if_splits dest: kvPut_err)

lemma claim_loop_not_race: "claim_loop m cx project ob g s = (Err e, s') \<Longrightarrow> e \<noteq> errRaceLost"
  by (induction m arbitrary: g s) (auto simp: contention_def errRaceLost_def split: prod.splits result.splits if_splits)

lemma claim_loop_ok:
  assumes "claim_loop m cx project ob g0 s = (Ok g, s')"
  obtains nv where "g0 \<le> g" and "g < g0 + int m" and
    "kvPut cx (Object project (obBucket ob) (obName ob) g) (SObject (stored_object (with_generation g ob))) 0 s = (Ok nv, s')"
proof -
  have "g0 \<le> g \<and> g < g0 + int m \<and> (\<exists>nv. kvPut cx (Object project (obBucket ob) (obName ob) g) (SObject (stored_object (with_generation g ob))) 0 s = (Ok nv, s'))"
    using assms
  proof (induction m arbitrary: g0)
    case (Suc m)
    show ?case
    proof (cases "kvPut cx (Object project (obBucket ob) (obName ob) g0) (SObject (stored_object (with_generation g0 ob))) 0 s")
      case (Pair r s1)
      have fields: "obBucket (with_generation g0 ob) = obBucket ob" "obName (with_generation g0 ob) = obName ob"
        "obGeneration (with_generation g0 ob) = g0" by (simp_all add: with_generation_def Let_def)
      show ?thesis
      proof (cases r)
        case (Ok nv)
        with Pair Suc.prems fields show ?thesis by (auto simp: putGeneration_def)
      next
        case (Err e)
        then have "s1 = s" using Pair kvPut_err by blast
        with Pair Err Suc.prems fields Suc.IH [of "g0 + 1"] show ?thesis
          by (cases e) (auto simp: putGeneration_def errRaceLost_def wrapInternal_def Wrap_def split: if_splits)
      qed
    qed
  qed simp
  then show thesis using that by blast
qed

lemma readGeneration_at:
  assumes "readGeneration CtxLive project bucket name g s = Ok ob"
  shows "obj_at s (Object project bucket name g) = Some ob"
  using assms
  by (auto simp: readGeneration_def readGenerationVersion_def kvGet_def mem_Get_def obj_at_def
      split: option.splits result.splits store_error.splits sval.splits prod.splits)

lemma readLive_at:
  assumes "readLive CtxLive project bucket name s = Ok (l, v)"
  shows "v = 0 \<and> l = \<lparr>lpGeneration = 0, lpHighest = 0\<rparr> \<or>
    (\<exists>e. memM (svKV s) (Live project bucket name) = Some e \<and> entVal e = SLive l \<and> entVersion e = v)"
  using assms
  by (auto simp: readLive_def kvGet_def mem_Get_def
      split: option.splits result.splits store_error.splits sval.splits prod.splits)

lemma readLive_nonneg:
  assumes "sinv X H n d s" and "readLive CtxLive project bucket name s = Ok (l, v)"
  shows "0 \<le> lpGeneration l \<and> 0 \<le> lpHighest l \<and> lpHighest l < max_i64"
  using readLive_at [OF assms(2)] sinvD(4) [OF assms(1)] by (auto simp: max_i64_def)

lemma obj_key:
  assumes "sinv X H n d s" and "obj_at s (Object p b nm g) = Some ob" and "slash_free p" and "slash_free b" and "0 \<le> g"
  shows "obBucket ob = json_text b \<and> obName ob = json_text nm \<and> obGeneration ob = g \<and> (utf8 b \<and> utf8 nm \<or> (b, nm) \<in> X)"
proof -
  obtain p' b' nm' where "slash_free p'" "slash_free b'" "0 \<le> obGeneration ob" "Object p b nm g = Object p' b' nm' (obGeneration ob)"
    "obBucket ob = json_text b'" "obName ob = json_text nm'" "utf8 b' \<and> utf8 nm' \<or> (b', nm') \<in> X"
    using sinvD(3) [OF assms(1,2)] by (auto simp: obj_ok_def)
  then show ?thesis using assms(3-5) by (simp add: Object_eq_iff)
qed

text \<open>Dropping a generation that is there: its record and its reference go together.\<close>

lemma dropGeneration_inv:
  assumes inv: "sinv X H (n + 2) settled s" and n: "n < 2 ^ 62"
    and at: "obj_at s (Object p (obBucket ob) (obName ob) (obGeneration ob)) = Some ob"
    and drop: "dropGeneration CtxLive p ob s = (r, s')"
  shows "sinv X H n settled s' \<and> r = Ok () \<and> svNow s' = svNow s \<and>
    (\<forall>k. k \<noteq> Object p (obBucket ob) (obName ob) (obGeneration ob) \<and> k \<noteq> BlobRefs (obBlob ob) \<longrightarrow>
       memM (svKV s') k = memM (svKV s) k) \<and>
    memM (svKV s') (Object p (obBucket ob) (obName ob) (obGeneration ob)) = None \<and>
    (refcount s (obBlob ob) \<le> 1 \<longrightarrow> bsFiles (svBlobs s') (obBlob ob) = None)"
proof -
  let ?k = "Object p (obBucket ob) (obName ob) (obGeneration ob)"
  have "memM (svKV s) ?k \<noteq> None" using at by (auto simp: obj_at_def split: option.splits)
  then obtain s1 where del: "kvDelete CtxLive ?k 0 s = (Ok (), s1)"
    by (auto simp: kvDelete_def mem_Delete_def Let_def)
  have inv1: "sinv X H (Suc n) (settled(obBlob ob := -1)) s1"
    using kvDelete_object [OF _ del at, of X H "Suc n" settled] inv by simp
  have sha: "obBlob ob \<noteq> ''''" using sinvD(3) [OF inv at] by (simp add: obj_ok_def)
  have "bsFiles (svBlobs s1) (obBlob ob) \<noteq> None" if "0 < refcount s1 (obBlob ob) + - 1"
    using that sinvD(6) [OF inv1] by simp
  then obtain s2 where "adjustRefs CtxLive (obBlob ob) (-1) s1 = (Ok (), s2)"
    "sinv X H n ((settled(obBlob ob := -1))(obBlob ob := (settled(obBlob ob := -1)) (obBlob ob) - -1)) s2"
    "\<And>k. k \<noteq> BlobRefs (obBlob ob) \<Longrightarrow> memM (svKV s2) k = memM (svKV s1) k" "svNow s2 = svNow s1"
    "refcount s1 (obBlob ob) + - 1 \<le> 0 \<Longrightarrow> bsFiles (svBlobs s2) (obBlob ob) = None"
    using adjust_seq [OF inv1 _ sha, of "-1"] n by auto
  moreover have "(settled(obBlob ob := -1))(obBlob ob := (settled(obBlob ob := -1)) (obBlob ob) - -1) = settled"
    by auto
  moreover have "refcount s1 (obBlob ob) = refcount s (obBlob ob)"
    using kvDelete_ok [OF del] by (simp add: refcount_def)
  ultimately show ?thesis using drop del kvDelete_ok [OF del] by (simp add: dropGeneration_def releaseBlob_def)
qed

text \<open>A reference to content that is there.\<close>

definition ref_ok :: "hashes \<Rightarrow> blob_ref \<Rightarrow> 'h svc \<Rightarrow> bool" where
  "ref_ok H ref s \<longleftrightarrow> rfSHA256 ref \<noteq> '''' \<and> bsFiles (svBlobs s) (rfSHA256 ref) \<noteq> None \<and>
     (\<forall>c. hSha256 H c = rfSHA256 ref \<longrightarrow> rfSize ref = int (length c))"

lemma nextGeneration_above: "0 \<le> highest \<Longrightarrow> highest < max_i64 \<Longrightarrow> highest < nextGeneration now highest"
  by (simp add: nextGeneration_def Let_def i64_id max_i64_def min_i64_def)

text \<open>Claiming a generation and taking the reference: counted again.\<close>

lemma claim_retain_inv:
  assumes inv: "sinv X H (n + 2) settled s" and n: "n < 2 ^ 62" and ref: "ref_ok H ref s"
    and free: "slash_free p" "slash_free (wrBucket w)" and nm: "utf8 (wrBucket w) \<and> utf8 (wrName w) \<or> (wrBucket w, wrName w) \<in> X" and hi: "0 \<le> lpHighest current" "lpHighest current < max_i64"
    and claim: "claimGeneration CtxLive p (new_object w ref (svNow s)) (nextGeneration (svNow s) (lpHighest current)) s = (Ok g, s1)"
    and retain: "retainBlob CtxLive (rfSHA256 ref) s1 = (r, s2)"
  shows "r = Ok () \<and> sinv X H n settled s2 \<and> 0 \<le> g \<and> g < max_i64 \<and> ref_ok H ref s2 \<and> svNow s2 = svNow s \<and>
    nextGeneration (svNow s) (lpHighest current) \<le> g \<and> memM (svKV s) (Object p (wrBucket w) (wrName w) g) = None \<and>
    obj_at s2 (Object p (wrBucket w) (wrName w) g) = Some (stored_object (with_generation g (new_object w ref (svNow s)))) \<and>
    (\<forall>k ob. obj_at s k = Some ob \<longrightarrow> obj_at s2 k = Some ob) \<and>
    (\<forall>k. k \<noteq> BlobRefs (rfSHA256 ref) \<and> k \<noteq> Object p (wrBucket w) (wrName w) g \<longrightarrow> memM (svKV s2) k = memM (svKV s) k)"
proof -
  let ?o = "new_object w ref (svNow s)"
  let ?k = "Object p (obBucket ?o) (obName ?o) g" and ?ob = "stored_object (with_generation g ?o)"
  obtain nv where ge: "nextGeneration (svNow s) (lpHighest current) \<le> g" and put: "kvPut CtxLive ?k (SObject ?ob) 0 s = (Ok nv, s1)"
    and lt: "g < nextGeneration (svNow s) (lpHighest current)
      + int (nat (i64 (nextGeneration (svNow s) (lpHighest current) + int maxGenerationProbes) - nextGeneration (svNow s) (lpHighest current)))"
    using claim_loop_ok [OF claim [unfolded claimGeneration_def]] by blast
  have g: "0 \<le> g" "g < max_i64"
    using nextGeneration_above [OF hi, of "svNow s"] hi ge lt
      i64_range [of "nextGeneration (svNow s) (lpHighest current) + int maxGenerationProbes"]
    by (simp_all split: if_splits)
  have ok: "obj_ok X H ?k ?ob"
    using free g ref nm by (auto simp: obj_ok_def ref_ok_def stored_object_def with_generation_def new_object_def Let_def)
  have blob: "obBlob ?ob = rfSHA256 ref"
    by (simp add: stored_object_def with_generation_def new_object_def Let_def)
  have inv1: "sinv X H (Suc n) (settled(rfSHA256 ref := 1)) s1"
    using kvPut_object [OF _ put _ _ ok, of "Suc n" settled] inv n blob by simp
  note K = kvPut_ok [OF put]
  obtain s2' where adj: "adjustRefs CtxLive (rfSHA256 ref) 1 s1 = (Ok (), s2')"
    "sinv X H n ((settled(rfSHA256 ref := 1))(rfSHA256 ref := (settled(rfSHA256 ref := 1)) (rfSHA256 ref) - 1)) s2'"
    "\<And>k. k \<noteq> BlobRefs (rfSHA256 ref) \<Longrightarrow> memM (svKV s2') k = memM (svKV s1) k"
    "0 < refcount s1 (rfSHA256 ref) + 1 \<Longrightarrow> svBlobs s2' = svBlobs s1" "svNow s2' = svNow s1"
  proof (rule adjust_seq [OF inv1, of "rfSHA256 ref" 1])
    show "n < 2 ^ 63" "rfSHA256 ref \<noteq> ''''" "bsFiles (svBlobs s1) (rfSHA256 ref) \<noteq> None"
      using n ref K by (auto simp: ref_ok_def)
  qed blast
  moreover have "(settled(rfSHA256 ref := 1))(rfSHA256 ref := (settled(rfSHA256 ref := 1)) (rfSHA256 ref) - 1) = settled"
    by auto
  moreover have "0 < refcount s1 (rfSHA256 ref) + 1"
    using sinvD(5) [OF inv, of "rfSHA256 ref"] refcount_frame [of ?k "rfSHA256 ref" s1 s] K by simp
  moreover have "obj_at s1 k = Some ob" if "obj_at s k = Some ob" for k ob
    using that K by (auto simp: obj_at_def split: if_splits option.splits)
  moreover have "obj_at s2' k = obj_at s1 k" if "k \<noteq> BlobRefs (rfSHA256 ref)" for k
    using adj(3) [OF that] by (simp add: obj_at_def)
  moreover have "memM (svKV s) (Object p (wrBucket w) (wrName w) g) = None"
    "obj_at s1 (Object p (wrBucket w) (wrName w) g) = Some ?ob"
    using K obj_at_upd [of s1 s ?k "SObject ?ob" nv] by (auto simp: new_object_def)
  moreover have "memM (svKV s1) k = memM (svKV s) k" if "k \<noteq> Object p (wrBucket w) (wrName w) g" for k
    using that K by (simp add: new_object_def)
  ultimately show ?thesis
    using retain ref K g ge obj_at_not_rc [OF inv] by (auto simp: retainBlob_def ref_ok_def)
qed

lemma casLive_inv:
  assumes inv: "sinv X H (Suc n) settled s" and n: "n < 2 ^ 62" and g: "0 \<le> g" "g < max_i64"
    and cas: "casLive CtxLive p b nm \<lparr>lpGeneration = g, lpHighest = g\<rparr> v s = (r, s')"
  shows "sinv X H n settled s' \<and> svBlobs s' = svBlobs s \<and> svNow s' = svNow s \<and> (r \<noteq> Ok () \<longrightarrow> s' = s) \<and>
    (\<forall>k. k \<noteq> Live p b nm \<longrightarrow> memM (svKV s') k = memM (svKV s) k) \<and>
    (r = Ok () \<longrightarrow> (\<exists>e. memM (svKV s') (Live p b nm) = Some e \<and> entVal e = SLive \<lparr>lpGeneration = g, lpHighest = g\<rparr>))"
proof (cases "kvPut CtxLive (Live p b nm) (SLive \<lparr>lpGeneration = g, lpHighest = g\<rparr>) v s")
  case (Pair r1 s1)
  show ?thesis
  proof (cases r1)
    case (Ok nv)
    have "sinv X H n settled s1"
      by (rule kvPut_plain [OF inv Pair [unfolded Ok]]) (use n g in auto)
    with Pair Ok cas kvPut_ok [OF Pair [unfolded Ok]] show ?thesis by (auto simp: casLive_def)
  next
    case (Err e)
    then have "s1 = s" using Pair kvPut_err by blast
    with Pair Err cas sinv_mono [OF inv, of n] show ?thesis by (cases e) (auto simp: casLive_def)
  qed
qed

lemma casLive_current:
  assumes "readLive CtxLive p b nm s = Ok (l, v)" and "sinv X H n d s"
    and "memM (svKV s') (Live p b nm) = memM (svKV s) (Live p b nm)"
  shows "fst (casLive CtxLive p b nm l' v s') = Ok ()"
proof -
  from readLive_at [OF assms(1)] have "v = 0 \<and> memM (svKV s) (Live p b nm) = None \<or>
      (\<exists>e. memM (svKV s) (Live p b nm) = Some e \<and> entVersion e = v \<and> v \<noteq> 0)"
  proof
    assume "v = 0 \<and> l = \<lparr>lpGeneration = 0, lpHighest = 0\<rparr>"
    with assms(1) sinvD(2) [OF assms(2), of "Live p b nm"] show ?thesis
      by (auto simp: readLive_def kvGet_def mem_Get_def split: option.splits sval.splits)
  qed (use sinvD(2) [OF assms(2), of "Live p b nm"] in auto)
  then show ?thesis
    using assms(3) by (auto simp: casLive_def kvPut_def mem_Put_def Let_def)
qed

lemma publish_read_ok:
  assumes "publish_read CtxLive p w s = Ok (current, version, existing)"
  shows "readLive CtxLive p (wrBucket w) (wrName w) s = Ok (current, version) \<and>
    (\<forall>old. existing = Some old \<longrightarrow> obj_at s (Object p (wrBucket w) (wrName w) (lpGeneration current)) = Some old) \<and>
    checkPreconditions (wrPreconditions w) existing (wrBucket w) (wrName w) False = None"
  using assms readGeneration_at [of p "wrBucket w" "wrName w" "lpGeneration current" s]
  by (auto simp: publish_read_def Let_def split: result.splits prod.splits if_splits option.splits)

subsection \<open>Every operation keeps the invariant\<close>

text \<open>What a write that succeeded leaves: the pointer at the new generation, its record and its content.\<close>

definition published :: "string \<Rightarrow> write_req \<Rightarrow> blob_ref \<Rightarrow> int \<Rightarrow> object \<Rightarrow> 'h svc \<Rightarrow> bool" where
  "published p w ref highest ob s \<longleftrightarrow>
     ob = with_generation (obGeneration ob) (new_object w ref (svNow s)) \<and> highest < obGeneration ob \<and> 0 \<le> obGeneration ob \<and>
     obj_at s (Object p (wrBucket w) (wrName w) (obGeneration ob)) = Some (stored_object ob) \<and>
     (\<exists>e. memM (svKV s) (Live p (wrBucket w) (wrName w)) = Some e \<and>
        entVal e = SLive \<lparr>lpGeneration = obGeneration ob, lpHighest = obGeneration ob\<rparr>)"

lemma published_notify [simp]: "published p w ref h ob (notify kind o1 s) = published p w ref h ob s"
  by (cases "svBus s") (simp_all add: notify_def published_def obj_at_def)

lemma obj_at_frame: "memM (svKV s') k = memM (svKV s) k \<Longrightarrow> obj_at s' k = obj_at s k"
  by (simp add: obj_at_def)

text \<open>Names the records keep: UTF-8, or among the exempt ones and not yet taken.\<close>

definition nameable :: "(string \<times> string) set \<Rightarrow> string \<Rightarrow> write_req \<Rightarrow> 'h svc \<Rightarrow> bool" where
  "nameable X p w s \<longleftrightarrow> utf8 (wrBucket w) \<and> utf8 (wrName w) \<or> (wrBucket w, wrName w) \<in> X \<and> (\<forall>g\<ge>0. obj_at s (Object p (wrBucket w) (wrName w) g) = None)"

lemma nameable_kv: "svKV s1 = svKV s \<Longrightarrow> nameable X p w s1 = nameable X p w s"
  by (simp add: nameable_def obj_at_def)

text \<open>Where every name is UTF-8, any write is: one whose names are not finds no record of them.\<close>

lemma any_nameable:
  assumes "sinv {} H n d s" and "slash_free p" and "slash_free (wrBucket w)"
  shows "nameable {(wrBucket w, wrName w)} p w s"
proof -
  have "utf8 (wrBucket w) \<and> utf8 (wrName w)" if "obj_at s (Object p (wrBucket w) (wrName w) g) = Some ob" "0 \<le> g" for g ob
    using obj_key [OF assms(1) that(1) assms(2,3) that(2)] by simp
  then show ?thesis by (metis nameable_def insertI1 option.exhaust)
qed

lemma sinv_exempt:
  assumes "sinv {} H n d s"
  shows "sinv X H n d s"
proof -
  have "obj_ok X H k ob" if "obj_at s k = Some ob" for k ob
    using sinvD(3) [OF assms that] unfolding obj_ok_def by blast
  with assms show ?thesis unfolding sinv_def by blast
qed

lemma publish_write_post:
  assumes inv: "sinv X H (n + 5) settled s" and n: "n < 2 ^ 61" and ref: "ref_ok H ref s"
    and free: "slash_free p" "slash_free (wrBucket w)" and nm: "nameable X p w s"
    and read: "publish_read CtxLive p w s = Ok (current, version, existing)"
    and wr: "publish_write CtxLive p w ref v current version existing s = (r, s')"
  shows "sinv X H n settled s' \<and> (case r of
      Err e \<Rightarrow> s' = s \<and> e \<noteq> errRaceLost \<and>
        fst (claimGeneration CtxLive p (new_object w ref (svNow s)) (nextGeneration (svNow s) (lpHighest current)) s) = Err e
    | Ok ob \<Rightarrow> published p w ref (lpHighest current) ob s')"
proof -
  note R = publish_read_ok [OF read]
  let ?o = "new_object w ref (svNow s)"
  have hi: "0 \<le> lpHighest current" "0 \<le> lpGeneration current" "lpHighest current < max_i64" using readLive_nonneg [OF inv] R by blast+
  have nm': "utf8 (wrBucket w) \<and> utf8 (wrName w) \<or> (wrBucket w, wrName w) \<in> X" using nm by (auto simp: nameable_def)
  have inv3: "sinv X H (n + 3 + 2) settled s" using inv by (simp add: add.commute)
  show ?thesis
  proof (cases "claimGeneration CtxLive p ?o (nextGeneration (svNow s) (lpHighest current)) s")
    case (Pair rc s1)
    show ?thesis
    proof (cases rc)
      case (Err e)
      with Pair have "s1 = s" "e \<noteq> errRaceLost" by (auto simp: claimGeneration_def dest: claim_loop_err claim_loop_not_race)
      with Pair Err wr sinv_mono [OF inv, of n] show ?thesis by (auto simp: publish_write_def Let_def)
    next
      case (Ok g)
      let ?ob = "with_generation g ?o" and ?kn = "Object p (wrBucket w) (wrName w) g" and ?kl = "Live p (wrBucket w) (wrName w)"
      have obg: "obGeneration ?ob = g" by (simp add: with_generation_def Let_def)
      obtain r2 s2 where ret: "retainBlob CtxLive (rfSHA256 ref) s1 = (r2, s2)" by force
      have CR: "r2 = Ok ()" "sinv X H (n + 3) settled s2" "0 \<le> g" "nextGeneration (svNow s) (lpHighest current) \<le> g"
        "memM (svKV s) ?kn = None" "obj_at s2 ?kn = Some (stored_object ?ob)"
        "\<And>k ob. obj_at s k = Some ob \<Longrightarrow> obj_at s2 k = Some ob" "memM (svKV s2) ?kl = memM (svKV s) ?kl" "svNow s2 = svNow s" "g < max_i64"
        using claim_retain_inv [OF inv3 _ ref free nm' hi(1,3) Pair [unfolded Ok] ret] n Live_neq_Object [OF free free] by auto
      obtain r3 s3 where cas: "casLive CtxLive p (wrBucket w) (wrName w) \<lparr>lpGeneration = g, lpHighest = g\<rparr> version s2 = (r3, s3)"
        by force
      have r3: "r3 = Ok ()" using casLive_current [OF conjunct1 [OF R] inv CR(8)] cas by (metis fst_conv)
      have C: "sinv X H (n + 2) settled s3" "\<And>k. k \<noteq> ?kl \<Longrightarrow> memM (svKV s3) k = memM (svKV s2) k" "svNow s3 = svNow s2"
        "\<exists>e. memM (svKV s3) ?kl = Some e \<and> entVal e = SLive \<lparr>lpGeneration = g, lpHighest = g\<rparr>"
        using casLive_inv [OF _ _ CR(3,10) cas, of X H "n + 2"] CR(2) n r3 by (auto simp: numeral_3_eq_3)
      have "?kn \<noteq> ?kl" using Live_neq_Object [OF free free] by metis
      then have new3: "obj_at s3 ?kn = Some (stored_object ?ob)" using C(2) CR(6) obj_at_frame by metis
      have pub3: "published p w ref (lpHighest current) ?ob s3"
        using C(3,4) CR(3,4,9) new3 obg nextGeneration_above [OF hi(1,3), of "svNow s"]
        by (auto simp: published_def)
      show ?thesis
      proof (cases "if \<not> v then existing else None")
        case None
        with Pair Ok ret cas r3 wr CR(1) sinv_mono [OF C(1), of n] pub3 show ?thesis
          by (auto simp: publish_write_def Let_def)
      next
        case (Some old)
        then have ex: "existing = Some old" by (auto split: if_splits)
        let ?k = "Object p (wrBucket w) (wrName w) (lpGeneration current)"
        have at: "obj_at s ?k = Some old" using R ex by blast
        have key: "obBucket old = wrBucket w" "obName old = wrName w" "obGeneration old = lpGeneration current"
          using obj_key [OF inv at free hi(2)] nm at hi(2) by (auto simp: nameable_def)
        have "?k \<noteq> ?kl" using Live_neq_Object [OF free free] by metis
        then have at3: "obj_at s3 (Object p (obBucket old) (obName old) (obGeneration old)) = Some old"
          using C(2) CR(7) [OF at] key by (simp add: obj_at_def)
        obtain r4 s4 where dr: "dropGeneration CtxLive p old s3 = (r4, s4)" by force
        have D: "sinv X H n settled s4" "r4 = Ok ()" "svNow s4 = svNow s3"
          "\<And>k. k \<noteq> ?k \<Longrightarrow> k \<noteq> BlobRefs (obBlob old) \<Longrightarrow> memM (svKV s4) k = memM (svKV s3) k"
          using dropGeneration_inv [OF C(1) _ at3 dr] n key by auto
        have "?kn \<noteq> ?k" using CR(5) at by (auto simp: obj_at_def)
        then have "published p w ref (lpHighest current) ?ob s4"
          using pub3 D(3,4) obg \<open>?k \<noteq> ?kl\<close> obj_at_frame [of s4 ?kn s3] by (simp add: published_def)
        with Pair Ok ret cas r3 wr Some dr CR(1) D(1,2) show ?thesis by (auto simp: publish_write_def Let_def)
      qed
    qed
  qed
qed

lemma dead_get: "cx \<noteq> CtxLive \<Longrightarrow> kvGet cx k s = Err (ErrCtx cx)"
  by (simp add: kvGet_def mem_Get_def)

lemma dead_ops:
  assumes "cx \<noteq> CtxLive"
  shows "\<exists>e. bucket_of cx p b s = Err e" "\<exists>e. readLive cx p b nm s = Err e" "\<exists>e. resolveLive cx p b nm s = Err e"
  by (simp_all add: dead_get [OF assms] bucket_of_def readLive_def resolveLive_def maxResolveAttempts_def numeral_eq_Suc)

text \<open>Reads depend on the metadata only.\<close>

lemma reads_kv:
  assumes "svKV s1 = svKV s"
  shows "readLive cx p b nm s1 = readLive cx p b nm s"
    and "readGeneration cx p b nm g s1 = readGeneration cx p b nm g s"
    and "bucket_of cx p b s1 = bucket_of cx p b s"
  using assms by (simp_all add: readLive_def readGeneration_def readGenerationVersion_def bucket_of_def kvGet_def)

lemma publish_read_kv: "svKV s1 = svKV s \<Longrightarrow> publish_read cx p w s1 = publish_read cx p w s"
proof -
  assume "svKV s1 = svKV s"
  note kv = reads_kv [OF this]
  show ?thesis unfolding publish_read_def kv ..
qed

lemma publish_loop_post:
  assumes inv: "sinv X H (n + 5) settled s" and n: "n < 2 ^ 61" and ref: "ref_ok H ref s"
    and free: "slash_free p" "slash_free (wrBucket w)" and nm: "nameable X p w s"
  shows "publish_loop m quiet CtxLive p w ref v s = (r, s') \<Longrightarrow>
    sinv X H n settled s' \<and> (case r of Err e \<Rightarrow> s' = s | Ok ob \<Rightarrow> \<exists>current version existing.
      publish_read CtxLive p w s = Ok (current, version, existing) \<and> published p w ref (lpHighest current) ob s')"
proof (induction m)
  case 0
  then show ?case using sinv_mono [OF inv, of n] by auto
next
  case (Suc m)
  show ?case
  proof (cases "publish_read CtxLive p w s")
    case (Err e)
    then have "publish (quiet m) CtxLive p w ref v s = (Err e, s)" by (simp add: publish_def)
    with Suc sinv_mono [OF inv, of n] show ?thesis by (auto split: if_splits)
  next
    case (Ok x)
    then obtain current version existing where rd: "publish_read CtxLive p w s = Ok (current, version, existing)"
      by (cases x) auto
    obtain r1 s1 where wr: "publish_write CtxLive p w ref v current version existing s = (r1, s1)" by force
    have "publish (quiet m) CtxLive p w ref v s = (r1, s1)" using rd wr by (simp add: publish_def quiet_def)
    with publish_write_post [OF inv n ref free nm rd wr] Suc.prems rd show ?thesis
      by (cases r1) (auto split: if_splits)
  qed
qed

lemma publishRef_post:
  assumes inv: "sinv X H (n + 5) settled s" and n: "n < 2 ^ 61" and ref: "ref_ok H ref s"
    and free: "slash_free p" "slash_free (wrBucket w)" and nm: "nameable X p w s" and pub: "publishRef quiet cx p w ref s = (r, s')"
  shows "sinv X H n settled s' \<and> (case r of Err e \<Rightarrow> s' = s | Ok ob \<Rightarrow> \<exists>current version existing.
      publish_read CtxLive p w s = Ok (current, version, existing) \<and> published p w ref (lpHighest current) ob s')"
proof (cases "cx = CtxLive")
  case True
  show ?thesis
  proof (cases "bucket_of CtxLive p (wrBucket w) s")
    case (Err e)
    with pub True sinv_mono [OF inv, of n] show ?thesis by (auto simp: publishRef_def)
  next
    case (Ok x)
    with pub True publish_loop_post [OF inv n ref free nm] show ?thesis
      by (cases x) (auto simp: publishRef_def)
  qed
next
  case False
  with pub dead_ops(1) [OF False, of p "wrBucket w" s] sinv_mono [OF inv, of n] show ?thesis
    by (auto simp: publishRef_def)
qed

text \<open>Storing content adds a file and touches no metadata.\<close>

lemma sinv_blob_Put:
  assumes "sinv X H n d s"
  shows "sinv X H n d (s\<lparr>svBlobs := snd (blob_Put H cx c (svBlobs s))\<rparr>)"
proof -
  have eq: "obj_at (s\<lparr>svBlobs := b\<rparr>) = obj_at s" "refcount (s\<lparr>svBlobs := b\<rparr>) = refcount s"
    "refs (s\<lparr>svBlobs := b\<rparr>) = refs s" for b
    by (simp_all add: fun_eq_iff obj_at_def refcount_def refs_def)
  note D = sinvD [OF assms]
  show ?thesis
  proof (rule sinvI, simp_all only: eq)
    show "bsFiles (svBlobs (s\<lparr>svBlobs := snd (blob_Put H cx c (svBlobs s))\<rparr>)) a \<noteq> None" if "0 < refcount s a" for a
      using D(6) [OF that] blob_Put_keeps [of "svBlobs s" a] by fastforce
  qed (use D blob_wf_ops(2) in auto)
qed

definition hashes_ok :: "hashes \<Rightarrow> bool" where
  "hashes_ok H \<longleftrightarrow> collision_free H \<and> (\<forall>c. hSha256 H c \<noteq> '''')"

lemma store_content_post:
  assumes inv: "sinv X H n settled s" and H: "hashes_ok H" and st: "store_content H cx p w c s = (r, s')"
  shows "sinv X H n settled s' \<and> svKV s' = svKV s \<and> svNow s' = svNow s \<and>
    (\<forall>ref. r = Ok ref \<longrightarrow> ref = hashes_ref H c \<and> ref_ok H ref s' \<and> bsFiles (svBlobs s') (hSha256 H c) = Some c)"
proof (cases "cx = CtxLive")
  case True
  obtain rb bs where b: "blob_Put H cx c (svBlobs s) = (rb, bs)" by force
  have rb: "rb = Ok (hashes_ref H c)" using b True blob_Put_ref [of H c "svBlobs s"] by simp
  have inv': "sinv X H n settled (s\<lparr>svBlobs := bs\<rparr>)" using sinv_blob_Put [OF inv, of cx c] b by simp
  have cont: "bsFiles bs (hSha256 H c) = Some c"
    using blob_Put_content [OF sinvD(7) [OF inv], of c] H b True by (simp add: hashes_ok_def)
  have "ref_ok H (hashes_ref H c) (s\<lparr>svBlobs := bs\<rparr>)"
    using cont H by (auto simp: ref_ok_def hashes_ref_def hashes_ok_def collision_free_def dest: injD)
  with st b rb inv inv' cont show ?thesis
    by (auto simp: store_content_def split: result.splits prod.splits if_splits)
next
  case False
  with st dead_ops(1) [OF False, of p "wrBucket w" s] inv show ?thesis by (auto simp: store_content_def)
qed

lemma WriteObject_post:
  assumes inv: "sinv X H (n + 5) settled s" and n: "n < 2 ^ 61" and H: "hashes_ok H"
    and free: "slash_free p" "slash_free (wrBucket w)" and nm: "nameable X p w s" and wr: "WriteObject H quiet cx p w c s = (r, s')"
  shows "sinv X H n settled s' \<and> (case r of Err e \<Rightarrow> svKV s' = svKV s | Ok ob \<Rightarrow> \<exists>current version existing.
      publish_read CtxLive p w s = Ok (current, version, existing) \<and>
      published p w (hashes_ref H c) (lpHighest current) ob s')"
proof -
  obtain r1 s1 where st: "store_content H cx p w c s = (r1, s1)" by force
  note S = store_content_post [OF inv H st]
  have rd: "publish_read CtxLive p w s1 = publish_read CtxLive p w s"
    using S publish_read_kv by blast
  show ?thesis
  proof (cases r1)
    case (Err e)
    then have "r = Err e" "s' = s1" using st wr by (simp_all add: WriteObject_def)
    with S sinv_mono [of X H "n + 5" settled s1 n] show ?thesis by simp
  next
    case (Ok ref)
    then have pub: "publishRef quiet cx p w ref s1 = (r, s')" using st wr by (simp add: WriteObject_def)
    have ref: "ref = hashes_ref H c" "ref_ok H ref s1" using S Ok by auto
    have nm1: "nameable X p w s1" using nm nameable_kv [of s1 s X p w] S by blast
    show ?thesis
      using publishRef_post [OF conjunct1 [OF S] n ref(2) free nm1 pub] S ref(1) rd by (cases r) auto
  qed
qed

text \<open>What a successful read returns is a stored record.\<close>

lemma readGeneration_ok:
  assumes "readGeneration cx p b nm g s = Ok ob"
  shows "cx = CtxLive \<and> obj_at s (Object p b nm g) = Some ob"
proof (cases "cx = CtxLive")
  case True
  with assms readGeneration_at show ?thesis by blast
next
  case False
  with assms show ?thesis by (simp add: readGeneration_def readGenerationVersion_def dead_get)
qed

lemma readGeneration_at_ok:
  "obj_at s (Object p b nm g) = Some ob \<Longrightarrow> readGeneration CtxLive p b nm g s = Ok ob"
  by (auto simp: obj_at_def readGeneration_def readGenerationVersion_def kvGet_def mem_Get_def
      split: option.splits sval.splits)

lemma resolve_ok:
  assumes "resolveLive cx p b nm s = Ok (Some ob, v)"
  shows "cx = CtxLive \<and> v \<noteq> 0 \<and> (\<exists>e l. memM (svKV s) (Live p b nm) = Some e \<and> entVal e = SLive l \<and> entVersion e = v \<and>
    obj_at s (Object p b nm (lpGeneration l)) = Some ob)"
proof -
  have "cx = CtxLive" using dead_ops(3) [of cx p b nm s] assms by auto
  moreover have "resolve_loop m CtxLive p b nm s = Ok (Some ob, v) \<Longrightarrow>
      \<exists>l. readLive CtxLive p b nm s = Ok (l, v) \<and> v \<noteq> 0 \<and> readGeneration CtxLive p b nm (lpGeneration l) s = Ok ob" for m
    by (induction m) (auto split: result.splits prod.splits if_splits)
  ultimately obtain l where "readLive CtxLive p b nm s = Ok (l, v)" "v \<noteq> 0"
      "readGeneration CtxLive p b nm (lpGeneration l) s = Ok ob"
    using assms unfolding resolveLive_def by blast
  with readLive_at readGeneration_ok \<open>cx = CtxLive\<close> show ?thesis by blast
qed

lemma GetObjectIf_ok:
  assumes "GetObjectIf cx p b nm g pc s = Ok ob"
  shows "ob = zeroObject \<and> isSet pc \<or> cx = CtxLive \<and> (\<exists>h. obj_at s (Object p b nm h) = Some ob)"
  using assms readGeneration_ok [of cx p b nm _ s ob] resolve_ok [of cx p b nm s ob]
  by (auto simp: GetObjectIf_def Let_def split: option.splits result.splits prod.splits if_splits)

lemma GetObject_ok: "GetObject cx p b nm g s = Ok ob \<Longrightarrow> cx = CtxLive \<and> (\<exists>h. obj_at s (Object p b nm h) = Some ob)"
  using GetObjectIf_ok [of cx p b nm g noPreconditions s ob] by (auto simp: GetObject_def isSet_def noPreconditions_def)

lemma CopyObject_inv:
  assumes inv: "sinv {} H (n + 5) settled s" and n: "n < 2 ^ 61" and free: "slash_free p" "slash_free (wrBucket w)" and nm: "utf8 (wrBucket w)" "utf8 (wrName w)"
    and cp: "CopyObject quiet cx p src w s = (r, s')"
  shows "sinv {} H n settled s'"
proof (cases "GetObject cx p (srBucket src) (srName src) (srGeneration src) s")
  case (Err e)
  with cp sinv_mono [OF inv, of n] show ?thesis by (auto simp: CopyObject_def)
next
  case (Ok src0)
  have "\<exists>k. obj_at s k = Some src0" using GetObject_ok [OF Ok] by blast
  then obtain k where k: "obj_at s k = Some src0" by blast
  obtain c where "bsFiles (svBlobs s) (obBlob src0) = Some c" using ref_content [OF inv k] by blast
  moreover have "obj_ok {} H k src0" using sinvD(3) [OF inv k] .
  ultimately have ref: "ref_ok H \<lparr>rfSHA256 = obBlob src0, rfSize = obSize src0, rfCRC32C = obCRC32C src0, rfMD5 = obMD5 src0\<rparr> s"
    (is "ref_ok H ?ref s") by (auto simp: ref_ok_def obj_ok_def)
  let ?dst = "w\<lparr>wrContentType := (if wrContentType w = '''' then obContentType src0 else wrContentType w),
                wrMetadata := (if wrMetadata w = None then obMetadata src0 else wrMetadata w)\<rparr>"
  show ?thesis
  proof (cases "bucket_of cx p (wrBucket w) s")
    case (Err e)
    with cp Ok sinv_mono [OF inv, of n] show ?thesis by (auto simp: CopyObject_def)
  next
    case b: (Ok bk)
    have "publishRef quiet cx p ?dst ?ref s = (r, s')"
      using cp Ok b by (simp add: CopyObject_def Let_def)
    then show ?thesis using publishRef_post [OF inv n ref free(1), of ?dst cx r s'] free(2) nm by (simp add: nameable_def)
  qed
qed

lemma ComposeObject_inv:
  assumes inv: "sinv {} H (n + 5) settled s" and n: "n < 2 ^ 61" and H: "hashes_ok H" and free: "slash_free p" "slash_free (wrBucket w)" and nm: "utf8 (wrBucket w)" "utf8 (wrName w)"
    and cp: "ComposeObject H quiet cx p srcs w s = (r, s')"
  shows "sinv {} H n settled s'"
proof -
  have wr: "sinv {} H n settled s1" if "wrBucket w1 = wrBucket w" "wrName w1 = wrName w" "WriteObject H quiet cx p w1 c s = (r1, s1)" for w1 c r1 s1
    using WriteObject_post [OF inv n H free(1) _ _ that(3)] free(2) nm that(1,2) by (simp add: nameable_def)
  show ?thesis
    using cp sinv_mono [OF inv, of n]
    by (auto simp: ComposeObject_def split: if_splits result.splits intro: wr [rotated 2])
qed

lemma UpdateObject_inv:
  assumes inv: "sinv {} H (Suc n) settled s" and n: "n < 2 ^ 61" and free: "slash_free p" "slash_free b"
    and up: "UpdateObject cx p b nm patch s = (r, s')"
  shows "sinv {} H n settled s'"
proof (cases "cx = CtxLive")
  case False
  with up dead_ops(2) [OF False, of p b nm s] sinv_mono [OF inv, of n] show ?thesis by (auto simp: UpdateObject_def)
next
  case True
  note base = sinv_mono [OF inv, of n]
  show ?thesis
  proof (cases "readLive CtxLive p b nm s")
    case (Err e)
    with up True base show ?thesis by (auto simp: UpdateObject_def)
  next
    case (Ok x)
    obtain l v where x: "x = (l, v)" by force
    have g: "0 \<le> lpGeneration l" using readLive_nonneg [OF inv, of p b nm l v] Ok x by blast
    show ?thesis
    proof (cases "readGenerationVersion CtxLive p b nm (lpGeneration l) s")
      case (Err e)
      with up True base Ok x show ?thesis by (auto simp: UpdateObject_def split: if_splits)
    next
      case obv: (Ok y)
      obtain ob ov where y: "y = (ob, ov)" by force
      let ?k = "Object p b nm (lpGeneration l)"
      have at: "obj_at s ?k = Some ob"
        using readGeneration_at [of p b nm "lpGeneration l" s ob] obv y by (simp add: readGeneration_def)
      have key: "obBucket ob = b" "obName ob = nm" "utf8 b" "utf8 nm" "obGeneration ob = lpGeneration l"
        using obj_key [OF inv at free g] by auto
      let ?o1 = "ob\<lparr>obContentType := (if wrContentType patch \<noteq> '''' then wrContentType patch else obContentType ob),
                      obMetadata := (if wrMetadata patch \<noteq> None then wrMetadata patch else obMetadata ob),
                      obMetageneration := i64 (obMetageneration ob + 1), obUpdated := svNow s\<rparr>"
      let ?o2 = "?o1\<lparr>obETag := etag ?o1\<rparr>"
      obtain r1 s1 where put: "kvPut CtxLive ?k (SObject (stored_object ?o2)) ov s = (r1, s1)" by force
      have ok: "obj_ok {} H ?k (stored_object ?o2)" and blob: "obBlob (stored_object ?o2) = obBlob ob"
        using sinvD(3) [OF inv at] key by (auto simp: obj_ok_def stored_object_def)
      have "sinv {} H n settled s1"
      proof (cases r1)
        case (Err e)
        with put kvPut_err base show ?thesis by fastforce
      next
        case (Ok nv)
        show ?thesis by (rule kvPut_same_blob [OF inv put [unfolded Ok] _ at blob ok]) (use n in simp)
      qed
      with up True Ok x obv y base put key show ?thesis
        by (auto simp: UpdateObject_def Let_def split: if_splits option.splits result.splits store_error.splits)
    qed
  qed
qed

lemma DeleteObject_inv:
  assumes inv: "sinv {} H (n + 3) settled s" and n: "n < 2 ^ 61" and free: "slash_free p" "slash_free b"
    and del: "DeleteObject cx p b nm pc s = (r, s')"
  shows "sinv {} H n settled s'"
proof -
  note base = sinv_mono [OF inv, of n, simplified]
  consider "s' = s" | ob v bkt bv s1 where "resolveLive cx p b nm s = Ok (Some ob, v)" "bucket_of cx p b s = Ok (bkt, bv)"
    "kvDelete cx (Live p b nm) v s = (Ok (), s1)"
    "if bkVersioning bkt then s' = notify EventArchived ob s1
     else \<exists>r2 s2. dropGeneration cx p ob s1 = (r2, s2) \<and> (s' = s2 \<or> s' = notify EventDeleted ob s2)"
    using del kvDelete_err [of cx "Live p b nm"]
    by (auto simp: DeleteObject_def split: result.splits prod.splits option.splits store_error.splits if_splits)
  then show ?thesis
  proof cases
    case 2
    obtain e l where res: "cx = CtxLive" "memM (svKV s) (Live p b nm) = Some e" "entVal e = SLive l"
      "obj_at s (Object p b nm (lpGeneration l)) = Some ob" using resolve_ok [OF 2(1)] by blast
    have g: "0 \<le> lpGeneration l" using sinvD(4) [OF inv res(2,3)] by blast
    have key: "obBucket ob = b" "obName ob = nm" "utf8 b" "utf8 nm" "obGeneration ob = lpGeneration l"
      using obj_key [OF inv res(4) free g] by auto
    have inv1: "sinv {} H (n + 2) settled s1"
      by (rule kvDelete_plain [OF _ 2(3)]) (use inv in \<open>auto simp: numeral_3_eq_3\<close>)
    have "obj_at s1 (Object p b nm (lpGeneration l)) = Some ob"
      using res(4) obj_at_del [of s1 s "Live p b nm"] kvDelete_ok [OF 2(3)] Live_neq_Object [OF free free] by metis
    then have at1: "obj_at s1 (Object p (obBucket ob) (obName ob) (obGeneration ob)) = Some ob" using key by simp
    show ?thesis
    proof (cases "bkVersioning bkt")
      case True
      with 2(4) sinv_mono [OF inv1, of n] show ?thesis by simp
    next
      case False
      then obtain r2 s2 where "dropGeneration CtxLive p ob s1 = (r2, s2)" "s' = s2 \<or> s' = notify EventDeleted ob s2"
        using 2(4) res(1) by auto
      with dropGeneration_inv [OF inv1 _ at1] n show ?thesis by auto
    qed
  qed (use base in simp)
qed

text \<open>Losing entries other than counts.\<close>

lemma sinv_shrink:
  assumes inv: "sinv X H n d s"
    and sub: "\<And>k e. memM (svKV s') k = Some e \<Longrightarrow> memM (svKV s) k = Some e"
    and rc: "\<And>sha. memM (svKV s') (BlobRefs sha) = memM (svKV s) (BlobRefs sha)"
    and keep: "svBlobs s' = svBlobs s" "svNow s' = svNow s"
  shows "sinv X H n d s'"
proof (rule sinvI)
  note D = sinvD [OF inv]
  have cnt: "refcount s' sha = refcount s sha" for sha by (simp add: refcount_def rc)
  have at: "obj_at s k = Some ob" if "obj_at s' k = Some ob" for k ob
    using that sub by (auto simp: obj_at_def split: option.splits)
  show "finite (dom (memM (svKV s')))" by (rule finite_subset [OF _ D(1)]) (use sub in blast)
  show "int (card (refs s' sha)) \<le> refcount s' sha + d sha" for sha
    unfolding cnt by (rule refs_le [OF inv]) (use at in \<open>auto simp: refs_def\<close>)
  show "bsFiles (svBlobs s') sha \<noteq> None" if "0 < refcount s' sha" for sha using that D(6) cnt keep by simp
  show "obj_ok X H k ob" if "obj_at s' k = Some ob" for k ob using D(3) at that by blast
  show "0 < entVersion e \<and> entVersion e + n < 2 ^ 64" if "memM (svKV s') k = Some e" for k e using D(2) sub that by blast
  show "0 \<le> lpGeneration l \<and> 0 \<le> lpHighest l \<and> lpHighest l < max_i64" if "memM (svKV s') k = Some e" "entVal e = SLive l" for k e l
    using D(4) sub that by blast
qed (use keep sinvD(7,8) [OF inv] in auto)

lemma kvDelete_keep:
  assumes "sinv X H n d s" and "\<And>sha. k \<noteq> BlobRefs sha"
  shows "sinv X H n d (snd (kvDelete cx k m s))"
proof (cases "kvDelete cx k m s")
  case (Pair r s')
  show ?thesis
  proof (cases r)
    case (Err e)
    with Pair kvDelete_err assms(1) show ?thesis by fastforce
  next
    case (Ok u)
    note K = kvDelete_ok [OF Pair [unfolded Ok]]
    have "sinv X H n d s'"
      by (rule sinv_shrink [OF assms(1)]) (use K assms(2) [symmetric] in \<open>auto split: if_splits\<close>)
    with Pair show ?thesis by simp
  qed
qed

lemma kvPut_plain_any:
  assumes "sinv X H (Suc n) d s" and "n < 2 ^ 63" and "\<And>sha. k \<noteq> BlobRefs sha" and "\<And>ob. v \<noteq> SObject ob" and "\<And>l. v \<noteq> SLive l"
  shows "sinv X H n d (snd (kvPut cx k v m s))"
proof (cases "kvPut cx k v m s")
  case (Pair r s')
  show ?thesis
  proof (cases r)
    case (Err e)
    with Pair kvPut_err sinv_mono [OF assms(1), of n] show ?thesis by fastforce
  next
    case (Ok nv)
    have "sinv X H n d s'" by (rule kvPut_plain [OF assms(1) Pair [unfolded Ok]]) (use assms in auto)
    with Pair show ?thesis by simp
  qed
qed

lemma put_case_snd:
  "snd (case x of (Err (ErrCtx c), s1) \<Rightarrow> (f c, s1) | (Err ErrNotFound, s1) \<Rightarrow> (a1, s1) | (Err ErrVersionMismatch, s1) \<Rightarrow> (a2, s1)
     | (Err ErrInvalidPageToken, s1) \<Rightarrow> (a3, s1) | (Ok m, s1) \<Rightarrow> (g m, s1)) = snd x"
  by (cases x) (auto split: result.split store_error.split)

lemma bucket_ops_inv:
  assumes inv: "sinv X H (n + 2) settled s" and n: "n < 2 ^ 61"
  shows "sinv X H n settled (snd (CreateBucket cx b s))"
    and "sinv X H n settled (snd (UpdateBucket cx p nm patch s))"
    and "sinv X H n settled (snd (DeleteBucket cx p nm s))"
    and "sinv X H n settled (snd (SetIAMPolicy cx p nm ob pol s))"
proof -
  note base = sinv_mono [OF inv, of n, simplified]
  have put1: "sinv X H (Suc n) settled (snd (kvPut cx k v m s))"
    if "\<And>sha. k \<noteq> BlobRefs sha" "\<And>ob. v \<noteq> SObject ob" "\<And>l. v \<noteq> SLive l" for k v m
    by (rule kvPut_plain_any) (use inv n that in auto)
  have put0: "sinv X H n settled s1" if "kvPut cx k v m s = (r, s1)"
    "\<And>sha. k \<noteq> BlobRefs sha" "\<And>ob. v \<noteq> SObject ob" "\<And>l. v \<noteq> SLive l" for k v m r s1
    using sinv_mono [OF put1 [OF that(2-4)], of n m] that(1) by (metis le_add2 plus_1_eq_Suc snd_conv)
  show "sinv X H n settled (snd (CreateBucket cx b s))"
  proof -
    have *: "sinv X H n settled s2 \<and> sinv X H n settled (snd (kvDelete cx (BucketIndex c) 0 s2))"
      if "kvPut cx (BucketIndex c) (SProject q) 0 s = (r1, s1)" "kvPut cx (Bucket q c) (SBucket bk) 0 s1 = (r2, s2)" for c q r1 s1 bk r2 s2
    proof -
      have "sinv X H (Suc n) settled s1" using put1 [of "BucketIndex c" "SProject q" 0] that(1) by simp
      then have "sinv X H n settled s2" using kvPut_plain_any [of X H n settled s1 "Bucket q c" "SBucket bk" cx 0] that(2) n by simp
      then show ?thesis by (simp add: kvDelete_keep)
    qed
    let ?b = "b\<lparr>bkLocation := orDefault (bkLocation b) DefaultLocation,
                  bkStorageClass := orDefault (bkStorageClass b) DefaultStorageClass,
                  bkMetageneration := 1, bkCreated := svNow s, bkUpdated := svNow s\<rparr>"
    obtain r1 s1 where p1: "kvPut cx (BucketIndex (bkName b)) (SProject (bkProject b)) 0 s = (r1, s1)" by force
    obtain r2 s2 where p2: "kvPut cx (Bucket (bkProject b) (bkName b)) (SBucket ?b) 0 s1 = (r2, s2)" by force
    have "sinv X H n settled s1" by (rule put0 [OF p1]) simp_all
    with * [OF p1 p2] show ?thesis
      using base p1 p2
      by (cases r1; cases r2)
        (auto simp: CreateBucket_def Let_def split: option.split store_error.split)
  qed
  have put2: "sinv X H n settled (snd (kvPut cx k v m s))"
    if "\<And>sha. k \<noteq> BlobRefs sha" "\<And>ob. v \<noteq> SObject ob" "\<And>l. v \<noteq> SLive l" for k v m
    using put0 [OF prod.collapse [symmetric] that] .
  show "sinv X H n settled (snd (UpdateBucket cx p nm patch s))"
  proof (cases "bucket_of cx p nm s")
    case (Ok x)
    then show ?thesis
      using base by (cases x) (simp add: UpdateBucket_def Let_def put_case_snd put2)
  qed (use base in \<open>simp add: UpdateBucket_def\<close>)
  show "sinv X H n settled (snd (SetIAMPolicy cx p nm ob pol s))"
  proof (cases "bucket_of cx p nm s")
    case (Ok x)
    then show ?thesis
      using base by (simp add: SetIAMPolicy_def Let_def put_case_snd put2 split: result.split store_error.split prod.split)
  qed (use base in \<open>simp add: SetIAMPolicy_def\<close>)
  have del: "sinv X H n settled s1 \<and> sinv X H n settled (snd (kvDelete cx (BucketIndex nm) 0 s1))"
    if "kvDelete cx (Bucket p nm) 0 s = (r, s1)" for r s1
    using kvDelete_keep [OF base, of "Bucket p nm" cx 0] that by (auto intro: kvDelete_keep)
  obtain r1 s1 where d1: "kvDelete cx (Bucket p nm) 0 s = (r1, s1)" by force
  obtain r2 s2 where d2: "kvDelete cx (BucketIndex nm) 0 s1 = (r2, s2)" by force
  from del [OF d1] d2 have "sinv X H n settled s1" "sinv X H n settled s2" by auto
  with base d1 d2 show "sinv X H n settled (snd (DeleteBucket cx p nm s))"
    by (cases r1; cases r2)
      (simp_all add: DeleteBucket_def split: result.split store_error.split prod.split)
qed

text \<open>A reset: of one project it loses entries, of all it loses everything.\<close>

lemma drop_claims_inv:
  "sinv X H n settled s \<Longrightarrow> \<forall>kv\<in>set kvs. \<forall>sha. kvKey kv \<noteq> BlobRefs sha \<Longrightarrow> sinv X H n settled (snd (drop_claims cx p kvs s))"
proof (induction kvs arbitrary: s)
  case (Cons kv kvs)
  obtain r s1 where d: "kvDelete cx (kvKey kv) 0 s = (r, s1)" by force
  have "sinv X H n settled s1" using kvDelete_keep [of X H n settled s "kvKey kv" cx 0] Cons.prems d by simp
  with Cons d show ?case by (cases r) auto
qed simp

lemma kvKey_kv_at: "kvKey (kv_at m k) = k"
  by (simp add: kv_at_def split: option.split)

lemma list_scan_keys:
  "list_scan s pfx lim ks out = (kvs, tok) \<Longrightarrow> \<forall>kv\<in>set out. prefix pfx (kvKey kv) \<Longrightarrow> \<forall>kv\<in>set kvs. prefix pfx (kvKey kv)"
proof (induction ks arbitrary: out)
  case (Cons k ks)
  show ?case
  proof (cases "prefix pfx k \<and> \<not> (0 < lim \<and> int (length out) = lim)")
    case True
    with Cons.prems have "list_scan s pfx lim ks (out @ [kv_at s k]) = (kvs, tok)" by simp
    with True Cons.IH Cons.prems(2) show ?thesis by (simp add: kvKey_kv_at)
  qed (use Cons.prems in \<open>auto split: if_splits\<close>)
qed auto

lemma mem_List_keys: "mem_List cx pfx lim tok m = Ok (kvs, nxt) \<Longrightarrow> kv \<in> set kvs \<Longrightarrow> prefix pfx (kvKey kv)"
  by (auto simp: mem_List_def Let_def dest: list_scan_keys split: if_splits result.splits)

lemma Reset_inv:
  assumes inv: "sinv X H n settled s"
  shows "sinv X H n settled (snd (Reset cx p s))"
proof -
  obtain r m where rs: "mem_Reset cx (if p \<noteq> '''' then ProjectPrefix p else '''') (svKV s) = (r, m)" by force
  show ?thesis
  proof (cases r)
    case (Err e)
    then have "m = svKV s" using rs by (auto simp: mem_Reset_def split: if_splits)
    with Err rs inv show ?thesis by (simp add: Reset_def)
  next
    case (Ok u)
    show ?thesis
    proof (cases "p = ''''")
      case True
      then have "m = NewMemory" using rs Ok by (auto simp: mem_Reset_def split: if_splits)
      then have "sinv X H n settled (s\<lparr>svKV := m, svBlobs := blob_Reset (svBlobs s)\<rparr>)"
        using sinvD(7,8) [OF inv] by (intro sinvI) (auto simp: NewMemory_def obj_at_def refs_def refcount_def blob_wf_ops)
      with True Ok rs show ?thesis by (simp add: Reset_def)
    next
      case False
      have inv1: "sinv X H n settled (s\<lparr>svKV := m\<rparr>)"
        by (rule sinv_shrink [OF inv])
          (use rs Ok False in \<open>auto simp: mem_Reset_def ProjectPrefix_def BlobRefs_def split: if_splits\<close>)
      have "kvKey kv \<noteq> BlobRefs sha" if "mem_List cx ''bx/'' 0 '''' m = Ok (kvs, nxt)" "kv \<in> set kvs" for kvs nxt kv sha
        using mem_List_keys [OF that] by (auto simp: BlobRefs_def)
      with drop_claims_inv [OF inv1] False Ok rs inv1 show ?thesis
        by (auto simp: Reset_def dropBucketClaims_def Let_def split: result.split)
    qed
  qed
qed

subsection \<open>Reachable states\<close>

definition New_svc :: "string \<Rightarrow> ('h, payload) bus option \<Rightarrow> time \<Rightarrow> 'h svc" where
  "New_svc root bus now = \<lparr>svKV = NewMemory, svBlobs = New_blobs root, svNow = now, svBus = bus\<rparr>"

text \<open>No key is about to run out of versions.\<close>

definition roomy :: "'h svc \<Rightarrow> bool" where
  "roomy s \<longleftrightarrow> (\<forall>k e. memM (svKV s) k = Some e \<longrightarrow> entVersion e + 5 < 2 ^ 64)"

text \<open>
  What clients can do, one call after another, in any order, with any arguments; projects and
  buckets have no slash in their names, and the names of the objects written and of their buckets are UTF-8.  A call finds its context live
  or ended and so it stays for the call.  The clock moves between calls and never reads before 1970.

  Of the three restrictions the code needs every one.  A write that loses the race for the live pointer leaves its record
  behind after giving its reference up, and so does one whose context ends between its two writes; and the record of a name that is
  not UTF-8 holds another name, so that \<open>dropGeneration\<close> removes another key.
\<close>

inductive storage_run :: "hashes \<Rightarrow> 'h svc \<Rightarrow> bool" for H where
  start: "0 \<le> now \<Longrightarrow> storage_run H (New_svc root bus now)"
| tick: "storage_run H s \<Longrightarrow> 0 \<le> now \<Longrightarrow> storage_run H (s\<lparr>svNow := now, svBus := bus\<rparr>)"
| create_bucket: "storage_run H s \<Longrightarrow> roomy s \<Longrightarrow> storage_run H (snd (CreateBucket cx b s))"
| update_bucket: "storage_run H s \<Longrightarrow> roomy s \<Longrightarrow> storage_run H (snd (UpdateBucket cx p nm patch s))"
| delete_bucket: "storage_run H s \<Longrightarrow> roomy s \<Longrightarrow> storage_run H (snd (DeleteBucket cx p nm s))"
| set_iam: "storage_run H s \<Longrightarrow> roomy s \<Longrightarrow> storage_run H (snd (SetIAMPolicy cx p nm ob pol s))"
| reset: "storage_run H s \<Longrightarrow> storage_run H (snd (Reset cx p s))"
| write_object: "storage_run H s \<Longrightarrow> roomy s \<Longrightarrow> slash_free p \<Longrightarrow> slash_free (wrBucket w) \<Longrightarrow> utf8 (wrBucket w) \<Longrightarrow> utf8 (wrName w) \<Longrightarrow>
    storage_run H (snd (WriteObject H quiet cx p w c s))"
| copy_object: "storage_run H s \<Longrightarrow> roomy s \<Longrightarrow> slash_free p \<Longrightarrow> slash_free (wrBucket w) \<Longrightarrow> utf8 (wrBucket w) \<Longrightarrow> utf8 (wrName w) \<Longrightarrow>
    storage_run H (snd (CopyObject quiet cx p src w s))"
| compose_object: "storage_run H s \<Longrightarrow> roomy s \<Longrightarrow> slash_free p \<Longrightarrow> slash_free (wrBucket w) \<Longrightarrow> utf8 (wrBucket w) \<Longrightarrow> utf8 (wrName w) \<Longrightarrow>
    storage_run H (snd (ComposeObject H quiet cx p srcs w s))"
| update_object: "storage_run H s \<Longrightarrow> roomy s \<Longrightarrow> slash_free p \<Longrightarrow> slash_free b \<Longrightarrow>
    storage_run H (snd (UpdateObject cx p b nm patch s))"
| delete_object: "storage_run H s \<Longrightarrow> roomy s \<Longrightarrow> slash_free p \<Longrightarrow> slash_free b \<Longrightarrow>
    storage_run H (snd (DeleteObject cx p b nm pc s))"

lemma sinv_room: "sinv {} H 0 settled s \<Longrightarrow> roomy s \<Longrightarrow> n \<le> 5 \<Longrightarrow> sinv {} H n settled s"
proof (rule sinvI)
  assume a: "sinv {} H 0 settled s" "roomy s" "n \<le> 5"
  note D = sinvD [OF a(1)]
  show "0 < entVersion e \<and> entVersion e + n < 2 ^ 64" if "memM (svKV s) k = Some e" for k e
  proof -
    have "entVersion e + 5 < 2 ^ 64" using a(2) that by (auto simp: roomy_def)
    with D(2) [OF that] a(3) show ?thesis by linarith
  qed
  show "bsFiles (svBlobs s) sha \<noteq> None" if "0 < refcount s sha" for sha using D(6) [OF that] .
  show "0 \<le> lpGeneration l \<and> 0 \<le> lpHighest l \<and> lpHighest l < max_i64" if "memM (svKV s) k = Some e" "entVal e = SLive l" for k e l
    using D(4) [OF that] .
qed (rule sinvD, assumption+)+

lemma storage_run_inv: "storage_run H s \<Longrightarrow> hashes_ok H \<Longrightarrow> sinv {} H 0 settled s"
proof (induction rule: storage_run.induct)
  case (start now root bus)
  then show ?case
    by (intro sinvI) (auto simp: New_svc_def NewMemory_def obj_at_def refs_def refcount_def blob_wf_ops)
next
  case (tick s now bus)
  then have inv: "sinv {} H 0 settled s" by simp
  have eq: "obj_at (s\<lparr>svNow := now, svBus := bus\<rparr>) = obj_at s" "refcount (s\<lparr>svNow := now, svBus := bus\<rparr>) = refcount s"
    "refs (s\<lparr>svNow := now, svBus := bus\<rparr>) = refs s"
    by (simp_all add: fun_eq_iff obj_at_def refcount_def refs_def)
  show ?case using sinvD [OF inv] tick(2) by (intro sinvI, simp_all only: eq) auto
next
  case (create_bucket s cx b)
  then show ?case using bucket_ops_inv(1) [of "{}" H 0] sinv_room [of H s "0 + 2"] by simp
next
  case (update_bucket s cx p nm patch)
  then show ?case using bucket_ops_inv(2) [of "{}" H 0] sinv_room [of H s "0 + 2"] by simp
next
  case (delete_bucket s cx p nm)
  then show ?case using bucket_ops_inv(3) [of "{}" H 0] sinv_room [of H s "0 + 2"] by simp
next
  case (set_iam s cx p nm ob pol)
  then show ?case using bucket_ops_inv(4) [of "{}" H 0] sinv_room [of H s "0 + 2"] by simp
next
  case (reset s cx p)
  then show ?case using Reset_inv by blast
next
  case (write_object s p w cx c)
  then show ?case using WriteObject_post [of "{}" H 0 s p w cx c, OF _ _ _ _ _ _ prod.collapse [symmetric]] sinv_room [of H s "0 + 5"] by (simp add: nameable_def)
next
  case (copy_object s p w cx src)
  then show ?case using CopyObject_inv [of H 0 s p w cx src, OF _ _ _ _ _ _ prod.collapse [symmetric]] sinv_room [of H s "0 + 5"] by simp
next
  case (compose_object s p w cx srcs)
  then show ?case using ComposeObject_inv [of H 0 s p w cx srcs, OF _ _ _ _ _ _ _ prod.collapse [symmetric]] sinv_room [of H s "0 + 5"] by simp
next
  case (update_object s p b cx nm patch)
  then show ?case using UpdateObject_inv [of H 0 s p b cx nm patch, OF _ _ _ _ prod.collapse [symmetric]] sinv_room [of H s "Suc 0"] by simp
next
  case (delete_object s p b cx nm pc)
  then show ?case using DeleteObject_inv [of H 0 s p b cx nm pc, OF _ _ _ _ prod.collapse [symmetric]] sinv_room [of H s "0 + 3"] by simp
qed

end
