(* ===== verification/Storage_Props.thy ===== *)
theory Storage_Props
  imports Storage_Inv
begin

text \<open>
  What the object operations of Cloud Storage promise, over the invariant of \<open>Storage_Inv\<close>: progress
  of a write, a concrete service the witnesses run on, and the properties.
\<close>

subsection \<open>Progress and read-back\<close>

lemma claim_loop_free:
  assumes "memM (svKV s) (Object p (obBucket ob) (obName ob) (g + int i)) = None" and "i < m"
  shows "\<exists>h s'. claim_loop m CtxLive p ob g s = (Ok h, s')"
  using assms
proof (induction m arbitrary: g i)
  case (Suc m)
  have f: "obBucket (with_generation g ob) = obBucket ob" "obName (with_generation g ob) = obName ob"
    "obGeneration (with_generation g ob) = g" by (simp_all add: with_generation_def Let_def)
  show ?case
  proof (cases "memM (svKV s) (Object p (obBucket ob) (obName ob) g)")
    case None
    then show ?thesis by (simp add: putGeneration_def kvPut_def mem_Put_def f)
  next
    case (Some e)
    then obtain j where "i = Suc j" using Suc.prems(1) by (cases i) auto
    then have "\<exists>h s'. claim_loop m CtxLive p ob (g + 1) s = (Ok h, s')"
      using Suc.IH [of "g + 1" j] Suc.prems by (simp add: add.assoc)
    with Some show ?thesis by (simp add: putGeneration_def kvPut_def mem_Put_def f)
  qed
qed simp

lemma WriteObject_progress:
  assumes inv0: "sinv {} H 5 settled s" and H: "hashes_ok H"
    and free: "slash_free p" "slash_free (wrBucket w)" and nm: "wrName w \<noteq> ''''"
    and bkt: "bucket_of CtxLive p (wrBucket w) s = Ok (bk, v)"
    and rd: "publish_read CtxLive p w s = Ok (current, version, existing)"
    and i: "i < maxGenerationProbes"
      "memM (svKV s) (Object p (wrBucket w) (wrName w) (nextGeneration (svNow s) (lpHighest current) + int i)) = None"
      "0 \<le> nextGeneration (svNow s) (lpHighest current)"
      "nextGeneration (svNow s) (lpHighest current) + int maxGenerationProbes \<le> max_i64"
  shows "\<exists>ob s'. WriteObject H quiet CtxLive p w c s = (Ok ob, s')"
proof -
  note inv = sinv_exempt [OF inv0, of "{(wrBucket w, wrName w)}"]
  obtain r1 s1 where st: "store_content H CtxLive p w c s = (r1, s1)" by force
  note S = store_content_post [OF inv H st]
  have "r1 = Ok (hashes_ref H c)"
    using st bkt nm blob_Put_ref [of H c "svBlobs s"] by (auto simp: store_content_def split: prod.splits)
  then have ref: "ref_ok H (hashes_ref H c) s1" and r1: "r1 = Ok (hashes_ref H c)" using S by auto
  have kv: "svKV s1 = svKV s" "svNow s1 = svNow s" using S by auto
  have rd1: "publish_read CtxLive p w s1 = Ok (current, version, existing)" using rd publish_read_kv [OF kv(1)] by metis
  have b1: "bucket_of CtxLive p (wrBucket w) s1 = Ok (bk, v)" using bkt reads_kv(3) [OF kv(1)] by metis
  let ?o = "new_object w (hashes_ref H c) (svNow s1)"
  have o: "obBucket ?o = wrBucket w" "obName ?o = wrName w" by (simp_all add: new_object_def)
  obtain h s2 where cl: "claimGeneration CtxLive p ?o (nextGeneration (svNow s1) (lpHighest current)) s1 = (Ok h, s2)"
    using claim_loop_free [of s1 p ?o "nextGeneration (svNow s1) (lpHighest current)" i maxGenerationProbes] i kv o
    unfolding claimGeneration_def by (auto simp: i64_id min_i64_def)
  obtain r3 s3 where wr: "publish_write CtxLive p w (hashes_ref H c) (bkVersioning bk) current version existing s1 = (r3, s3)" by force
  have "sinv {(wrBucket w, wrName w)} H (0 + 5) settled s1" using S by simp
  from publish_write_post [OF this _ ref free _ rd1 wr] any_nameable [OF inv0 free] nameable_kv [OF kv(1)] cl obtain ob where "r3 = Ok ob" by (cases r3) auto
  with wr rd1 have "publish (quiet 63) CtxLive p w (hashes_ref H c) (bkVersioning bk) s1 = (Ok ob, s3)"
    by (simp add: publish_def quiet_def)
  then have "publish_loop (Suc 63) quiet CtxLive p w (hashes_ref H c) (bkVersioning bk) s1 = (Ok ob, s3)"
    by (subst publish_loop.simps) simp
  then have "publishRef quiet CtxLive p w (hashes_ref H c) s1 = (Ok ob, s3)"
    using b1 by (simp add: publishRef_def maxWriteAttempts_def del: publish_loop.simps)
  then show ?thesis using st r1 by (simp add: WriteObject_def)
qed

subsection \<open>A concrete service\<close>

definition demo_bucket :: bucket where
  "demo_bucket = \<lparr>bkName = ''bkt'', bkProject = ''prj'', bkLocation = '''', bkStorageClass = '''', bkVersioning = False,
     bkMetageneration = 0, bkCreated = 0, bkUpdated = 0\<rparr>"

definition demo_write :: "string \<Rightarrow> write_req" where
  "demo_write nm = \<lparr>wrBucket = ''bkt'', wrName = nm, wrContentType = '''', wrMetadata = None, wrPreconditions = noPreconditions\<rparr>"

text \<open>A service with one empty bucket, its clock at five microseconds.\<close>

definition demo_svc :: "unit svc" where
  "demo_svc = snd (CreateBucket CtxLive demo_bucket (New_svc ''r'' None 5000))"

lemma demo_svc_kv:
  "memM (svKV demo_svc) =
     [BucketIndex ''bkt'' \<mapsto> \<lparr>entVal = SProject ''prj'', entVersion = 1\<rparr>,
      Bucket ''prj'' ''bkt'' \<mapsto> \<lparr>entVal = SBucket (demo_bucket\<lparr>bkLocation := ''US'', bkStorageClass := ''STANDARD'',
        bkMetageneration := 1, bkCreated := 5000, bkUpdated := 5000\<rparr>), entVersion = 1\<rparr>]"
  "svBlobs demo_svc = New_blobs ''r''" "svNow demo_svc = 5000" "svBus demo_svc = None"
  by (simp_all add: demo_svc_def CreateBucket_def validBucketName_def demo_bucket_def kvPut_def mem_Put_def New_svc_def
      NewMemory_def orDefault_def DefaultLocation_def DefaultStorageClass_def Let_def key_defs)

lemma demo_svc_run: "storage_run demo_hashes demo_svc" and demo_svc_roomy: "roomy demo_svc"
  and demo_hashes_good: "hashes_ok demo_hashes"
proof -
  show "storage_run demo_hashes demo_svc"
    unfolding demo_svc_def by (intro storage_run.create_bucket storage_run.start) (simp_all add: roomy_def New_svc_def NewMemory_def)
  show "roomy demo_svc" by (auto simp: roomy_def demo_svc_kv split: if_splits)
  show "hashes_ok demo_hashes" by (simp add: hashes_ok_def demo_hashes_ok)
qed

lemma demo_keys: "Live ''prj'' ''bkt'' nm \<noteq> BucketIndex ''bkt''" "Live ''prj'' ''bkt'' nm \<noteq> Bucket ''prj'' ''bkt''"
  "Object ''prj'' ''bkt'' nm g \<noteq> BucketIndex ''bkt''" "Object ''prj'' ''bkt'' nm g \<noteq> Bucket ''prj'' ''bkt''"
  by (simp_all add: key_defs)

lemma demo_write_ok:
  assumes "nm \<noteq> ''''"
  obtains ob s' where "WriteObject demo_hashes quiet CtxLive ''prj'' (demo_write nm) c demo_svc = (Ok ob, s')"
proof -
  have inv: "sinv {} demo_hashes 5 settled demo_svc"
    using sinv_room [OF storage_run_inv [OF demo_svc_run demo_hashes_good] demo_svc_roomy] by simp
  have rd: "publish_read CtxLive ''prj'' (demo_write nm) demo_svc = Ok (\<lparr>lpGeneration = 0, lpHighest = 0\<rparr>, 0, None)"
    by (simp add: publish_read_def readLive_def kvGet_def mem_Get_def demo_svc_kv demo_keys demo_write_def
        checkPreconditions_def noPreconditions_def)
  obtain bk v where bk: "bucket_of CtxLive ''prj'' ''bkt'' demo_svc = Ok (bk, v)"
    by (simp add: bucket_of_def kvGet_def mem_Get_def demo_svc_kv)
  show thesis
    using WriteObject_progress [OF inv demo_hashes_good _ _ _ _ rd, of bk v 0 c] assms bk that
    by (auto simp: demo_write_def demo_svc_kv demo_keys maxGenerationProbes_def nextGeneration_def unixMicro_def i64_id
        min_i64_def max_i64_def)
qed


lemma demo_write_run:
  assumes "nm \<noteq> ''''" and "utf8 nm"
  obtains ob s' where "WriteObject demo_hashes quiet CtxLive ''prj'' (demo_write nm) c demo_svc = (Ok ob, s')"
    "storage_run demo_hashes s'"
proof -
  obtain ob s' where w: "WriteObject demo_hashes quiet CtxLive ''prj'' (demo_write nm) c demo_svc = (Ok ob, s')"
    using demo_write_ok [OF assms(1)] by blast
  moreover have "storage_run demo_hashes (snd (WriteObject demo_hashes quiet CtxLive ''prj'' (demo_write nm) c demo_svc))"
    by (intro storage_run.write_object demo_svc_run demo_svc_roomy) (simp_all add: demo_write_def assms(2) utf8_ascii)
  ultimately show thesis using that by simp
qed

lemma write_opens:
  assumes "storage_run H s" and "hashes_ok H" and "roomy s" and "slash_free p" and "slash_free (wrBucket w)"
    and "WriteObject H quiet CtxLive p w c s = (Ok ob, s')"
  shows "OpenObject CtxLive p (wrBucket w) (wrName w) None noPreconditions s' = Ok (stored_object ob, c) \<and>
         obSize ob = int (length c) \<and>
         (\<forall>l v. readLive CtxLive p (wrBucket w) (wrName w) s = Ok (l, v) \<longrightarrow> lpHighest l < obGeneration ob)"
proof -
  have inv0: "sinv {} H (0 + 5) settled s" using storage_run_inv [OF assms(1,2)] sinv_room [of H s 5] assms(3) by simp
  note W = WriteObject_post [OF sinv_exempt [OF inv0] _ assms(2,4,5) any_nameable [OF inv0 assms(4,5)] assms(6)]
  obtain current version existing where rd: "publish_read CtxLive p w s = Ok (current, version, existing)"
    and pub: "published p w (hashes_ref H c) (lpHighest current) ob s'" and inv: "sinv {(wrBucket w, wrName w)} H 0 settled s'"
    using W by auto
  let ?k = "Object p (wrBucket w) (wrName w) (obGeneration ob)"
  have at: "obj_at s' ?k = Some (stored_object ob)" using pub by (simp add: published_def)
  obtain e where e: "memM (svKV s') (Live p (wrBucket w) (wrName w)) = Some e"
    "entVal e = SLive \<lparr>lpGeneration = obGeneration ob, lpHighest = obGeneration ob\<rparr>" "0 < entVersion e"
    using pub sinvD(2) [OF inv] by (auto simp: published_def)
  obtain g where ob: "ob = with_generation g (new_object w (hashes_ref H c) (svNow s'))"
    using pub by (auto simp: published_def)
  have blob: "obBlob (stored_object ob) = hSha256 H c" "obSize ob = int (length c)"
    by (simp_all add: ob hashes_ref_def stored_object_def with_generation_def new_object_def Let_def)
  obtain c' where c': "bsFiles (svBlobs s') (hSha256 H c) = Some c'" "hSha256 H c' = hSha256 H c"
    using ref_content [OF inv at] blob by metis
  then have "c' = c" using assms(2) by (auto simp: hashes_ok_def collision_free_def dest: injD)
  moreover have "resolveLive CtxLive p (wrBucket w) (wrName w) s' = Ok (Some (stored_object ob), entVersion e)"
    using e at by (simp add: resolveLive_def maxResolveAttempts_def numeral_eq_Suc readLive_def kvGet_def mem_Get_def
        readGeneration_at_ok)
  ultimately have "OpenObject CtxLive p (wrBucket w) (wrName w) None noPreconditions s' = Ok (stored_object ob, c)"
    using e(3) c'(1) blob(1)
    by (simp add: OpenObject_def GetObjectIf_def checkPreconditions_def noPreconditions_def blob_Open_def)
  moreover have "lpHighest l < obGeneration ob" if "readLive CtxLive p (wrBucket w) (wrName w) s = Ok (l, v)" for l v
    using that pub publish_read_ok [OF rd] by (auto simp: published_def)
  ultimately show ?thesis using blob(2) by auto
qed

subsection \<open>Properties\<close>

text \<open>
  C1: in every state clients reach by calls made one after another, whatever they wrote, copied, composed, updated,
  deleted or reset before, an object that can be read has its content: \<open>OpenObject\<close> succeeds whenever the metadata
  read does, and the content has the recorded size and digest.  Reference counting never removes
  content that is still referenced.  Each call keeps the context it came with, live or ended; the objects written and
  their buckets have UTF-8 names, and projects and buckets no slash in theirs.  Under overlapping writes of one object it is not so.
\<close>

theorem readable_object_has_content:
  assumes "storage_run H s" and "hashes_ok H" and "GetObject cx p b nm g s = Ok ob"
  shows "\<exists>c. OpenObject cx p b nm g noPreconditions s = Ok (ob, c) \<and> hSha256 H c = obBlob ob \<and> obSize ob = int (length c)"
proof -
  have inv: "sinv {} H 0 settled s" using storage_run_inv assms(1,2) by blast
  obtain h where "obj_at s (Object p b nm h) = Some ob" using GetObject_ok [OF assms(3)] by blast
  then obtain c where "bsFiles (svBlobs s) (obBlob ob) = Some c" "hSha256 H c = obBlob ob" "obSize ob = int (length c)"
    using ref_content [OF inv] by blast
  with assms(3) show ?thesis by (auto simp: OpenObject_def GetObject_def blob_Open_def)
qed

lemma OpenObject_GetObject: "OpenObject cx p b nm g noPreconditions s = Ok (ob, c) \<Longrightarrow> GetObject cx p b nm g s = Ok ob"
  by (auto simp: OpenObject_def GetObject_def split: result.splits)

theorem readable_object_has_content_witness:
  "\<exists>s ob c. storage_run demo_hashes (s :: unit svc) \<and> GetObject CtxLive ''prj'' ''bkt'' ''a'' None s = Ok ob \<and>
     OpenObject CtxLive ''prj'' ''bkt'' ''a'' None noPreconditions s = Ok (ob, c) \<and> obSize ob = int (length c)"
proof -
  obtain ob s' where w: "WriteObject demo_hashes quiet CtxLive ''prj'' (demo_write ''a'') ''x'' demo_svc = (Ok ob, s')"
    and run: "storage_run demo_hashes s'"
    by (rule demo_write_run [of "''a''" "''x''"]) (auto simp: utf8_ascii)
  have g: "GetObject CtxLive ''prj'' ''bkt'' ''a'' None s' = Ok (stored_object ob)"
    using write_opens [OF demo_svc_run demo_hashes_good demo_svc_roomy _ _ w] OpenObject_GetObject
    by (simp add: demo_write_def) blast
  show ?thesis using run g readable_object_has_content [OF run demo_hashes_good g] by blast
qed

text \<open>
  A write that succeeded is what the next read returns: the object has a generation above every
  earlier one recorded for the name, and opening it gives exactly the bytes written.
\<close>

theorem write_then_read:
  assumes "storage_run H s" and "hashes_ok H" and "roomy s" and "slash_free p" and "slash_free (wrBucket w)"
    and "WriteObject H quiet CtxLive p w c s = (Ok ob, s')"
  shows "OpenObject CtxLive p (wrBucket w) (wrName w) None noPreconditions s' = Ok (stored_object ob, c) \<and>
         obSize ob = int (length c) \<and>
         (\<forall>l v. readLive CtxLive p (wrBucket w) (wrName w) s = Ok (l, v) \<longrightarrow> lpHighest l < obGeneration ob)"
  by (rule write_opens [OF assms])

theorem write_then_read_witness:
  "\<exists>ob s'. WriteObject demo_hashes quiet CtxLive ''prj'' (demo_write ''a'') ''xy'' demo_svc = (Ok ob, s') \<and>
     OpenObject CtxLive ''prj'' ''bkt'' ''a'' None noPreconditions s' = Ok (stored_object ob, ''xy'') \<and> obSize ob = 2"
proof -
  obtain ob s' where w: "WriteObject demo_hashes quiet CtxLive ''prj'' (demo_write ''a'') ''xy'' demo_svc = (Ok ob, s')"
    by (rule demo_write_run [of "''a''" "''xy''"]) (auto simp: utf8_ascii)
  show ?thesis
    using w write_then_read [OF demo_svc_run demo_hashes_good demo_svc_roomy _ _ w] by (simp add: demo_write_def)
qed

end
