(* ===== verification/Cloud_Tasks.thy ===== *)
theory Cloud_Tasks
  imports KV_Store Fake_Clock Gerr "HOL-Library.AList"
begin

text \<open>
  Cloud Tasks (\<open>services/cloudtasks\<close>): queues and tasks in the key-value store, one timer per waiting
  task on the manual clock, dispatch over HTTP with capped exponential backoff.

  A timer's callback is the name of the task it dispatches.  A task that is already due is
  dispatched by a goroutine: \<open>ctInFlight\<close> are those launched and not yet run.  A dispatch reads the
  task under the lock, sends it without the lock and applies the retry policy under the lock again,
  so it is two steps with whatever others do in between (\<open>others\<close>).  \<open>ctSent\<close> is the trace of requests handed to the HTTP
  client, with the clock's reading.
\<close>

subsection \<open>Records\<close>

record http_request =
  hrUrl :: string
  hrMethod :: string
  hrHeaders :: "(string \<times> string) list"
  hrBody :: string

datatype target = NoTarget | HttpTarget http_request | AppEngineTarget

record task =
  tkName :: string
  tkTarget :: target
  tkSchedule :: "time option"
  tkCreate :: "time option"
  tkDispatchCount :: int
  tkLastAttempt :: "time option"

datatype queue_state = StateUnspecified | Running | Paused | Disabled

record retry_config =
  rcMaxAttempts :: int
  rcMinBackoff :: "duration option"
  rcMaxBackoff :: "duration option"

record queue_record =
  qrName :: string
  qrState :: queue_state
  qrRetry :: "retry_config option"
  qrPurgeTime :: "time option"

datatype ctval = CTNil | CTQueue queue_record | CTTask task

instantiation ctval :: zero
begin
definition zero_ctval_def: "0 = CTNil"
instance ..
end

record live_queue =
  lqPaused :: bool
  lqTimers :: "(string \<times> nat) list"

record ct =
  ctKV :: "ctval memory"
  ctClock :: "string fakeClock"
  ctQueues :: "string \<rightharpoonup> live_queue"
  ctSeq :: nat
  ctInFlight :: "string list"
  ctStarted :: nat
  ctSent :: "(time \<times> task) list"

definition asTime :: "time option \<Rightarrow> time" where
  "asTime t = (case t of None \<Rightarrow> 0 | Some x \<Rightarrow> x)"

definition asDuration :: "duration option \<Rightarrow> duration" where
  "asDuration d = (case d of None \<Rightarrow> 0 | Some x \<Rightarrow> x)"

subsection \<open>Names and keys (cloudtasks.go)\<close>

definition queueKey :: "string \<Rightarrow> string" where "queueKey name = ''ct/q/'' @ name"
definition taskKey :: "string \<Rightarrow> string" where "taskKey name = ''ct/t/'' @ name"
definition taskPrefix :: "string \<Rightarrow> string" where "taskPrefix q = ''ct/t/'' @ q @ ''/tasks/''"

definition validQueueName :: "string \<Rightarrow> rpc_error option" where
  "validQueueName name =
     (let parts = split_on (CHR ''/'') name
      in if length parts \<noteq> 6 \<or> parts ! 0 \<noteq> ''projects'' \<or> parts ! 2 \<noteq> ''locations'' \<or>
            parts ! 4 \<noteq> ''queues'' \<or> parts ! 1 = '''' \<or> parts ! 3 = '''' \<or> parts ! 5 = ''''
         then Some (Errorf InvalidArgument
                ''invalid queue name %q; expected projects/{p}/locations/{l}/queues/{q}'' [name])
         else None)"

definition parseTaskParent :: "string \<Rightarrow> (rpc_error, string) result" where
  "parseTaskParent parent = (case validQueueName parent of Some e \<Rightarrow> Err e | None \<Rightarrow> Ok parent)"

definition getQueueRecord :: "ctx \<Rightarrow> string \<Rightarrow> ct \<Rightarrow> (rpc_error, queue_record) result" where
  "getQueueRecord cx name s =
     (case mem_Get cx (queueKey name) (ctKV s) of
        Err _ \<Rightarrow> Err (Errorf NotFound ''Queue does not exist: %s'' [name])
      | Ok (CTQueue q, _) \<Rightarrow> Ok q
      | Ok _ \<Rightarrow> Err (Errorf Internal ''decoding queue: %v'' [''proto'']))"

definition getTaskRecord :: "ctx \<Rightarrow> string \<Rightarrow> ct \<Rightarrow> (rpc_error, task) result" where
  "getTaskRecord cx name s =
     (case mem_Get cx (taskKey name) (ctKV s) of
        Err _ \<Rightarrow> Err (Errorf NotFound ''Task does not exist: %s'' [name])
      | Ok (CTTask t, _) \<Rightarrow> Ok t
      | Ok _ \<Rightarrow> Err (Errorf Internal ''decoding task: %v'' [''proto'']))"

definition nextTaskID :: "ct \<Rightarrow> string \<times> ct" where
  "nextTaskID s = (dec (u64 (ctSeq s + 1)), s\<lparr>ctSeq := u64 (ctSeq s + 1)\<rparr>)"

definition indexOfTasks :: "string \<Rightarrow> nat option" where
  "indexOfTasks name = go_index name ''/tasks/''"

definition queueOf :: "string \<Rightarrow> string" where
  "queueOf taskName = (case indexOfTasks taskName of Some i \<Rightarrow> take i taskName | None \<Rightarrow> taskName)"

subsection \<open>Scheduling (dispatch.go)\<close>

definition newQueue :: live_queue where
  "newQueue = \<lparr>lqPaused = False, lqTimers = []\<rparr>"

definition defaultMaxAttempts :: int where "defaultMaxAttempts = 3"
definition defaultMinBackoff :: duration where "defaultMinBackoff = 100 * millisecond"
definition defaultMaxBackoff :: duration where "defaultMaxBackoff = 10 * second"

definition liveQueue :: "string \<Rightarrow> ct \<Rightarrow> live_queue option \<times> ct" where
  "liveQueue name s =
     (case ctQueues s name of
        Some q \<Rightarrow> (Some q, s)
      | None \<Rightarrow>
          (case getQueueRecord CtxLive name s of
             Err _ \<Rightarrow> (None, s)
           | Ok rec \<Rightarrow>
               let q = newQueue\<lparr>lqPaused := (qrState rec = Paused)\<rparr>
               in (Some q, s\<lparr>ctQueues := (ctQueues s)(name \<mapsto> q)\<rparr>)))"

definition schedule :: "string \<Rightarrow> time \<Rightarrow> ct \<Rightarrow> ct" where
  "schedule name wh s =
     (let (lq, s1) = liveQueue (queueOf name) s
      in case lq of
           None \<Rightarrow> s1
         | Some q \<Rightarrow>
             if lqPaused q then s1
             else
               let delay = time_sub wh (ckNow (ctClock s1))
               in if delay \<le> 0
                  then s1\<lparr>ctStarted := u64 (ctStarted s1 + 1), ctInFlight := ctInFlight s1 @ [name]\<rparr>
                  else
                    let (p, c) = AfterFunc delay name (ctClock s1)
                    in s1\<lparr>ctClock := c,
                          ctQueues := (ctQueues s1)(queueOf name \<mapsto> q\<lparr>lqTimers := AList.update name p (lqTimers q)\<rparr>)\<rparr>)"

text \<open>The loop shared by \<open>recover\<close> and \<open>rearm\<close>: schedule every listed task, skipping what does not decode.\<close>

fun schedule_entries :: "ctval kv list \<Rightarrow> ct \<Rightarrow> ct" where
  "schedule_entries [] s = s"
| "schedule_entries (kv # kvs) s =
     schedule_entries kvs
       (case kvVal kv of CTTask t \<Rightarrow> schedule (tkName t) (asTime (tkSchedule t)) s | _ \<Rightarrow> s)"

definition recover :: "ct \<Rightarrow> ct" where
  "recover s =
     (case mem_List CtxLive ''ct/t/'' 0 '''' (ctKV s) of
        Err _ \<Rightarrow> s
      | Ok (entries, _) \<Rightarrow> schedule_entries entries s)"

definition New_ct :: "ctval memory \<Rightarrow> string fakeClock \<Rightarrow> ct" where
  "New_ct kv clk =
     recover \<lparr>ctKV = kv, ctClock = clk, ctQueues = Map.empty, ctSeq = 0, ctInFlight = [], ctStarted = 0, ctSent = []\<rparr>"

record retry_policy =
  rpMaxAttempts :: int
  rpMinBackoff :: duration
  rpMaxBackoff :: duration

definition retryConfig :: "ctx \<Rightarrow> string \<Rightarrow> ct \<Rightarrow> retry_policy" where
  "retryConfig cx taskName s =
     (let p = \<lparr>rpMaxAttempts = defaultMaxAttempts, rpMinBackoff = defaultMinBackoff, rpMaxBackoff = defaultMaxBackoff\<rparr>
      in case getQueueRecord cx (queueOf taskName) s of
           Err _ \<Rightarrow> p
         | Ok q \<Rightarrow>
             (case qrRetry q of
                None \<Rightarrow> p
              | Some rc \<Rightarrow>
                  \<lparr>rpMaxAttempts = (if 0 < rcMaxAttempts rc then rcMaxAttempts rc else defaultMaxAttempts),
                   rpMinBackoff = (if 0 < asDuration (rcMinBackoff rc) then asDuration (rcMinBackoff rc) else defaultMinBackoff),
                   rpMaxBackoff = (if 0 < asDuration (rcMaxBackoff rc) then asDuration (rcMaxBackoff rc) else defaultMaxBackoff)\<rparr>))"

definition putTask :: "ctx \<Rightarrow> task \<Rightarrow> ct \<Rightarrow> (store_error, nat) result \<times> ct" where
  "putTask cx t s =
     (let ifVersion = (case mem_Get cx (taskKey (tkName t)) (ctKV s) of Ok (_, current) \<Rightarrow> current | Err _ \<Rightarrow> 0);
          (r, m) = mem_Put cx (taskKey (tkName t)) (CTTask t) ifVersion (ctKV s)
      in (r, s\<lparr>ctKV := m\<rparr>))"

subsection \<open>Dispatch (dispatch.go)\<close>

datatype http_result = DoErr | DoStatus int

datatype ct_panic = NegativeShift

definition http_ok :: "http_result \<Rightarrow> bool" where
  "http_ok r = (case r of DoErr \<Rightarrow> False | DoStatus code \<Rightarrow> 200 \<le> code \<and> code < 300)"

text \<open>\<open>realDoer.do\<close>, over the HTTP client.\<close>

definition realDoer_do :: "(http_request \<Rightarrow> http_result) \<Rightarrow> task \<Rightarrow> http_result" where
  "realDoer_do client t =
     (case tkTarget t of
        HttpTarget h \<Rightarrow>
          client (h\<lparr>hrMethod := (if hrMethod h = ''HTTP_METHOD_UNSPECIFIED'' \<or> hrMethod h = '''' then ''POST'' else hrMethod h)\<rparr>)
      | _ \<Rightarrow> DoErr)"

text \<open>Up to the request: the task and its retry policy, or nothing to send.\<close>

definition dispatch_begin :: "string \<Rightarrow> ct \<Rightarrow> (task \<times> retry_policy) option \<times> ct" where
  "dispatch_begin name s =
     (case ctQueues s (queueOf name) of
        None \<Rightarrow> (None, s)
      | Some q \<Rightarrow>
          if lqPaused q then (None, s)
          else
            let s1 = s\<lparr>ctQueues := (ctQueues s)(queueOf name \<mapsto> q\<lparr>lqTimers := AList.delete name (lqTimers q)\<rparr>)\<rparr>
            in case getTaskRecord CtxLive name s1 of
                 Err _ \<Rightarrow> (None, s1)
               | Ok task \<Rightarrow>
                   (Some (task, retryConfig CtxLive name s1),
                    s1\<lparr>ctSent := ctSent s1 @ [(ckNow (ctClock s1), task)]\<rparr>))"

definition backoffFor :: "retry_policy \<Rightarrow> int \<Rightarrow> duration" where
  "backoffFor retry count =
     (let backoff = shl64 (rpMinBackoff retry) (nat (i32 (count - 1)))
      in if rpMaxBackoff retry < backoff then rpMaxBackoff retry else backoff)"

text \<open>After the response.\<close>

definition dispatch_end :: "string \<Rightarrow> task \<Rightarrow> retry_policy \<Rightarrow> bool \<Rightarrow> ct \<Rightarrow> (ct_panic, unit) result \<times> ct" where
  "dispatch_end name task0 retry ok s =
     (case getTaskRecord CtxLive name s of
        Err _ \<Rightarrow> (Ok (), s)
      | Ok _ \<Rightarrow>
          let task = task0\<lparr>tkDispatchCount := i32 (tkDispatchCount task0 + 1), tkLastAttempt := Some (ckNow (ctClock s))\<rparr>
          in if ok \<or> rpMaxAttempts retry \<le> tkDispatchCount task
             then (Ok (), s\<lparr>ctKV := snd (mem_Delete CtxLive (taskKey name) 0 (ctKV s))\<rparr>)
             else if i32 (tkDispatchCount task - 1) < 0 then (Err NegativeShift, s)
             else
               let nxt = ckNow (ctClock s) + backoffFor retry (tkDispatchCount task);
                   task1 = task\<lparr>tkSchedule := Some nxt\<rparr>
               in (case putTask CtxLive task1 s of
                     (Err _, s1) \<Rightarrow> (Ok (), s1)
                   | (Ok _, s1) \<Rightarrow> (Ok (), schedule name nxt s1)))"

definition dispatch ::
  "(task \<Rightarrow> http_result) \<Rightarrow> (ct \<Rightarrow> ct) \<Rightarrow> string \<Rightarrow> ct \<Rightarrow> (ct_panic, unit) result \<times> ct" where
  "dispatch http others name s =
     (case dispatch_begin name s of
        (None, s1) \<Rightarrow> (Ok (), s1)
      | (Some (task, retry), s1) \<Rightarrow> dispatch_end name task retry (http_ok (http task)) (others s1))"

subsection \<open>Queues (rpc.go)\<close>

definition CreateQueue :: "ctx \<Rightarrow> queue_record option \<Rightarrow> ct \<Rightarrow> (rpc_error, queue_record) result \<times> ct" where
  "CreateQueue cx req s =
     (case req of
        None \<Rightarrow> (Err (Errorf InvalidArgument ''queue.name is required'' []), s)
      | Some q0 \<Rightarrow>
          if qrName q0 = '''' then (Err (Errorf InvalidArgument ''queue.name is required'' []), s)
          else (case validQueueName (qrName q0) of
                  Some e \<Rightarrow> (Err e, s)
                | None \<Rightarrow>
                    let q = q0\<lparr>qrState := Running\<rparr>
                    in (case mem_Put cx (queueKey (qrName q)) (CTQueue q) 0 (ctKV s) of
                          (Err _, m) \<Rightarrow> (Err (Errorf AlreadyExists ''Queue already exists: %s'' [qrName q]), s\<lparr>ctKV := m\<rparr>)
                        | (Ok _, m) \<Rightarrow> (Ok q, s\<lparr>ctKV := m, ctQueues := (ctQueues s)(qrName q \<mapsto> newQueue)\<rparr>))))"

definition GetQueue :: "ctx \<Rightarrow> string \<Rightarrow> ct \<Rightarrow> (rpc_error, queue_record) result" where
  "GetQueue cx name s = getQueueRecord cx name s"

fun decode_queues :: "ctval kv list \<Rightarrow> (rpc_error, queue_record list) result" where
  "decode_queues [] = Ok []"
| "decode_queues (kv # kvs) =
     (case kvVal kv of
        CTQueue q \<Rightarrow> (case decode_queues kvs of Err e \<Rightarrow> Err e | Ok qs \<Rightarrow> Ok (q # qs))
      | _ \<Rightarrow> Err (Errorf Internal ''decoding queue: %v'' [''proto'']))"

definition ListQueues :: "ctx \<Rightarrow> string \<Rightarrow> ct \<Rightarrow> (rpc_error, queue_record list) result" where
  "ListQueues cx parent s =
     (case mem_List cx (''ct/q/'' @ parent @ ''/queues/'') 0 '''' (ctKV s) of
        Err e \<Rightarrow> Err (Errorf Internal ''listing queues: %v'' [store_text e])
      | Ok (entries, _) \<Rightarrow>
          (case decode_queues entries of Err e \<Rightarrow> Err e | Ok qs \<Rightarrow> Ok (sort_key qrName qs)))"

fun stop_timers :: "(string \<times> nat) list \<Rightarrow> string fakeClock \<Rightarrow> string fakeClock" where
  "stop_timers [] c = c"
| "stop_timers ((_, p) # ts) c = stop_timers ts (snd (Stop p c))"

fun delete_entries :: "ctx \<Rightarrow> ctval kv list \<Rightarrow> ctval memory \<Rightarrow> ctval memory" where
  "delete_entries cx [] m = m"
| "delete_entries cx (kv # kvs) m = delete_entries cx kvs (snd (mem_Delete cx (kvKey kv) 0 m))"

definition stopQueue :: "ctx \<Rightarrow> string \<Rightarrow> ct \<Rightarrow> ct" where
  "stopQueue cx name s =
     (let s1 = (case ctQueues s name of
                  None \<Rightarrow> s
                | Some q \<Rightarrow> s\<lparr>ctClock := stop_timers (lqTimers q) (ctClock s), ctQueues := (ctQueues s)(name := None)\<rparr>)
      in case mem_List cx (taskPrefix name) 0 '''' (ctKV s1) of
           Err _ \<Rightarrow> s1
         | Ok (entries, _) \<Rightarrow> s1\<lparr>ctKV := delete_entries cx entries (ctKV s1)\<rparr>)"

definition DeleteQueue :: "ctx \<Rightarrow> string \<Rightarrow> ct \<Rightarrow> (rpc_error, unit) result \<times> ct" where
  "DeleteQueue cx name s =
     (case mem_Delete cx (queueKey name) 0 (ctKV s) of
        (Err _, m) \<Rightarrow> (Err (Errorf NotFound ''Queue does not exist: %s'' [name]), s\<lparr>ctKV := m\<rparr>)
      | (Ok _, m) \<Rightarrow> (Ok (), stopQueue cx name (s\<lparr>ctKV := m\<rparr>)))"

definition PurgeQueue :: "ctx \<Rightarrow> string \<Rightarrow> ct \<Rightarrow> (rpc_error, queue_record) result \<times> ct" where
  "PurgeQueue cx name s =
     (case getQueueRecord cx name s of
        Err e \<Rightarrow> (Err e, s)
      | Ok q \<Rightarrow>
          let s1 = stopQueue cx name s
          in (Ok (q\<lparr>qrPurgeTime := Some (ckNow (ctClock s1))\<rparr>), s1\<lparr>ctQueues := (ctQueues s1)(name \<mapsto> newQueue)\<rparr>))"

definition rearm :: "ctx \<Rightarrow> string \<Rightarrow> ct \<Rightarrow> ct" where
  "rearm cx queueName s =
     (case mem_List cx (taskPrefix queueName) 0 '''' (ctKV s) of
        Err _ \<Rightarrow> s
      | Ok (entries, _) \<Rightarrow> schedule_entries entries s)"

definition versionOrZero :: "ctx \<Rightarrow> ct \<Rightarrow> string \<Rightarrow> nat" where
  "versionOrZero cx s key = (case mem_Get cx key (ctKV s) of Err _ \<Rightarrow> 0 | Ok (_, v) \<Rightarrow> v)"

definition setQueueState :: "ctx \<Rightarrow> string \<Rightarrow> queue_state \<Rightarrow> ct \<Rightarrow> (rpc_error, queue_record) result \<times> ct" where
  "setQueueState cx name st s =
     (case getQueueRecord cx name s of
        Err e \<Rightarrow> (Err e, s)
      | Ok q0 \<Rightarrow>
          let q = q0\<lparr>qrState := st\<rparr>
          in case mem_Put cx (queueKey name) (CTQueue q) (versionOrZero cx s (queueKey name)) (ctKV s) of
               (Err e, m) \<Rightarrow> (Err (Errorf Aborted ''updating queue: %v'' [store_text e]), s\<lparr>ctKV := m\<rparr>)
             | (Ok _, m) \<Rightarrow>
                 let s1 = s\<lparr>ctKV := m\<rparr>;
                     live = (case ctQueues s1 name of None \<Rightarrow> newQueue | Some l \<Rightarrow> l)
                 in if st = Paused
                    then (Ok q, s1\<lparr>ctClock := stop_timers (lqTimers live) (ctClock s1),
                                   ctQueues := (ctQueues s1)(name \<mapsto> \<lparr>lqPaused = True, lqTimers = []\<rparr>)\<rparr>)
                    else (Ok q, rearm cx name (s1\<lparr>ctQueues := (ctQueues s1)(name \<mapsto> live\<lparr>lqPaused := False\<rparr>)\<rparr>)))"

definition PauseQueue :: "ctx \<Rightarrow> string \<Rightarrow> ct \<Rightarrow> (rpc_error, queue_record) result \<times> ct" where
  "PauseQueue cx name s = setQueueState cx name Paused s"

definition ResumeQueue :: "ctx \<Rightarrow> string \<Rightarrow> ct \<Rightarrow> (rpc_error, queue_record) result \<times> ct" where
  "ResumeQueue cx name s = setQueueState cx name Running s"

subsection \<open>Tasks (task.go)\<close>

definition CreateTask :: "ctx \<Rightarrow> string \<Rightarrow> task option \<Rightarrow> ct \<Rightarrow> (rpc_error, task) result \<times> ct" where
  "CreateTask cx parent req s =
     (case parseTaskParent parent of
        Err e \<Rightarrow> (Err e, s)
      | Ok queueName \<Rightarrow>
     (case req of
        None \<Rightarrow> (Err (Errorf InvalidArgument ''task is required'' []), s)
      | Some t0 \<Rightarrow>
          if tkTarget t0 = AppEngineTarget
          then (Err (Errorf Unimplemented ''App Engine task targets are not supported; use an http_request'' []), s)
          else
     (case getQueueRecord cx queueName s of
        Err e \<Rightarrow> (Err e, s)
      | Ok _ \<Rightarrow>
          if tkName t0 \<noteq> '''' \<and> queueOf (tkName t0) \<noteq> queueName
          then (Err (Errorf InvalidArgument ''task name %q is not under the parent queue %q'' [tkName t0, queueName]), s)
          else
            let now = ckNow (ctClock s);
                (ident, s1) = (if tkName t0 = '''' then nextTaskID s else ('''', s));
                t = t0\<lparr>tkName := (if tkName t0 = '''' then queueName @ ''/tasks/'' @ ident else tkName t0),
                       tkCreate := Some now,
                       tkSchedule := (if tkSchedule t0 = None then Some now else tkSchedule t0)\<rparr>
            in case putTask cx t s1 of
                 (Err _, s2) \<Rightarrow> (Err (Errorf AlreadyExists ''Task already exists: %s'' [tkName t]), s2)
               | (Ok _, s2) \<Rightarrow> (Ok t, schedule (tkName t) (asTime (tkSchedule t)) s2))))"

definition GetTask :: "ctx \<Rightarrow> string \<Rightarrow> ct \<Rightarrow> (rpc_error, task) result" where
  "GetTask cx name s = getTaskRecord cx name s"

fun decode_tasks :: "ctval kv list \<Rightarrow> (rpc_error, task list) result" where
  "decode_tasks [] = Ok []"
| "decode_tasks (kv # kvs) =
     (case kvVal kv of
        CTTask t \<Rightarrow> (case decode_tasks kvs of Err e \<Rightarrow> Err e | Ok ts \<Rightarrow> Ok (t # ts))
      | _ \<Rightarrow> Err (Errorf Internal ''decoding task: %v'' [''proto'']))"

definition ListTasks :: "ctx \<Rightarrow> string \<Rightarrow> ct \<Rightarrow> (rpc_error, task list) result" where
  "ListTasks cx parent s =
     (case getQueueRecord cx parent s of
        Err e \<Rightarrow> Err e
      | Ok _ \<Rightarrow>
          (case mem_List cx (taskPrefix parent) 0 '''' (ctKV s) of
             Err e \<Rightarrow> Err (Errorf Internal ''listing tasks: %v'' [store_text e])
           | Ok (entries, _) \<Rightarrow>
               (case decode_tasks entries of Err e \<Rightarrow> Err e | Ok ts \<Rightarrow> Ok (sort_key tkName ts))))"

text \<open>Cancel the timer a live queue holds for a task (\<open>DeleteTask\<close>, \<open>RunTask\<close>).\<close>

definition cancelTimer :: "string \<Rightarrow> ct \<Rightarrow> ct" where
  "cancelTimer name s =
     (case ctQueues s (queueOf name) of
        None \<Rightarrow> s
      | Some q \<Rightarrow>
          (case map_of (lqTimers q) name of
             None \<Rightarrow> s
           | Some p \<Rightarrow>
               s\<lparr>ctClock := snd (Stop p (ctClock s)),
                 ctQueues := (ctQueues s)(queueOf name \<mapsto> q\<lparr>lqTimers := AList.delete name (lqTimers q)\<rparr>)\<rparr>))"

definition DeleteTask :: "ctx \<Rightarrow> string \<Rightarrow> ct \<Rightarrow> (rpc_error, unit) result \<times> ct" where
  "DeleteTask cx name s =
     (case mem_Delete cx (taskKey name) 0 (ctKV s) of
        (Err _, m) \<Rightarrow> (Err (Errorf NotFound ''Task does not exist: %s'' [name]), s\<lparr>ctKV := m\<rparr>)
      | (Ok _, m) \<Rightarrow> (Ok (), cancelTimer name (s\<lparr>ctKV := m\<rparr>)))"

text \<open>
  \<open>RunTask\<close>, with the panic of its dispatch apart from its own result.  The lock is released between the cancelled timer
  and the dispatch: \<open>meanwhile\<close> is what others do then, \<open>others\<close> what they do while the request is out.
\<close>

definition RunTask ::
  "(task \<Rightarrow> http_result) \<Rightarrow> (ct \<Rightarrow> ct) \<Rightarrow> (ct \<Rightarrow> ct) \<Rightarrow> ctx \<Rightarrow> string \<Rightarrow> ct
     \<Rightarrow> (ct_panic, (rpc_error, task) result) result \<times> ct" where
  "RunTask http meanwhile others cx name s =
     (case getTaskRecord cx name s of
        Err e \<Rightarrow> (Ok (Err e), s)
      | Ok task \<Rightarrow>
          (case dispatch http others name (meanwhile (cancelTimer name s)) of
             (Err p, s1) \<Rightarrow> (Err p, s1)
           | (Ok _, s1) \<Rightarrow> (Ok (Ok task), s1)))"

text \<open>A timer's callback, as the clock runs it.\<close>

definition ct_exec :: "(task \<Rightarrow> http_result) \<Rightarrow> (string, ct) callback" where
  "ct_exec http name = (\<lambda>(s, c).
     case dispatch http (\<lambda>t. t) name (s\<lparr>ctClock := c\<rparr>) of
       (Err NegativeShift, s1) \<Rightarrow> (Err (PanicCallback ''negative shift amount''), s1, ctClock s1)
     | (Ok _, s1) \<Rightarrow> (Ok (), s1, ctClock s1))"

definition Started_ct :: "ct \<Rightarrow> nat" where
  "Started_ct s = ctStarted s"

definition Sync_ct_returns :: "ct \<Rightarrow> bool" where
  "Sync_ct_returns s = (ctInFlight s = [])"

subsection \<open>Retries\<close>

lemma i32_small: "- (2 ^ 31) \<le> x \<Longrightarrow> x < 2 ^ 31 \<Longrightarrow> i32 x = x"
  by (simp add: i32_def)

lemma shl64_exact: "0 \<le> x \<Longrightarrow> x * 2 ^ n < 2 ^ 63 \<Longrightarrow> shl64 x n = x * 2 ^ n"
proof -
  assume "0 \<le> x" "x * 2 ^ n < 2 ^ 63"
  moreover have "0 \<le> x * 2 ^ n" using calculation by simp
  ultimately have "min_i64 \<le> x * 2 ^ n" "x * 2 ^ n \<le> max_i64" unfolding min_i64_def max_i64_def by linarith+
  then show ?thesis by (simp add: shl64_def i64_id)
qed

lemma retryConfig_pos: "0 < rpMinBackoff (retryConfig cx n s)" "0 < rpMaxBackoff (retryConfig cx n s)" "0 < rpMaxAttempts (retryConfig cx n s)"
  by (simp_all add: retryConfig_def Let_def defaultMinBackoff_def defaultMaxBackoff_def defaultMaxAttempts_def millisecond_def second_def
      split: result.splits option.splits)

lemma key_neq [simp]: "taskKey n \<noteq> queueKey q" "queueKey q \<noteq> taskKey n" "taskKey n = taskKey m \<longleftrightarrow> n = m" "queueKey n = queueKey m \<longleftrightarrow> n = m"
  by (simp_all add: taskKey_def queueKey_def)

lemma retryConfig_kv:
  "memM (ctKV s') (queueKey (queueOf n)) = memM (ctKV s) (queueKey (queueOf n)) \<Longrightarrow> retryConfig cx n s' = retryConfig cx n s"
  by (simp add: retryConfig_def getQueueRecord_def mem_Get_def)

definition ideal_backoff :: "retry_policy \<Rightarrow> nat \<Rightarrow> duration" where
  "ideal_backoff R k = min (rpMinBackoff R * 2 ^ k) (rpMaxBackoff R)"

text \<open>The policy's doubling fits in 64 bits for every attempt it allows.\<close>

definition policy_fits :: "retry_policy \<Rightarrow> bool" where
  "policy_fits R \<longleftrightarrow> rpMaxAttempts R < 2 ^ 31 \<and> rpMinBackoff R * 2 ^ nat (rpMaxAttempts R) < 2 ^ 63 \<and> rpMaxBackoff R < 2 ^ 63"

lemma backoffFor_ideal:
  assumes "policy_fits R" and "0 < rpMinBackoff R" and "1 \<le> i" and "int i < rpMaxAttempts R"
  shows "backoffFor R (int i) = ideal_backoff R (i - 1)"
proof -
  have "rpMinBackoff R * 2 ^ (i - 1) \<le> rpMinBackoff R * 2 ^ nat (rpMaxAttempts R)"
    using assms(2,4) by (intro mult_left_mono power_increasing) auto
  then have "rpMinBackoff R * 2 ^ (i - 1) < 2 ^ 63" using assms(1) by (simp add: policy_fits_def)
  then have "shl64 (rpMinBackoff R) (i - 1) = rpMinBackoff R * 2 ^ (i - 1)" using assms(2) by (simp add: shl64_exact)
  moreover have "nat (i32 (int i - 1)) = i - 1" using assms by (simp add: i32_small policy_fits_def nat_diff_distrib)
  ultimately show ?thesis by (simp add: backoffFor_def ideal_backoff_def Let_def min_def)
qed

text \<open>A task waiting in a running queue, stored with room for its attempts.\<close>

definition waiting :: "retry_policy \<Rightarrow> nat \<Rightarrow> task \<Rightarrow> ct \<Rightarrow> bool" where
  "waiting R i t s \<longleftrightarrow>
     (\<exists>q. ctQueues s (queueOf (tkName t)) = Some q \<and> \<not> lqPaused q) \<and> tkDispatchCount t = int i \<and>
     retryConfig CtxLive (tkName t) s = R \<and>
     (\<exists>e. memM (ctKV s) (taskKey (tkName t)) = Some e \<and> entVal e = CTTask t \<and> 0 < entVersion e \<and>
        entVersion e + nat (rpMaxAttempts R) - i < 2 ^ 64)"

definition attempted :: "time \<Rightarrow> time \<Rightarrow> task \<Rightarrow> task" where
  "attempted now nxt t = t\<lparr>tkDispatchCount := tkDispatchCount t + 1, tkLastAttempt := Some now, tkSchedule := Some nxt\<rparr>"

lemma dispatch_begin_waiting:
  assumes "waiting R i t s"
  obtains s1 where "dispatch_begin (tkName t) s = (Some (t, R), s1)" "waiting R i t s1"
    "ctClock s1 = ctClock s" "ctSent s1 = ctSent s @ [(ckNow (ctClock s), t)]" "ctKV s1 = ctKV s"
proof -
  from assms obtain q e where q: "ctQueues s (queueOf (tkName t)) = Some q" "\<not> lqPaused q"
    and e: "memM (ctKV s) (taskKey (tkName t)) = Some e" "entVal e = CTTask t"
    by (auto simp: waiting_def)
  let ?s1 = "s\<lparr>ctQueues := (ctQueues s)(queueOf (tkName t) \<mapsto> q\<lparr>lqTimers := AList.delete (tkName t) (lqTimers q)\<rparr>),
               ctSent := ctSent s @ [(ckNow (ctClock s), t)]\<rparr>"
  have R: "retryConfig CtxLive (tkName t) s' = R" if "ctKV s' = ctKV s" for s'
    using assms that retryConfig_kv [of s' "tkName t" s CtxLive] by (auto simp: waiting_def)
  have "dispatch_begin (tkName t) s = (Some (t, R), ?s1)"
    using q e R by (simp add: dispatch_begin_def Let_def getTaskRecord_def mem_Get_def)
  moreover have "waiting R i t ?s1" using assms q R by (auto simp: waiting_def)
  ultimately show thesis using that by simp
qed

lemma dispatch_end_last:
  assumes "waiting R i t s" and "i < 2 ^ 31 - 1" and "ok \<or> rpMaxAttempts R \<le> int i + 1"
  obtains s' where "dispatch_end (tkName t) t R ok s = (Ok (), s')" "memM (ctKV s') (taskKey (tkName t)) = None"
    "ctClock s' = ctClock s" "ctSent s' = ctSent s"
proof -
  from assms(1) obtain e where e: "memM (ctKV s) (taskKey (tkName t)) = Some e" "entVal e = CTTask t" "tkDispatchCount t = int i"
    by (auto simp: waiting_def)
  have "i32 (int i + 1) = int i + 1" using assms(2) by (simp add: i32_small)
  then show thesis
    using that [of "s\<lparr>ctKV := snd (mem_Delete CtxLive (taskKey (tkName t)) 0 (ctKV s))\<rparr>"] e assms(3)
    by (simp add: dispatch_end_def getTaskRecord_def mem_Get_def Let_def mem_Delete_def)
qed

lemma dispatch_end_retry:
  assumes w: "waiting R i t s" and fits: "policy_fits R" and "\<not> ok" and lt: "int i + 1 < rpMaxAttempts R"
  defines "nxt \<equiv> ckNow (ctClock s) + ideal_backoff R i"
  obtains s' where "dispatch_end (tkName t) t R ok s = (Ok (), s')" "waiting R (Suc i) (attempted (ckNow (ctClock s)) nxt t) s'"
    "ctClock s' = snd (AfterFunc (ideal_backoff R i) (tkName t) (ctClock s))" "ctSent s' = ctSent s"
proof -
  from w obtain q e where q: "ctQueues s (queueOf (tkName t)) = Some q" "\<not> lqPaused q"
    and e: "memM (ctKV s) (taskKey (tkName t)) = Some e" "entVal e = CTTask t" "0 < entVersion e"
      "entVersion e + nat (rpMaxAttempts R) - i < 2 ^ 64"
    and c: "tkDispatchCount t = int i" and R: "retryConfig CtxLive (tkName t) s = R"
    by (auto simp: waiting_def)
  have pos: "0 < rpMinBackoff R" "0 < rpMaxBackoff R" using retryConfig_pos R by metis+
  have A: "rpMaxAttempts R < 2 ^ 31" "rpMaxBackoff R < 2 ^ 63" using fits by (auto simp: policy_fits_def)
  have i: "i32 (int i + 1) = int i + 1" "i32 (int i) = int i" using lt A by (simp_all add: i32_small)
  have b: "backoffFor R (int i + 1) = ideal_backoff R i"
    using backoffFor_ideal [OF fits pos(1), of "Suc i"] lt by (simp add: add.commute)
  have bp: "0 < ideal_backoff R i" "ideal_backoff R i \<le> max_i64"
    using pos A by (auto simp: ideal_backoff_def max_i64_def)
  let ?t = "attempted (ckNow (ctClock s)) nxt t"
  have t: "tkName ?t = tkName t" "tkDispatchCount ?t = int (Suc i)" by (simp_all add: attempted_def c)
  have room: "u64 (entVersion e + 1) = entVersion e + 1" using e(4) lt by (intro u64_small) linarith
  let ?e = "\<lparr>entVal = CTTask ?t, entVersion = entVersion e + 1\<rparr>"
  let ?s1 = "s\<lparr>ctKV := (ctKV s)\<lparr>memM := (memM (ctKV s))(taskKey (tkName t) \<mapsto> ?e)\<rparr>\<rparr>"
  have put: "putTask CtxLive ?t s = (Ok (entVersion e + 1), ?s1)"
    using e room by (simp add: putTask_def mem_Get_def mem_Put_def t Let_def)
  have delay: "time_sub nxt (ckNow (ctClock s)) = ideal_backoff R i"
    using bp by (simp add: nxt_def time_sub_def min_i64_def max_i64_def)
  let ?s2 = "?s1\<lparr>ctClock := snd (AfterFunc (ideal_backoff R i) (tkName t) (ctClock s)),
     ctQueues := (ctQueues s)(queueOf (tkName t) \<mapsto> q\<lparr>lqTimers := AList.update (tkName t) (ckPtr (ctClock s)) (lqTimers q)\<rparr>)\<rparr>"
  have sch: "schedule (tkName t) nxt ?s1 = ?s2"
    using q bp delay by (simp add: schedule_def liveQueue_def Let_def split_beta)
  have att: "t\<lparr>tkDispatchCount := int i + 1, tkLastAttempt := Some (ckNow (ctClock s)), tkSchedule := Some nxt\<rparr> = ?t"
    by (simp add: attempted_def c)
  have "dispatch_end (tkName t) t R ok s = (Ok (), ?s2)"
    using assms(3) lt e(1,2) c i b put sch
    by (simp add: dispatch_end_def getTaskRecord_def mem_Get_def Let_def nxt_def [symmetric] att)
  moreover have "waiting R (Suc i) ?t ?s2"
    using e lt q t R retryConfig_kv [of ?s2 "tkName t" s CtxLive] by (auto simp: waiting_def)
  ultimately show thesis using that by simp
qed


text \<open>The instants of the attempts: the first at \<open>w\<close>, each next one backoff later.\<close>

fun attempt_times :: "retry_policy \<Rightarrow> nat \<Rightarrow> time \<Rightarrow> nat \<Rightarrow> time list" where
  "attempt_times R i w 0 = []"
| "attempt_times R i w (Suc m) = w # attempt_times R (Suc i) (w + ideal_backoff R i) m"

lemma ideal_backoff_pos: "0 < rpMinBackoff R \<Longrightarrow> 0 < rpMaxBackoff R \<Longrightarrow> 0 < ideal_backoff R k"
  by (simp add: ideal_backoff_def)

text \<open>What a task has been sent as: when, with which attempt number and to which target.\<close>

definition sent_as :: "(time \<times> task) list \<Rightarrow> (time \<times> string \<times> int \<times> target) list" where
  "sent_as = map (\<lambda>(w, t). (w, tkName t, tkDispatchCount t, tkTarget t))"

lemma waiting_clock [simp]: "waiting R i t (s\<lparr>ctClock := c\<rparr>) = waiting R i t s"
proof -
  have "retryConfig CtxLive n (s\<lparr>ctClock := c\<rparr>) = retryConfig CtxLive n s" for n by (rule retryConfig_kv) simp
  then show ?thesis by (simp add: waiting_def)
qed

lemma retries_run:
  assumes "waiting R i t s" and "policy_fits R" and "int i < rpMaxAttempts R"
    and "\<And>u. tkTarget u = tkTarget t \<Longrightarrow> http_ok (http u) \<longleftrightarrow> int f \<le> tkDispatchCount u"
    and "m = min (nat (rpMaxAttempts R)) (Suc (max i f)) - i"
    and "ckQ c = [tm]" and "tF tm = tkName t" and "\<forall>w\<in>set (attempt_times R i (tWhen tm) m). w \<le> target"
  shows "\<exists>ts s' c'. run_loop (Suc m) (ct_exec http) target (s, c) = Some (ts, Ok (), s', c') \<and> ckQ c' = [] \<and>
     memM (ctKV s') (taskKey (tkName t)) = None \<and> ckIn c' = ckIn c \<and>
     sent_as (ctSent s') = sent_as (ctSent s) @ map2 (\<lambda>w k. (w, tkName t, int (i + k), tkTarget t)) (attempt_times R i (tWhen tm) m) [0..<m]"
  using assms
proof (induction m arbitrary: i t s c tm)
  case 0
  then show ?case by linarith
next
  case (Suc m)
  let ?c = "c\<lparr>ckQ := [], ckFired := tPtr tm # ckFired c, ckNow := tWhen tm\<rparr>"
  have due: "tWhen tm \<le> target" using Suc.prems(8) by simp
  have w0: "waiting R i t (s\<lparr>ctClock := ?c\<rparr>)" using Suc.prems(1) by simp
  obtain s1 where b: "dispatch_begin (tkName t) (s\<lparr>ctClock := ?c\<rparr>) = (Some (t, R), s1)" "waiting R i t s1"
    "ctClock s1 = ?c" "ctSent s1 = ctSent s @ [(tWhen tm, t)]"
    using w0 by (rule dispatch_begin_waiting) simp
  let ?ok = "http_ok (http t)"
  have ok: "?ok \<longleftrightarrow> f \<le> i" using Suc.prems(1,4) by (simp add: waiting_def)
  have A: "rpMaxAttempts R < 2 ^ 31" using Suc.prems(2) by (simp add: policy_fits_def)
  show ?case
  proof (cases "?ok \<or> rpMaxAttempts R \<le> int i + 1")
    case True
    obtain s2 where e: "dispatch_end (tkName t) t R ?ok s1 = (Ok (), s2)" "memM (ctKV s2) (taskKey (tkName t)) = None"
      "ctClock s2 = ctClock s1" "ctSent s2 = ctSent s1"
      using dispatch_end_last [OF b(2) _ True] A Suc.prems(3) by auto
    have m: "m = 0" using True ok Suc.prems(3,5) by auto
    have "ct_exec http (tkName t) (s, ?c) = (Ok (), s2, ?c)"
      using b e by (simp add: ct_exec_def dispatch_def)
    with m e b due Suc.prems(1,6,7) show ?thesis by (simp add: sent_as_def waiting_def)
  next
    case False
    let ?w = "tWhen tm" and ?n = "tWhen tm + ideal_backoff R i"
    let ?t = "attempted ?w ?n t"
    obtain s2 where e: "dispatch_end (tkName t) t R ?ok s1 = (Ok (), s2)" "waiting R (Suc i) ?t s2"
      "ctClock s2 = snd (AfterFunc (ideal_backoff R i) (tkName t) ?c)" "ctSent s2 = ctSent s1"
      using dispatch_end_retry [OF b(2) Suc.prems(2), of ?ok] False b(3) by auto
    have t: "tkName ?t = tkName t" "tkTarget ?t = tkTarget t" by (simp_all add: attempted_def)
    have m: "m = min (nat (rpMaxAttempts R)) (Suc (max (Suc i) f)) - Suc i" using False ok Suc.prems(5) by auto
    let ?c2 = "snd (AfterFunc (ideal_backoff R i) (tkName t) ?c)"
    have q: "ckQ ?c2 = [\<lparr>tPtr = ckPtr c, tWhen = ?n, tSeq = ckSeq c, tF = tkName t\<rparr>]" by (simp add: AfterFunc_empty)
    have "\<exists>ts s' c'. run_loop (Suc m) (ct_exec http) target (s2, ?c2) = Some (ts, Ok (), s', c') \<and> ckQ c' = [] \<and>
       memM (ctKV s') (taskKey (tkName ?t)) = None \<and> ckIn c' = ckIn ?c2 \<and>
       sent_as (ctSent s') = sent_as (ctSent s2) @
         map2 (\<lambda>w k. (w, tkName ?t, int (Suc i + k), tkTarget ?t)) (attempt_times R (Suc i) ?n m) [0..<m]"
      using Suc.IH [OF e(2) Suc.prems(2) _ _ m q] False Suc.prems(4,8) t by simp
    then obtain ts s' c' where IH: "run_loop (Suc m) (ct_exec http) target (s2, ?c2) = Some (ts, Ok (), s', c')" "ckQ c' = []"
       "memM (ctKV s') (taskKey (tkName t)) = None" "ckIn c' = ckIn c"
       "sent_as (ctSent s') = sent_as (ctSent s2) @
         map2 (\<lambda>w k. (w, tkName t, int (Suc i + k), tkTarget t)) (attempt_times R (Suc i) ?n m) [0..<m]"
      unfolding t by auto
    have x: "ct_exec http (tkName t) (s, ?c) = (Ok (), s2, ?c2)"
      using b e by (simp add: ct_exec_def dispatch_def)
    have "run_loop (Suc (Suc m)) (ct_exec http) target (s, c) = Some (tm # ts, Ok (), s', c')"
      using due Suc.prems(6,7) x IH(1) by (subst run_loop.simps) simp
    moreover have "[0..<Suc m] = 0 # map Suc [0..<m]" by (simp add: map_Suc_upt upt_conv_Cons del: upt_Suc)
    ultimately show ?thesis
      using IH(2-5) e(4) b(2,4) by (auto simp: sent_as_def waiting_def zip_map2 case_prod_beta' o_def)
  qed
qed

lemma attempt_first: "0 < m \<Longrightarrow> w \<in> set (attempt_times R i w m)"
  by (cases m) auto

text \<open>What a successful create did: the task as completed, stored and scheduled.\<close>

lemma CreateTask_form:
  assumes cr: "CreateTask cx parent (Some t0) s = (Ok t, s1)"
  defines "s0 \<equiv> if tkName t0 = '''' then snd (nextTaskID s) else s"
    and "nm \<equiv> if tkName t0 = '''' then parent @ ''/tasks/'' @ fst (nextTaskID s) else tkName t0"
  shows "t = t0\<lparr>tkName := nm, tkCreate := Some (ckNow (ctClock s)),
      tkSchedule := (if tkSchedule t0 = None then Some (ckNow (ctClock s)) else tkSchedule t0)\<rparr> \<and>
    (\<exists>q. getQueueRecord cx parent s = Ok q) \<and> (tkName t0 \<noteq> '''' \<longrightarrow> queueOf (tkName t0) = parent) \<and>
    (\<exists>v s2. putTask cx t s0 = (Ok v, s2) \<and> s1 = schedule (tkName t) (asTime (tkSchedule t)) s2)"
proof -
  let ?t = "t0\<lparr>tkName := nm, tkCreate := Some (ckNow (ctClock s)),
      tkSchedule := (if tkSchedule t0 = None then Some (ckNow (ctClock s)) else tkSchedule t0)\<rparr>"
  have parse: "parseTaskParent parent = Ok parent"
    using cr by (cases "validQueueName parent") (simp_all add: CreateTask_def parseTaskParent_def)
  have tgt: "tkTarget t0 \<noteq> AppEngineTarget" using cr parse by (auto simp: CreateTask_def)
  obtain q where q: "getQueueRecord cx parent s = Ok q"
    using cr parse tgt by (cases "getQueueRecord cx parent s") (simp_all add: CreateTask_def)
  have nm: "\<not> (tkName t0 \<noteq> '''' \<and> queueOf (tkName t0) \<noteq> parent)"
    using cr parse tgt q by (intro notI) (simp add: CreateTask_def)
  obtain r s2 where p: "putTask cx ?t s0 = (r, s2)" by force
  have "CreateTask cx parent (Some t0) s = (case r of Err _ \<Rightarrow> (Err (Errorf AlreadyExists ''Task already exists: %s'' [nm]), s2)
      | Ok _ \<Rightarrow> (Ok ?t, schedule nm (asTime (tkSchedule ?t)) s2))"
  proof (cases "tkName t0 = ''''")
    case True
    obtain ident sx where "nextTaskID s = (ident, sx)" by force
    with True p show ?thesis by (cases r) (simp_all add: CreateTask_def Let_def s0_def nm_def parse tgt q nm)
  next
    case False
    with p nm show ?thesis by (cases r) (simp_all add: CreateTask_def Let_def s0_def nm_def parse tgt q)
  qed
  with cr have "t = ?t" "is_ok r" "s1 = schedule nm (asTime (tkSchedule ?t)) s2" by (cases r; simp)+
  with p q nm show ?thesis by (cases r) auto
qed

lemma CreateTask_waiting:
  assumes cr: "CreateTask CtxLive parent (Some t0) s = (Ok t, s1)" and "queueOf (tkName t) = parent"
    and q: "ctQueues s parent = Some q" "\<not> lqPaused q" and "tkDispatchCount t0 = 0"
    and sch: "tkSchedule t0 = Some w" "ckNow (ctClock s) < w" "w \<le> ckNow (ctClock s) + max_i64"
    and new: "memM (ctKV s) (taskKey (tkName t)) = None" and fits: "policy_fits (retryConfig CtxLive (tkName t) s)"
  shows "waiting (retryConfig CtxLive (tkName t) s) 0 t s1 \<and> ctSent s1 = ctSent s \<and>
    ctClock s1 = snd (AfterFunc (w - ckNow (ctClock s)) (tkName t) (ctClock s)) \<and> tkTarget t = tkTarget t0"
proof -
  let ?s0 = "if tkName t0 = '''' then snd (nextTaskID s) else s"
  let ?R = "retryConfig CtxLive (tkName t) s"
  let ?s2 = "?s0\<lparr>ctKV := snd (mem_Put CtxLive (taskKey (tkName t)) (CTTask t) 0 (ctKV ?s0))\<rparr>"
  have s0: "ctKV ?s0 = ctKV s" "ctClock ?s0 = ctClock s" "ctQueues ?s0 = ctQueues s" "ctSent ?s0 = ctSent s"
    by (simp_all add: nextTaskID_def)
  let ?nm = "if tkName t0 = '''' then parent @ ''/tasks/'' @ fst (nextTaskID s) else tkName t0"
  note form = CreateTask_form [OF cr]
  have t: "t = t0\<lparr>tkName := ?nm, tkCreate := Some (ckNow (ctClock s)), tkSchedule := Some w\<rparr>"
    using form sch(1) by simp
  have put: "putTask CtxLive t ?s0 = (Ok 1, ?s2)"
    using new s0 by (simp add: putTask_def mem_Get_def mem_Put_def)
  have s1: "s1 = schedule (tkName t) w ?s2"
  proof -
    obtain v s2 where "putTask CtxLive t ?s0 = (Ok v, s2)" "s1 = schedule (tkName t) (asTime (tkSchedule t)) s2"
      using form by blast
    moreover have "asTime (tkSchedule t) = w" using t by (simp add: asTime_def)
    ultimately show ?thesis using put by simp
  qed
  let ?q = "q\<lparr>lqTimers := AList.update (tkName t) (ckPtr (ctClock s)) (lqTimers q)\<rparr>"
  have tsub: "time_sub w (ckNow (ctClock s)) = w - ckNow (ctClock s)" using sch by (simp add: time_sub_def min_i64_def max_i64_def)
  then have s1': "s1 = ?s2\<lparr>ctClock := snd (AfterFunc (w - ckNow (ctClock s)) (tkName t) (ctClock s)),
      ctQueues := (ctQueues s)(parent \<mapsto> ?q)\<rparr>"
    using s1 q sch s0 assms(2) by (simp add: schedule_def liveQueue_def Let_def split_beta)
  have kv: "memM (ctKV s1) = (memM (ctKV s))(taskKey (tkName t) \<mapsto> \<lparr>entVal = CTTask t, entVersion = 1\<rparr>)"
    using new s0 by (simp add: s1' mem_Put_def)
  have R: "retryConfig CtxLive (tkName t) s1 = ?R" by (rule retryConfig_kv) (simp add: kv)
  have "rpMaxAttempts ?R < 2 ^ 31" using fits by (simp add: policy_fits_def)
  then have "1 + nat (rpMaxAttempts ?R) < 2 ^ 64" by simp
  with R kv q assms(2,5) have "waiting ?R 0 t s1" by (auto simp: waiting_def s1' t)
  then show ?thesis using s0 by (simp add: s1' t)
qed

subsection \<open>Properties\<close>

text \<open>
  C28: a new task in a running queue is sent at its schedule time and then again after each failed
  attempt, with the doubling backoff of the queue's retry policy, until the endpoint accepts it or
  the policy's attempts are used up: exactly \<open>min maxAttempts (f + 1)\<close> requests when the endpoint fails the
  first \<open>f\<close>.  Advancing the clock far enough sends all of them, and the task is then gone.  The clock holds no other timer,
  the task is new, scheduled in the future and not attempted before, and the policy is one whose doubling fits in
  64 bits for every attempt it allows: beyond that the code's delay is no backoff (\<open>backoff_lost_after_64_attempts\<close>).
\<close>

theorem task_attempts_follow_policy:
  assumes "CreateTask CtxLive parent (Some t0) s = (Ok t, s1)" and "queueOf (tkName t) = parent"
    and "ctQueues s parent = Some q" and "\<not> lqPaused q" and "tkDispatchCount t0 = 0"
    and "tkSchedule t0 = Some w" and "ckNow (ctClock s) < w" and "memM (ctKV s) (taskKey (tkName t)) = None"
    and "ckQ (ctClock s) = []" and "\<not> ckIn (ctClock s)"
    and "R = retryConfig CtxLive (tkName t) s" and "policy_fits R"
    and "\<forall>u. tkTarget u = tkTarget t0 \<longrightarrow> (http_ok (http u) \<longleftrightarrow> int f \<le> tkDispatchCount u)"
    and "m = min (nat (rpMaxAttempts R)) (f + 1)"
    and "\<forall>a\<in>set (attempt_times R 0 w m). a \<le> ckNow (ctClock s) + d" and "d \<le> max_i64"
  shows "\<exists>ts s' c'. Advance (m + 1) (ct_exec http) d (s1, ctClock s1) = Some (ts, Ok (), s', c') \<and>
     sent_as (ctSent s') = sent_as (ctSent s) @ map2 (\<lambda>a k. (a, tkName t, int k, tkTarget t0)) (attempt_times R 0 w m) [0..<m] \<and>
     memM (ctKV s') (taskKey (tkName t)) = None \<and> ckQ c' = []"
proof -
  have A: "0 < rpMaxAttempts R" using retryConfig_pos assms(11) by simp
  then have m: "0 < m" using assms(14) by simp
  have wd: "w \<le> ckNow (ctClock s) + max_i64" using assms(15,16) attempt_first [OF m] by force
  have W1: "waiting R 0 t s1" "ctSent s1 = ctSent s" "ctClock s1 = snd (AfterFunc (w - ckNow (ctClock s)) (tkName t) (ctClock s))"
    "tkTarget t = tkTarget t0"
    using CreateTask_waiting [OF assms(1-7) wd assms(8)] assms(11,12) by auto
  let ?c = "(ctClock s1)\<lparr>ckIn := True\<rparr>" and ?tm = "\<lparr>tPtr = ckPtr (ctClock s), tWhen = w, tSeq = ckSeq (ctClock s), tF = tkName t\<rparr>"
  have q: "ckQ ?c = [?tm]" using W1(3) assms(9) by (simp add: AfterFunc_empty)
  have m': "m = min (nat (rpMaxAttempts R)) (Suc (max 0 f)) - 0" using assms(14) by simp
  obtain ts s' c' where run: "run_loop (Suc m) (ct_exec http) (ckNow (ctClock s) + d) (s1, ?c) = Some (ts, Ok (), s', c')"
    "ckQ c' = []" "memM (ctKV s') (taskKey (tkName t)) = None"
    "sent_as (ctSent s') = sent_as (ctSent s1) @ map2 (\<lambda>a k. (a, tkName t, int (0 + k), tkTarget t)) (attempt_times R 0 w m) [0..<m]"
    using retries_run [OF W1(1) assms(12) _ _ m' q, of http "ckNow (ctClock s) + d"] A assms(13,15) W1(4) by auto
  have "Advance (m + 1) (ct_exec http) d (s1, ctClock s1) = Some (ts, Ok (), s', c'\<lparr>ckNow := ckNow (ctClock s) + d, ckIn := False\<rparr>)"
    using run(1) assms(10) W1(3) by (simp add: Advance_def runTo_def)
  with run W1 show ?thesis by simp
qed

definition demo_queue :: string where "demo_queue = ''projects/p/locations/l/queues/q''"

definition demo_task :: task where
  "demo_task = \<lparr>tkName = '''', tkTarget = NoTarget, tkSchedule = Some (5 * second), tkCreate = None, tkDispatchCount = 0,
     tkLastAttempt = None\<rparr>"

definition queue_named :: "string \<Rightarrow> queue_record" where
  "queue_named nm = \<lparr>qrName = nm, qrState = StateUnspecified, qrRetry = None, qrPurgeTime = None\<rparr>"

definition demo_ct :: "string \<Rightarrow> ct" where
  "demo_ct nm = snd (CreateQueue CtxLive (Some (queue_named nm)) (New_ct NewMemory (NewFake 0)))"

definition second_time_lucky :: "task \<Rightarrow> http_result" where
  "second_time_lucky t = (if 1 \<le> tkDispatchCount t then DoStatus 204 else DoStatus 500)"

lemma New_ct_empty: "New_ct NewMemory (NewFake 0) = \<lparr>ctKV = NewMemory, ctClock = NewFake 0, ctQueues = Map.empty, ctSeq = 0,
    ctInFlight = [], ctStarted = 0, ctSent = []\<rparr>"
  by (simp add: New_ct_def recover_def mem_List_def NewMemory_def Let_def searchStrings_def)

lemma demo_ct_state:
  assumes "validQueueName nm = None" and "nm \<noteq> ''''"
  shows "demo_ct nm = \<lparr>ctKV = snd (mem_Put CtxLive (queueKey nm) (CTQueue ((queue_named nm)\<lparr>qrState := Running\<rparr>)) 0 NewMemory),
    ctClock = NewFake 0, ctQueues = [nm \<mapsto> newQueue], ctSeq = 0, ctInFlight = [], ctStarted = 0, ctSent = []\<rparr>"
  using assms unfolding demo_ct_def New_ct_empty by (simp add: CreateQueue_def queue_named_def Let_def mem_Put_def NewMemory_def)

lemma demo_queue_valid: "validQueueName demo_queue = None" "demo_queue \<noteq> ''''"
  by (simp_all add: demo_queue_def validQueueName_def Let_def)

theorem task_attempts_follow_policy_witness:
  "\<exists>t s1 ts s' c'. CreateTask CtxLive demo_queue (Some demo_task) (demo_ct demo_queue) = (Ok t, s1) \<and>
     Advance 3 (ct_exec second_time_lucky) (6 * second) (s1, ctClock s1) = Some (ts, Ok (), s', c') \<and>
     sent_as (ctSent s') = [(5 * second, tkName t, 0, NoTarget), (5 * second + 100 * millisecond, tkName t, 1, NoTarget)]"
proof -
  let ?s = "demo_ct demo_queue"
  let ?nm = "demo_queue @ ''/tasks/1''"
  have st: "ctKV ?s = snd (mem_Put CtxLive (queueKey demo_queue) (CTQueue ((queue_named demo_queue)\<lparr>qrState := Running\<rparr>)) 0 NewMemory)"
    "ctClock ?s = NewFake 0" "ctQueues ?s = [demo_queue \<mapsto> newQueue]" "ctSeq ?s = 0" "ctSent ?s = []"
    by (simp_all add: demo_ct_state [OF demo_queue_valid])
  have rec: "getQueueRecord CtxLive demo_queue ?s = Ok ((queue_named demo_queue)\<lparr>qrState := Running\<rparr>)"
    by (simp add: getQueueRecord_def st mem_Get_def mem_Put_def NewMemory_def)
  have nokey: "memM (ctKV ?s) (taskKey n) = None" for n
    by (simp add: st mem_Put_def NewMemory_def)
  have d1: "dec (Suc 0) = ''1''" by (subst dec.simps) (simp add: digit_char_def char_of_def bit_iff_odd)
  have cr: "\<exists>t s1. CreateTask CtxLive demo_queue (Some demo_task) ?s = (Ok t, s1) \<and> tkName t = ?nm"
    using rec nokey demo_queue_valid d1
    by (simp add: CreateTask_def parseTaskParent_def demo_task_def Let_def nextTaskID_def st putTask_def mem_Get_def mem_Put_def)
  then obtain t s1 where cr: "CreateTask CtxLive demo_queue (Some demo_task) ?s = (Ok t, s1)" and nm: "tkName t = ?nm" by blast
  have qo: "queueOf (tkName t) = demo_queue" by (simp add: nm demo_queue_def queueOf_def indexOfTasks_def)
  have R: "retryConfig CtxLive (tkName t) ?s = \<lparr>rpMaxAttempts = 3, rpMinBackoff = 100 * millisecond, rpMaxBackoff = 10 * second\<rparr>"
    by (simp add: retryConfig_def qo rec queue_named_def defaultMaxAttempts_def defaultMinBackoff_def defaultMaxBackoff_def)
  have times: "attempt_times (retryConfig CtxLive (tkName t) ?s) 0 (5 * second) 2 = [5 * second, 5 * second + 100 * millisecond]"
    unfolding R by (simp add: numeral_2_eq_2 ideal_backoff_def millisecond_def second_def)
  have "\<exists>ts s' c'. Advance (2 + 1) (ct_exec second_time_lucky) (6 * second) (s1, ctClock s1) = Some (ts, Ok (), s', c') \<and>
     sent_as (ctSent s') = sent_as (ctSent ?s) @ map2 (\<lambda>a k. (a, tkName t, int k, tkTarget demo_task))
       (attempt_times (retryConfig CtxLive (tkName t) ?s) 0 (5 * second) 2) [0..<2] \<and>
     memM (ctKV s') (taskKey (tkName t)) = None \<and> ckQ c' = []"
  proof (rule task_attempts_follow_policy [OF cr qo, where f = 1])
    show "policy_fits (retryConfig CtxLive (tkName t) ?s)"
      unfolding R by (simp add: policy_fits_def millisecond_def second_def)
    show "2 = min (nat (rpMaxAttempts (retryConfig CtxLive (tkName t) ?s))) (1 + 1)" unfolding R by simp
    show "\<forall>a\<in>set (attempt_times (retryConfig CtxLive (tkName t) ?s) 0 (5 * second) 2). a \<le> ckNow (ctClock ?s) + 6 * second"
      unfolding times by (simp add: st NewFake_def second_def millisecond_def)
    show "ctQueues ?s demo_queue = Some newQueue" "\<not> lqPaused newQueue" by (simp_all add: st newQueue_def)
    show "memM (ctKV ?s) (taskKey (tkName t)) = None" by (rule nokey)
  qed (simp_all add: st demo_task_def NewFake_def second_def max_i64_def second_time_lucky_def http_ok_def)
  then obtain ts s' c' where adv: "Advance 3 (ct_exec second_time_lucky) (6 * second) (s1, ctClock s1) = Some (ts, Ok (), s', c')"
    and sent: "sent_as (ctSent s') = sent_as (ctSent ?s) @ map2 (\<lambda>a k. (a, tkName t, int k, tkTarget demo_task))
       [5 * second, 5 * second + 100 * millisecond] [0..<2]"
    unfolding times by auto
  have "[0..<2] = [0, 1]" by (simp add: upt_rec)
  then have "sent_as (ctSent s') = [(5 * second, tkName t, 0, NoTarget), (5 * second + 100 * millisecond, tkName t, 1, NoTarget)]"
    unfolding sent by (simp add: st sent_as_def demo_task_def)
  with cr adv show ?thesis by blast
qed

lemma shl64_gone: "64 \<le> n \<Longrightarrow> shl64 x n = 0"
proof -
  assume "64 \<le> n"
  then obtain k where "n = 64 + k" using le_Suc_ex by blast
  then have "x * 2 ^ n + 2 ^ 63 = 2 ^ 63 + 2 ^ 64 * (x * 2 ^ k)" by (simp add: power_add)
  then have "(x * 2 ^ n + 2 ^ 63) mod 2 ^ 64 = 2 ^ 63" by (simp only: mod_mult_self2) simp
  then show ?thesis by (simp add: shl64_def i64_def)
qed

text \<open>
  The doubling is lost when it no longer fits in 64 bits.  After more than 64 failed attempts the
  shifted backoff is zero, so whatever the queue's policy, the next attempt is launched at once instead of
  after the maximum backoff.
\<close>

theorem backoff_lost_after_64_attempts:
  assumes "waiting R i t s" and "64 \<le> i" and "int i + 1 < rpMaxAttempts R" and "rpMaxAttempts R < 2 ^ 31"
  shows "\<exists>s'. dispatch_end (tkName t) t R False s = (Ok (), s') \<and> ctInFlight s' = ctInFlight s @ [tkName t] \<and>
           ctClock s' = ctClock s \<and> 0 < rpMaxBackoff R"
proof -
  from assms(1) obtain q e where q: "ctQueues s (queueOf (tkName t)) = Some q" "\<not> lqPaused q"
    and e: "memM (ctKV s) (taskKey (tkName t)) = Some e" "entVal e = CTTask t" "0 < entVersion e"
    and c: "tkDispatchCount t = int i" and R: "retryConfig CtxLive (tkName t) s = R"
    by (auto simp: waiting_def)
  have i: "i32 (int i + 1) = int i + 1" "i32 (int i) = int i" using assms(2-4) by (simp_all add: i32_small)
  have "shl64 (rpMinBackoff R) i = 0"
    using assms(2) by (rule shl64_gone)
  then have b: "backoffFor R (int i + 1) = 0" using i retryConfig_pos(2) [of CtxLive "tkName t" s] R by (simp add: backoffFor_def Let_def)
  show ?thesis
    using q e c i b R retryConfig_pos(2) [of CtxLive "tkName t" s] assms(3)
    by (simp add: dispatch_end_def getTaskRecord_def mem_Get_def Let_def putTask_def mem_Put_def schedule_def liveQueue_def time_sub_def
        min_i64_def max_i64_def)
qed


theorem backoff_lost_after_64_attempts_witness:
  "\<exists>R t s. waiting R 64 t s \<and> rpMaxBackoff R = 10 * second \<and>
     (\<exists>s'. dispatch_end (tkName t) t R False s = (Ok (), s') \<and> ctInFlight s' = [tkName t] \<and> ctClock s' = ctClock s)"
proof -
  let ?q = "\<lparr>qrName = ''q'', qrState = Running, qrRetry = Some \<lparr>rcMaxAttempts = 100, rcMinBackoff = None, rcMaxBackoff = None\<rparr>, qrPurgeTime = None\<rparr>"
  let ?t = "demo_task\<lparr>tkName := ''q/tasks/1'', tkDispatchCount := 64\<rparr>"
  let ?R = "\<lparr>rpMaxAttempts = 100, rpMinBackoff = 100 * millisecond, rpMaxBackoff = 10 * second\<rparr>"
  let ?m = "\<lparr>memM = [queueKey ''q'' \<mapsto> \<lparr>entVal = CTQueue ?q, entVersion = 1\<rparr>, taskKey ''q/tasks/1'' \<mapsto> \<lparr>entVal = CTTask ?t, entVersion = 65\<rparr>],
    memKeys = [queueKey ''q'', taskKey ''q/tasks/1'']\<rparr>"
  let ?s = "\<lparr>ctKV = ?m, ctClock = NewFake 0, ctQueues = [''q'' \<mapsto> newQueue], ctSeq = 1, ctInFlight = [], ctStarted = 0, ctSent = []\<rparr>"
  have qo: "queueOf ''q/tasks/1'' = ''q''" by (simp add: queueOf_def indexOfTasks_def)
  have w: "waiting ?R 64 ?t ?s"
    by (simp add: waiting_def qo newQueue_def retryConfig_def getQueueRecord_def mem_Get_def asDuration_def Let_def
        defaultMinBackoff_def defaultMaxBackoff_def)
  obtain s' where s': "dispatch_end (tkName ?t) ?t ?R False ?s = (Ok (), s')" "ctInFlight s' = ctInFlight ?s @ [tkName ?t]"
    "ctClock s' = ctClock ?s"
    using backoff_lost_after_64_attempts [OF w] by auto
  show ?thesis by (intro exI conjI, rule w, simp, rule s'(1), simp add: s'(2), rule s'(3))
qed

text \<open>
  A queue whose own name is \<open>tasks\<close> never dispatches: the queue of a task is taken to be what comes
  before the first \<open>/tasks/\<close> of its name, which for the tasks of that queue is not the queue.  A task
  created in it is stored and accepted, and nothing is launched and no timer is armed for it.
\<close>

theorem queue_named_tasks_never_dispatches:
  assumes "CreateTask CtxLive ''projects/p/locations/l/queues/tasks'' (Some t0) s = (Ok t, s1)" and "tkName t0 = ''''"
    and "ctQueues s ''projects/p/locations/l/queues'' = None"
    and "memM (ctKV s) (queueKey ''projects/p/locations/l/queues'') = None"
  shows "ctInFlight s1 = ctInFlight s \<and> ctClock s1 = ctClock s \<and> getTaskRecord CtxLive (tkName t) s1 = Ok t"
proof -
  obtain v s2 where p: "putTask CtxLive t (snd (nextTaskID s)) = (Ok v, s2)"
    and s1: "s1 = schedule (tkName t) (asTime (tkSchedule t)) s2"
    and nm: "tkName t = ''projects/p/locations/l/queues/tasks/tasks/'' @ fst (nextTaskID s)"
    using CreateTask_form [OF assms(1)] assms(2) by auto
  have qo: "queueOf (tkName t) = ''projects/p/locations/l/queues''"
    by (simp add: nm queueOf_def indexOfTasks_def)
  have s2: "ctQueues s2 = ctQueues s" "ctClock s2 = ctClock s" "ctInFlight s2 = ctInFlight s"
    "memM (ctKV s2) (queueKey q) = memM (ctKV s) (queueKey q)" "getTaskRecord CtxLive (tkName t) s2 = Ok t" for q
    using p by (auto simp: putTask_def nextTaskID_def mem_Put_def mem_Get_def getTaskRecord_def Let_def split: option.splits if_splits)
  have "s1 = s2"
    using assms(3,4) s2 by (simp add: s1 schedule_def qo liveQueue_def getQueueRecord_def mem_Get_def)
  with s2 show ?thesis by simp
qed

theorem queue_named_tasks_never_dispatches_witness:
  "\<exists>t s1. CreateTask CtxLive ''projects/p/locations/l/queues/tasks'' (Some demo_task) (demo_ct ''projects/p/locations/l/queues/tasks'') = (Ok t, s1) \<and>
     ctInFlight s1 = [] \<and> ckQ (ctClock s1) = []"
proof -
  let ?nm = "''projects/p/locations/l/queues/tasks''"
  let ?s = "demo_ct ?nm"
  have v: "validQueueName ?nm = None" by (simp add: validQueueName_def Let_def)
  note st = demo_ct_state [OF v, simplified]
  have kv: "memM (ctKV ?s) = [queueKey ?nm \<mapsto> \<lparr>entVal = CTQueue ((queue_named ?nm)\<lparr>qrState := Running\<rparr>), entVersion = 1\<rparr>]"
    and q: "ctQueues ?s = [?nm \<mapsto> newQueue]" and c: "ctClock ?s = NewFake 0" "ctInFlight ?s = []"
    by (simp_all add: st mem_Put_def NewMemory_def)
  have "\<exists>t s1. CreateTask CtxLive ?nm (Some demo_task) ?s = (Ok t, s1)"
    using v by (simp add: CreateTask_def parseTaskParent_def demo_task_def Let_def nextTaskID_def getQueueRecord_def putTask_def
        mem_Get_def mem_Put_def kv)
  then obtain t s1 where cr: "CreateTask CtxLive ?nm (Some demo_task) ?s = (Ok t, s1)" by blast
  have "ctInFlight s1 = ctInFlight ?s \<and> ctClock s1 = ctClock ?s \<and> getTaskRecord CtxLive (tkName t) s1 = Ok t"
    by (rule queue_named_tasks_never_dispatches [OF cr]) (simp_all add: demo_task_def q kv)
  with cr c show ?thesis by (auto simp: NewFake_def)
qed

end
