(* ===== verification/Cloud_Tasks_Inv.thy ===== *)
theory Cloud_Tasks_Inv
  imports Cloud_Tasks
begin

text \<open>
  The invariant of Cloud Tasks over every interleaving of client calls, timers, goroutines and
  responses: the store is well typed, timers belong to the queue that lists them, and no stored task of a
  running queue is left without something that will dispatch it.
\<close>

subsection \<open>Names\<close>

text \<open>A name that has the marker, and the queue it belongs to.\<close>

definition proper :: "string \<Rightarrow> bool" where
  "proper n \<longleftrightarrow> indexOfTasks n \<noteq> None"

definition tasks_free :: "string \<Rightarrow> bool" where
  "tasks_free q \<longleftrightarrow> queueOf (q @ ''/tasks/'') = q"

lemma proper_prefix: "proper n \<Longrightarrow> prefix (taskPrefix (queueOf n)) (taskKey n)"
proof -
  assume "proper n"
  then obtain i where i: "go_index n ''/tasks/'' = Some i" by (auto simp: proper_def indexOfTasks_def)
  have "prefix ''/tasks/'' (drop i n)" using go_index_SomeD [OF i] by simp
  then obtain r where "drop i n = ''/tasks/'' @ r" by (auto simp: prefix_def)
  then have "n = take i n @ ''/tasks/'' @ r" by (metis append_take_drop_id)
  then have "taskKey n = taskPrefix (take i n) @ r" by (simp add: taskKey_def taskPrefix_def)
  then show ?thesis using i by (auto simp: queueOf_def indexOfTasks_def prefix_def)
qed

lemma go_index_unique:
  assumes "i \<le> length s" and "prefix sub (drop i s)" and "\<And>j. j < i \<Longrightarrow> \<not> prefix sub (drop j s)"
  shows "go_index s sub = Some i"
proof (cases "go_index s sub")
  case None
  then show ?thesis using assms(1,2) by (auto simp: go_index_None_iff)
next
  case (Some k)
  note K = go_index_SomeD [OF Some]
  have "\<not> i < k" using K assms(2) by auto
  moreover have "\<not> k < i" using K assms(3) by auto
  ultimately show ?thesis using Some by simp
qed

lemma tasks_free_queueOf:
  assumes "tasks_free q"
  shows "queueOf (q @ ''/tasks/'' @ x) = q \<and> proper (q @ ''/tasks/'' @ x)"
proof -
  let ?m = "''/tasks/''"
  have ne: "go_index (q @ ?m) ?m \<noteq> None" by (auto simp: go_index_None_iff intro!: exI [of _ "length q"])
  then obtain k where k: "go_index (q @ ?m) ?m = Some k" by blast
  note K = go_index_SomeD [OF k]
  have "take k (q @ ?m) = q" using assms k by (simp add: tasks_free_def queueOf_def indexOfTasks_def)
  then have kq: "k = length q" using K by (metis length_take min.absorb2)
  have "go_index (q @ ?m @ x) ?m = Some (length q)"
  proof (rule go_index_unique)
    fix j assume j: "j < length q"
    show "\<not> prefix ?m (drop j (q @ ?m @ x))"
    proof
      assume p: "prefix ?m (drop j (q @ ?m @ x))"
      have "drop j (q @ ?m @ x) = drop j (q @ ?m) @ x" using j by simp
      then have "prefix ?m (drop j (q @ ?m) @ x)" using p by simp
      moreover have "length ?m \<le> length (drop j (q @ ?m))" using j by simp
      ultimately have "prefix ?m (drop j (q @ ?m))" using prefix_length_prefix prefixI by metis
      then show False using K kq j by auto
    qed
  qed (auto simp: prefix_def)
  then show ?thesis by (simp add: queueOf_def proper_def indexOfTasks_def)
qed

subsection \<open>The invariant\<close>

text \<open>
  \<open>X\<close> are tasks a step has yet to arm, \<open>Z\<close> those whose request is with the HTTP client.
\<close>

definition armed :: "string set \<Rightarrow> ct \<Rightarrow> string set" where
  "armed Z s = set (ctInFlight s) \<union> tF ` set (ckQ (ctClock s)) \<union> Z"

definition stored :: "string \<Rightarrow> ct \<Rightarrow> bool" where
  "stored n s \<longleftrightarrow> memM (ctKV s) (taskKey n) \<noteq> None"

definition recorded :: "string \<Rightarrow> ct \<Rightarrow> bool" where
  "recorded q s \<longleftrightarrow> memM (ctKV s) (queueKey q) \<noteq> None"

definition typed :: "ctval memory \<Rightarrow> bool" where
  "typed m \<longleftrightarrow> (\<forall>k e. memM m k = Some e \<longrightarrow>
     (\<exists>t. k = taskKey (tkName t) \<and> entVal e = CTTask t) \<or> (\<exists>n q. k = queueKey n \<and> entVal e = CTQueue q))"

definition timers_ok :: "ct \<Rightarrow> bool" where
  "timers_ok s \<longleftrightarrow> (\<forall>Q q n p. ctQueues s Q = Some q \<longrightarrow> (n, p) \<in> set (lqTimers q) \<longrightarrow>
     queueOf n = Q \<and> p < ckPtr (ctClock s) \<and> (\<forall>tm\<in>set (ckQ (ctClock s)). tPtr tm = p \<longrightarrow> tF tm = n))"

definition cared :: "string \<Rightarrow> string set \<Rightarrow> ct \<Rightarrow> bool" where
  "cared n Z s \<longleftrightarrow> (\<exists>q. ctQueues s (queueOf n) = Some q \<and> (lqPaused q \<or> n \<in> armed Z s))"

definition ct_inv :: "string set \<Rightarrow> string set \<Rightarrow> ct \<Rightarrow> bool" where
  "ct_inv X Z s \<longleftrightarrow>
     mem_wf (ctKV s) \<and> clock_wf (ctClock s) \<and> typed (ctKV s) \<and> timers_ok s \<and>
     (\<forall>q. ctQueues s q \<noteq> None \<longrightarrow> recorded q s) \<and>
     (\<forall>n. stored n s \<and> proper n \<longrightarrow> recorded (queueOf n) s) \<and>
     (\<forall>n. stored n s \<and> proper n \<and> n \<notin> X \<longrightarrow> cared n Z s)"

lemma ct_invD:
  assumes "ct_inv X Z s"
  shows "mem_wf (ctKV s)" and "clock_wf (ctClock s)" and "typed (ctKV s)" and "timers_ok s"
    and "\<And>q. ctQueues s q \<noteq> None \<Longrightarrow> recorded q s"
    and "\<And>n. stored n s \<Longrightarrow> proper n \<Longrightarrow> recorded (queueOf n) s"
    and "\<And>n. stored n s \<Longrightarrow> proper n \<Longrightarrow> n \<notin> X \<Longrightarrow> cared n Z s"
  using assms by (auto simp: ct_inv_def)

lemma recorded_get: "typed (ctKV s) \<Longrightarrow> recorded q s \<Longrightarrow> \<exists>r. getQueueRecord CtxLive q s = Ok r"
proof -
  assume t: "typed (ctKV s)" and "recorded q s"
  then obtain e where e: "memM (ctKV s) (queueKey q) = Some e" by (auto simp: recorded_def)
  then obtain r where "entVal e = CTQueue r" using t by (fastforce simp: typed_def)
  with e show ?thesis by (simp add: getQueueRecord_def mem_Get_def)
qed

text \<open>Scheduling a task arms it, unless its queue is paused.\<close>

lemma schedule_keeps: "ctKV (schedule n w s) = ctKV s" "ctSent (schedule n w s) = ctSent s"
  by (auto simp: schedule_def liveQueue_def Let_def split: option.splits result.splits prod.splits)

lemma timers_ok_arm:
  assumes "timers_ok s" and "clock_wf (ctClock s)" and "ctQueues s (queueOf n) = Some q"
  shows "timers_ok (s\<lparr>ctClock := snd (AfterFunc d n (ctClock s)),
     ctQueues := (ctQueues s)(queueOf n \<mapsto> q\<lparr>lqTimers := AList.update n (ckPtr (ctClock s)) (lqTimers q)\<rparr>)\<rparr>)"
proof -
  have upd: "(a, p) \<in> set (AList.update n (ckPtr (ctClock s)) ts) \<Longrightarrow> (a, p) \<in> set ts \<or> (a = n \<and> p = ckPtr (ctClock s))" for a p ts
    by (induction ts) (auto split: if_splits)
  have fresh: "tPtr tm \<noteq> ckPtr (ctClock s)" if "tm \<in> set (ckQ (ctClock s))" for tm
    using assms(2) that by (auto simp: clock_wf_def)
  show ?thesis
    unfolding timers_ok_def
  proof (intro allI impI)
    let ?s = "s\<lparr>ctClock := snd (AfterFunc d n (ctClock s)),
       ctQueues := (ctQueues s)(queueOf n \<mapsto> q\<lparr>lqTimers := AList.update n (ckPtr (ctClock s)) (lqTimers q)\<rparr>)\<rparr>"
    fix Q q' a p assume h: "ctQueues ?s Q = Some q'" "(a, p) \<in> set (lqTimers q')"
    have "queueOf a = Q \<and> (p < ckPtr (ctClock s) \<and> (\<forall>tm\<in>set (ckQ (ctClock s)). tPtr tm = p \<longrightarrow> tF tm = a) \<or> a = n \<and> p = ckPtr (ctClock s))"
    proof (cases "Q = queueOf n")
      case True
      then have "(a, p) \<in> set (lqTimers q) \<or> (a = n \<and> p = ckPtr (ctClock s))" using h upd [of a p "lqTimers q"] by auto
      with True assms(1,3) show ?thesis unfolding timers_ok_def by metis
    next
      case False
      with h assms(1) show ?thesis unfolding timers_ok_def by simp
    qed
    then show "queueOf a = Q \<and> p < ckPtr (ctClock ?s) \<and> (\<forall>tm\<in>set (ckQ (ctClock ?s)). tPtr tm = p \<longrightarrow> tF tm = a)"
      using fresh by (auto simp: set_AfterFunc [OF assms(2)])
  qed
qed

text \<open>A step that leaves the store alone.\<close>

lemma ct_inv_step:
  assumes "ct_inv X Z s" and "ctKV t = ctKV s" and "clock_wf (ctClock t)" and "timers_ok t"
    and "\<And>Q. ctQueues t Q \<noteq> None \<Longrightarrow> recorded Q s"
    and "\<And>n. stored n s \<Longrightarrow> proper n \<Longrightarrow> n \<notin> Y \<Longrightarrow> cared n Z' t"
  shows "ct_inv Y Z' t"
  using assms unfolding ct_inv_def recorded_def stored_def by simp

lemma schedule_recorded_inv:
  assumes inv: "ct_inv X Z s" and rec: "recorded (queueOf n) s"
  shows "ct_inv (X - {n}) Z (schedule n w s)"
proof -
  note D = ct_invD [OF inv]
  obtain r where r: "getQueueRecord CtxLive (queueOf n) s = Ok r" using recorded_get [OF D(3) rec] by blast
  obtain q s1 where live: "liveQueue (queueOf n) s = (Some q, s1)" "ctQueues s1 (queueOf n) = Some q"
      "ctKV s1 = ctKV s" "ctClock s1 = ctClock s" "ctInFlight s1 = ctInFlight s"
      "\<And>Q. Q \<noteq> queueOf n \<Longrightarrow> ctQueues s1 Q = ctQueues s Q" "ctQueues s (queueOf n) = Some q \<or> ctQueues s (queueOf n) = None \<and> lqTimers q = []"
    using r by (cases "ctQueues s (queueOf n)") (auto simp: liveQueue_def newQueue_def Let_def)
  have T1: "timers_ok s1"
    unfolding timers_ok_def
  proof (intro allI impI)
    fix Q q' a p assume h: "ctQueues s1 Q = Some q'" "(a, p) \<in> set (lqTimers q')"
    then have "ctQueues s Q = Some q'" using live(2,6,7) by (cases "Q = queueOf n") auto
    with h D(4) live(4) show "queueOf a = Q \<and> p < ckPtr (ctClock s1) \<and> (\<forall>tm\<in>set (ckQ (ctClock s1)). tPtr tm = p \<longrightarrow> tF tm = a)"
      unfolding timers_ok_def by metis
  qed
  have C1: "cared m Z s1" if "cared m Z s" for m
    using that live(2,4-7) by (cases "queueOf m = queueOf n") (auto simp: cared_def armed_def)
  have Q1: "ctQueues s1 Q \<noteq> None \<Longrightarrow> recorded Q s" for Q using D(5) live(6) rec by (cases "Q = queueOf n") auto
  show ?thesis
  proof (cases "lqPaused q")
    case True
    then have s': "schedule n w s = s1" using live(1) by (simp add: schedule_def)
    have "cared n Z s1" using True live(2) by (auto simp: cared_def)
    with C1 D(7) show ?thesis
      unfolding s' using T1 live(3,4) D(2) Q1 by (intro ct_inv_step [OF inv]) auto
  next
    case False
    show ?thesis
    proof (cases "time_sub w (ckNow (ctClock s1)) \<le> 0")
      case True
      let ?s = "s1\<lparr>ctStarted := u64 (ctStarted s1 + 1), ctInFlight := ctInFlight s1 @ [n]\<rparr>"
      have s': "schedule n w s = ?s" using live(1) False True by (simp add: schedule_def Let_def)
      have "cared m Z ?s" if "cared m Z s \<or> m = n" for m
        using that C1 [of m] live(2) by (auto simp: cared_def armed_def)
      moreover have "timers_ok ?s" using T1 by (simp add: timers_ok_def)
      ultimately show ?thesis
        unfolding s' using D(2,7) live(3,4) Q1 by (intro ct_inv_step [OF inv]) auto
    next
      case delay: False
      let ?d = "time_sub w (ckNow (ctClock s1))"
      let ?s = "s1\<lparr>ctClock := snd (AfterFunc ?d n (ctClock s1)),
         ctQueues := (ctQueues s1)(queueOf n \<mapsto> q\<lparr>lqTimers := AList.update n (ckPtr (ctClock s1)) (lqTimers q)\<rparr>)\<rparr>"
      have s': "schedule n w s = ?s" using live(1) False delay by (simp add: schedule_def Let_def split_beta)
      have wf: "clock_wf (ctClock s1)" using D(2) live(4) by simp
      have "cared m Z ?s" if "cared m Z s \<or> m = n" for m
        using that C1 [of m] live(2) set_AfterFunc [OF wf, of ?d n] by (auto simp: cared_def armed_def)
      moreover have "timers_ok ?s" using timers_ok_arm [OF T1 wf live(2)] .
      moreover have "clock_wf (ctClock ?s)" using AfterFunc_wf [OF wf] by simp
      moreover have "ctQueues ?s Q \<noteq> None \<Longrightarrow> recorded Q s" for Q using Q1 rec by (cases "Q = queueOf n") auto
      ultimately show ?thesis
        unfolding s' using D(7) live(3) by (intro ct_inv_step [OF inv]) auto
    qed
  qed
qed


lemma schedule_inv:
  assumes inv: "ct_inv X Z s"
  shows "ct_inv (X - {n}) Z (schedule n w s)"
proof (cases "recorded (queueOf n) s")
  case True
  with inv show ?thesis by (rule schedule_recorded_inv)
next
  case False
  note D = ct_invD [OF inv]
  have "ctQueues s (queueOf n) = None" using D(5) False by blast
  then have "schedule n w s = s"
    using False by (simp add: schedule_def liveQueue_def getQueueRecord_def mem_Get_def recorded_def)
  moreover have "ct_inv (X - {n}) Z s" using inv False unfolding ct_inv_def by blast
  ultimately show ?thesis by simp
qed

definition names_in :: "ctval kv list \<Rightarrow> string set" where
  "names_in kvs = {n. \<exists>kv\<in>set kvs. \<exists>t. kvVal kv = CTTask t \<and> tkName t = n}"

lemma names_in_simps [simp]: "names_in [] = {}"
  "names_in (kv # kvs) = (case kvVal kv of CTTask t \<Rightarrow> insert (tkName t) (names_in kvs) | _ \<Rightarrow> names_in kvs)"
  by (auto simp: names_in_def split: ctval.splits)

lemma schedule_entries_inv: "ct_inv X Z s \<Longrightarrow> ct_inv (X - names_in kvs) Z (schedule_entries kvs s)"
proof (induction kvs arbitrary: X s)
  case (Cons kv kvs)
  show ?case
  proof (cases "kvVal kv")
    case (CTTask t)
    have "ct_inv (X - {tkName t} - names_in kvs) Z (schedule_entries kvs (schedule (tkName t) (asTime (tkSchedule t)) s))"
      using Cons.IH [OF schedule_inv [OF Cons.prems]] .
    moreover have "X - {tkName t} - names_in kvs = X - insert (tkName t) (names_in kvs)" by auto
    ultimately show ?thesis using CTTask by simp
  qed (use Cons.IH [OF Cons.prems] in auto)
qed simp

text \<open>The tasks a listing under a prefix finds.\<close>

lemma ct_inv_mono: "ct_inv X Z s \<Longrightarrow> X \<subseteq> Y \<Longrightarrow> ct_inv Y Z s"
  unfolding ct_inv_def by blast

lemma typed_task: "typed m \<Longrightarrow> memM m (taskKey n) = Some e \<Longrightarrow> \<exists>t. entVal e = CTTask t \<and> tkName t = n"
  by (fastforce simp: typed_def)

lemma typed_val: "typed m \<Longrightarrow> kvVal (kv_at m k) = CTTask t \<Longrightarrow> memM m k \<noteq> None \<and> k = taskKey (tkName t)"
  by (cases "memM m k") (fastforce simp: typed_def kv_at_def zero_ctval_def)+

lemma rearm_entries_inv:
  assumes inv: "ct_inv X Z s" and sub: "\<And>n. n \<in> X \<Longrightarrow> stored n s \<Longrightarrow> proper n \<Longrightarrow> prefix pfx (taskKey n)"
  shows "ct_inv {} Z (case mem_List CtxLive pfx 0 '''' (ctKV s) of Err _ \<Rightarrow> s | Ok (entries, _) \<Rightarrow> schedule_entries entries s)"
proof -
  note D = ct_invD [OF inv]
  let ?kvs = "map (kv_at (ctKV s)) (list_keys pfx None (ctKV s))"
  obtain tok where li: "mem_List CtxLive pfx 0 '''' (ctKV s) = Ok (?kvs, tok)" using list_all_entries [OF D(1)] by blast
  have kv': "ctKV (schedule_entries kvs s) = ctKV s" for kvs :: "ctval kv list" and s
    by (induction kvs arbitrary: s) (auto simp: schedule_keeps split: ctval.splits)
  have "ct_inv (X - names_in ?kvs) Z (schedule_entries ?kvs s)"
    using schedule_entries_inv [OF inv] .
  moreover have "\<forall>n\<in>X. stored n s \<and> proper n \<longrightarrow> n \<in> names_in ?kvs"
  proof (intro ballI impI)
    fix n assume n: "n \<in> X" "stored n s \<and> proper n"
    then obtain e where e: "memM (ctKV s) (taskKey n) = Some e" by (auto simp: stored_def)
    then obtain t where t: "entVal e = CTTask t" "tkName t = n" using typed_task [OF D(3)] by blast
    have "taskKey n \<in> set (list_keys pfx None (ctKV s))" using e sub [of n] n listed_key [OF D(1)] by auto
    then have "kv_at (ctKV s) (taskKey n) \<in> set ?kvs" by simp
    moreover have "kvVal (kv_at (ctKV s) (taskKey n)) = CTTask t" using e t by (simp add: kv_at_def)
    ultimately show "n \<in> names_in ?kvs" using t(2) unfolding names_in_def by blast
  qed
  ultimately have "ct_inv {} Z (schedule_entries ?kvs s)"
    unfolding ct_inv_def stored_def kv' by blast
  with li show ?thesis by simp
qed


subsection \<open>Stopping timers\<close>

lemma stop_timers_wf: "clock_wf c \<Longrightarrow> clock_wf (stop_timers ts c)"
  by (induction ts c rule: stop_timers.induct) (auto intro: Stop_wf)

lemma stop_timers_set: "clock_wf c \<Longrightarrow> set (ckQ (stop_timers ts c)) = {t \<in> set (ckQ c). tPtr t \<notin> snd ` set ts}"
  by (induction ts c rule: stop_timers.induct) (auto simp: Stop_wf set_Stop)

lemma stop_timers_ptr [simp]: "ckPtr (stop_timers ts c) = ckPtr c"
  by (induction ts c rule: stop_timers.induct) auto

text \<open>Stopping the timers a queue holds disarms only tasks of that queue.\<close>

lemma armed_stop:
  assumes "timers_ok s" and "clock_wf (ctClock s)" and "ctQueues s Q = Some q" and "set ts \<subseteq> set (lqTimers q)"
    and "n \<in> armed Z s" and "queueOf n \<noteq> Q \<or> n \<notin> fst ` set ts"
  shows "n \<in> armed Z (s\<lparr>ctClock := stop_timers ts (ctClock s)\<rparr>)"
proof -
  have "tPtr tm \<notin> snd ` set ts" if "tm \<in> set (ckQ (ctClock s))" "tF tm = n" for tm
  proof
    assume "tPtr tm \<in> snd ` set ts"
    then obtain m where m: "(m, tPtr tm) \<in> set ts" by auto
    then have "queueOf m = Q \<and> tF tm = m" using assms(1,3,4) that(1) unfolding timers_ok_def by blast
    with that(2) assms(6) m show False by force
  qed
  with assms(5) show ?thesis unfolding armed_def by (auto simp: stop_timers_set [OF assms(2)])
qed

lemma timers_ok_stop: "timers_ok s \<Longrightarrow> clock_wf (ctClock s) \<Longrightarrow> timers_ok (s\<lparr>ctClock := stop_timers ts (ctClock s)\<rparr>)"
  unfolding timers_ok_def by (auto simp: stop_timers_set)

lemma timers_ok_queues:
  assumes "timers_ok s" and "ctClock t = ctClock s"
    and "\<And>Q q'. ctQueues t Q = Some q' \<Longrightarrow> lqTimers q' = [] \<or> (\<exists>q. ctQueues s Q = Some q \<and> set (lqTimers q') \<subseteq> set (lqTimers q))"
  shows "timers_ok t"
  unfolding timers_ok_def
proof (intro allI impI)
  fix Q q' n p assume h: "ctQueues t Q = Some q'" "(n, p) \<in> set (lqTimers q')"
  then obtain q where "ctQueues s Q = Some q" "(n, p) \<in> set (lqTimers q)" using assms(3) [of Q q'] by auto
  with assms(1,2) show "queueOf n = Q \<and> p < ckPtr (ctClock t) \<and> (\<forall>tm\<in>set (ckQ (ctClock t)). tPtr tm = p \<longrightarrow> tF tm = n)"
    unfolding timers_ok_def by simp
qed

lemma delete_sub: "set (AList.delete n ts) \<subseteq> set ts"
  by (auto simp: AList.delete_eq)

subsection \<open>Changes of the store\<close>

lemma delete_entries_map:
  "memM (delete_entries CtxLive kvs m) = (\<lambda>k. if k \<in> kvKey ` set kvs then None else memM m k)"
proof (induction kvs arbitrary: m)
  case (Cons kv kvs)
  have "memM (snd (mem_Delete CtxLive (kvKey kv) 0 m)) = (memM m)(kvKey kv := None)"
    by (auto simp: mem_Delete_def fun_eq_iff split: option.splits)
  with Cons show ?case by (auto simp: fun_eq_iff)
qed simp

lemma delete_entries_wf: "mem_wf m \<Longrightarrow> mem_wf (delete_entries cx kvs m)"
  by (induction kvs arbitrary: m) (auto intro: mem_Delete_wf)

lemma typed_sub: "typed m \<Longrightarrow> (\<And>k e. memM m' k = Some e \<Longrightarrow> memM m k = Some e) \<Longrightarrow> typed m'"
  unfolding typed_def by blast

lemma typed_upd:
  "typed m \<Longrightarrow> memM m' = (memM m)(k \<mapsto> e) \<Longrightarrow>
   (\<exists>t. k = taskKey (tkName t) \<and> entVal e = CTTask t) \<or> (\<exists>n q. k = queueKey n \<and> entVal e = CTQueue q) \<Longrightarrow> typed m'"
  unfolding typed_def by (auto split: if_splits)

text \<open>Every version has room for the writes of one more step.\<close>

definition ct_roomy :: "ct \<Rightarrow> bool" where
  "ct_roomy s \<longleftrightarrow> (\<forall>k e. memM (ctKV s) k = Some e \<longrightarrow> entVersion e + 1 < 2 ^ 64)"

lemma roomy_key: "ct_roomy s \<Longrightarrow> key_room (ctKV s) k"
  by (auto simp: ct_roomy_def key_room_def split: option.splits)

lemma putTask_inv:
  assumes inv: "ct_inv X Z s" and room: "ct_roomy s" and rec: "proper (tkName t) \<Longrightarrow> recorded (queueOf (tkName t)) s"
  obtains v s' where "putTask CtxLive t s = (Ok v, s')" "ct_inv (insert (tkName t) X) Z s'"
    "ctClock s' = ctClock s" "ctQueues s' = ctQueues s" "ctInFlight s' = ctInFlight s"
proof -
  note D = ct_invD [OF inv]
  let ?k = "taskKey (tkName t)"
  obtain v m where P: "mem_Put CtxLive ?k (CTTask t) (case mem_Get CtxLive ?k (ctKV s) of Ok (_, i) \<Rightarrow> i | Err _ \<Rightarrow> 0) (ctKV s) = (Ok v, m)"
    "memM m = (memM (ctKV s))(?k \<mapsto> \<lparr>entVal = CTTask t, entVersion = v\<rparr>)" "mem_wf m"
    by (rule put_current [OF D(1) roomy_key [OF room]])
  let ?s = "s\<lparr>ctKV := m\<rparr>"
  have p: "putTask CtxLive t s = (Ok v, ?s)" using P(1) by (simp add: putTask_def Let_def)
  moreover have "typed m" by (rule typed_upd [OF D(3) P(2)]) auto
  moreover have "recorded Q ?s = recorded Q s" for Q using P(2) by (simp add: recorded_def)
  moreover have "stored n ?s \<longleftrightarrow> stored n s \<or> n = tkName t" for n using P(2) by (simp add: stored_def)
  moreover have "timers_ok ?s" "cared n Z s \<Longrightarrow> cared n Z ?s" for n using D(4) by (auto simp: timers_ok_def cared_def armed_def)
  ultimately have "ct_inv (insert (tkName t) X) Z ?s"
    using D P(3) rec unfolding ct_inv_def by auto
  with p show thesis using that by simp
qed

subsection \<open>Every operation keeps the invariant\<close>

lemma New_ct_inv:
  assumes "mem_wf kv" and "typed kv" and "clock_wf clk"
    and "\<And>n. memM kv (taskKey n) \<noteq> None \<Longrightarrow> proper n \<Longrightarrow> memM kv (queueKey (queueOf n)) \<noteq> None"
  shows "ct_inv {} Z (New_ct kv clk)"
proof -
  let ?s = "\<lparr>ctKV = kv, ctClock = clk, ctQueues = Map.empty, ctSeq = 0, ctInFlight = [], ctStarted = 0, ctSent = []\<rparr>"
  have "ct_inv UNIV Z ?s"
    using assms by (auto simp: ct_inv_def timers_ok_def stored_def recorded_def)
  then show ?thesis
    unfolding New_ct_def recover_def by (rule rearm_entries_inv) (simp add: taskKey_def)
qed

lemma putTask_err: "putTask cx t s = (Err e, s') \<Longrightarrow> s' = s"
  by (auto simp: putTask_def Let_def mem_Put_def split: if_splits option.splits result.splits prod.splits)

lemma CreateTask_err:
  assumes "fst (CreateTask cx parent req s) = Err e"
  shows "\<exists>n. snd (CreateTask cx parent req s) = s\<lparr>ctSeq := n\<rparr>"
proof -
  have same: "\<exists>n. s = s\<lparr>ctSeq := n\<rparr>" by (intro exI [of _ "ctSeq s"]) simp
  show ?thesis
  proof (cases "parseTaskParent parent")
    case p: (Ok q)
    then have q: "q = parent" by (auto simp: parseTaskParent_def split: option.splits)
    show ?thesis
    proof (cases req)
      case (Some t0)
      show ?thesis
      proof (cases "tkTarget t0 = AppEngineTarget \<or> (\<exists>e. getQueueRecord cx parent s = Err e) \<or> tkName t0 \<noteq> '''' \<and> queueOf (tkName t0) \<noteq> parent")
        case True
        then show ?thesis using p q Some same by (cases "getQueueRecord cx parent s") (auto simp: CreateTask_def)
      next
        case False
        then obtain r where r: "getQueueRecord cx parent s = Ok r" by (cases "getQueueRecord cx parent s") auto
        obtain ident sx where nx: "nextTaskID s = (ident, sx)" "sx = s\<lparr>ctSeq := u64 (ctSeq s + 1)\<rparr>" by (simp add: nextTaskID_def)
        let ?s0 = "if tkName t0 = '''' then sx else s"
        let ?t = "t0\<lparr>tkName := (if tkName t0 = '''' then parent @ ''/tasks/'' @ ident else tkName t0), tkCreate := Some (ckNow (ctClock s)),
           tkSchedule := (if tkSchedule t0 = None then Some (ckNow (ctClock s)) else tkSchedule t0)\<rparr>"
        obtain rr s2 where put: "putTask cx ?t ?s0 = (rr, s2)" by force
        show ?thesis
        proof (cases rr)
          case (Err e')
          then have "s2 = ?s0" using put putTask_err by blast
          moreover have "snd (CreateTask cx parent req s) = s2"
            using p q Some False r nx(1) put Err by (cases "tkName t0 = ''''") (simp_all add: CreateTask_def Let_def)
          ultimately show ?thesis using nx(2) same by auto
        next
          case (Ok v)
          then have "fst (CreateTask cx parent req s) = Ok ?t"
            using p q Some False r nx(1) put by (cases "tkName t0 = ''''") (simp_all add: CreateTask_def Let_def)
          with assms show ?thesis by simp
        qed
      qed
    qed (use p same in \<open>auto simp: CreateTask_def\<close>)
  qed (use same in \<open>auto simp: CreateTask_def\<close>)
qed

lemma CreateTask_inv:
  assumes inv: "ct_inv {} Z s" and room: "ct_roomy s" and free: "tasks_free parent"
  shows "ct_inv {} Z (snd (CreateTask cx parent req s))"
proof (cases "fst (CreateTask cx parent req s)")
  case (Ok t)
  obtain t0 where req: "req = Some t0"
    using Ok by (cases req) (auto simp: CreateTask_def split: result.splits)
  obtain s1 where cr: "CreateTask cx parent (Some t0) s = (Ok t, s1)" using Ok req by (metis prod.collapse)
  note F = CreateTask_form [OF cr]
  have live: "cx = CtxLive" using F by (auto simp: getQueueRecord_def mem_Get_def split: if_splits)
  let ?s0 = "if tkName t0 = '''' then snd (nextTaskID s) else s"
  have inv0: "ct_inv {} Z ?s0" "ct_roomy ?s0"
    using inv room by (auto simp: nextTaskID_def ct_inv_def timers_ok_def recorded_def stored_def cared_def armed_def ct_roomy_def)
  have "queueOf (tkName t) = parent"
    using F tasks_free_queueOf [OF free, of "fst (nextTaskID s)"] by auto
  moreover have "recorded parent s"
    using F live by (auto simp: recorded_def getQueueRecord_def mem_Get_def split: option.splits)
  ultimately have rec: "recorded (queueOf (tkName t)) ?s0" by (simp add: recorded_def nextTaskID_def)
  obtain v s2 where put: "putTask CtxLive t ?s0 = (Ok v, s2)" "s1 = schedule (tkName t) (asTime (tkSchedule t)) s2"
    using F live by blast
  obtain v' s2' where "putTask CtxLive t ?s0 = (Ok v', s2')" "ct_inv (insert (tkName t) {}) Z s2'"
    using putTask_inv [OF inv0] rec by blast
  with put have "ct_inv (insert (tkName t) {}) Z s2" by simp
  then have "ct_inv ({tkName t} - {tkName t}) Z s1" unfolding put(2) by (rule schedule_inv)
  with cr req show ?thesis by simp
next
  case (Err e)
  then obtain n where "snd (CreateTask cx parent req s) = s\<lparr>ctSeq := n\<rparr>" using CreateTask_err by blast
  then show ?thesis
    using inv by (simp add: ct_inv_def timers_ok_def recorded_def stored_def cared_def armed_def)
qed


text \<open>Removing a record never hurts the other tasks.\<close>

lemma ct_inv_delete:
  assumes inv: "ct_inv X Z s" and m: "mem_wf m" "\<And>k e. memM m k = Some e \<Longrightarrow> memM (ctKV s) k = Some e"
    and q: "\<And>Q. memM m (queueKey Q) = memM (ctKV s) (queueKey Q)"
  shows "ct_inv X Z (s\<lparr>ctKV := m\<rparr>)"
proof -
  note D = ct_invD [OF inv]
  have "typed m" using typed_sub [OF D(3)] m(2) by blast
  moreover have "stored n s" if "stored n (s\<lparr>ctKV := m\<rparr>)" for n using that m(2) by (fastforce simp: stored_def)
  moreover have "recorded Q (s\<lparr>ctKV := m\<rparr>) = recorded Q s" for Q using q by (simp add: recorded_def)
  moreover have "timers_ok (s\<lparr>ctKV := m\<rparr>)" "cared n Z (s\<lparr>ctKV := m\<rparr>) = cared n Z s" for n
    using D(4) by (auto simp: timers_ok_def cared_def armed_def)
  ultimately show ?thesis using D m(1) unfolding ct_inv_def by auto
qed

lemma cancelTimer_inv:
  assumes inv: "ct_inv X Z s"
  shows "ct_inv (insert n X) Z (cancelTimer n s) \<and> ctKV (cancelTimer n s) = ctKV s \<and>
    (ctQueues (cancelTimer n s) (queueOf n) = None \<longleftrightarrow> ctQueues s (queueOf n) = None)"
proof (cases "ctQueues s (queueOf n)")
  case (Some q)
  note D = ct_invD [OF inv]
  show ?thesis
  proof (cases "map_of (lqTimers q) n")
    case (Some p)
    note q = \<open>ctQueues s (queueOf n) = Some q\<close>
    have np: "set [(n, p)] \<subseteq> set (lqTimers q)" using map_of_SomeD [OF Some] by simp
    let ?c = "s\<lparr>ctClock := stop_timers [(n, p)] (ctClock s)\<rparr>"
    let ?qs = "(ctQueues s)(queueOf n \<mapsto> q\<lparr>lqTimers := AList.delete n (lqTimers q)\<rparr>)"
    have eq: "cancelTimer n s = ?c\<lparr>ctQueues := ?qs\<rparr>" using q Some by (simp add: cancelTimer_def)
    have "timers_ok (?c\<lparr>ctQueues := ?qs\<rparr>)"
      by (rule timers_ok_queues [OF timers_ok_stop [OF D(4,2), of "[(n, p)]"]])
         (use q delete_sub [of n "lqTimers q"] in \<open>auto split: if_splits\<close>)
    moreover have "cared m Z (?c\<lparr>ctQueues := ?qs\<rparr>)" if "cared m Z s" "m \<noteq> n" for m
    proof -
      obtain qm where qm: "ctQueues s (queueOf m) = Some qm" "lqPaused qm \<or> m \<in> armed Z s" using \<open>cared m Z s\<close> by (auto simp: cared_def)
      have "m \<in> armed Z ?c" if "m \<in> armed Z s" using armed_stop [OF D(4,2) q np that] \<open>m \<noteq> n\<close> by simp
      with qm q show ?thesis by (auto simp: cared_def armed_def)
    qed
    moreover have "clock_wf (ctClock ?c)" using Stop_wf [OF D(2)] by simp
    ultimately have "ct_inv (insert n X) Z (?c\<lparr>ctQueues := ?qs\<rparr>)"
      using D(5,7) q by (intro ct_inv_step [OF inv]) (auto split: if_splits)
    with eq q show ?thesis by simp
  next
    case None
    with \<open>ctQueues s (queueOf n) = Some q\<close> ct_inv_mono [OF inv] show ?thesis by (auto simp: cancelTimer_def)
  qed
next
  case None
  with ct_inv_mono [OF inv] show ?thesis by (auto simp: cancelTimer_def)
qed

lemma DeleteTask_inv:
  assumes inv: "ct_inv {} Z s"
  shows "ct_inv {} Z (snd (DeleteTask cx n s))"
proof -
  note D = ct_invD [OF inv]
  obtain r m where del: "mem_Delete cx (taskKey n) 0 (ctKV s) = (r, m)" by force
  show ?thesis
  proof (cases r)
    case (Err e)
    then have "m = ctKV s" using del by (auto simp: mem_Delete_def split: if_splits option.splits)
    then show ?thesis using del Err inv by (simp add: DeleteTask_def)
  next
    case (Ok u)
    then have "cx = CtxLive" using del by (auto simp: mem_Delete_def split: if_splits)
    then have mm: "memM m = (memM (ctKV s))(taskKey n := None)" using del mem_Delete_map by blast
    have wf: "mem_wf m" using mem_Delete_wf [OF D(1)] del by (metis snd_conv)
    have i1: "ct_inv {} Z (s\<lparr>ctKV := m\<rparr>)" by (rule ct_inv_delete [OF inv wf]) (auto simp: mm split: if_splits)
    note C = cancelTimer_inv [OF i1, of n]
    have "\<not> stored n (cancelTimer n (s\<lparr>ctKV := m\<rparr>))" using C mm by (simp add: stored_def)
    then have "ct_inv {} Z (cancelTimer n (s\<lparr>ctKV := m\<rparr>))" using C unfolding ct_inv_def by auto
    then show ?thesis using del Ok by (simp add: DeleteTask_def)
  qed
qed

lemma dispatch_begin_inv:
  assumes inv: "ct_inv {n} Z s" and live: "stored n s \<Longrightarrow> proper n \<Longrightarrow> ctQueues s (queueOf n) \<noteq> None"
    and b: "dispatch_begin n s = (r, s')"
  shows "case r of None \<Rightarrow> ct_inv {} Z s' | Some (t, _) \<Rightarrow> ct_inv {} (insert n Z) s' \<and> tkName t = n"
proof (cases "ctQueues s (queueOf n)")
  case None
  then have "\<not> (stored n s \<and> proper n)" using live by blast
  then have "ct_inv {} Z s" using inv unfolding ct_inv_def by auto
  then show ?thesis using b None by (auto simp: dispatch_begin_def)
next
  case (Some q)
  note D = ct_invD [OF inv]
  show ?thesis
  proof (cases "lqPaused q")
    case True
    then have "ct_inv {} Z s" using inv Some unfolding ct_inv_def cared_def by auto
    then show ?thesis using b Some True by (auto simp: dispatch_begin_def)
  next
    case False
    let ?qs = "(ctQueues s)(queueOf n \<mapsto> q\<lparr>lqTimers := AList.delete n (lqTimers q)\<rparr>)"
    let ?s1 = "s\<lparr>ctQueues := ?qs\<rparr>"
    have T: "timers_ok ?s1"
      by (rule timers_ok_queues [OF D(4)]) (use Some delete_sub [of n "lqTimers q"] in \<open>auto split: if_splits\<close>)
    have C: "cared m Z' (?s1\<lparr>ctSent := l\<rparr>)" "cared m Z' ?s1" if "cared m Z s" "Z \<subseteq> Z'" for m Z' l
      using that Some by (auto simp: cared_def armed_def)
    have R: "recorded Q s" if "?qs Q \<noteq> None" for Q using D(5) that Some by (cases "Q = queueOf n") auto
    show ?thesis
    proof (cases "getTaskRecord CtxLive n ?s1")
      case (Err e)
      then have "\<not> stored n s"
        using typed_task [OF D(3), of n] by (auto simp: getTaskRecord_def mem_Get_def stored_def split: option.splits)
      then have "ct_inv {} Z ?s1" using T C(2) D(2,7) R by (intro ct_inv_step [OF inv]) auto
      then show ?thesis using b Some False Err by (auto simp: dispatch_begin_def)
    next
      case (Ok t)
      then obtain e where "memM (ctKV s) (taskKey n) = Some e" "entVal e = CTTask t"
        by (auto simp: getTaskRecord_def mem_Get_def split: option.splits ctval.splits)
      then have t: "tkName t = n" using typed_task [OF D(3)] by fastforce
      let ?s2 = "?s1\<lparr>ctSent := ctSent s @ [(ckNow (ctClock s), t)]\<rparr>"
      have T2: "timers_ok ?s2" by (rule timers_ok_queues [OF T]) auto
      have "cared n (insert n Z) ?s2" using Some by (auto simp: cared_def armed_def)
      then have "ct_inv {} (insert n Z) ?s2"
        using T2 C(1) [of _ "insert n Z"] D(2,7) R by (intro ct_inv_step [OF inv]) auto
      moreover have "dispatch_begin n s = (Some (t, retryConfig CtxLive n ?s1), ?s2)" using Some False Ok by (simp add: dispatch_begin_def Let_def)
      ultimately show ?thesis using b t by auto
    qed
  qed
qed

lemma dispatch_end_inv:
  assumes inv: "ct_inv {n} Z s" and room: "ct_roomy s" and t: "tkName t = n" and e: "dispatch_end n t retry ok s = (Ok (), s')"
  shows "ct_inv {} Z s'"
proof (cases "getTaskRecord CtxLive n s")
  case (Err err)
  note D = ct_invD [OF inv]
  have "\<not> stored n s"
    using Err typed_task [OF D(3), of n] by (auto simp: getTaskRecord_def mem_Get_def stored_def split: option.splits)
  then have "ct_inv {} Z s" using inv unfolding ct_inv_def by auto
  then show ?thesis using e Err by (simp add: dispatch_end_def)
next
  case (Ok t')
  note D = ct_invD [OF inv]
  let ?t = "t\<lparr>tkDispatchCount := i32 (tkDispatchCount t + 1), tkLastAttempt := Some (ckNow (ctClock s))\<rparr>"
  show ?thesis
  proof (cases "ok \<or> rpMaxAttempts retry \<le> tkDispatchCount ?t")
    case True
    obtain r m where del: "mem_Delete CtxLive (taskKey n) 0 (ctKV s) = (r, m)" by force
    have mm: "memM m = (memM (ctKV s))(taskKey n := None)" using mem_Delete_map [OF del] .
    have wf: "mem_wf m" using mem_Delete_wf [OF D(1)] del by (metis snd_conv)
    have "ct_inv {n} Z (s\<lparr>ctKV := m\<rparr>)" by (rule ct_inv_delete [OF inv wf]) (auto simp: mm split: if_splits)
    moreover have "\<not> stored n (s\<lparr>ctKV := m\<rparr>)" using mm by (simp add: stored_def)
    ultimately have "ct_inv {} Z (s\<lparr>ctKV := m\<rparr>)" unfolding ct_inv_def by auto
    then show ?thesis using e Ok True del by (simp add: dispatch_end_def Let_def)
  next
    case False
    define nxt where "nxt = ckNow (ctClock s) + backoffFor retry (tkDispatchCount ?t)"
    let ?u = "?t\<lparr>tkSchedule := Some nxt\<rparr>"
    have pos: "\<not> i32 (tkDispatchCount ?t - 1) < 0" using e Ok False by (auto simp: dispatch_end_def Let_def split: if_splits)
    have "recorded (queueOf (tkName ?u)) s" if "proper (tkName ?u)"
      using D(6) [of n] that Ok t by (auto simp: getTaskRecord_def mem_Get_def stored_def split: option.splits)
    then obtain v s1 where put: "putTask CtxLive ?u s = (Ok v, s1)" "ct_inv (insert (tkName ?u) {n}) Z s1"
      using putTask_inv [OF inv room] by blast
    have s': "s' = schedule n nxt s1"
      using e Ok False pos put(1) by (simp add: dispatch_end_def Let_def nxt_def)
    have "ct_inv ({n} - {n}) Z s'" unfolding s' by (rule schedule_inv) (use put(2) t in simp)
    then show ?thesis by simp
  qed
qed


lemma CreateQueue_inv:
  assumes inv: "ct_inv {} Z s"
  shows "ct_inv {} Z (snd (CreateQueue cx req s))"
proof (cases "fst (CreateQueue cx req s)")
  case (Err e)
  then have "snd (CreateQueue cx req s) = s"
    by (auto simp: CreateQueue_def Let_def mem_Put_def split: option.splits if_splits prod.splits result.splits)
  with inv show ?thesis by simp
next
  case (Ok q)
  note D = ct_invD [OF inv]
  obtain q0 m where q0: "req = Some q0" "q = q0\<lparr>qrState := Running\<rparr>" "snd (CreateQueue cx req s) = s\<lparr>ctKV := m, ctQueues := (ctQueues s)(qrName q \<mapsto> newQueue)\<rparr>"
    and m: "cx = CtxLive" "memM (ctKV s) (queueKey (qrName q)) = None" "m = snd (mem_Put CtxLive (queueKey (qrName q)) (CTQueue q) 0 (ctKV s))"
    using Ok by (cases req) (auto simp: CreateQueue_def Let_def mem_Put_def split: option.splits if_splits prod.splits result.splits)
  let ?Q = "qrName q" and ?s = "s\<lparr>ctKV := m, ctQueues := (ctQueues s)(qrName q \<mapsto> newQueue)\<rparr>"
  have mm: "memM m = (memM (ctKV s))(queueKey ?Q \<mapsto> \<lparr>entVal = CTQueue q, entVersion = 1\<rparr>)" using m by (simp add: mem_Put_def)
  have "key_room (ctKV s) (queueKey ?Q)" using m(2) by (simp add: key_room_def)
  then have "mem_wf m" using m(3) mem_Put_wf [OF D(1)] by simp
  moreover have "typed m" by (rule typed_upd [OF D(3) mm]) auto
  moreover have "timers_ok ?s"
    by (rule timers_ok_queues [OF D(4)]) (auto simp: newQueue_def split: if_splits)
  moreover have rec: "recorded P ?s \<longleftrightarrow> recorded P s \<or> P = ?Q" for P using mm by (auto simp: recorded_def)
  moreover have st: "stored n ?s = stored n s" for n using mm by (simp add: stored_def)
  moreover have "cared n Z ?s" if "stored n s" "proper n" for n
  proof -
    have "queueOf n \<noteq> ?Q" using D(6) [OF that] m(2) by (auto simp: recorded_def)
    then show ?thesis using D(7) [OF that] by (auto simp: cared_def armed_def)
  qed
  ultimately show ?thesis using D q0(3) unfolding ct_inv_def by auto
qed


text \<open>The invariant with nothing known of one queue.\<close>

definition ct_inv_but :: "string \<Rightarrow> string set \<Rightarrow> ct \<Rightarrow> bool" where
  "ct_inv_but Q Z s \<longleftrightarrow>
     mem_wf (ctKV s) \<and> clock_wf (ctClock s) \<and> typed (ctKV s) \<and> timers_ok s \<and>
     (\<forall>q. q \<noteq> Q \<and> ctQueues s q \<noteq> None \<longrightarrow> recorded q s) \<and>
     (\<forall>n. stored n s \<and> proper n \<and> queueOf n \<noteq> Q \<longrightarrow> recorded (queueOf n) s \<and> cared n Z s)"

lemma stopQueue_inv:
  assumes inv: "ct_inv_but Q Z s"
  shows "ct_inv {} Z (stopQueue CtxLive Q s) \<and> ctQueues (stopQueue CtxLive Q s) Q = None \<and>
    (\<forall>n. proper n \<and> queueOf n = Q \<longrightarrow> \<not> stored n (stopQueue CtxLive Q s)) \<and>
    (\<forall>P. recorded P (stopQueue CtxLive Q s) = recorded P s)"
proof -
  have wf: "mem_wf (ctKV s)" "clock_wf (ctClock s)" and ty: "typed (ctKV s)" and T: "timers_ok s"
    and R: "\<And>q. q \<noteq> Q \<Longrightarrow> ctQueues s q \<noteq> None \<Longrightarrow> recorded q s"
    and C: "\<And>n. stored n s \<Longrightarrow> proper n \<Longrightarrow> queueOf n \<noteq> Q \<Longrightarrow> recorded (queueOf n) s \<and> cared n Z s"
    using inv by (auto simp: ct_inv_but_def)
  define s1 where "s1 = (case ctQueues s Q of None \<Rightarrow> s
     | Some q \<Rightarrow> s\<lparr>ctClock := stop_timers (lqTimers q) (ctClock s), ctQueues := (ctQueues s)(Q := None)\<rparr>)"
  have s1: "ctKV s1 = ctKV s" "ctQueues s1 = (ctQueues s)(Q := None)" "clock_wf (ctClock s1)" "timers_ok s1"
    "\<And>n. queueOf n \<noteq> Q \<Longrightarrow> cared n Z s \<Longrightarrow> cared n Z s1"
  proof -
    show "ctKV s1 = ctKV s" "ctQueues s1 = (ctQueues s)(Q := None)" "clock_wf (ctClock s1)"
      using wf(2) by (auto simp: s1_def fun_eq_iff stop_timers_wf split: option.splits)
    show "timers_ok s1"
    proof (cases "ctQueues s Q")
      case (Some q)
      show ?thesis
        unfolding s1_def Some option.case
        by (rule timers_ok_queues [OF timers_ok_stop [OF T wf(2), of "lqTimers q"]]) (auto split: if_splits)
    qed (use T in \<open>simp add: s1_def\<close>)
    show "cared n Z s1" if n: "queueOf n \<noteq> Q" "cared n Z s" for n
    proof (cases "ctQueues s Q")
      case (Some q)
      have "n \<in> armed Z s1" if "n \<in> armed Z s"
        using armed_stop [OF T wf(2) Some subset_refl that] n(1) by (simp add: s1_def Some armed_def)
      with n Some show ?thesis by (auto simp: cared_def s1_def)
    qed (use n in \<open>simp add: s1_def\<close>)
  qed
  let ?ks = "list_keys (taskPrefix Q) None (ctKV s)"
  define m where "m = delete_entries CtxLive (map (kv_at (ctKV s)) ?ks) (ctKV s)"
  have st: "stopQueue CtxLive Q s = s1\<lparr>ctKV := m\<rparr>"
    using list_all_entries [OF wf(1), of "taskPrefix Q"] s1(1) by (auto simp: stopQueue_def s1_def [symmetric] m_def)
  have mm: "memM m = (\<lambda>k. if prefix (taskPrefix Q) k then None else memM (ctKV s) k)"
    unfolding m_def delete_entries_map using listed_key [OF wf(1)] by (auto simp: fun_eq_iff image_image)
  have qk: "memM m (queueKey P) = memM (ctKV s) (queueKey P)" for P
    by (simp add: mm taskPrefix_def queueKey_def)
  have rec: "recorded P (s1\<lparr>ctKV := m\<rparr>) = recorded P s" for P by (simp add: recorded_def qk)
  have sto: "stored n s \<and> \<not> prefix (taskPrefix Q) (taskKey n)" if "stored n (s1\<lparr>ctKV := m\<rparr>)" for n
    using that by (auto simp: stored_def mm split: if_splits)
  have gone: "\<not> stored n (s1\<lparr>ctKV := m\<rparr>)" if "proper n" "queueOf n = Q" for n
    using sto proper_prefix [OF that(1)] that(2) by blast
  have "mem_wf m" unfolding m_def by (rule delete_entries_wf [OF wf(1)])
  moreover have "typed m" by (rule typed_sub [OF ty]) (simp add: mm split: if_splits)
  moreover have "timers_ok (s1\<lparr>ctKV := m\<rparr>)" by (rule timers_ok_queues [OF s1(4)]) auto
  moreover have "recorded (queueOf n) s \<and> cared n Z (s1\<lparr>ctKV := m\<rparr>)" if "stored n (s1\<lparr>ctKV := m\<rparr>)" "proper n" for n
    using sto [OF that(1)] gone [OF that(2)] that C [OF _ that(2)] s1(5) [of n] by (auto simp: cared_def armed_def)
  ultimately have "ct_inv {} Z (s1\<lparr>ctKV := m\<rparr>)"
    unfolding ct_inv_def rec using R s1(2,3) by (auto split: if_splits)
  then show ?thesis unfolding st using gone rec s1(2) by simp
qed

lemma DeleteQueue_inv:
  assumes inv: "ct_inv {} Z s"
  shows "ct_inv {} Z (snd (DeleteQueue cx Q s))"
proof -
  note D = ct_invD [OF inv]
  obtain r m where del: "mem_Delete cx (queueKey Q) 0 (ctKV s) = (r, m)" by force
  show ?thesis
  proof (cases r)
    case (Err e)
    then have "m = ctKV s" using del by (auto simp: mem_Delete_def split: if_splits option.splits)
    then show ?thesis using del Err inv by (simp add: DeleteQueue_def)
  next
    case (Ok u)
    then have cx: "cx = CtxLive" using del by (auto simp: mem_Delete_def split: if_splits)
    then have mm: "memM m = (memM (ctKV s))(queueKey Q := None)" using del mem_Delete_map by blast
    let ?s = "s\<lparr>ctKV := m\<rparr>"
    have "mem_wf m" using mem_Delete_wf [OF D(1)] del by (metis snd_conv)
    moreover have "typed m" by (rule typed_sub [OF D(3)]) (simp add: mm split: if_splits)
    moreover have "timers_ok ?s" by (rule timers_ok_queues [OF D(4)]) auto
    moreover have "recorded P ?s" if "recorded P s" "P \<noteq> Q" for P using that mm by (simp add: recorded_def)
    moreover have "stored n ?s = stored n s" "cared n Z ?s = cared n Z s" for n
      using mm by (simp_all add: stored_def cared_def armed_def)
    ultimately have "ct_inv_but Q Z ?s" using D unfolding ct_inv_but_def by auto
    then show ?thesis using stopQueue_inv del Ok cx by (simp add: DeleteQueue_def)
  qed
qed

lemma PurgeQueue_inv:
  assumes inv: "ct_inv {} Z s"
  shows "ct_inv {} Z (snd (PurgeQueue cx Q s))"
proof (cases "getQueueRecord cx Q s")
  case (Ok q)
  note D = ct_invD [OF inv]
  have cx: "cx = CtxLive" "recorded Q s" using Ok by (auto simp: getQueueRecord_def mem_Get_def recorded_def split: if_splits option.splits)
  have "ct_inv_but Q Z s" using D by (auto simp: ct_inv_but_def)
  note S = stopQueue_inv [OF this]
  let ?s = "stopQueue CtxLive Q s"
  let ?t = "?s\<lparr>ctQueues := (ctQueues ?s)(Q \<mapsto> newQueue)\<rparr>"
  have i: "ct_inv {} Z ?s" using S by blast
  note E = ct_invD [OF i]
  have "timers_ok ?t" by (rule timers_ok_queues [OF E(4)]) (auto simp: newQueue_def split: if_splits)
  moreover have "cared n Z ?t" if "stored n ?s" "proper n" for n
  proof -
    have "queueOf n \<noteq> Q" using S that by blast
    then show ?thesis using E(7) [OF that] by (auto simp: cared_def armed_def)
  qed
  ultimately have "ct_inv {} Z ?t" using E(2,5) S cx(2) by (intro ct_inv_step [OF i]) (auto split: if_splits)
  then show ?thesis using Ok cx(1) by (simp add: PurgeQueue_def Let_def)
qed (use inv in \<open>simp add: PurgeQueue_def\<close>)

lemma setQueueState_inv:
  assumes inv: "ct_inv {} Z s" and room: "ct_roomy s"
  shows "ct_inv {} Z (snd (setQueueState cx Q st s))"
proof (cases "getQueueRecord cx Q s")
  case (Ok q0)
  note D = ct_invD [OF inv]
  have cx: "cx = CtxLive" and rec: "recorded Q s"
    using Ok by (auto simp: getQueueRecord_def mem_Get_def recorded_def split: if_splits option.splits)
  let ?q = "q0\<lparr>qrState := st\<rparr>"
  obtain v m where put: "mem_Put CtxLive (queueKey Q) (CTQueue ?q) (case mem_Get CtxLive (queueKey Q) (ctKV s) of Ok (_, i) \<Rightarrow> i | Err _ \<Rightarrow> 0) (ctKV s) = (Ok v, m)"
    and mm: "memM m = (memM (ctKV s))(queueKey Q \<mapsto> \<lparr>entVal = CTQueue ?q, entVersion = v\<rparr>)" and wf: "mem_wf m"
    by (rule put_current [OF D(1) roomy_key [OF room]])
  have ver: "versionOrZero CtxLive s (queueKey Q) = (case mem_Get CtxLive (queueKey Q) (ctKV s) of Ok (_, i) \<Rightarrow> i | Err _ \<Rightarrow> 0)"
    by (simp add: versionOrZero_def split: result.splits)
  let ?s1 = "s\<lparr>ctKV := m\<rparr>"
  have kv: "recorded P ?s1 = recorded P s" "stored n ?s1 = stored n s" for P n
    using rec mm by (auto simp: recorded_def stored_def)
  have i1: "ct_inv {} Z ?s1"
  proof -
    have "typed m" by (rule typed_upd [OF D(3) mm]) auto
    moreover have "timers_ok ?s1" by (rule timers_ok_queues [OF D(4)]) auto
    moreover have "cared n Z ?s1 = cared n Z s" for n by (simp add: cared_def armed_def)
    ultimately show ?thesis using D wf kv unfolding ct_inv_def by auto
  qed
  note E = ct_invD [OF i1]
  let ?live = "case ctQueues s Q of None \<Rightarrow> newQueue | Some l \<Rightarrow> l"
  show ?thesis
  proof (cases "st = Paused")
    case True
    let ?c = "?s1\<lparr>ctClock := stop_timers (lqTimers ?live) (ctClock s)\<rparr>"
    let ?t = "?c\<lparr>ctQueues := (ctQueues s)(Q \<mapsto> \<lparr>lqPaused = True, lqTimers = []\<rparr>)\<rparr>"
    have "timers_ok ?c" using timers_ok_stop [OF E(4,2), of "lqTimers ?live"] by simp
    then have "timers_ok ?t" by (rule timers_ok_queues) (auto split: if_splits)
    moreover have "cared n Z ?t" if sp: "stored n ?s1" "proper n" for n
    proof (cases "queueOf n = Q")
      case False
      obtain qn where qn: "ctQueues s (queueOf n) = Some qn" "lqPaused qn \<or> n \<in> armed Z ?s1"
        using E(7) [OF sp] by (auto simp: cared_def)
      have "n \<in> armed Z ?c" if "n \<in> armed Z ?s1"
      proof (cases "ctQueues s Q")
        case None
        then show ?thesis using that by (simp add: newQueue_def armed_def)
      next
        case (Some l)
        then show ?thesis using armed_stop [OF E(4,2) _ subset_refl that, of Q l] False by simp
      qed
      with qn False show ?thesis by (auto simp: cared_def armed_def)
    qed (simp add: cared_def)
    moreover have "clock_wf (ctClock ?t)" using stop_timers_wf [OF D(2)] by simp
    ultimately have "ct_inv {} Z ?t" using E(5) rec kv by (intro ct_inv_step [OF i1]) (auto split: if_splits)
    then show ?thesis using Ok cx put ver True by (simp add: setQueueState_def Let_def)
  next
    case False
    let ?t = "?s1\<lparr>ctQueues := (ctQueues s)(Q \<mapsto> ?live\<lparr>lqPaused := False\<rparr>)\<rparr>"
    have "timers_ok ?t" by (rule timers_ok_queues [OF E(4)]) (auto simp: newQueue_def split: if_splits option.splits)
    moreover have "cared n Z ?t" if "stored n ?s1" "proper n" "queueOf n \<noteq> Q" for n
      using E(7) [OF that(1,2)] that(3) by (auto simp: cared_def armed_def)
    ultimately have it: "ct_inv {n. queueOf n = Q} Z ?t"
      using E(2,5) rec kv by (intro ct_inv_step [OF i1]) (auto split: if_splits)
    have "ct_inv {} Z (rearm CtxLive Q ?t)"
      unfolding rearm_def by (rule rearm_entries_inv [OF it]) (use proper_prefix in auto)
    then show ?thesis using Ok cx put ver False by (simp add: setQueueState_def Let_def)
  qed
qed (use inv in \<open>simp add: setQueueState_def\<close>)


subsection \<open>Runs\<close>

text \<open>
  What can happen to the service, in any interleaving: calls of clients, a timer coming due, a
  launched goroutine starting, a response arriving.  \<open>calls\<close> are the calls of \<open>dispatch\<close> that have yet to take the
  lock, of timers that fired and of \<open>RunTask\<close>, which cancels a timer under the lock and dispatches after it; \<open>pend\<close> are the requests sent
  and not yet answered.  A restart starts again from the store.  Tasks are created in queues whose names do not hold the text \<open>/tasks/\<close>
  (no queue, project or location is named \<open>tasks\<close>), and no response makes the dispatch panic.
\<close>

inductive ct_run :: "ct \<Rightarrow> string list \<Rightarrow> (string \<times> task \<times> retry_policy) list \<Rightarrow> bool" where
  start: "clock_wf clk \<Longrightarrow> ct_run (New_ct NewMemory clk) [] []"
| restart: "ct_run s calls pend \<Longrightarrow> clock_wf clk \<Longrightarrow> ct_run (New_ct (ctKV s) clk) [] []"
| create_queue: "ct_run s calls pend \<Longrightarrow> ct_run (snd (CreateQueue cx req s)) calls pend"
| delete_queue: "ct_run s calls pend \<Longrightarrow> ct_run (snd (DeleteQueue cx Q s)) calls pend"
| purge_queue: "ct_run s calls pend \<Longrightarrow> ct_run (snd (PurgeQueue cx Q s)) calls pend"
| pause_queue: "ct_run s calls pend \<Longrightarrow> ct_roomy s \<Longrightarrow> ct_run (snd (PauseQueue cx Q s)) calls pend"
| resume_queue: "ct_run s calls pend \<Longrightarrow> ct_roomy s \<Longrightarrow> ct_run (snd (ResumeQueue cx Q s)) calls pend"
| create_task: "ct_run s calls pend \<Longrightarrow> ct_roomy s \<Longrightarrow> tasks_free parent \<Longrightarrow> ct_run (snd (CreateTask cx parent req' s)) calls pend"
| delete_task: "ct_run s calls pend \<Longrightarrow> ct_run (snd (DeleteTask cx n s)) calls pend"
| tick: "ct_run s calls pend \<Longrightarrow> ct_run (s\<lparr>ctClock := (ctClock s)\<lparr>ckNow := now\<rparr>\<rparr>) calls pend"
| run_task: "ct_run s calls pend \<Longrightarrow> getTaskRecord cx n s = Ok t \<Longrightarrow> ct_run (cancelTimer n s) (n # calls) pend"
| timer: "ct_run s calls pend \<Longrightarrow> ckQ (ctClock s) = tm # q \<Longrightarrow>
    ct_run (s\<lparr>ctClock := popped tm q (ctClock s)\<rparr>) (tF tm # calls) pend"
| dispatched: "ct_run s calls pend \<Longrightarrow> n \<in> set calls \<Longrightarrow> dispatch_begin n s = (r, s') \<Longrightarrow>
    ct_run s' (remove1 n calls) (pend @ (case r of None \<Rightarrow> [] | Some (t, p) \<Rightarrow> [(n, t, p)]))"
| goroutine: "ct_run s calls pend \<Longrightarrow> n \<in> set (ctInFlight s) \<Longrightarrow>
    dispatch_begin n (s\<lparr>ctInFlight := remove1 n (ctInFlight s)\<rparr>) = (r, s') \<Longrightarrow>
    ct_run s' calls (pend @ (case r of None \<Rightarrow> [] | Some (t, p) \<Rightarrow> [(n, t, p)]))"
| response: "ct_run s calls pend \<Longrightarrow> ct_roomy s \<Longrightarrow> (n, t, p) \<in> set pend \<Longrightarrow> dispatch_end n t p ok s = (Ok (), s') \<Longrightarrow>
    ct_run s' calls (remove1 (n, t, p) pend)"

definition pending_ok :: "(string \<times> task \<times> retry_policy) list \<Rightarrow> bool" where
  "pending_ok pend \<longleftrightarrow> (\<forall>(n, t, p)\<in>set pend. tkName t = n)"

lemma begin_step:
  assumes "ct_inv {n} (fst ` set pend \<union> C) s" and "stored n s \<Longrightarrow> proper n \<Longrightarrow> ctQueues s (queueOf n) \<noteq> None"
    and "dispatch_begin n s = (r, s')" and "pending_ok pend"
    and "pend' = pend @ (case r of None \<Rightarrow> [] | Some (t, p) \<Rightarrow> [(n, t, p)])"
  shows "ct_inv {} (fst ` set pend' \<union> C) s' \<and> pending_ok pend'"
  using dispatch_begin_inv [OF assms(1-3)] assms(4,5) by (cases r) (auto simp: pending_ok_def)

lemma cared_queue: "ct_inv {} Z s \<Longrightarrow> stored n s \<Longrightarrow> proper n \<Longrightarrow> ctQueues s (queueOf n) \<noteq> None"
  using ct_invD(7) [of "{}" Z s n] by (auto simp: cared_def)

text \<open>A task whose dispatch is called is cared for.\<close>

lemma ct_inv_called:
  assumes "ct_inv {n} Z s" and "stored n s \<Longrightarrow> proper n \<Longrightarrow> ctQueues s (queueOf n) \<noteq> None"
  shows "ct_inv {} (insert n Z) s"
proof -
  note D = ct_invD [OF assms(1)]
  have "cared m (insert n Z) s" if "stored m s" "proper m" for m
    using D(7) [OF that] assms(2) that by (cases "m = n") (auto simp: cared_def armed_def)
  with D show ?thesis by (auto simp: ct_inv_def)
qed

lemma ct_inv_drop:
  assumes "ct_inv {} Z s" and "clock_wf (ctClock t)" and "ctKV t = ctKV s" and "ctQueues t = ctQueues s"
    and "set (ckQ (ctClock t)) \<subseteq> set (ckQ (ctClock s))" and "ckPtr (ctClock t) = ckPtr (ctClock s)"
    and "\<And>m. m \<noteq> n \<Longrightarrow> m \<in> armed Z s \<Longrightarrow> m \<in> armed Z' t"
  shows "ct_inv {n} Z' t"
proof (rule ct_inv_step [OF assms(1,3,2)])
  note D = ct_invD [OF assms(1)]
  show "timers_ok t" using D(4) assms(4-6) unfolding timers_ok_def by auto
  show "recorded Q s" if "ctQueues t Q \<noteq> None" for Q using D(5) that assms(4) by simp
  show "cared m Z' t" if "stored m s" "proper m" "m \<notin> {n}" for m
    using D(7) [OF that(1,2)] that(3) assms(4,7) by (auto simp: cared_def)
qed

abbreviation called :: "string list \<Rightarrow> (string \<times> task \<times> retry_policy) list \<Rightarrow> string set" where
  "called calls pend \<equiv> fst ` set pend \<union> set calls"

lemma remove_call: "m \<noteq> n \<Longrightarrow> m \<in> armed (called calls pend) s \<Longrightarrow> m \<in> armed (called (remove1 n calls) pend) s"
  by (auto simp: armed_def)

lemma remove_pending: "m \<noteq> n \<Longrightarrow> m \<in> armed (called calls pend) s \<Longrightarrow> m \<in> armed (called calls (remove1 (n, t, p) pend)) s"
proof -
  assume m: "m \<noteq> n" "m \<in> armed (called calls pend) s"
  have "m \<in> fst ` set (remove1 (n, t, p) pend)" if "m \<in> fst ` set pend"
    using that m(1) by (metis (no_types, lifting) fst_conv image_iff in_set_remove1)
  with m(2) show ?thesis by (auto simp: armed_def)
qed

lemma ct_run_inv: "ct_run s calls pend \<Longrightarrow> ct_inv {} (called calls pend) s \<and> pending_ok pend"
proof (induction rule: ct_run.induct)
  case (start clk)
  have "ct_inv {} {} (New_ct NewMemory clk)"
    by (rule New_ct_inv) (use start in \<open>auto simp: typed_def NewMemory_def mem_wf_New [unfolded NewMemory_def]\<close>)
  then show ?case by (simp add: pending_ok_def)
next
  case (restart s calls pend clk)
  then have inv: "ct_inv {} (called calls pend) s" by blast
  note D = ct_invD [OF inv]
  have "ct_inv {} {} (New_ct (ctKV s) clk)"
    by (rule New_ct_inv [OF D(1,3) restart.hyps(2)]) (use D(6) in \<open>auto simp: stored_def recorded_def\<close>)
  then show ?case by (simp add: pending_ok_def)
next
  case (tick s calls pend now)
  then have inv: "ct_inv {} (called calls pend) s" by blast
  have "cared m Z (s\<lparr>ctClock := (ctClock s)\<lparr>ckNow := now\<rparr>\<rparr>) = cared m Z s" for m Z by (simp add: cared_def armed_def)
  moreover have "clock_wf ((ctClock s)\<lparr>ckNow := now\<rparr>)" using ct_invD(2) [OF inv] by (simp add: clock_wf_def)
  ultimately have "ct_inv {} (called calls pend) (s\<lparr>ctClock := (ctClock s)\<lparr>ckNow := now\<rparr>\<rparr>)"
    using ct_invD(4,5,7) [OF inv] by (intro ct_inv_step [OF inv]) (auto simp: timers_ok_def)
  with tick.IH show ?case by blast
next
  case (run_task s calls pend cx n t)
  then have inv: "ct_inv {} (called calls pend) s" by blast
  note C = cancelTimer_inv [OF inv, of n]
  have "ct_inv {} (insert n (called calls pend)) (cancelTimer n s)"
    by (rule ct_inv_called) (use C cared_queue [OF inv, of n] in \<open>auto simp: stored_def\<close>)
  with run_task.IH show ?case by simp
next
  case (timer s calls pend tm q)
  then have inv: "ct_inv {} (called calls pend) s" by blast
  have "clock_wf (popped tm q (ctClock s))" using popped_wf ct_invD(2) [OF inv] timer.hyps(2) by blast
  then have "ct_inv {tF tm} (called calls pend) (s\<lparr>ctClock := popped tm q (ctClock s)\<rparr>)"
    using timer.hyps(2) by (intro ct_inv_drop [OF inv]) (auto simp: armed_def popped_def)
  then have "ct_inv {} (insert (tF tm) (called calls pend)) (s\<lparr>ctClock := popped tm q (ctClock s)\<rparr>)"
    by (rule ct_inv_called) (use cared_queue [OF inv] in \<open>auto simp: stored_def\<close>)
  with timer.IH show ?case by simp
next
  case (dispatched s calls pend n r s')
  then have inv: "ct_inv {} (called calls pend) s" by blast
  have "ct_inv {n} (called (remove1 n calls) pend) s"
    using ct_invD(2) [OF inv] remove_call by (intro ct_inv_drop [OF inv]) auto
  then show ?case
    using begin_step [OF _ _ dispatched.hyps(3) conjunct2 [OF dispatched.IH] refl] cared_queue [OF inv] by blast
next
  case (goroutine s calls pend n r s')
  then have inv: "ct_inv {} (called calls pend) s" by blast
  have "ct_inv {n} (called calls pend) (s\<lparr>ctInFlight := remove1 n (ctInFlight s)\<rparr>)"
    using ct_invD(2) [OF inv] by (intro ct_inv_drop [OF inv]) (auto simp: armed_def)
  then show ?case
    using begin_step [OF _ _ goroutine.hyps(3) conjunct2 [OF goroutine.IH] refl] cared_queue [OF inv] by (auto simp: stored_def)
next
  case (response s calls pend n t p ok s')
  then have inv: "ct_inv {} (called calls pend) s" and ok: "pending_ok pend" by blast+
  have "ct_inv {n} (called calls (remove1 (n, t, p) pend)) s"
    using ct_invD(2) [OF inv] remove_pending by (intro ct_inv_drop [OF inv]) auto
  moreover have "tkName t = n" using ok response.hyps(3) by (auto simp: pending_ok_def)
  ultimately have "ct_inv {} (called calls (remove1 (n, t, p) pend)) s'"
    using dispatch_end_inv response.hyps(2,4) by blast
  moreover have "pending_ok (remove1 (n, t, p) pend)" using ok set_remove1_subset by (fastforce simp: pending_ok_def)
  ultimately show ?case by blast
qed (use CreateQueue_inv DeleteQueue_inv PurgeQueue_inv setQueueState_inv CreateTask_inv DeleteTask_inv in
      \<open>simp_all add: PauseQueue_def ResumeQueue_def\<close>)

subsection \<open>Property\<close>

text \<open>
  C6: no task is stranded.  Whatever clients did to queues and tasks, whatever timers, goroutines and
  responses came in between, and across restarts from the store, a stored task under a name with the marker \<open>/tasks/\<close> is
  waiting for a timer, has its dispatch called or launched, or has its request in flight, unless its queue is paused.  The queues tasks
  were created in are not named \<open>tasks\<close>, nor are their projects and locations (their tasks are never dispatched,
  \<open>queue_named_tasks_never_dispatches\<close>), and no response made the dispatch panic.
\<close>

theorem no_task_stranded:
  assumes "ct_run s calls pend" and "getTaskRecord CtxLive n s = Ok t" and "indexOfTasks n \<noteq> None"
  shows "(\<exists>q. ctQueues s (queueOf n) = Some q \<and>
           (lqPaused q \<or> n \<in> set (ctInFlight s) \<or> n \<in> set calls \<or> (\<exists>tm\<in>set (ckQ (ctClock s)). tF tm = n) \<or> (\<exists>p\<in>set pend. fst p = n)))"
proof -
  have inv: "ct_inv {} (called calls pend) s" using ct_run_inv [OF assms(1)] by blast
  have "stored n s" using assms(2) by (auto simp: getTaskRecord_def mem_Get_def stored_def split: option.splits)
  moreover have "proper n" using assms(3) by (simp add: proper_def)
  ultimately have "cared n (called calls pend) s" using ct_invD(7) [OF inv] by blast
  then show ?thesis unfolding cared_def armed_def by force
qed


lemma CreateTask_stored:
  assumes "CreateTask CtxLive parent (Some t0) s = (Ok t, s1)"
  shows "getTaskRecord CtxLive (tkName t) s1 = Ok t"
proof -
  obtain v s0 s2 where p: "putTask CtxLive t s0 = (Ok v, s2)" and s1: "s1 = schedule (tkName t) (asTime (tkSchedule t)) s2"
    using CreateTask_form [OF assms] by blast
  have "getTaskRecord CtxLive (tkName t) s2 = Ok t"
    using p by (auto simp: putTask_def mem_Put_def mem_Get_def getTaskRecord_def Let_def split: option.splits if_splits)
  then show ?thesis by (simp add: s1 getTaskRecord_def schedule_keeps)
qed

theorem no_task_stranded_witness:
  "\<exists>s t n. ct_run s [n] [] \<and> getTaskRecord CtxLive n s = Ok t \<and>
     (\<exists>q. ctQueues s (queueOf n) = Some q \<and>
        (lqPaused q \<or> n \<in> set (ctInFlight s) \<or> n \<in> set [n] \<or> (\<exists>tm\<in>set (ckQ (ctClock s)). tF tm = n) \<or>
         (\<exists>p\<in>set []. fst (p :: string \<times> task \<times> retry_policy) = n)))"
proof -
  let ?s = "demo_ct demo_queue"
  have st: "ctKV ?s = snd (mem_Put CtxLive (queueKey demo_queue) (CTQueue ((queue_named demo_queue)\<lparr>qrState := Running\<rparr>)) 0 NewMemory)"
    "ctSeq ?s = 0"
    by (simp_all add: demo_ct_state [OF demo_queue_valid])
  have kv: "memM (ctKV ?s) = [queueKey demo_queue \<mapsto> \<lparr>entVal = CTQueue ((queue_named demo_queue)\<lparr>qrState := Running\<rparr>), entVersion = 1\<rparr>]"
    by (simp add: st mem_Put_def NewMemory_def)
  have "\<exists>t s1. CreateTask CtxLive demo_queue (Some demo_task) ?s = (Ok t, s1) \<and> tkName t = demo_queue @ ''/tasks/'' @ dec (Suc 0)"
    using demo_queue_valid
    by (simp add: CreateTask_def parseTaskParent_def demo_task_def Let_def nextTaskID_def st(2) putTask_def getQueueRecord_def
        mem_Get_def mem_Put_def kv)
  then obtain t s1 where cr: "CreateTask CtxLive demo_queue (Some demo_task) ?s = (Ok t, s1)"
    and nm: "tkName t = demo_queue @ ''/tasks/'' @ dec (Suc 0)" by blast
  have free: "tasks_free demo_queue" by (simp add: tasks_free_def queueOf_def indexOfTasks_def demo_queue_def)
  have "ct_run (snd (CreateTask CtxLive demo_queue (Some demo_task) ?s)) [] []"
    unfolding demo_ct_def
    by (intro ct_run.create_task ct_run.create_queue ct_run.start NewFake_wf free)
       (simp add: ct_roomy_def demo_ct_def [symmetric] kv)
  then have run: "ct_run s1 [] []" using cr by simp
  have "indexOfTasks (tkName t) \<noteq> None" using tasks_free_queueOf [OF free] by (simp add: nm proper_def)
  moreover have "ct_run (cancelTimer (tkName t) s1) [tkName t] []" by (rule ct_run.run_task [OF run CreateTask_stored [OF cr]])
  moreover have "ctKV (cancelTimer (tkName t) s1) = ctKV s1"
    by (auto simp: cancelTimer_def split: option.splits)
  then have "getTaskRecord CtxLive (tkName t) (cancelTimer (tkName t) s1) = Ok t"
    using CreateTask_stored [OF cr] by (simp add: getTaskRecord_def)
  ultimately show ?thesis using no_task_stranded [of "cancelTimer (tkName t) s1" "[tkName t]" "[]" "tkName t" t] by blast
qed

end
