(* ===== verification/Proto_Msg.thy ===== *)
theory Proto_Msg
  imports Gerr "HOL-Library.AList"
begin

text \<open>
  Protocol messages as the services read and update them: a message is the list of its set fields by proto name, reading
  an unset field gives the default, and a masked update (\<open>applyMask\<close> of \<open>services/pubsub/update.go\<close> and
  \<open>services/secretmanager/update.go\<close>) copies exactly the named fields.
\<close>

subsection \<open>Protocol messages\<close>

datatype pval = PStr string | PInt int | PRaw string

type_synonym proto = "(string \<times> pval) list"

definition getStr :: "string \<Rightarrow> proto \<Rightarrow> string" where
  "getStr f m = (case map_of m f of Some (PStr x) \<Rightarrow> x | _ \<Rightarrow> '''')"

definition getInt :: "string \<Rightarrow> proto \<Rightarrow> int" where
  "getInt f m = (case map_of m f of Some (PInt x) \<Rightarrow> x | _ \<Rightarrow> 0)"

subsection \<open>Masked updates\<close>

text \<open>A message's descriptor: proto name, JSON name and oneof of every field, the oneof empty for a field of none.\<close>

type_synonym descriptor = "(string \<times> string \<times> string) list"

definition field_of :: "descriptor \<Rightarrow> string \<Rightarrow> string option" where
  "field_of desc path =
     (case map_of desc path of
        Some _ \<Rightarrow> Some path
      | None \<Rightarrow> map_of (map (\<lambda>(n, j, _). (j, n)) desc) path)"

definition oneof_of :: "descriptor \<Rightarrow> string \<Rightarrow> string" where
  "oneof_of desc f = (case map_of desc f of None \<Rightarrow> '''' | Some (_, g) \<Rightarrow> g)"

text \<open>Two members of one oneof.  A message has at most one of them set: \<open>Set\<close> clears the others.\<close>

definition exclude :: "descriptor \<Rightarrow> string \<Rightarrow> string \<Rightarrow> bool" where
  "exclude desc f g \<longleftrightarrow> f \<noteq> g \<and> oneof_of desc f \<noteq> '''' \<and> oneof_of desc f = oneof_of desc g"

definition put_field :: "descriptor \<Rightarrow> string \<Rightarrow> pval \<Rightarrow> proto \<Rightarrow> proto" where
  "put_field desc f v m = AList.update f v (filter (\<lambda>(g, _). \<not> exclude desc g f) m)"

fun apply_paths :: "descriptor \<Rightarrow> string list \<Rightarrow> proto \<Rightarrow> string list \<Rightarrow> proto \<Rightarrow> (rpc_error, proto) result" where
  "apply_paths desc immutable src [] dst = Ok dst"
| "apply_paths desc immutable src (path # paths) dst =
     (if path \<in> set immutable then Err (Errorf InvalidArgument ''field %q cannot be updated'' [path])
      else
        case field_of desc path of
          None \<Rightarrow> Err (Errorf InvalidArgument ''unknown field %q in update_mask'' [path])
        | Some f \<Rightarrow>
            apply_paths desc immutable src paths
              (case map_of src f of Some v \<Rightarrow> put_field desc f v dst | None \<Rightarrow> AList.delete f dst))"

definition applyMask :: "descriptor \<Rightarrow> proto \<Rightarrow> proto \<Rightarrow> string list \<Rightarrow> string list \<Rightarrow> (rpc_error, proto) result" where
  "applyMask desc dst src paths immutable =
     (if paths = [] then Err (Errorf InvalidArgument ''an update needs a non-empty update_mask'' [])
      else apply_paths desc immutable src paths dst)"


subsection \<open>Properties\<close>

lemma map_of_filter_key: "map_of (filter (\<lambda>(k, _). P k) xs) f = (if P f then map_of xs f else None)"
  by (induction xs) auto

lemma map_of_put_field:
  "map_of (put_field desc g v m) f = (if f = g then Some v else if exclude desc f g then None else map_of m f)"
  by (simp add: put_field_def update_conv' map_of_filter_key)

definition one_member :: "descriptor \<Rightarrow> proto \<Rightarrow> bool" where
  "one_member desc m \<longleftrightarrow> (\<forall>f g. exclude desc f g \<longrightarrow> map_of m f = None \<or> map_of m g = None)"

lemma apply_paths_fields:
  "apply_paths desc immutable src paths dst = Ok d \<Longrightarrow>
     set paths \<inter> set immutable = {} \<and> None \<notin> field_of desc ` set paths"
  by (induction paths arbitrary: dst) (auto split: if_splits option.splits)

lemma apply_paths_spec:
  assumes "one_member desc src"
  shows "apply_paths desc immutable src paths dst = Ok d \<Longrightarrow>
     map_of d f = (if Some f \<in> field_of desc ` set paths then map_of src f
       else if \<exists>g. Some g \<in> field_of desc ` set paths \<and> exclude desc f g \<and> map_of src g \<noteq> None then None else map_of dst f)"
proof (induction paths arbitrary: dst)
  case (Cons path paths)
  from Cons.prems obtain g where g: "field_of desc path = Some g"
      "apply_paths desc immutable src paths (case map_of src g of Some v \<Rightarrow> put_field desc g v dst | None \<Rightarrow> AList.delete g dst) = Ok d"
    by (auto split: if_splits option.splits)
  have step: "map_of (case map_of src g of Some v \<Rightarrow> put_field desc g v dst | None \<Rightarrow> AList.delete g dst) f =
      (if f = g then map_of src g else if exclude desc f g \<and> map_of src g \<noteq> None then None else map_of dst f)"
    by (auto simp: map_of_put_field delete_conv' split: option.splits)
  have one: "\<forall>h. exclude desc g h \<longrightarrow> map_of src g = None \<or> map_of src h = None" using assms by (simp add: one_member_def)
  have self: "\<not> exclude desc g g" by (simp add: exclude_def)
  have im: "field_of desc ` set (path # paths) = insert (Some g) (field_of desc ` set paths)" using g(1) by simp
  show ?case unfolding Cons.IH [OF g(2)] step im insert_iff using one self by (cases "f = g") auto
qed simp

text \<open>
  C36: a masked update that succeeds gives exactly the fields its mask names the request's values, set or
  cleared; of the others it changes only those that share a oneof with a field it sets, which are
  cleared.  It never touches a field that is immutable, has one spelling and is in no oneof, and it
  refuses an empty mask, an immutable path and an unknown one.
\<close>

theorem mask_moves_named_fields:
  assumes "applyMask desc dst src paths immutable = Ok d" and "one_member desc src"
  shows "map_of d f =
      (if \<exists>path\<in>set paths. field_of desc path = Some f then map_of src f
       else if \<exists>path\<in>set paths. \<exists>g. field_of desc path = Some g \<and> exclude desc f g \<and> map_of src g \<noteq> None then None
       else map_of dst f) \<and>
    (f \<in> set immutable \<and> oneof_of desc f = '''' \<and> (\<forall>(n, j, _)\<in>set desc. n = f \<longrightarrow> j = f) \<longrightarrow> map_of d f = map_of dst f) \<and>
    paths \<noteq> [] \<and> (\<forall>path\<in>set paths. path \<notin> set immutable \<and> field_of desc path \<noteq> None)"
proof -
  have p: "paths \<noteq> []" "apply_paths desc immutable src paths dst = Ok d" using assms(1) by (auto simp: applyMask_def split: if_splits)
  note F = apply_paths_fields [OF p(2)]
  have named: "Some h \<in> field_of desc ` set paths \<longleftrightarrow> (\<exists>path\<in>set paths. field_of desc path = Some h)" for h
    by (metis imageE imageI)
  have m: "map_of d f =
      (if \<exists>path\<in>set paths. field_of desc path = Some f then map_of src f
       else if \<exists>path\<in>set paths. \<exists>g. field_of desc path = Some g \<and> exclude desc f g \<and> map_of src g \<noteq> None then None
       else map_of dst f)"
    using apply_paths_spec [OF assms(2) p(2), of f] unfolding named by (metis (no_types))
  have n: "\<forall>path\<in>set paths. path \<notin> set immutable \<and> field_of desc path \<noteq> None" using F by (metis disjoint_iff image_iff)
  have "path = f" if "field_of desc path = Some f" "\<forall>(n, j, _)\<in>set desc. n = f \<longrightarrow> j = f" for path
    using that by (auto simp: field_of_def dest!: map_of_SomeD split: option.splits)
  then have "map_of d f = map_of dst f" if "f \<in> set immutable" "oneof_of desc f = ''''" "\<forall>(n, j, _)\<in>set desc. n = f \<longrightarrow> j = f"
    using m n that by (auto simp: exclude_def)
  with m n p(1) show ?thesis by blast
qed

definition demo_desc :: descriptor where
  "demo_desc = [(''name'', ''name'', ''''), (''labels'', ''labels'', ''''),
     (''expire_time'', ''expireTime'', ''expiration''), (''ttl'', ''ttl'', ''expiration'')]"

theorem mask_moves_named_fields_witness:
  "\<exists>d. applyMask demo_desc [(''name'', PStr ''n''), (''labels'', PRaw ''l''), (''expire_time'', PInt 7)]
      [(''name'', PStr ''m''), (''ttl'', PInt 3)] [''labels'', ''ttl''] [''name''] = Ok d \<and>
    map_of d ''name'' = Some (PStr ''n'') \<and> map_of d ''labels'' = None \<and> map_of d ''ttl'' = Some (PInt 3) \<and> map_of d ''expire_time'' = None"
proof -
  let ?src = "[(''name'', PStr ''m''), (''ttl'', PInt 3)]"
  have d: "applyMask demo_desc [(''name'', PStr ''n''), (''labels'', PRaw ''l''), (''expire_time'', PInt 7)] ?src [''labels'', ''ttl''] [''name''] =
      Ok [(''name'', PStr ''n''), (''ttl'', PInt 3)]"
    by (simp add: applyMask_def field_of_def demo_desc_def put_field_def exclude_def oneof_of_def)
  have one: "one_member demo_desc ?src" by (simp add: one_member_def exclude_def demo_desc_def oneof_of_def)
  from mask_moves_named_fields [OF d one, of "''name''"] mask_moves_named_fields [OF d one, of "''expire_time''"] d
  show ?thesis by (simp add: field_of_def)
qed

end
