(* ===== verification/Pub_Sub.thy ===== *)
theory Pub_Sub
  imports Proto_Msg KV_Store Fake_Clock Event_Bus Blob_Store
begin

text \<open>
  Cloud Pub/Sub (\<open>services/pubsub\<close>): topics and subscriptions in the key-value store; per subscription a
  backlog of messages, the leases of delivered ones with their deadline timers, and the wake-up
  channels of its streams.

  A Go map whose missing entries read as empty is a total function.  A timer's
  callback is the subscription and the ack id it expires.  A wake-up channel holds at most one
  token (its buffer).
\<close>

subsection \<open>Data\<close>

abbreviation GetName :: "proto \<Rightarrow> string" where "GetName \<equiv> getStr ''name''"
abbreviation GetTopic_of :: "proto \<Rightarrow> string" where "GetTopic_of \<equiv> getStr ''topic''"

record message =
  msData :: string
  msAttributes :: "(string \<times> string) list"
  msId :: string
  msOrderingKey :: string
  msPublishTime :: time

datatype psval = PSNil | PSTopic proto | PSSub proto

instantiation psval :: zero
begin
definition zero_psval_def: "0 = PSNil"
instance ..
end

subsection \<open>State (pubsub.go)\<close>

record lease =
  lsMsg :: message
  lsTimer :: nat

record 'h ps =
  psKV :: "psval memory"
  psClock :: "(string \<times> string) fakeClock"
  psBus :: "('h, payload) bus option"
  psBacklog :: "string \<Rightarrow> message list"
  psOutstanding :: "string \<Rightarrow> (string \<times> lease) list"
  psWaiters :: "string \<Rightarrow> (nat \<times> bool) list"
  psChan :: nat
  psSeq :: nat
  psDeliveries :: nat

definition New_ps :: "psval memory \<Rightarrow> (string \<times> string) fakeClock \<Rightarrow> ('h, payload) bus option \<Rightarrow> 'h ps" where
  "New_ps kv clk bs =
     \<lparr>psKV = kv, psClock = clk, psBus = bs, psBacklog = (\<lambda>_. []), psOutstanding = (\<lambda>_. []), psWaiters = (\<lambda>_. []),
      psChan = 0, psSeq = 0, psDeliveries = 0\<rparr>"

definition topicKey :: "string \<Rightarrow> string" where "topicKey name = ''ps/t/'' @ name"
definition subscriptionKey :: "string \<Rightarrow> string" where "subscriptionKey name = ''ps/s/'' @ name"
definition topicPrefix :: string where "topicPrefix = ''ps/t/''"
definition subscriptionPrefix :: string where "subscriptionPrefix = ''ps/s/''"

definition validName :: "string \<Rightarrow> string \<Rightarrow> rpc_error option" where
  "validName name kind =
     (let parts = split_on (CHR ''/'') name
      in if length parts \<noteq> 4 \<or> parts ! 0 \<noteq> ''projects'' \<or> parts ! 2 \<noteq> kind
         then Some (Errorf InvalidArgument ''invalid resource name %q; expected projects/{project}/%s/{id}'' [name, kind])
         else if parts ! 1 = '''' \<or> parts ! 3 = '''' then Some (Errorf InvalidArgument ''invalid resource name %q'' [name])
         else None)"

definition projectOf :: "string \<Rightarrow> string" where
  "projectOf name = (let parts = split_on (CHR ''/'') name in if length parts < 2 then '''' else parts ! 1)"

definition getTopic :: "ctx \<Rightarrow> string \<Rightarrow> 'h ps \<Rightarrow> (rpc_error, proto) result" where
  "getTopic cx name s =
     (case mem_Get cx (topicKey name) (psKV s) of
        Err ErrNotFound \<Rightarrow> Err (Errorf NotFound ''Topic not found: %s'' [name])
      | Err e \<Rightarrow> Err (Errorf Internal ''reading topic: %v'' [store_text e])
      | Ok (PSTopic t, _) \<Rightarrow> Ok t
      | Ok _ \<Rightarrow> Err (Errorf Internal ''decoding topic: %v'' [''json'']))"

definition getSubscription :: "ctx \<Rightarrow> string \<Rightarrow> 'h ps \<Rightarrow> (rpc_error, proto) result" where
  "getSubscription cx name s =
     (case mem_Get cx (subscriptionKey name) (psKV s) of
        Err ErrNotFound \<Rightarrow> Err (Errorf NotFound ''Subscription does not exist (resource=%s)'' [name])
      | Err e \<Rightarrow> Err (Errorf Internal ''reading subscription: %v'' [store_text e])
      | Ok (PSSub t, _) \<Rightarrow> Ok t
      | Ok _ \<Rightarrow> Err (Errorf Internal ''decoding subscription: %v'' [''json'']))"

definition signal :: "string \<Rightarrow> 'h ps \<Rightarrow> 'h ps" where
  "signal sub s = s\<lparr>psWaiters := (psWaiters s)(sub := map (\<lambda>(ch, _). (ch, True)) (psWaiters s sub))\<rparr>"

definition listen :: "string \<Rightarrow> 'h ps \<Rightarrow> nat \<times> 'h ps" where
  "listen sub s =
     (psChan s, s\<lparr>psChan := psChan s + 1, psWaiters := (psWaiters s)(sub := (psChan s, False) # psWaiters s sub)\<rparr>)"

definition unlisten :: "string \<Rightarrow> nat \<Rightarrow> 'h ps \<Rightarrow> 'h ps" where
  "unlisten sub ch s = s\<lparr>psWaiters := (psWaiters s)(sub := AList.delete ch (psWaiters s sub))\<rparr>"

definition nextMessageID :: "'h ps \<Rightarrow> string \<times> 'h ps" where
  "nextMessageID s = (dec (u64 (psSeq s + 1)), s\<lparr>psSeq := u64 (psSeq s + 1)\<rparr>)"

definition redeliver :: "string \<Rightarrow> string \<Rightarrow> 'h ps \<Rightarrow> 'h ps" where
  "redeliver sub ackID s =
     (case map_of (psOutstanding s sub) ackID of
        None \<Rightarrow> s
      | Some l \<Rightarrow>
          signal sub
            (s\<lparr>psClock := snd (Stop (lsTimer l) (psClock s)),
               psOutstanding := (psOutstanding s)(sub := AList.delete ackID (psOutstanding s sub)),
               psBacklog := (psBacklog s)(sub := lsMsg l # psBacklog s sub)\<rparr>))"

definition expire :: "string \<Rightarrow> string \<Rightarrow> 'h ps \<Rightarrow> 'h ps" where
  "expire sub ackID s = redeliver sub ackID s"

text \<open>A deadline timer's callback, as the clock runs it.\<close>

definition ps_exec :: "(string \<times> string, 'h ps) callback" where
  "ps_exec f = (\<lambda>(s, c). let s1 = expire (fst f) (snd f) (s\<lparr>psClock := c\<rparr>) in (Ok (), s1, psClock s1))"

subsection \<open>Publishing (publisher.go, notify.go)\<close>

definition CreateTopic :: "ctx \<Rightarrow> proto \<Rightarrow> 'h ps \<Rightarrow> (rpc_error, proto) result \<times> 'h ps" where
  "CreateTopic cx t s =
     (case validName (GetName t) ''topics'' of
        Some e \<Rightarrow> (Err e, s)
      | None \<Rightarrow>
          (case mem_Put cx (topicKey (GetName t)) (PSTopic t) 0 (psKV s) of
             (Err ErrVersionMismatch, m) \<Rightarrow> (Err (Errorf AlreadyExists ''Topic already exists: %s'' [GetName t]), s\<lparr>psKV := m\<rparr>)
           | (Err e, m) \<Rightarrow> (Err (Errorf Internal ''storing topic: %v'' [store_text e]), s\<lparr>psKV := m\<rparr>)
           | (Ok _, m) \<Rightarrow> (Ok t, s\<lparr>psKV := m\<rparr>)))"

definition GetTopic :: "ctx \<Rightarrow> string \<Rightarrow> 'h ps \<Rightarrow> (rpc_error, proto) result" where
  "GetTopic cx name s = getTopic cx name s"

fun decode_topics :: "psval kv list \<Rightarrow> (rpc_error, proto list) result" where
  "decode_topics [] = Ok []"
| "decode_topics (kv # kvs) =
     (case kvVal kv of
        PSTopic t \<Rightarrow> (case decode_topics kvs of Err e \<Rightarrow> Err e | Ok ts \<Rightarrow> Ok (t # ts))
      | _ \<Rightarrow> Err (Errorf Internal ''decoding topic: %v'' [''json'']))"

definition ListTopics :: "ctx \<Rightarrow> string \<Rightarrow> 'h ps \<Rightarrow> (rpc_error, proto list) result" where
  "ListTopics cx project s =
     (case mem_List cx (topicPrefix @ ''projects/'' @ trimPrefix project ''projects/'' @ ''/'') 0 '''' (psKV s) of
        Err e \<Rightarrow> Err (Errorf Internal ''listing topics: %v'' [store_text e])
      | Ok (entries, _) \<Rightarrow>
          (case decode_topics entries of Err e \<Rightarrow> Err e | Ok ts \<Rightarrow> Ok (sort_key GetName ts)))"

definition DeleteTopic :: "ctx \<Rightarrow> string \<Rightarrow> 'h ps \<Rightarrow> (rpc_error, unit) result \<times> 'h ps" where
  "DeleteTopic cx name s =
     (case mem_Delete cx (topicKey name) 0 (psKV s) of
        (Err ErrNotFound, m) \<Rightarrow> (Err (Errorf NotFound ''Topic not found: %s'' [name]), s\<lparr>psKV := m\<rparr>)
      | (Err e, m) \<Rightarrow> (Err (Errorf Internal ''deleting topic: %v'' [store_text e]), s\<lparr>psKV := m\<rparr>)
      | (Ok _, m) \<Rightarrow> (Ok (), s\<lparr>psKV := m\<rparr>))"

fun subs_on :: "string \<Rightarrow> psval kv list \<Rightarrow> string list" where
  "subs_on topic [] = []"
| "subs_on topic (kv # kvs) =
     (case kvVal kv of
        PSSub sub \<Rightarrow> if GetTopic_of sub = topic then GetName sub # subs_on topic kvs else subs_on topic kvs
      | _ \<Rightarrow> subs_on topic kvs)"

definition subscriptionsFor :: "ctx \<Rightarrow> string \<Rightarrow> 'h ps \<Rightarrow> (rpc_error, string list) result" where
  "subscriptionsFor cx topic s =
     (case mem_List cx (subscriptionPrefix @ ''projects/'' @ projectOf topic @ ''/'') 0 '''' (psKV s) of
        Err e \<Rightarrow> Err (Errorf Internal ''listing subscriptions: %v'' [store_text e])
      | Ok (entries, _) \<Rightarrow> Ok (sort (subs_on topic entries)))"

fun deliver_to :: "message \<Rightarrow> string list \<Rightarrow> 'h ps \<Rightarrow> 'h ps" where
  "deliver_to m [] s = s"
| "deliver_to m (sub # subs) s =
     deliver_to m subs (signal sub (s\<lparr>psBacklog := (psBacklog s)(sub := psBacklog s sub @ [m])\<rparr>))"

definition stamp :: "message \<Rightarrow> string \<Rightarrow> time \<Rightarrow> message" where
  "stamp m ident now =
     \<lparr>msData = msData m, msAttributes = msAttributes m, msId = ident, msOrderingKey = msOrderingKey m, msPublishTime = now\<rparr>"

fun publish_all :: "message list \<Rightarrow> string list \<Rightarrow> 'h ps \<Rightarrow> message list \<times> 'h ps" where
  "publish_all [] subs s = ([], s)"
| "publish_all (m # ms) subs s =
     (let (ident, s1) = nextMessageID s;
          stamped = stamp m ident (ckNow (psClock s1));
          (rest, s2) = publish_all ms subs (deliver_to stamped subs s1)
      in (stamped # rest, s2))"

definition EventPublish :: string where "EventPublish = ''google.pubsub.topic.publish''"
definition ServiceName_ps :: string where "ServiceName_ps = ''pubsub.googleapis.com''"
definition MessageType :: string where "MessageType = ''type.googleapis.com/google.pubsub.v1.PubsubMessage''"

definition SourceOf_topic :: "string \<Rightarrow> string" where
  "SourceOf_topic topic = ''//pubsub.googleapis.com/'' @ topic"

definition messagePayload :: "message \<Rightarrow> payload" where
  "messagePayload m =
     [(''@type'', JStr MessageType), (''data'', JStr (std64 (map of_char (msData m)))),
      (''messageId'', JStr (msId m)), (''publishTime'', JTime (msPublishTime m))] @
     (if msAttributes m = [] then [] else [(''attributes'', JMap (msAttributes m))])"

definition notify_ps :: "string \<Rightarrow> message \<Rightarrow> 'h ps \<Rightarrow> 'h ps" where
  "notify_ps topic m s =
     (case psBus s of
        None \<Rightarrow> s
      | Some b \<Rightarrow>
          s\<lparr>psBus := Some (Publish \<lparr>evType = EventPublish, evSource = SourceOf_topic topic, evSubject = ''topics/'' @ topic,
             evResource = topic, evService = ServiceName_ps, evKind = MessageType, evTime = msPublishTime m,
             evData = messagePayload m\<rparr> b)\<rparr>)"

definition Publish_ps :: "ctx \<Rightarrow> string \<Rightarrow> message list \<Rightarrow> 'h ps \<Rightarrow> (rpc_error, string list) result \<times> 'h ps" where
  "Publish_ps cx topic ms s =
     (case getTopic cx topic s of
        Err e \<Rightarrow> (Err e, s)
      | Ok _ \<Rightarrow>
     (case subscriptionsFor cx topic s of
        Err e \<Rightarrow> (Err e, s)
      | Ok subs \<Rightarrow>
          let (published, s1) = publish_all ms subs s
          in (Ok (map msId published), foldl (\<lambda>t m. notify_ps topic m t) s1 published)))"

subsection \<open>Subscribing (subscriber.go)\<close>

definition CreateSubscription :: "ctx \<Rightarrow> proto \<Rightarrow> 'h ps \<Rightarrow> (rpc_error, proto) result \<times> 'h ps" where
  "CreateSubscription cx sub0 s =
     (case validName (GetName sub0) ''subscriptions'' of
        Some e \<Rightarrow> (Err e, s)
      | None \<Rightarrow>
     (case validName (GetTopic_of sub0) ''topics'' of
        Some e \<Rightarrow> (Err e, s)
      | None \<Rightarrow>
     (case getTopic cx (GetTopic_of sub0) s of
        Err e \<Rightarrow> (Err e, s)
      | Ok _ \<Rightarrow>
          let sub = (if getInt ''ack_deadline_seconds'' sub0 = 0
                     then AList.update ''ack_deadline_seconds'' (PInt 10) sub0 else sub0)
          in (case mem_Put cx (subscriptionKey (GetName sub)) (PSSub sub) 0 (psKV s) of
                (Err ErrVersionMismatch, m) \<Rightarrow>
                  (Err (Errorf AlreadyExists ''Subscription already exists: %s'' [GetName sub]), s\<lparr>psKV := m\<rparr>)
              | (Err e, m) \<Rightarrow> (Err (Errorf Internal ''storing subscription: %v'' [store_text e]), s\<lparr>psKV := m\<rparr>)
              | (Ok _, m) \<Rightarrow> (Ok sub, s\<lparr>psKV := m\<rparr>)))))"

definition GetSubscription :: "ctx \<Rightarrow> string \<Rightarrow> 'h ps \<Rightarrow> (rpc_error, proto) result" where
  "GetSubscription cx name s = getSubscription cx name s"

fun decode_subs :: "psval kv list \<Rightarrow> (rpc_error, proto list) result" where
  "decode_subs [] = Ok []"
| "decode_subs (kv # kvs) =
     (case kvVal kv of
        PSSub t \<Rightarrow> (case decode_subs kvs of Err e \<Rightarrow> Err e | Ok ts \<Rightarrow> Ok (t # ts))
      | _ \<Rightarrow> Err (Errorf Internal ''decoding subscription: %v'' [''json'']))"

definition ListSubscriptions :: "ctx \<Rightarrow> string \<Rightarrow> 'h ps \<Rightarrow> (rpc_error, proto list) result" where
  "ListSubscriptions cx project s =
     (case mem_List cx (subscriptionPrefix @ ''projects/'' @ trimPrefix project ''projects/'' @ ''/'') 0 '''' (psKV s) of
        Err e \<Rightarrow> Err (Errorf Internal ''listing subscriptions: %v'' [store_text e])
      | Ok (entries, _) \<Rightarrow>
          (case decode_subs entries of Err e \<Rightarrow> Err e | Ok ts \<Rightarrow> Ok (sort_key GetName ts)))"

definition DeleteSubscription :: "ctx \<Rightarrow> string \<Rightarrow> 'h ps \<Rightarrow> (rpc_error, unit) result \<times> 'h ps" where
  "DeleteSubscription cx name s =
     (case mem_Delete cx (subscriptionKey name) 0 (psKV s) of
        (Err ErrNotFound, m) \<Rightarrow> (Err (Errorf NotFound ''Subscription does not exist (resource=%s)'' [name]), s\<lparr>psKV := m\<rparr>)
      | (Err e, m) \<Rightarrow> (Err (Errorf Internal ''deleting subscription: %v'' [store_text e]), s\<lparr>psKV := m\<rparr>)
      | (Ok _, m) \<Rightarrow> (Ok (), s\<lparr>psKV := m, psBacklog := (psBacklog s)(name := []), psOutstanding := (psOutstanding s)(name := [])\<rparr>))"

definition deadlineOf :: "proto \<Rightarrow> duration" where
  "deadlineOf sub =
     (let secs = getInt ''ack_deadline_seconds'' sub in i64 ((if secs \<le> 0 then 10 else secs) * second))"

record received =
  rcAckId :: string
  rcMsg :: message

fun lease_all :: "string \<Rightarrow> duration \<Rightarrow> message list \<Rightarrow> 'h ps \<Rightarrow> received list \<times> 'h ps" where
  "lease_all sub deadline [] s = ([], s)"
| "lease_all sub deadline (m # ms) s =
     (let n = u64 (psDeliveries s + 1);
          ackID = msId m @ ''-'' @ dec n;
          (p, c) = AfterFunc deadline (sub, ackID) (psClock s);
          (out, s2) = lease_all sub deadline ms
            (s\<lparr>psDeliveries := n, psClock := c,
               psOutstanding := (psOutstanding s)(sub := AList.update ackID \<lparr>lsMsg = m, lsTimer = p\<rparr> (psOutstanding s sub))\<rparr>)
      in (\<lparr>rcAckId = ackID, rcMsg = m\<rparr> # out, s2))"

definition take_ps :: "string \<Rightarrow> int \<Rightarrow> duration \<Rightarrow> 'h ps \<Rightarrow> received list \<times> 'h ps" where
  "take_ps sub n deadline s =
     (let queue = psBacklog s sub
      in if queue = [] then ([], s)
         else
           let k = (if int (length queue) < n then length queue else nat n)
           in lease_all sub deadline (take k queue) (s\<lparr>psBacklog := (psBacklog s)(sub := drop k queue)\<rparr>))"

definition Pull :: "ctx \<Rightarrow> string \<Rightarrow> int \<Rightarrow> 'h ps \<Rightarrow> (rpc_error, received list) result \<times> 'h ps" where
  "Pull cx name maxMessages s =
     (case getSubscription cx name s of
        Err e \<Rightarrow> (Err e, s)
      | Ok sub \<Rightarrow>
          let (out, s1) = take_ps name (if maxMessages \<le> 0 then 1 else maxMessages) (deadlineOf sub) s
          in (Ok out, s1))"

definition ack_one :: "string \<Rightarrow> string \<Rightarrow> 'h ps \<Rightarrow> 'h ps" where
  "ack_one sub ackID s =
     (case map_of (psOutstanding s sub) ackID of
        None \<Rightarrow> s
      | Some l \<Rightarrow>
          s\<lparr>psClock := snd (Stop (lsTimer l) (psClock s)),
            psOutstanding := (psOutstanding s)(sub := AList.delete ackID (psOutstanding s sub))\<rparr>)"

definition Acknowledge :: "ctx \<Rightarrow> string \<Rightarrow> string list \<Rightarrow> 'h ps \<Rightarrow> (rpc_error, unit) result \<times> 'h ps" where
  "Acknowledge cx name ids s =
     (case getSubscription cx name s of
        Err e \<Rightarrow> (Err e, s)
      | Ok _ \<Rightarrow> (Ok (), foldl (\<lambda>t ackID. ack_one name ackID t) s ids))"

definition modify_one :: "string \<Rightarrow> duration \<Rightarrow> string \<Rightarrow> 'h ps \<Rightarrow> 'h ps" where
  "modify_one sub ext ackID s =
     (if ext = 0 then redeliver sub ackID s
      else (case map_of (psOutstanding s sub) ackID of
              None \<Rightarrow> s
            | Some l \<Rightarrow>
                let (stopped, c) = Stop (lsTimer l) (psClock s)
                in if \<not> stopped then s\<lparr>psClock := c\<rparr>
                   else
                     let (p, c') = AfterFunc ext (sub, ackID) c
                     in s\<lparr>psClock := c',
                          psOutstanding := (psOutstanding s)(sub := AList.update ackID (l\<lparr>lsTimer := p\<rparr>) (psOutstanding s sub))\<rparr>))"

definition ModifyAckDeadline :: "ctx \<Rightarrow> string \<Rightarrow> string list \<Rightarrow> int \<Rightarrow> 'h ps \<Rightarrow> (rpc_error, unit) result \<times> 'h ps" where
  "ModifyAckDeadline cx name ids secs s =
     (case getSubscription cx name s of
        Err e \<Rightarrow> (Err e, s)
      | Ok _ \<Rightarrow> (Ok (), foldl (\<lambda>t ackID. modify_one name (i64 (secs * second)) ackID t) s ids))"

subsection \<open>Streams (streaming.go)\<close>

definition streamBatch :: int where "streamBatch = 100"

record stream_request =
  srSubscription :: string
  srAckIds :: "string list"
  srModifyIds :: "string list"
  srModifySecs :: "int list"

definition handleAcks :: "string \<Rightarrow> stream_request \<Rightarrow> 'h ps \<Rightarrow> 'h ps" where
  "handleAcks sub req s =
     (let s1 = foldl (\<lambda>t ackID. ack_one sub ackID t) s (srAckIds req)
      in foldl (\<lambda>t (ackID, secs). modify_one sub (i64 (secs * second)) ackID t) s1 (zip (srModifyIds req) (srModifySecs req)))"

record stream =
  stName :: string
  stDeadline :: duration
  stChan :: nat

definition StreamingPull_open :: "ctx \<Rightarrow> stream_request \<Rightarrow> 'h ps \<Rightarrow> (rpc_error, stream) result \<times> 'h ps" where
  "StreamingPull_open cx first s =
     (if srSubscription first = ''''
      then (Err (Errorf InvalidArgument ''the first StreamingPull request must name a subscription'' []), s)
      else (case getSubscription cx (srSubscription first) s of
              Err e \<Rightarrow> (Err e, s)
            | Ok sub \<Rightarrow>
                let (ch, s1) = listen (srSubscription first) (handleAcks (srSubscription first) first s)
                in (Ok \<lparr>stName = srSubscription first, stDeadline = deadlineOf sub, stChan = ch\<rparr>, s1)))"

text \<open>One turn of the send loop: a batch to send, a consumed wake-up (go round again), or blocked.\<close>

datatype turn = SendBatch "received list" | Woken | Blocked

definition stream_turn :: "stream \<Rightarrow> 'h ps \<Rightarrow> turn \<times> 'h ps" where
  "stream_turn st s =
     (case take_ps (stName st) streamBatch (stDeadline st) s of
        ([], s1) \<Rightarrow>
          if map_of (psWaiters s1 (stName st)) (stChan st) = Some True
          then (Woken, s1\<lparr>psWaiters := (psWaiters s1)(stName st := AList.update (stChan st) False (psWaiters s1 (stName st)))\<rparr>)
          else (Blocked, s1)
      | (batch, s1) \<Rightarrow> (SendBatch batch, s1))"

subsection \<open>Masked updates (update.go)\<close>

definition UpdateTopic ::
  "descriptor \<Rightarrow> ctx \<Rightarrow> proto \<Rightarrow> string list \<Rightarrow> 'h ps \<Rightarrow> (rpc_error, proto) result \<times> 'h ps" where
  "UpdateTopic desc cx t paths s =
     (case mem_Get cx (topicKey (GetName t)) (psKV s) of
        Err _ \<Rightarrow> (Err (Errorf NotFound ''Topic not found: %s'' [GetName t]), s)
      | Ok (PSTopic current, version) \<Rightarrow>
          (case applyMask desc current t paths [''name''] of
             Err e \<Rightarrow> (Err e, s)
           | Ok t' \<Rightarrow>
               (case mem_Put cx (topicKey (GetName t)) (PSTopic t') version (psKV s) of
                  (Err e, m) \<Rightarrow> (Err (Errorf Aborted ''updating topic: %v'' [store_text e]), s\<lparr>psKV := m\<rparr>)
                | (Ok _, m) \<Rightarrow> (Ok t', s\<lparr>psKV := m\<rparr>)))
      | Ok _ \<Rightarrow> (Err (Errorf Internal ''decoding topic: %v'' [''json'']), s))"

definition UpdateSubscription ::
  "descriptor \<Rightarrow> ctx \<Rightarrow> proto \<Rightarrow> string list \<Rightarrow> 'h ps \<Rightarrow> (rpc_error, proto) result \<times> 'h ps" where
  "UpdateSubscription desc cx sub paths s =
     (case mem_Get cx (subscriptionKey (GetName sub)) (psKV s) of
        Err _ \<Rightarrow> (Err (Errorf NotFound ''Subscription does not exist: %s'' [GetName sub]), s)
      | Ok (PSSub current, version) \<Rightarrow>
          (case applyMask desc current sub paths [''name'', ''topic''] of
             Err e \<Rightarrow> (Err e, s)
           | Ok t' \<Rightarrow>
               (case mem_Put cx (subscriptionKey (GetName sub)) (PSSub t') version (psKV s) of
                  (Err e, m) \<Rightarrow> (Err (Errorf Aborted ''updating subscription: %v'' [store_text e]), s\<lparr>psKV := m\<rparr>)
                | (Ok _, m) \<Rightarrow> (Ok t', s\<lparr>psKV := m\<rparr>)))
      | Ok _ \<Rightarrow> (Err (Errorf Internal ''decoding subscription: %v'' [''json'']), s))"

subsection \<open>Snapshots (pending.go)\<close>

definition byID :: "message \<Rightarrow> message \<Rightarrow> bool" where
  "byID a b =
     (case (parseUint (msId a), parseUint (msId b)) of
        (Some x, Some y) \<Rightarrow> x \<le> y
      | _ \<Rightarrow> msId a \<le> msId b)"

text \<open>A stable sort by the comparison \<open>byID\<close>.\<close>

fun insert_byID :: "message \<Rightarrow> message list \<Rightarrow> message list" where
  "insert_byID m [] = [m]"
| "insert_byID m (x # xs) = (if byID m x then m # x # xs else x # insert_byID m xs)"

definition sort_byID :: "message list \<Rightarrow> message list" where
  "sort_byID ms = foldr insert_byID ms []"

text \<open>The messages to carry, by subscription (an absent entry is the empty list), and the id counter.\<close>

definition Pending_ps :: "'h ps \<Rightarrow> nat \<times> (string \<Rightarrow> message list)" where
  "Pending_ps s =
     (psSeq s, \<lambda>sub. sort_byID (map (lsMsg \<circ> snd) (psOutstanding s sub)) @ psBacklog s sub)"

fun stop_leases :: "(string \<times> lease) list \<Rightarrow> (string \<times> string) fakeClock \<Rightarrow> (string \<times> string) fakeClock" where
  "stop_leases [] c = c"
| "stop_leases ((_, l) # ls) c = stop_leases ls (snd (Stop (lsTimer l) c))"

text \<open>\<open>subs\<close> lists the subscriptions of the maps \<open>outstanding\<close> and \<open>msgs\<close>.\<close>

definition RestorePending :: "string list \<Rightarrow> nat \<Rightarrow> (string \<Rightarrow> message list) \<Rightarrow> 'h ps \<Rightarrow> 'h ps" where
  "RestorePending subs seq msgs s =
     (let c = foldl (\<lambda>c sub. stop_leases (psOutstanding s sub) c) (psClock s) subs;
          live = (\<lambda>sub. is_ok (mem_Get CtxLive (subscriptionKey sub) (psKV s)));
          s1 = s\<lparr>psClock := c, psOutstanding := (\<lambda>_. []),
                 psBacklog := (\<lambda>sub. if live sub then msgs sub else [])\<rparr>
      in (foldl (\<lambda>t sub. if msgs sub \<noteq> [] \<and> live sub then signal sub t else t) s1 subs)\<lparr>psSeq := seq\<rparr>)"

end
