(* ===== verification/Pub_Sub_Inv.thy ===== *)
theory Pub_Sub_Inv
  imports Pub_Sub
begin

text \<open>
  Pub/Sub: every message a subscription was given stays in its backlog or in a lease until it is
  acknowledged, every lease has a deadline timer of its own or an expiry already fired, and snapshots carry all of it.
\<close>

subsection \<open>Leases as an association list\<close>

definition leased :: "(string \<times> lease) list \<Rightarrow> message multiset" where
  "leased ls = mset (map (lsMsg \<circ> snd) ls)"

lemma leased_simps [simp]: "leased [] = {#}" "leased (x # ls) = add_mset (lsMsg (snd x)) (leased ls)" "leased (a @ b) = leased a + leased b"
  by (simp_all add: leased_def)

lemma leased_delete:
  "distinct (map fst ls) \<Longrightarrow> map_of ls a = Some l \<Longrightarrow> leased ls = add_mset (lsMsg l) (leased (AList.delete a ls))"
  by (induction ls) (auto simp: image_iff split: if_splits)

lemma leased_update:
  "map_of ls a = Some l \<Longrightarrow> lsMsg l' = lsMsg l \<Longrightarrow> leased (AList.update a l' ls) = leased ls"
  by (induction ls) (auto split: if_splits)

lemma update_fresh: "a \<notin> fst ` set ls \<Longrightarrow> AList.update a l ls = ls @ [(a, l)]"
  by (induction ls) auto

lemma ack_inj: "x @ ''-'' @ dec m = y @ ''-'' @ dec n \<Longrightarrow> m = n"
proof -
  assume eq: "x @ ''-'' @ dec m = y @ ''-'' @ dec n"
  have "last_index (CHR ''-'') (x @ CHR ''-'' # dec m) = Some (length x)" "last_index (CHR ''-'') (y @ CHR ''-'' # dec n) = Some (length y)"
    by (simp_all add: last_index_append dec_no_sep)
  with eq have "length x = length y" by simp
  with eq show ?thesis by simp
qed

subsection \<open>The invariant\<close>

text \<open>
  Every lease has a deadline timer of its own, or its expiry has fired and waits for the lock (\<open>W\<close>).
\<close>

definition lease_ok :: "(string \<times> string) set \<Rightarrow> 'h ps \<Rightarrow> string \<Rightarrow> string \<Rightarrow> lease \<Rightarrow> bool" where
  "lease_ok W s sub a l \<longleftrightarrow>
     lsTimer l < ckPtr (psClock s) \<and> (\<forall>tm\<in>set (ckQ (psClock s)). tPtr tm = lsTimer l \<longrightarrow> tF tm = (sub, a)) \<and>
     ((\<exists>tm\<in>set (ckQ (psClock s)). tPtr tm = lsTimer l) \<or> (sub, a) \<in> W) \<and>
     (\<exists>x n. a = x @ ''-'' @ dec n \<and> n \<le> psDeliveries s)"

definition ps_inv :: "(string \<times> string) set \<Rightarrow> 'h ps \<Rightarrow> bool" where
  "ps_inv W s \<longleftrightarrow> clock_wf (psClock s) \<and>
     (\<forall>sub. distinct (map fst (psOutstanding s sub)) \<and> (\<forall>(a, l)\<in>set (psOutstanding s sub). lease_ok W s sub a l))"

definition content :: "'h ps \<Rightarrow> string \<Rightarrow> message multiset" where
  "content s sub = mset (psBacklog s sub) + leased (psOutstanding s sub)"

lemma ps_invD:
  assumes "ps_inv W s"
  shows "clock_wf (psClock s)" and "distinct (map fst (psOutstanding s sub))"
    and "(a, l) \<in> set (psOutstanding s sub) \<Longrightarrow> lease_ok W s sub a l"
  using assms by (auto simp: ps_inv_def)

text \<open>Only the clock, the leases and the delivery counter matter.\<close>

lemma ps_inv_cong:
  "psClock t = psClock s \<Longrightarrow> psOutstanding t = psOutstanding s \<Longrightarrow> psDeliveries t = psDeliveries s \<Longrightarrow> ps_inv W t = ps_inv W s"
  by (simp add: ps_inv_def lease_ok_def)

lemma signal_fields [simp]: "psClock (signal sub s) = psClock s" "psOutstanding (signal sub s) = psOutstanding s"
  "psDeliveries (signal sub s) = psDeliveries s" "psBacklog (signal sub s) = psBacklog s" "psKV (signal sub s) = psKV s"
  by (simp_all add: signal_def)

text \<open>Stopping the timer of a lease and dropping the lease.\<close>

lemma drop_lease:
  assumes inv: "ps_inv W s" and l: "map_of (psOutstanding s sub) a = Some l"
  shows "ps_inv W (s\<lparr>psClock := snd (Stop (lsTimer l) (psClock s)),
    psOutstanding := (psOutstanding s)(sub := AList.delete a (psOutstanding s sub)), psBacklog := bl\<rparr>)"
proof -
  note D = ps_invD [OF inv]
  let ?c = "snd (Stop (lsTimer l) (psClock s))"
  let ?s = "s\<lparr>psClock := ?c, psOutstanding := (psOutstanding s)(sub := AList.delete a (psOutstanding s sub)), psBacklog := bl\<rparr>"
  have la: "lease_ok W s sub a l" using D(3) map_of_SomeD [OF l] by blast
  have keep: "lease_ok W ?s sub' b l'" if "(b, l') \<in> set (psOutstanding s sub')" "(sub', b) \<noteq> (sub, a)" for sub' b l'
  proof -
    have lb: "lease_ok W s sub' b l'" using D(3) that(1) by blast
    have "lsTimer l' \<noteq> lsTimer l \<or> (\<forall>tm\<in>set (ckQ (psClock s)). tPtr tm \<noteq> lsTimer l')"
      using la lb that(2) unfolding lease_ok_def by metis
    with lb show ?thesis by (auto simp: lease_ok_def set_Stop [OF D(1)])
  qed
  have "lease_ok W ?s sub' b l'" if "(b, l') \<in> set (psOutstanding ?s sub')" for sub' b l'
    using that by (intro keep) (auto simp: AList.delete_eq split: if_splits)
  moreover have "distinct (map fst (psOutstanding ?s sub'))" for sub'
    by (simp add: D(2) distinct_delete)
  ultimately show ?thesis using Stop_wf [OF D(1)] unfolding ps_inv_def by auto
qed

lemma ack_one_inv:
  assumes "ps_inv W s"
  shows "ps_inv W (ack_one sub a s) \<and> psDeliveries (ack_one sub a s) = psDeliveries s \<and>
    content s = (content (ack_one sub a s))(sub := content (ack_one sub a s) sub +
      (case map_of (psOutstanding s sub) a of None \<Rightarrow> {#} | Some l \<Rightarrow> {#lsMsg l#}))"
proof (cases "map_of (psOutstanding s sub) a")
  case None
  then have "ack_one sub a s = s" by (simp add: ack_one_def)
  with assms None show ?thesis by simp
next
  case (Some l)
  have "ps_inv W (ack_one sub a s)" using drop_lease [OF assms Some, of "psBacklog s"] Some by (simp add: ack_one_def)
  with Some leased_delete [OF ps_invD(2) [OF assms] Some] show ?thesis by (auto simp: ack_one_def content_def fun_eq_iff)
qed

lemma redeliver_inv:
  assumes "ps_inv W s"
  shows "ps_inv W (redeliver sub a s) \<and> content (redeliver sub a s) = content s \<and> psDeliveries (redeliver sub a s) = psDeliveries s \<and>
    a \<notin> fst ` set (psOutstanding (redeliver sub a s) sub) \<and> set (psOutstanding (redeliver sub a s) sub') \<subseteq> set (psOutstanding s sub')"
proof (cases "map_of (psOutstanding s sub) a")
  case None
  then have "redeliver sub a s = s" by (simp add: redeliver_def)
  moreover have "a \<notin> fst ` set (psOutstanding s sub)" using None by (simp add: map_of_eq_None_iff)
  ultimately show ?thesis using assms by simp
next
  case (Some l)
  let ?s = "s\<lparr>psClock := snd (Stop (lsTimer l) (psClock s)), psOutstanding := (psOutstanding s)(sub := AList.delete a (psOutstanding s sub)),
      psBacklog := (psBacklog s)(sub := lsMsg l # psBacklog s sub)\<rparr>"
  have "ps_inv W (signal sub ?s)" using drop_lease [OF assms Some] ps_inv_cong [of "signal sub ?s" ?s W] by simp
  moreover have "content (signal sub ?s) sub'' = content s sub''" for sub''
    using leased_delete [OF ps_invD(2) [OF assms] Some] by (auto simp: content_def)
  ultimately show ?thesis using Some by (auto simp: redeliver_def fun_eq_iff AList.delete_eq)
qed


lemma modify_one_inv:
  assumes inv: "ps_inv W s"
  shows "ps_inv W (modify_one sub ext a s) \<and> content (modify_one sub ext a s) = content s \<and>
    psDeliveries (modify_one sub ext a s) = psDeliveries s"
proof (cases "ext = 0")
  case True
  then show ?thesis using redeliver_inv [OF inv] by (simp add: modify_one_def)
next
  case False
  note D = ps_invD [OF inv]
  show ?thesis
  proof (cases "map_of (psOutstanding s sub) a")
    case None
    then have "modify_one sub ext a s = s" using False by (simp add: modify_one_def)
    with inv show ?thesis by simp
  next
    case (Some l)
    obtain b c where st: "Stop (lsTimer l) (psClock s) = (b, c)" by force
    show ?thesis
    proof (cases b)
      case f: False
      then have "c = psClock s" using st by (auto simp: Stop_def split: if_splits)
      then have "modify_one sub ext a s = s" using f st Some False by (simp add: modify_one_def)
      with inv show ?thesis by simp
    next
      case True
      have wf: "clock_wf c" and set_c: "set (ckQ c) = {t \<in> set (ckQ (psClock s)). tPtr t \<noteq> lsTimer l}" and ptr: "ckPtr c = ckPtr (psClock s)"
        using Stop_wf [OF D(1), of "lsTimer l"] set_Stop [OF D(1), of "lsTimer l"] Stop_fields(3) [of "lsTimer l" "psClock s"] st by auto
      let ?l = "l\<lparr>lsTimer := ckPtr c\<rparr>"
      let ?s = "s\<lparr>psClock := snd (AfterFunc ext (sub, a) c), psOutstanding := (psOutstanding s)(sub := AList.update a ?l (psOutstanding s sub))\<rparr>"
      have eq: "modify_one sub ext a s = ?s" using True st Some False by (simp add: modify_one_def Let_def split_beta)
      have la: "lease_ok W s sub a l" using D(3) map_of_SomeD [OF Some] by blast
      note q = set_AfterFunc [OF wf, of ext "(sub, a)"]
      have fresh: "tPtr tm < ckPtr c" if "tm \<in> set (ckQ c)" for tm using wf that by (auto simp: clock_wf_def)
      have new: "lease_ok W ?s sub a ?l"
        using la fresh unfolding lease_ok_def by (auto simp: q dest!: fresh)
      have old: "lease_ok W ?s sub' a' l'" if h: "(a', l') \<in> set (psOutstanding s sub')" "(sub', a') \<noteq> (sub, a)" for sub' a' l'
      proof -
        have lb: "lease_ok W s sub' a' l'" using D(3) h(1) by blast
        have "lsTimer l' \<noteq> lsTimer l \<or> (\<forall>tm\<in>set (ckQ (psClock s)). tPtr tm \<noteq> lsTimer l')"
          using la lb h(2) unfolding lease_ok_def by metis
        with lb ptr show ?thesis unfolding lease_ok_def by (auto simp: q set_c)
      qed
      have up: "x \<in> set (AList.update a ?l ls) \<Longrightarrow> distinct (map fst ls) \<Longrightarrow> x = (a, ?l) \<or> x \<in> set ls \<and> fst x \<noteq> a" for x ls
        by (induction ls) (auto split: if_splits)
      have "lease_ok W ?s sub' a' l'" if "(a', l') \<in> set (psOutstanding ?s sub')" for sub' a' l'
      proof (cases "sub' = sub")
        case True
        then show ?thesis using that up [of "(a', l')" "psOutstanding s sub"] D(2) new old by auto
      next
        case False
        then show ?thesis using that old by auto
      qed
      moreover have "distinct (map fst (psOutstanding ?s sub'))" for sub' by (simp add: D(2) distinct_update)
      ultimately have "ps_inv W ?s" using AfterFunc_wf [OF wf] unfolding ps_inv_def by auto
      moreover have "content ?s = content s" using leased_update [OF Some, of ?l] by (auto simp: content_def)
      ultimately show ?thesis using eq by simp
    qed
  qed
qed

lemma lease_one_inv:
  assumes inv: "ps_inv W s" and a: "a = x @ ''-'' @ dec n" and n_def: "n = psDeliveries s + 1"
  shows "ps_inv W (s\<lparr>psDeliveries := n, psClock := snd (AfterFunc d (sub, a) (psClock s)),
      psOutstanding := (psOutstanding s)(sub := AList.update a \<lparr>lsMsg = m, lsTimer = ckPtr (psClock s)\<rparr> (psOutstanding s sub))\<rparr>)"
    and "AList.update a l (psOutstanding s sub) = psOutstanding s sub @ [(a, l)]"
proof -
  note D = ps_invD [OF inv]
  have fresh: "a \<notin> fst ` set (psOutstanding s sub)"
  proof
    assume "a \<in> fst ` set (psOutstanding s sub)"
    then obtain l where "(a, l) \<in> set (psOutstanding s sub)" by auto
    then have "lease_ok W s sub a l" using D(3) by blast
    then obtain y k where "a = y @ ''-'' @ dec k" "k \<le> psDeliveries s" unfolding lease_ok_def by blast
    with ack_inj [of x n y k] a show False by (simp add: n_def)
  qed
  show up: "AList.update a l (psOutstanding s sub) = psOutstanding s sub @ [(a, l)]" for l
    using fresh by (rule update_fresh)
  let ?l = "\<lparr>lsMsg = m, lsTimer = ckPtr (psClock s)\<rparr>"
  let ?s = "s\<lparr>psDeliveries := n, psClock := snd (AfterFunc d (sub, a) (psClock s)),
      psOutstanding := (psOutstanding s)(sub := AList.update a ?l (psOutstanding s sub))\<rparr>"
  note q = set_AfterFunc [OF D(1)]
  have lt: "tPtr tm < ckPtr (psClock s)" if "tm \<in> set (ckQ (psClock s))" for tm using D(1) that by (auto simp: clock_wf_def)
  have new: "lease_ok W ?s sub a ?l" unfolding lease_ok_def using a by (auto simp: q dest!: lt)
  have old: "lease_ok W ?s sub' a' l'" if "(a', l') \<in> set (psOutstanding s sub')" for sub' a' l'
  proof -
    have "lease_ok W s sub' a' l'" using D(3) that by blast
    then show ?thesis unfolding lease_ok_def by (auto simp: q n_def) (use le_SucI in blast)+
  qed
  have "lease_ok W ?s sub' a' l'" if "(a', l') \<in> set (psOutstanding ?s sub')" for sub' a' l'
    using that old new by (auto simp: up split: if_splits)
  moreover have "distinct (map fst (psOutstanding ?s sub'))" for sub' by (simp add: D(2) distinct_update)
  ultimately show "ps_inv W ?s" using AfterFunc_wf [OF D(1)] unfolding ps_inv_def by auto
qed


lemma lease_all_inv:
  "ps_inv W s \<Longrightarrow> psDeliveries s + length ms < 2 ^ 64 \<Longrightarrow> lease_all sub d ms s = (out, s') \<Longrightarrow>
    ps_inv W s' \<and> psBacklog s' = psBacklog s \<and> psDeliveries s' = psDeliveries s + length ms \<and>
    (\<forall>sub'. leased (psOutstanding s' sub') = leased (psOutstanding s sub') + (if sub' = sub then mset ms else {#})) \<and>
    map rcMsg out = ms \<and> psKV s' = psKV s"
proof (induction ms arbitrary: s out s')
  case (Cons m ms)
  define n where "n = psDeliveries s + 1"
  define a where "a = msId m @ ''-'' @ dec n"
  let ?l = "\<lparr>lsMsg = m, lsTimer = ckPtr (psClock s)\<rparr>"
  let ?s = "s\<lparr>psDeliveries := n, psClock := snd (AfterFunc d (sub, a) (psClock s)),
      psOutstanding := (psOutstanding s)(sub := AList.update a ?l (psOutstanding s sub))\<rparr>"
  have u: "u64 (Suc (psDeliveries s)) = n" using Cons.prems(2) by (simp add: n_def)
  have a': "a = msId m @ CHR ''-'' # dec n" by (simp add: a_def)
  obtain c where af: "AfterFunc d (sub, a) (psClock s) = (ckPtr (psClock s), c)"
    by (metis AfterFunc_fields(5) prod.collapse)
  have "lease_all sub d (m # ms) s =
      (let (out', s2) = lease_all sub d ms ?s in (\<lparr>rcAckId = a, rcMsg = m\<rparr> # out', s2))"
    by (simp add: Let_def u a' [symmetric] af)
  then obtain out' where o: "lease_all sub d ms ?s = (out', s')" "out = \<lparr>rcAckId = a, rcMsg = m\<rparr> # out'"
    using Cons.prems(3) by (cases "lease_all sub d ms ?s") (simp add: Let_def)
  note L = lease_one_inv(1) [OF Cons.prems(1) a_def n_def, where d = d and sub = sub and m = m]
    lease_one_inv(2) [OF Cons.prems(1) a_def n_def]
  have "psDeliveries ?s + length ms < 2 ^ 64" using Cons.prems(2) by (simp add: n_def)
  from Cons.IH [OF L(1) this o(1)] show ?case using L(2) o(2) by (auto simp: n_def)
qed simp

lemma take_ps_inv:
  assumes "ps_inv W s" and "psDeliveries s + length (psBacklog s sub) < 2 ^ 64" and "take_ps sub n d s = (out, s')"
  shows "ps_inv W s' \<and> content s' = content s"
proof (cases "psBacklog s sub = []")
  case True
  then show ?thesis using assms by (simp add: take_ps_def)
next
  case False
  define k where "k = (if int (length (psBacklog s sub)) < n then length (psBacklog s sub) else nat n)"
  let ?s = "s\<lparr>psBacklog := (psBacklog s)(sub := drop k (psBacklog s sub))\<rparr>"
  have l: "lease_all sub d (take k (psBacklog s sub)) ?s = (out, s')"
    using assms(3) False by (simp add: take_ps_def k_def Let_def)
  have i: "ps_inv W ?s" using assms(1) ps_inv_cong [of ?s s W] by simp
  have "length (take k (psBacklog s sub)) \<le> length (psBacklog s sub)" by simp
  then have "psDeliveries ?s + length (take k (psBacklog s sub)) < 2 ^ 64" using assms(2) by simp
  from lease_all_inv [OF i this l] have L: "ps_inv W s'" "psBacklog s' = psBacklog ?s"
    "\<And>sub'. leased (psOutstanding s' sub') = leased (psOutstanding s sub') + (if sub' = sub then mset (take k (psBacklog s sub)) else {#})"
    by auto
  have "mset (psBacklog s sub) = mset (take k (psBacklog s sub)) + mset (drop k (psBacklog s sub))"
    by (metis append_take_drop_id mset_append)
  with L show ?thesis by (auto simp: content_def fun_eq_iff)
qed

lemma deliver_to_inv:
  "ps_inv W (deliver_to m subs s) = ps_inv W s \<and> psDeliveries (deliver_to m subs s) = psDeliveries s \<and>
   content (deliver_to m subs s) sub = content s sub + mset (replicate (count_list subs sub) m)"
proof (induction subs arbitrary: s)
  case (Cons x xs)
  let ?s = "signal x (s\<lparr>psBacklog := (psBacklog s)(x := psBacklog s x @ [m])\<rparr>)"
  have "ps_inv W ?s = ps_inv W s" by (rule ps_inv_cong) simp_all
  moreover have "content ?s sub = content s sub + (if x = sub then {#m#} else {#})" by (simp add: content_def)
  ultimately show ?case using Cons [of ?s] by simp
qed simp

text \<open>What publishing adds to a subscription: a copy of every message per listed name.\<close>

definition copies :: "message list \<Rightarrow> string list \<Rightarrow> string \<Rightarrow> message multiset" where
  "copies ms subs sub = repeat_mset (count_list subs sub) (mset ms)"

lemma publish_all_inv:
  "publish_all ms subs s = (out, s') \<Longrightarrow>
     (ps_inv W s' = ps_inv W s) \<and> psDeliveries s' = psDeliveries s \<and> content s' sub = content s sub + copies out subs sub"
proof (induction ms arbitrary: s out s')
  case (Cons m ms)
  obtain i s1 where n: "nextMessageID s = (i, s1)" by force
  let ?m = "stamp m i (ckNow (psClock s1))"
  obtain out' where o: "publish_all ms subs (deliver_to ?m subs s1) = (out', s')" "out = ?m # out'"
    using Cons.prems n by (auto simp: Let_def split: prod.splits)
  have s1: "ps_inv W s1 = ps_inv W s" "content s1 = content s" "psDeliveries s1 = psDeliveries s"
  proof -
    show "ps_inv W s1 = ps_inv W s" by (rule ps_inv_cong) (use n in \<open>auto simp: nextMessageID_def\<close>)
    show "content s1 = content s" "psDeliveries s1 = psDeliveries s" using n by (auto simp: nextMessageID_def content_def fun_eq_iff)
  qed
  from Cons.IH [OF o(1)] deliver_to_inv [of W ?m subs s1 sub] s1 o(2) show ?case
    by (simp add: copies_def repeat_mset_distrib_add_mset ac_simps)
qed (simp add: copies_def)

lemma notify_all_inv:
  "ps_inv W (foldl (\<lambda>t m. notify_ps topic m t) s ms) = ps_inv W s \<and> content (foldl (\<lambda>t m. notify_ps topic m t) s ms) = content s"
proof (induction ms arbitrary: s)
  case (Cons m ms)
  have "ps_inv W (notify_ps topic m s) = ps_inv W s"
    by (rule ps_inv_cong) (simp_all add: notify_ps_def split: option.splits)
  moreover have "content (notify_ps topic m s) = content s"
    by (simp add: notify_ps_def content_def fun_eq_iff split: option.splits)
  ultimately show ?case using Cons [of "notify_ps topic m s"] by simp
qed simp

lemma stop_leases_wf: "clock_wf c \<Longrightarrow> clock_wf (stop_leases ls c)"
  by (induction ls c rule: stop_leases.induct) (auto intro: Stop_wf)

lemma RestorePending_fields:
  "psOutstanding (RestorePending subs seq msgs s) = (\<lambda>_. [])" "psSeq (RestorePending subs seq msgs s) = seq"
  "psBacklog (RestorePending subs seq msgs s) =
     (\<lambda>sub. if is_ok (mem_Get CtxLive (subscriptionKey sub) (psKV s)) then msgs sub else [])"
  "psClock (RestorePending subs seq msgs s) = foldl (\<lambda>c sub. stop_leases (psOutstanding s sub) c) (psClock s) subs"
proof -
  have "psOutstanding (foldl (\<lambda>t sub. if P sub then signal sub t else t) t xs) = psOutstanding t \<and>
     psClock (foldl (\<lambda>t sub. if P sub then signal sub t else t) t xs) = psClock t \<and>
     psBacklog (foldl (\<lambda>t sub. if P sub then signal sub t else t) t xs) = psBacklog t" for P xs and t :: "'a ps"
    by (induction xs arbitrary: t) auto
  then show "psOutstanding (RestorePending subs seq msgs s) = (\<lambda>_. [])" "psSeq (RestorePending subs seq msgs s) = seq"
    "psBacklog (RestorePending subs seq msgs s) =
       (\<lambda>sub. if is_ok (mem_Get CtxLive (subscriptionKey sub) (psKV s)) then msgs sub else [])"
    "psClock (RestorePending subs seq msgs s) = foldl (\<lambda>c sub. stop_leases (psOutstanding s sub) c) (psClock s) subs"
    by (simp_all add: RestorePending_def Let_def)
qed

lemma RestorePending_inv:
  assumes "ps_inv W s"
  shows "ps_inv W (RestorePending subs seq msgs s) \<and>
    content (RestorePending subs seq msgs s) sub = (if is_ok (mem_Get CtxLive (subscriptionKey sub) (psKV s)) then mset (msgs sub) else {#})"
proof -
  have "clock_wf (foldl (\<lambda>c sub. stop_leases (psOutstanding s sub) c) c xs)" if "clock_wf c" for c xs
    using that by (induction xs arbitrary: c) (auto intro: stop_leases_wf)
  then show ?thesis using ps_invD(1) [OF assms] by (simp add: ps_inv_def content_def RestorePending_fields)
qed

subsection \<open>Runs\<close>

text \<open>The messages a list of acknowledgements removes.\<close>

fun acked :: "string \<Rightarrow> string list \<Rightarrow> 'h ps \<Rightarrow> message multiset" where
  "acked sub [] s = {#}"
| "acked sub (a # as) s =
     (case map_of (psOutstanding s sub) a of None \<Rightarrow> {#} | Some l \<Rightarrow> {#lsMsg l#}) + acked sub as (ack_one sub a s)"

lemma ack_all_inv:
  "ps_inv W s \<Longrightarrow> ps_inv W (foldl (\<lambda>t a. ack_one sub a t) s as) \<and>
    content s = (content (foldl (\<lambda>t a. ack_one sub a t) s as))(sub := content (foldl (\<lambda>t a. ack_one sub a t) s as) sub + acked sub as s)"
proof (induction as arbitrary: s)
  case (Cons a as)
  note A = ack_one_inv [OF Cons.prems, of sub a]
  from Cons.IH [of "ack_one sub a s"] A show ?case by (auto simp: fun_eq_iff split: if_splits)
qed simp

lemma modify_all_inv:
  "ps_inv W s \<Longrightarrow> ps_inv W (foldl (\<lambda>t (a, secs). modify_one sub (f secs) a t) s as) \<and>
     content (foldl (\<lambda>t (a, secs). modify_one sub (f secs) a t) s as) = content s"
proof (induction as arbitrary: s)
  case (Cons a as)
  then show ?case using modify_one_inv [OF Cons.prems, of sub "f (snd a)" "fst a"] by (simp add: split_beta)
qed simp

text \<open>
  What can happen to the service, in any interleaving.  \<open>W\<close> are the expiries whose timer has fired and
  that wait for the lock, \<open>P\<close> and \<open>A\<close> what each subscription was given and what was acknowledged
  on it since it was created or restored.
\<close>

inductive ps_run :: "'h ps \<Rightarrow> (string \<times> string) list \<Rightarrow> (string \<Rightarrow> message multiset) \<Rightarrow> (string \<Rightarrow> message multiset) \<Rightarrow> bool" where
  start: "clock_wf clk \<Longrightarrow> ps_run (New_ps kv clk bs) [] (\<lambda>_. {#}) (\<lambda>_. {#})"
| create_topic: "ps_run s W P A \<Longrightarrow> ps_run (snd (CreateTopic cx t s)) W P A"
| delete_topic: "ps_run s W P A \<Longrightarrow> ps_run (snd (DeleteTopic cx t' s)) W P A"
| create_subscription: "ps_run s W P A \<Longrightarrow> ps_run (snd (CreateSubscription cx t s)) W P A"
| update_topic: "ps_run s W P A \<Longrightarrow> ps_run (snd (UpdateTopic desc cx t paths s)) W P A"
| update_subscription: "ps_run s W P A \<Longrightarrow> ps_run (snd (UpdateSubscription desc cx t paths s)) W P A"
| delete_subscription: "ps_run s W P A \<Longrightarrow> DeleteSubscription cx sub s = (r, s') \<Longrightarrow>
    ps_run s' W (if is_ok r then P(sub := {#}) else P) (if is_ok r then A(sub := {#}) else A)"
| publish: "ps_run s W P A \<Longrightarrow> Publish_ps cx topic ms s = (Ok ids, s') \<Longrightarrow> subscriptionsFor cx topic s = Ok subs \<Longrightarrow>
    ps_run s' W (\<lambda>sub. P sub + copies (fst (publish_all ms subs s)) subs sub) A"
| pull: "ps_run s W P A \<Longrightarrow> psDeliveries s + length (psBacklog s sub) < 2 ^ 64 \<Longrightarrow> ps_run (snd (Pull cx sub n s)) W P A"
| stream: "ps_run s W P A \<Longrightarrow> psDeliveries s + length (psBacklog s (stName st)) < 2 ^ 64 \<Longrightarrow> ps_run (snd (stream_turn st s)) W P A"
| acknowledge: "ps_run s W P A \<Longrightarrow> Acknowledge cx sub ids s = (Ok (), s') \<Longrightarrow> ps_run s' W P (A(sub := A sub + acked sub ids s))"
| modify: "ps_run s W P A \<Longrightarrow> ps_run (snd (ModifyAckDeadline cx sub ids secs s)) W P A"
| stream_acks: "ps_run s W P A \<Longrightarrow> ps_run (handleAcks sub req s) W P (A(sub := A sub + acked sub (srAckIds req) s))"
| open_stream: "ps_run s W P A \<Longrightarrow> StreamingPull_open cx req s = (Ok st, s') \<Longrightarrow>
    ps_run s' W P (A(srSubscription req := A (srSubscription req) + acked (srSubscription req) (srAckIds req) s))"
| close_stream: "ps_run s W P A \<Longrightarrow> ps_run (unlisten sub ch s) W P A"
| timer: "ps_run s W P A \<Longrightarrow> ckQ (psClock s) = tm # q \<Longrightarrow> ps_run (s\<lparr>psClock := popped tm q (psClock s)\<rparr>) (tF tm # W) P A"
| expiry: "ps_run s W P A \<Longrightarrow> (sub, a) \<in> set W \<Longrightarrow> ps_run (expire sub a s) (remove1 (sub, a) W) P A"
| restore: "ps_run s W P A \<Longrightarrow>
    ps_run (RestorePending subs seq msgs s) W
      (\<lambda>sub. if is_ok (mem_Get CtxLive (subscriptionKey sub) (psKV s)) then mset (msgs sub) else {#}) (\<lambda>_. {#})"

lemma ps_inv_mono: "ps_inv W s \<Longrightarrow> W \<subseteq> W' \<Longrightarrow> ps_inv W' s"
  unfolding ps_inv_def lease_ok_def by blast

lemma kv_ops_inv:
  "ps_inv W (s\<lparr>psKV := m\<rparr>) = ps_inv W s" "content (s\<lparr>psKV := m\<rparr>) = content s"
  by (auto simp: content_def fun_eq_iff intro: ps_inv_cong [of "s\<lparr>psKV := m\<rparr>" s, THEN iffD1] ps_inv_cong [of "s\<lparr>psKV := m\<rparr>" s, THEN iffD2])

lemma CreateSubscription_kv: "\<exists>m. snd (CreateSubscription cx t s) = s\<lparr>psKV := m\<rparr>"
proof -
  have same: "\<exists>m. s = s\<lparr>psKV := m\<rparr>" by (intro exI [of _ "psKV s"]) simp
  show ?thesis
  proof (cases "validName (GetName t) ''subscriptions'' = None \<and> validName (GetTopic_of t) ''topics'' = None \<and> is_ok (getTopic cx (GetTopic_of t) s)")
    case True
    let ?sub = "if getInt ''ack_deadline_seconds'' t = 0 then AList.update ''ack_deadline_seconds'' (PInt 10) t else t"
    obtain r m where p: "mem_Put cx (subscriptionKey (GetName ?sub)) (PSSub ?sub) 0 (psKV s) = (r, m)" by force
    obtain tp where tp: "getTopic cx (GetTopic_of t) s = Ok tp" using True by (cases "getTopic cx (GetTopic_of t) s") auto
    have "snd (CreateSubscription cx t s) = s\<lparr>psKV := m\<rparr>"
    proof (cases r)
      case (Err e)
      then show ?thesis using True tp p by (cases e) (simp_all add: CreateSubscription_def Let_def)
    qed (use True tp p in \<open>simp add: CreateSubscription_def Let_def\<close>)
    then show ?thesis by blast
  next
    case False
    then have "snd (CreateSubscription cx t s) = s"
      by (auto simp: CreateSubscription_def split: option.splits result.splits)
    with same show ?thesis by simp
  qed
qed

lemma UpdateTopic_kv: "\<exists>m. snd (UpdateTopic desc cx t paths s) = s\<lparr>psKV := m\<rparr>"
  by (auto simp: UpdateTopic_def intro: exI [of _ "psKV s"] split: prod.splits result.splits psval.splits)

lemma UpdateSubscription_kv: "\<exists>m. snd (UpdateSubscription desc cx t paths s) = s\<lparr>psKV := m\<rparr>"
  by (auto simp: UpdateSubscription_def intro: exI [of _ "psKV s"] split: prod.splits result.splits psval.splits)

lemma waiters_inv:
  "ps_inv W (s\<lparr>psWaiters := w\<rparr>) = ps_inv W s" "content (s\<lparr>psWaiters := w\<rparr>) = content s"
  "ps_inv W (s\<lparr>psChan := c\<rparr>) = ps_inv W s" "content (s\<lparr>psChan := c\<rparr>) = content s"
  by (simp_all add: ps_inv_def lease_ok_def content_def fun_eq_iff)

lemma handleAcks_inv:
  assumes "ps_inv W s"
  shows "ps_inv W (handleAcks sub req s)"
    and "content s = (content (handleAcks sub req s))(sub := content (handleAcks sub req s) sub + acked sub (srAckIds req) s)"
proof -
  let ?s1 = "foldl (\<lambda>t a. ack_one sub a t) s (srAckIds req)"
  have a: "ps_inv W ?s1" "content s = (content ?s1)(sub := content ?s1 sub + acked sub (srAckIds req) s)"
    using ack_all_inv [OF assms, of sub "srAckIds req"] by auto
  note m = modify_all_inv [OF a(1), of sub "\<lambda>secs. i64 (secs * second)" "zip (srModifyIds req) (srModifySecs req)"]
  show "ps_inv W (handleAcks sub req s)" using m by (simp add: handleAcks_def Let_def)
  show "content s = (content (handleAcks sub req s))(sub := content (handleAcks sub req s) sub + acked sub (srAckIds req) s)"
    using a(2) m by (simp add: handleAcks_def Let_def)
qed

lemma expire_inv:
  assumes "ps_inv (set W) s"
  shows "ps_inv (set (remove1 (sub, a) W)) (expire sub a s)"
proof -
  note R = redeliver_inv [OF assms, of sub a]
  have i: "ps_inv (set W) (expire sub a s)" using R by (simp add: expire_def)
  have "lease_ok (set (remove1 (sub, a) W)) (expire sub a s) sub' a' l'"
    if h: "(a', l') \<in> set (psOutstanding (expire sub a s) sub')" for sub' a' l'
  proof -
    have "(sub', a') \<noteq> (sub, a)" using R h by (force simp: expire_def)
    then have "(sub', a') \<in> set W \<Longrightarrow> (sub', a') \<in> set (remove1 (sub, a) W)" by simp
    with ps_invD(3) [OF i h] show ?thesis unfolding lease_ok_def by blast
  qed
  with i show ?thesis unfolding ps_inv_def by auto
qed

lemma timer_inv:
  assumes "ps_inv W s" and "ckQ (psClock s) = tm # q"
  shows "ps_inv (insert (tF tm) W) (s\<lparr>psClock := popped tm q (psClock s)\<rparr>)"
proof -
  have "lease_ok (insert (tF tm) W) (s\<lparr>psClock := popped tm q (psClock s)\<rparr>) sub a l" if "(a, l) \<in> set (psOutstanding s sub)" for sub a l
    using ps_invD(3) [OF assms(1) that] assms(2) unfolding lease_ok_def by (auto simp: popped_def)
  then show ?thesis
    using assms popped_wf [of "psClock s" tm q] unfolding ps_inv_def by auto
qed

lemma ps_run_inv: "ps_run s W P A \<Longrightarrow> ps_inv (set W) s \<and> (\<forall>sub. content s sub + A sub = P sub)"
proof (induction rule: ps_run.induct)
  case (start clk kv bs)
  then show ?case by (simp add: ps_inv_def New_ps_def content_def)
next
  case (create_topic s W P A cx t)
  have "\<exists>m. snd (CreateTopic cx t s) = s\<lparr>psKV := m\<rparr>"
    by (auto simp: CreateTopic_def intro: exI [of _ "psKV s"] split: option.splits prod.splits result.splits store_error.splits)
  with create_topic show ?case by (auto simp: kv_ops_inv)
next
  case (delete_topic s W P A cx t)
  have "\<exists>m. snd (DeleteTopic cx t s) = s\<lparr>psKV := m\<rparr>"
    by (auto simp: DeleteTopic_def split: prod.splits result.splits store_error.splits)
  with delete_topic show ?case by (auto simp: kv_ops_inv)
next
  case (create_subscription s W P A cx t)
  have "\<exists>m. snd (CreateSubscription cx t s) = s\<lparr>psKV := m\<rparr>" by (rule CreateSubscription_kv)
  with create_subscription show ?case by (auto simp: kv_ops_inv)
next
  case (update_topic s W P A desc cx t paths)
  then show ?case using UpdateTopic_kv [of desc cx t paths s] by (auto simp: kv_ops_inv)
next
  case (update_subscription s W P A desc cx t paths)
  then show ?case using UpdateSubscription_kv [of desc cx t paths s] by (auto simp: kv_ops_inv)
next
  case (delete_subscription s W P A cx sub r s')
  let ?t = "\<lambda>m. s\<lparr>psKV := m, psBacklog := (psBacklog s)(sub := []), psOutstanding := (psOutstanding s)(sub := [])\<rparr>"
  have "(\<exists>m. s' = s\<lparr>psKV := m\<rparr> \<and> \<not> is_ok r) \<or> (\<exists>m. s' = ?t m \<and> is_ok r)"
    using delete_subscription.hyps(2) by (auto simp: DeleteSubscription_def split: prod.splits result.splits store_error.splits)
  moreover have "ps_inv (set W) (?t m)" for m
    using delete_subscription.IH unfolding ps_inv_def lease_ok_def by auto
  ultimately show ?case using delete_subscription.IH by (auto simp: kv_ops_inv content_def)
next
  case (publish s W P A cx topic ms ids s' subs)
  obtain out s1 where pa: "publish_all ms subs s = (out, s1)" by force
  have s': "s' = foldl (\<lambda>t m. notify_ps topic m t) s1 out"
    using publish.hyps(2,3) pa by (auto simp: Publish_ps_def split: result.splits)
  show ?case
    using publish.IH publish_all_inv [OF pa, of "set W"] notify_all_inv [of "set W" topic s1 out] pa s' by (simp add: ac_simps)
next
  case (pull s W P A sub cx n)
  show ?case
  proof (cases "getSubscription cx sub s")
    case (Ok p)
    obtain out s1 where t: "take_ps sub (if n \<le> 0 then 1 else n) (deadlineOf p) s = (out, s1)" by force
    then have "ps_inv (set W) s1" "content s1 = content s" using take_ps_inv [OF _ pull.hyps(2) t] pull.IH by auto
    then show ?thesis using pull.IH t Ok by (simp add: Pull_def Let_def)
  qed (use pull in \<open>simp add: Pull_def\<close>)
next
  case (stream s W P A st)
  obtain out s1 where t: "take_ps (stName st) streamBatch (stDeadline st) s = (out, s1)" by force
  have T: "ps_inv (set W) s1" "content s1 = content s" using take_ps_inv [OF _ stream.hyps(2) t] stream.IH by auto
  have "\<exists>w. snd (stream_turn st s) = s1\<lparr>psWaiters := w\<rparr>"
    using t by (cases out) (auto simp: stream_turn_def intro: exI [of _ "psWaiters s1"])
  then obtain w where w: "snd (stream_turn st s) = s1\<lparr>psWaiters := w\<rparr>" by blast
  have "ps_inv (set W) (s1\<lparr>psWaiters := w\<rparr>) = ps_inv (set W) s1" by (rule ps_inv_cong) simp_all
  moreover have "content (s1\<lparr>psWaiters := w\<rparr>) = content s1" by (simp add: content_def fun_eq_iff)
  ultimately show ?case using T w stream.IH by simp
next
  case (acknowledge s W P A cx sub ids s')
  have "s' = foldl (\<lambda>t a. ack_one sub a t) s ids"
    using acknowledge.hyps(2) by (auto simp: Acknowledge_def split: result.splits)
  with acknowledge.IH ack_all_inv [of "set W" s sub ids] show ?case by (auto simp: fun_eq_iff ac_simps split: if_splits)
next
  case (modify s W P A cx sub ids secs)
  have f: "foldl (\<lambda>t a. modify_one sub (i64 (secs * second)) a t) s ids =
      foldl (\<lambda>t (a, secs). modify_one sub (i64 (secs * second)) a t) s (map (\<lambda>a. (a, secs)) ids)"
    by (simp add: foldl_map)
  show ?case
    using modify.IH modify_all_inv [of "set W" s sub "\<lambda>secs. i64 (secs * second)" "map (\<lambda>a. (a, secs)) ids"]
    by (auto simp: ModifyAckDeadline_def f split: result.splits)
next
  case (stream_acks s W P A sub req)
  have i: "ps_inv (set W) s" using stream_acks.IH by simp
  show ?case
    using stream_acks.IH handleAcks_inv(1) [OF i, of sub req] fun_cong [OF handleAcks_inv(2) [OF i, of sub req]]
    by (auto simp: ac_simps split: if_splits)
next
  case (open_stream s W P A cx req st s')
  let ?sub = "srSubscription req"
  have i: "ps_inv (set W) s" using open_stream.IH by simp
  have "\<exists>c w. s' = (handleAcks ?sub req s)\<lparr>psChan := c, psWaiters := w\<rparr>"
    using open_stream.hyps(2) by (auto simp: StreamingPull_open_def listen_def Let_def split: if_splits result.splits)
  then have "ps_inv (set W) s'" "content s' = content (handleAcks ?sub req s)"
    using handleAcks_inv(1) [OF i, of ?sub req] by (auto simp: waiters_inv)
  then show ?case
    using open_stream.IH fun_cong [OF handleAcks_inv(2) [OF i, of ?sub req]] by (auto simp: ac_simps split: if_splits)
next
  case (close_stream s W P A sub ch)
  then show ?case by (simp add: unlisten_def waiters_inv)
next
  case (timer s W P A tm q)
  then show ?case using timer_inv [of "set W" s tm q] by (simp add: content_def)
next
  case (expiry s W P A sub a)
  then show ?case using expire_inv [of W s sub a] redeliver_inv [of "set W" s sub a] by (simp add: expire_def)
next
  case (restore s W P A subs seq msgs)
  then show ?case using RestorePending_inv [of "set W" s subs seq msgs] by simp
qed

subsection \<open>A batch whose deadline passes\<close>

lemma AfterFunc_last:
  assumes "clock_wf c" and "\<forall>u\<in>set (ckQ c). tWhen u = ckNow c + d \<and> tSeq u < ckSeq c"
  shows "ckQ (snd (AfterFunc d f c)) = ckQ c @ [\<lparr>tPtr = ckPtr c, tWhen = ckNow c + d, tSeq = ckSeq c, tF = f\<rparr>]"
proof -
  let ?t = "\<lparr>tPtr = ckPtr c, tWhen = ckNow c + d, tSeq = ckSeq c, tF = f\<rparr>"
  obtain a b where q: "ckQ c = a @ b" "ckQ (snd (AfterFunc d f c)) = a @ ?t # b" "\<forall>u\<in>set b. due_order ?t u"
    using AfterFunc_queue [of c d f] assms(1) by (auto simp: clock_wf_def)
  have "b = []"
  proof (rule ccontr)
    assume "b \<noteq> []"
    then obtain u where "u \<in> set b" by (cases b) auto
    then show False using q assms(2) by (force simp: due_order_iff)
  qed
  with q show ?thesis by simp
qed

text \<open>Leasing a batch arms one timer per message, in order, all for the same instant.\<close>

definition batch :: "string \<Rightarrow> received list \<Rightarrow> (string \<times> string) fakeTimer list \<Rightarrow> (string \<times> lease) list" where
  "batch sub out ts = map2 (\<lambda>r t. (rcAckId r, \<lparr>lsMsg = rcMsg r, lsTimer = tPtr t\<rparr>)) out ts"

lemma lease_all_queue:
  "ps_inv W s \<Longrightarrow> psDeliveries s + length ms < 2 ^ 64 \<Longrightarrow> ckSeq (psClock s) + length ms < 2 ^ 64 \<Longrightarrow>
   \<forall>u\<in>set (ckQ (psClock s)). tWhen u = ckNow (psClock s) + d \<and> tSeq u < ckSeq (psClock s) \<Longrightarrow>
   lease_all sub d ms s = (out, s') \<Longrightarrow>
   \<exists>ts. ckQ (psClock s') = ckQ (psClock s) @ ts \<and> map tF ts = map (\<lambda>r. (sub, rcAckId r)) out \<and>
     (\<forall>t\<in>set ts. tWhen t = ckNow (psClock s) + d) \<and> psOutstanding s' sub = psOutstanding s sub @ batch sub out ts \<and>
     ckNow (psClock s') = ckNow (psClock s) \<and> ckIn (psClock s') = ckIn (psClock s)"
proof (induction ms arbitrary: s out s')
  case Nil
  then show ?case by (intro exI [of _ "[]"]) (auto simp: batch_def)
next
  case (Cons m ms)
  define n where "n = psDeliveries s + 1"
  define a where "a = msId m @ ''-'' @ dec n"
  let ?l = "\<lparr>lsMsg = m, lsTimer = ckPtr (psClock s)\<rparr>"
  let ?c = "snd (AfterFunc d (sub, a) (psClock s))"
  let ?s = "s\<lparr>psDeliveries := n, psClock := ?c, psOutstanding := (psOutstanding s)(sub := AList.update a ?l (psOutstanding s sub))\<rparr>"
  have u: "u64 (Suc (psDeliveries s)) = n" using Cons.prems(2) by (simp add: n_def)
  have a': "a = msId m @ CHR ''-'' # dec n" by (simp add: a_def)
  obtain c where af: "AfterFunc d (sub, a) (psClock s) = (ckPtr (psClock s), c)"
    by (metis AfterFunc_fields(5) prod.collapse)
  have "lease_all sub d (m # ms) s =
      (let (out', s2) = lease_all sub d ms ?s in (\<lparr>rcAckId = a, rcMsg = m\<rparr> # out', s2))"
    by (simp add: Let_def u a' [symmetric] af)
  then obtain out' where o: "lease_all sub d ms ?s = (out', s')" "out = \<lparr>rcAckId = a, rcMsg = m\<rparr> # out'"
    using Cons.prems(5) by (cases "lease_all sub d ms ?s") (simp add: Let_def)
  note L = lease_one_inv(1) [OF Cons.prems(1) a_def n_def, where d = d and sub = sub and m = m]
    lease_one_inv(2) [OF Cons.prems(1) a_def n_def]
  let ?t = "\<lparr>tPtr = ckPtr (psClock s), tWhen = ckNow (psClock s) + d, tSeq = ckSeq (psClock s), tF = (sub, a)\<rparr>"
  have q: "ckQ ?c = ckQ (psClock s) @ [?t]" using AfterFunc_last [OF ps_invD(1) [OF Cons.prems(1)] Cons.prems(4)] .
  have sq: "ckSeq ?c = ckSeq (psClock s) + 1" using Cons.prems(3) by (simp add: AfterFunc_def Let_def)
  have "\<forall>u\<in>set (ckQ (psClock ?s)). tWhen u = ckNow (psClock ?s) + d \<and> tSeq u < ckSeq (psClock ?s)"
    using Cons.prems(4) q sq by (auto simp: less_Suc_eq)
  moreover have "psDeliveries ?s + length ms < 2 ^ 64" "ckSeq (psClock ?s) + length ms < 2 ^ 64" using Cons.prems(2,3) sq by (simp_all add: n_def)
  ultimately obtain ts where ts: "ckQ (psClock s') = ckQ ?c @ ts" "map tF ts = map (\<lambda>r. (sub, rcAckId r)) out'"
     "\<forall>t\<in>set ts. tWhen t = ckNow (psClock s) + d" "psOutstanding s' sub = (psOutstanding s sub @ [(a, ?l)]) @ batch sub out' ts"
     "ckNow (psClock s') = ckNow (psClock s)" "ckIn (psClock s') = ckIn (psClock s)"
    using Cons.IH [OF L(1) _ _ _ o(1)] L(2) [of ?l sub] by auto
  then show ?case using q o(2) by (intro exI [of _ "?t # ts"]) (auto simp: batch_def)
qed

lemma expire_batch:
  assumes "ckQ c = ts" and "map tF ts = map (\<lambda>(a, l). (sub, a)) os" and "map tPtr ts = map (lsTimer \<circ> snd) os"
    and "psOutstanding s sub = os" and "distinct (map fst os)" and "\<forall>t\<in>set ts. tWhen t \<le> target"
  shows "\<exists>s' c'. run_loop (Suc (length ts)) ps_exec target (s, c) = Some (ts, Ok (), s', c') \<and>
     psBacklog s' sub = rev (map (lsMsg \<circ> snd) os) @ psBacklog s sub \<and> psOutstanding s' sub = [] \<and> ckQ c' = []"
  using assms
proof (induction os arbitrary: s c ts)
  case Nil
  then show ?case by simp
next
  case (Cons x os)
  obtain a l where x: "x = (a, l)" by force
  obtain t ts' where ts: "ts = t # ts'" "tF t = (sub, a)" "tPtr t = lsTimer l" "map tF ts' = map (\<lambda>(a, l). (sub, a)) os"
    "map tPtr ts' = map (lsTimer \<circ> snd) os"
    using Cons.prems(2,3) x by (cases ts) auto
  let ?c = "c\<lparr>ckQ := ts', ckFired := tPtr t # ckFired c, ckNow := tWhen t\<rparr>"
  let ?s = "expire sub a (s\<lparr>psClock := ?c\<rparr>)"
  have del: "AList.delete a ((a, l) # os) = os"
    using Cons.prems(5) x by (force simp: AList.delete_eq filter_id_conv)
  have e: "?s = signal sub (s\<lparr>psClock := ?c, psOutstanding := (psOutstanding s)(sub := os), psBacklog := (psBacklog s)(sub := lsMsg l # psBacklog s sub)\<rparr>)"
    using Cons.prems(4) x ts(3) del by (simp add: expire_def redeliver_def Stop_def)
  have f: "psOutstanding ?s sub = os" "psBacklog ?s sub = lsMsg l # psBacklog s sub" "psClock ?s = ?c" by (simp_all add: e)
  obtain s' c' where IH: "run_loop (Suc (length ts')) ps_exec target (?s, ?c) = Some (ts', Ok (), s', c')"
     "psBacklog s' sub = rev (map (lsMsg \<circ> snd) os) @ lsMsg l # psBacklog s sub" "psOutstanding s' sub = []" "ckQ c' = []"
    using Cons.IH [of ?c ts' ?s] ts Cons.prems(5,6) x f by auto
  have "ps_exec (tF t) (s, ?c) = (Ok (), ?s, ?c)" using f(3) by (simp add: ps_exec_def ts(2) Let_def)
  then have "run_loop (Suc (length ts)) ps_exec target (s, c) = Some (ts, Ok (), s', c')"
    using IH(1) Cons.prems(1,6) ts(1) by (subst run_loop.simps) (simp del: run_loop.simps)
  with IH x show ?case by auto
qed

lemma take_ps_lease:
  assumes "take_ps sub n d s = (out, s')"
  shows "\<exists>k. lease_all sub d (take k (psBacklog s sub)) (s\<lparr>psBacklog := (psBacklog s)(sub := drop k (psBacklog s sub))\<rparr>) = (out, s')"
proof (cases "psBacklog s sub = []")
  case True
  then have "s\<lparr>psBacklog := (psBacklog s)(sub := [])\<rparr> = s" by (metis fun_upd_triv ps.surjective ps.update_convs(4))
  with True assms show ?thesis by (auto simp: take_ps_def)
next
  case False
  let ?k = "if int (length (psBacklog s sub)) < n then length (psBacklog s sub) else nat n"
  from False assms show ?thesis by (intro exI [of _ ?k]) (simp add: take_ps_def Let_def)
qed

lemma lease_all_msgs:
  "lease_all sub d ms s = (out, s') \<Longrightarrow> map rcMsg out = ms \<and> psBacklog s' = psBacklog s"
  by (induction ms arbitrary: s out) (auto simp: Let_def split: prod.splits)

subsection \<open>Properties\<close>

text \<open>
  C2: no message is lost or duplicated.  Under any interleaving of publishes, pulls, streams, acks, deadline
  changes, expiries and restores, what a subscription was given is exactly what was acknowledged on it plus
  what waits in its backlog plus what is leased; and every lease has its deadline timer armed
  or its expiry already fired, so an unacknowledged message comes back.
\<close>

theorem unacked_messages_kept:
  assumes "ps_run s W P A"
  shows "mset (psBacklog s sub) + mset (map (lsMsg \<circ> snd) (psOutstanding s sub)) + A sub = P sub \<and>
    (\<forall>(a, l)\<in>set (psOutstanding s sub). (\<exists>tm\<in>set (ckQ (psClock s)). tF tm = (sub, a)) \<or> (sub, a) \<in> set W)"
proof -
  have inv: "ps_inv (set W) s" and c: "content s sub + A sub = P sub" using ps_run_inv [OF assms] by auto
  have "(\<exists>tm\<in>set (ckQ (psClock s)). tF tm = (sub, a)) \<or> (sub, a) \<in> set W" if "(a, l) \<in> set (psOutstanding s sub)" for a l
    using ps_invD(3) [OF inv that] unfolding lease_ok_def by blast
  with c show ?thesis by (auto simp: content_def leased_def)
qed

text \<open>
  A pulled batch whose deadline passes comes back, each message to the front of the queue as its timer fires,
  so the batch returns in the reverse of its order: the newest of it is now the first.
\<close>

theorem expired_batch_returns_reversed:
  assumes "ps_inv {} s" and "psOutstanding s sub = []" and "ckQ (psClock s) = []" and "\<not> ckIn (psClock s)"
    and "psDeliveries s + length (psBacklog s sub) < 2 ^ 64" and "ckSeq (psClock s) + length (psBacklog s sub) < 2 ^ 64"
    and "Pull CtxLive sub n s = (Ok out, s1)" and "getSubscription CtxLive sub s = Ok p" and "deadlineOf p \<le> d"
  shows "\<exists>ts s' c'. Advance (length out + 1) ps_exec d (s1, psClock s1) = Some (ts, Ok (), s', c') \<and>
    psBacklog s sub = map rcMsg out @ psBacklog s1 sub \<and>
    psBacklog s' sub = rev (map rcMsg out) @ psBacklog s1 sub \<and> psOutstanding s' sub = [] \<and> ckQ c' = []"
proof -
  let ?d = "deadlineOf p"
  have "take_ps sub (if n \<le> 0 then 1 else n) ?d s = (out, s1)"
    using assms(7,8) by (cases "take_ps sub (if n \<le> 0 then 1 else n) ?d s") (simp add: Pull_def Let_def)
  then obtain k where la: "lease_all sub ?d (take k (psBacklog s sub)) (s\<lparr>psBacklog := (psBacklog s)(sub := drop k (psBacklog s sub))\<rparr>) = (out, s1)"
    using take_ps_lease by blast
  let ?s0 = "s\<lparr>psBacklog := (psBacklog s)(sub := drop k (psBacklog s sub))\<rparr>"
  have inv: "ps_inv {} ?s0" using assms(1) by (subst ps_inv_cong [of ?s0 s]) simp_all
  have M: "map rcMsg out = take k (psBacklog s sub)" "psBacklog s1 sub = drop k (psBacklog s sub)"
    using lease_all_msgs [OF la] by simp_all
  obtain ts where ts: "ckQ (psClock s1) = ts" "map tF ts = map (\<lambda>r. (sub, rcAckId r)) out"
     "\<forall>t\<in>set ts. tWhen t = ckNow (psClock s) + ?d" "psOutstanding s1 sub = batch sub out ts"
     "ckNow (psClock s1) = ckNow (psClock s)" "\<not> ckIn (psClock s1)"
    using lease_all_queue [OF inv _ _ _ la] assms(2-6) by auto
  have len: "length ts = length out" using ts(2) map_eq_imp_length_eq by blast
  have bt: "map (\<lambda>(a, l). (sub, a)) (batch sub out ts) = map tF ts" "map (lsTimer \<circ> snd) (batch sub out ts) = map tPtr ts"
    "map (lsMsg \<circ> snd) (batch sub out ts) = map rcMsg out" "length (batch sub out ts) = length ts"
    using len ts(2) by (auto simp: batch_def list_eq_iff_nth_eq)
  have "psDeliveries s + length (take k (psBacklog s sub)) < 2 ^ 64" using assms(5) by simp
  then have inv1: "ps_inv {} s1" using lease_all_inv [OF inv _ la] by simp
  let ?c = "(psClock s1)\<lparr>ckIn := True\<rparr>"
  obtain s' c' where r: "run_loop (Suc (length ts)) ps_exec (ckNow (psClock s1) + d) (s1, ?c) = Some (ts, Ok (), s', c')"
     "psBacklog s' sub = rev (map rcMsg out) @ psBacklog s1 sub" "psOutstanding s' sub = []" "ckQ c' = []"
    using expire_batch [of ?c ts sub "batch sub out ts" s1 "ckNow (psClock s1) + d"] ts bt ps_invD(2) [OF inv1, of sub] assms(9)
    by (auto simp: bt)
  then show ?thesis using M ts(6) len by (simp add: Advance_def runTo_def)
qed


definition demo_sub :: string where "demo_sub = ''projects/p/subscriptions/s''"

definition demo_msg :: "string \<Rightarrow> message" where
  "demo_msg i = \<lparr>msData = ''d'', msAttributes = [], msId = i, msOrderingKey = [], msPublishTime = 0\<rparr>"

definition demo_kv :: "psval memory" where
  "demo_kv = snd (mem_Put CtxLive (subscriptionKey demo_sub) (PSSub [(''name'', PStr demo_sub), (''ack_deadline_seconds'', PInt 10)]) 0 NewMemory)"

definition demo_msgs :: "string \<Rightarrow> message list" where
  "demo_msgs = (\<lambda>_. [])(demo_sub := [demo_msg ''1'', demo_msg ''2''])"

definition demo_ps :: "unit ps" where
  "demo_ps = RestorePending [demo_sub] 2 demo_msgs (New_ps demo_kv (NewFake 0) None)"

lemma demo_live: "mem_Get CtxLive (subscriptionKey k) demo_kv =
    (if k = demo_sub then Ok (PSSub [(''name'', PStr demo_sub), (''ack_deadline_seconds'', PInt 10)], 1) else Err ErrNotFound)"
  by (auto simp: demo_kv_def mem_Put_def NewMemory_def mem_Get_def subscriptionKey_def)

lemma demo_ps_fields:
  "psKV demo_ps = demo_kv" "psOutstanding demo_ps = (\<lambda>_. [])" "psClock demo_ps = NewFake 0" "psDeliveries demo_ps = 0"
  "psBacklog demo_ps = demo_msgs"
  by (simp_all add: demo_ps_def RestorePending_def New_ps_def demo_live demo_msgs_def fun_eq_iff signal_def)

lemma demo_ps_run: "ps_run demo_ps [] (\<lambda>sub. mset (demo_msgs sub)) (\<lambda>_. {#})"
proof -
  have "ps_run demo_ps [] (\<lambda>sub. if is_ok (mem_Get CtxLive (subscriptionKey sub) (psKV (New_ps demo_kv (NewFake 0) None :: unit ps))) then mset (demo_msgs sub) else {#}) (\<lambda>_. {#})"
    unfolding demo_ps_def by (rule ps_run.restore [OF ps_run.start [OF NewFake_wf]])
  moreover have "(\<lambda>sub. if is_ok (mem_Get CtxLive (subscriptionKey sub) (psKV (New_ps demo_kv (NewFake 0) None :: unit ps))) then mset (demo_msgs sub) else {#}) = (\<lambda>sub. mset (demo_msgs sub))"
    by (auto simp: New_ps_def demo_live demo_msgs_def)
  ultimately show ?thesis by simp
qed

theorem unacked_messages_kept_witness:
  "let s = snd (Pull CtxLive demo_sub 1 demo_ps)
   in mset (psBacklog s demo_sub) + mset (map (lsMsg \<circ> snd) (psOutstanding s demo_sub)) = {#demo_msg ''1'', demo_msg ''2''#} \<and>
      (\<forall>(a, l)\<in>set (psOutstanding s demo_sub). \<exists>tm\<in>set (ckQ (psClock s)). tF tm = (demo_sub, a))"
proof -
  have "ps_run (snd (Pull CtxLive demo_sub 1 demo_ps)) [] (\<lambda>sub. mset (demo_msgs sub)) (\<lambda>_. {#})"
    by (rule ps_run.pull [OF demo_ps_run]) (simp add: demo_ps_fields demo_msgs_def)
  from unacked_messages_kept [OF this, of demo_sub] show ?thesis by (simp add: Let_def demo_msgs_def)
qed

theorem expired_batch_returns_reversed_witness:
  "\<exists>out s1 ts s' c'. Pull CtxLive demo_sub 2 demo_ps = (Ok out, s1) \<and> map rcMsg out = [demo_msg ''1'', demo_msg ''2''] \<and>
     Advance (length out + 1) ps_exec (10 * second) (s1, psClock s1) = Some (ts, Ok (), s', c') \<and>
     psBacklog s' demo_sub = [demo_msg ''2'', demo_msg ''1'']"
proof -
  let ?p = "[(''name'', PStr demo_sub), (''ack_deadline_seconds'', PInt 10)]"
  have g: "getSubscription CtxLive demo_sub demo_ps = Ok ?p" by (simp add: getSubscription_def demo_ps_fields demo_live)
  obtain out s1 where p: "Pull CtxLive demo_sub 2 demo_ps = (Ok out, s1)" "psBacklog s1 demo_sub = []"
  proof -
    obtain out s1 where t: "take_ps demo_sub 2 (deadlineOf ?p) demo_ps = (out, s1)" by force
    then have "psBacklog s1 demo_sub = []"
      by (auto simp: take_ps_def demo_ps_fields demo_msgs_def Let_def simp del: lease_all.simps dest!: lease_all_msgs)
    with t g show ?thesis by (intro that [of out s1]) (simp_all add: Pull_def)
  qed
  have "ps_inv {} demo_ps" using ps_run_inv [OF demo_ps_run] by simp
  from expired_batch_returns_reversed [OF this _ _ _ _ _ p(1) g, of "10 * second"] p
  obtain ts s' c' where "Advance (length out + 1) ps_exec (10 * second) (s1, psClock s1) = Some (ts, Ok (), s', c')"
      and m: "map rcMsg out = [demo_msg ''1'', demo_msg ''2'']" and "psBacklog s' demo_sub = rev (map rcMsg out)"
    by (auto simp: demo_ps_fields NewFake_def demo_msgs_def deadlineOf_def getInt_def second_def i64_id min_i64_def max_i64_def)
  then have "psBacklog s' demo_sub = [demo_msg ''2'', demo_msg ''1'']" by (metis (no_types) m rev.simps append.simps)
  with p(1) m \<open>Advance (length out + 1) ps_exec _ _ = _\<close> show ?thesis by (intro exI conjI)
qed

text \<open>
  What \<open>Pending\<close> captures is every unacknowledged message, and restoring it into a service whose store has the
  subscriptions gives a service with the same pending messages and the same id counter.
\<close>

theorem pending_roundtrip:
  fixes s t :: "'h ps"
  assumes "\<forall>sub. snd (Pending_ps s) sub \<noteq> [] \<longrightarrow> is_ok (mem_Get CtxLive (subscriptionKey sub) (psKV t))"
  shows "Pending_ps (RestorePending subs (fst (Pending_ps s)) (snd (Pending_ps s)) t) = Pending_ps s \<and>
    mset (snd (Pending_ps s) sub) = mset (psBacklog s sub) + mset (map (lsMsg \<circ> snd) (psOutstanding s sub))"
proof -
  let ?r = "RestorePending subs (fst (Pending_ps s)) (snd (Pending_ps s)) t"
  have "psOutstanding ?r = (\<lambda>_. [])" "psSeq ?r = fst (Pending_ps s)"
    "psBacklog ?r = (\<lambda>sub. if is_ok (mem_Get CtxLive (subscriptionKey sub) (psKV t)) then snd (Pending_ps s) sub else [])"
    by (simp_all add: RestorePending_fields)
  moreover have "(if is_ok (mem_Get CtxLive (subscriptionKey sub) (psKV t)) then snd (Pending_ps s) sub else []) = snd (Pending_ps s) sub" for sub
    using assms by (cases "snd (Pending_ps s) sub = []") simp_all
  ultimately have "Pending_ps ?r = Pending_ps s" by (simp add: Pending_ps_def [of ?r] sort_byID_def)
  moreover have "mset (sort_byID ms) = mset ms" for ms
  proof -
    have "mset (insert_byID m xs) = add_mset m (mset xs)" for m xs by (induction xs) auto
    then show ?thesis by (induction ms) (simp_all add: sort_byID_def)
  qed
  ultimately show ?thesis by (simp add: Pending_ps_def)
qed

theorem pending_roundtrip_witness:
  "Pending_ps (RestorePending [demo_sub] (fst (Pending_ps demo_ps)) (snd (Pending_ps demo_ps)) (New_ps demo_kv (NewFake 5) None :: unit ps)) = Pending_ps demo_ps \<and>
    mset (snd (Pending_ps demo_ps) demo_sub) = {#demo_msg ''1'', demo_msg ''2''#}"
proof -
  have "\<forall>sub. snd (Pending_ps demo_ps) sub \<noteq> [] \<longrightarrow> is_ok (mem_Get CtxLive (subscriptionKey sub) (psKV (New_ps demo_kv (NewFake 5) None :: unit ps)))"
    by (auto simp: Pending_ps_def demo_ps_fields sort_byID_def demo_msgs_def New_ps_def demo_live)
  from pending_roundtrip [OF this, of "[demo_sub]" demo_sub] show ?thesis by (simp add: demo_ps_fields demo_msgs_def)
qed

end
