(* ===== verification/Secret_Manager.thy ===== *)
theory Secret_Manager
  imports Proto_Msg KV_Store Blob_Store
begin

text \<open>
  Secret Manager (\<open>services/secretmanager\<close>): secrets and their numbered versions in the key-value store.
  The service's only other state is its lock, under which adding, deleting and changing a version run whole; of the clock it
  only reads the time, which is a field here.
\<close>

subsection \<open>Data\<close>

datatype version_state = StateUnspecified | Enabled | Disabled | Destroyed

record secret_version =
  svName :: string
  svCreate :: time
  svState :: version_state
  svChecked :: bool
  svDestroy :: "time option"

record storedVersion =
  stVersion :: secret_version
  stPayload :: string

datatype smval = SMNil | SMSecret proto | SMVersion storedVersion

instantiation smval :: zero
begin
definition zero_smval_def: "0 = SMNil"
instance ..
end

record sm =
  smKV :: "smval memory"
  smNow :: time

definition New_sm :: "smval memory \<Rightarrow> time \<Rightarrow> sm" where
  "New_sm kv now = \<lparr>smKV = kv, smNow = now\<rparr>"

subsection \<open>Names and keys (secretmanager.go)\<close>

definition versionDigits :: nat where "versionDigits = 12"

definition secretKey :: "string \<Rightarrow> string" where "secretKey name = ''sm/s/'' @ name"

text \<open>\<open>%0*d\<close>: a sign counts towards the width and comes before the zeros.\<close>

definition pad_int :: "nat \<Rightarrow> int \<Rightarrow> string" where
  "pad_int w i = (if i < 0 then CHR ''-'' # zero_pad (w - 1) (dec (nat (- i))) else zero_pad w (dec (nat i)))"

definition versionPrefix :: "string \<Rightarrow> string" where "versionPrefix secret = ''sm/v/'' @ secret @ ''/''"

definition versionKey :: "string \<Rightarrow> int \<Rightarrow> string" where
  "versionKey secret version = ''sm/v/'' @ secret @ ''/'' @ pad_int versionDigits version"

definition LatestAlias :: string where "LatestAlias = ''latest''"

definition parseSecret :: "string \<Rightarrow> (rpc_error, string \<times> string) result" where
  "parseSecret name =
     (let parts = split_on (CHR ''/'') name
      in if length parts \<noteq> 4 \<or> parts ! 0 \<noteq> ''projects'' \<or> parts ! 2 \<noteq> ''secrets'' \<or> parts ! 1 = '''' \<or> parts ! 3 = ''''
         then Err (Errorf InvalidArgument ''invalid secret name %q; expected projects/{project}/secrets/{secret}'' [name])
         else Ok (parts ! 1, parts ! 3))"

definition parseVersion :: "string \<Rightarrow> (rpc_error, string \<times> string) result" where
  "parseVersion name =
     (let parts = split_on (CHR ''/'') name
      in if length parts \<noteq> 6 \<or> parts ! 4 \<noteq> ''versions'' \<or> parts ! 5 = ''''
         then Err (Errorf InvalidArgument ''invalid version name %q; expected projects/{p}/secrets/{s}/versions/{v}'' [name])
         else
           let secret = join_with ''/'' (take 4 parts)
           in case parseSecret secret of Err e \<Rightarrow> Err e | Ok _ \<Rightarrow> Ok (secret, parts ! 5))"

definition getSecret :: "ctx \<Rightarrow> string \<Rightarrow> sm \<Rightarrow> (rpc_error, proto) result" where
  "getSecret cx name s =
     (case mem_Get cx (secretKey name) (smKV s) of
        Err ErrNotFound \<Rightarrow> Err (Errorf NotFound ''Secret [%s] not found'' [name])
      | Err e \<Rightarrow> Err (Errorf Internal ''reading secret: %v'' [store_text e])
      | Ok (SMSecret p, _) \<Rightarrow> Ok p
      | Ok _ \<Rightarrow> Err (Errorf Internal ''decoding secret: %v'' [''protojson'']))"

fun decode_versions :: "smval kv list \<Rightarrow> (rpc_error, secret_version list) result" where
  "decode_versions [] = Ok []"
| "decode_versions (kv # kvs) =
     (case kvVal kv of
        SMVersion v \<Rightarrow> (case decode_versions kvs of Err e \<Rightarrow> Err e | Ok vs \<Rightarrow> Ok (stVersion v # vs))
      | _ \<Rightarrow> Err (Errorf Internal ''decoding version: %v'' [''json'']))"

definition versions :: "ctx \<Rightarrow> string \<Rightarrow> sm \<Rightarrow> (rpc_error, secret_version list) result" where
  "versions cx secret s =
     (case mem_List cx (versionPrefix secret) 0 '''' (smKV s) of
        Err e \<Rightarrow> Err (Errorf Internal ''listing versions: %v'' [store_text e])
      | Ok (entries, _) \<Rightarrow> decode_versions entries)"

text \<open>The loop of \<open>latest\<close>: from the last entry down, the first that decodes and is enabled.\<close>

fun newest_enabled :: "smval kv list \<Rightarrow> storedVersion option" where
  "newest_enabled [] = None"
| "newest_enabled (kv # kvs) =
     (case newest_enabled kvs of
        Some v \<Rightarrow> Some v
      | None \<Rightarrow>
          (case kvVal kv of
             SMVersion v \<Rightarrow> if svState (stVersion v) = Enabled then Some v else None
           | _ \<Rightarrow> None))"

definition latest :: "ctx \<Rightarrow> string \<Rightarrow> sm \<Rightarrow> (rpc_error, storedVersion) result" where
  "latest cx secret s =
     (case mem_List cx (versionPrefix secret) 0 '''' (smKV s) of
        Err e \<Rightarrow> Err (Errorf Internal ''listing versions: %v'' [store_text e])
      | Ok (entries, _) \<Rightarrow>
          (case newest_enabled entries of
             Some v \<Rightarrow> Ok v
           | None \<Rightarrow> Err (Errorf NotFound ''Secret Version [%s/versions/latest] not found'' [secret])))"

definition resolve_sm :: "ctx \<Rightarrow> string \<Rightarrow> string \<Rightarrow> sm \<Rightarrow> (rpc_error, storedVersion) result" where
  "resolve_sm cx secret version s =
     (if version = LatestAlias then latest cx secret s
      else (case parseInt version of
              None \<Rightarrow> Err (Errorf InvalidArgument ''invalid version %q'' [version])
            | Some n \<Rightarrow>
                (case mem_Get cx (versionKey secret n) (smKV s) of
                   Err ErrNotFound \<Rightarrow> Err (Errorf NotFound ''Secret Version [%s/versions/%s] not found'' [secret, version])
                 | Err e \<Rightarrow> Err (Errorf Internal ''reading version: %v'' [store_text e])
                 | Ok (SMVersion v, _) \<Rightarrow> Ok v
                 | Ok _ \<Rightarrow> Err (Errorf Internal ''decoding version: %v'' [''json'']))))"

subsection \<open>Secrets (rpc.go)\<close>

definition CreateSecret :: "ctx \<Rightarrow> string \<Rightarrow> string \<Rightarrow> proto option \<Rightarrow> sm \<Rightarrow> (rpc_error, proto) result \<times> sm" where
  "CreateSecret cx parent secretId req s =
     (let project = trimPrefix parent ''projects/''
      in if project = '''' \<or> go_contains project ''/''
         then (Err (Errorf InvalidArgument ''invalid parent %q; expected projects/{project}'' [parent]), s)
         else if secretId = '''' then (Err (Errorf InvalidArgument ''secretId is required'' []), s)
         else
           let secret0 = (case req of None \<Rightarrow> [] | Some p \<Rightarrow> p);
               name = parent @ ''/secrets/'' @ secretId;
               secret1 = AList.update ''create_time'' (PInt (smNow s)) (AList.update ''name'' (PStr name) secret0);
               secret = (if map_of secret1 ''replication'' = None
                         then AList.update ''replication'' (PRaw ''automatic'') secret1 else secret1)
           in (case mem_Put cx (secretKey name) (SMSecret secret) 0 (smKV s) of
                 (Err ErrVersionMismatch, m) \<Rightarrow> (Err (Errorf AlreadyExists ''Secret [%s] already exists'' [name]), s\<lparr>smKV := m\<rparr>)
               | (Err e, m) \<Rightarrow> (Err (Errorf Internal ''storing secret: %v'' [store_text e]), s\<lparr>smKV := m\<rparr>)
               | (Ok _, m) \<Rightarrow> (Ok secret, s\<lparr>smKV := m\<rparr>)))"

definition GetSecret :: "ctx \<Rightarrow> string \<Rightarrow> sm \<Rightarrow> (rpc_error, proto) result" where
  "GetSecret cx name s = (case parseSecret name of Err e \<Rightarrow> Err e | Ok _ \<Rightarrow> getSecret cx name s)"

fun decode_secrets :: "smval kv list \<Rightarrow> (rpc_error, proto list) result" where
  "decode_secrets [] = Ok []"
| "decode_secrets (kv # kvs) =
     (case kvVal kv of
        SMSecret p \<Rightarrow> (case decode_secrets kvs of Err e \<Rightarrow> Err e | Ok ps \<Rightarrow> Ok (p # ps))
      | _ \<Rightarrow> Err (Errorf Internal ''decoding secret: %v'' [''protojson'']))"

definition ListSecrets :: "ctx \<Rightarrow> string \<Rightarrow> sm \<Rightarrow> (rpc_error, proto list \<times> int) result" where
  "ListSecrets cx parent s =
     (case mem_List cx (''sm/s/'' @ parent @ ''/secrets/'') 0 '''' (smKV s) of
        Err e \<Rightarrow> Err (Errorf Internal ''listing secrets: %v'' [store_text e])
      | Ok (entries, _) \<Rightarrow>
          (case decode_secrets entries of
             Err e \<Rightarrow> Err e
           | Ok ps \<Rightarrow> Ok (sort_key (getStr ''name'') ps, i32 (int (length ps)))))"

fun delete_versions :: "ctx \<Rightarrow> smval kv list \<Rightarrow> smval memory \<Rightarrow> (store_error, unit) result \<times> smval memory" where
  "delete_versions cx [] m = (Ok (), m)"
| "delete_versions cx (kv # kvs) m =
     (case mem_Delete cx (kvKey kv) 0 m of
        (Err e, m1) \<Rightarrow> (Err e, m1)
      | (Ok _, m1) \<Rightarrow> delete_versions cx kvs m1)"

definition DeleteSecret :: "ctx \<Rightarrow> string \<Rightarrow> sm \<Rightarrow> (rpc_error, unit) result \<times> sm" where
  "DeleteSecret cx name s =
     (case parseSecret name of
        Err e \<Rightarrow> (Err e, s)
      | Ok _ \<Rightarrow>
     (case getSecret cx name s of
        Err e \<Rightarrow> (Err e, s)
      | Ok _ \<Rightarrow>
     (case mem_List cx (versionPrefix name) 0 '''' (smKV s) of
        Err e \<Rightarrow> (Err (Errorf Internal ''listing the versions of %s: %v'' [name, store_text e]), s)
      | Ok (entries, _) \<Rightarrow>
          (case delete_versions cx entries (smKV s) of
             (Err e, m) \<Rightarrow>
               (Err (Errorf Internal ''deleting a version of %s: %v; the secret was left in place'' [name, store_text e]), s\<lparr>smKV := m\<rparr>)
           | (Ok _, m) \<Rightarrow>
               (case mem_Delete cx (secretKey name) 0 m of
                  (Err _, m1) \<Rightarrow> (Err (Errorf NotFound ''Secret [%s] not found'' [name]), s\<lparr>smKV := m1\<rparr>)
                | (Ok _, m1) \<Rightarrow> (Ok (), s\<lparr>smKV := m1\<rparr>))))))"

subsection \<open>Versions (rpc.go)\<close>

text \<open>What follows the last slash; the whole name when there is none.\<close>

definition after_slash :: "string \<Rightarrow> string" where
  "after_slash k = (case last_index (CHR ''/'') k of None \<Rightarrow> k | Some i \<Rightarrow> drop (Suc i) k)"

definition nextVersion :: "ctx \<Rightarrow> string \<Rightarrow> sm \<Rightarrow> (rpc_error, int) result" where
  "nextVersion cx secret s =
     (case mem_List cx (versionPrefix secret) 0 '''' (smKV s) of
        Err e \<Rightarrow> Err (Errorf Internal ''listing versions: %v'' [store_text e])
      | Ok (entries, _) \<Rightarrow>
          if entries = [] then Ok 1
          else
            let highest = kvKey (last entries)
            in case parseInt (after_slash highest) of
                 None \<Rightarrow> Err (Errorf Internal ''unreadable version key %q'' [highest])
               | Some n \<Rightarrow> Ok (i64 (n + 1)))"

definition putVersion :: "ctx \<Rightarrow> string \<Rightarrow> int \<Rightarrow> storedVersion \<Rightarrow> sm \<Rightarrow> (rpc_error, unit) result \<times> sm" where
  "putVersion cx secret n stored s =
     (case mem_Put cx (versionKey secret n) (SMVersion stored) 0 (smKV s) of
        (Err e, m) \<Rightarrow>
          if is_ok (mem_Get cx (versionKey secret n) m)
          then (Err (Errorf Aborted ''version %d already exists'' [itoa n]), s\<lparr>smKV := m\<rparr>)
          else (Err (Errorf Internal ''storing version: %v'' [store_text e]), s\<lparr>smKV := m\<rparr>)
      | (Ok _, m) \<Rightarrow> (Ok (), s\<lparr>smKV := m\<rparr>))"

definition AddSecretVersion :: "ctx \<Rightarrow> string \<Rightarrow> string \<Rightarrow> int option \<Rightarrow> sm \<Rightarrow> (rpc_error, secret_version) result \<times> sm" where
  "AddSecretVersion cx parent payload checksum s =
     (case parseSecret parent of
        Err e \<Rightarrow> (Err e, s)
      | Ok _ \<Rightarrow>
          if checksum \<noteq> None \<and> checksum \<noteq> Some (uint (crc32c payload))
          then (Err (Errorf InvalidArgument ''the payload checksum does not match its data'' []), s)
          else
     (case getSecret cx parent s of
        Err e \<Rightarrow> (Err e, s)
      | Ok _ \<Rightarrow>
     (case nextVersion cx parent s of
        Err e \<Rightarrow> (Err e, s)
      | Ok n \<Rightarrow>
          let v = \<lparr>svName = parent @ ''/versions/'' @ itoa n, svCreate = smNow s, svState = Enabled,
                   svChecked = (checksum \<noteq> None), svDestroy = None\<rparr>
          in (case putVersion cx parent n \<lparr>stVersion = v, stPayload = payload\<rparr> s of
                (Err e, s1) \<Rightarrow> (Err e, s1)
              | (Ok _, s1) \<Rightarrow> (Ok v, s1)))))"

record access =
  acName :: string
  acData :: string

definition state_text :: "version_state \<Rightarrow> string" where
  "state_text st = (case st of StateUnspecified \<Rightarrow> ''STATE_UNSPECIFIED'' | Enabled \<Rightarrow> ''ENABLED'' | Disabled \<Rightarrow> ''DISABLED'' | Destroyed \<Rightarrow> ''DESTROYED'')"

definition AccessSecretVersion :: "ctx \<Rightarrow> string \<Rightarrow> sm \<Rightarrow> (rpc_error, access) result" where
  "AccessSecretVersion cx name s =
     (case parseVersion name of
        Err e \<Rightarrow> Err e
      | Ok (secret, version) \<Rightarrow>
     (case resolve_sm cx secret version s of
        Err e \<Rightarrow> Err e
      | Ok stored \<Rightarrow>
          if svState (stVersion stored) \<noteq> Enabled
          then Err (Errorf FailedPrecondition ''Secret Version [%s] is not enabled: it is %s''
                 [svName (stVersion stored), state_text (svState (stVersion stored))])
          else Ok \<lparr>acName = svName (stVersion stored), acData = stPayload stored\<rparr>))"

definition GetSecretVersion :: "ctx \<Rightarrow> string \<Rightarrow> sm \<Rightarrow> (rpc_error, secret_version) result" where
  "GetSecretVersion cx name s =
     (case parseVersion name of
        Err e \<Rightarrow> Err e
      | Ok (secret, version) \<Rightarrow>
          (case resolve_sm cx secret version s of Err e \<Rightarrow> Err e | Ok stored \<Rightarrow> Ok (stVersion stored)))"

text \<open>The sort is by the name as a string, descending.\<close>

definition ListSecretVersions :: "ctx \<Rightarrow> string \<Rightarrow> sm \<Rightarrow> (rpc_error, secret_version list \<times> int) result" where
  "ListSecretVersions cx parent s =
     (case getSecret cx parent s of
        Err e \<Rightarrow> Err e
      | Ok _ \<Rightarrow>
          (case versions cx parent s of
             Err e \<Rightarrow> Err e
           | Ok vs \<Rightarrow> Ok (rev (sort_key svName vs), i32 (int (length vs)))))"

definition versionNumber :: "string \<Rightarrow> (rpc_error, int) result" where
  "versionNumber name =
     (case parseInt (after_slash name) of
        None \<Rightarrow> Err (Errorf Internal ''unreadable version name %q'' [name])
      | Some n \<Rightarrow> Ok n)"

definition replaceVersion :: "ctx \<Rightarrow> string \<Rightarrow> int \<Rightarrow> storedVersion \<Rightarrow> sm \<Rightarrow> (rpc_error, unit) result \<times> sm" where
  "replaceVersion cx secret n stored s =
     (case mem_Get cx (versionKey secret n) (smKV s) of
        Err _ \<Rightarrow> (Err (Errorf NotFound ''Secret Version [%s] not found'' [svName (stVersion stored)]), s)
      | Ok (_, current) \<Rightarrow>
          (case mem_Put cx (versionKey secret n) (SMVersion stored) current (smKV s) of
             (Err e, m) \<Rightarrow> (Err (Errorf Aborted ''updating version: %v'' [store_text e]), s\<lparr>smKV := m\<rparr>)
           | (Ok _, m) \<Rightarrow> (Ok (), s\<lparr>smKV := m\<rparr>)))"

subsection \<open>States of a version (state.go)\<close>

definition setState :: "ctx \<Rightarrow> string \<Rightarrow> version_state \<Rightarrow> sm \<Rightarrow> (rpc_error, secret_version) result \<times> sm" where
  "setState cx name want s =
     (case parseVersion name of
        Err e \<Rightarrow> (Err e, s)
      | Ok (secret, version) \<Rightarrow>
     (case resolve_sm cx secret version s of
        Err e \<Rightarrow> (Err e, s)
      | Ok stored \<Rightarrow>
          if svState (stVersion stored) = Destroyed
          then (Err (Errorf FailedPrecondition ''Secret Version [%s] is destroyed'' [svName (stVersion stored)]), s)
          else
            let v = (stVersion stored)\<lparr>svState := want\<rparr>;
                stored' = (if want = Destroyed
                           then \<lparr>stVersion = v\<lparr>svDestroy := Some (smNow s)\<rparr>, stPayload = ''''\<rparr>
                           else \<lparr>stVersion = v, stPayload = stPayload stored\<rparr>)
            in (case versionNumber (svName v) of
                  Err e \<Rightarrow> (Err e, s)
                | Ok n \<Rightarrow>
                    (case replaceVersion cx secret n stored' s of
                       (Err e, s1) \<Rightarrow> (Err e, s1)
                     | (Ok _, s1) \<Rightarrow> (Ok (stVersion stored'), s1)))))"

definition DisableSecretVersion :: "ctx \<Rightarrow> string \<Rightarrow> sm \<Rightarrow> (rpc_error, secret_version) result \<times> sm" where
  "DisableSecretVersion cx name s = setState cx name Disabled s"

definition EnableSecretVersion :: "ctx \<Rightarrow> string \<Rightarrow> sm \<Rightarrow> (rpc_error, secret_version) result \<times> sm" where
  "EnableSecretVersion cx name s = setState cx name Enabled s"

definition DestroySecretVersion :: "ctx \<Rightarrow> string \<Rightarrow> sm \<Rightarrow> (rpc_error, secret_version) result \<times> sm" where
  "DestroySecretVersion cx name s = setState cx name Destroyed s"

subsection \<open>Masked updates (update.go)\<close>

text \<open>The same loop as Pub/Sub's, with the name fixed.\<close>

definition applyMask_secret :: "descriptor \<Rightarrow> proto \<Rightarrow> proto \<Rightarrow> string list \<Rightarrow> (rpc_error, proto) result" where
  "applyMask_secret desc dst src paths = applyMask desc dst src paths [''name'']"

definition UpdateSecret :: "descriptor \<Rightarrow> ctx \<Rightarrow> proto \<Rightarrow> string list \<Rightarrow> sm \<Rightarrow> (rpc_error, proto) result \<times> sm" where
  "UpdateSecret desc cx secret paths s =
     (let name = getStr ''name'' secret
      in case parseSecret name of
        Err e \<Rightarrow> (Err e, s)
      | Ok _ \<Rightarrow>
     (case mem_Get cx (secretKey name) (smKV s) of
        Err _ \<Rightarrow> (Err (Errorf NotFound ''Secret [%s] not found'' [name]), s)
      | Ok (SMSecret current, version) \<Rightarrow>
          (case applyMask_secret desc current secret paths of
             Err e \<Rightarrow> (Err e, s)
           | Ok p \<Rightarrow>
               (case mem_Put cx (secretKey name) (SMSecret p) version (smKV s) of
                  (Err e, m) \<Rightarrow> (Err (Errorf Aborted ''updating secret: %v'' [store_text e]), s\<lparr>smKV := m\<rparr>)
                | (Ok _, m) \<Rightarrow> (Ok p, s\<lparr>smKV := m\<rparr>)))
      | Ok _ \<Rightarrow> (Err (Errorf Internal ''decoding secret: %v'' [''protojson'']), s)))"

end
