(* ===== verification/Secret_Manager_Inv.thy ===== *)
theory Secret_Manager_Inv
  imports Secret_Manager
begin

text \<open>
  Secret Manager against its abstract specification: a vault, which has for every secret the list of its
  versions' states and payloads.  A simulation relation ties the vault to the store, every operation
  preserves it, and what follows is read off the vault.
\<close>

subsection \<open>Keys\<close>

lemma pad_int_nat: "pad_int w (int n) = zero_pad w (dec n)"
  by (simp add: pad_int_def)

lemma pad_int_inj: "pad_int w (int n) = pad_int w i \<longleftrightarrow> i = int n"
proof
  assume eq: "pad_int w (int n) = pad_int w i"
  have dig: "list_all is_digit (pad_int w (int n))" by (simp add: pad_int_nat zero_pad_digits)
  have "\<not> i < 0" using dig digit_not_sign [of "CHR ''-''"] unfolding eq by (auto simp: pad_int_def)
  then have "parse_digits (pad_int w i) = Some (nat i)" by (simp add: pad_int_def)
  with eq \<open>\<not> i < 0\<close> show "i = int n" by (metis pad_int_nat parse_zero_pad option.inject int_nat_eq linorder_not_less)
qed simp

lemma pad_int_no_slash: "CHR ''/'' \<notin> set (pad_int w i)"
proof -
  have "list_all is_digit (zero_pad v (dec m))" for v m by (simp add: zero_pad_digits)
  then have "CHR ''/'' \<notin> set (zero_pad v (dec m))" for v m
    using digit_not_sign by (auto simp: list_all_iff)
  then show ?thesis by (simp add: pad_int_def)
qed

lemma versionKey_eq: "versionKey a (int m) = versionKey b i \<longleftrightarrow> a = b \<and> i = int m"
  using last_sep_eq [OF pad_int_no_slash pad_int_no_slash, of a versionDigits "int m" b versionDigits i]
  by (auto simp: versionKey_def pad_int_inj)

lemma versionKey_less:
  "m < 10 ^ 12 \<Longrightarrow> n < 10 ^ 12 \<Longrightarrow> versionKey a (int m) < versionKey a (int n) \<longleftrightarrow> m < n"
  by (simp add: versionKey_def append_less_iff pad_int_nat zero_pad_dec_less versionDigits_def)

lemma key_kinds [simp]: "secretKey a \<noteq> versionKey b n" "versionKey b n \<noteq> secretKey a" "secretKey a = secretKey b \<longleftrightarrow> a = b"
  "prefix ''sm/v/'' (versionKey a n)" "\<not> prefix ''sm/v/'' (secretKey a)"
  by (auto simp: secretKey_def versionKey_def)

lemma parseSecret_slashes: "parseSecret name = Ok r \<Longrightarrow> count_list name (CHR ''/'') = 3"
  using length_split_on [of "CHR ''/''" name] by (auto simp: parseSecret_def Let_def split: if_splits)

lemma versionPrefix_key:
  assumes "parseSecret a = Ok x" and "parseSecret b = Ok y"
  shows "prefix (versionPrefix a) (versionKey b i) \<longleftrightarrow> a = b"
proof
  assume "prefix (versionPrefix a) (versionKey b i)"
  then obtain t where t: "b @ CHR ''/'' # pad_int versionDigits i = a @ CHR ''/'' # t"
    by (auto simp: versionPrefix_def versionKey_def prefix_def)
  then have "count_list (b @ CHR ''/'' # pad_int versionDigits i) (CHR ''/'') = count_list (a @ CHR ''/'' # t) (CHR ''/'')" by simp
  then have "CHR ''/'' \<notin> set t"
    using parseSecret_slashes [OF assms(1)] parseSecret_slashes [OF assms(2)] pad_int_no_slash [of versionDigits i]
    by (simp add: count_list_0_iff)
  with last_sep_eq [OF pad_int_no_slash this t] show "a = b" by simp
qed (simp add: versionPrefix_def versionKey_def)

lemma parseVersion_name:
  assumes "parseSecret secret = Ok r" and "CHR ''/'' \<notin> set v" and "v \<noteq> ''''"
  shows "parseVersion (secret @ ''/versions/'' @ v) = Ok (secret, v)"
proof -
  let ?p = "split_on (CHR ''/'') secret"
  have len: "length ?p = 4" using assms(1) by (auto simp: parseSecret_def Let_def split: if_splits)
  have app: "split_on c (x @ c # y) = split_on c x @ split_on c y" for c x and y :: string
    by (induction x) (auto split: list.splits)
  have "secret @ ''/versions/'' @ v = secret @ CHR ''/'' # (''versions'' @ CHR ''/'' # v)" by simp
  then have sp: "split_on (CHR ''/'') (secret @ ''/versions/'' @ v) = ?p @ [''versions'', v]"
    by (simp only: app split_on_word [OF assms(2)]) simp
  have "join_with ''/'' (take 4 (?p @ [''versions'', v])) = secret" using len by simp
  with sp len assms show ?thesis by (simp add: parseVersion_def Let_def nth_append)
qed

subsection \<open>The vault: what the service promises\<close>

text \<open>
  For every secret the list of its versions' states and payloads; version \<open>n\<close> is the element \<open>n - 1\<close>.
\<close>

type_synonym vault = "string \<Rightarrow> (version_state \<times> string) list option"

fun newest :: "(version_state \<times> string) list \<Rightarrow> nat option" where
  "newest [] = None"
| "newest ((st, d) # vs) =
     (case newest vs of Some i \<Rightarrow> Some (Suc i) | None \<Rightarrow> if st = Enabled then Some 0 else None)"

definition vault_find :: "vault \<Rightarrow> string \<Rightarrow> string \<Rightarrow> (gcode, nat) result" where
  "vault_find A secret v =
     (let vs = (case A secret of None \<Rightarrow> [] | Some vs \<Rightarrow> vs)
      in if v = LatestAlias then (case newest vs of None \<Rightarrow> Err NotFound | Some i \<Rightarrow> Ok i)
         else (case parseInt v of
                 None \<Rightarrow> Err InvalidArgument
               | Some n \<Rightarrow> if 1 \<le> n \<and> n \<le> int (length vs) then Ok (nat n - 1) else Err NotFound))"

definition vault_access :: "vault \<Rightarrow> string \<Rightarrow> string \<Rightarrow> (gcode, string) result" where
  "vault_access A secret v =
     (case vault_find A secret v of
        Err c \<Rightarrow> Err c
      | Ok i \<Rightarrow> (case the (A secret) ! i of (st, d) \<Rightarrow> if st = Enabled then Ok d else Err FailedPrecondition))"

datatype sm_op =
    CreateOp string string "proto option"
  | DeleteOp string
  | AddOp string string "int option"
  | SetOp string string version_state
  | UpdateOp descriptor proto "string list"
  | TickOp time

fun sm_step :: "sm_op \<Rightarrow> sm \<Rightarrow> sm" where
  "sm_step (CreateOp parent i p) s = snd (CreateSecret CtxLive parent i p s)"
| "sm_step (DeleteOp name) s = snd (DeleteSecret CtxLive name s)"
| "sm_step (AddOp parent d c) s = snd (AddSecretVersion CtxLive parent d c s)"
| "sm_step (SetOp secret v st) s = snd (setState CtxLive (secret @ ''/versions/'' @ v) st s)"
| "sm_step (UpdateOp desc p paths) s = snd (UpdateSecret desc CtxLive p paths s)"
| "sm_step (TickOp t) s = s\<lparr>smNow := t\<rparr>"

fun vault_step :: "sm_op \<Rightarrow> vault \<Rightarrow> vault" where
  "vault_step (CreateOp parent i p) A =
     (let name = parent @ ''/secrets/'' @ i; project = trimPrefix parent ''projects/''
      in if project = '''' \<or> CHR ''/'' \<in> set project \<or> i = '''' \<or> A name \<noteq> None then A else A(name \<mapsto> []))"
| "vault_step (DeleteOp name) A = (if is_ok (parseSecret name) then A(name := None) else A)"
| "vault_step (AddOp name d c) A =
     (case A name of
        None \<Rightarrow> A
      | Some vs \<Rightarrow>
          if is_ok (parseSecret name) \<and> (c = None \<or> c = Some (uint (crc32c d))) then A(name \<mapsto> vs @ [(Enabled, d)]) else A)"
| "vault_step (SetOp secret v st) A =
     (case vault_find A secret v of
        Err _ \<Rightarrow> A
      | Ok i \<Rightarrow>
          (case the (A secret) ! i of
             (st0, d) \<Rightarrow>
               if st0 = Destroyed then A
               else A(secret \<mapsto> (the (A secret))[i := (st, if st = Destroyed then '''' else d)])))"
| "vault_step (UpdateOp desc p paths) A = A"
| "vault_step (TickOp t) A = A"

text \<open>The requests that reach a secret through its name: what \<open>SetOp\<close> can spell.\<close>

fun op_ok :: "sm_op \<Rightarrow> bool" where
  "op_ok (SetOp secret v st) \<longleftrightarrow> is_ok (parseSecret secret) \<and> CHR ''/'' \<notin> set v \<and> v \<noteq> ''''"
| "op_ok _ \<longleftrightarrow> True"

subsection \<open>The simulation relation\<close>

definition holds_version :: "smval memory \<Rightarrow> string \<Rightarrow> nat \<Rightarrow> version_state \<times> string \<Rightarrow> bool" where
  "holds_version m name n x \<longleftrightarrow>
     (\<exists>v i. memM m (versionKey name (int n)) = Some \<lparr>entVal = SMVersion v, entVersion = i\<rparr> \<and>
        svName (stVersion v) = name @ ''/versions/'' @ itoa (int n) \<and> x = (svState (stVersion v), stPayload v))"

definition holds_secret :: "smval memory \<Rightarrow> string \<Rightarrow> (version_state \<times> string) list \<Rightarrow> bool" where
  "holds_secret m name vs \<longleftrightarrow>
     (\<exists>p i. memM m (secretKey name) = Some \<lparr>entVal = SMSecret p, entVersion = i\<rparr>) \<and> length vs < 10 ^ 12 \<and>
     (vs \<noteq> [] \<longrightarrow> is_ok (parseSecret name)) \<and> (\<forall>i<length vs. holds_version m name (Suc i) (vs ! i))"

definition vault_rel :: "smval memory \<Rightarrow> vault \<Rightarrow> bool" where
  "vault_rel m A \<longleftrightarrow> mem_wf m \<and>
     (\<forall>name. case A name of None \<Rightarrow> memM m (secretKey name) = None | Some vs \<Rightarrow> holds_secret m name vs) \<and>
     (\<forall>k. memM m k \<noteq> None \<and> prefix ''sm/v/'' k \<longrightarrow>
        (\<exists>name vs n. A name = Some vs \<and> k = versionKey name (int n) \<and> 1 \<le> n \<and> n \<le> length vs))"

definition vs_of :: "vault \<Rightarrow> string \<Rightarrow> (version_state \<times> string) list" where
  "vs_of A name = (case A name of None \<Rightarrow> [] | Some vs \<Rightarrow> vs)"

lemma vault_relD:
  assumes "vault_rel m A"
  shows "mem_wf m" and "A name = None \<Longrightarrow> memM m (secretKey name) = None" and "A name = Some vs \<Longrightarrow> holds_secret m name vs"
    and "memM m k \<noteq> None \<Longrightarrow> prefix ''sm/v/'' k \<Longrightarrow> \<exists>name vs n. A name = Some vs \<and> k = versionKey name (int n) \<and> 1 \<le> n \<and> n \<le> length vs"
proof -
  note R = assms [unfolded vault_rel_def]
  from R show "mem_wf m" by blast
  from R have N: "case A name of None \<Rightarrow> memM m (secretKey name) = None | Some vs \<Rightarrow> holds_secret m name vs" by blast
  then show "A name = None \<Longrightarrow> memM m (secretKey name) = None" "A name = Some vs \<Longrightarrow> holds_secret m name vs" by simp_all
  from R show "memM m k \<noteq> None \<Longrightarrow> prefix ''sm/v/'' k \<Longrightarrow> \<exists>name vs n. A name = Some vs \<and> k = versionKey name (int n) \<and> 1 \<le> n \<and> n \<le> length vs" by blast
qed

lemma vault_version:
  assumes "vault_rel m A"
  shows "memM m (versionKey name (int n)) \<noteq> None \<longleftrightarrow> 1 \<le> n \<and> n \<le> length (vs_of A name)"
proof
  assume "memM m (versionKey name (int n)) \<noteq> None"
  with vault_relD(4) [OF assms, of "versionKey name (int n)"] show "1 \<le> n \<and> n \<le> length (vs_of A name)"
    by (auto simp: vs_of_def versionKey_eq)
next
  assume n: "1 \<le> n \<and> n \<le> length (vs_of A name)"
  then obtain vs where vs: "A name = Some vs" "n \<le> length vs" by (cases "A name") (auto simp: vs_of_def)
  obtain i where i: "n = Suc i" "i < length vs" using n vs(2) by (cases n) auto
  then have "holds_version m name (Suc i) (vs ! i)" using vault_relD(3) [OF assms vs(1)] by (simp add: holds_secret_def)
  then show "memM m (versionKey name (int n)) \<noteq> None" using i by (auto simp: holds_version_def)
qed

lemma listed_versions:
  assumes rel: "vault_rel m A" and wf: "parseSecret name = Ok r"
  shows "list_keys (versionPrefix name) None m = map (\<lambda>i. versionKey name (int (Suc i))) [0..<length (vs_of A name)]"
proof (rule strict_sorted_equal)
  let ?N = "length (vs_of A name)"
  have N: "?N < 10 ^ 12" using vault_relD(3) [OF rel, of name] by (auto simp: vs_of_def holds_secret_def split: option.splits)
  show "sorted_wrt (<) (list_keys (versionPrefix name) None m)" by (rule list_keys_sorted [OF vault_relD(1) [OF rel]])
  show "sorted_wrt (<) (map (\<lambda>i. versionKey name (int (Suc i))) [0..<?N])"
    using N by (auto simp: sorted_wrt_map sorted_wrt_iff_nth_less versionKey_less simp del: of_nat_Suc)
  have "k \<in> set (list_keys (versionPrefix name) None m) \<longleftrightarrow> (\<exists>i<?N. k = versionKey name (int (Suc i)))" for k
  proof
    assume "k \<in> set (list_keys (versionPrefix name) None m)"
    then have k: "prefix (versionPrefix name) k" "memM m k \<noteq> None" using listed_key [OF vault_relD(1) [OF rel]] by auto
    moreover have "prefix ''sm/v/'' (versionPrefix name)" by (simp add: versionPrefix_def)
    ultimately obtain b vs n where b: "A b = Some vs" "k = versionKey b (int n)" "1 \<le> n" "n \<le> length vs"
      using vault_relD(4) [OF rel k(2)] prefix_order.trans by blast
    then have "vs \<noteq> []" by auto
    then obtain y where "parseSecret b = Ok y" using vault_relD(3) [OF rel b(1)] by (cases "parseSecret b") (auto simp: holds_secret_def)
    with versionPrefix_key [OF wf this] k(1) b(2) have "b = name" by auto
    with b show "\<exists>i<?N. k = versionKey name (int (Suc i))" by (intro exI [of _ "n - 1"]) (auto simp: vs_of_def)
  next
    assume "\<exists>i<?N. k = versionKey name (int (Suc i))"
    then obtain i where i: "i < ?N" "k = versionKey name (int (Suc i))" by blast
    then have "memM m k \<noteq> None" using vault_version [OF rel, of name "Suc i"] by simp
    then show "k \<in> set (list_keys (versionPrefix name) None m)"
      using versionPrefix_key [OF wf wf] i(2) listed_key [OF vault_relD(1) [OF rel]] by simp
  qed
  then show "set (list_keys (versionPrefix name) None m) = set (map (\<lambda>i. versionKey name (int (Suc i))) [0..<?N])" by auto
qed

subsection \<open>Reading\<close>

text \<open>The stored version \<open>n\<close> of a secret, as the vault shows it.\<close>

definition stored_as :: "smval memory \<Rightarrow> string \<Rightarrow> nat \<Rightarrow> version_state \<times> string \<Rightarrow> storedVersion \<Rightarrow> bool" where
  "stored_as m name n x v \<longleftrightarrow>
     (\<exists>i. memM m (versionKey name (int n)) = Some \<lparr>entVal = SMVersion v, entVersion = i\<rparr>) \<and>
     svName (stVersion v) = name @ ''/versions/'' @ itoa (int n) \<and> x = (svState (stVersion v), stPayload v)"

lemma holds_version_stored: "holds_version m name n x \<longleftrightarrow> (\<exists>v. stored_as m name n x v)"
  by (auto simp: holds_version_def stored_as_def)

lemma newest_less: "newest vs = Some i \<Longrightarrow> i < length vs"
  by (induction vs arbitrary: i) (auto split: option.splits if_splits)

lemma newest_enabled_newest:
  "(\<And>i. i < length vs \<Longrightarrow> holds_version m name (Suc (j + i)) (vs ! i)) \<Longrightarrow>
   (case newest vs of
      None \<Rightarrow> newest_enabled (map (\<lambda>i. kv_at m (versionKey name (int (Suc (j + i))))) [0..<length vs]) = None
    | Some i \<Rightarrow> \<exists>v. newest_enabled (map (\<lambda>i. kv_at m (versionKey name (int (Suc (j + i))))) [0..<length vs]) = Some v \<and>
        stored_as m name (Suc (j + i)) (vs ! i) v)"
proof (induction vs arbitrary: j)
  case (Cons x vs)
  obtain st d where x: "x = (st, d)" by force
  let ?k = "\<lambda>j i. kv_at m (versionKey name (int (Suc (j + i))))"
  have "[0..<length (x # vs)] = 0 # map Suc [0..<length vs]" by (simp add: map_Suc_upt upt_conv_Cons del: upt_Suc)
  then have m: "map (?k j) [0..<length (x # vs)] = ?k j 0 # map (?k (Suc j)) [0..<length vs]" by simp
  have "holds_version m name (Suc (Suc j + i)) (vs ! i)" if "i < length vs" for i
    using Cons.prems [of "Suc i"] that by simp
  note IH = Cons.IH [OF this]
  obtain v where v: "stored_as m name (Suc j) x v" using Cons.prems [of 0] by (auto simp: holds_version_stored)
  then obtain e where e: "kvVal (?k j 0) = SMVersion v" "svState (stVersion v) = st" by (auto simp: stored_as_def kv_at_def x)
  show ?case
  proof (cases "newest vs")
    case None
    then have "newest_enabled (map (?k (Suc j)) [0..<length vs]) = None" using IH by simp
    with None m e x v show ?thesis by (cases st) simp_all
  next
    case (Some i)
    then obtain w where "newest_enabled (map (?k (Suc j)) [0..<length vs]) = Some w" "stored_as m name (Suc (Suc j + i)) (vs ! i) w" using IH by auto
    with Some m x show ?thesis by simp
  qed
qed simp

lemma resolve_vault:
  assumes rel: "vault_rel (smKV s) A" and wf: "parseSecret name = Ok r"
  shows "case vault_find A name v of
      Err c \<Rightarrow> \<exists>e. resolve_sm CtxLive name v s = Err e \<and> rpcCode e = c
    | Ok i \<Rightarrow> \<exists>vs st. A name = Some vs \<and> i < length vs \<and> resolve_sm CtxLive name v s = Ok st \<and> stored_as (smKV s) name (Suc i) (vs ! i) st"
proof (cases "v = LatestAlias")
  case True
  let ?vs = "vs_of A name" and ?m = "smKV s"
  obtain tok where l: "mem_List CtxLive (versionPrefix name) 0 '''' ?m = Ok (map (kv_at ?m) (map (\<lambda>i. versionKey name (int (Suc i))) [0..<length ?vs]), tok)"
    using list_all_entries [OF vault_relD(1) [OF rel], of "versionPrefix name"] listed_versions [OF rel wf] by auto
  have h: "holds_version ?m name (Suc (0 + i)) (?vs ! i)" if "i < length ?vs" for i
    using that vault_relD(3) [OF rel] by (auto simp: vs_of_def holds_secret_def split: option.splits)
  have f: "vault_find A name v = (case newest ?vs of None \<Rightarrow> Err NotFound | Some i \<Rightarrow> Ok i)"
    using True by (simp add: vault_find_def vs_of_def Let_def)
  have c: "map (kv_at ?m) (map (\<lambda>i. versionKey name (int (Suc i))) [0..<length ?vs]) =
      map (\<lambda>i. kv_at ?m (versionKey name (int (Suc (0 + i))))) [0..<length ?vs]" by simp
  show ?thesis
  proof (cases "newest ?vs")
    case None
    then have n: "newest_enabled (map (kv_at ?m) (map (\<lambda>i. versionKey name (int (Suc i))) [0..<length ?vs])) = None"
      using newest_enabled_newest [of ?vs ?m name 0, OF h] unfolding c by simp
    with None f l True show ?thesis by (simp add: resolve_sm_def latest_def)
  next
    case (Some i)
    then obtain st where n: "newest_enabled (map (kv_at ?m) (map (\<lambda>i. versionKey name (int (Suc i))) [0..<length ?vs])) = Some st"
        "stored_as ?m name (Suc i) (?vs ! i) st"
      using newest_enabled_newest [of ?vs ?m name 0, OF h] unfolding c by auto
    have "resolve_sm CtxLive name v s = Ok st" using n(1) l True by (simp add: resolve_sm_def latest_def)
    moreover have "i < length ?vs" by (rule newest_less [OF Some])
    moreover from this have "A name = Some ?vs" by (cases "A name") (auto simp: vs_of_def)
    ultimately show ?thesis using f Some n(2) by auto
  qed
next
  case False
  let ?vs = "vs_of A name"
  show ?thesis
  proof (cases "parseInt v")
    case None
    with False show ?thesis by (simp add: resolve_sm_def vault_find_def Let_def)
  next
    case (Some n)
    have f: "vault_find A name v = (if 1 \<le> n \<and> n \<le> int (length ?vs) then Ok (nat n - 1) else Err NotFound)"
      using Some False by (simp add: vault_find_def vs_of_def Let_def)
    show ?thesis
    proof (cases "1 \<le> n \<and> n \<le> int (length ?vs)")
      case True
      define i where "i = nat n - 1"
      have i: "int (Suc i) = n" "i < length ?vs" using True by (auto simp: i_def)
      then have A: "A name = Some ?vs" by (cases "A name") (auto simp: vs_of_def)
      with vault_relD(3) [OF rel] i(2) obtain st where st: "stored_as (smKV s) name (Suc i) (?vs ! i) st"
        unfolding holds_secret_def holds_version_stored by blast
      then have "resolve_sm CtxLive name v s = Ok st"
        using False Some i(1) by (auto simp: resolve_sm_def stored_as_def mem_Get_def)
      with A st i f True show ?thesis by (auto simp: i_def)
    next
      case nin: False
      have "memM (smKV s) (versionKey name n) = None"
      proof (rule ccontr)
        assume "memM (smKV s) (versionKey name n) \<noteq> None"
        then obtain b vs k where b: "A b = Some vs" "versionKey name n = versionKey b (int k)" "1 \<le> k" "k \<le> length vs"
          using vault_relD(4) [OF rel, of "versionKey name n"] by auto
        then have "name = b" "n = int k" using versionKey_eq [of b k name n] by auto
        with b nin show False by (auto simp: vs_of_def)
      qed
      with nin f False Some show ?thesis by (simp add: resolve_sm_def mem_Get_def)
    qed
  qed
qed

text \<open>The answer of \<open>AccessSecretVersion\<close> is the vault's.\<close>

definition answer :: "(rpc_error, access) result \<Rightarrow> (gcode, string) result" where
  "answer r = (case r of Err e \<Rightarrow> Err (rpcCode e) | Ok a \<Rightarrow> Ok (acData a))"

lemma access_vault:
  assumes rel: "vault_rel (smKV s) A" and wf: "is_ok (parseSecret name)" and v: "CHR ''/'' \<notin> set v" "v \<noteq> ''''"
  shows "answer (AccessSecretVersion CtxLive (name @ ''/versions/'' @ v) s) = vault_access A name v"
proof -
  obtain r where r: "parseSecret name = Ok r" using wf by (cases "parseSecret name") auto
  note R = resolve_vault [OF rel r, of v] and P = parseVersion_name [OF r v]
  show ?thesis
  proof (cases "vault_find A name v")
    case (Err c)
    then obtain e where "resolve_sm CtxLive name v s = Err e" "rpcCode e = c" using R by auto
    with Err P show ?thesis by (simp add: AccessSecretVersion_def answer_def vault_access_def)
  next
    case (Ok i)
    then obtain vs st where st: "A name = Some vs" "resolve_sm CtxLive name v s = Ok st" "vs ! i = (svState (stVersion st), stPayload st)"
      using R by (auto simp: stored_as_def)
    with Ok P show ?thesis by (simp add: AccessSecretVersion_def answer_def vault_access_def)
  qed
qed

subsection \<open>Writing\<close>

lemma vault_rel_step:
  assumes rel: "vault_rel m A" and wf: "mem_wf m'"
    and others: "\<And>b. b \<noteq> name \<Longrightarrow> memM m' (secretKey b) = memM m (secretKey b)"
      "\<And>b n. b \<noteq> name \<Longrightarrow> memM m' (versionKey b (int n)) = memM m (versionKey b (int n))"
    and own: "case X of None \<Rightarrow> memM m' (secretKey name) = None | Some vs \<Rightarrow> holds_secret m' name vs"
    and keys: "\<And>k. memM m' k \<noteq> None \<Longrightarrow> prefix ''sm/v/'' k \<Longrightarrow>
      memM m k \<noteq> None \<and> (\<forall>n. k \<noteq> versionKey name (int n)) \<or> (\<exists>vs n. X = Some vs \<and> k = versionKey name (int n) \<and> 1 \<le> n \<and> n \<le> length vs)"
  shows "vault_rel m' (A(name := X))"
  unfolding vault_rel_def
proof (intro conjI allI impI)
  fix b
  show "case (A(name := X)) b of None \<Rightarrow> memM m' (secretKey b) = None | Some vs \<Rightarrow> holds_secret m' b vs"
  proof (cases "b = name")
    case True
    with own show ?thesis by (cases X) simp_all
  next
    case False
    with others vault_relD(2,3) [OF rel, of b] show ?thesis
      by (auto simp: holds_secret_def holds_version_def simp del: of_nat_Suc split: option.splits)
  qed
next
  fix k assume k: "memM m' k \<noteq> None \<and> prefix ''sm/v/'' k"
  then consider "memM m k \<noteq> None" "\<forall>n. k \<noteq> versionKey name (int n)"
    | vs n where "X = Some vs" "k = versionKey name (int n)" "1 \<le> n" "n \<le> length vs" using keys [of k] by blast
  then show "\<exists>b vs n. (A(name := X)) b = Some vs \<and> k = versionKey b (int n) \<and> 1 \<le> n \<and> n \<le> length vs"
  proof cases
    case 1
    then obtain b vs n where "A b = Some vs" "k = versionKey b (int n)" "1 \<le> n" "n \<le> length vs"
      using vault_relD(4) [OF rel 1(1)] k by blast
    with 1(2) show ?thesis by (intro exI [of _ b] exI [of _ vs] exI [of _ n]) auto
  next
    case 2
    then show ?thesis by (intro exI [of _ name] exI [of _ vs] exI [of _ n]) simp
  qed
qed (rule wf)

lemma own_version_keys:
  assumes "vault_rel m A" and "memM m k \<noteq> None" and "k = versionKey name (int n)"
  shows "1 \<le> n \<and> n \<le> length (vs_of A name)"
  using vault_version [OF assms(1), of name n] assms(2,3) by simp

text \<open>Writing the secret's own record.\<close>

lemma secret_record_rel:
  assumes rel: "vault_rel m A" and wf: "mem_wf m'" and m': "memM m' = (memM m)(secretKey name \<mapsto> \<lparr>entVal = SMSecret p, entVersion = i\<rparr>)"
  shows "vault_rel m' (A(name \<mapsto> vs_of A name))"
proof (rule vault_rel_step [OF rel wf])
  have "holds_secret m' name (vs_of A name)"
    using vault_relD(3) [OF rel] by (auto simp: m' vs_of_def holds_secret_def holds_version_def split: option.splits)
  then show "case Some (vs_of A name) of None \<Rightarrow> memM m' (secretKey name) = None | Some vs \<Rightarrow> holds_secret m' name vs" by simp
  fix k assume k: "memM m' k \<noteq> None" "prefix ''sm/v/'' k"
  then have mk: "memM m k \<noteq> None" by (auto simp: m' split: if_splits)
  show "memM m k \<noteq> None \<and> (\<forall>n. k \<noteq> versionKey name (int n)) \<or> (\<exists>vs n. Some (vs_of A name) = Some vs \<and> k = versionKey name (int n) \<and> 1 \<le> n \<and> n \<le> length vs)"
    using own_version_keys [OF rel mk] mk by blast
qed (simp_all add: m')

text \<open>Writing one version: a new last one, or another value for one that is there.\<close>

lemma version_record_rel:
  assumes rel: "vault_rel m A" and wf: "mem_wf m'" and A: "A name = Some vs" and sec: "is_ok (parseSecret name)"
    and m': "memM m' = (memM m)(versionKey name (int (Suc i)) \<mapsto> \<lparr>entVal = SMVersion v, entVersion = j\<rparr>)"
    and nm: "svName (stVersion v) = name @ ''/versions/'' @ itoa (int (Suc i))"
    and vs': "vs' = vs[i := x] \<and> i < length vs \<or> vs' = vs @ [x] \<and> i = length vs" and len: "length vs' < 10 ^ 12"
    and x: "x = (svState (stVersion v), stPayload v)"
  shows "vault_rel m' (A(name \<mapsto> vs'))"
proof (rule vault_rel_step [OF rel wf])
  have H: "holds_secret m name vs" by (rule vault_relD(3) [OF rel A])
  have vi: "vs' ! i = x" "i < length vs'" and vo: "\<And>l. l < length vs' \<Longrightarrow> l \<noteq> i \<Longrightarrow> l < length vs \<and> vs' ! l = vs ! l"
    using vs' by (auto simp: nth_append)
  have "holds_version m' name (Suc l) (vs' ! l)" if l: "l < length vs'" for l
  proof (cases "l = i")
    case True
    with vi nm x show ?thesis by (auto simp: holds_version_def m' simp del: of_nat_Suc)
  next
    case False
    then have "holds_version m name (Suc l) (vs' ! l)" using H vo [OF l] unfolding holds_secret_def by auto
    moreover have "versionKey name (int (Suc l)) \<noteq> versionKey name (int (Suc i))" using False by (simp add: versionKey_eq del: of_nat_Suc)
    ultimately show ?thesis by (simp add: holds_version_def m' del: of_nat_Suc)
  qed
  then show "case Some vs' of None \<Rightarrow> memM m' (secretKey name) = None | Some vs \<Rightarrow> holds_secret m' name vs"
    using H len sec by (simp add: holds_secret_def m')
  fix k assume k: "memM m' k \<noteq> None" "prefix ''sm/v/'' k"
  have "length vs \<le> length vs'" using vs' by auto
  show "memM m k \<noteq> None \<and> (\<forall>n. k \<noteq> versionKey name (int n)) \<or> (\<exists>vs n. Some vs' = Some vs \<and> k = versionKey name (int n) \<and> 1 \<le> n \<and> n \<le> length vs)"
  proof (cases "k = versionKey name (int (Suc i))")
    case True
    then show ?thesis using vi(2) by (intro disjI2 exI [of _ vs'] exI [of _ "Suc i"]) simp
  next
    case False
    then have mk: "memM m k \<noteq> None" using k(1) by (simp add: m')
    have "vs_of A name = vs" by (simp add: vs_of_def A)
    then show ?thesis using own_version_keys [OF rel mk] mk \<open>length vs \<le> length vs'\<close> le_trans by metis
  qed
qed (auto simp: m' versionKey_eq simp del: of_nat_Suc)

lemma version_absent:
  assumes "vault_rel m A" and "A name = Some vs"
  shows "memM m (versionKey name (int (Suc (length vs)))) = None"
  using vault_version [OF assms(1), of name "Suc (length vs)"] assms(2) by (simp add: vs_of_def del: of_nat_Suc)

lemma nextVersion_vault:
  assumes rel: "vault_rel (smKV s) A" and wf: "parseSecret name = Ok r" and A: "A name = Some vs"
  shows "nextVersion CtxLive name s = Ok (int (Suc (length vs)))"
proof -
  have len: "length vs < 10 ^ 12" using vault_relD(3) [OF rel A] by (simp add: holds_secret_def)
  have vo: "vs_of A name = vs" by (simp add: vs_of_def A)
  obtain tok where l: "mem_List CtxLive (versionPrefix name) 0 '''' (smKV s) = Ok (map (kv_at (smKV s)) (map (\<lambda>i. versionKey name (int (Suc i))) [0..<length vs]), tok)"
    using list_all_entries [OF vault_relD(1) [OF rel], of "versionPrefix name"] listed_versions [OF rel wf] vo by auto
  show ?thesis
  proof (cases "vs = []")
    case True
    with l show ?thesis by (simp add: nextVersion_def)
  next
    case False
    then obtain k where k: "length vs = Suc k" by (cases vs) auto
    have lst: "kvKey (last (map (kv_at (smKV s)) (map (\<lambda>i. versionKey name (int (Suc i))) [0..<length vs]))) = versionKey name (int (length vs))"
      using k by (simp add: kv_at_key)
    have "versionKey name (int (length vs)) = (''sm/v/'' @ name) @ CHR ''/'' # pad_int versionDigits (int (length vs))"
      by (simp add: versionKey_def)
    then have "after_slash (versionKey name (int (length vs))) = pad_int versionDigits (int (length vs))"
      using last_index_append [OF pad_int_no_slash, of "''sm/v/'' @ name"] by (simp add: after_slash_def)
    moreover have "parseInt (zero_pad 12 (dec (length vs))) = Some (int (length vs))"
    proof -
      have "is_digit (hd (zero_pad 12 (dec (length vs))))" "zero_pad 12 (dec (length vs)) \<noteq> []"
        using zero_pad_digits [OF dec_digits, of 12 "length vs"] by (cases "zero_pad 12 (dec (length vs))"; auto simp: zero_pad_def)+
      then show ?thesis using digit_not_sign [of "hd (zero_pad 12 (dec (length vs)))"] len by (simp add: parseInt_def Let_def)
    qed
    moreover have "i64 (int (length vs) + 1) = int (Suc (length vs))" using len by (simp add: i64_id min_i64_def max_i64_def)
    ultimately show ?thesis using l False lst by (simp add: nextVersion_def pad_int_nat versionDigits_def Let_def)
  qed
qed

lemma getSecret_vault:
  assumes "vault_rel (smKV s) A"
  shows "is_ok (getSecret CtxLive name s) \<longleftrightarrow> A name \<noteq> None"
  using vault_relD(2,3) [OF assms, of name]
  by (cases "A name") (auto simp: getSecret_def mem_Get_def holds_secret_def)

lemma put_absent_mem:
  assumes "mem_wf m" and "memM m k = None"
  shows "\<exists>m'. mem_Put CtxLive k v 0 m = (Ok 1, m') \<and> memM m' = (memM m)(k \<mapsto> \<lparr>entVal = v, entVersion = 1\<rparr>) \<and> mem_wf m'"
  using assms mem_Put_wf [of m k CtxLive v 0] by (simp add: mem_Put_def key_room_def)

lemma put_present_mem:
  assumes "mem_wf m" and "memM m k = Some e" and "key_room m k"
  shows "\<exists>m' i. mem_Put CtxLive k v (entVersion e) m = (Ok i, m') \<and> memM m' = (memM m)(k \<mapsto> \<lparr>entVal = v, entVersion = i\<rparr>) \<and> mem_wf m'"
proof -
  have "0 < entVersion e" using versions_okD [OF mem_wfD(5) [OF assms(1)] assms(2)] by simp
  with assms mem_Put_wf [of m k CtxLive v "entVersion e"] show ?thesis by (auto simp: mem_Put_def Let_def)
qed

lemma add_vault:
  assumes rel: "vault_rel (smKV s) A" and wf: "is_ok (parseSecret name)" and c: "c = None \<or> c = Some (uint (crc32c d))"
    and A: "A name = Some vs" and room: "Suc (length vs) < 10 ^ 12"
  shows "\<exists>v s'. AddSecretVersion CtxLive name d c s = (Ok v, s') \<and> svName v = name @ ''/versions/'' @ itoa (int (Suc (length vs))) \<and>
    smNow s' = smNow s \<and> vault_rel (smKV s') (A(name \<mapsto> vs @ [(Enabled, d)]))"
proof -
  obtain r where r: "parseSecret name = Ok r" using wf by (cases "parseSecret name") auto
  obtain p where g: "getSecret CtxLive name s = Ok p" using getSecret_vault [OF rel, of name] A by (cases "getSecret CtxLive name s") auto
  let ?n = "int (Suc (length vs))"
  let ?v = "\<lparr>svName = name @ ''/versions/'' @ itoa ?n, svCreate = smNow s, svState = Enabled, svChecked = (c \<noteq> None), svDestroy = None\<rparr>"
  let ?st = "\<lparr>stVersion = ?v, stPayload = d\<rparr>"
  obtain m' where p: "mem_Put CtxLive (versionKey name ?n) (SMVersion ?st) 0 (smKV s) = (Ok 1, m')"
      "memM m' = (memM (smKV s))(versionKey name ?n \<mapsto> \<lparr>entVal = SMVersion ?st, entVersion = 1\<rparr>)" "mem_wf m'"
    using put_absent_mem [OF vault_relD(1) [OF rel] version_absent [OF rel A]] by metis
  have "AddSecretVersion CtxLive name d c s = (Ok ?v, s\<lparr>smKV := m'\<rparr>)"
    using r g c nextVersion_vault [OF rel r A] p(1) unfolding AddSecretVersion_def putVersion_def by (auto simp: Let_def simp del: of_nat_Suc)
  moreover have "vault_rel m' (A(name \<mapsto> vs @ [(Enabled, d)]))"
    by (rule version_record_rel [OF rel p(3) A wf p(2)]) (use room in auto)
  ultimately show ?thesis by simp
qed

lemma versionNumber_name: "min_i64 \<le> n \<Longrightarrow> n \<le> max_i64 \<Longrightarrow> versionNumber (name @ ''/versions/'' @ itoa n) = Ok n"
proof -
  assume n: "min_i64 \<le> n" "n \<le> max_i64"
  have ns: "CHR ''/'' \<notin> set (itoa n)" using dec_no_sep [of "CHR ''/''"] by (simp add: itoa_def)
  have "last_index (CHR ''/'') ((name @ ''/versions'') @ CHR ''/'' # itoa n) = Some (length (name @ ''/versions''))"
    by (rule last_index_append [OF ns])
  then have "after_slash (name @ ''/versions/'' @ itoa n) = itoa n" by (simp add: after_slash_def)
  then show ?thesis using parseInt_itoa [OF n] by (simp add: versionNumber_def)
qed

lemma set_vault:
  assumes rel: "vault_rel (smKV s) A" and wf: "is_ok (parseSecret name)" and v: "CHR ''/'' \<notin> set v" "v \<noteq> ''''"
    and room: "\<forall>k. key_room (smKV s) k"
  shows "vault_rel (smKV (snd (setState CtxLive (name @ ''/versions/'' @ v) st s))) (vault_step (SetOp name v st) A)"
    and "is_ok (fst (setState CtxLive (name @ ''/versions/'' @ v) st s)) \<longleftrightarrow>
      (\<exists>i. vault_find A name v = Ok i \<and> fst (the (A name) ! i) \<noteq> Destroyed)"
proof -
  let ?r = "setState CtxLive (name @ ''/versions/'' @ v) st s"
  obtain r where r: "parseSecret name = Ok r" using wf by (cases "parseSecret name") auto
  note R = resolve_vault [OF rel r, of v] and P = parseVersion_name [OF r v]
  have "vault_rel (smKV (snd ?r)) (vault_step (SetOp name v st) A) \<and>
    (is_ok (fst ?r) \<longleftrightarrow> (\<exists>i. vault_find A name v = Ok i \<and> fst (the (A name) ! i) \<noteq> Destroyed))"
  proof (cases "vault_find A name v")
    case (Err c)
    then obtain e where "resolve_sm CtxLive name v s = Err e" using R by auto
    with P rel Err show ?thesis by (simp add: setState_def)
  next
    case (Ok i)
    then obtain vs w where w: "A name = Some vs" "i < length vs" "resolve_sm CtxLive name v s = Ok w" "stored_as (smKV s) name (Suc i) (vs ! i) w"
      using R by auto
    show ?thesis
    proof (cases "svState (stVersion w) = Destroyed")
      case True
      with P rel Ok w show ?thesis by (auto simp: setState_def stored_as_def)
    next
      case False
      let ?w = "if st = Destroyed then \<lparr>stVersion = (stVersion w)\<lparr>svState := st, svDestroy := Some (smNow s)\<rparr>, stPayload = ''''\<rparr>
                 else \<lparr>stVersion = (stVersion w)\<lparr>svState := st\<rparr>, stPayload = stPayload w\<rparr>"
      obtain e where e: "memM (smKV s) (versionKey name (int (Suc i))) = Some e" using w(4) by (auto simp: stored_as_def)
      obtain m' j where p: "mem_Put CtxLive (versionKey name (int (Suc i))) (SMVersion ?w) (entVersion e) (smKV s) = (Ok j, m')"
         "memM m' = (memM (smKV s))(versionKey name (int (Suc i)) \<mapsto> \<lparr>entVal = SMVersion ?w, entVersion = j\<rparr>)" "mem_wf m'"
        using put_present_mem [OF vault_relD(1) [OF rel] e] room by blast
      have nm: "svName (stVersion w) = name @ ''/versions/'' @ itoa (int (Suc i))" using w(4) by (simp add: stored_as_def)
      have len: "length vs < 10 ^ 12" using vault_relD(3) [OF rel w(1)] by (simp add: holds_secret_def)
      have num: "versionNumber (svName ((stVersion w)\<lparr>svState := st\<rparr>)) = Ok (int (Suc i))"
        using versionNumber_name [of "int (Suc i)" name] w(2) len nm by (simp add: min_i64_def max_i64_def del: of_nat_Suc)
      have "?r = (Ok (stVersion ?w), s\<lparr>smKV := m'\<rparr>)"
        using P w(3) False num p(1) e unfolding setState_def replaceVersion_def
        by (simp add: Let_def mem_Get_def del: of_nat_Suc)
      moreover have "vault_rel m' (A(name \<mapsto> vs[i := (st, if st = Destroyed then '''' else stPayload w)]))"
        by (rule version_record_rel [OF rel p(3) w(1) wf p(2)]) (use w(2) nm len in auto)
      moreover have "vs ! i = (svState (stVersion w), stPayload w)" using w(4) by (simp add: stored_as_def)
      ultimately show ?thesis using Ok w False by simp
    qed
  qed
  then show "vault_rel (smKV (snd ?r)) (vault_step (SetOp name v st) A)"
    "is_ok (fst ?r) \<longleftrightarrow> (\<exists>i. vault_find A name v = Ok i \<and> fst (the (A name) ! i) \<noteq> Destroyed)" by auto
qed

lemma create_vault:
  assumes rel: "vault_rel (smKV s) A"
  shows "vault_rel (smKV (snd (CreateSecret CtxLive parent i p s))) (vault_step (CreateOp parent i p) A)"
proof -
  let ?name = "parent @ ''/secrets/'' @ i" and ?project = "trimPrefix parent ''projects/''"
  show ?thesis
  proof (cases "?project = '''' \<or> CHR ''/'' \<in> set ?project \<or> i = ''''")
    case True
    then have "snd (CreateSecret CtxLive parent i p s) = s" by (auto simp: CreateSecret_def Let_def go_contains_char)
    with True rel show ?thesis by (auto simp: Let_def)
  next
    case ok: False
    define sec where "sec = (let secret0 = (case p of None \<Rightarrow> [] | Some p \<Rightarrow> p);
        secret1 = AList.update ''create_time'' (PInt (smNow s)) (AList.update ''name'' (PStr ?name) secret0)
        in if map_of secret1 ''replication'' = None then AList.update ''replication'' (PRaw ''automatic'') secret1 else secret1)"
    have cr: "CreateSecret CtxLive parent i p s =
      (case mem_Put CtxLive (secretKey ?name) (SMSecret sec) 0 (smKV s) of
         (Err ErrVersionMismatch, m) \<Rightarrow> (Err (Errorf AlreadyExists ''Secret [%s] already exists'' [?name]), s\<lparr>smKV := m\<rparr>)
       | (Err e, m) \<Rightarrow> (Err (Errorf Internal ''storing secret: %v'' [store_text e]), s\<lparr>smKV := m\<rparr>)
       | (Ok _, m) \<Rightarrow> (Ok sec, s\<lparr>smKV := m\<rparr>))"
      using ok unfolding CreateSecret_def sec_def Let_def go_contains_char by simp
    show ?thesis
    proof (cases "A ?name")
      case None
      obtain m' where m': "mem_Put CtxLive (secretKey ?name) (SMSecret sec) 0 (smKV s) = (Ok 1, m')"
         "memM m' = (memM (smKV s))(secretKey ?name \<mapsto> \<lparr>entVal = SMSecret sec, entVersion = 1\<rparr>)" "mem_wf m'"
        using put_absent_mem [OF vault_relD(1) [OF rel] vault_relD(2) [OF rel None]] by metis
      with secret_record_rel [OF rel m'(3,2)] None ok cr show ?thesis by (simp add: vs_of_def Let_def)
    next
      case (Some vs)
      then have "mem_Put CtxLive (secretKey ?name) (SMSecret sec) 0 (smKV s) = (Err ErrVersionMismatch, smKV s)"
        using vault_relD(3) [OF rel Some] by (auto simp: mem_Put_def holds_secret_def)
      with cr rel Some ok show ?thesis by (simp add: Let_def)
    qed
  qed
qed

lemma delete_versions_all:
  "mem_wf m \<Longrightarrow> distinct (map kvKey kvs) \<Longrightarrow> (\<And>kv. kv \<in> set kvs \<Longrightarrow> memM m (kvKey kv) \<noteq> None) \<Longrightarrow>
   \<exists>m'. delete_versions CtxLive kvs m = (Ok (), m') \<and> mem_wf m' \<and> (\<forall>k. memM m' k = (if k \<in> kvKey ` set kvs then None else memM m k))"
proof (induction kvs arbitrary: m)
  case (Cons kv kvs)
  obtain e where e: "memM m (kvKey kv) = Some e" using Cons.prems(3) by fastforce
  let ?m = "\<lparr>memM = (memM m)(kvKey kv := None), memKeys = removeKey (kvKey kv) (memKeys m)\<rparr>"
  have d: "mem_Delete CtxLive (kvKey kv) 0 m = (Ok (), ?m)" using e by (simp add: mem_Delete_def)
  then have wf: "mem_wf ?m" using mem_Delete_wf [OF Cons.prems(1), of CtxLive "kvKey kv" 0] by simp
  have "memM ?m (kvKey kv') \<noteq> None" if "kv' \<in> set kvs" for kv'
    using Cons.prems(2,3) that by (auto simp: image_iff)
  with Cons.IH [OF wf] Cons.prems(2) obtain m' where "delete_versions CtxLive kvs ?m = (Ok (), m')" "mem_wf m'"
      "\<forall>k. memM m' k = (if k \<in> kvKey ` set kvs then None else memM ?m k)" by auto
  with d show ?case by auto
qed simp

lemma delete_vault:
  assumes rel: "vault_rel (smKV s) A"
  shows "vault_rel (smKV (snd (DeleteSecret CtxLive name s))) (vault_step (DeleteOp name) A)"
    and "is_ok (fst (DeleteSecret CtxLive name s)) \<longleftrightarrow> is_ok (parseSecret name) \<and> A name \<noteq> None"
proof -
  have "vault_rel (smKV (snd (DeleteSecret CtxLive name s))) (vault_step (DeleteOp name) A) \<and>
    (is_ok (fst (DeleteSecret CtxLive name s)) \<longleftrightarrow> is_ok (parseSecret name) \<and> A name \<noteq> None)"
  proof (cases "parseSecret name")
    case (Err e)
    with rel show ?thesis by (simp add: DeleteSecret_def)
  next
    case (Ok r)
    show ?thesis
    proof (cases "A name")
      case None
      then obtain e where "getSecret CtxLive name s = Err e" using getSecret_vault [OF rel, of name] by (cases "getSecret CtxLive name s") auto
      moreover have "A(name := None) = A" using None by auto
      ultimately show ?thesis using Ok rel None by (simp add: DeleteSecret_def)
    next
      case (Some vs)
      let ?m = "smKV s" and ?ks = "list_keys (versionPrefix name) None (smKV s)"
      note wf = vault_relD(1) [OF rel]
      obtain p where g: "getSecret CtxLive name s = Ok p" using getSecret_vault [OF rel, of name] Some by (cases "getSecret CtxLive name s") auto
      obtain tok where l: "mem_List CtxLive (versionPrefix name) 0 '''' ?m = Ok (map (kv_at ?m) ?ks, tok)"
        using list_all_entries [OF wf] by blast
      have ks: "kvKey ` set (map (kv_at ?m) ?ks) = set ?ks" "map kvKey (map (kv_at ?m) ?ks) = ?ks" by (simp_all add: image_image kv_at_key comp_def)
      have "distinct ?ks" using list_keys_sorted [OF wf] strict_sorted_iff by blast
      moreover have "memM ?m (kvKey kv) \<noteq> None" if "kv \<in> set (map (kv_at ?m) ?ks)" for kv
        using that ks(1) listed_key [OF wf] by blast
      ultimately obtain m1 where d: "delete_versions CtxLive (map (kv_at ?m) ?ks) ?m = (Ok (), m1)" "mem_wf m1"
          "\<forall>k. memM m1 k = (if k \<in> set ?ks then None else memM ?m k)"
        using delete_versions_all [OF wf, of "map (kv_at ?m) ?ks"] ks by metis
      have vk: "k \<in> set ?ks \<longleftrightarrow> (\<exists>i<length vs. k = versionKey name (int (Suc i)))" for k
        unfolding listed_versions [OF rel Ok] vs_of_def Some by (auto simp del: of_nat_Suc)
      have "secretKey name \<notin> set ?ks" by (auto simp: vk)
      then obtain e where e: "memM m1 (secretKey name) = Some e" using d(3) vault_relD(3) [OF rel Some] by (auto simp: holds_secret_def)
      let ?m2 = "\<lparr>memM = (memM m1)(secretKey name := None), memKeys = removeKey (secretKey name) (memKeys m1)\<rparr>"
      have d2: "mem_Delete CtxLive (secretKey name) 0 m1 = (Ok (), ?m2)" using e by (simp add: mem_Delete_def)
      have "DeleteSecret CtxLive name s = (Ok (), s\<lparr>smKV := ?m2\<rparr>)" using Ok g l d(1) d2 by (simp add: DeleteSecret_def)
      moreover have "vault_rel ?m2 (A(name := None))"
      proof (rule vault_rel_step [OF rel])
        show "mem_wf ?m2" using mem_Delete_wf [OF d(2), of CtxLive "secretKey name" 0] d2 by simp
        fix b n assume "b \<noteq> name"
        then show "memM ?m2 (secretKey b) = memM ?m (secretKey b)" "memM ?m2 (versionKey b (int n)) = memM ?m (versionKey b (int n))"
          using d(3) by (auto simp: vk versionKey_eq simp del: of_nat_Suc)
      next
        fix k assume k: "memM ?m2 k \<noteq> None" "prefix ''sm/v/'' k"
        then have kn: "k \<notin> set ?ks" "memM ?m k \<noteq> None" using d(3) by (auto split: if_splits)
        have "k \<noteq> versionKey name (int n)" for n
        proof
          assume kv: "k = versionKey name (int n)"
          then obtain i where "n = Suc i" "i < length vs"
            using own_version_keys [OF rel kn(2) kv] Some by (cases n) (auto simp: vs_of_def)
          with kv kn(1) show False by (auto simp: vk simp del: of_nat_Suc)
        qed
        with kn show "memM ?m k \<noteq> None \<and> (\<forall>n. k \<noteq> versionKey name (int n)) \<or> (\<exists>vs n. None = Some vs \<and> k = versionKey name (int n) \<and> 1 \<le> n \<and> n \<le> length vs)" by blast
      qed simp
      ultimately show ?thesis using Ok Some by simp
    qed
  qed
  then show "vault_rel (smKV (snd (DeleteSecret CtxLive name s))) (vault_step (DeleteOp name) A)"
    "is_ok (fst (DeleteSecret CtxLive name s)) \<longleftrightarrow> is_ok (parseSecret name) \<and> A name \<noteq> None" by auto
qed

lemma update_vault:
  assumes rel: "vault_rel (smKV s) A" and room: "\<forall>k. key_room (smKV s) k"
  shows "vault_rel (smKV (snd (UpdateSecret desc CtxLive p paths s))) A"
proof -
  let ?name = "getStr ''name'' p"
  consider "snd (UpdateSecret desc CtxLive p paths s) = s"
    | c i q where "memM (smKV s) (secretKey ?name) = Some \<lparr>entVal = SMSecret c, entVersion = i\<rparr>"
       "snd (UpdateSecret desc CtxLive p paths s) = s\<lparr>smKV := snd (mem_Put CtxLive (secretKey ?name) (SMSecret q) i (smKV s))\<rparr>"
  proof (cases "memM (smKV s) (secretKey ?name)")
    case None
    then have "snd (UpdateSecret desc CtxLive p paths s) = s" by (simp add: UpdateSecret_def Let_def mem_Get_def split: result.splits)
    then show thesis by (rule that(1))
  next
    case (Some e)
    obtain c where c: "entVal e = SMSecret c" using vault_relD(2,3) [OF rel, of ?name] Some by (cases "A ?name") (auto simp: holds_secret_def)
    show thesis
    proof (cases "\<exists>r q. parseSecret ?name = Ok r \<and> applyMask_secret desc c p paths = Ok q")
      case True
      then obtain r q where q: "parseSecret ?name = Ok r" "applyMask_secret desc c p paths = Ok q" by blast
      obtain r2 m2 where "mem_Put CtxLive (secretKey ?name) (SMSecret q) (entVersion e) (smKV s) = (r2, m2)" by force
      with q c Some have "snd (UpdateSecret desc CtxLive p paths s) = s\<lparr>smKV := snd (mem_Put CtxLive (secretKey ?name) (SMSecret q) (entVersion e) (smKV s))\<rparr>"
        by (cases r2) (simp_all add: UpdateSecret_def Let_def mem_Get_def)
      with Some c that(2) [of c "entVersion e" q] show thesis by (cases e) auto
    next
      case False
      then have "snd (UpdateSecret desc CtxLive p paths s) = s" using Some c
        by (cases "parseSecret ?name"; cases "applyMask_secret desc c p paths") (auto simp: UpdateSecret_def Let_def mem_Get_def)
      then show thesis by (rule that(1))
    qed
  qed
  then show ?thesis
  proof cases
    case (2 c i q)
    obtain m' j where p: "mem_Put CtxLive (secretKey ?name) (SMSecret q) i (smKV s) = (Ok j, m')"
        "memM m' = (memM (smKV s))(secretKey ?name \<mapsto> \<lparr>entVal = SMSecret q, entVersion = j\<rparr>)" "mem_wf m'"
      using put_present_mem [OF vault_relD(1) [OF rel] 2(1)] room by fastforce
    obtain vs where vs: "A ?name = Some vs" using vault_relD(2) [OF rel, of ?name] 2(1) by (cases "A ?name") auto
    then have "A(?name \<mapsto> vs_of A ?name) = A" by (auto simp: vs_of_def)
    with secret_record_rel [OF rel p(3,2)] p(1) 2(2) show ?thesis by simp
  qed (simp add: rel)
qed

subsection \<open>Runs\<close>

text \<open>
  What a run may not exhaust: the store's version counters, and the twelve digits of a version key.
\<close>

definition sm_room :: "sm \<Rightarrow> vault \<Rightarrow> bool" where
  "sm_room s A \<longleftrightarrow> (\<forall>k. key_room (smKV s) k) \<and> (\<forall>name vs. A name = Some vs \<longrightarrow> Suc (length vs) < 10 ^ 12)"

fun runs_in_room :: "sm_op list \<Rightarrow> sm \<Rightarrow> vault \<Rightarrow> bool" where
  "runs_in_room [] s A = True"
| "runs_in_room (x # xs) s A = (op_ok x \<and> sm_room s A \<and> runs_in_room xs (sm_step x s) (vault_step x A))"

lemma step_vault:
  assumes rel: "vault_rel (smKV s) A" and ok: "op_ok x" and room: "sm_room s A"
  shows "vault_rel (smKV (sm_step x s)) (vault_step x A)"
proof (cases x)
  case (AddOp name d c)
  show ?thesis
  proof (cases "\<exists>vs. A name = Some vs \<and> is_ok (parseSecret name) \<and> (c = None \<or> c = Some (uint (crc32c d)))")
    case True
    then obtain vs where vs: "A name = Some vs" "is_ok (parseSecret name)" "c = None \<or> c = Some (uint (crc32c d))" by blast
    have "Suc (length vs) < 10 ^ 12" using room vs(1) by (auto simp: sm_room_def)
    from add_vault [OF rel vs(2,3,1) this] vs AddOp show ?thesis by auto
  next
    case False
    have "snd (AddSecretVersion CtxLive name d c s) = s"
    proof (cases "A name")
      case None
      then have "\<not> is_ok (getSecret CtxLive name s)" using getSecret_vault [OF rel, of name] by simp
      then obtain e where "getSecret CtxLive name s = Err e" by (cases "getSecret CtxLive name s") auto
      then show ?thesis by (simp add: AddSecretVersion_def split: result.splits)
    next
      case (Some vs)
      with False show ?thesis by (cases "parseSecret name") (auto simp: AddSecretVersion_def)
    qed
    moreover have "vault_step (AddOp name d c) A = A" using False by (auto split: option.splits)
    ultimately show ?thesis using rel AddOp by simp
  qed
next
  case (SetOp name v st)
  then show ?thesis using set_vault(1) [OF rel, of name v st] ok room by (simp add: sm_room_def del: vault_step.simps)
next
  case (CreateOp parent i p)
  then show ?thesis using create_vault [OF rel, of parent i p] by (simp del: vault_step.simps)
next
  case (DeleteOp name)
  then show ?thesis using delete_vault(1) [OF rel, of name] by (simp del: vault_step.simps)
next
  case (UpdateOp desc p paths)
  then show ?thesis using update_vault [OF rel, of desc p paths] room by (simp add: sm_room_def)
qed (use rel in simp_all)

lemma run_vault:
  "vault_rel (smKV s) A \<Longrightarrow> runs_in_room xs s A \<Longrightarrow> vault_rel (smKV (fold sm_step xs s)) (fold vault_step xs A)"
  by (induction xs arbitrary: s A) (auto intro: step_vault)

lemma empty_vault: "vault_rel NewMemory (\<lambda>_. None)"
  by (simp add: vault_rel_def mem_wf_New) (simp add: NewMemory_def)

subsection \<open>What runs do to a vault\<close>

text \<open>A version only ever changes state, until it is destroyed.\<close>

definition kept :: "(version_state \<times> string) list \<Rightarrow> (version_state \<times> string) list \<Rightarrow> bool" where
  "kept vs vs' \<longleftrightarrow> length vs \<le> length vs' \<and>
     (\<forall>i<length vs. vs' ! i = (Destroyed, '''') \<or> (fst (vs ! i) \<noteq> Destroyed \<and> snd (vs' ! i) = snd (vs ! i) \<and> fst (vs' ! i) \<noteq> Destroyed))"

definition scrubbed :: "vault \<Rightarrow> bool" where
  "scrubbed A \<longleftrightarrow> (\<forall>name vs d. A name = Some vs \<longrightarrow> (Destroyed, d) \<in> set vs \<longrightarrow> d = '''')"

lemma kept_refl: "scrubbed A \<Longrightarrow> A name = Some vs \<Longrightarrow> kept vs vs"
  unfolding scrubbed_def kept_def by (metis nth_mem prod.collapse le_refl)

lemma kept_trans: "kept a b \<Longrightarrow> kept b c \<Longrightarrow> kept a c"
  unfolding kept_def by (metis fst_conv le_trans less_le_trans)

lemma vault_find_number:
  assumes "A name = Some vs" and "n < length vs" and "length vs < 10 ^ 12"
  shows "vault_find A name (itoa (int (Suc n))) = Ok n"
proof -
  have "itoa (int (Suc n)) \<noteq> LatestAlias"
    using hd_dec [of "nat (int (Suc n))"] by (auto simp: itoa_def LatestAlias_def is_digit_def simp del: of_nat_Suc nat_int)
  moreover have "parseInt (itoa (int (Suc n))) = Some (int (Suc n))"
    using assms(2,3) by (intro parseInt_itoa) (simp_all add: min_i64_def max_i64_def)
  ultimately show ?thesis using assms(1,2) by (simp add: vault_find_def Let_def)
qed

lemma vault_find_less:
  assumes "vault_find A name v = Ok i"
  shows "\<exists>vs. A name = Some vs \<and> i < length vs"
  using assms by (cases "A name") (auto simp: vault_find_def Let_def dest: newest_less split: if_splits option.splits)

lemma vault_step_cases:
  assumes "scrubbed A"
  shows "scrubbed (vault_step x A)"
    and "A name = Some vs \<Longrightarrow> x \<noteq> DeleteOp name \<Longrightarrow> \<exists>vs'. vault_step x A name = Some vs' \<and> kept vs vs'"
proof -
  have "scrubbed (vault_step x A) \<and> (\<forall>name vs. A name = Some vs \<longrightarrow> x \<noteq> DeleteOp name \<longrightarrow> (\<exists>vs'. vault_step x A name = Some vs' \<and> kept vs vs'))"
  proof (cases x)
    case (AddOp b d c)
    have "kept vs (vs @ [y])" if "A b = Some vs" for vs y
      using kept_refl [OF assms that] by (auto simp: kept_def nth_append)
    with AddOp assms kept_refl [OF assms] show ?thesis by (auto simp: scrubbed_def split: option.splits)
  next
    case (SetOp b v st)
    show ?thesis
    proof (cases "vault_find A b v")
      case (Err e)
      with SetOp assms kept_refl [OF assms] show ?thesis by auto
    next
      case (Ok i)
      then obtain vs where vs: "A b = Some vs" "i < length vs" using vault_find_less by blast
      obtain st0 d where sd: "vs ! i = (st0, d)" by force
      let ?vs = "vs[i := (st, if st = Destroyed then '''' else d)]"
      show ?thesis
      proof (cases "st0 = Destroyed")
        case True
        with SetOp Ok vs sd assms kept_refl [OF assms] show ?thesis by auto
      next
        case False
        have "kept vs ?vs"
          using kept_refl [OF assms vs(1)] False sd vs(2) by (auto simp: kept_def nth_list_update)
        moreover have "(Destroyed, y) \<in> set ?vs \<Longrightarrow> y = ''''" for y
          using assms vs(1) set_update_subset_insert [of vs i "(st, if st = Destroyed then '''' else d)"]
          by (auto simp: scrubbed_def)
        ultimately show ?thesis
          using SetOp Ok vs sd False assms kept_refl [OF assms] unfolding scrubbed_def by (auto split: if_splits)
      qed
    qed
  qed (use assms kept_refl [OF assms] in \<open>auto simp: scrubbed_def Let_def split: if_splits\<close>)
  then show "scrubbed (vault_step x A)" "A name = Some vs \<Longrightarrow> x \<noteq> DeleteOp name \<Longrightarrow> \<exists>vs'. vault_step x A name = Some vs' \<and> kept vs vs'"
    by blast+
qed

lemma run_kept:
  "scrubbed A \<Longrightarrow> A name = Some vs \<Longrightarrow> DeleteOp name \<notin> set xs \<Longrightarrow> \<exists>vs'. fold vault_step xs A name = Some vs' \<and> kept vs vs'"
proof (induction xs arbitrary: A vs)
  case (Cons x xs)
  have "x \<noteq> DeleteOp name" using Cons.prems(3) by auto
  then obtain vs1 where "vault_step x A name = Some vs1" "kept vs vs1" using vault_step_cases(2) [OF Cons.prems(1,2)] by blast
  with Cons.IH [OF vault_step_cases(1) [OF Cons.prems(1)]] Cons.prems(3) show ?case using kept_trans by fastforce
qed (simp add: kept_refl)

lemma run_scrubbed: "scrubbed A \<Longrightarrow> scrubbed (fold vault_step xs A)"
  by (induction xs arbitrary: A) (auto intro: vault_step_cases(1))

lemma run_split: "runs_in_room (xs @ ys) s A \<Longrightarrow> runs_in_room xs s A \<and> runs_in_room ys (fold sm_step xs s) (fold vault_step xs A)"
  by (induction xs arbitrary: s A) auto

lemma vault_empty_step:
  "(\<forall>d c. x \<noteq> AddOp name d c) \<Longrightarrow> A name \<in> {None, Some []} \<Longrightarrow> vault_step x A name \<in> {None, Some []}"
proof (cases x)
  case (SetOp b v st)
  assume n: "A name \<in> {None, Some []}"
  show ?thesis
  proof (cases "vault_find A b v")
    case (Ok i)
    then obtain vs where "A b = Some vs" "i < length vs" using vault_find_less by blast
    then have "b \<noteq> name" using n by auto
    with SetOp Ok n show ?thesis by (auto split: prod.splits)
  qed (use SetOp n in auto)
qed (auto simp: Let_def split: option.splits)

lemma run_empty:
  "\<forall>d c. AddOp name d c \<notin> set xs \<Longrightarrow> A name \<in> {None, Some []} \<Longrightarrow> fold vault_step xs A name \<in> {None, Some []}"
proof (induction xs arbitrary: A)
  case (Cons x xs)
  then have "vault_step x A name \<in> {None, Some []}" by (intro vault_empty_step) auto
  with Cons.IH Cons.prems(1) show ?case by simp
qed simp

lemma vault_find_empty: "A name \<in> {None, Some []} \<Longrightarrow> \<not> is_ok (vault_find A name v)"
  by (auto simp: vault_find_def Let_def split: option.splits)

subsection \<open>Short runs stay in room\<close>

definition version_bound :: "nat \<Rightarrow> smval memory \<Rightarrow> bool" where
  "version_bound n m \<longleftrightarrow> (\<forall>k e. memM m k = Some e \<longrightarrow> entVersion e \<le> n)"

lemma put_bound:
  assumes "version_bound n m"
  shows "version_bound (Suc n) (snd (mem_Put cx k v i m))"
proof -
  have b: "memM m k' = Some e \<Longrightarrow> entVersion e \<le> Suc n" for k' e
    using assms by (force simp: version_bound_def)
  have u: "memM m k = Some e \<Longrightarrow> u64 (Suc (entVersion e)) \<le> Suc n" for e
    using assms mod_less_eq_dividend [of "Suc (entVersion e)" "2 ^ 64"] unfolding u64_def version_bound_def
    by (meson Suc_le_mono le_trans)
  show ?thesis
    unfolding version_bound_def
  proof (intro allI impI)
    fix k' e assume "memM (snd (mem_Put cx k v i m)) k' = Some e"
    then show "entVersion e \<le> Suc n"
      using b u by (auto simp: mem_Put_def Let_def split: option.splits if_splits)
  qed
qed

lemma delete_bound: "version_bound n m \<Longrightarrow> version_bound n (snd (mem_Delete cx k i m))"
  unfolding version_bound_def mem_Delete_def by (auto split: option.splits if_splits)

lemma delete_versions_bound: "version_bound n m \<Longrightarrow> version_bound n (snd (delete_versions cx kvs m))"
proof (induction kvs arbitrary: m)
  case (Cons kv kvs)
  obtain r m1 where d: "mem_Delete cx (kvKey kv) 0 m = (r, m1)" by force
  have "version_bound n m1" using delete_bound [OF Cons.prems, of cx "kvKey kv" 0] d by simp
  with Cons.IH d show ?case by (cases r) simp_all
qed simp

lemma bound_mono: "version_bound n m \<Longrightarrow> version_bound (Suc n) m"
  unfolding version_bound_def by (meson le_SucI)

text \<open>Every operation writes at most one entry.\<close>

definition one_put :: "sm \<Rightarrow> sm \<Rightarrow> bool" where
  "one_put s s' \<longleftrightarrow> smKV s' = smKV s \<or> (\<exists>k v i. smKV s' = snd (mem_Put CtxLive k v i (smKV s)))"

lemma one_put_id: "one_put s s"
  by (simp add: one_put_def)

lemma one_put_mem: "mem_Put CtxLive k v i (smKV s) = (r, m) \<Longrightarrow> one_put s (s\<lparr>smKV := m\<rparr>)"
  by (auto simp: one_put_def) (metis snd_conv)

lemma one_put_ops:
  "one_put s (snd (CreateSecret CtxLive parent i p s))" "one_put s (snd (putVersion CtxLive secret n st s))"
  "one_put s (snd (replaceVersion CtxLive secret n st s))" "one_put s (snd (UpdateSecret desc CtxLive p' paths s))"
  by (auto simp: CreateSecret_def putVersion_def replaceVersion_def UpdateSecret_def Let_def intro: one_put_id one_put_mem
      split: prod.splits result.splits store_error.splits smval.splits)

lemma one_put_add: "one_put s (snd (AddSecretVersion CtxLive name d c s))"
proof -
  have "snd (AddSecretVersion CtxLive name d c s) = s \<or>
      (\<exists>n st. snd (AddSecretVersion CtxLive name d c s) = snd (putVersion CtxLive name n st s))"
    unfolding AddSecretVersion_def Let_def by (auto split: prod.splits result.splits) (metis snd_conv)+
  then show ?thesis using one_put_id one_put_ops(2) by metis
qed

lemma one_put_set: "one_put s (snd (setState CtxLive name want s))"
proof -
  have "snd (setState CtxLive name want s) = s \<or>
      (\<exists>secret n st. snd (setState CtxLive name want s) = snd (replaceVersion CtxLive secret n st s))"
    unfolding setState_def Let_def by (auto split: prod.splits result.splits) (metis snd_conv)+
  then show ?thesis using one_put_id one_put_ops(3) by metis
qed

lemma one_put_bound: "one_put s s' \<Longrightarrow> version_bound n (smKV s) \<Longrightarrow> version_bound (Suc n) (smKV s')"
  unfolding one_put_def using put_bound bound_mono by metis

lemma delete_secret_bound:
  assumes "version_bound n (smKV s)"
  shows "version_bound n (smKV (snd (DeleteSecret CtxLive name s)))"
proof -
  have "snd (DeleteSecret CtxLive name s) = s \<or> (\<exists>kvs m. m = snd (delete_versions CtxLive kvs (smKV s)) \<and>
      (smKV (snd (DeleteSecret CtxLive name s)) = m \<or> (\<exists>k. smKV (snd (DeleteSecret CtxLive name s)) = snd (mem_Delete CtxLive k 0 m))))"
    unfolding DeleteSecret_def by (auto split: prod.splits result.splits) (metis snd_conv)+
  with assms delete_versions_bound [OF assms] delete_bound show ?thesis by metis
qed

lemma step_bound: "version_bound n (smKV s) \<Longrightarrow> version_bound (Suc n) (smKV (sm_step x s))"
  by (cases x) (auto intro: one_put_bound one_put_ops one_put_add one_put_set bound_mono delete_secret_bound)

definition vault_bound :: "nat \<Rightarrow> vault \<Rightarrow> bool" where
  "vault_bound n A \<longleftrightarrow> (\<forall>name vs. A name = Some vs \<longrightarrow> length vs \<le> n)"

lemma vault_step_bound: "vault_bound n A \<Longrightarrow> vault_bound (Suc n) (vault_step x A)"
proof (cases x)
  case (SetOp b v st)
  assume A: "vault_bound n A"
  show ?thesis
  proof (cases "vault_find A b v")
    case (Ok i)
    then obtain vs where vs: "A b = Some vs" "i < length vs" using vault_find_less by blast
    with A have "length vs \<le> Suc n" by (force simp: vault_bound_def)
    with SetOp Ok A vs show ?thesis by (auto simp: vault_bound_def le_SucI split: prod.splits)
  qed (use SetOp A in \<open>auto simp: vault_bound_def le_SucI\<close>)
qed (auto simp: vault_bound_def Let_def le_SucI split: option.splits)

lemma bounded_run:
  "version_bound n (smKV s) \<Longrightarrow> vault_bound n A \<Longrightarrow> list_all op_ok xs \<Longrightarrow> n + length xs + 1 < 10 ^ 12 \<Longrightarrow> runs_in_room xs s A"
proof (induction xs arbitrary: s A n)
  case (Cons x xs)
  have "key_room (smKV s) k" for k
  proof (cases "memM (smKV s) k")
    case (Some e)
    then have "entVersion e \<le> n" using Cons.prems(1) by (simp add: version_bound_def)
    with Cons.prems(4) Some show ?thesis by (simp add: key_room_def)
  qed (simp add: key_room_def)
  moreover have "Suc (length vs) < 10 ^ 12" if "A name = Some vs" for name vs
    using Cons.prems(2,4) that by (force simp: vault_bound_def)
  ultimately have "sm_room s A" by (simp add: sm_room_def)
  with Cons.IH [OF step_bound [OF Cons.prems(1)] vault_step_bound [OF Cons.prems(2)]] Cons.prems(3,4) show ?case by simp
qed simp

lemma short_run: "list_all op_ok xs \<Longrightarrow> length xs + 1 < 10 ^ 12 \<Longrightarrow> runs_in_room xs (New_sm NewMemory t) (\<lambda>_. None)"
  by (rule bounded_run [of 0]) (auto simp: version_bound_def vault_bound_def New_sm_def NewMemory_def)

abbreviation sm_run :: "time \<Rightarrow> sm_op list \<Rightarrow> sm" where
  "sm_run t xs \<equiv> fold sm_step xs (New_sm NewMemory t)"

abbreviation vault_run :: "sm_op list \<Rightarrow> vault" where
  "vault_run xs \<equiv> fold vault_step xs (\<lambda>_. None)"

lemma sm_run_rel:
  assumes "list_all op_ok xs" and "length xs + 1 < 10 ^ 12"
  shows "vault_rel (smKV (sm_run t xs)) (vault_run xs)"
  using run_vault [OF _ short_run [OF assms]] empty_vault by (simp add: New_sm_def)

lemma vault_run_scrubbed: "scrubbed (vault_run xs)"
  by (rule run_scrubbed) (simp add: scrubbed_def)

lemma itoa_segment: "CHR ''/'' \<notin> set (itoa i)" "itoa i \<noteq> ''''"
  using dec_no_sep [of "CHR ''/''"] by (simp_all add: itoa_def)

text \<open>A number that resolves names an element of the list.\<close>

lemma vault_find_itoa:
  assumes "vault_find A name (itoa n) = Ok i"
  shows "\<exists>vs. A name = Some vs \<and> i < length vs \<and> n = int (Suc i)"
proof -
  have "itoa n \<noteq> LatestAlias"
  proof
    assume l: "itoa n = LatestAlias"
    have "is_digit (hd (itoa n)) \<or> hd (itoa n) = CHR ''-''" using hd_dec by (simp add: itoa_def)
    with l show False by (simp add: LatestAlias_def is_digit_def)
  qed
  then obtain k where k: "parseInt (itoa n) = Some k" "1 \<le> k" "k \<le> int (length (vs_of A name))" "i = nat k - 1"
    using assms by (auto simp: vault_find_def vs_of_def Let_def split: option.splits if_splits)
  have "k = n"
  proof (cases "n < 0")
    case True
    then have "k \<le> 0" using k(1) by (auto simp: parseInt_def itoa_def Let_def split: if_splits)
    with k(2) show ?thesis by simp
  next
    case False
    then show ?thesis using k(1) digit_not_sign [OF hd_dec [of "nat n"]] by (auto simp: parseInt_def itoa_def Let_def split: if_splits)
  qed
  with k show ?thesis by (cases "A name") (auto simp: vs_of_def)
qed

subsection \<open>Properties\<close>

text \<open>
  C3: the service over its key-value store refines the vault.  After any sequence of creations, deletions, new versions, state
  changes and updates, reading a version by its number or as \<open>latest\<close> gives the payload the abstract list
  of versions has there, or refuses with the same code.
\<close>

theorem secret_manager_refines_vault:
  assumes "list_all op_ok xs" and "length xs + 1 < 10 ^ 12"
    and "is_ok (parseSecret name)" and "CHR ''/'' \<notin> set v" and "v \<noteq> ''''"
  shows "answer (AccessSecretVersion CtxLive (name @ ''/versions/'' @ v) (fold sm_step xs (New_sm NewMemory t))) =
    vault_access (fold vault_step xs (\<lambda>_. None)) name v"
  by (rule access_vault [OF sm_run_rel [OF assms(1,2)] assms(3-5)])

definition demo_secret :: string where "demo_secret = ''projects/p/secrets/s''"

definition demo_ops :: "sm_op list" where
  "demo_ops = [CreateOp ''projects/p'' ''s'' None, AddOp demo_secret ''one'' None, AddOp demo_secret ''two'' None]"

lemma demo_secret_ok: "is_ok (parseSecret demo_secret)"
  by (simp add: demo_secret_def parseSecret_def)

lemma demo_ops_ok: "list_all op_ok demo_ops" by (simp add: demo_ops_def)

lemma demo_vault: "vault_run demo_ops = [demo_secret \<mapsto> [(Enabled, ''one''), (Enabled, ''two'')]]"
  using demo_secret_ok by (simp add: demo_ops_def Let_def trimPrefix_def fun_eq_iff) (simp add: demo_secret_def)

theorem secret_manager_refines_vault_witness:
  "answer (AccessSecretVersion CtxLive (demo_secret @ ''/versions/'' @ ''latest'')
     (fold sm_step (demo_ops @ [SetOp demo_secret ''2'' Disabled]) (New_sm NewMemory 0))) = Ok ''one''"
proof -
  have "vault_find [demo_secret \<mapsto> [(Enabled, ''one''), (Enabled, ''two'')]] demo_secret ''2'' = Ok 1"
    by (simp add: vault_find_def LatestAlias_def parseInt_def parse_digits_def is_digit_def dec_val_def digit_val_def)
  then have "vault_run (demo_ops @ [SetOp demo_secret ''2'' Disabled]) = [demo_secret \<mapsto> [(Enabled, ''one''), (Disabled, ''two'')]]"
    by (simp add: demo_vault)
  moreover have "list_all op_ok (demo_ops @ [SetOp demo_secret ''2'' Disabled])" using demo_ops_ok demo_secret_ok by simp
  ultimately show ?thesis
    using secret_manager_refines_vault [of "demo_ops @ [SetOp demo_secret ''2'' Disabled]" demo_secret "''latest''" 0] demo_secret_ok
    by (simp add: vault_access_def vault_find_def LatestAlias_def demo_ops_def)
qed

text \<open>
  C31: a reference to a numbered version always means the same bytes.  Once a version has been read, every later read of it
  returns the same payload or is refused because it is disabled or destroyed, as long as the secret itself is not deleted.
\<close>

theorem version_means_same_bytes:
  assumes "list_all op_ok (xs @ ys)" and "length (xs @ ys) + 1 < 10 ^ 12" and "DeleteOp name \<notin> set ys" and "is_ok (parseSecret name)"
    and "AccessSecretVersion CtxLive (name @ ''/versions/'' @ itoa n) (fold sm_step xs (New_sm NewMemory t)) = Ok a"
  shows "answer (AccessSecretVersion CtxLive (name @ ''/versions/'' @ itoa n) (fold sm_step (xs @ ys) (New_sm NewMemory t)))
    \<in> {Ok (acData a), Err FailedPrecondition}"
proof -
  have xs: "list_all op_ok xs" "length xs + 1 < 10 ^ 12" using assms(1,2) by simp_all
  note X = access_vault [OF sm_run_rel [OF xs, of t] assms(4) itoa_segment [of n]]
    and Y = access_vault [OF sm_run_rel [OF assms(1,2), of t] assms(4) itoa_segment [of n]]
  obtain i where f: "vault_find (vault_run xs) name (itoa n) = Ok i"
    using X assms(5) by (cases "vault_find (vault_run xs) name (itoa n)") (auto simp: answer_def vault_access_def)
  then obtain vs where vs: "vault_run xs name = Some vs" "i < length vs" "n = int (Suc i)" using vault_find_itoa by blast
  then have vi: "vs ! i = (Enabled, acData a)"
    using X f assms(5) by (auto simp: answer_def vault_access_def split: prod.splits if_splits)
  obtain vs' where vs': "vault_run (xs @ ys) name = Some vs'" "kept vs vs'"
    using run_kept [OF vault_run_scrubbed vs(1) assms(3)] by auto
  have len: "length vs' < 10 ^ 12" using vault_relD(3) [OF sm_run_rel [OF assms(1,2), of t] vs'(1)] by (simp add: holds_secret_def)
  have "i < length vs'" using vs'(2) vs(2) by (simp add: kept_def)
  then have "vault_find (vault_run (xs @ ys)) name (itoa n) = Ok i" using vault_find_number [of "vault_run (xs @ ys)" name vs' i] vs'(1) len vs(3) by simp
  moreover have "vs' ! i = (Destroyed, '''') \<or> snd (vs' ! i) = acData a" using vs'(2) vs(2) vi by (auto simp: kept_def)
  ultimately show ?thesis using Y vs'(1) by (auto simp: vault_access_def split: prod.splits)
qed

theorem version_means_same_bytes_witness:
  "\<exists>a. AccessSecretVersion CtxLive (demo_secret @ ''/versions/'' @ itoa 1) (fold sm_step demo_ops (New_sm NewMemory 0)) = Ok a \<and> acData a = ''one'' \<and>
    answer (AccessSecretVersion CtxLive (demo_secret @ ''/versions/'' @ itoa 1)
      (fold sm_step (demo_ops @ [SetOp demo_secret ''1'' Destroyed, AddOp demo_secret ''three'' None]) (New_sm NewMemory 0))) \<in> {Ok ''one'', Err FailedPrecondition}"
proof -
  let ?ys = "[SetOp demo_secret ''1'' Destroyed, AddOp demo_secret ''three'' None]"
  have l: "length demo_ops = 3" by (simp add: demo_ops_def)
  have ok: "list_all op_ok (demo_ops @ ?ys)" using demo_ops_ok demo_secret_ok by simp
  have "vault_find (vault_run demo_ops) demo_secret (itoa 1) = Ok 0"
    using vault_find_number [of "vault_run demo_ops" demo_secret "[(Enabled, ''one''), (Enabled, ''two'')]" 0] by (simp add: demo_vault)
  then have "answer (AccessSecretVersion CtxLive (demo_secret @ ''/versions/'' @ itoa 1) (sm_run 0 demo_ops)) = Ok ''one''"
    using access_vault [OF sm_run_rel [OF demo_ops_ok, of 0] demo_secret_ok itoa_segment [of 1]] l by (simp add: vault_access_def demo_vault)
  then obtain a where a: "AccessSecretVersion CtxLive (demo_secret @ ''/versions/'' @ itoa 1) (sm_run 0 demo_ops) = Ok a" "acData a = ''one''"
    by (cases "AccessSecretVersion CtxLive (demo_secret @ ''/versions/'' @ itoa 1) (sm_run 0 demo_ops)") (auto simp: answer_def)
  from version_means_same_bytes [OF ok _ _ demo_secret_ok a(1)] a l show ?thesis by simp
qed

text \<open>
  C29: a deleted secret does not come back with its values.  After a successful \<open>DeleteSecret\<close>, and whatever
  else happens, creating the name again included, no version of it can be read until one is added.
\<close>

theorem deleted_secret_has_no_versions:
  assumes "list_all op_ok (xs @ DeleteOp name # ys)" and "length (xs @ DeleteOp name # ys) + 1 < 10 ^ 12"
    and "is_ok (fst (DeleteSecret CtxLive name (fold sm_step xs (New_sm NewMemory t))))"
    and "\<forall>d c. AddOp name d c \<notin> set ys" and "CHR ''/'' \<notin> set v" and "v \<noteq> ''''"
  shows "\<not> is_ok (AccessSecretVersion CtxLive (name @ ''/versions/'' @ v) (fold sm_step (xs @ DeleteOp name # ys) (New_sm NewMemory t)))"
proof -
  have xs: "list_all op_ok xs" "length xs + 1 < 10 ^ 12" using assms(1,2) by simp_all
  have wf: "is_ok (parseSecret name)" using delete_vault(2) [OF sm_run_rel [OF xs, of t], of name] assms(3) by simp
  then have "vault_run (xs @ [DeleteOp name]) name = None" by simp
  then have "vault_run (xs @ DeleteOp name # ys) name \<in> {None, Some []}"
    using run_empty [OF assms(4), of "vault_run (xs @ [DeleteOp name])"] by simp
  then have "\<not> is_ok (vault_find (vault_run (xs @ DeleteOp name # ys)) name v)" by (rule vault_find_empty)
  then obtain c where "vault_find (vault_run (xs @ DeleteOp name # ys)) name v = Err c"
    by (cases "vault_find (vault_run (xs @ DeleteOp name # ys)) name v") auto
  then have "answer (AccessSecretVersion CtxLive (name @ ''/versions/'' @ v) (sm_run t (xs @ DeleteOp name # ys))) = Err c"
    using access_vault [OF sm_run_rel [OF assms(1,2), of t] wf assms(5,6)] by (simp add: vault_access_def)
  then show ?thesis
    by (cases "AccessSecretVersion CtxLive (name @ ''/versions/'' @ v) (sm_run t (xs @ DeleteOp name # ys))") (auto simp: answer_def)
qed

theorem deleted_secret_has_no_versions_witness:
  "is_ok (fst (DeleteSecret CtxLive demo_secret (fold sm_step demo_ops (New_sm NewMemory 0)))) \<and>
   \<not> is_ok (AccessSecretVersion CtxLive (demo_secret @ ''/versions/'' @ ''1'')
        (fold sm_step (demo_ops @ DeleteOp demo_secret # [CreateOp ''projects/p'' ''s'' None]) (New_sm NewMemory 0)))"
proof -
  have l: "length demo_ops = 3" by (simp add: demo_ops_def)
  have d: "is_ok (fst (DeleteSecret CtxLive demo_secret (sm_run 0 demo_ops)))"
    using delete_vault(2) [OF sm_run_rel [OF demo_ops_ok, of 0], of demo_secret] demo_secret_ok l by (simp add: demo_vault)
  have "list_all op_ok (demo_ops @ DeleteOp demo_secret # [CreateOp ''projects/p'' ''s'' None])" using demo_ops_ok by simp
  from deleted_secret_has_no_versions [OF this _ d, of "''1''"] d l show ?thesis by simp
qed

lemma decode_versions_names:
  "(\<And>k. k \<in> set ks \<Longrightarrow> \<exists>v. kvVal (kv_at m k) = SMVersion v \<and> svName (stVersion v) = f k) \<Longrightarrow>
   \<exists>us. decode_versions (map (kv_at m) ks) = Ok us \<and> map svName us = map f ks"
proof (induction ks)
  case (Cons k ks)
  obtain v where "kvVal (kv_at m k) = SMVersion v" "svName (stVersion v) = f k" using Cons.prems by auto
  with Cons show ?case by fastforce
qed simp

lemma versions_vault:
  assumes rel: "vault_rel (smKV s) A" and wf: "parseSecret name = Ok r"
  shows "\<exists>us. versions CtxLive name s = Ok us \<and> map svName us = map (\<lambda>i. name @ ''/versions/'' @ itoa (int (Suc i))) [0..<length (vs_of A name)]"
proof -
  let ?m = "smKV s" and ?f = "\<lambda>k. SOME x. \<exists>i. k = versionKey name (int (Suc i)) \<and> x = name @ ''/versions/'' @ itoa (int (Suc i))"
  let ?ks = "map (\<lambda>i. versionKey name (int (Suc i))) [0..<length (vs_of A name)]"
  have f: "?f (versionKey name (int (Suc i))) = name @ ''/versions/'' @ itoa (int (Suc i))" for i
    by (rule some_equality) (auto simp: versionKey_eq simp del: of_nat_Suc)
  have "\<exists>v. kvVal (kv_at ?m k) = SMVersion v \<and> svName (stVersion v) = ?f k" if k: "k \<in> set ?ks" for k
  proof -
    obtain i where i: "i < length (vs_of A name)" "k = versionKey name (int (Suc i))" using k by auto
    then have "holds_version ?m name (Suc i) (vs_of A name ! i)"
      using vault_relD(3) [OF rel] by (auto simp: vs_of_def holds_secret_def split: option.splits)
    then show ?thesis unfolding i(2) f by (auto simp: holds_version_def kv_at_Some simp del: of_nat_Suc)
  qed
  then obtain us where us: "decode_versions (map (kv_at ?m) ?ks) = Ok us" "map svName us = map ?f ?ks"
    using decode_versions_names [of ?ks ?m ?f] by blast
  have "map ?f ?ks = map (\<lambda>i. name @ ''/versions/'' @ itoa (int (Suc i))) [0..<length (vs_of A name)]"
    by (simp only: map_map comp_def f)
  with us list_all_entries [OF vault_relD(1) [OF rel], of "versionPrefix name"] listed_versions [OF rel wf] show ?thesis
    by (auto simp: versions_def simp del: of_nat_Suc)
qed

lemma append_le_iff: "(s @ t \<le> s @ u) \<longleftrightarrow> (t \<le> (u :: string))"
  by (induction s) auto

text \<open>
  \<open>ListSecretVersions\<close> sorts by name as text, so although the listing is newest first the tenth version comes
  after the ninth.
\<close>

theorem tenth_version_listed_after_ninth:
  assumes "ListSecretVersions CtxLive name s = Ok (vs, n)"
    and "i < length vs" and "svName (vs ! i) = name @ ''/versions/9''" and "j < length vs" and "svName (vs ! j) = name @ ''/versions/10''"
  shows "i < j"
proof (rule ccontr)
  assume "\<not> i < j"
  moreover have "i \<noteq> j" using assms(3,5) by auto
  ultimately have ji: "j < i" by simp
  obtain us where us: "vs = rev (sort_key svName us)"
    using assms(1) by (auto simp: ListSecretVersions_def split: result.splits)
  have "sorted (rev (map svName vs))" using sorted_sort_key [of svName us] by (simp add: us rev_map)
  then have "svName (vs ! i) \<le> svName (vs ! j)" using sorted_rev_nth_mono [of "map svName vs" j i] ji assms(2,4) by simp
  then have "''9'' \<le> ''10''" unfolding assms(3,5) by (simp add: append_le_iff)
  then show False by simp
qed

theorem tenth_version_listed_after_ninth_witness:
  "\<exists>vs n i j. ListSecretVersions CtxLive demo_secret
       (fold sm_step (CreateOp ''projects/p'' ''s'' None # replicate 10 (AddOp demo_secret ''x'' None)) (New_sm NewMemory 0)) = Ok (vs, n) \<and>
     i < j \<and> j < length vs \<and> svName (vs ! i) = demo_secret @ ''/versions/9'' \<and> svName (vs ! j) = demo_secret @ ''/versions/10''"
proof -
  let ?xs = "CreateOp ''projects/p'' ''s'' None # replicate 10 (AddOp demo_secret ''x'' None)"
  let ?A = "vault_run ?xs" and ?s = "sm_run 0 ?xs"
  have rel: "vault_rel (smKV ?s) ?A" by (rule sm_run_rel) (simp_all add: list_all_iff)
  obtain r where r: "parseSecret demo_secret = Ok r" using demo_secret_ok by (cases "parseSecret demo_secret") auto
  have c: "vault_step (CreateOp ''projects/p'' ''s'' None) (\<lambda>_. None) = [demo_secret \<mapsto> []]"
    by (simp add: trimPrefix_def demo_secret_def fun_eq_iff)
  have "fold vault_step (replicate k (AddOp demo_secret ''x'' None)) [demo_secret \<mapsto> vs] = [demo_secret \<mapsto> vs @ replicate k (Enabled, ''x'')]" for k vs
    using demo_secret_ok by (induction k arbitrary: vs) simp_all
  from this [of 10 "[]"] have A: "?A demo_secret = Some (replicate 10 (Enabled, ''x''))" using c by simp
  obtain us where us: "versions CtxLive demo_secret ?s = Ok us"
      "map svName us = map (\<lambda>i. demo_secret @ ''/versions/'' @ itoa (int (Suc i))) [0..<10]"
    using versions_vault [OF rel r] A by (auto simp: vs_of_def)
  obtain p where g: "getSecret CtxLive demo_secret ?s = Ok p"
    using getSecret_vault [OF rel, of demo_secret] A by (cases "getSecret CtxLive demo_secret ?s") auto
  let ?vs = "rev (sort_key svName us)"
  have l: "ListSecretVersions CtxLive demo_secret ?s = Ok (?vs, i32 (int (length us)))" by (simp only: ListSecretVersions_def us(1) g result.case)
  have "svName ` set us = set (map svName us)" by simp
  then have names: "svName ` set ?vs = (\<lambda>i. demo_secret @ ''/versions/'' @ itoa (int (Suc i))) ` {0..<10}" by (simp add: us(2))
  have d: "itoa 9 = ''9''" "itoa 10 = ''10''" by (simp_all add: itoa_def dec.simps digit_char_def char_of_def bit_iff_odd)
  have "demo_secret @ ''/versions/9'' \<in> svName ` set ?vs" unfolding names by (rule image_eqI [of _ _ 8]) (simp_all add: d)
  moreover have "demo_secret @ ''/versions/10'' \<in> svName ` set ?vs" unfolding names by (rule image_eqI [of _ _ 9]) (simp_all add: d)
  ultimately obtain a b where ab: "a \<in> set ?vs" "svName a = demo_secret @ ''/versions/9''" "b \<in> set ?vs" "svName b = demo_secret @ ''/versions/10''"
    unfolding image_iff by metis
  obtain i where i: "i < length ?vs" "?vs ! i = a" using ab(1) in_set_conv_nth by metis
  obtain j where j: "j < length ?vs" "?vs ! j = b" using ab(3) in_set_conv_nth by metis
  have ij: "i < length ?vs" "svName (?vs ! i) = demo_secret @ ''/versions/9''" "j < length ?vs" "svName (?vs ! j) = demo_secret @ ''/versions/10''"
    using i j ab(2,4) by simp_all
  from tenth_version_listed_after_ninth [OF l ij] l ij show ?thesis by blast
qed

end
