(* ===== verification/Comparison.thy ===== *)
theory Comparison
  imports Main "HOL-Library.Multiset"
begin

text \<open>
  Three-way comparison functions as Go writes them (negative, zero, positive), the contract they have to satisfy, and the
  stable sort of package \<open>sort\<close>, proved correct once for every such function.
\<close>

subsection \<open>sort.SliceStable\<close>

fun insert_stable :: "('a \<Rightarrow> 'a \<Rightarrow> bool) \<Rightarrow> 'a \<Rightarrow> 'a list \<Rightarrow> 'a list" where
  "insert_stable lt x [] = [x]"
| "insert_stable lt x (y # ys) = (if lt y x then y # insert_stable lt x ys else x # y # ys)"

text \<open>The later of two elements that tie stays later: elements are inserted from the back.\<close>

definition sliceStable :: "('a \<Rightarrow> 'a \<Rightarrow> bool) \<Rightarrow> 'a list \<Rightarrow> 'a list" where
  "sliceStable lt xs = foldr (insert_stable lt) xs []"

lemma mset_insert_stable: "mset (insert_stable lt x ys) = add_mset x (mset ys)"
  by (induction ys) auto

lemma mset_sliceStable [simp]: "mset (sliceStable lt xs) = mset xs"
  by (induction xs) (simp_all add: sliceStable_def mset_insert_stable)

lemma set_sliceStable [simp]: "set (sliceStable lt xs) = set xs"
  by (metis mset_sliceStable set_mset_mset)

lemma insert_stable_cong:
  "(\<And>y. y \<in> set ys \<Longrightarrow> lt y x = lt' y x) \<Longrightarrow> insert_stable lt x ys = insert_stable lt' x ys"
  by (induction ys) auto

lemma sliceStable_cong:
  "(\<And>x y. x \<in> set xs \<Longrightarrow> y \<in> set xs \<Longrightarrow> lt x y = lt' x y) \<Longrightarrow> sliceStable lt xs = sliceStable lt' xs"
proof (induction xs)
  case (Cons x xs)
  then have "sliceStable lt xs = sliceStable lt' xs" by simp
  moreover have "insert_stable lt x (sliceStable lt xs) = insert_stable lt' x (sliceStable lt xs)"
    by (rule insert_stable_cong) (use Cons.prems in auto)
  ultimately show ?case by (simp add: sliceStable_def)
qed (simp add: sliceStable_def)

subsection \<open>The contract of a comparison\<close>

locale comparison =
  fixes cmp :: "'a \<Rightarrow> 'a \<Rightarrow> int"
  assumes cmp_refl: "cmp x x = 0"
    and cmp_flip: "cmp y x = - cmp x y"
    and cmp_trans: "cmp x y \<le> 0 \<Longrightarrow> cmp y z \<le> 0 \<Longrightarrow> cmp x z \<le> 0"
begin

lemma cmp_total: "cmp x y \<le> 0 \<or> cmp y x \<le> 0"
  using cmp_flip [of y x] by linarith

lemma cmp_less_trans: "cmp x y < 0 \<Longrightarrow> cmp y z \<le> 0 \<Longrightarrow> cmp x z < 0"
  using cmp_flip [of x y] cmp_flip [of x z] cmp_trans [of y z x] by linarith

lemma cmp_trans_less: "cmp x y \<le> 0 \<Longrightarrow> cmp y z < 0 \<Longrightarrow> cmp x z < 0"
  using cmp_flip [of y z] cmp_flip [of x z] cmp_trans [of z x y] by linarith

lemma cmp_eq_trans: "cmp x y = 0 \<Longrightarrow> cmp y z = 0 \<Longrightarrow> cmp x z = 0"
  using cmp_trans [of x y z] cmp_trans [of z y x] cmp_flip [of x y] cmp_flip [of y z] cmp_flip [of x z] by linarith

lemma insert_sorted:
  assumes "sorted_wrt (\<lambda>x y. cmp x y \<le> 0) ys"
  shows "sorted_wrt (\<lambda>x y. cmp x y \<le> 0) (insert_stable (\<lambda>a b. cmp a b < 0) x ys)"
  using assms
proof (induction ys)
  case (Cons y ys)
  have s: "set (insert_stable (\<lambda>a b. cmp a b < 0) x ys) = insert x (set ys)"
    by (metis mset_insert_stable set_mset_add_mset_insert set_mset_mset)
  show ?case
  proof (cases "cmp y x < 0")
    case True
    with Cons s show ?thesis by auto
  next
    case False
    then have xy: "cmp x y \<le> 0" using cmp_flip [of x y] by simp
    then have "\<forall>z\<in>set ys. cmp x z \<le> 0" using Cons.prems cmp_trans by auto
    with False xy Cons.prems show ?thesis by simp
  qed
qed simp

lemma sort_sorted: "sorted_wrt (\<lambda>x y. cmp x y \<le> 0) (sliceStable (\<lambda>a b. cmp a b < 0) xs)"
  by (induction xs) (auto simp: sliceStable_def intro: insert_sorted)

text \<open>Elements that tie keep the order they came in.\<close>

lemma insert_lex:
  assumes "sorted_wrt (\<lambda>x y. cmp x y < 0 \<or> cmp x y = 0 \<and> R x y) ys" and "\<forall>y\<in>set ys. R x y"
  shows "sorted_wrt (\<lambda>x y. cmp x y < 0 \<or> cmp x y = 0 \<and> R x y) (insert_stable (\<lambda>a b. cmp a b < 0) x ys)"
  using assms
proof (induction ys)
  case (Cons y ys)
  have s: "set (insert_stable (\<lambda>a b. cmp a b < 0) x ys) = insert x (set ys)"
    by (metis mset_insert_stable set_mset_add_mset_insert set_mset_mset)
  show ?case
  proof (cases "cmp y x < 0")
    case True
    with Cons s show ?thesis by auto
  next
    case False
    then have xy: "cmp x y \<le> 0" using cmp_flip [of x y] by simp
    have "cmp x z \<le> 0" if "z \<in> set ys" for z using Cons.prems(1) that xy cmp_trans [of x y z] by auto
    with False xy Cons.prems show ?thesis by force
  qed
qed simp

lemma sort_stable: "filter (\<lambda>y. cmp x y = 0) (sliceStable (\<lambda>a b. cmp a b < 0) xs) = filter (\<lambda>y. cmp x y = 0) xs"
proof (induction xs)
  case (Cons a xs)
  have "filter (\<lambda>y. cmp x y = 0) (insert_stable (\<lambda>a b. cmp a b < 0) a ys) = filter (\<lambda>y. cmp x y = 0) (a # ys)" for ys
  proof (induction ys)
    case (Cons y ys)
    have "cmp x y \<noteq> 0" if "cmp y a < 0" "cmp x a = 0" using that cmp_eq_trans [of y x a] cmp_flip [of x y] by auto
    with Cons show ?case by auto
  qed simp
  with Cons show ?case by (simp add: sliceStable_def)
qed (simp add: sliceStable_def)

lemma sort_lex:
  "sorted_wrt R xs \<Longrightarrow> sorted_wrt (\<lambda>x y. cmp x y < 0 \<or> cmp x y = 0 \<and> R x y) (sliceStable (\<lambda>a b. cmp a b < 0) xs)"
proof (induction xs)
  case (Cons x xs)
  then have "\<forall>y\<in>set (sliceStable (\<lambda>a b. cmp a b < 0) xs). R x y" by simp
  with insert_lex [OF Cons.IH this] Cons.prems show ?case by (simp add: sliceStable_def)
qed (simp add: sliceStable_def)

end

text \<open>Turned around, a comparison is one too; so is the first of two that does not tie.\<close>

definition cmp_rev :: "('a \<Rightarrow> 'a \<Rightarrow> int) \<Rightarrow> 'a \<Rightarrow> 'a \<Rightarrow> int" where
  "cmp_rev cmp x y = - cmp x y"

definition cmp_then :: "('a \<Rightarrow> 'a \<Rightarrow> int) \<Rightarrow> ('a \<Rightarrow> 'a \<Rightarrow> int) \<Rightarrow> 'a \<Rightarrow> 'a \<Rightarrow> int" where
  "cmp_then c d x y = (if c x y \<noteq> 0 then c x y else d x y)"

lemma comparison_rev:
  assumes "comparison c"
  shows "comparison (cmp_rev c)"
proof -
  note L = comparison.cmp_refl [OF assms] comparison.cmp_flip [OF assms] comparison.cmp_trans [OF assms]
  show ?thesis
  proof
    fix x y z
    show "cmp_rev c x x = 0" by (simp add: cmp_rev_def L(1))
    show "cmp_rev c y x = - cmp_rev c x y" by (simp add: cmp_rev_def L(2) [of y x])
    assume "cmp_rev c x y \<le> 0" "cmp_rev c y z \<le> 0"
    then show "cmp_rev c x z \<le> 0" using L(3) [of z y x] L(2) [of x y] L(2) [of y z] L(2) [of x z] by (simp add: cmp_rev_def)
  qed
qed

lemma comparison_then:
  assumes c: "comparison c" and d: "comparison d"
  shows "comparison (cmp_then c d)"
proof
  fix x y z
  show "cmp_then c d x x = 0" by (simp add: cmp_then_def comparison.cmp_refl [OF c] comparison.cmp_refl [OF d])
  show "cmp_then c d y x = - cmp_then c d x y"
    using comparison.cmp_flip [OF c, of y x] comparison.cmp_flip [OF d, of y x] by (simp add: cmp_then_def)
  assume h: "cmp_then c d x y \<le> 0" "cmp_then c d y z \<le> 0"
  consider "c x y < 0" "c y z \<le> 0" | "c x y \<le> 0" "c y z < 0" | "c x y = 0" "d x y \<le> 0" "c y z = 0" "d y z \<le> 0"
    using h by (auto simp: cmp_then_def split: if_splits)
  then show "cmp_then c d x z \<le> 0"
  proof cases
    case 1
    then show ?thesis using comparison.cmp_less_trans [OF c, of x y z] by (simp add: cmp_then_def)
  next
    case 2
    then show ?thesis using comparison.cmp_trans_less [OF c, of x y z] by (simp add: cmp_then_def)
  next
    case 3
    then show ?thesis
      using comparison.cmp_eq_trans [OF c, of x y z] comparison.cmp_trans [OF d, of x y z] by (simp add: cmp_then_def)
  qed
qed

lemma comparison_key:
  assumes "comparison c"
  shows "comparison (\<lambda>x y. c (f x) (f y))"
proof
  fix x y z
  show "c (f x) (f x) = 0" "c (f y) (f x) = - c (f x) (f y)"
    using comparison.cmp_refl [OF assms] comparison.cmp_flip [OF assms] by blast+
  show "c (f x) (f y) \<le> 0 \<Longrightarrow> c (f y) (f z) \<le> 0 \<Longrightarrow> c (f x) (f z) \<le> 0" by (rule comparison.cmp_trans [OF assms])
qed

end
