(* ===== verification/Firestore_Values.thy ===== *)
theory Firestore_Values
  imports Comparison Float64 Gerr "HOL-Library.AList"
begin

text \<open>
  Firestore values (\<open>services/firestore/value.go\<close>, \<open>path.go\<close>, \<open>filter.go\<close>): the order of values of
  all types, field paths, and filters.  A Go map from field names to values is an association list; what is read of it
  is its \<open>map_of\<close>.
\<close>

subsection \<open>Values and their order (value.go)\<close>

datatype fval =
    FNull
  | FBool bool
  | FInt int
  | FDouble double
  | FTime time
  | FStr string
  | FBytes string
  | FRef string
  | FGeo double double
  | FArr "fval list"
  | FMap "(string \<times> fval) list"

type_synonym fields = "(string \<times> fval) list"

fun rank :: "fval \<Rightarrow> int" where
  "rank FNull = 0"
| "rank (FBool _) = 1"
| "rank (FInt _) = 2"
| "rank (FDouble _) = 2"
| "rank (FTime _) = 3"
| "rank (FStr _) = 4"
| "rank (FBytes _) = 5"
| "rank (FRef _) = 6"
| "rank (FGeo _ _) = 7"
| "rank (FArr _) = 8"
| "rank (FMap _) = 9"

fun numberOf :: "fval \<Rightarrow> double" where
  "numberOf (FInt i) = double_of_int i"
| "numberOf (FDouble d) = d"
| "numberOf _ = Finite (Fl 0 0)"

definition sign :: "int \<Rightarrow> int" where
  "sign n = (if n < 0 then -1 else if 0 < n then 1 else 0)"

definition compareBool :: "bool \<Rightarrow> bool \<Rightarrow> int" where
  "compareBool a b = (if a = b then 0 else if b then -1 else 1)"

text \<open>\<open>strings.Compare\<close>, \<open>bytes.Compare\<close> and \<open>time.Time.Compare\<close>.\<close>

definition cmp_ord :: "'a :: linorder \<Rightarrow> 'a \<Rightarrow> int" where
  "cmp_ord a b = (if a < b then -1 else if b < a then 1 else 0)"

definition compare_double :: "double \<Rightarrow> double \<Rightarrow> int" where
  "compare_double x y =
     (if isNaN_double x \<and> isNaN_double y then 0
      else if isNaN_double x then -1
      else if isNaN_double y then 1
      else if double_less x y then -1
      else if double_less y x then 1
      else 0)"

fun compare :: "fval \<Rightarrow> fval \<Rightarrow> int" and compareArrays :: "fval list \<Rightarrow> fval list \<Rightarrow> int" where
  "compare a b =
     (if rank a \<noteq> rank b then sign (rank a - rank b)
      else case (a, b) of
        (FBool x, FBool y) \<Rightarrow> compareBool x y
      | (FTime x, FTime y) \<Rightarrow> cmp_ord x y
      | (FStr x, FStr y) \<Rightarrow> cmp_ord x y
      | (FBytes x, FBytes y) \<Rightarrow> cmp_ord x y
      | (FRef x, FRef y) \<Rightarrow> cmp_ord x y
      | (FArr x, FArr y) \<Rightarrow> compareArrays x y
      | _ \<Rightarrow> if rank a = 2 then compare_double (numberOf a) (numberOf b) else 0)"
| "compareArrays [] [] = 0"
| "compareArrays [] (y # ys) = -1"
| "compareArrays (x # xs) [] = 1"
| "compareArrays (x # xs) (y # ys) = (let c = compare x y in if c \<noteq> 0 then c else compareArrays xs ys)"

declare compare.simps [simp del]

record fdoc =
  fdName :: string
  fdFields :: fields
  fdCreate :: time
  fdUpdate :: time

subsection \<open>Field paths (path.go)\<close>

definition splitPath :: "string \<Rightarrow> string list" where
  "splitPath path = split_on (CHR ''.'') path"

fun lookup_segs :: "fields \<Rightarrow> string list \<Rightarrow> fval option" where
  "lookup_segs fs [] = None"
| "lookup_segs fs [seg] = map_of fs seg"
| "lookup_segs fs (seg # segs) =
     (case map_of fs seg of Some (FMap m) \<Rightarrow> lookup_segs m segs | _ \<Rightarrow> None)"

definition lookup :: "fields \<Rightarrow> string \<Rightarrow> fval option" where
  "lookup fs path = lookup_segs fs (splitPath path)"

fun set_segs :: "fields \<Rightarrow> string list \<Rightarrow> fval \<Rightarrow> fields" where
  "set_segs fs [] v = fs"
| "set_segs fs [seg] v = AList.update seg v fs"
| "set_segs fs (seg # segs) v =
     (case map_of fs seg of
        Some (FMap m) \<Rightarrow> AList.update seg (FMap (set_segs m segs v)) fs
      | _ \<Rightarrow> AList.update seg (FMap (set_segs [] segs v)) fs)"

definition setPath :: "fields \<Rightarrow> string \<Rightarrow> fval \<Rightarrow> fields" where
  "setPath fs path v = set_segs fs (splitPath path) v"

fun delete_segs :: "fields \<Rightarrow> string list \<Rightarrow> fields" where
  "delete_segs fs [] = fs"
| "delete_segs fs [seg] = AList.delete seg fs"
| "delete_segs fs (seg # segs) =
     (case map_of fs seg of
        Some (FMap m) \<Rightarrow> AList.update seg (FMap (delete_segs m segs)) fs
      | _ \<Rightarrow> fs)"

definition deletePath :: "fields \<Rightarrow> string \<Rightarrow> fields" where
  "deletePath fs path = delete_segs fs (splitPath path)"

definition fieldOf :: "fdoc \<Rightarrow> string \<Rightarrow> fval option" where
  "fieldOf doc path = (if path = ''__name__'' then Some (FRef (fdName doc)) else lookup (fdFields doc) path)"

subsection \<open>Filters (filter.go)\<close>

datatype field_op = OpLess | OpLessEq | OpGreater | OpGreaterEq | OpEqual | OpNotEqual
  | OpArrayContains | OpIn | OpArrayContainsAny | OpNotIn | OpFieldUnspecified

datatype unary_op = OpIsNaN | OpIsNull | OpIsNotNaN | OpIsNotNull | OpUnaryUnspecified

datatype composite_op = OpAnd | OpOr | OpCompositeUnspecified

datatype ffilter =
    CompositeFilter composite_op "ffilter list"
  | FieldFilter string field_op fval
  | UnaryFilter string unary_op
  | NoFilterType

definition anyEqual :: "fval list \<Rightarrow> fval \<Rightarrow> bool" where
  "anyEqual haystack needle = (\<exists>v\<in>set haystack. compare v needle = 0)"

fun arrayOf :: "fval \<Rightarrow> fval list" where
  "arrayOf (FArr vs) = vs"
| "arrayOf _ = []"

definition isNaN :: "fval \<Rightarrow> bool" where
  "isNaN v = (rank v = 2 \<and> isNaN_double (numberOf v))"

definition matchField :: "fdoc \<Rightarrow> string \<Rightarrow> field_op \<Rightarrow> fval \<Rightarrow> (rpc_error, bool) result" where
  "matchField doc path fop want =
     (case fieldOf doc path of
        None \<Rightarrow> Ok False
      | Some got \<Rightarrow>
          (case fop of
             OpEqual \<Rightarrow> Ok (compare got want = 0)
           | OpNotEqual \<Rightarrow> Ok (compare got want \<noteq> 0)
           | OpLess \<Rightarrow> Ok (compare got want < 0)
           | OpLessEq \<Rightarrow> Ok (compare got want \<le> 0)
           | OpGreater \<Rightarrow> Ok (0 < compare got want)
           | OpGreaterEq \<Rightarrow> Ok (0 \<le> compare got want)
           | OpIn \<Rightarrow> Ok (anyEqual (arrayOf want) got)
           | OpNotIn \<Rightarrow> Ok (\<not> anyEqual (arrayOf want) got)
           | OpArrayContains \<Rightarrow> Ok (anyEqual (arrayOf got) want)
           | OpArrayContainsAny \<Rightarrow> Ok (\<exists>candidate\<in>set (arrayOf want). anyEqual (arrayOf got) candidate)
           | OpFieldUnspecified \<Rightarrow> Err (Errorf Unimplemented ''unsupported operator %s'' [''OPERATOR_UNSPECIFIED''])))"

definition matchUnary :: "fdoc \<Rightarrow> string \<Rightarrow> unary_op \<Rightarrow> (rpc_error, bool) result" where
  "matchUnary doc path uop =
     (let got = fieldOf doc path
      in case uop of
           OpIsNull \<Rightarrow> Ok (case got of None \<Rightarrow> False | Some v \<Rightarrow> rank v = 0)
         | OpIsNotNull \<Rightarrow> Ok (case got of None \<Rightarrow> False | Some v \<Rightarrow> rank v \<noteq> 0)
         | OpIsNaN \<Rightarrow> Ok (case got of None \<Rightarrow> False | Some v \<Rightarrow> isNaN v)
         | OpIsNotNaN \<Rightarrow> Ok (case got of None \<Rightarrow> False | Some v \<Rightarrow> \<not> isNaN v)
         | OpUnaryUnspecified \<Rightarrow> Err (Errorf Unimplemented ''unsupported unary operator %s'' [''OPERATOR_UNSPECIFIED'']))"

fun matches :: "fdoc \<Rightarrow> ffilter \<Rightarrow> (rpc_error, bool) result"
  and match_and :: "fdoc \<Rightarrow> ffilter list \<Rightarrow> (rpc_error, bool) result"
  and match_or :: "fdoc \<Rightarrow> ffilter list \<Rightarrow> (rpc_error, bool) result" where
  "matches doc (CompositeFilter OpAnd fs) = match_and doc fs"
| "matches doc (CompositeFilter OpOr fs) = match_or doc fs"
| "matches doc (CompositeFilter OpCompositeUnspecified fs) = Err (Errorf Unimplemented ''unsupported composite operator'' [])"
| "matches doc (FieldFilter path fop want) = matchField doc path fop want"
| "matches doc (UnaryFilter path uop) = matchUnary doc path uop"
| "matches doc NoFilterType = Err (Errorf Unimplemented ''unsupported filter'' [])"
| "match_and doc [] = Ok True"
| "match_and doc (f # fs) =
     (case matches doc f of Err e \<Rightarrow> Err e | Ok False \<Rightarrow> Ok False | Ok True \<Rightarrow> match_and doc fs)"
| "match_or doc [] = Ok False"
| "match_or doc (f # fs) =
     (case matches doc f of Err e \<Rightarrow> Err e | Ok True \<Rightarrow> Ok True | Ok False \<Rightarrow> match_or doc fs)"

text \<open>A query with no \<open>where\<close> clause matches everything.\<close>

definition matches_opt :: "fdoc \<Rightarrow> ffilter option \<Rightarrow> (rpc_error, bool) result" where
  "matches_opt doc f = (case f of None \<Rightarrow> Ok True | Some f \<Rightarrow> matches doc f)"

subsection \<open>The order is a total preorder\<close>

lemma cmp_ord_laws:
  "cmp_ord x x = 0" "cmp_ord y x = - cmp_ord x y" "cmp_ord x y \<le> 0 \<Longrightarrow> cmp_ord y z \<le> 0 \<Longrightarrow> cmp_ord x z \<le> 0"
  by (auto simp: cmp_ord_def split: if_splits)

lemma compareBool_laws:
  "compareBool x x = 0" "compareBool y x = - compareBool x y" "compareBool x y \<le> 0 \<Longrightarrow> compareBool y z \<le> 0 \<Longrightarrow> compareBool x z \<le> 0"
  by (auto simp: compareBool_def split: if_splits)

lemma compare_double_laws:
  "compare_double x x = 0" "compare_double y x = - compare_double x y"
  "compare_double x y \<le> 0 \<Longrightarrow> compare_double y z \<le> 0 \<Longrightarrow> compare_double x z \<le> 0"
proof -
  show "compare_double x x = 0" using double_less_asym [of x x] by (auto simp: compare_double_def)
  show "compare_double y x = - compare_double x y" using double_less_asym [of x y] by (auto simp: compare_double_def)
  assume *: "compare_double x y \<le> 0" "compare_double y z \<le> 0"
  show "compare_double x z \<le> 0"
  proof (cases "x = NaN \<or> y = NaN \<or> z = NaN")
    case False
    then have "\<not> double_less y x" "\<not> double_less z y"
      using * double_less_asym by (auto simp: compare_double_def isNaN_double_def split: if_splits)
    then have "\<not> double_less z x" using double_less_weak_trans [of z y x] False by auto
    with False show ?thesis by (auto simp: compare_double_def isNaN_double_def)
  qed (use * in \<open>auto simp: compare_double_def isNaN_double_def split: if_splits\<close>)
qed

lemma compare_arrays: "compare (FArr xs) (FArr ys) = compareArrays xs ys"
  by (simp add: compare.simps)

text \<open>Values that are no arrays are ordered by rank and, within a rank, by one of the orders above.\<close>

fun flat :: "fval \<Rightarrow> bool" where
  "flat (FArr _) = False"
| "flat _ = True"

lemma compare_rank: "rank a \<noteq> rank b \<Longrightarrow> compare a b = sign (rank a - rank b)"
  by (simp add: compare.simps)

fun bool_part :: "fval \<Rightarrow> bool" where
  "bool_part (FBool x) = x" | "bool_part _ = False"

fun time_part :: "fval \<Rightarrow> time" where
  "time_part (FTime x) = x" | "time_part _ = 0"

fun text_part :: "fval \<Rightarrow> string" where
  "text_part (FStr x) = x" | "text_part (FBytes x) = x" | "text_part (FRef x) = x" | "text_part _ = ''''"

lemma compare_flat:
  "flat a \<Longrightarrow> flat b \<Longrightarrow> rank a = rank b \<Longrightarrow> compare a b =
     (if rank a = 1 then compareBool (bool_part a) (bool_part b)
      else if rank a = 2 then compare_double (numberOf a) (numberOf b)
      else if rank a = 3 then cmp_ord (time_part a) (time_part b)
      else cmp_ord (text_part a) (text_part b))"
  by (cases a; cases b) (simp_all add: compare.simps cmp_ord_laws(1))

lemma compare_flat_laws:
  "flat a \<Longrightarrow> compare a a = 0"
  "flat a \<Longrightarrow> flat b \<Longrightarrow> rank a = rank b \<Longrightarrow> compare b a = - compare a b"
  "flat a \<Longrightarrow> flat b \<Longrightarrow> flat c \<Longrightarrow> rank a = rank b \<Longrightarrow> rank b = rank c \<Longrightarrow> compare a b \<le> 0 \<Longrightarrow> compare b c \<le> 0 \<Longrightarrow> compare a c \<le> 0"
proof -
  note L = cmp_ord_laws compareBool_laws compare_double_laws
  show "flat a \<Longrightarrow> compare a a = 0" by (simp add: compare_flat L(1,4,7))
  show "compare b a = - compare a b" if f: "flat a" "flat b" and r: "rank a = rank b"
    unfolding compare_flat [OF f r] compare_flat [OF f(2,1) r [symmetric]] r by (auto intro: L(2,5,8))
  assume f: "flat a" "flat b" "flat c" and r: "rank a = rank b" "rank b = rank c" and c: "compare a b \<le> 0" "compare b c \<le> 0"
  show "compare a c \<le> 0"
    using c unfolding compare_flat [OF f(1,2) r(1)] compare_flat [OF f(2,3) r(2)] compare_flat [OF f(1,3) trans [OF r]] r
    by (auto split: if_splits intro: L(3,6,9))
qed

lemma arrays_refl: "(\<And>x. x \<in> set xs \<Longrightarrow> compare x x = 0) \<Longrightarrow> compareArrays xs xs = 0"
  by (induction xs) (auto simp: Let_def)

lemma arrays_flip:
  "(\<And>x y. x \<in> set xs \<Longrightarrow> y \<in> set ys \<Longrightarrow> compare y x = - compare x y) \<Longrightarrow> compareArrays ys xs = - compareArrays xs ys"
proof (induction xs ys rule: list_induct2')
  case (4 x xs y ys)
  then have "compare y x = - compare x y" "compareArrays ys xs = - compareArrays xs ys" by auto
  then show ?case by (simp add: Let_def)
qed simp_all

lemma arrays_trans:
  assumes "\<And>x y. x \<in> set xs \<union> set ys \<union> set zs \<Longrightarrow> y \<in> set xs \<union> set ys \<union> set zs \<Longrightarrow> compare y x = - compare x y"
    and "\<And>x y z. {x, y, z} \<subseteq> set xs \<union> set ys \<union> set zs \<Longrightarrow> compare x y \<le> 0 \<Longrightarrow> compare y z \<le> 0 \<Longrightarrow> compare x z \<le> 0"
    and "compareArrays xs ys \<le> 0" and "compareArrays ys zs \<le> 0"
  shows "compareArrays xs zs \<le> 0"
  using assms
proof (induction xs arbitrary: ys zs)
  case Nil
  show ?case by (cases zs) auto
next
  case (Cons x xs)
  from Cons.prems(3) obtain y ys' where ys: "ys = y # ys'" by (cases ys) auto
  from Cons.prems(4) obtain z zs' where zs: "zs = z # zs'" unfolding ys by (cases zs) auto
  note flip = Cons.prems(1) and tr = Cons.prems(2)
  have m: "x \<in> set (x # xs) \<union> set ys \<union> set zs" "y \<in> set (x # xs) \<union> set ys \<union> set zs" "z \<in> set (x # xs) \<union> set ys \<union> set zs"
    by (simp_all add: ys zs)
  note f = flip [OF m(1,2)] flip [OF m(2,3)] flip [OF m(1,3)]
  have m3: "{x, y, z} \<subseteq> set (x # xs) \<union> set ys \<union> set zs" "{y, z, x} \<subseteq> set (x # xs) \<union> set ys \<union> set zs"
    "{z, x, y} \<subseteq> set (x # xs) \<union> set ys \<union> set zs" using m by simp_all
  note t = tr [OF m3(1)] tr [OF m3(2)] tr [OF m3(3)]
  have le: "compare x y \<le> 0"
    using Cons.prems(3) by (cases "compare x y = 0") (simp_all add: ys Let_def)
  have le': "compare y z \<le> 0"
    using Cons.prems(4) by (cases "compare y z = 0") (simp_all add: ys zs Let_def)
  show ?case
  proof (cases "compare x z = 0")
    case True
    then have "compare x y = 0" "compare y z = 0" using t f le le' by linarith+
    then have "compareArrays xs ys' \<le> 0" "compareArrays ys' zs' \<le> 0" using Cons.prems(3,4) by (simp_all add: ys zs)
    then have "compareArrays xs zs' \<le> 0"
    proof (rule Cons.IH [rotated 2])
      show "compare b a = - compare a b" if "a \<in> set xs \<union> set ys' \<union> set zs'" "b \<in> set xs \<union> set ys' \<union> set zs'" for a b
        using that by (intro flip) (auto simp: ys zs)
      show "compare a c \<le> 0" if "{a, b, c} \<subseteq> set xs \<union> set ys' \<union> set zs'" "compare a b \<le> 0" "compare b c \<le> 0" for a b c
        using that(1) by (intro tr [OF _ that(2,3)]) (auto simp: ys zs)
    qed
    with True show ?thesis by (simp add: zs)
  next
    case False
    with t(1) le le' show ?thesis by (simp add: zs Let_def)
  qed
qed

lemma rank_array: "rank a = 8 \<longleftrightarrow> (\<exists>xs. a = FArr xs)" and flat_rank: "flat a \<longleftrightarrow> rank a \<noteq> 8"
  by (cases a; simp)+

lemma size_member: "x \<in> set xs \<Longrightarrow> size x < size (FArr xs)"
  by (induction xs) auto

lemma compare_refl: "compare a a = 0"
proof (induction a)
  case (FArr xs)
  then show ?case by (simp add: compare_arrays arrays_refl)
qed (rule compare_flat_laws(1), simp)+

lemma compare_flip: "compare b a = - compare a b"
proof (induction "size a" arbitrary: a b rule: less_induct)
  case less
  show ?case
  proof (cases "rank a = rank b")
    case False
    then show ?thesis by (simp add: compare_rank sign_def)
  next
    case rk: True
    show ?thesis
    proof (cases "flat a \<and> flat b")
      case True
      then show ?thesis using compare_flat_laws(2) [of a b] rk by simp
    next
      case False
      then obtain xs ys where ab: "a = FArr xs" "b = FArr ys" using rk by (metis flat_rank rank_array)
      have "compareArrays ys xs = - compareArrays xs ys"
        by (rule arrays_flip) (use less size_member ab in blast)
      with ab show ?thesis by (simp add: compare_arrays)
    qed
  qed
qed

lemma compare_rank_le: "compare a b \<le> 0 \<Longrightarrow> rank a \<le> rank b"
  by (rule ccontr) (simp add: compare_rank sign_def)

lemma compare_trans: "compare a b \<le> 0 \<Longrightarrow> compare b c \<le> 0 \<Longrightarrow> compare a c \<le> 0"
proof (induction "max (size a) (max (size b) (size c))" arbitrary: a b c rule: less_induct)
  case less
  note r = compare_rank_le [OF less.prems(1)] compare_rank_le [OF less.prems(2)]
  show ?case
  proof (cases "rank a = rank b \<and> rank b = rank c")
    case False
    then have "rank a < rank c" using r by auto
    then show ?thesis by (simp add: compare_rank sign_def)
  next
    case rk: True
    show ?thesis
    proof (cases "flat a \<and> flat b \<and> flat c")
      case True
      then show ?thesis using compare_flat_laws(3) [of a b c] rk less.prems by simp
    next
      case False
      then obtain xs ys zs where abc: "a = FArr xs" "b = FArr ys" "c = FArr zs" using rk by (metis flat_rank rank_array)
      have "compare x z \<le> 0" if "{x, y, z} \<subseteq> set xs \<union> set ys \<union> set zs" "compare x y \<le> 0" "compare y z \<le> 0" for x y z
      proof (rule less.hyps [OF _ that(2,3)])
        have "size v < max (size a) (max (size b) (size c))" if "v \<in> set xs \<union> set ys \<union> set zs" for v
          using that size_member [of v xs] size_member [of v ys] size_member [of v zs] abc by auto
        then show "max (size x) (max (size y) (size z)) < max (size a) (max (size b) (size c))" using that(1) by simp
      qed
      then have "compareArrays xs zs \<le> 0"
        by (rule arrays_trans [of xs ys zs, OF compare_flip]) (use less.prems abc compare_arrays in auto)
      then show ?thesis by (simp add: abc compare_arrays)
    qed
  qed
qed

interpretation fval: comparison compare
  by unfold_locales (rule compare_refl compare_flip compare_trans; assumption)+

end
