(* ===== verification/Firestore.thy ===== *)
theory Firestore
  imports Firestore_Values KV_Store Go_Json
begin

text \<open>
  Firestore (\<open>services/firestore\<close>): documents in the key-value store, commits that stage every write before applying any,
  field transforms, batches, queries and transaction handles.  A commit, a batch and a transaction call run under the service's
  lock; of the clock the service only reads the time, which is a field here.  What a stream is sent is the list of its messages.
\<close>

subsection \<open>State (firestore.go)\<close>

datatype fsval = FSNil | FSDoc fdoc

instantiation fsval :: zero
begin
definition zero_fsval_def: "0 = FSNil"
instance ..
end

record fs =
  fsKV :: "fsval memory"
  fsNow :: time
  fsTransactions :: "(string \<times> time) list"

definition New_fs :: "fsval memory \<Rightarrow> time \<Rightarrow> fs" where
  "New_fs kv now = \<lparr>fsKV = kv, fsNow = now, fsTransactions = []\<rparr>"

definition docKey :: "string \<Rightarrow> string" where "docKey name = ''fs/d/'' @ name"

definition collectionPrefix :: "string \<Rightarrow> string \<Rightarrow> string" where
  "collectionPrefix parent col = docKey (parent @ ''/'' @ col @ ''/'')"

definition validDocName :: "string \<Rightarrow> rpc_error option" where
  "validDocName name =
     (case go_index name ''/documents/'' of
        None \<Rightarrow> Some (Errorf InvalidArgument ''invalid document name %q'' [name])
      | Some i \<Rightarrow>
          let rest = split_on (CHR ''/'') (trimPrefix (drop (i + 11) name) ''/'')
          in if length rest = 0 \<or> length rest mod 2 \<noteq> 0
             then Some (Errorf InvalidArgument ''invalid document name %q: it must name a document, not a collection'' [name])
             else if [] \<in> set rest then Some (Errorf InvalidArgument ''invalid document name %q'' [name])
             else None)"

text \<open>The document and its version, when there is one.\<close>

definition get_fs :: "ctx \<Rightarrow> string \<Rightarrow> fs \<Rightarrow> (rpc_error, (fdoc \<times> nat) option) result" where
  "get_fs cx name s =
     (case mem_Get cx (docKey name) (fsKV s) of
        Err ErrNotFound \<Rightarrow> Ok None
      | Err e \<Rightarrow> Err (Errorf Internal ''reading document: %v'' [store_text e])
      | Ok (FSDoc d, v) \<Rightarrow> Ok (Some (d, v))
      | Ok _ \<Rightarrow> Err (Errorf Internal ''decoding document: %v'' [''protojson'']))"

subsection \<open>Transforms (transform.go)\<close>

datatype transform =
    SetToServerValue bool  \<comment> \<open>whether it is \<open>REQUEST_TIME\<close>\<close>
  | Increment fval
  | Maximum fval
  | Minimum fval
  | AppendMissingElements "fval list"
  | RemoveAllFromArray "fval list"
  | NoTransform

type_synonym field_transform = "string \<times> transform"

fun isInteger :: "fval \<Rightarrow> bool" where
  "isInteger (FInt _) = True"
| "isInteger _ = False"

fun integerValue :: "fval \<Rightarrow> int" where
  "integerValue (FInt i) = i"
| "integerValue _ = 0"

definition addNumbers :: "fval option \<Rightarrow> fval \<Rightarrow> fval" where
  "addNumbers current delta =
     (let num = (case current of None \<Rightarrow> False | Some c \<Rightarrow> rank c = 2);
          currentIsInt = (if \<not> num then isInteger delta else isInteger (the current))
      in if currentIsInt \<and> isInteger delta
         then FInt (i64 ((if num then integerValue (the current) else 0) + integerValue delta))
         else FDouble (double_add (if num then numberOf (the current) else Finite (Fl 0 0)) (numberOf delta)))"

definition existing :: "fval option \<Rightarrow> fval list" where
  "existing v = (case v of None \<Rightarrow> [] | Some x \<Rightarrow> if rank x = 8 then arrayOf x else [])"

fun append_missing :: "fval list \<Rightarrow> fval list \<Rightarrow> fval list" where
  "append_missing out [] = out"
| "append_missing out (v # vs) = append_missing (if anyEqual out v then out else out @ [v]) vs"

definition appendMissing :: "fval option \<Rightarrow> fval list \<Rightarrow> fval" where
  "appendMissing current add = FArr (append_missing (existing current) add)"

definition removeAll_fs :: "fval option \<Rightarrow> fval list \<Rightarrow> fval" where
  "removeAll_fs current gone = FArr (filter (\<lambda>v. \<not> anyEqual gone v) (existing current))"

text \<open>\<open>None\<close> removes the field; no transform has that result.\<close>

definition evaluate :: "transform \<Rightarrow> fval option \<Rightarrow> time \<Rightarrow> (rpc_error, fval option) result" where
  "evaluate tr current now =
     (case tr of
        SetToServerValue rt \<Rightarrow>
          if \<not> rt then Err (Errorf InvalidArgument ''unknown server value'' []) else Ok (Some (FTime now))
      | Increment delta \<Rightarrow> Ok (Some (addNumbers current delta))
      | Maximum m \<Rightarrow>
          (case current of
             None \<Rightarrow> Ok (Some m)
           | Some c \<Rightarrow> Ok (Some (if rank c \<noteq> 2 \<or> 0 < compare m c then m else c)))
      | Minimum m \<Rightarrow>
          (case current of
             None \<Rightarrow> Ok (Some m)
           | Some c \<Rightarrow> Ok (Some (if rank c \<noteq> 2 \<or> compare m c < 0 then m else c)))
      | AppendMissingElements vs \<Rightarrow> Ok (Some (appendMissing current vs))
      | RemoveAllFromArray vs \<Rightarrow> Ok (Some (removeAll_fs current vs))
      | NoTransform \<Rightarrow> Err (Errorf Unimplemented ''unsupported field transform'' []))"

fun applyTransforms :: "fields \<Rightarrow> field_transform list \<Rightarrow> time \<Rightarrow> (rpc_error, fields \<times> fval option list) result" where
  "applyTransforms fs [] now = Ok (fs, [])"
| "applyTransforms fs ((path, tr) # trs) now =
     (case evaluate tr (lookup fs path) now of
        Err e \<Rightarrow> Err e
      | Ok v \<Rightarrow>
          (case applyTransforms (case v of None \<Rightarrow> deletePath fs path | Some x \<Rightarrow> setPath fs path x) trs now of
             Err e \<Rightarrow> Err e
           | Ok (fs', vs) \<Rightarrow> Ok (fs', v # vs)))"

subsection \<open>Commits (commit.go)\<close>

datatype precondition = NoPrecondition | Exists bool | UpdateTime time

datatype operation = NoOperation | DeleteOp string | UpdateOp fdoc | TransformOp string "field_transform list"

record fwrite =
  wrOp :: operation
  wrMask :: "string list option"
  wrTransforms :: "field_transform list"
  wrCurrent :: precondition

definition targetOf :: "fwrite \<Rightarrow> (rpc_error, string) result" where
  "targetOf w =
     (case wrOp w of
        DeleteOp name \<Rightarrow> if name \<noteq> '''' then Ok name else Err (Errorf InvalidArgument ''a write must name a document'' [])
      | UpdateOp d \<Rightarrow> Ok (fdName d)
      | TransformOp name _ \<Rightarrow> Ok name
      | NoOperation \<Rightarrow> Err (Errorf InvalidArgument ''a write must name a document'' []))"

definition transformsOf :: "fwrite \<Rightarrow> field_transform list" where
  "transformsOf w = (case wrOp w of TransformOp _ trs \<Rightarrow> trs | _ \<Rightarrow> wrTransforms w)"

definition checkPrecondition :: "string \<Rightarrow> precondition \<Rightarrow> fdoc option \<Rightarrow> rpc_error option" where
  "checkPrecondition name pre current =
     (case pre of
        NoPrecondition \<Rightarrow> None
      | Exists b \<Rightarrow>
          if b \<and> current = None then Some (Errorf NotFound ''no document to update: %s'' [name])
          else if \<not> b \<and> current \<noteq> None then Some (Errorf AlreadyExists ''document already exists: %s'' [name])
          else None
      | UpdateTime t \<Rightarrow>
          if current = None \<or> t \<noteq> fdUpdate (the current)
          then Some (Errorf FailedPrecondition ''the document was modified: %s'' [name]) else None)"

text \<open>The fields of the update a write carries; a delete or a transform carries none.\<close>

definition incoming :: "fwrite \<Rightarrow> fields" where
  "incoming w = (case wrOp w of UpdateOp d \<Rightarrow> fdFields d | _ \<Rightarrow> [])"

fun apply_mask :: "fields \<Rightarrow> string list \<Rightarrow> fields \<Rightarrow> fields" where
  "apply_mask src [] fs = fs"
| "apply_mask src (path # paths) fs =
     apply_mask src paths (case lookup src path of Some v \<Rightarrow> setPath fs path v | None \<Rightarrow> deletePath fs path)"

definition stage :: "ctx \<Rightarrow> fwrite \<Rightarrow> time \<Rightarrow> fs \<Rightarrow> (rpc_error, fdoc option \<times> fval option list) result" where
  "stage cx w now s =
     (case targetOf w of
        Err e \<Rightarrow> Err e
      | Ok name \<Rightarrow>
     (case validDocName name of
        Some e \<Rightarrow> Err e
      | None \<Rightarrow>
     (case get_fs cx name s of
        Err e \<Rightarrow> Err e
      | Ok got \<Rightarrow>
     (case checkPrecondition name (wrCurrent w) (map_option fst got) of
        Some e \<Rightarrow> Err e
      | None \<Rightarrow>
          if (case wrOp w of DeleteOp n \<Rightarrow> n \<noteq> '''' | _ \<Rightarrow> False) then Ok (None, [])
          else
            let created = (case got of None \<Rightarrow> now | Some (d, _) \<Rightarrow> fdCreate d);
                base = (case (got, wrMask w) of (Some (d, _), Some _) \<Rightarrow> fdFields d | _ \<Rightarrow> []);
                flds = (case wrMask w of
                          Some paths \<Rightarrow> apply_mask (incoming w) paths base
                        | None \<Rightarrow> foldl (\<lambda>fs (k, v). AList.update k v fs) base (incoming w))
            in case applyTransforms flds (transformsOf w) now of
                 Err e \<Rightarrow> Err e
               | Ok (flds', results) \<Rightarrow>
                   Ok (Some \<lparr>fdName = name, fdFields = flds', fdCreate = created, fdUpdate = now\<rparr>, results)))))"

text \<open>
  What \<open>protojson\<close> can write: texts that are UTF-8 and times from year 1 to year 9999.
\<close>

definition json_time :: "time \<Rightarrow> bool" where
  "json_time t \<longleftrightarrow> -62135596800 * second \<le> t \<and> t < 253402300800 * second"

fun encodable_val :: "fval \<Rightarrow> bool" where
  "encodable_val (FTime t) = json_time t"
| "encodable_val (FStr s) = utf8 s"
| "encodable_val (FRef s) = utf8 s"
| "encodable_val (FArr vs) = list_all encodable_val vs"
| "encodable_val (FMap m) = list_all (\<lambda>(k, v). utf8 k \<and> encodable_val v) m"
| "encodable_val _ = True"

definition encodable :: "fdoc \<Rightarrow> bool" where
  "encodable d \<longleftrightarrow> utf8 (fdName d) \<and> list_all (\<lambda>(k, v). utf8 k \<and> encodable_val v) (fdFields d) \<and>
     json_time (fdCreate d) \<and> json_time (fdUpdate d)"

definition apply_write :: "ctx \<Rightarrow> fwrite \<Rightarrow> fdoc option \<Rightarrow> fs \<Rightarrow> (rpc_error, unit) result \<times> fs" where
  "apply_write cx w doc s =
     (let name = (case targetOf w of Ok n \<Rightarrow> n | Err _ \<Rightarrow> '''')
      in case doc of
           None \<Rightarrow>
             (case mem_Delete cx (docKey name) 0 (fsKV s) of
                (Err ErrNotFound, m) \<Rightarrow> (Ok (), s\<lparr>fsKV := m\<rparr>)
              | (Err e, m) \<Rightarrow> (Err (Errorf Unknown ''%v'' [store_text e]), s\<lparr>fsKV := m\<rparr>)
              | (Ok _, m) \<Rightarrow> (Ok (), s\<lparr>fsKV := m\<rparr>))
         | Some d \<Rightarrow>
             if \<not> encodable d then (Err (Errorf Internal ''encoding document: %v'' [''protojson'']), s)
             else (case get_fs cx name s of
                Err e \<Rightarrow> (Err e, s)
              | Ok got \<Rightarrow>
                  let ifVersion = (case got of None \<Rightarrow> 0 | Some (_, v) \<Rightarrow> v)
                  in (case mem_Put cx (docKey name) (FSDoc d) ifVersion (fsKV s) of
                        (Err e, m) \<Rightarrow> (Err (Errorf Aborted ''storing document: %v'' [store_text e]), s\<lparr>fsKV := m\<rparr>)
                      | (Ok _, m) \<Rightarrow> (Ok (), s\<lparr>fsKV := m\<rparr>))))"

fun stage_all :: "ctx \<Rightarrow> fwrite list \<Rightarrow> time \<Rightarrow> fs \<Rightarrow> (rpc_error, (fdoc option \<times> fval option list) list) result" where
  "stage_all cx [] now s = Ok []"
| "stage_all cx (w # ws) now s =
     (case stage cx w now s of
        Err e \<Rightarrow> Err e
      | Ok x \<Rightarrow> (case stage_all cx ws now s of Err e \<Rightarrow> Err e | Ok xs \<Rightarrow> Ok (x # xs)))"

record write_result =
  resUpdate :: "time option"
  resTransforms :: "fval option list"

definition result_of :: "fdoc option \<times> fval option list \<Rightarrow> write_result" where
  "result_of x = \<lparr>resUpdate = map_option fdUpdate (fst x), resTransforms = snd x\<rparr>"

fun apply_all :: "ctx \<Rightarrow> (fwrite \<times> fdoc option \<times> fval option list) list \<Rightarrow> fs \<Rightarrow> (rpc_error, write_result list) result \<times> fs" where
  "apply_all cx [] s = (Ok [], s)"
| "apply_all cx ((w, x) # wxs) s =
     (case apply_write cx w (fst x) s of
        (Err e, s1) \<Rightarrow> (Err e, s1)
      | (Ok _, s1) \<Rightarrow>
          (case apply_all cx wxs s1 of
             (Err e, s2) \<Rightarrow> (Err e, s2)
           | (Ok rs, s2) \<Rightarrow> (Ok (result_of x # rs), s2)))"

definition closeTransaction :: "string \<Rightarrow> fs \<Rightarrow> rpc_error option \<times> fs" where
  "closeTransaction i s =
     (if i = '''' then (None, s)
      else if map_of (fsTransactions s) i = None then (Some (Errorf InvalidArgument ''unknown transaction'' []), s)
      else (None, s\<lparr>fsTransactions := AList.delete i (fsTransactions s)\<rparr>))"

definition Commit :: "ctx \<Rightarrow> string \<Rightarrow> fwrite list \<Rightarrow> fs \<Rightarrow> (rpc_error, write_result list \<times> time) result \<times> fs" where
  "Commit cx txn ws s =
     (let now = fsNow s
      in case closeTransaction txn s of
           (Some e, s1) \<Rightarrow> (Err e, s1)
         | (None, s1) \<Rightarrow>
             (case stage_all cx ws now s1 of
                Err e \<Rightarrow> (Err e, s1)
              | Ok xs \<Rightarrow>
                  (case apply_all cx (zip ws xs) s1 of
                     (Err e, s2) \<Rightarrow> (Err e, s2)
                   | (Ok rs, s2) \<Rightarrow> (Ok (rs, now), s2))))"

text \<open>Each write of a batch has its own result and status.\<close>

definition batch_one :: "ctx \<Rightarrow> fwrite \<Rightarrow> time \<Rightarrow> fs \<Rightarrow> (write_result \<times> rpc_error option) \<times> fs" where
  "batch_one cx w now s =
     (case stage cx w now s of
        Err e \<Rightarrow> ((\<lparr>resUpdate = None, resTransforms = []\<rparr>, Some e), s)
      | Ok x \<Rightarrow>
          (case apply_write cx w (fst x) s of
             (Err e, s1) \<Rightarrow> ((\<lparr>resUpdate = None, resTransforms = snd x\<rparr>, Some e), s1)
           | (Ok _, s1) \<Rightarrow> ((result_of x, None), s1)))"

fun batch_all :: "ctx \<Rightarrow> fwrite list \<Rightarrow> time \<Rightarrow> fs \<Rightarrow> (write_result \<times> rpc_error option) list \<times> fs" where
  "batch_all cx [] now s = ([], s)"
| "batch_all cx (w # ws) now s =
     (let (r, s1) = batch_one cx w now s; (rs, s2) = batch_all cx ws now s1 in (r # rs, s2))"

definition BatchWrite :: "ctx \<Rightarrow> fwrite list \<Rightarrow> fs \<Rightarrow> (write_result \<times> rpc_error option) list \<times> fs" where
  "BatchWrite cx ws s = batch_all cx ws (fsNow s) s"

subsection \<open>Reads (read.go)\<close>

datatype found = Found fdoc | Missing string

fun BatchGetDocuments :: "ctx \<Rightarrow> string list \<Rightarrow> fs \<Rightarrow> (rpc_error, unit) result \<times> (found \<times> time) list" where
  "BatchGetDocuments cx [] s = (Ok (), [])"
| "BatchGetDocuments cx (name # names) s =
     (case validDocName name of
        Some e \<Rightarrow> (Err e, [])
      | None \<Rightarrow>
          (case get_fs cx name s of
             Err e \<Rightarrow> (Err e, [])
           | Ok got \<Rightarrow>
               let (r, out) = BatchGetDocuments cx names s
               in (r, (case got of None \<Rightarrow> Missing name | Some (d, _) \<Rightarrow> Found d, fsNow s) # out)))"

subsection \<open>Transactions (transaction.go)\<close>

definition MaxOpenTransactions :: nat where "MaxOpenTransactions = 1000"
definition TransactionTTL :: duration where "TransactionTTL = 60 * second"

definition expireTransactions :: "fs \<Rightarrow> fs" where
  "expireTransactions s =
     s\<lparr>fsTransactions := filter (\<lambda>(i, started). \<not> started < fsNow s - TransactionTTL) (fsTransactions s)\<rparr>"

text \<open>\<open>rnd\<close> is what the random source gives: sixteen bytes, or an error.\<close>

definition newTransactionID :: "string option \<Rightarrow> (rpc_error, string) result" where
  "newTransactionID rnd =
     (case rnd of
        None \<Rightarrow> Err (Errorf Internal ''opening a transaction: %v'' [''rand''])
      | Some buf \<Rightarrow> Ok (map b64_char (b64_sextets (map of_char buf))))"

definition BeginTransaction :: "string option \<Rightarrow> fs \<Rightarrow> (rpc_error, string) result \<times> fs" where
  "BeginTransaction rnd s =
     (case newTransactionID rnd of
        Err e \<Rightarrow> (Err e, s)
      | Ok i \<Rightarrow>
          let s1 = expireTransactions s
          in if MaxOpenTransactions \<le> length (fsTransactions s1)
             then (Err (Errorf ResourceExhausted ''too many open transactions (%d); commit or roll back before opening more'' [dec MaxOpenTransactions]), s1)
             else (Ok i, s1\<lparr>fsTransactions := AList.update i (fsNow s1) (fsTransactions s1)\<rparr>))"

definition Rollback :: "string \<Rightarrow> fs \<Rightarrow> (rpc_error, unit) result \<times> fs" where
  "Rollback i s =
     (if map_of (fsTransactions s) i = None then (Err (Errorf InvalidArgument ''unknown transaction'' []), s)
      else (Ok (), s\<lparr>fsTransactions := AList.delete i (fsTransactions s)\<rparr>))"

subsection \<open>Queries (query.go)\<close>

record order_clause =
  orPath :: string
  orDescending :: bool

record query =
  qFrom :: "(string \<times> bool) list"
  qWhere :: "ffilter option"
  qOrderBy :: "order_clause list"
  qOffset :: int
  qLimit :: "int option"

fun decode_docs :: "string \<Rightarrow> fsval kv list \<Rightarrow> (rpc_error, fdoc list) result" where
  "decode_docs pfx [] = Ok []"
| "decode_docs pfx (kv # kvs) =
     (if go_contains (trimPrefix (kvKey kv) pfx) ''/'' then decode_docs pfx kvs
      else (case kvVal kv of
              FSDoc d \<Rightarrow> (case decode_docs pfx kvs of Err e \<Rightarrow> Err e | Ok ds \<Rightarrow> Ok (d # ds))
            | _ \<Rightarrow> Err (Errorf Internal ''decoding document: %v'' [''protojson''])))"

definition collection :: "ctx \<Rightarrow> string \<Rightarrow> string \<Rightarrow> fs \<Rightarrow> (rpc_error, fdoc list) result" where
  "collection cx parent col s =
     (let pfx = collectionPrefix parent col
      in case mem_List cx pfx 0 '''' (fsKV s) of
           Err e \<Rightarrow> Err (Errorf Internal ''listing documents: %v'' [store_text e])
         | Ok (entries, _) \<Rightarrow> decode_docs pfx entries)"

fun keep_matching :: "ffilter option \<Rightarrow> fdoc list \<Rightarrow> (rpc_error, fdoc list) result" where
  "keep_matching f [] = Ok []"
| "keep_matching f (d # ds) =
     (case matches_opt d f of
        Err e \<Rightarrow> Err e
      | Ok b \<Rightarrow> (case keep_matching f ds of Err e \<Rightarrow> Err e | Ok ks \<Rightarrow> Ok (if b then d # ks else ks)))"

definition withOrderedFields :: "fdoc list \<Rightarrow> order_clause list \<Rightarrow> fdoc list" where
  "withOrderedFields docs clauses =
     (if clauses = [] then docs else filter (\<lambda>d. \<forall>c\<in>set clauses. fieldOf d (orPath c) \<noteq> None) docs)"

fun doc_less :: "order_clause list \<Rightarrow> fdoc \<Rightarrow> fdoc \<Rightarrow> bool" where
  "doc_less [] x y = False"
| "doc_less (c # cs) x y =
     (case (fieldOf x (orPath c), fieldOf y (orPath c)) of
        (Some a, Some b) \<Rightarrow>
          let r = compare a b
          in if r = 0 then doc_less cs x y else if orDescending c then 0 < r else r < 0
      | _ \<Rightarrow> doc_less cs x y)"

definition order_docs :: "fdoc list \<Rightarrow> order_clause list \<Rightarrow> fdoc list" where
  "order_docs docs clauses = (if clauses = [] then docs else sliceStable (doc_less clauses) docs)"

definition window :: "fdoc list \<Rightarrow> int \<Rightarrow> int option \<Rightarrow> fdoc list" where
  "window docs offset limit =
     (let docs1 = (if 0 < offset then (if int (length docs) \<le> offset then [] else drop (nat offset) docs) else docs)
      in case limit of
           None \<Rightarrow> docs1
         | Some l \<Rightarrow> if 0 \<le> l \<and> l < int (length docs1) then take (nat l) docs1 else docs1)"

definition RunQuery :: "ctx \<Rightarrow> string \<Rightarrow> query option \<Rightarrow> fs \<Rightarrow> (rpc_error, (fdoc \<times> time) list) result" where
  "RunQuery cx parent q0 s =
     (case q0 of
        None \<Rightarrow> Err (Errorf InvalidArgument ''a query is required'' [])
      | Some q \<Rightarrow>
          if length (qFrom q) \<noteq> 1
          then Err (Errorf Unimplemented ''a query must name exactly one collection; collection-group queries are not supported'' [])
          else if snd (hd (qFrom q)) then Err (Errorf Unimplemented ''collection-group queries are not supported'' [])
          else if qOffset q < 0 then Err (Errorf InvalidArgument ''offset must not be negative, got %d'' [itoa (qOffset q)])
          else if (case qLimit q of None \<Rightarrow> False | Some l \<Rightarrow> l < 0)
          then Err (Errorf InvalidArgument ''limit must not be negative, got %d'' [itoa (the (qLimit q))])
          else
     (case collection cx parent (fst (hd (qFrom q))) s of
        Err e \<Rightarrow> Err e
      | Ok docs \<Rightarrow>
     (case keep_matching (qWhere q) docs of
        Err e \<Rightarrow> Err e
      | Ok kept \<Rightarrow>
          let sorted_docs = order_docs (withOrderedFields kept (qOrderBy q)) (qOrderBy q)
          in Ok (map (\<lambda>d. (d, fsNow s)) (window sorted_docs (qOffset q) (qLimit q))))))"

end
