(* ===== verification/Firestore_Props.thy ===== *)
theory Firestore_Props
  imports Firestore
begin

text \<open>
  Properties of the Firestore model: a commit applies as a unit and leaves the store well typed, a query answers with the
  right documents in the right order, and three behaviours of the code that differ from what its comments or the service
  promise.  The order of documents rests on the interpretation of \<open>comparison\<close> for the clauses of a query.
\<close>

subsection \<open>The stored documents\<close>

definition docs :: "fs \<Rightarrow> string \<Rightarrow> fdoc option" where
  "docs s name = (case memM (fsKV s) (docKey name) of Some e \<Rightarrow> (case entVal e of FSDoc d \<Rightarrow> Some d | _ \<Rightarrow> None) | None \<Rightarrow> None)"

text \<open>What every operation keeps: an entry under the document prefix is a document filed under its own name.\<close>

definition fs_ok :: "fs \<Rightarrow> bool" where
  "fs_ok s \<longleftrightarrow> mem_wf (fsKV s) \<and>
     (\<forall>k e. memM (fsKV s) k = Some e \<longrightarrow> prefix ''fs/d/'' k \<longrightarrow> (\<exists>d. entVal e = FSDoc d \<and> k = docKey (fdName d) \<and> validDocName (fdName d) = None))"

text \<open>Version counters that can take \<open>n\<close> more writes.\<close>

definition room_for :: "nat \<Rightarrow> fs \<Rightarrow> bool" where
  "room_for n s \<longleftrightarrow> n + 1 < 2 ^ 64 \<and> (\<forall>k e. memM (fsKV s) k = Some e \<longrightarrow> entVersion e + n < 2 ^ 64)"

lemma docKey_eq [simp]: "docKey a = docKey b \<longleftrightarrow> a = b" by (simp add: docKey_def)

lemma docKey_prefix [simp]: "prefix ''fs/d/'' (docKey a)" by (simp add: docKey_def)

lemma fs_okD:
  assumes "fs_ok s" and "memM (fsKV s) (docKey name) = Some e"
  shows "\<exists>d. entVal e = FSDoc d \<and> fdName d = name \<and> docs s name = Some d"
proof -
  have "\<forall>k e. memM (fsKV s) k = Some e \<longrightarrow> prefix ''fs/d/'' k \<longrightarrow> (\<exists>d. entVal e = FSDoc d \<and> k = docKey (fdName d))"
    using assms(1) unfolding fs_ok_def by blast
  then obtain d where "entVal e = FSDoc d" "docKey name = docKey (fdName d)" using assms(2) docKey_prefix by blast
  with assms(2) show ?thesis by (simp add: docs_def)
qed

lemma docs_None: "fs_ok s \<Longrightarrow> docs s name = None \<longleftrightarrow> memM (fsKV s) (docKey name) = None"
  using fs_okD [of s name] by (cases "memM (fsKV s) (docKey name)") (auto simp: docs_def)

lemma docs_name: "fs_ok s \<Longrightarrow> docs s name = Some d \<Longrightarrow> fdName d = name"
  using fs_okD [of s name] by (cases "memM (fsKV s) (docKey name)") (auto simp: docs_def)

lemma get_fs_docs:
  assumes "fs_ok s"
  shows "case docs s name of None \<Rightarrow> get_fs CtxLive name s = Ok None | Some d \<Rightarrow> \<exists>v. get_fs CtxLive name s = Ok (Some (d, v))"
proof (cases "memM (fsKV s) (docKey name)")
  case None
  then show ?thesis using docs_None [OF assms, of name] by (simp add: get_fs_def mem_Get_def)
next
  case (Some e)
  then show ?thesis using fs_okD [OF assms Some] by (auto simp: get_fs_def mem_Get_def)
qed

lemma fs_ok_put:
  assumes "fs_ok s" and "mem_wf m" and "memM m = (memM (fsKV s))(docKey name \<mapsto> \<lparr>entVal = FSDoc d, entVersion = v\<rparr>)" and "fdName d = name"
    and "validDocName name = None"
  shows "fs_ok (s\<lparr>fsKV := m\<rparr>)" "docs (s\<lparr>fsKV := m\<rparr>) = (docs s)(name \<mapsto> d)"
  using assms by (auto simp: fs_ok_def docs_def fun_eq_iff)

lemma fs_ok_delete:
  assumes "fs_ok s" and "mem_wf m" and "memM m = (memM (fsKV s))(docKey name := None)"
  shows "fs_ok (s\<lparr>fsKV := m\<rparr>)" "docs (s\<lparr>fsKV := m\<rparr>) = (docs s)(name := None)"
  using assms by (auto simp: fs_ok_def docs_def fun_eq_iff)

subsection \<open>Applying a staged write\<close>

definition encodes :: "fdoc option \<Rightarrow> bool" where
  "encodes doc = (case doc of None \<Rightarrow> True | Some d \<Rightarrow> encodable d)"

lemma apply_write_refused: "\<not> encodes doc \<Longrightarrow> \<exists>e. apply_write cx w doc s = (Err e, s)"
  by (cases doc) (simp_all add: encodes_def apply_write_def Let_def)

lemma apply_write_ok:
  assumes ok: "fs_ok s" and room: "room_for (Suc n) s" and t: "targetOf w = Ok name" and valid: "validDocName name = None"
    and d: "\<And>d. doc = Some d \<Longrightarrow> fdName d = name" and enc: "encodes doc"
  shows "\<exists>s'. apply_write CtxLive w doc s = (Ok (), s') \<and> docs s' = (docs s)(name := doc) \<and> fs_ok s' \<and> room_for n s' \<and>
    fsNow s' = fsNow s \<and> fsTransactions s' = fsTransactions s"
proof (cases doc)
  case None
  have wf: "mem_wf (fsKV s)" using ok by (simp add: fs_ok_def)
  obtain r m where del: "mem_Delete CtxLive (docKey name) 0 (fsKV s) = (r, m)" by force
  have m: "memM m = (memM (fsKV s))(docKey name := None)" using mem_Delete_map [OF del] .
  have r: "r = Ok () \<or> r = Err ErrNotFound" using del by (auto simp: mem_Delete_def split: option.splits)
  have "mem_wf m" using mem_Delete_wf [OF wf, of CtxLive "docKey name" 0] del by simp
  note D = fs_ok_delete [OF ok this m]
  have "apply_write CtxLive w doc s = (Ok (), s\<lparr>fsKV := m\<rparr>)" using r del t None by (auto simp: apply_write_def)
  moreover have "room_for n (s\<lparr>fsKV := m\<rparr>)" using room by (fastforce simp: room_for_def m split: if_splits)
  ultimately show ?thesis using D None by auto
next
  case (Some d')
  have wf: "mem_wf (fsKV s)" using ok by (simp add: fs_ok_def)
  have kr: "key_room (fsKV s) (docKey name)" using room by (fastforce simp: key_room_def room_for_def split: option.splits)
  obtain v m where put: "mem_Put CtxLive (docKey name) (FSDoc d') (case mem_Get CtxLive (docKey name) (fsKV s) of Ok (_, i) \<Rightarrow> i | Err _ \<Rightarrow> 0) (fsKV s) = (Ok v, m)"
      "memM m = (memM (fsKV s))(docKey name \<mapsto> \<lparr>entVal = FSDoc d', entVersion = v\<rparr>)" "mem_wf m"
    using put_current [OF wf kr] by metis
  have "\<exists>got. get_fs CtxLive name s = Ok got \<and>
      (case got of None \<Rightarrow> 0 | Some (_, i) \<Rightarrow> i) = (case mem_Get CtxLive (docKey name) (fsKV s) of Ok (_, i) \<Rightarrow> i | Err _ \<Rightarrow> 0)"
    using fs_okD [OF ok, of name] by (cases "memM (fsKV s) (docKey name)") (auto simp: get_fs_def mem_Get_def)
  then have ap: "apply_write CtxLive w doc s = (Ok (), s\<lparr>fsKV := m\<rparr>)"
    using put(1) t Some enc by (auto simp: apply_write_def encodes_def)
  have v: "v + n < 2 ^ 64"
  proof (cases "memM (fsKV s) (docKey name)")
    case None
    then show ?thesis using put(1) room by (simp add: mem_Put_def mem_Get_def room_for_def)
  next
    case (Some e)
    then have "entVersion e + Suc n < 2 ^ 64" using room by (simp add: room_for_def)
    moreover have "v = u64 (Suc (entVersion e))" using put(1) Some by (auto simp: mem_Put_def mem_Get_def Let_def split: if_splits)
    ultimately show ?thesis by simp
  qed
  have "room_for n (s\<lparr>fsKV := m\<rparr>)" using room v by (fastforce simp: room_for_def put(2) split: if_splits)
  with ap fs_ok_put [OF ok put(3,2) d [OF Some] valid] Some show ?thesis by auto
qed

lemma stage_target:
  assumes "stage cx w now s = Ok x"
  shows "\<exists>name. targetOf w = Ok name \<and> validDocName name = None \<and> (\<forall>d. fst x = Some d \<longrightarrow> fdName d = name)"
  using assms by (auto simp: stage_def Let_def split: result.splits option.splits if_splits prod.splits)

lemma stage_all_target: "stage_all cx ws now s = Ok xs \<Longrightarrow> length xs = length ws \<and> (\<forall>(w, x)\<in>set (zip ws xs). stage cx w now s = Ok x)"
  by (induction ws arbitrary: xs) (auto split: result.splits)

text \<open>The documents after the staged writes have been applied in order.\<close>

definition put_staged :: "(string \<Rightarrow> fdoc option) \<Rightarrow> (fwrite \<times> fdoc option \<times> fval option list) list \<Rightarrow> string \<Rightarrow> fdoc option" where
  "put_staged D wxs = foldl (\<lambda>D (w, x). case targetOf w of Ok name \<Rightarrow> D(name := fst x) | Err _ \<Rightarrow> D) D wxs"

lemma apply_all_ok:
  "fs_ok s \<Longrightarrow> room_for (length wxs + n) s \<Longrightarrow> (\<And>w x. (w, x) \<in> set wxs \<Longrightarrow> \<exists>name. targetOf w = Ok name \<and> validDocName name = None \<and> (\<forall>d. fst x = Some d \<longrightarrow> fdName d = name)) \<Longrightarrow>
   (\<forall>wx\<in>set wxs. encodes (fst (snd wx))) \<Longrightarrow>
   \<exists>rs s'. apply_all CtxLive wxs s = (Ok rs, s') \<and> docs s' = put_staged (docs s) wxs \<and> fs_ok s' \<and> room_for n s' \<and> fsNow s' = fsNow s \<and>
     fsTransactions s' = fsTransactions s \<and> rs = map (result_of \<circ> snd) wxs"
proof (induction wxs arbitrary: s)
  case Nil
  then show ?case by (simp add: put_staged_def)
next
  case (Cons wx wxs)
  obtain w x where wx: "wx = (w, x)" by (cases wx)
  obtain name where t: "targetOf w = Ok name" "validDocName name = None" "\<forall>d. fst x = Some d \<longrightarrow> fdName d = name" using Cons.prems(3) [of w x] wx by auto
  obtain s1 where s1: "apply_write CtxLive w (fst x) s = (Ok (), s1)" "docs s1 = (docs s)(name := fst x)" "fs_ok s1"
      "room_for (length wxs + n) s1" "fsNow s1 = fsNow s" "fsTransactions s1 = fsTransactions s"
    using apply_write_ok [OF Cons.prems(1) _ t(1,2), of "length wxs + n" "fst x"] Cons.prems(2,4) t(3) wx by auto
  have tl: "\<exists>name. targetOf w = Ok name \<and> validDocName name = None \<and> (\<forall>d. fst x = Some d \<longrightarrow> fdName d = name)" if "(w, x) \<in> set wxs" for w x
    using Cons.prems(3) that by simp
  have en: "\<forall>wx\<in>set wxs. encodes (fst (snd wx))" using Cons.prems(4) by simp
  note IH = Cons.IH [OF s1(3,4) tl en]
  obtain rs s' where "apply_all CtxLive wxs s1 = (Ok rs, s')" "docs s' = put_staged (docs s1) wxs" "fs_ok s'" "room_for n s'" "fsNow s' = fsNow s1"
     "fsTransactions s' = fsTransactions s1" "rs = map (result_of \<circ> snd) wxs"
    using IH by blast
  then show ?case using s1 t(1) wx by (simp add: put_staged_def)
qed

text \<open>Where a document cannot be encoded, the writes before it stay applied.\<close>

lemma apply_all_stops:
  "fs_ok s \<Longrightarrow> room_for (length wxs + n) s \<Longrightarrow> (\<And>w x. (w, x) \<in> set wxs \<Longrightarrow> \<exists>name. targetOf w = Ok name \<and> validDocName name = None \<and> (\<forall>d. fst x = Some d \<longrightarrow> fdName d = name)) \<Longrightarrow>
   (w, x) \<in> set wxs \<Longrightarrow> \<not> encodes (fst x) \<Longrightarrow>
   \<exists>e s' j. apply_all CtxLive wxs s = (Err e, s') \<and> docs s' = put_staged (docs s) (take j wxs) \<and> fs_ok s' \<and> room_for n s' \<and>
     fsTransactions s' = fsTransactions s \<and> j < length wxs \<and> \<not> encodes (fst (snd (wxs ! j)))"
proof (induction wxs arbitrary: s)
  case (Cons wx wxs)
  obtain w' x' where wx: "wx = (w', x')" by (cases wx)
  show ?case
  proof (cases "encodes (fst x')")
    case False
    then obtain e where "apply_write CtxLive w' (fst x') s = (Err e, s)" using apply_write_refused by blast
    moreover have "room_for n s" using Cons.prems(2) unfolding room_for_def by fastforce
    ultimately show ?thesis using wx False Cons.prems(1) by (intro exI [of _ e] exI [of _ s] exI [of _ 0]) (simp add: put_staged_def)
  next
    case True
    obtain name where t: "targetOf w' = Ok name" "validDocName name = None" "\<forall>d. fst x' = Some d \<longrightarrow> fdName d = name" using Cons.prems(3) [of w' x'] wx by auto
    obtain s1 where s1: "apply_write CtxLive w' (fst x') s = (Ok (), s1)" "docs s1 = (docs s)(name := fst x')" "fs_ok s1"
        "room_for (length wxs + n) s1" "fsTransactions s1 = fsTransactions s"
      using apply_write_ok [OF Cons.prems(1) _ t(1,2), of "length wxs + n" "fst x'"] Cons.prems(2) True t(3) by auto
    have tl: "\<exists>name. targetOf w = Ok name \<and> validDocName name = None \<and> (\<forall>d. fst x = Some d \<longrightarrow> fdName d = name)" if "(w, x) \<in> set wxs" for w x
      using Cons.prems(3) that by simp
    have "(w, x) \<in> set wxs" using Cons.prems(4,5) wx True by auto
    from Cons.IH [OF s1(3,4) tl this Cons.prems(5)] obtain e s' j where "apply_all CtxLive wxs s1 = (Err e, s')"
      "docs s' = put_staged (docs s1) (take j wxs)" "fs_ok s'" "room_for n s'" "fsTransactions s' = fsTransactions s1" "j < length wxs"
      "\<not> encodes (fst (snd (wxs ! j)))" by blast
    then show ?thesis using s1 t(1) wx by (intro exI [of _ e] exI [of _ s'] exI [of _ "Suc j"]) (simp add: put_staged_def)
  qed
qed simp

subsection \<open>Commits\<close>

lemma closeTransaction_keeps:
  assumes "closeTransaction i s = (r, s1)"
  shows "fsKV s1 = fsKV s" "fsNow s1 = fsNow s" "docs s1 = docs s" "fs_ok s1 = fs_ok s" "room_for n s1 = room_for n s"
  using assms by (auto simp: closeTransaction_def docs_def fs_ok_def room_for_def fun_eq_iff split: if_splits)

lemma stage_kv:
  assumes "fsKV s = fsKV t"
  shows "stage cx w now s = stage cx w now t"
proof -
  have g: "get_fs cx name s = get_fs cx name t" for name by (simp add: get_fs_def assms)
  show ?thesis unfolding stage_def g ..
qed

lemma stage_all_kv:
  assumes "fsKV s = fsKV t"
  shows "stage_all cx ws now s = stage_all cx ws now t"
proof (induction ws)
  case (Cons w ws)
  show ?case unfolding stage_all.simps Cons stage_kv [OF assms] ..
qed simp

lemma Commit_ok:
  assumes ok: "fs_ok s" and room: "room_for (length ws + n) s" and ct: "closeTransaction txn s = (None, s1)"
    and st: "stage_all CtxLive ws (fsNow s) s = Ok xs" and enc: "\<forall>x\<in>set xs. encodes (fst x)"
  shows "\<exists>s'. Commit CtxLive txn ws s = (Ok (map result_of xs, fsNow s), s') \<and> docs s' = put_staged (docs s) (zip ws xs) \<and> fs_ok s' \<and>
    room_for n s' \<and> fsTransactions s' = fsTransactions s1"
proof -
  note K = closeTransaction_keeps [OF ct] and S = stage_all_target [OF st]
  have st1: "stage_all CtxLive ws (fsNow s) s1 = Ok xs" using st stage_all_kv [OF K(1)] by simp
  have T: "\<exists>name. targetOf w = Ok name \<and> validDocName name = None \<and> (\<forall>d. fst x = Some d \<longrightarrow> fdName d = name)" if "(w, x) \<in> set (zip ws xs)" for w x
    using S stage_target [of CtxLive w "fsNow s" s x] that by fastforce
  have "length (zip ws xs) = length ws" using S by simp
  moreover have "\<forall>wx\<in>set (zip ws xs). encodes (fst (snd wx))" using enc by (auto dest!: set_zip_rightD)
  ultimately obtain rs s2 where a: "apply_all CtxLive (zip ws xs) s1 = (Ok rs, s2)" "docs s2 = put_staged (docs s1) (zip ws xs)" "fs_ok s2"
      "room_for n s2" "fsTransactions s2 = fsTransactions s1" "rs = map (result_of \<circ> snd) (zip ws xs)"
    using apply_all_ok [of s1 "zip ws xs" n, OF _ _ T] K ok room by auto
  have "rs = map result_of xs" using a(6) S by (simp add: map_map [symmetric] del: map_map)
  with a K st1 ct show ?thesis by (simp add: Commit_def Let_def)
qed

lemma Commit_stops:
  assumes ok: "fs_ok s" and room: "room_for (length ws + n) s" and ct: "closeTransaction txn s = (None, s1)"
    and st: "stage_all CtxLive ws (fsNow s) s = Ok xs" and bad: "x \<in> set xs" "\<not> encodes (fst x)"
  shows "\<exists>e s' j. Commit CtxLive txn ws s = (Err e, s') \<and> docs s' = put_staged (docs s) (take j (zip ws xs)) \<and> fs_ok s' \<and>
    room_for n s' \<and> fsTransactions s' = fsTransactions s1 \<and> j < length ws \<and> \<not> encodes (fst (xs ! j))"
proof -
  note K = closeTransaction_keeps [OF ct] and S = stage_all_target [OF st]
  have st1: "stage_all CtxLive ws (fsNow s) s1 = Ok xs" using st stage_all_kv [OF K(1)] by simp
  have T: "\<exists>name. targetOf w = Ok name \<and> validDocName name = None \<and> (\<forall>d. fst x = Some d \<longrightarrow> fdName d = name)" if "(w, x) \<in> set (zip ws xs)" for w x
    using S stage_target [of CtxLive w "fsNow s" s x] that by fastforce
  have len: "length (zip ws xs) = length ws" using S by simp
  obtain w where "(w, x) \<in> set (zip ws xs)" using bad(1) S by (metis in_set_impl_in_set_zip2)
  then obtain e s2 j where a: "apply_all CtxLive (zip ws xs) s1 = (Err e, s2)" "docs s2 = put_staged (docs s1) (take j (zip ws xs))" "fs_ok s2"
      "room_for n s2" "fsTransactions s2 = fsTransactions s1" "j < length (zip ws xs)" "\<not> encodes (fst (snd (zip ws xs ! j)))"
    using apply_all_stops [of s1 "zip ws xs" n w x, OF _ _ T] K ok room len bad(2) by auto
  then show ?thesis using K st1 ct len S by (intro exI [of _ e] exI [of _ s2] exI [of _ j]) (simp add: Commit_def Let_def)
qed

lemma Commit_cases:
  assumes ok: "fs_ok s" and room: "room_for (length ws + n) s" and c: "Commit CtxLive txn ws s = (r, s')"
  shows "(\<exists>e s1. r = Err e \<and> closeTransaction txn s = (s1, s')) \<or>
    (\<exists>e xs s1 j. closeTransaction txn s = (None, s1) \<and> stage_all CtxLive ws (fsNow s) s = Ok xs \<and> r = Err e \<and>
       docs s' = put_staged (docs s) (take j (zip ws xs)) \<and> fs_ok s' \<and> room_for n s' \<and> fsTransactions s' = fsTransactions s1 \<and>
       j < length ws \<and> \<not> encodes (fst (xs ! j))) \<or>
    (\<exists>xs s1. closeTransaction txn s = (None, s1) \<and> stage_all CtxLive ws (fsNow s) s = Ok xs \<and> r = Ok (map result_of xs, fsNow s) \<and>
       docs s' = put_staged (docs s) (zip ws xs) \<and> fs_ok s' \<and> room_for n s' \<and> fsTransactions s' = fsTransactions s1)"
proof -
  obtain e1 s1 where ct: "closeTransaction txn s = (e1, s1)" by force
  have kv: "stage_all CtxLive ws (fsNow s) s1 = stage_all CtxLive ws (fsNow s) s"
    by (rule stage_all_kv) (rule closeTransaction_keeps(1) [OF ct])
  show ?thesis
  proof (cases "\<exists>xs. e1 = None \<and> stage_all CtxLive ws (fsNow s) s = Ok xs")
    case True
    then obtain xs where xs: "e1 = None" "stage_all CtxLive ws (fsNow s) s = Ok xs" by blast
    have ct': "closeTransaction txn s = (None, s1)" using ct xs(1) by simp
    show ?thesis
    proof (cases "\<forall>x\<in>set xs. encodes (fst x)")
      case all: True
      obtain s'' where s'': "Commit CtxLive txn ws s = (Ok (map result_of xs, fsNow s), s'')" "docs s'' = put_staged (docs s) (zip ws xs)"
          "fs_ok s''" "room_for n s''" "fsTransactions s'' = fsTransactions s1"
        using Commit_ok [OF ok room ct' xs(2) all] by blast
      have "r = Ok (map result_of xs, fsNow s)" "s' = s''" using c s''(1) by simp_all
      with s'' ct' xs(2) show ?thesis by blast
    next
      case some: False
      then obtain x where "x \<in> set xs" "\<not> encodes (fst x)" by blast
      from Commit_stops [OF ok room ct' xs(2) this] obtain e s'' j where s'': "Commit CtxLive txn ws s = (Err e, s'')"
          "docs s'' = put_staged (docs s) (take j (zip ws xs))" "fs_ok s''" "room_for n s''" "fsTransactions s'' = fsTransactions s1"
          "j < length ws" "\<not> encodes (fst (xs ! j))" by blast
      have "r = Err e" "s' = s''" using c s''(1) by simp_all
      with s'' ct' xs(2) show ?thesis by blast
    qed
  next
    case False
    then have "\<exists>e. r = Err e \<and> s' = s1"
      using c ct kv by (cases e1; cases "stage_all CtxLive ws (fsNow s) s") (auto simp: Commit_def Let_def)
    with ct show ?thesis by blast
  qed
qed

lemma batch_one_ok:
  assumes "fs_ok s" and "room_for (Suc n) s"
  shows "fs_ok (snd (batch_one CtxLive w now s)) \<and> room_for n (snd (batch_one CtxLive w now s))"
proof (cases "stage CtxLive w now s")
  case (Err e)
  have "room_for n s" using assms(2) unfolding room_for_def by fastforce
  with Err assms show ?thesis by (simp add: batch_one_def)
next
  case (Ok x)
  obtain name where t: "targetOf w = Ok name" "validDocName name = None" "\<forall>d. fst x = Some d \<longrightarrow> fdName d = name" using stage_target [OF Ok] by blast
  show ?thesis
  proof (cases "encodes (fst x)")
    case True
    obtain s1 where "apply_write CtxLive w (fst x) s = (Ok (), s1)" "fs_ok s1" "room_for n s1"
      using apply_write_ok [OF assms t(1,2), of "fst x"] t(3) True by auto
    with Ok show ?thesis by (simp add: batch_one_def)
  next
    case False
    then obtain e where "apply_write CtxLive w (fst x) s = (Err e, s)" using apply_write_refused by blast
    moreover have "room_for n s" using assms(2) unfolding room_for_def by fastforce
    ultimately show ?thesis using Ok assms(1) by (simp add: batch_one_def)
  qed
qed

lemma batch_all_ok:
  "fs_ok s \<Longrightarrow> room_for (length ws + n) s \<Longrightarrow>
   fs_ok (snd (batch_all CtxLive ws now s)) \<and> room_for n (snd (batch_all CtxLive ws now s))"
proof (induction ws arbitrary: s)
  case (Cons w ws)
  obtain r s1 where b: "batch_one CtxLive w now s = (r, s1)" by (cases "batch_one CtxLive w now s")
  then have "fs_ok s1" "room_for (length ws + n) s1" using batch_one_ok [OF Cons.prems(1), of "length ws + n" w now] Cons.prems(2) by auto
  from Cons.IH [OF this] b show ?case by (auto simp: Let_def split: prod.splits)
qed simp

subsection \<open>Queries\<close>

text \<open>The comparison behind \<open>doc_less\<close>, for documents that have the fields.\<close>

definition field_or_null :: "string \<Rightarrow> fdoc \<Rightarrow> fval" where
  "field_or_null path d = (case fieldOf d path of None \<Rightarrow> FNull | Some v \<Rightarrow> v)"

fun doc_cmp :: "order_clause list \<Rightarrow> fdoc \<Rightarrow> fdoc \<Rightarrow> int" where
  "doc_cmp [] = (\<lambda>x y. 0)"
| "doc_cmp (c # cs) =
     cmp_then ((if orDescending c then cmp_rev else id) (\<lambda>x y. compare (field_or_null (orPath c) x) (field_or_null (orPath c) y))) (doc_cmp cs)"

lemma doc_cmp_comparison: "comparison (doc_cmp cs)"
proof (induction cs)
  case Nil
  show ?case by unfold_locales simp_all
next
  case (Cons c cs)
  have "comparison (\<lambda>x y. compare (field_or_null (orPath c) x) (field_or_null (orPath c) y))"
    by (rule comparison_key [OF fval.comparison_axioms])
  then show ?case using Cons by (auto intro: comparison_then comparison_rev)
qed

interpretation doc_order: comparison "doc_cmp cs" for cs
  by (rule doc_cmp_comparison)

lemma doc_less_cmp:
  "\<forall>c\<in>set cs. fieldOf x (orPath c) \<noteq> None \<and> fieldOf y (orPath c) \<noteq> None \<Longrightarrow> doc_less cs x y \<longleftrightarrow> doc_cmp cs x y < 0"
  by (induction cs) (auto simp: cmp_then_def cmp_rev_def field_or_null_def Let_def)

text \<open>Documents before one another in a query's answer: by the clauses, ties by name.\<close>

definition precedes :: "order_clause list \<Rightarrow> fdoc \<Rightarrow> fdoc \<Rightarrow> bool" where
  "precedes cs x y \<longleftrightarrow> doc_less cs x y \<or> \<not> doc_less cs y x \<and> fdName x < fdName y"

lemma order_docs_spec:
  assumes "sorted_wrt (\<lambda>x y. fdName x < fdName y) ds" and "\<forall>d\<in>set ds. \<forall>c\<in>set cs. fieldOf d (orPath c) \<noteq> None"
  shows "sorted_wrt (precedes cs) (order_docs ds cs)" and "set (order_docs ds cs) = set ds"
proof -
  show "set (order_docs ds cs) = set ds" by (simp add: order_docs_def)
  have lt: "doc_less cs x y \<longleftrightarrow> doc_cmp cs x y < 0" if "x \<in> set ds" "y \<in> set ds" for x y
    using assms(2) that by (intro doc_less_cmp) auto
  have "sliceStable (doc_less cs) ds = sliceStable (\<lambda>a b. doc_cmp cs a b < 0) ds" by (rule sliceStable_cong) (rule lt)
  moreover have "sorted_wrt (\<lambda>x y. doc_cmp cs x y < 0 \<or> doc_cmp cs x y = 0 \<and> fdName x < fdName y) (sliceStable (\<lambda>a b. doc_cmp cs a b < 0) ds)"
    by (rule doc_order.sort_lex [OF assms(1)])
  ultimately have "sorted_wrt (\<lambda>x y. doc_cmp cs x y < 0 \<or> doc_cmp cs x y = 0 \<and> fdName x < fdName y) (sliceStable (doc_less cs) ds)" by simp
  then have "sorted_wrt (precedes cs) (sliceStable (doc_less cs) ds)"
  proof (rule sorted_wrt_mono_rel [rotated])
    fix x y assume xy: "x \<in> set (sliceStable (doc_less cs) ds)" "y \<in> set (sliceStable (doc_less cs) ds)"
      and h: "doc_cmp cs x y < 0 \<or> doc_cmp cs x y = 0 \<and> fdName x < fdName y"
    then show "precedes cs x y" using lt [of x y] lt [of y x] doc_order.cmp_flip [of cs y x] by (auto simp: precedes_def)
  qed
  moreover have "sorted_wrt (precedes []) ds"
    by (rule sorted_wrt_mono_rel [OF _ assms(1)]) (simp add: precedes_def)
  ultimately show "sorted_wrt (precedes cs) (order_docs ds cs)" by (simp add: order_docs_def)
qed

lemma put_staged_snoc: "put_staged D (wxs @ [(w, x)]) = (case targetOf w of Ok name \<Rightarrow> (put_staged D wxs)(name := fst x) | Err _ \<Rightarrow> put_staged D wxs)"
  by (cases "targetOf w") (simp_all add: put_staged_def)

text \<open>The last write that targets a document decides it.\<close>

lemma put_staged_last:
  assumes "length xs = length ws" and "i < length ws" and "targetOf (ws ! i) = Ok name"
    and "\<forall>j. i < j \<and> j < length ws \<longrightarrow> targetOf (ws ! j) \<noteq> Ok name"
  shows "put_staged D (zip ws xs) name = fst (xs ! i)"
  using assms
proof (induction ws arbitrary: xs rule: rev_induct)
  case (snoc w ws)
  obtain xs' x where xs: "xs = xs' @ [x]" "length xs' = length ws" using snoc.prems(1) by (cases xs rule: rev_cases) auto
  show ?case
  proof (cases "i = length ws")
    case True
    then show ?thesis using snoc.prems(3) xs by (simp add: put_staged_snoc nth_append)
  next
    case False
    then have i: "i < length ws" using snoc.prems(2) by simp
    have "targetOf w \<noteq> Ok name" using snoc.prems(4) i by force
    moreover have "put_staged D (zip ws xs') name = fst (xs' ! i)"
    proof (rule snoc.IH [OF xs(2) i])
      show "targetOf (ws ! i) = Ok name" using snoc.prems(3) i by (simp add: nth_append)
      show "\<forall>j. i < j \<and> j < length ws \<longrightarrow> targetOf (ws ! j) \<noteq> Ok name" using snoc.prems(4) by (auto simp: nth_append)
    qed
    ultimately show ?thesis using xs i by (cases "targetOf w") (auto simp: put_staged_snoc nth_append)
  qed
qed simp

lemma put_staged_other:
  "\<forall>(w, x)\<in>set wxs. targetOf w \<noteq> Ok name \<Longrightarrow> put_staged D wxs name = D name"
proof (induction wxs rule: rev_induct)
  case (snoc wx wxs)
  then show ?case by (cases wx; cases "targetOf (fst wx)") (auto simp: put_staged_snoc)
qed (simp add: put_staged_def)

subsection \<open>What a collection lists\<close>

definition in_collection :: "string \<Rightarrow> string \<Rightarrow> string \<Rightarrow> bool" where
  "in_collection parent col name \<longleftrightarrow> (\<exists>i. name = parent @ ''/'' @ col @ ''/'' @ i \<and> CHR ''/'' \<notin> set i)"

lemma decode_docs_ok:
  "\<forall>k\<in>set ks. \<exists>e d. memM m k = Some e \<and> entVal e = FSDoc d \<and> k = docKey (fdName d) \<Longrightarrow>
   \<exists>ds. decode_docs pfx (map (kv_at m) ks) = Ok ds \<and> map (docKey \<circ> fdName) ds = filter (\<lambda>k. CHR ''/'' \<notin> set (trimPrefix k pfx)) ks \<and>
     (\<forall>d\<in>set ds. \<exists>e. memM m (docKey (fdName d)) = Some e \<and> entVal e = FSDoc d)"
proof (induction ks)
  case (Cons k ks)
  then obtain e d where k: "memM m k = Some e" "entVal e = FSDoc d" "k = docKey (fdName d)" by auto
  obtain ds where "decode_docs pfx (map (kv_at m) ks) = Ok ds" "map (docKey \<circ> fdName) ds = filter (\<lambda>k. CHR ''/'' \<notin> set (trimPrefix k pfx)) ks"
     "\<forall>d\<in>set ds. \<exists>e. memM m (docKey (fdName d)) = Some e \<and> entVal e = FSDoc d"
    using Cons.IH Cons.prems by (metis list.set_intros(2))
  moreover have "kv_at m k = \<lparr>kvKey = k, kvVal = FSDoc d, kvVersion = entVersion e\<rparr>" using k by (simp add: kv_at_def)
  ultimately show ?case using k by (auto simp: go_contains_char comp_def)
qed simp

lemma collection_spec:
  assumes "fs_ok s"
  shows "\<exists>ds. collection CtxLive parent col s = Ok ds \<and> sorted_wrt (\<lambda>x y. fdName x < fdName y) ds \<and>
    set ds = {d. docs s (fdName d) = Some d \<and> in_collection parent col (fdName d)}"
proof -
  let ?m = "fsKV s" and ?p = "collectionPrefix parent col"
  let ?ks = "list_keys ?p None ?m"
  have wf: "mem_wf ?m" using assms by (simp add: fs_ok_def)
  have pfx: "prefix ?p k \<Longrightarrow> prefix ''fs/d/'' k" for k
    unfolding collectionPrefix_def using docKey_prefix prefix_order.trans by blast
  have all: "\<exists>e d. memM ?m k = Some e \<and> entVal e = FSDoc d \<and> k = docKey (fdName d)" if "k \<in> set ?ks" for k
    using assms that pfx unfolding listed_key [OF wf] fs_ok_def by blast
  obtain ds where ds: "decode_docs ?p (map (kv_at ?m) ?ks) = Ok ds" "map (docKey \<circ> fdName) ds = filter (\<lambda>k. CHR ''/'' \<notin> set (trimPrefix k ?p)) ?ks"
     "\<forall>d\<in>set ds. \<exists>e. memM ?m (docKey (fdName d)) = Some e \<and> entVal e = FSDoc d"
    using decode_docs_ok all by meson
  have "sorted_wrt (<) (map (docKey \<circ> fdName) ds)"
    unfolding ds(2) using list_keys_sorted [OF wf] sorted_wrt_filter by blast
  then have so: "sorted_wrt (\<lambda>x y. fdName x < fdName y) ds" by (simp add: sorted_wrt_map docKey_def append_less_iff)
  have key: "docKey n \<in> set (map (docKey \<circ> fdName) ds) \<longleftrightarrow> in_collection parent col n \<and> memM ?m (docKey n) \<noteq> None" for n
    unfolding ds(2) by (auto simp: listed_key [OF wf] in_collection_def trimPrefix_def prefix_def collectionPrefix_def docKey_def)
  have "d \<in> set ds \<longleftrightarrow> docs s (fdName d) = Some d \<and> in_collection parent col (fdName d)" for d
  proof
    assume "d \<in> set ds"
    then show "docs s (fdName d) = Some d \<and> in_collection parent col (fdName d)" using key [of "fdName d"] ds(3) by (force simp: docs_def)
  next
    assume h: "docs s (fdName d) = Some d \<and> in_collection parent col (fdName d)"
    then have "docKey (fdName d) \<in> set (map (docKey \<circ> fdName) ds)" using key [of "fdName d"] by (auto simp: docs_def split: option.splits)
    then obtain d' where d': "d' \<in> set ds" "fdName d' = fdName d" by auto
    with ds(3) have "docs s (fdName d) = Some d'" by (force simp: docs_def)
    with h d' show "d \<in> set ds" by simp
  qed
  moreover have "collection CtxLive parent col s = Ok ds" using list_all_entries [OF wf, of ?p] ds(1) by (auto simp: collection_def Let_def)
  ultimately show ?thesis using so by blast
qed

lemma doc_less_irrefl [simp]: "\<not> doc_less cs d d"
  by (induction cs) (auto simp: Let_def fval.cmp_refl split: option.splits)

lemma sorted_wrt_irrefl_distinct: "sorted_wrt R xs \<Longrightarrow> (\<And>x. \<not> R x x) \<Longrightarrow> distinct xs"
  by (induction xs) auto

lemma keep_matching_filter: "keep_matching f ds = Ok ks \<Longrightarrow> ks = filter (\<lambda>d. matches_opt d f = Ok True) ds"
  by (induction ds arbitrary: ks) (auto split: result.splits)

lemma window_take_drop:
  "0 \<le> off \<Longrightarrow> (\<And>l. lim = Some l \<Longrightarrow> 0 \<le> l) \<Longrightarrow>
   window ds off lim = (case lim of None \<Rightarrow> drop (nat off) ds | Some l \<Rightarrow> take (nat l) (drop (nat off) ds))"
  by (auto simp: window_def Let_def split: option.splits)

subsection \<open>Every history\<close>

datatype fs_op = CommitOp string "fwrite list" | BatchOp "fwrite list" | BeginOp "string option" | RollbackOp string | TickOp time

fun fs_exec :: "fs_op \<Rightarrow> fs \<Rightarrow> fs" where
  "fs_exec (CommitOp txn ws) s = snd (Commit CtxLive txn ws s)"
| "fs_exec (BatchOp ws) s = snd (BatchWrite CtxLive ws s)"
| "fs_exec (BeginOp rnd) s = snd (BeginTransaction rnd s)"
| "fs_exec (RollbackOp i) s = snd (Rollback i s)"
| "fs_exec (TickOp t) s = s\<lparr>fsNow := t\<rparr>"

fun writes_of :: "fs_op \<Rightarrow> nat" where
  "writes_of (CommitOp _ ws) = length ws"
| "writes_of (BatchOp ws) = length ws"
| "writes_of _ = 0"

definition txns_ok :: "fs \<Rightarrow> bool" where
  "txns_ok s \<longleftrightarrow> distinct (map fst (fsTransactions s)) \<and> length (fsTransactions s) \<le> MaxOpenTransactions"

lemma apply_write_txns: "fsTransactions (snd (apply_write cx w d s)) = fsTransactions s"
  by (auto simp: apply_write_def Let_def split: option.splits result.splits prod.splits store_error.splits)

lemma batch_one_txns: "fsTransactions (snd (batch_one cx w now s)) = fsTransactions s"
  using apply_write_txns [of cx w _ s] by (auto simp: batch_one_def split: result.splits prod.splits) (metis snd_conv)+

lemma batch_all_txns [simp]: "fsTransactions (snd (batch_all cx ws now s)) = fsTransactions s"
proof (induction ws arbitrary: s)
  case (Cons w ws)
  then show ?case using batch_one_txns [of cx w now s] by (simp add: Let_def split: prod.splits) (metis snd_conv)
qed simp

lemma begin_kv: "fsKV (snd (BeginTransaction rnd s)) = fsKV s"
  by (auto simp: BeginTransaction_def expireTransactions_def Let_def split: result.splits)

lemma fs_ok_cong: "fsKV s = fsKV t \<Longrightarrow> fs_ok s = fs_ok t" by (simp add: fs_ok_def)

lemma room_for_cong: "fsKV s = fsKV t \<Longrightarrow> room_for n s = room_for n t" by (simp add: room_for_def)

lemma room_for_mono: "room_for (m + n) s \<Longrightarrow> room_for n s"
  unfolding room_for_def by fastforce

lemma delete_txn_ok:
  "txns_ok s \<Longrightarrow> distinct (map fst (AList.delete i (fsTransactions s))) \<and> length (AList.delete i (fsTransactions s)) \<le> MaxOpenTransactions"
  unfolding txns_ok_def by (auto simp: AList.delete_eq distinct_map_filter intro: order.trans [OF length_filter_le])

lemma close_txn_ok: "txns_ok s \<Longrightarrow> closeTransaction i s = (r, s') \<Longrightarrow> txns_ok s'"
  using delete_txn_ok [of s i] by (auto simp: closeTransaction_def txns_ok_def split: if_splits)

lemma length_update_le: "length (AList.update i t ts) \<le> Suc (length ts)"
  by (induction ts) auto

lemma begin_txn_ok: "txns_ok s \<Longrightarrow> txns_ok (snd (BeginTransaction rnd s))"
proof -
  assume a: "txns_ok s"
  let ?ts = "fsTransactions (expireTransactions s)"
  have e: "distinct (map fst ?ts)" "length ?ts \<le> MaxOpenTransactions"
    using a by (auto simp: expireTransactions_def txns_ok_def distinct_map_filter intro: order.trans [OF length_filter_le])
  from a e show ?thesis
    by (auto simp: BeginTransaction_def txns_ok_def Let_def distinct_update length_update_le split: result.splits intro: order.trans [OF length_update_le])
qed

lemma fs_exec_ok:
  assumes "fs_ok s" and "room_for (writes_of x + n) s" and "txns_ok s"
  shows "fs_ok (fs_exec x s) \<and> room_for n (fs_exec x s) \<and> txns_ok (fs_exec x s)"
proof (cases x)
  case (CommitOp txn ws)
  obtain r s' where c: "Commit CtxLive txn ws s = (r, s')" by force
  have "room_for (length ws + n) s" using assms(2) CommitOp by simp
  from Commit_cases [OF assms(1) this c] have "fs_ok s' \<and> room_for n s' \<and> txns_ok s'"
  proof (elim disjE exE conjE)
    fix e s1 assume ct: "closeTransaction txn s = (s1, s')"
    note K = closeTransaction_keeps [OF ct]
    show ?thesis using K(4,5) close_txn_ok [OF assms(3) ct] room_for_mono [OF assms(2)] assms(1) by simp
  next
    fix s1 assume ct: "closeTransaction txn s = (None, s1)" and t: "fsTransactions s' = fsTransactions s1" and ok: "fs_ok s'" "room_for n s'"
    show ?thesis using ok close_txn_ok [OF assms(3) ct] t by (simp add: txns_ok_def)
  next
    fix s1 assume ct: "closeTransaction txn s = (None, s1)" and t: "fsTransactions s' = fsTransactions s1" and ok: "fs_ok s'" "room_for n s'"
    show ?thesis using ok close_txn_ok [OF assms(3) ct] t by (simp add: txns_ok_def)
  qed
  with c CommitOp show ?thesis by simp
next
  case (BatchOp ws)
  then show ?thesis using assms batch_all_ok [of s ws n "fsNow s"] batch_all_txns by (simp add: BatchWrite_def txns_ok_def)
next
  case (BeginOp rnd)
  then show ?thesis using assms begin_txn_ok [OF assms(3)] begin_kv [of rnd s] by (simp add: fs_ok_def room_for_def)
next
  case (RollbackOp i)
  then show ?thesis using assms delete_txn_ok [OF assms(3), of i] by (auto simp: Rollback_def fs_ok_def room_for_def txns_ok_def)
next
  case (TickOp t)
  then show ?thesis using assms by (simp add: fs_ok_def room_for_def txns_ok_def)
qed

lemma fs_run_ok:
  "fs_ok s \<Longrightarrow> room_for (sum_list (map writes_of xs) + n) s \<Longrightarrow> txns_ok s \<Longrightarrow>
   fs_ok (fold fs_exec xs s) \<and> room_for n (fold fs_exec xs s) \<and> txns_ok (fold fs_exec xs s)"
proof (induction xs arbitrary: s)
  case (Cons x xs)
  then have "fs_ok (fs_exec x s) \<and> room_for (sum_list (map writes_of xs) + n) (fs_exec x s) \<and> txns_ok (fs_exec x s)"
    by (intro fs_exec_ok) (simp_all add: add.assoc)
  with Cons.IH show ?case by simp
qed simp

subsection \<open>A concrete state\<close>

definition demo_name :: string where "demo_name = ''p/documents/c/a''"

definition demo_doc :: fdoc where
  "demo_doc = \<lparr>fdName = demo_name, fdFields = [(''n'', FInt 4), (''s'', FStr ''x'')], fdCreate = 1, fdUpdate = 1\<rparr>"

definition demo_fs :: fs where
  "demo_fs = \<lparr>fsKV = \<lparr>memM = [docKey demo_name \<mapsto> \<lparr>entVal = FSDoc demo_doc, entVersion = 1\<rparr>], memKeys = [docKey demo_name]\<rparr>,
     fsNow = 2, fsTransactions = []\<rparr>"

lemma demo_valid: "validDocName demo_name = None" by code_simp

lemma demo_fs_ok: "fs_ok demo_fs"
  using demo_valid by (simp add: fs_ok_def demo_fs_def mem_wf_def versions_ok_def demo_doc_def)

lemma demo_room: "room_for n demo_fs \<longleftrightarrow> n + 1 < 2 ^ 64" by (auto simp: room_for_def demo_fs_def)

lemma demo_docs: "docs demo_fs demo_name = Some demo_doc" by (simp add: docs_def demo_fs_def)

definition set_field :: "string \<Rightarrow> fval \<Rightarrow> fwrite" where
  "set_field f v = \<lparr>wrOp = UpdateOp (demo_doc\<lparr>fdFields := [(f, v)]\<rparr>), wrMask = Some [f], wrTransforms = [], wrCurrent = Exists True\<rparr>"

definition demo_writes :: "fwrite list" where "demo_writes = [set_field ''n'' (FInt 5), set_field ''s'' (FStr ''y'')]"

definition demo_staged :: "(fdoc option \<times> fval option list) list" where
  "demo_staged = [(Some (demo_doc\<lparr>fdFields := [(''n'', FInt 5), (''s'', FStr ''x'')], fdUpdate := 2\<rparr>), []),
     (Some (demo_doc\<lparr>fdFields := [(''n'', FInt 4), (''s'', FStr ''y'')], fdUpdate := 2\<rparr>), [])]"

lemma demo_stage: "stage_all CtxLive demo_writes (fsNow demo_fs) demo_fs = Ok demo_staged"
  by code_simp

lemma demo_encodes: "\<forall>x\<in>set demo_staged. encodes (fst x)"
  by (simp add: demo_staged_def encodes_def encodable_def demo_doc_def demo_name_def json_time_def second_def utf8_ascii)

lemma demo_commit: "\<exists>s'. Commit CtxLive '''' demo_writes demo_fs = (Ok (map result_of demo_staged, fsNow demo_fs), s')"
  using Commit_ok [OF demo_fs_ok _ _ demo_stage demo_encodes, of 0 "''''"  demo_fs] by (auto simp: demo_room demo_writes_def closeTransaction_def)

definition demo_query :: query where
  "demo_query = \<lparr>qFrom = [(''c'', False)], qWhere = None, qOrderBy = [\<lparr>orPath = ''n'', orDescending = False\<rparr>], qOffset = 0, qLimit = Some 3\<rparr>"

lemma demo_query_runs: "RunQuery CtxLive ''p/documents'' (Some demo_query) demo_fs = Ok [(demo_doc, 2)]"
  by code_simp

subsection \<open>Properties\<close>

text \<open>
  C21: the store keeps its type.  After any sequence of commits, batches, transaction calls and clock changes every entry is a
  document under the key of its own, valid, name, and there are at most as many open transactions as the service allows, with
  distinct identifiers.
\<close>

theorem documents_well_typed:
  assumes "sum_list (map writes_of xs) + 1 < 2 ^ 64" and "s = fold fs_exec xs (New_fs NewMemory t)"
  shows "(\<forall>k e. memM (fsKV s) k = Some e \<and> prefix ''fs/d/'' k \<longrightarrow>
      (\<exists>d. entVal e = FSDoc d \<and> k = docKey (fdName d) \<and> validDocName (fdName d) = None)) \<and>
    distinct (map fst (fsTransactions s)) \<and> length (fsTransactions s) \<le> MaxOpenTransactions"
proof -
  have "fs_ok s \<and> room_for 0 s \<and> txns_ok s" unfolding assms(2)
    by (rule fs_run_ok) (use assms(1) in \<open>auto simp: fs_ok_def room_for_def txns_ok_def New_fs_def NewMemory_def mem_wf_New [unfolded NewMemory_def]\<close>)
  then show ?thesis by (simp add: fs_ok_def txns_ok_def)
qed

theorem documents_well_typed_witness:
  "length (fsTransactions (fold fs_exec [BeginOp (Some ''0123456789abcdef''), CommitOp '''' demo_writes] (New_fs NewMemory 0))) \<le> MaxOpenTransactions"
  using documents_well_typed [OF _ refl, of "[BeginOp (Some ''0123456789abcdef''), CommitOp '''' demo_writes]" 0] by (simp add: demo_writes_def)


text \<open>
  C8: a commit applies as a unit when its documents can be encoded (texts in UTF-8, times of the years 1 to 9999) and its context
  holds throughout.  If it then answers with an error, no document has changed.  If it succeeds, every write was staged against the
  documents as they were before the commit, each document is what the last write that names it staged, the others are untouched.
  Encodable or not, every entry is still a document under its own name.
\<close>

theorem commit_applies_as_unit:
  assumes "fs_ok s" and "room_for (length ws) s" and "Commit CtxLive txn ws s = (r, s')"
  shows "fs_ok s' \<and>
    (case r of
       Err e \<Rightarrow> (\<forall>w\<in>set ws. \<forall>x. stage CtxLive w (fsNow s) s = Ok x \<longrightarrow> encodes (fst x)) \<longrightarrow> docs s' = docs s
     | Ok (rs, t) \<Rightarrow>
         \<exists>xs. length xs = length ws \<and> (\<forall>(w, x)\<in>set (zip ws xs). stage CtxLive w (fsNow s) s = Ok x) \<and> rs = map result_of xs \<and> t = fsNow s \<and>
           (\<forall>i name. i < length ws \<and> targetOf (ws ! i) = Ok name \<and> (\<forall>j. i < j \<and> j < length ws \<longrightarrow> targetOf (ws ! j) \<noteq> Ok name) \<longrightarrow>
              docs s' name = fst (xs ! i)) \<and>
           (\<forall>name. (\<forall>w\<in>set ws. targetOf w \<noteq> Ok name) \<longrightarrow> docs s' name = docs s name))"
  using Commit_cases [OF assms(1) _ assms(3), of 0] assms(2)
proof (simp, elim disjE exE conjE)
  fix e s1 assume "r = Err e" "closeTransaction txn s = (s1, s')"
  then show ?thesis using closeTransaction_keeps [of txn s s1 s'] assms(1) by simp
next
  fix e xs s1 j assume xs: "stage_all CtxLive ws (fsNow s) s = Ok xs" "r = Err e" "fs_ok s'" "j < length ws" "\<not> encodes (fst (xs ! j))"
  note S = stage_all_target [OF xs(1)]
  have "(ws ! j, xs ! j) \<in> set (zip ws xs)" using S xs(4) by (auto simp: set_zip)
  then have "stage CtxLive (ws ! j) (fsNow s) s = Ok (xs ! j)" using S by blast
  moreover have "ws ! j \<in> set ws" using xs(4) by simp
  ultimately have "\<not> (\<forall>w\<in>set ws. \<forall>x. stage CtxLive w (fsNow s) s = Ok x \<longrightarrow> encodes (fst x))" using xs(5) by blast
  then show ?thesis using xs(2,3) by auto
next
  fix xs s1 assume xs: "stage_all CtxLive ws (fsNow s) s = Ok xs" "r = Ok (map result_of xs, fsNow s)"
    "docs s' = put_staged (docs s) (zip ws xs)" "fs_ok s'"
  note S = stage_all_target [OF xs(1)]
  have "docs s' name = docs s name" if "\<forall>w\<in>set ws. targetOf w \<noteq> Ok name" for name
    unfolding xs(3) by (rule put_staged_other) (use that in \<open>auto dest: set_zip_leftD\<close>)
  moreover have "docs s' name = fst (xs ! i)" if "i < length ws" "targetOf (ws ! i) = Ok name" "\<forall>j. i < j \<and> j < length ws \<longrightarrow> targetOf (ws ! j) \<noteq> Ok name" for i name
    unfolding xs(3) using that S by (intro put_staged_last) auto
  ultimately show ?thesis using xs S by auto
qed

theorem commit_applies_as_unit_witness:
  "fs_ok (snd (Commit CtxLive '''' demo_writes demo_fs)) \<and>
   (\<exists>x. stage CtxLive (demo_writes ! 1) (fsNow demo_fs) demo_fs = Ok x \<and> docs (snd (Commit CtxLive '''' demo_writes demo_fs)) demo_name = fst x)"
proof -
  obtain s' where c: "Commit CtxLive '''' demo_writes demo_fs = (Ok (map result_of demo_staged, fsNow demo_fs), s')" using demo_commit by blast
  have room: "room_for (length demo_writes) demo_fs" by (simp add: demo_room demo_writes_def)
  have t: "targetOf (demo_writes ! 1) = Ok demo_name" by (simp add: demo_writes_def set_field_def targetOf_def demo_doc_def)
  obtain xs where "fs_ok s'" "length xs = length demo_writes" "\<forall>(w, x)\<in>set (zip demo_writes xs). stage CtxLive w (fsNow demo_fs) demo_fs = Ok x"
      "docs s' demo_name = fst (xs ! 1)"
    using commit_applies_as_unit [OF demo_fs_ok room c] t by (force simp: demo_writes_def less_Suc_eq)
  moreover from this(2) have "(demo_writes ! 1, xs ! 1) \<in> set (zip demo_writes xs)" by (auto simp: set_zip demo_writes_def intro!: exI [of _ 1])
  ultimately have "stage CtxLive (demo_writes ! 1) (fsNow demo_fs) demo_fs = Ok (xs ! 1)" "fs_ok s'" "docs s' demo_name = fst (xs ! 1)" by blast+
  then show ?thesis using c by (intro conjI exI [of _ "xs ! 1"]) simp_all
qed

text \<open>
  C15: a query answers with the documents it should, in the order it should.  The answer is the window \<open>offset\<close>, \<open>limit\<close> of the
  list that holds exactly the stored documents directly in the collection that match the filter and have every field the query
  orders by, sorted by the clauses, ties by name, no document twice.
\<close>

theorem query_answers_in_order:
  assumes "fs_ok s" and "RunQuery CtxLive parent (Some q) s = Ok out"
  shows "\<exists>full. sorted_wrt (precedes (qOrderBy q)) full \<and> distinct full \<and>
    set full = {d. docs s (fdName d) = Some d \<and> in_collection parent (fst (hd (qFrom q))) (fdName d) \<and> matches_opt d (qWhere q) = Ok True \<and>
      (\<forall>c\<in>set (qOrderBy q). fieldOf d (orPath c) \<noteq> None)} \<and>
    out = map (\<lambda>d. (d, fsNow s)) (case qLimit q of None \<Rightarrow> drop (nat (qOffset q)) full | Some l \<Rightarrow> take (nat l) (drop (nat (qOffset q)) full))"
proof -
  let ?cs = "qOrderBy q" and ?col = "fst (hd (qFrom q))"
  obtain ds where ds: "collection CtxLive parent ?col s = Ok ds" "sorted_wrt (\<lambda>x y. fdName x < fdName y) ds"
      "set ds = {d. docs s (fdName d) = Some d \<and> in_collection parent ?col (fdName d)}"
    using collection_spec [OF assms(1)] by blast
  obtain ks where ks: "keep_matching (qWhere q) ds = Ok ks" and q: "0 \<le> qOffset q" "\<And>l. qLimit q = Some l \<Longrightarrow> 0 \<le> l"
    and out: "out = map (\<lambda>d. (d, fsNow s)) (window (order_docs (withOrderedFields ks ?cs) ?cs) (qOffset q) (qLimit q))"
    using assms(2) ds(1) by (auto simp: RunQuery_def Let_def split: if_splits result.splits option.splits)
  let ?w = "withOrderedFields ks ?cs"
  have w: "?w = filter (\<lambda>d. \<forall>c\<in>set ?cs. fieldOf d (orPath c) \<noteq> None) (filter (\<lambda>d. matches_opt d (qWhere q) = Ok True) ds)"
    using keep_matching_filter [OF ks] by (simp add: withOrderedFields_def)
  have so: "sorted_wrt (\<lambda>x y. fdName x < fdName y) ?w" unfolding w by (intro sorted_wrt_filter ds(2))
  have "\<forall>d\<in>set ?w. \<forall>c\<in>set ?cs. fieldOf d (orPath c) \<noteq> None" by (simp add: w)
  note O = order_docs_spec [OF so this]
  have "distinct (order_docs ?w ?cs)" by (rule sorted_wrt_irrefl_distinct [OF O(1)]) (simp add: precedes_def)
  moreover have "set (order_docs ?w ?cs) = {d. docs s (fdName d) = Some d \<and> in_collection parent ?col (fdName d) \<and> matches_opt d (qWhere q) = Ok True \<and>
      (\<forall>c\<in>set ?cs. fieldOf d (orPath c) \<noteq> None)}"
    unfolding O(2) by (auto simp: w ds(3))
  moreover have "out = map (\<lambda>d. (d, fsNow s)) (case qLimit q of None \<Rightarrow> drop (nat (qOffset q)) (order_docs ?w ?cs)
      | Some l \<Rightarrow> take (nat l) (drop (nat (qOffset q)) (order_docs ?w ?cs)))"
    unfolding out by (rule arg_cong [OF window_take_drop]) (use q in auto)
  ultimately show ?thesis using O(1) by blast
qed

theorem query_answers_in_order_witness:
  "\<exists>full. sorted_wrt (precedes (qOrderBy demo_query)) full \<and> [(demo_doc, 2)] = map (\<lambda>d. (d, 2)) (take 3 full)"
  using query_answers_in_order [OF demo_fs_ok demo_query_runs] by (auto simp: demo_query_def demo_fs_def)

text \<open>
  Of two writes to one document in a commit the first has no effect.  Both are staged against the document as it was before
  the commit, so the second, a masked update of another field included, overwrites what the first stored.
\<close>

theorem earlier_write_of_commit_lost:
  assumes "fs_ok s" and "room_for 2 s" and "targetOf w2 = targetOf w1" and "Commit CtxLive txn [w1, w2] s = (Ok r, s2)"
  shows "\<exists>r' s1. Commit CtxLive txn [w2] s = (Ok r', s1) \<and> docs s1 = docs s2"
proof -
  have r2: "room_for (length [w1, w2]) s" using assms(2) by (simp add: numeral_2_eq_2)
  then have r1: "room_for (length [w2]) s" by (fastforce simp: room_for_def)
  obtain xs s1 where x: "closeTransaction txn s = (None, s1)" "stage_all CtxLive [w1, w2] (fsNow s) s = Ok xs"
      "docs s2 = put_staged (docs s) (zip [w1, w2] xs)"
    using Commit_cases [OF assms(1) _ assms(4), of 0] r2 by auto
  have enc: "\<forall>x\<in>set xs. encodes (fst x)"
  proof (rule ccontr)
    assume "\<not> ?thesis"
    then obtain y where "y \<in> set xs" "\<not> encodes (fst y)" by blast
    from Commit_stops [OF assms(1) _ x(1,2) this, of 0] r2 assms(4) show False by auto
  qed
  obtain x1 x2 where xs: "xs = [x1, x2]" "stage CtxLive w2 (fsNow s) s = Ok x2" "stage CtxLive w1 (fsNow s) s = Ok x1"
    using x(2) by (auto split: result.splits)
  obtain s' where s': "Commit CtxLive txn [w2] s = (Ok (map result_of [x2], fsNow s), s')" "docs s' = put_staged (docs s) (zip [w2] [x2])"
    using Commit_ok [OF assms(1) _ x(1), of "[w2]" 0 "[x2]"] r1 xs(1,2) enc by auto
  obtain name where "targetOf w2 = Ok name" using stage_target [OF xs(2)] by blast
  then have "put_staged (docs s) (zip [w1, w2] xs) = put_staged (docs s) (zip [w2] [x2])"
    using assms(3) by (simp add: put_staged_def xs)
  with s' x(3) show ?thesis by auto
qed

theorem earlier_write_of_commit_lost_witness:
  "\<exists>r s1. Commit CtxLive '''' [set_field ''s'' (FStr ''y'')] demo_fs = (Ok r, s1) \<and> docs s1 = docs (snd (Commit CtxLive '''' demo_writes demo_fs))"
proof -
  obtain s' where "Commit CtxLive '''' demo_writes demo_fs = (Ok (map result_of demo_staged, fsNow demo_fs), s')" using demo_commit by blast
  then show ?thesis
    using earlier_write_of_commit_lost [OF demo_fs_ok, of "set_field ''s'' (FStr ''y'')" "set_field ''n'' (FInt 5)" "''''"]
    by (simp add: demo_room demo_writes_def set_field_def targetOf_def)
qed

text \<open>
  A transform sent as its own write erases the document.  Without an update mask nothing of the stored document is copied, so
  an increment starts from zero and every other field is gone.
\<close>

theorem bare_transform_erases_document:
  assumes "fs_ok s" and "room_for 1 s" and "docs s name = Some d" and "validDocName name = None" and "CHR ''.'' \<notin> set f"
    and "utf8 name" and "utf8 f" and "json_time (fdCreate d)" and "json_time (fsNow s)"
  shows "\<exists>r s' d'. Commit CtxLive ''''
      [\<lparr>wrOp = TransformOp name [(f, Increment (FInt n))], wrMask = None, wrTransforms = [], wrCurrent = NoPrecondition\<rparr>] s = (Ok r, s') \<and>
    docs s' name = Some d' \<and> fdFields d' = [(f, FInt (i64 n))]"
proof -
  let ?w = "\<lparr>wrOp = TransformOp name [(f, Increment (FInt n))], wrMask = None, wrTransforms = [], wrCurrent = NoPrecondition\<rparr>"
  let ?d = "\<lparr>fdName = name, fdFields = [(f, FInt (i64 n))], fdCreate = fdCreate d, fdUpdate = fsNow s\<rparr>"
  obtain v where g: "get_fs CtxLive name s = Ok (Some (d, v))" using get_fs_docs [OF assms(1), of name] assms(3) by auto
  have p: "splitPath f = [f]" using assms(5) by (simp add: splitPath_def split_on_word)
  have "applyTransforms [] [(f, Increment (FInt n))] (fsNow s) = Ok ([(f, FInt (i64 n))], [Some (FInt (i64 n))])"
    by (simp add: evaluate_def lookup_def setPath_def p addNumbers_def)
  then have "stage CtxLive ?w (fsNow s) s = Ok (Some ?d, [Some (FInt (i64 n))])"
    using g assms(4) by (simp add: stage_def targetOf_def checkPrecondition_def incoming_def transformsOf_def Let_def)
  then have st: "stage_all CtxLive [?w] (fsNow s) s = Ok [(Some ?d, [Some (FInt (i64 n))])]" by simp
  have rm: "room_for (length [?w]) s" using assms(2) by simp
  obtain s' where "Commit CtxLive '''' [?w] s = (Ok (map result_of [(Some ?d, [Some (FInt (i64 n))])], fsNow s), s')"
      "docs s' = put_staged (docs s) (zip [?w] [(Some ?d, [Some (FInt (i64 n))])])"
    using Commit_ok [OF assms(1) _ _ st, of 0 "''''" s] rm assms(6-9) by (auto simp: closeTransaction_def encodes_def encodable_def)
  then show ?thesis by (auto simp: put_staged_def targetOf_def)
qed

theorem bare_transform_erases_document_witness:
  "\<exists>r s' d'. Commit CtxLive ''''
      [\<lparr>wrOp = TransformOp demo_name [(''n'', Increment (FInt 1))], wrMask = None, wrTransforms = [], wrCurrent = NoPrecondition\<rparr>] demo_fs = (Ok r, s') \<and>
    docs s' demo_name = Some d' \<and> fdFields d' = [(''n'', FInt 1)]"
  using bare_transform_erases_document [OF demo_fs_ok _ demo_docs demo_valid, of "''n''" 1] demo_encodes
  by (auto simp: demo_room i64_def demo_staged_def encodes_def encodable_def utf8_ascii) (simp_all add: json_time_def demo_doc_def demo_fs_def second_def demo_name_def)

text \<open>
  Two maps always compare equal, so \<open>ArrayUnion\<close> of a map drops it silently when the array holds any map at all.
\<close>

theorem array_union_drops_maps:
  assumes "FMap m \<in> set xs"
  shows "evaluate (AppendMissingElements [FMap m']) (Some (FArr xs)) now = Ok (Some (FArr xs))"
proof -
  have "compare (FMap m) (FMap m') = 0" by (simp add: compare.simps)
  with assms have "anyEqual xs (FMap m')" by (auto simp: anyEqual_def)
  then show ?thesis by (simp add: evaluate_def appendMissing_def existing_def)
qed

theorem array_union_drops_maps_witness:
  "evaluate (AppendMissingElements [FMap [(''a'', FInt 2)]]) (Some (FArr [FMap [(''a'', FInt 1)]])) 0 = Ok (Some (FArr [FMap [(''a'', FInt 1)]]))"
  by (rule array_union_drops_maps [of "[(''a'', FInt 1)]"]) simp

text \<open>
  A value that cannot be encoded breaks the unit: a write with a time after the year 9999 passes the staging and fails when it is
  applied, and the writes before it stay.
\<close>

definition late_write :: fwrite where
  "late_write = \<lparr>wrOp = UpdateOp \<lparr>fdName = ''p/documents/c/b'', fdFields = [(''t'', FTime (253402300800 * second))], fdCreate = 0, fdUpdate = 0\<rparr>,
     wrMask = None, wrTransforms = [], wrCurrent = NoPrecondition\<rparr>"

definition late_staged :: "(fdoc option \<times> fval option list) list" where
  "late_staged = [(Some (demo_doc\<lparr>fdFields := [(''n'', FInt 5), (''s'', FStr ''x'')], fdUpdate := 2\<rparr>), []),
     (Some \<lparr>fdName = ''p/documents/c/b'', fdFields = [(''t'', FTime (253402300800 * second))], fdCreate = 2, fdUpdate = 2\<rparr>, [])]"

lemma late_stage: "stage_all CtxLive [set_field ''n'' (FInt 5), late_write] (fsNow demo_fs) demo_fs = Ok late_staged"
  by code_simp

theorem commit_half_applied:
  "\<exists>e s'. Commit CtxLive '''' [set_field ''n'' (FInt 5), late_write] demo_fs = (Err e, s') \<and>
     map_option fdFields (docs demo_fs demo_name) = Some [(''n'', FInt 4), (''s'', FStr ''x'')] \<and>
     map_option fdFields (docs s' demo_name) = Some [(''n'', FInt 5), (''s'', FStr ''x'')]"
proof -
  let ?ws = "[set_field ''n'' (FInt 5), late_write]"
  have ct: "closeTransaction '''' demo_fs = (None, demo_fs)" by (simp add: closeTransaction_def)
  have room: "room_for (length ?ws + 0) demo_fs" by (simp add: demo_room)
  have enc: "encodes (fst (late_staged ! 0))" "late_staged ! 1 \<in> set late_staged" "\<not> encodes (fst (late_staged ! 1))"
    using demo_encodes by (auto simp: late_staged_def demo_staged_def encodes_def encodable_def json_time_def)
  from Commit_stops [OF demo_fs_ok room ct late_stage enc(2,3)] obtain e s' j where c: "Commit CtxLive '''' ?ws demo_fs = (Err e, s')"
    "docs s' = put_staged (docs demo_fs) (take j (zip ?ws late_staged))" "j < length ?ws" "\<not> encodes (fst (late_staged ! j))" by blast
  have "j = 1" using c(3,4) enc(1) by (auto simp: less_Suc_eq)
  with c(1,2) show ?thesis
    by (auto simp: demo_docs demo_doc_def put_staged_def late_staged_def set_field_def targetOf_def)
qed

end
