(* ===== verification/Cloud_Scheduler.thy ===== *)
theory Cloud_Scheduler
  imports KV_Store Fake_Clock Gerr
begin

text \<open>
  Cloud Scheduler (\<open>services/cloudscheduler\<close>): jobs in the key-value store, one timer per enabled job on the manual clock,
  re-armed for the next cron time at every fire.

  A timer's callback is the name of the job it fires.  Parsing a cron expression is the work of the package
  \<open>robfig/cron\<close>: \<open>cron\<close> stands for it, and gives the error text or the function \<open>Next\<close> of the schedule.  Every
  call runs under the service's lock; the delivery after the lock is dropped reads nothing of the service.
  \<open>csInFlight\<close> are the HTTP deliveries launched as goroutines and not yet finished, \<open>csPublished\<close> is the trace of calls
  of \<open>publish\<close>.
\<close>

subsection \<open>Records (cloudscheduler.go)\<close>

record job_http =
  jhUri :: string
  jhMethod :: string
  jhHeaders :: "(string \<times> string) list"
  jhBody :: string

record job_topic =
  jtTopic :: string
  jtData :: string
  jtAttributes :: "(string \<times> string) list"

datatype job_target = NoJobTarget | PubsubJob job_topic | HttpJob job_http | AppEngineJob

datatype job_state = JobUnspecified | JobEnabled | JobPaused | JobDisabled | JobUpdateFailed

record job =
  jbName :: string
  jbSchedule :: string
  jbTimeZone :: string
  jbTarget :: job_target
  jbState :: job_state
  jbUserUpdate :: "time option"
  jbLastAttempt :: "time option"
  jbDeadline :: "duration option"

datatype csval = CSNil | CSJob job

instantiation csval :: zero
begin
definition zero_csval_def: "0 = CSNil"
instance ..
end

record cs =
  csKV :: "csval memory"
  csClock :: "string fakeClock"
  csTimers :: "string \<rightharpoonup> nat"
  csPublish :: bool  \<comment> \<open>whether \<open>publish\<close> is wired\<close>
  csPublished :: "(time \<times> job_topic) list"
  csInFlight :: "job list"
  csStarted :: nat

type_synonym cron = "string \<Rightarrow> (string, time \<Rightarrow> time) result"

definition jobKey :: "string \<Rightarrow> string" where "jobKey name = ''cs/j/'' @ name"

definition jobPrefix :: "string \<Rightarrow> string" where "jobPrefix parent = ''cs/j/'' @ parent @ ''/jobs/''"

definition validJobName :: "string \<Rightarrow> rpc_error option" where
  "validJobName name =
     (let parts = split_on (CHR ''/'') name
      in if length parts \<noteq> 6 \<or> parts ! 0 \<noteq> ''projects'' \<or> parts ! 2 \<noteq> ''locations'' \<or>
            parts ! 4 \<noteq> ''jobs'' \<or> parts ! 1 = '''' \<or> parts ! 3 = '''' \<or> parts ! 5 = ''''
         then Some (Errorf InvalidArgument
                ''invalid job name %q; expected projects/{p}/locations/{l}/jobs/{j}'' [name])
         else None)"

definition getJobRecord :: "string \<Rightarrow> cs \<Rightarrow> (rpc_error, job) result" where
  "getJobRecord name s =
     (case mem_Get CtxLive (jobKey name) (csKV s) of
        Err _ \<Rightarrow> Err (Errorf NotFound ''Job not found: %s'' [name])
      | Ok (CSJob j, _) \<Rightarrow> Ok j
      | Ok _ \<Rightarrow> Err (Errorf Internal ''decoding job: %v'' [''protojson'']))"

definition putJob :: "job \<Rightarrow> cs \<Rightarrow> (rpc_error, unit) result \<times> cs" where
  "putJob j s =
     (let ifVersion = (case mem_Get CtxLive (jobKey (jbName j)) (csKV s) of Ok (_, i) \<Rightarrow> i | Err _ \<Rightarrow> 0)
      in case mem_Put CtxLive (jobKey (jbName j)) (CSJob j) ifVersion (csKV s) of
           (Err e, m) \<Rightarrow> (Err (Errorf Internal ''storing job: %v'' [store_text e]), s\<lparr>csKV := m\<rparr>)
         | (Ok _, m) \<Rightarrow> (Ok (), s\<lparr>csKV := m\<rparr>))"

subsection \<open>Firing (dispatch.go)\<close>

definition arm_job :: "cron \<Rightarrow> job \<Rightarrow> time \<Rightarrow> cs \<Rightarrow> cs" where
  "arm_job cron j base s =
     (if jbState j = JobPaused then s
      else case cron (jbSchedule j) of
             Err _ \<Rightarrow> s
           | Ok nextTime \<Rightarrow>
               let delay0 = time_sub (nextTime base) (ckNow (csClock s));
                   delay = (if delay0 < 0 then 0 else delay0);
                   (p, c) = AfterFunc delay (jbName j) (csClock s)
               in s\<lparr>csClock := c, csTimers := (csTimers s)(jbName j \<mapsto> p)\<rparr>)"

definition deliverPubsub :: "job_topic \<Rightarrow> cs \<Rightarrow> cs" where
  "deliverPubsub t s =
     (if \<not> csPublish s then s else s\<lparr>csPublished := csPublished s @ [(ckNow (csClock s), t)]\<rparr>)"

definition deliver :: "job \<Rightarrow> cs \<Rightarrow> cs" where
  "deliver j s =
     (case jbTarget j of
        PubsubJob t \<Rightarrow> deliverPubsub t s
      | HttpJob _ \<Rightarrow> s\<lparr>csStarted := u64 (csStarted s + 1), csInFlight := csInFlight s @ [j]\<rparr>
      | _ \<Rightarrow> s)"

definition fire :: "cron \<Rightarrow> string \<Rightarrow> cs \<Rightarrow> cs" where
  "fire cron name s =
     (case getJobRecord name s of
        Err _ \<Rightarrow> s
      | Ok j0 \<Rightarrow>
          if jbState j0 = JobPaused then s
          else
            let firedAt = ckNow (csClock s);
                j = j0\<lparr>jbLastAttempt := Some firedAt\<rparr>;
                (_, s1) = putJob j s
            in deliver j (arm_job cron j firedAt s1))"

fun arm_entries :: "cron \<Rightarrow> csval kv list \<Rightarrow> cs \<Rightarrow> cs" where
  "arm_entries cron [] s = s"
| "arm_entries cron (kv # kvs) s =
     arm_entries cron kvs (case kvVal kv of CSJob j \<Rightarrow> arm_job cron j (ckNow (csClock s)) s | _ \<Rightarrow> s)"

definition recover_cs :: "cron \<Rightarrow> cs \<Rightarrow> cs" where
  "recover_cs cron s =
     (case mem_List CtxLive ''cs/j/'' 0 '''' (csKV s) of
        Err _ \<Rightarrow> s
      | Ok (entries, _) \<Rightarrow> arm_entries cron entries s)"

definition New_cs :: "cron \<Rightarrow> csval memory \<Rightarrow> string fakeClock \<Rightarrow> bool \<Rightarrow> cs" where
  "New_cs cron kv clk publish =
     recover_cs cron \<lparr>csKV = kv, csClock = clk, csTimers = Map.empty, csPublish = publish, csPublished = [], csInFlight = [], csStarted = 0\<rparr>"

definition stopTimer :: "string \<Rightarrow> cs \<Rightarrow> cs" where
  "stopTimer name s =
     (case csTimers s name of
        None \<Rightarrow> s
      | Some p \<Rightarrow> s\<lparr>csClock := snd (Stop p (csClock s)), csTimers := (csTimers s)(name := None)\<rparr>)"

definition defaultAttemptDeadline :: duration where "defaultAttemptDeadline = 180 * second"

text \<open>What \<open>realDoer.do\<close> hands to the HTTP client, with its deadline.\<close>

definition job_request :: "job \<Rightarrow> (job_http \<times> duration) option" where
  "job_request j =
     (case jbTarget j of
        HttpJob t \<Rightarrow>
          let d = (case jbDeadline j of None \<Rightarrow> 0 | Some d \<Rightarrow> d)
          in Some (t\<lparr>jhMethod := (if jhMethod t = ''HTTP_METHOD_UNSPECIFIED'' \<or> jhMethod t = '''' then ''POST'' else jhMethod t)\<rparr>,
                   if d \<le> 0 then defaultAttemptDeadline else d)
      | _ \<Rightarrow> None)"

text \<open>A launched delivery ends: its request has been sent or has failed, and the result is dropped.\<close>

definition delivered :: "job \<Rightarrow> cs \<Rightarrow> cs" where
  "delivered j s = s\<lparr>csInFlight := remove1 j (csInFlight s)\<rparr>"

definition Started_cs :: "cs \<Rightarrow> nat" where "Started_cs s = csStarted s"

definition Sync_cs_returns :: "cs \<Rightarrow> bool" where "Sync_cs_returns s \<longleftrightarrow> csInFlight s = []"

subsection \<open>Calls (rpc.go)\<close>

definition jobCollection :: "string \<Rightarrow> string" where
  "jobCollection name = (case go_index name ''/jobs/'' of Some i \<Rightarrow> take i name | None \<Rightarrow> name)"

definition CreateJob :: "cron \<Rightarrow> ctx \<Rightarrow> string \<Rightarrow> job option \<Rightarrow> cs \<Rightarrow> (rpc_error, job) result \<times> cs" where
  "CreateJob cron cx parent req s =
     (case req of
        None \<Rightarrow> (Err (Errorf InvalidArgument ''job.name is required'' []), s)
      | Some j0 \<Rightarrow>
     (if jbName j0 = '''' then (Err (Errorf InvalidArgument ''job.name is required'' []), s)
      else case validJobName (jbName j0) of
        Some e \<Rightarrow> (Err e, s)
      | None \<Rightarrow>
     (if jobCollection (jbName j0) \<noteq> parent
      then (Err (Errorf InvalidArgument ''job name %q is not under the parent %q'' [jbName j0, parent]), s)
      else case cron (jbSchedule j0) of
        Err e \<Rightarrow> (Err (Errorf InvalidArgument ''invalid schedule %q: %v'' [jbSchedule j0, e]), s)
      | Ok _ \<Rightarrow>
     (if jbTarget j0 = NoJobTarget then (Err (Errorf InvalidArgument ''a job needs a target'' []), s)
      else
        let j = j0\<lparr>jbState := JobEnabled, jbUserUpdate := Some (ckNow (csClock s))\<rparr>
        in case mem_Get cx (jobKey (jbName j)) (csKV s) of
             Ok _ \<Rightarrow> (Err (Errorf AlreadyExists ''Job already exists: %s'' [jbName j]), s)
           | Err _ \<Rightarrow>
               (case putJob j s of
                  (Err e, s1) \<Rightarrow> (Err e, s1)
                | (Ok _, s1) \<Rightarrow> (Ok j, arm_job cron j (ckNow (csClock s1)) s1))))))"

definition GetJob :: "string \<Rightarrow> cs \<Rightarrow> (rpc_error, job) result" where
  "GetJob name s = getJobRecord name s"

fun decode_jobs :: "csval kv list \<Rightarrow> (rpc_error, job list) result" where
  "decode_jobs [] = Ok []"
| "decode_jobs (kv # kvs) =
     (case kvVal kv of
        CSJob j \<Rightarrow> (case decode_jobs kvs of Err e \<Rightarrow> Err e | Ok js \<Rightarrow> Ok (j # js))
      | _ \<Rightarrow> Err (Errorf Internal ''decoding job: %v'' [''protojson'']))"

definition ListJobs :: "ctx \<Rightarrow> string \<Rightarrow> cs \<Rightarrow> (rpc_error, job list) result" where
  "ListJobs cx parent s =
     (case mem_List cx (jobPrefix parent) 0 '''' (csKV s) of
        Err e \<Rightarrow> Err (Errorf Internal ''listing jobs: %v'' [store_text e])
      | Ok (entries, _) \<Rightarrow>
          (case decode_jobs entries of Err e \<Rightarrow> Err e | Ok js \<Rightarrow> Ok (sort_key jbName js)))"

definition DeleteJob :: "ctx \<Rightarrow> string \<Rightarrow> cs \<Rightarrow> (rpc_error, unit) result \<times> cs" where
  "DeleteJob cx name s =
     (case mem_Delete cx (jobKey name) 0 (csKV s) of
        (Err _, m) \<Rightarrow> (Err (Errorf NotFound ''Job not found: %s'' [name]), s\<lparr>csKV := m\<rparr>)
      | (Ok _, m) \<Rightarrow> (Ok (), stopTimer name (s\<lparr>csKV := m\<rparr>)))"

definition setState_cs :: "cron \<Rightarrow> string \<Rightarrow> job_state \<Rightarrow> cs \<Rightarrow> (rpc_error, job) result \<times> cs" where
  "setState_cs cron name st s =
     (case getJobRecord name s of
        Err e \<Rightarrow> (Err e, s)
      | Ok j0 \<Rightarrow>
          let j = j0\<lparr>jbState := st\<rparr>
          in case putJob j s of
               (Err e, s1) \<Rightarrow> (Err e, s1)
             | (Ok _, s1) \<Rightarrow>
                 let s2 = stopTimer name s1
                 in (Ok j, if st = JobEnabled then arm_job cron j (ckNow (csClock s2)) s2 else s2))"

definition PauseJob :: "cron \<Rightarrow> string \<Rightarrow> cs \<Rightarrow> (rpc_error, job) result \<times> cs" where
  "PauseJob cron name s = setState_cs cron name JobPaused s"

definition ResumeJob :: "cron \<Rightarrow> string \<Rightarrow> cs \<Rightarrow> (rpc_error, job) result \<times> cs" where
  "ResumeJob cron name s = setState_cs cron name JobEnabled s"

definition RunJob :: "string \<Rightarrow> cs \<Rightarrow> (rpc_error, job) result \<times> cs" where
  "RunJob name s =
     (case getJobRecord name s of
        Err e \<Rightarrow> (Err e, s)
      | Ok j \<Rightarrow> (Ok j, deliver j s))"

definition UpdateJob :: "cron \<Rightarrow> job option \<Rightarrow> cs \<Rightarrow> (rpc_error, job) result \<times> cs" where
  "UpdateJob cron req s =
     (case req of
        None \<Rightarrow> (Err (Errorf InvalidArgument ''job.name is required'' []), s)
      | Some inc \<Rightarrow>
     (if jbName inc = '''' then (Err (Errorf InvalidArgument ''job.name is required'' []), s)
      else
        case (if jbSchedule inc \<noteq> ''''
              then (case cron (jbSchedule inc) of
                      Err e \<Rightarrow> Some (Errorf InvalidArgument ''invalid schedule %q: %v'' [jbSchedule inc, e])
                    | Ok _ \<Rightarrow> None)
              else None) of
          Some e \<Rightarrow> (Err e, s)
        | None \<Rightarrow>
     (case getJobRecord (jbName inc) s of
        Err e \<Rightarrow> (Err e, s)
      | Ok cur \<Rightarrow>
          let j = cur\<lparr>jbSchedule := (if jbSchedule inc \<noteq> '''' then jbSchedule inc else jbSchedule cur),
                      jbTarget := (if jbTarget inc \<noteq> NoJobTarget then jbTarget inc else jbTarget cur),
                      jbTimeZone := (if jbTimeZone inc \<noteq> '''' then jbTimeZone inc else jbTimeZone cur),
                      jbUserUpdate := Some (ckNow (csClock s))\<rparr>
          in case putJob j s of
               (Err e, s1) \<Rightarrow> (Err e, s1)
             | (Ok _, s1) \<Rightarrow>
                 let s2 = stopTimer (jbName j) s1
                 in (Ok j, arm_job cron j (ckNow (csClock s2)) s2))))"

text \<open>A timer's callback, as the clock runs it.\<close>

definition cs_exec :: "cron \<Rightarrow> (string, cs) callback" where
  "cs_exec cron name = (\<lambda>(s, c). let s1 = fire cron name (s\<lparr>csClock := c\<rparr>) in (Ok (), s1, csClock s1))"

end
