(* ===== verification/Cloud_Scheduler_Inv.thy ===== *)
theory Cloud_Scheduler_Inv
  imports Cloud_Scheduler
begin

text \<open>
  Properties of the Cloud Scheduler model: the timers on the clock are those of the enabled jobs, a job fires at its cron times,
  and two ways the code departs from that: a schedule that never comes, and an update that overtakes a waiting callback.
\<close>

subsection \<open>One job alone on the clock\<close>

text \<open>The stored job that fires: enabled, with a parsed schedule and its target.\<close>

definition fires :: "cron \<Rightarrow> (time \<Rightarrow> time) \<Rightarrow> job_target \<Rightarrow> string \<Rightarrow> cs \<Rightarrow> bool" where
  "fires cron nxt tg n s \<longleftrightarrow>
     (\<exists>j. getJobRecord n s = Ok j \<and> jbName j = n \<and> jbState j \<noteq> JobPaused \<and> cron (jbSchedule j) = Ok nxt \<and> jbTarget j = tg)"

definition message :: "job_target \<Rightarrow> cs \<Rightarrow> time \<Rightarrow> (time \<times> job_topic) list" where
  "message tg s t = (case tg of PubsubJob p \<Rightarrow> if csPublish s then [(t, p)] else [] | _ \<Rightarrow> [])"

lemma putJob_fields [simp]:
  "csClock (snd (putJob j s)) = csClock s" "csTimers (snd (putJob j s)) = csTimers s" "csPublish (snd (putJob j s)) = csPublish s"
  "csPublished (snd (putJob j s)) = csPublished s"
  by (simp_all add: putJob_def Let_def split: prod.splits result.splits)

lemma arm_job_fields [simp]:
  "csKV (arm_job cron j b s) = csKV s" "csPublish (arm_job cron j b s) = csPublish s" "csPublished (arm_job cron j b s) = csPublished s"
  "ckNow (csClock (arm_job cron j b s)) = ckNow (csClock s)" "ckIn (csClock (arm_job cron j b s)) = ckIn (csClock s)"
  by (auto simp: arm_job_def Let_def AfterFunc_def split: result.splits prod.splits)

lemma deliver_fields [simp]:
  "csKV (deliver j s) = csKV s" "csClock (deliver j s) = csClock s" "csTimers (deliver j s) = csTimers s" "csPublish (deliver j s) = csPublish s"
  by (simp_all add: deliver_def deliverPubsub_def split: job_target.splits)

lemma deliver_published: "csPublished (deliver j s) = csPublished s @ message (jbTarget j) s (ckNow (csClock s))"
  by (simp add: deliver_def deliverPubsub_def message_def split: job_target.splits)

text \<open>The record after a fire is the old one or the one with the new attempt time: the write's error is dropped.\<close>

lemma getJobRecord_put:
  assumes "getJobRecord (jbName j) s = Ok j0"
  shows "getJobRecord (jbName j) (snd (putJob j s)) \<in> {Ok j0, Ok j}"
  using assms by (auto simp: getJobRecord_def putJob_def mem_Get_def mem_Put_def Let_def split: option.splits csval.splits if_splits)

lemma fires_clock [simp]: "fires cron nxt tg n (s\<lparr>csClock := c\<rparr>) = fires cron nxt tg n s"
  by (simp add: fires_def getJobRecord_def)

definition armed_at :: "time \<Rightarrow> string \<Rightarrow> string fakeClock \<Rightarrow> bool" where
  "armed_at w n c \<longleftrightarrow> (\<exists>p i. ckQ c = [\<lparr>tPtr = p, tWhen = w, tSeq = i, tF = n\<rparr>])"

text \<open>The delay of \<open>arm\<close>, from the clock's reading.\<close>

definition arm_delay :: "(time \<Rightarrow> time) \<Rightarrow> time \<Rightarrow> duration" where
  "arm_delay nxt t = max 0 (time_sub (nxt t) t)"

lemma arm_job_armed:
  assumes "jbState j \<noteq> JobPaused" and "cron (jbSchedule j) = Ok nxt" and "ckNow (csClock s) = t"
  shows "arm_job cron j t s = s\<lparr>csClock := snd (AfterFunc (arm_delay nxt t) (jbName j) (csClock s)),
    csTimers := (csTimers s)(jbName j \<mapsto> ckPtr (csClock s))\<rparr>"
proof -
  have "(if time_sub (nxt t) t < 0 then 0 else time_sub (nxt t) t) = arm_delay nxt t" by (simp add: arm_delay_def max_def)
  with assms show ?thesis by (simp add: arm_job_def Let_def case_prod_beta)
qed

lemma fire_alone:
  assumes "fires cron nxt tg n s" and "ckQ c = []"
  obtains s' c' where "cs_exec cron n (s, c) = (Ok (), s', c')" "fires cron nxt tg n s'" "csPublish s' = csPublish s"
    "csPublished s' = csPublished s @ message tg s (ckNow c)" "ckNow c' = ckNow c" "ckIn c' = ckIn c"
    "armed_at (ckNow c + arm_delay nxt (ckNow c)) n c'"
proof -
  let ?s = "s\<lparr>csClock := c\<rparr>"
  obtain j0 where j0: "getJobRecord n ?s = Ok j0" "jbName j0 = n" "jbState j0 \<noteq> JobPaused" "cron (jbSchedule j0) = Ok nxt" "jbTarget j0 = tg"
    using fires_clock [of cron nxt tg n c s] assms(1) unfolding fires_def by auto
  let ?j = "j0\<lparr>jbLastAttempt := Some (ckNow c)\<rparr>"
  let ?s1 = "snd (putJob ?j ?s)"
  let ?s2 = "arm_job cron ?j (ckNow c) ?s1"
  have f: "fire cron n ?s = deliver ?j ?s2" using j0 by (simp add: fire_def Let_def case_prod_beta)
  have "getJobRecord n ?s1 \<in> {Ok j0, Ok ?j}" using getJobRecord_put [of ?j ?s j0] j0 by simp
  then have "fires cron nxt tg n ?s1" unfolding fires_def using j0 by auto
  then have "fires cron nxt tg n (deliver ?j ?s2)" by (simp add: fires_def getJobRecord_def)
  moreover have "?s2 = ?s1\<lparr>csClock := snd (AfterFunc (arm_delay nxt (ckNow c)) n c), csTimers := (csTimers ?s1)(n \<mapsto> ckPtr c)\<rparr>"
    using arm_job_armed [of ?j cron nxt ?s1 "ckNow c"] j0 by simp
  then have "armed_at (ckNow c + arm_delay nxt (ckNow c)) n (csClock (deliver ?j ?s2))"
    using AfterFunc_empty [OF assms(2)] by (simp add: armed_at_def)
  moreover have "message tg ?s2 = message tg s" by (simp add: message_def fun_eq_iff split: job_target.splits)
  ultimately show thesis using j0 that [of "deliver ?j ?s2" "csClock ?s2"] by (simp add: cs_exec_def f Let_def deliver_published)
qed

text \<open>One turn of the clock's loop.\<close>

lemma alone_turn:
  assumes "fires cron nxt tg n s" and "armed_at w n c" and "w \<le> target"
  obtains t s' c' where "tWhen t = w" "fires cron nxt tg n s'" "csPublish s' = csPublish s" "csPublished s' = csPublished s @ message tg s w"
    "armed_at (w + arm_delay nxt w) n c'" "ckIn c' = ckIn c"
    "\<And>k. run_loop (Suc k) (cs_exec cron) target (s, c) = map_option (\<lambda>(ts, r). (t # ts, r)) (run_loop k (cs_exec cron) target (s', c'))"
proof -
  obtain t where t: "ckQ c = [t]" "tWhen t = w" "tF t = n" using assms(2) by (auto simp: armed_at_def)
  obtain s' c' where e: "cs_exec cron n (s, popped t [] c) = (Ok (), s', c')" "fires cron nxt tg n s'" "csPublish s' = csPublish s"
      "csPublished s' = csPublished s @ message tg s w" "ckIn c' = ckIn c" "armed_at (w + arm_delay nxt w) n c'"
    using fire_alone [OF assms(1), of "popped t [] c"] t(2) by (metis popped_fields)
  show thesis
    by (rule that [OF t(2) e(2,3,4,6,5)]) (rule run_loop_Suc_due [OF t(1)], use t assms(3) e(1) in auto)
qed

lemma alone_done:
  assumes "armed_at w n c" and "target < w"
  shows "run_loop (Suc k) exec target (s, c) = Some ([], Ok (), s, c)"
  using assms by (auto simp: armed_at_def)

lemma alone_loop:
  assumes nxt: "\<And>t. t < nxt t \<and> nxt t - t \<le> max_i64"
  shows "fires cron nxt tg n s \<Longrightarrow> armed_at w n c \<Longrightarrow> target < (nxt ^^ k) w \<Longrightarrow> k < fuel \<Longrightarrow>
    \<exists>ts s' c'. run_loop fuel (cs_exec cron) target (s, c) = Some (ts, Ok (), s', c') \<and> fires cron nxt tg n s' \<and>
      map tWhen ts = takeWhile (\<lambda>t. t \<le> target) (map (\<lambda>i. (nxt ^^ i) w) [0..<k]) \<and>
      csPublished s' = csPublished s @ concat (map (message tg s) (map tWhen ts))"
proof (induction k arbitrary: s c w fuel)
  case 0
  then obtain f where "fuel = Suc f" by (cases fuel) auto
  then show ?case using alone_done [OF 0(2), of target f "cs_exec cron" s] 0 by auto
next
  case (Suc k)
  obtain f where f: "fuel = Suc f" "k < f" using Suc.prems(4) by (cases fuel) auto
  show ?case
  proof (cases "w \<le> target")
    case False
    then show ?thesis using alone_done [OF Suc.prems(2), of target f "cs_exec cron" s] Suc.prems(1) f(1)
      by (auto simp: upt_conv_Cons simp del: upt_Suc)
  next
    case True
    obtain t s1 c1 where t: "tWhen t = w" "fires cron nxt tg n s1" "csPublish s1 = csPublish s" "csPublished s1 = csPublished s @ message tg s w"
      "armed_at (w + arm_delay nxt w) n c1"
      "\<And>k. run_loop (Suc k) (cs_exec cron) target (s, c) = map_option (\<lambda>(ts, r). (t # ts, r)) (run_loop k (cs_exec cron) target (s1, c1))"
      using alone_turn [OF Suc.prems(1,2) True] by metis
    have "w + arm_delay nxt w = nxt w" using nxt [of w] by (auto simp: arm_delay_def time_sub_def max_i64_def min_i64_def)
    then have "armed_at (nxt w) n c1" using t(5) by simp
    moreover have "target < (nxt ^^ k) (nxt w)" using Suc.prems(3) by (simp add: funpow_swap1)
    ultimately obtain ts s' c' where r: "run_loop f (cs_exec cron) target (s1, c1) = Some (ts, Ok (), s', c')" "fires cron nxt tg n s'"
        "map tWhen ts = takeWhile (\<lambda>t. t \<le> target) (map (\<lambda>i. (nxt ^^ i) (nxt w)) [0..<k])"
        "csPublished s' = csPublished s1 @ concat (map (message tg s1) (map tWhen ts))"
      using Suc.IH [OF t(2) _ _ f(2)] by blast
    have m: "message tg s1 = message tg s" using t(3) by (simp add: message_def fun_eq_iff split: job_target.splits)
    have "map (\<lambda>i. (nxt ^^ i) w) [0..<Suc k] = w # map (\<lambda>i. (nxt ^^ i) (nxt w)) [0..<k]"
      by (simp add: upt_conv_Cons map_Suc_upt [symmetric] funpow_swap1 del: upt_Suc)
    with r t(1,4,6) m True f(1) show ?thesis by (simp del: map_map run_loop.simps upt_Suc)
  qed
qed

text \<open>A schedule whose next time is never later than the time asked for: every fire arms another one at once.\<close>

lemma stuck_loop:
  assumes nxt: "\<And>t. t \<le> now + d \<Longrightarrow> now \<le> t \<Longrightarrow> nxt t \<le> t"
  shows "fires cron nxt tg n s \<Longrightarrow> armed_at w n c \<Longrightarrow> now \<le> w \<Longrightarrow> w \<le> now + d \<Longrightarrow> run_loop fuel (cs_exec cron) (now + d) (s, c) = None"
proof (induction fuel arbitrary: s c)
  case (Suc k)
  obtain t s1 c1 where t: "fires cron nxt tg n s1" "armed_at (w + arm_delay nxt w) n c1"
      "run_loop (Suc k) (cs_exec cron) (now + d) (s, c) = map_option (\<lambda>(ts, r). (t # ts, r)) (run_loop k (cs_exec cron) (now + d) (s1, c1))"
    using alone_turn [OF Suc.prems(1,2,4)] by metis
  have "nxt w \<le> w" using nxt Suc.prems(3,4) by blast
  then have "arm_delay nxt w = 0" by (auto simp: arm_delay_def time_sub_def max_i64_def min_i64_def)
  with t Suc.IH [OF t(1) _ Suc.prems(3,4)] show ?case by simp
qed simp

lemma New_cs_empty:
  "New_cs cron NewMemory clk b = \<lparr>csKV = NewMemory, csClock = clk, csTimers = Map.empty, csPublish = b, csPublished = [], csInFlight = [], csStarted = 0\<rparr>"
  by (simp add: New_cs_def recover_cs_def mem_List_def NewMemory_def searchStrings_def)

lemma CreateJob_alone:
  assumes c: "CreateJob cron CtxLive parent (Some j) (New_cs cron NewMemory (NewFake now) b) = (Ok j', s)" and n: "cron (jbSchedule j) = Ok nxt"
  shows "fires cron nxt (jbTarget j) (jbName j) s" "armed_at (now + arm_delay nxt now) (jbName j) (csClock s)" "ckNow (csClock s) = now" "\<not> ckIn (csClock s)"
    "csPublished s = []" "csPublish s = b"
    "memM (csKV s) = [jobKey (jbName j) \<mapsto> \<lparr>entVal = CSJob (j\<lparr>jbState := JobEnabled, jbUserUpdate := Some now\<rparr>), entVersion = 1\<rparr>]"
proof -
  let ?j = "j\<lparr>jbState := JobEnabled, jbUserUpdate := Some now\<rparr>" and ?s0 = "New_cs cron NewMemory (NewFake now) b"
  let ?m = "snd (mem_Put CtxLive (jobKey (jbName j)) (CSJob ?j) 0 NewMemory)"
  have put: "putJob ?j ?s0 = (Ok (), ?s0\<lparr>csKV := ?m\<rparr>)"
    unfolding New_cs_empty by (simp add: putJob_def mem_Get_def mem_Put_def NewMemory_def)
  have now: "ckNow (csClock ?s0) = now" by (simp add: New_cs_empty NewFake_def)
  have s: "s = arm_job cron ?j now (?s0\<lparr>csKV := ?m\<rparr>)"
    using c put now by (auto simp: CreateJob_def Let_def split: if_splits result.splits option.splits)
  have "getJobRecord (jbName j) s = Ok ?j" unfolding s by (simp add: getJobRecord_def mem_Get_def mem_Put_def NewMemory_def)
  then show "fires cron nxt (jbTarget j) (jbName j) s" using n by (simp add: fires_def)
  show "memM (csKV s) = [jobKey (jbName j) \<mapsto> \<lparr>entVal = CSJob ?j, entVersion = 1\<rparr>]"
    unfolding s by (simp add: mem_Put_def NewMemory_def)
  show "armed_at (now + arm_delay nxt now) (jbName j) (csClock s)"
    unfolding s using n arm_job_armed [of ?j cron nxt "?s0\<lparr>csKV := ?m\<rparr>" now] AfterFunc_empty [of "NewFake now" "arm_delay nxt now" "jbName j"]
    by (simp add: New_cs_empty armed_at_def NewFake_def)
  show "ckNow (csClock s) = now" "\<not> ckIn (csClock s)" "csPublished s = []" "csPublish s = b"
    unfolding s by (simp_all add: New_cs_empty NewFake_def)
qed

definition demo_job :: job where
  "demo_job = \<lparr>jbName = ''projects/p/locations/l/jobs/j'', jbSchedule = ''* * * * *'', jbTimeZone = '''',
     jbTarget = PubsubJob \<lparr>jtTopic = ''projects/p/topics/t'', jtData = ''x'', jtAttributes = []\<rparr>, jbState = JobUnspecified,
     jbUserUpdate = None, jbLastAttempt = None, jbDeadline = None\<rparr>"

definition minute_after :: "time \<Rightarrow> time" where
  "minute_after t = (t div (60 * second) + 1) * (60 * second)"

definition minutely :: cron where
  "minutely e = (if e = ''* * * * *'' then Ok minute_after else Err ''expected 5 fields'')"

definition never :: cron where "never e = Ok (\<lambda>_. - 62135596800 * second)"

lemma demo_job_name: "validJobName (jbName demo_job) = None" "jobCollection (jbName demo_job) = ''projects/p/locations/l''" "jbName demo_job \<noteq> ''''"
  "jbTarget demo_job \<noteq> NoJobTarget"
  by code_simp+

lemma demo_create:
  assumes "cron (jbSchedule demo_job) = Ok nxt"
  shows "\<exists>j' s. CreateJob cron CtxLive ''projects/p/locations/l'' (Some demo_job) (New_cs cron NewMemory (NewFake now) b) = (Ok j', s)"
  using demo_job_name assms unfolding New_cs_empty by (simp add: CreateJob_def Let_def putJob_def mem_Get_def mem_Put_def NewMemory_def)

lemma minute_after_later: "t < minute_after t \<and> minute_after t - t \<le> max_i64"
proof -
  define m where "m = 60 * second"
  have "t div m * m + t mod m = t" "0 \<le> t mod m" "t mod m < m" "m \<le> max_i64" by (simp_all add: m_def second_def max_i64_def)
  moreover have "minute_after t = t div m * m + m" by (simp add: minute_after_def m_def algebra_simps)
  ultimately show ?thesis by linarith
qed

lemma minutes: "(minute_after ^^ i) 0 = int i * (60 * second)"
  by (induction i) (simp_all add: minute_after_def second_def)

subsection \<open>The timers of a service\<close>

definition job_at :: "cs \<Rightarrow> string \<Rightarrow> job option" where
  "job_at s n = (case memM (csKV s) (jobKey n) of Some e \<Rightarrow> (case entVal e of CSJob j \<Rightarrow> Some j | _ \<Rightarrow> None) | None \<Rightarrow> None)"

text \<open>A job that should fire: it is stored, not paused, and its schedule parses.\<close>

definition live :: "cron \<Rightarrow> cs \<Rightarrow> string \<Rightarrow> bool" where
  "live cron s n \<longleftrightarrow> (\<exists>j nxt. job_at s n = Some j \<and> jbState j \<noteq> JobPaused \<and> cron (jbSchedule j) = Ok nxt)"

definition has_timer :: "cs \<Rightarrow> string \<Rightarrow> bool" where
  "has_timer s n \<longleftrightarrow> (\<exists>t\<in>set (ckQ (csClock s)). tF t = n)"

text \<open>The store holds jobs under their names, and every armed timer is the one on record for its job.\<close>

definition cs_base :: "cs \<Rightarrow> bool" where
  "cs_base s \<longleftrightarrow> mem_wf (csKV s) \<and> clock_wf (csClock s) \<and>
     (\<forall>k e. memM (csKV s) k = Some e \<longrightarrow> prefix ''cs/j/'' k \<longrightarrow> (\<exists>j. entVal e = CSJob j \<and> k = jobKey (jbName j))) \<and>
     (\<forall>t\<in>set (ckQ (csClock s)). csTimers s (tF t) = Some (tPtr t)) \<and>
     (\<forall>n p. csTimers s n = Some p \<longrightarrow> p < ckPtr (csClock s) \<and> (\<forall>m. csTimers s m = Some p \<longrightarrow> m = n))"

definition cs_inv :: "cron \<Rightarrow> cs \<Rightarrow> bool" where
  "cs_inv cron s \<longleftrightarrow> cs_base s \<and> (\<forall>n. has_timer s n = live cron s n)"

text \<open>The invariant but for one job, which has no timer.\<close>

definition cs_but :: "cron \<Rightarrow> string \<Rightarrow> cs \<Rightarrow> bool" where
  "cs_but cron n s \<longleftrightarrow> cs_base s \<and> \<not> has_timer s n \<and> (\<forall>m. m \<noteq> n \<longrightarrow> has_timer s m = live cron s m)"

definition cs_roomy :: "cs \<Rightarrow> bool" where
  "cs_roomy s \<longleftrightarrow> (\<forall>k. key_room (csKV s) k)"

lemma jobKey_eq [simp]: "jobKey a = jobKey b \<longleftrightarrow> a = b" by (simp add: jobKey_def)

lemma jobKey_prefix [simp]: "prefix ''cs/j/'' (jobKey a)" by (simp add: jobKey_def)

lemma cs_baseD:
  assumes "cs_base s"
  shows "mem_wf (csKV s)" "clock_wf (csClock s)"
    "\<And>n e. memM (csKV s) (jobKey n) = Some e \<Longrightarrow> \<exists>j. entVal e = CSJob j \<and> jbName j = n"
    "\<And>t. t \<in> set (ckQ (csClock s)) \<Longrightarrow> csTimers s (tF t) = Some (tPtr t)"
    "\<And>m n p. csTimers s n = Some p \<Longrightarrow> csTimers s m = Some p \<Longrightarrow> m = n" "\<And>n p. csTimers s n = Some p \<Longrightarrow> p < ckPtr (csClock s)"
proof -
  show "mem_wf (csKV s)" "clock_wf (csClock s)" "\<And>t. t \<in> set (ckQ (csClock s)) \<Longrightarrow> csTimers s (tF t) = Some (tPtr t)"
    using assms unfolding cs_base_def by blast+
  show "\<And>m n p. csTimers s n = Some p \<Longrightarrow> csTimers s m = Some p \<Longrightarrow> m = n" "\<And>n p. csTimers s n = Some p \<Longrightarrow> p < ckPtr (csClock s)"
    using assms unfolding cs_base_def by blast+
  fix n e assume "memM (csKV s) (jobKey n) = Some e"
  then obtain j where "entVal e = CSJob j" "jobKey n = jobKey (jbName j)" using assms jobKey_prefix unfolding cs_base_def by blast
  then show "\<exists>j. entVal e = CSJob j \<and> jbName j = n" by simp
qed

lemma getJobRecord_at:
  assumes "cs_base s"
  shows "getJobRecord n s = Ok j \<longleftrightarrow> job_at s n = Some j" "getJobRecord n s = Ok j \<Longrightarrow> jbName j = n"
  using cs_baseD(3) [OF assms, of n] by (cases "memM (csKV s) (jobKey n)"; force simp: getJobRecord_def mem_Get_def job_at_def)+

lemma cs_base_cong:
  assumes "csKV s = csKV t" and "csClock s = csClock t" and "csTimers s = csTimers t"
  shows "cs_base s = cs_base t" "cs_inv cron s = cs_inv cron t" "cs_but cron n s = cs_but cron n t"
  using assms by (simp_all add: cs_base_def cs_inv_def cs_but_def has_timer_def live_def job_at_def)

lemma deliver_inv [simp]: "cs_inv cron (deliver j s) = cs_inv cron s"
  by (rule cs_base_cong) simp_all

text \<open>Storing a job touches nothing but its own record.\<close>

lemma putJob_ok:
  assumes base: "cs_base s" and room: "cs_roomy s"
  obtains s' where "putJob j s = (Ok (), s')" "cs_base s'" "csClock s' = csClock s" "csTimers s' = csTimers s"
    "job_at s' = (job_at s)(jbName j \<mapsto> j)"
proof -
  let ?k = "jobKey (jbName j)"
  obtain v m where put: "mem_Put CtxLive ?k (CSJob j) (case mem_Get CtxLive ?k (csKV s) of Ok (_, i) \<Rightarrow> i | Err _ \<Rightarrow> 0) (csKV s) = (Ok v, m)"
      "memM m = (memM (csKV s))(?k \<mapsto> \<lparr>entVal = CSJob j, entVersion = v\<rparr>)" "mem_wf m"
    using put_current [OF cs_baseD(1) [OF base], of ?k] room unfolding cs_roomy_def by metis
  have "putJob j s = (Ok (), s\<lparr>csKV := m\<rparr>)" using put(1) by (simp add: putJob_def Let_def)
  moreover have "cs_base (s\<lparr>csKV := m\<rparr>)" using base put(2,3) by (auto simp: cs_base_def)
  moreover have "job_at (s\<lparr>csKV := m\<rparr>) = (job_at s)(jbName j \<mapsto> j)" by (auto simp: job_at_def put(2) fun_eq_iff)
  ultimately show thesis using that by auto
qed

lemma live_upd: "job_at s' = (job_at s)(n \<mapsto> j) \<Longrightarrow> m \<noteq> n \<Longrightarrow> live cron s' m = live cron s m"
  by (simp add: live_def)

text \<open>Arming a job that has no timer and is what the store has.\<close>

lemma arm_base:
  assumes base: "cs_base s" and free: "\<not> has_timer s (jbName j)" and j: "job_at s (jbName j) = Some j"
  shows "cs_base (arm_job cron j b s) \<and> (\<forall>n. has_timer (arm_job cron j b s) n \<longleftrightarrow> has_timer s n \<or> n = jbName j \<and> live cron s n)"
proof (cases "live cron s (jbName j)")
  case False
  then have "arm_job cron j b s = s" using j by (auto simp: arm_job_def live_def split: result.splits)
  with base False show ?thesis by auto
next
  case True
  let ?c = "csClock s"
  obtain nxt where n: "jbState j \<noteq> JobPaused" "cron (jbSchedule j) = Ok nxt" using True j by (auto simp: live_def)
  obtain d where s': "arm_job cron j b s = s\<lparr>csClock := snd (AfterFunc d (jbName j) ?c), csTimers := (csTimers s)(jbName j \<mapsto> ckPtr ?c)\<rparr>"
    using n by (simp add: arm_job_def Let_def case_prod_beta)
  have q: "set (ckQ (snd (AfterFunc d (jbName j) ?c))) = insert \<lparr>tPtr = ckPtr ?c, tWhen = ckNow ?c + d, tSeq = ckSeq ?c, tF = jbName j\<rparr> (set (ckQ ?c))"
    by (rule set_AfterFunc) (rule cs_baseD(2) [OF base])
  have ne: "\<forall>t\<in>set (ckQ ?c). tF t \<noteq> jbName j" using free by (auto simp: has_timer_def)
  have "cs_base (arm_job cron j b s)" unfolding s' using base ne AfterFunc_wf [OF cs_baseD(2) [OF base], of d "jbName j"]
    by (auto simp: cs_base_def q less_Suc_eq)
  moreover have "has_timer (arm_job cron j b s) m \<longleftrightarrow> has_timer s m \<or> m = jbName j" for m unfolding s' by (auto simp: has_timer_def q)
  ultimately show ?thesis using True by auto
qed

lemma arm_inv:
  assumes but: "cs_but cron (jbName j) s" and j: "job_at s (jbName j) = Some j"
  shows "cs_inv cron (arm_job cron j b s)"
proof -
  have "live cron (arm_job cron j b s) n = live cron s n" for n by (simp add: live_def job_at_def)
  with arm_base [of s j cron b] but j show ?thesis unfolding cs_but_def cs_inv_def by metis
qed

text \<open>Stopping a job's timer.\<close>

lemma stopTimer_but:
  assumes base: "cs_base s" and others: "\<And>m. m \<noteq> n \<Longrightarrow> has_timer s m = live cron s m"
  shows "cs_but cron n (stopTimer n s)" "csKV (stopTimer n s) = csKV s" "job_at (stopTimer n s) = job_at s"
proof -
  note T = cs_baseD(4) [OF base]
  show kv: "csKV (stopTimer n s) = csKV s" by (simp add: stopTimer_def split: option.splits)
  then show ja: "job_at (stopTimer n s) = job_at s" by (simp add: job_at_def fun_eq_iff)
  show "cs_but cron n (stopTimer n s)"
  proof (cases "csTimers s n")
    case None
    then have "\<not> has_timer s n" using T by (auto simp: has_timer_def)
    with None base others show ?thesis by (simp add: stopTimer_def cs_but_def)
  next
    case (Some p)
    let ?c = "csClock s"
    have q: "set (ckQ (snd (Stop p ?c))) = {t \<in> set (ckQ ?c). tPtr t \<noteq> p}" by (rule set_Stop) (rule cs_baseD(2) [OF base])
    have p: "tPtr t = p \<longleftrightarrow> tF t = n" if "t \<in> set (ckQ ?c)" for t
      using T [OF that] cs_baseD(5) [OF base, of n p "tF t"] Some by auto
    have s': "stopTimer n s = s\<lparr>csClock := snd (Stop p ?c), csTimers := (csTimers s)(n := None)\<rparr>" using Some by (simp add: stopTimer_def)
    have "cs_base (stopTimer n s)" unfolding s' using base Stop_wf [OF cs_baseD(2) [OF base], of p] p T by (auto simp: cs_base_def q)
    moreover have "has_timer (stopTimer n s) m \<longleftrightarrow> has_timer s m \<and> m \<noteq> n" for m unfolding s' using p by (auto simp: has_timer_def q)
    moreover have "live cron (stopTimer n s) m = live cron s m" for m by (simp add: live_def ja)
    ultimately show ?thesis using others by (simp add: cs_but_def)
  qed
qed

text \<open>Storing a job again and re-arming it: the common end of a state change and an update.\<close>

definition cs_near :: "cron \<Rightarrow> string \<Rightarrow> cs \<Rightarrow> bool" where
  "cs_near cron n s \<longleftrightarrow> cs_base s \<and> (\<forall>m. m \<noteq> n \<longrightarrow> has_timer s m = live cron s m)"

lemma near_intros: "cs_inv cron s \<Longrightarrow> cs_near cron n s" "cs_but cron n s \<Longrightarrow> cs_near cron n s"
  by (simp_all add: cs_near_def cs_inv_def cs_but_def)

lemma replace_job:
  assumes near: "cs_near cron (jbName j) s" and put: "putJob j s = (Ok (), s1)" and room: "cs_roomy s"
  shows "cs_but cron (jbName j) (stopTimer (jbName j) s1)" "job_at (stopTimer (jbName j) s1) (jbName j) = Some j"
    "cs_inv cron (arm_job cron j b (stopTimer (jbName j) s1))"
proof -
  obtain s' where s': "putJob j s = (Ok (), s')" "cs_base s'" "csClock s' = csClock s" "job_at s' = (job_at s)(jbName j \<mapsto> j)"
    using putJob_ok [OF _ room] near unfolding cs_near_def by metis
  then have s1: "s1 = s'" using put by simp
  have o: "has_timer s1 m = live cron s1 m" if "m \<noteq> jbName j" for m
    using near that live_upd [OF s'(4) that, of cron] s'(3) unfolding s1 cs_near_def by (simp add: has_timer_def)
  have b1: "cs_base s1" using s'(2) s1 by simp
  note S = stopTimer_but [OF b1 o]
  show "cs_but cron (jbName j) (stopTimer (jbName j) s1)" by (rule S(1))
  show "job_at (stopTimer (jbName j) s1) (jbName j) = Some j" using S(3) s'(4) s1 by simp
  then show "cs_inv cron (arm_job cron j b (stopTimer (jbName j) s1))" by (intro arm_inv S(1))
qed

lemma putJob_cases:
  assumes "cs_base s" and "cs_roomy s" obtains s1 where "putJob j s = (Ok (), s1)"
  using putJob_ok [OF assms] by metis

lemma but_not_live: "cs_but cron n s \<Longrightarrow> \<not> live cron s n \<Longrightarrow> cs_inv cron s"
  unfolding cs_but_def cs_inv_def by metis

lemma setState_inv:
  assumes inv: "cs_inv cron s" and room: "cs_roomy s" and st: "st = JobEnabled \<or> st = JobPaused"
  shows "cs_inv cron (snd (setState_cs cron n st s))"
proof (cases "getJobRecord n s")
  case (Ok j0)
  have base: "cs_base s" using inv by (simp add: cs_inv_def)
  let ?j = "j0\<lparr>jbState := st\<rparr>"
  have n: "jbName ?j = n" using getJobRecord_at(2) [OF base Ok] by simp
  obtain s1 where p: "putJob ?j s = (Ok (), s1)" using putJob_cases [OF base room] .
  note R = replace_job [OF near_intros(1) [OF inv] p room, unfolded n]
  have "cs_inv cron (stopTimer n s1)" if "st = JobPaused"
    by (rule but_not_live [OF R(1)]) (use R(2) that in \<open>auto simp: live_def\<close>)
  with R(3) st show ?thesis using Ok p by (auto simp: setState_cs_def Let_def)
qed (simp add: setState_cs_def inv)

lemma UpdateJob_rearms:
  assumes near: "cs_near cron (jbName inc) s" and room: "cs_roomy s" and u: "UpdateJob cron (Some inc) s = (Ok j, s')"
  shows "cs_inv cron s'" "jbName j = jbName inc" "job_at s' (jbName inc) = Some j" "csKV s' = csKV (snd (putJob j s))"
    "\<exists>cur. getJobRecord (jbName inc) s = Ok cur \<and> jbState j = jbState cur \<and> jbSchedule j = (if jbSchedule inc \<noteq> '''' then jbSchedule inc else jbSchedule cur)"
proof -
  have base: "cs_base s" using near by (simp add: cs_near_def)
  obtain cur where cur: "getJobRecord (jbName inc) s = Ok cur"
    using u by (cases "getJobRecord (jbName inc) s") (auto simp: UpdateJob_def split: if_splits result.splits option.splits)
  let ?j = "cur\<lparr>jbSchedule := (if jbSchedule inc \<noteq> '''' then jbSchedule inc else jbSchedule cur),
                jbTarget := (if jbTarget inc \<noteq> NoJobTarget then jbTarget inc else jbTarget cur),
                jbTimeZone := (if jbTimeZone inc \<noteq> '''' then jbTimeZone inc else jbTimeZone cur),
                jbUserUpdate := Some (ckNow (csClock s))\<rparr>"
  obtain s1 where p: "putJob ?j s = (Ok (), s1)" using putJob_cases [OF base room] .
  have j: "j = ?j" and s': "s' = arm_job cron ?j (ckNow (csClock (stopTimer (jbName ?j) s1))) (stopTimer (jbName ?j) s1)"
    using u cur p by (auto simp: UpdateJob_def Let_def split: if_splits option.splits result.splits)
  show n: "jbName j = jbName inc" using getJobRecord_at(2) [OF base cur] j by simp
  note R = replace_job [of cron ?j s s1, OF _ p room]
  have near': "cs_near cron (jbName ?j) s" using near n j by simp
  show "cs_inv cron s'" unfolding s' by (rule R(3) [OF near'])
  show "job_at s' (jbName inc) = Some j" using R(2) [OF near'] n j s' by (simp add: job_at_def)
  have kv: "csKV (stopTimer m s1) = csKV s1" for m by (simp add: stopTimer_def split: option.splits)
  show "csKV s' = csKV (snd (putJob j s))" unfolding s' j p by (simp add: kv)
  show "\<exists>cur. getJobRecord (jbName inc) s = Ok cur \<and> jbState j = jbState cur \<and> jbSchedule j = (if jbSchedule inc \<noteq> '''' then jbSchedule inc else jbSchedule cur)"
    using cur j by (intro exI [of _ cur]) simp
qed

lemma UpdateJob_err:
  assumes base: "cs_base s" and room: "cs_roomy s" and u: "UpdateJob cron req s = (Err e, s')"
  shows "s' = s"
proof -
  have "\<exists>s1. putJob j s = (Ok (), s1)" for j using putJob_cases [OF base room] by metis
  then have "putJob j s = (Err e1, s1) \<Longrightarrow> False" for j e1 s1 by (metis prod.inject result.distinct(1))
  with u show ?thesis by (auto simp: UpdateJob_def Let_def split: if_splits option.splits result.splits prod.splits)
qed

lemma UpdateJob_inv:
  assumes inv: "cs_inv cron s" and room: "cs_roomy s"
  shows "cs_inv cron (snd (UpdateJob cron req s))"
proof -
  obtain r s' where u: "UpdateJob cron req s = (r, s')" by force
  show ?thesis
  proof (cases r)
    case (Err e)
    then show ?thesis using UpdateJob_err [of s cron req e s'] u inv room by (simp add: cs_inv_def)
  next
    case (Ok j)
    obtain inc where "req = Some inc" using u Ok by (cases req) (auto simp: UpdateJob_def)
    then show ?thesis using UpdateJob_rearms(1) [OF near_intros(1) [OF inv] room] u Ok by simp
  qed
qed

text \<open>
  \<open>CreateJob\<close> reads the store under the request's context and takes any error for absence, so with a context that has
  ended it must not meet a job of its name.
\<close>

definition timely :: "ctx \<Rightarrow> job option \<Rightarrow> cs \<Rightarrow> bool" where
  "timely cx req s \<longleftrightarrow> cx = CtxLive \<or> (case req of None \<Rightarrow> True | Some j \<Rightarrow> memM (csKV s) (jobKey (jbName j)) = None)"

lemma CreateJob_inv:
  assumes inv: "cs_inv cron s" and room: "cs_roomy s" and cx: "timely cx req s"
  shows "cs_inv cron (snd (CreateJob cron cx parent req s))"
proof (cases "\<exists>e. CreateJob cron cx parent req s = (Err e, s)")
  case False
  have base: "cs_base s" using inv by (simp add: cs_inv_def)
  obtain j0 where req: "req = Some j0" using False by (cases req) (auto simp: CreateJob_def)
  let ?j = "j0\<lparr>jbState := JobEnabled, jbUserUpdate := Some (ckNow (csClock s))\<rparr>"
  obtain s1 where p: "putJob ?j s = (Ok (), s1)" "cs_base s1" "csClock s1 = csClock s" "job_at s1 = (job_at s)(jbName ?j \<mapsto> ?j)"
    using putJob_ok [OF base room, of ?j] by metis
  have free: "mem_Get cx (jobKey (jbName j0)) (csKV s) = Err e \<Longrightarrow> job_at s (jbName j0) = None" for e
    using cx req by (auto simp: timely_def mem_Get_def job_at_def split: option.splits)
  have s': "snd (CreateJob cron cx parent req s) = arm_job cron ?j (ckNow (csClock s1)) s1 \<and> job_at s (jbName j0) = None"
    using False req p(1) free by (auto simp: CreateJob_def Let_def split: if_splits option.splits result.splits)
  then have "\<not> live cron s (jbName j0)" by (simp add: live_def)
  then have "cs_but cron (jbName ?j) s1"
    using inv p(2,3) live_upd [OF p(4)] by (auto simp: cs_but_def cs_inv_def has_timer_def)
  then have "cs_inv cron (arm_job cron ?j (ckNow (csClock s1)) s1)" by (rule arm_inv) (use p(4) in simp)
  with s' show ?thesis by simp
qed (use inv in auto)

lemma DeleteJob_inv:
  assumes inv: "cs_inv cron s"
  shows "cs_inv cron (snd (DeleteJob cx n s))"
proof (cases "cx = CtxLive")
  case False
  then show ?thesis using inv by (simp add: DeleteJob_def mem_Delete_def)
next
  case True
  have base: "cs_base s" using inv by (simp add: cs_inv_def)
  obtain r m where d: "mem_Delete CtxLive (jobKey n) 0 (csKV s) = (r, m)" by force
  have m: "memM m = (memM (csKV s))(jobKey n := None)" by (rule mem_Delete_map [OF d])
  let ?s = "s\<lparr>csKV := m\<rparr>"
  have "mem_wf m" using mem_Delete_wf [OF cs_baseD(1) [OF base], of CtxLive "jobKey n" 0] d by simp
  then have b: "cs_base ?s" using base by (auto simp: cs_base_def m)
  have o: "job_at ?s x = (if x = n then None else job_at s x)" for x by (simp add: job_at_def m)
  then have l: "live cron ?s x = (x \<noteq> n \<and> live cron s x)" for x by (simp add: live_def)
  have h: "has_timer ?s x = has_timer s x" for x by (simp add: has_timer_def)
  show ?thesis
  proof (cases r)
    case (Err e)
    then have "memM (csKV s) (jobKey n) = None" using d by (auto simp: mem_Delete_def split: option.splits if_splits)
    then have "job_at s n = None" by (simp add: job_at_def)
    then have "\<not> live cron s n" by (simp add: live_def)
    with Err d inv b l h True show ?thesis unfolding DeleteJob_def cs_inv_def by (simp, metis)
  next
    case (Ok u)
    note S = stopTimer_but [OF b, of n cron]
    have "cs_but cron n (stopTimer n ?s)" by (rule S) (use inv l h in \<open>simp add: cs_inv_def\<close>)
    moreover have "\<not> live cron (stopTimer n ?s) n" using S(3) l h inv o by (simp add: live_def cs_inv_def)
    ultimately show ?thesis using Ok d but_not_live True by (simp add: DeleteJob_def)
  qed
qed

text \<open>The clock pops the timer that is due next and the job fires.\<close>

lemma pop_but:
  assumes inv: "cs_inv cron s" and q: "ckQ (csClock s) = t # q"
  shows "cs_but cron (tF t) (s\<lparr>csClock := popped t q (csClock s)\<rparr>)" "live cron s (tF t)"
proof -
  let ?s = "s\<lparr>csClock := popped t q (csClock s)\<rparr>"
  have base: "cs_base s" using inv by (simp add: cs_inv_def)
  note T = cs_baseD(4) [OF base]
  have wf: "clock_wf (csClock s)" by (rule cs_baseD(2) [OF base])
  have ne: "tF u \<noteq> tF t" if "u \<in> set q" for u
    using T [of u] T [of t] wf q that by (auto simp: clock_wf_def image_iff)
  have "cs_base ?s" using base popped_wf [OF wf q] q by (auto simp: cs_base_def popped_def)
  moreover have "live cron ?s m = live cron s m" for m by (simp add: live_def job_at_def)
  moreover have "has_timer ?s m \<longleftrightarrow> has_timer s m \<and> m \<noteq> tF t" for m using q ne by (auto simp: has_timer_def)
  ultimately show "cs_but cron (tF t) ?s" using inv unfolding cs_but_def cs_inv_def by simp
  show "live cron s (tF t)" using inv q by (auto simp: cs_inv_def has_timer_def)
qed

lemma fire_inv:
  assumes but: "cs_but cron n s" and room: "cs_roomy s"
  shows "cs_inv cron (fire cron n s)"
proof -
  have base: "cs_base s" using but by (simp add: cs_but_def)
  show ?thesis
  proof (cases "getJobRecord n s")
    case (Err e)
    then have "job_at s n = None" using getJobRecord_at(1) [OF base, of n] by (cases "job_at s n") auto
    then have "\<not> live cron s n" by (simp add: live_def)
    with Err show ?thesis using but_not_live [OF but] by (simp add: fire_def)
  next
    case (Ok j0)
    note J = getJobRecord_at [OF base, of n] 
    show ?thesis
    proof (cases "jbState j0 = JobPaused")
      case True
      moreover have "job_at s n = Some j0" using J(1) Ok by blast
      ultimately have "\<not> live cron s n" by (simp add: live_def)
      with Ok True show ?thesis using but_not_live [OF but] by (simp add: fire_def)
    next
      case False
      let ?j = "j0\<lparr>jbLastAttempt := Some (ckNow (csClock s))\<rparr>"
      have n: "jbName ?j = n" using J(2) [OF Ok] by simp
      obtain s1 where p: "putJob ?j s = (Ok (), s1)" "cs_base s1" "csClock s1 = csClock s" "job_at s1 = (job_at s)(jbName ?j \<mapsto> ?j)"
        using putJob_ok [OF base room, of ?j] by metis
      have "cs_but cron (jbName ?j) s1" using but p(2,3) live_upd [OF p(4)] n by (auto simp: cs_but_def has_timer_def)
      then have "cs_inv cron (arm_job cron ?j (ckNow (csClock s)) s1)" by (rule arm_inv) (use p(4) in simp)
      with Ok False p(1) show ?thesis by (simp add: fire_def Let_def)
    qed
  qed
qed

subsection \<open>Every history\<close>

datatype cs_call = CallCreate ctx string "job option" | CallUpdate "job option" | CallDelete ctx string | CallPause string | CallResume string | CallRun string

fun cs_do :: "cron \<Rightarrow> cs_call \<Rightarrow> cs \<Rightarrow> cs" where
  "cs_do cron (CallCreate cx parent req) s = snd (CreateJob cron cx parent req s)"
| "cs_do cron (CallUpdate req) s = snd (UpdateJob cron req s)"
| "cs_do cron (CallDelete cx n) s = snd (DeleteJob cx n s)"
| "cs_do cron (CallPause n) s = snd (PauseJob cron n s)"
| "cs_do cron (CallResume n) s = snd (ResumeJob cron n s)"
| "cs_do cron (CallRun n) s = snd (RunJob n s)"

text \<open>
  The histories in which the clock's callback takes the service's lock before another call does: client calls, fires, deliveries that
  end, time that passes, and restarts over the same store.  Calls come with a context, live or ended; a \<open>CreateJob\<close>
  of a job that exists comes with a live one.
\<close>

fun in_time :: "cs_call \<Rightarrow> cs \<Rightarrow> bool" where
  "in_time (CallCreate cx parent req) s = timely cx req s"
| "in_time _ s = True"

inductive cs_run :: "cron \<Rightarrow> cs \<Rightarrow> bool" for cron where
  start: "cs_run cron (New_cs cron NewMemory (NewFake now) b)"
| restart: "cs_run cron s \<Longrightarrow> cs_run cron (New_cs cron (csKV s) (NewFake now) b)"
| call: "cs_run cron s \<Longrightarrow> cs_roomy s \<Longrightarrow> in_time x s \<Longrightarrow> cs_run cron (cs_do cron x s)"
| fired: "cs_run cron s \<Longrightarrow> cs_roomy s \<Longrightarrow> ckQ (csClock s) = t # q \<Longrightarrow>
    cs_run cron (fire cron (tF t) (s\<lparr>csClock := popped t q (csClock s)\<rparr>))"
| finished: "cs_run cron s \<Longrightarrow> cs_run cron (delivered j s)"
| tick: "cs_run cron s \<Longrightarrow> cs_run cron (s\<lparr>csClock := SetNow now (csClock s)\<rparr>)"

text \<open>Recovery arms every listed job that should fire.\<close>

lemma arm_entries_inv:
  "cs_base s \<Longrightarrow> distinct ks \<Longrightarrow> (\<forall>k\<in>set ks. \<exists>j. k = jobKey (jbName j) \<and> job_at s (jbName j) = Some j) \<Longrightarrow>
   (\<forall>n. has_timer s n = (live cron s n \<and> jobKey n \<notin> set ks)) \<Longrightarrow>
   cs_inv cron (arm_entries cron (map (kv_at (csKV s)) ks) s)"
proof (induction ks arbitrary: s)
  case Nil
  then show ?case by (simp add: cs_inv_def)
next
  case (Cons k ks)
  obtain j where j: "k = jobKey (jbName j)" "job_at s (jbName j) = Some j" using Cons.prems(3) by auto
  let ?s = "arm_job cron j (ckNow (csClock s)) s"
  have kv: "kvVal (kv_at (csKV s) k) = CSJob j" using j by (auto simp: kv_at_def job_at_def split: option.splits csval.splits)
  show ?case
  proof -
    have ja: "job_at ?s = job_at s" by (simp add: job_at_def fun_eq_iff)
    have lv: "live cron ?s n = live cron s n" for n by (simp add: live_def ja)
    have "cs_base ?s \<and> (\<forall>n. has_timer ?s n = (live cron ?s n \<and> jobKey n \<notin> set ks))"
    proof -
      have a: "cs_base ?s \<and> (\<forall>n. has_timer ?s n \<longleftrightarrow> has_timer s n \<or> n = jbName j \<and> live cron s n)"
        by (rule arm_base) (use Cons.prems j in auto)
      then show ?thesis using Cons.prems(2,4) j lv by auto
    qed
    then have "cs_inv cron (arm_entries cron (map (kv_at (csKV ?s)) ks) ?s)"
      using Cons.prems(2,3) ja by (intro Cons.IH) auto
    with kv show ?thesis by simp
  qed
qed

lemma New_cs_inv:
  assumes "cs_base s"
  shows "cs_inv cron (New_cs cron (csKV s) (NewFake now) b)"
proof -
  let ?s = "\<lparr>csKV = csKV s, csClock = NewFake now, csTimers = Map.empty, csPublish = b, csPublished = [], csInFlight = [], csStarted = 0\<rparr>"
  let ?ks = "list_keys ''cs/j/'' None (csKV s)"
  have wf: "mem_wf (csKV s)" by (rule cs_baseD(1) [OF assms])
  have base: "cs_base ?s" using assms NewFake_wf [of now] by (auto simp: cs_base_def NewFake_def)
  have ja: "job_at ?s = job_at s" by (simp add: job_at_def fun_eq_iff)
  have ks: "\<exists>j. k = jobKey (jbName j) \<and> job_at ?s (jbName j) = Some j" if "k \<in> set ?ks" for k
  proof -
    obtain e where e: "memM (csKV s) k = Some e" "prefix ''cs/j/'' k" using \<open>k \<in> set ?ks\<close> unfolding listed_key [OF wf] by auto
    then obtain j where "entVal e = CSJob j" "k = jobKey (jbName j)" using assms unfolding cs_base_def by blast
    with e(1) show ?thesis unfolding ja by (auto simp: job_at_def)
  qed
  have "\<not> has_timer ?s n" for n by (simp add: has_timer_def NewFake_def)
  moreover have "jobKey n \<in> set ?ks" if "live cron ?s n" for n
    using that unfolding listed_key [OF wf] by (auto simp: live_def ja job_at_def split: option.splits)
  moreover have "distinct ?ks" using list_keys_sorted [OF wf] strict_sorted_iff by blast
  ultimately have "cs_inv cron (arm_entries cron (map (kv_at (csKV ?s)) ?ks) ?s)" by (intro arm_entries_inv base) (use ks in auto)
  then show ?thesis using list_all_entries [OF wf, of "''cs/j/''"] by (auto simp: New_cs_def recover_cs_def)
qed

lemma cs_run_inv: "cs_run cron s \<Longrightarrow> cs_inv cron s"
proof (induction rule: cs_run.induct)
  case (start now b)
  show ?case unfolding New_cs_empty by (auto simp: cs_inv_def cs_base_def NewFake_def clock_wf_def has_timer_def live_def job_at_def NewMemory_def mem_wf_New [unfolded NewMemory_def])
next
  case (restart s now b)
  then show ?case by (intro New_cs_inv) (simp add: cs_inv_def)
next
  case (call s x)
  then show ?case
    by (cases x) (auto simp: PauseJob_def ResumeJob_def RunJob_def intro: CreateJob_inv UpdateJob_inv DeleteJob_inv setState_inv split: result.splits)
next
  case (fired s t q)
  then show ?case by (intro fire_inv pop_but) (simp_all add: cs_roomy_def)
next
  case (finished s j)
  then show ?case using cs_base_cong(2) [of "delivered j s" s cron] by (simp add: delivered_def)
next
  case (tick s now)
  then show ?case using SetNow_wf [of "csClock s" now] by (auto simp: cs_inv_def cs_base_def has_timer_def live_def job_at_def SetNow_def)
qed

lemma one_timer:
  assumes "cs_base s"
  shows "length (filter (\<lambda>t. tF t = n) (ckQ (csClock s))) = (if has_timer s n then 1 else 0)"
proof -
  let ?ts = "filter (\<lambda>t. tF t = n) (ckQ (csClock s))"
  have "tPtr t = the (csTimers s n)" if "t \<in> set ?ts" for t using cs_baseD(4) [OF assms, of t] that by auto
  then have sub: "set (map tPtr ?ts) \<subseteq> {the (csTimers s n)}" by auto
  have "distinct (map tPtr ?ts)" using cs_baseD(2) [OF assms] by (simp add: clock_wf_def distinct_map_filter)
  then have "length ?ts \<le> 1" using card_mono [OF _ sub] distinct_card by fastforce
  moreover have "?ts = [] \<longleftrightarrow> \<not> has_timer s n" by (auto simp: has_timer_def filter_empty_conv)
  ultimately show ?thesis by (cases ?ts) auto
qed

lemma count_AfterFunc:
  assumes "clock_wf c"
  shows "length (filter (\<lambda>t. tF t = n) (ckQ (snd (AfterFunc d f c)))) = length (filter (\<lambda>t. tF t = n) (ckQ c)) + (if f = n then 1 else 0)"
proof -
  obtain a b t where "ckQ c = a @ b" "ckQ (snd (AfterFunc d f c)) = a @ t # b" "tF t = f"
    using AfterFunc_queue [of c d f] assms by (auto simp: clock_wf_def)
  then show ?thesis by simp
qed

definition demo_cs :: cs where
  "demo_cs = snd (CreateJob minutely CtxLive ''projects/p/locations/l'' (Some demo_job) (New_cs minutely NewMemory (NewFake 0) True))"

lemma roomy_new: "cs_roomy (New_cs cron NewMemory clk b)"
  unfolding New_cs_empty by (simp add: cs_roomy_def key_room_def NewMemory_def)

lemma demo_cs_run: "cs_run minutely demo_cs"
  using cs_run.call [OF cs_run.start roomy_new, of "CallCreate CtxLive ''projects/p/locations/l'' (Some demo_job)"]
  by (simp add: demo_cs_def timely_def)

definition stored_demo :: job where
  "stored_demo = demo_job\<lparr>jbState := JobEnabled, jbUserUpdate := Some 0\<rparr>"

lemma demo_cs_state:
  "fires minutely minute_after (jbTarget demo_job) (jbName demo_job) demo_cs" "armed_at (60 * second) (jbName demo_job) (csClock demo_cs)"
  "memM (csKV demo_cs) = [jobKey (jbName demo_job) \<mapsto> \<lparr>entVal = CSJob stored_demo, entVersion = 1\<rparr>]"
proof -
  have n: "minutely (jbSchedule demo_job) = Ok minute_after" by (simp add: minutely_def demo_job_def)
  obtain j' s where c: "CreateJob minutely CtxLive ''projects/p/locations/l'' (Some demo_job) (New_cs minutely NewMemory (NewFake 0) True) = (Ok j', s)"
    using demo_create [of minutely, OF n] by blast
  have "demo_cs = s" by (simp add: demo_cs_def c)
  moreover have "0 + arm_delay minute_after 0 = 60 * second" by (simp add: arm_delay_def minute_after_def time_sub_def second_def max_i64_def min_i64_def)
  ultimately show "fires minutely minute_after (jbTarget demo_job) (jbName demo_job) demo_cs" "armed_at (60 * second) (jbName demo_job) (csClock demo_cs)"
    "memM (csKV demo_cs) = [jobKey (jbName demo_job) \<mapsto> \<lparr>entVal = CSJob stored_demo, entVersion = 1\<rparr>]"
    using CreateJob_alone(1,2,7) [OF c n] by (auto simp: stored_demo_def)
qed

subsection \<open>Properties\<close>

text \<open>
  C11: an enabled job has exactly one armed timer and no other job has one.  After any history of calls, fires, passing time and
  restarts, the timers on the clock are one for each stored job that is not paused and has a schedule that parses.  Two
  conditions bound the histories, and without either the code arms a second timer: a timer's callback takes the
  service's lock before another call does (\<open>update_before_fire_doubles_job\<close>), and no \<open>CreateJob\<close> of an existing job has a context that
  has ended (\<open>ended_create_arms_twice\<close>).
\<close>

theorem enabled_job_has_one_timer:
  assumes "cs_run cron s"
  shows "length (filter (\<lambda>t. tF t = n) (ckQ (csClock s))) =
    (if \<exists>j nxt. GetJob n s = Ok j \<and> jbState j \<noteq> JobPaused \<and> cron (jbSchedule j) = Ok nxt then 1 else 0)"
proof -
  have inv: "cs_inv cron s" by (rule cs_run_inv [OF assms])
  then have base: "cs_base s" by (simp add: cs_inv_def)
  have "(\<exists>j nxt. GetJob n s = Ok j \<and> jbState j \<noteq> JobPaused \<and> cron (jbSchedule j) = Ok nxt) \<longleftrightarrow> has_timer s n"
    using inv getJobRecord_at(1) [OF base, of n] by (auto simp: cs_inv_def live_def GetJob_def)
  with one_timer [OF base, of n] show ?thesis by simp
qed

theorem enabled_job_has_one_timer_witness:
  "length (filter (\<lambda>t. tF t = jbName demo_job) (ckQ (csClock demo_cs))) = 1"
  using enabled_job_has_one_timer [OF demo_cs_run, of "jbName demo_job"] demo_cs_state(1) by (auto simp: fires_def GetJob_def)

text \<open>
  C26: a job fires at every cron time and only then.  Creating a job on a fresh clock and advancing past it publishes its message
  at the successive next times of the schedule up to the new time, when a next time is always later than the time asked for; the
  loop ends within one turn per fire.
\<close>

theorem job_fires_at_cron_times:
  assumes "CreateJob cron CtxLive parent (Some j) (New_cs cron NewMemory (NewFake now) True) = (Ok j', s)"
    and "cron (jbSchedule j) = Ok nxt" and "\<And>t. t < nxt t \<and> nxt t - t \<le> max_i64" and "jbTarget j = PubsubJob p"
    and "now + d < (nxt ^^ Suc k) now" and "k < fuel"
  shows "\<exists>ts s' c'. Advance fuel (cs_exec cron) d (s, csClock s) = Some (ts, Ok (), s', c') \<and> ckNow c' = now + d \<and>
    csPublished s' = map (\<lambda>t. (t, p)) (takeWhile (\<lambda>t. t \<le> now + d) (map (\<lambda>i. (nxt ^^ Suc i) now) [0..<k]))"
proof -
  note C = CreateJob_alone [OF assms(1,2)]
  have "now + arm_delay nxt now = nxt now" using assms(3) [of now] by (auto simp: arm_delay_def time_sub_def max_i64_def min_i64_def)
  then have a: "armed_at (nxt now) (jbName j) ((csClock s)\<lparr>ckIn := True\<rparr>)" using C(2) by (simp add: armed_at_def)
  have k: "now + d < (nxt ^^ k) (nxt now)" using assms(5) by (simp add: funpow_swap1)
  have S: "(nxt ^^ Suc i) now = (nxt ^^ i) (nxt now)" for i by (simp add: funpow_swap1)
  obtain ts s' c' where r: "run_loop fuel (cs_exec cron) (now + d) (s, (csClock s)\<lparr>ckIn := True\<rparr>) = Some (ts, Ok (), s', c')"
      "map tWhen ts = takeWhile (\<lambda>t. t \<le> now + d) (map (\<lambda>i. (nxt ^^ Suc i) now) [0..<k])"
      "csPublished s' = csPublished s @ concat (map (message (jbTarget j) s) (map tWhen ts))"
    using alone_loop [OF assms(3) C(1) a k assms(6)] unfolding S by blast
  have "message (jbTarget j) s = (\<lambda>t. [(t, p)])" using assms(4) C(6) by (simp add: message_def fun_eq_iff)
  then have "csPublished s' = map (\<lambda>t. (t, p)) (map tWhen ts)" using r(3) C(5) by (simp only: append_Nil concat_map_singleton)
  then have "csPublished s' = map (\<lambda>t. (t, p)) (takeWhile (\<lambda>t. t \<le> now + d) (map (\<lambda>i. (nxt ^^ Suc i) now) [0..<k]))" unfolding r(2) .
  moreover have "Advance fuel (cs_exec cron) d (s, csClock s) = Some (ts, Ok (), s', c'\<lparr>ckNow := now + d, ckIn := False\<rparr>)"
    using r(1) C(3,4) by (simp add: Advance_def runTo_def)
  ultimately show ?thesis by (intro exI [of _ ts] exI [of _ s'] exI [of _ "c'\<lparr>ckNow := now + d, ckIn := False\<rparr>"]) (simp del: map_map)
qed

theorem job_fires_at_cron_times_witness:
  "\<exists>j' s ts s' c'. CreateJob minutely CtxLive ''projects/p/locations/l'' (Some demo_job) (New_cs minutely NewMemory (NewFake 0) True) = (Ok j', s) \<and>
     Advance 4 (cs_exec minutely) (150 * second) (s, csClock s) = Some (ts, Ok (), s', c') \<and>
     map fst (csPublished s') = [60 * second, 120 * second]"
proof -
  have n: "minutely (jbSchedule demo_job) = Ok minute_after" by (simp add: minutely_def demo_job_def)
  obtain j' s where c: "CreateJob minutely CtxLive ''projects/p/locations/l'' (Some demo_job) (New_cs minutely NewMemory (NewFake 0) True) = (Ok j', s)"
    using demo_create [of minutely, OF n] by blast
  obtain p where p: "jbTarget demo_job = PubsubJob p" by (simp add: demo_job_def)
  have "0 + 150 * second < (minute_after ^^ Suc 3) 0" unfolding minutes by (simp add: second_def)
  from job_fires_at_cron_times [OF c n minute_after_later p this, of 4]
  obtain ts s' c' where r: "Advance 4 (cs_exec minutely) (150 * second) (s, csClock s) = Some (ts, Ok (), s', c')"
    "csPublished s' = map (\<lambda>t. (t, p)) (takeWhile (\<lambda>t. t \<le> 0 + 150 * second) (map (\<lambda>i. (minute_after ^^ Suc i) 0) [0..<3]))"
    by auto
  have "takeWhile (\<lambda>t. t \<le> 0 + 150 * second) (map (\<lambda>i. (minute_after ^^ Suc i) 0) [0..<3]) = [60 * second, 120 * second]"
    unfolding minutes by (simp add: upt_conv_Cons second_def)
  then have "map fst (csPublished s') = [60 * second, 120 * second]" unfolding r(2) by (simp add: comp_def)
  with c r(1) show ?thesis by (intro exI conjI)
qed

text \<open>
  C39: a job whose schedule never comes (the thirtieth of February) stops the clock.  The parser accepts the expression and its
  \<open>Next\<close> answers with the zero time; \<open>arm\<close> turns the negative delay into none, so the job fires at once and is armed again at
  the same instant: \<open>Advance\<close> never returns.
\<close>

theorem unsatisfiable_schedule_hangs_clock:
  assumes "CreateJob cron CtxLive parent (Some j) (New_cs cron NewMemory (NewFake now) b) = (Ok j', s)"
    and "cron (jbSchedule j) = Ok (\<lambda>_. zero_time)" and "zero_time \<le> now" and "0 \<le> d"
  shows "\<forall>fuel. Advance fuel (cs_exec cron) d (s, csClock s) = None"
proof
  fix fuel
  note C = CreateJob_alone [OF assms(1,2)]
  have "arm_delay (\<lambda>_. zero_time) now = 0" using assms(3) by (auto simp: arm_delay_def time_sub_def max_i64_def min_i64_def)
  then have "armed_at now (jbName j) ((csClock s)\<lparr>ckIn := True\<rparr>)" using C(2) by (simp add: armed_at_def)
  with assms(3,4) C(1) have "run_loop fuel (cs_exec cron) (now + d) (s, (csClock s)\<lparr>ckIn := True\<rparr>) = None"
    by (intro stuck_loop [where w = now]) auto
  then show "Advance fuel (cs_exec cron) d (s, csClock s) = None" using C(3,4) by (simp add: Advance_def runTo_def)
qed

theorem unsatisfiable_schedule_hangs_clock_witness:
  "\<exists>j' s. CreateJob never CtxLive ''projects/p/locations/l'' (Some demo_job) (New_cs never NewMemory (NewFake 0) True) = (Ok j', s) \<and>
     Advance 1000 (cs_exec never) 1 (s, csClock s) = None"
proof -
  have n: "never (jbSchedule demo_job) = Ok (\<lambda>_. - 62135596800 * second)" by (simp add: never_def)
  obtain j' s where c: "CreateJob never CtxLive ''projects/p/locations/l'' (Some demo_job) (New_cs never NewMemory (NewFake 0) True) = (Ok j', s)"
    using demo_create [of never, OF n] by blast
  then show ?thesis using unsatisfiable_schedule_hangs_clock [OF c n, of 1] by (auto simp: second_def)
qed

text \<open>
  An update that comes between a timer's expiry and its callback doubles the job.  The update arms a new timer, the callback that
  was waiting for the lock arms another, and from then on the job fires twice at every cron time.
\<close>

theorem update_before_fire_doubles_job:
  assumes "cs_run cron s" and "cs_roomy s" and "ckQ (csClock s) = t # q"
    and "jbName inc = tF t" and "UpdateJob cron (Some inc) (s\<lparr>csClock := popped t q (csClock s)\<rparr>) = (Ok j, s1)" and "cs_roomy s1"
  shows "length (filter (\<lambda>u. tF u = tF t) (ckQ (csClock (fire cron (tF t) s1)))) = 2"
proof -
  let ?p = "s\<lparr>csClock := popped t q (csClock s)\<rparr>" and ?n = "tF t"
  note P = pop_but [OF cs_run_inv [OF assms(1)] assms(3)]
  have room: "cs_roomy ?p" using assms(2) by (simp add: cs_roomy_def)
  have near: "cs_near cron (jbName inc) ?p" using near_intros(2) [OF P(1)] assms(4) by simp
  note U = UpdateJob_rearms [OF near room assms(5)]
  have base: "cs_base ?p" "cs_base s1" using P(1) U(1) by (simp_all add: cs_but_def cs_inv_def)
  obtain cur where cur: "getJobRecord (jbName inc) ?p = Ok cur" "jbState j = jbState cur"
      "jbSchedule j = (if jbSchedule inc \<noteq> '''' then jbSchedule inc else jbSchedule cur)" using U(5) by blast
  have "job_at s ?n = Some cur" using getJobRecord_at(1) [OF base(1)] cur(1) assms(4) by (simp add: job_at_def)
  then obtain nxt0 where live: "jbState cur \<noteq> JobPaused" "cron (jbSchedule cur) = Ok nxt0" using P(2) by (auto simp: live_def)
  have "\<exists>nxt. cron (jbSchedule inc) = Ok nxt" if "jbSchedule inc \<noteq> ''''"
    using assms(5) that by (auto simp: UpdateJob_def split: if_splits result.splits)
  then obtain nxt where nxt: "cron (jbSchedule j) = Ok nxt" using live(2) cur(3) by (auto split: if_splits)
  have "live cron s1 ?n" using U(3) live(1) cur(2) nxt assms(4) by (auto simp: live_def)
  then have one: "length (filter (\<lambda>u. tF u = ?n) (ckQ (csClock s1))) = 1" using one_timer [OF base(2)] U(1) by (simp add: cs_inv_def)
  have g: "getJobRecord ?n s1 = Ok j" using getJobRecord_at(1) [OF base(2)] U(3) assms(4) by simp
  let ?j = "j\<lparr>jbLastAttempt := Some (ckNow (csClock s1))\<rparr>"
  obtain s2 where s2: "putJob ?j s1 = (Ok (), s2)" "csClock s2 = csClock s1" using putJob_ok [OF base(2) assms(6), of ?j] by metis
  have "csClock (fire cron ?n s1) = snd (AfterFunc (arm_delay nxt (ckNow (csClock s1))) ?n (csClock s1))"
    using g s2 live(1) cur(2) arm_job_armed [of ?j cron nxt s2 "ckNow (csClock s1)"] nxt U(2) assms(4) by (simp add: fire_def Let_def)
  then show ?thesis using one count_AfterFunc [OF cs_baseD(2) [OF base(2)], of ?n _ ?n] by simp
qed

theorem update_before_fire_doubles_job_witness:
  "\<exists>t s1. ckQ (csClock demo_cs) = [t] \<and> s1 = snd (UpdateJob minutely (Some demo_job) (demo_cs\<lparr>csClock := popped t [] (csClock demo_cs)\<rparr>)) \<and>
     length (filter (\<lambda>u. tF u = jbName demo_job) (ckQ (csClock (fire minutely (jbName demo_job) s1)))) = 2"
proof -
  obtain t where t: "ckQ (csClock demo_cs) = [t]" "tF t = jbName demo_job" using demo_cs_state(2) by (auto simp: armed_at_def)
  let ?p = "demo_cs\<lparr>csClock := popped t [] (csClock demo_cs)\<rparr>"
  have room: "cs_roomy demo_cs" by (auto simp: cs_roomy_def key_room_def demo_cs_state(3))
  then have roomp: "cs_roomy ?p" by (simp add: cs_roomy_def)
  have base: "cs_base ?p" using pop_but(1) [OF cs_run_inv [OF demo_cs_run] t(1)] by (simp add: cs_but_def)
  have g: "getJobRecord (jbName demo_job) ?p = Ok stored_demo" by (simp add: getJobRecord_def mem_Get_def demo_cs_state(3))
  have n: "minutely (jbSchedule demo_job) = Ok minute_after" by (simp add: minutely_def demo_job_def)
  obtain r s1 where r: "UpdateJob minutely (Some demo_job) ?p = (r, s1)" by force
  have put: "putJob j ?p \<noteq> (Err e, s2)" for j e s2 using putJob_cases [OF base roomp, of j] by (metis prod.inject result.distinct(1))
  have "\<exists>j. r = Ok j"
  proof (cases r)
    case (Err e)
    then show ?thesis using r g n put demo_job_name(3) by (auto simp: UpdateJob_def Let_def split: prod.splits result.splits if_splits)
  qed simp
  then obtain j where u: "UpdateJob minutely (Some demo_job) ?p = (Ok j, s1)" using r by blast
  have near: "cs_near minutely (jbName demo_job) ?p" using near_intros(2) [OF pop_but(1) [OF cs_run_inv [OF demo_cs_run] t(1)]] t(2) by simp
  note U = UpdateJob_rearms [OF near roomp u]
  have "memM (csKV s1) = [jobKey (jbName demo_job) \<mapsto> \<lparr>entVal = CSJob j, entVersion = Suc (Suc 0)\<rparr>]"
    unfolding U(4) using U(2) demo_cs_state(3) by (simp add: putJob_def mem_Get_def mem_Put_def Let_def)
  then have "cs_roomy s1" by (auto simp: cs_roomy_def key_room_def)
  from update_before_fire_doubles_job [OF demo_cs_run room t(1) _ u this] t u show ?thesis by auto
qed


text \<open>
  A \<open>CreateJob\<close> whose context has ended takes the failed read for an absent job: over a stored job that is enabled it is
  answered as created, replaces the record and arms a second timer, of which the service forgets the first.
\<close>

theorem ended_create_arms_twice:
  assumes "cs_run cron s" and "cs_roomy s" and "cx \<noteq> CtxLive" and "validJobName (jbName j) = None"
    and "jbName j \<noteq> ''''" and "jobCollection (jbName j) = parent" and "jbTarget j \<noteq> NoJobTarget" and "cron (jbSchedule j) = Ok nxt"
    and "GetJob (jbName j) s = Ok j0" and "jbState j0 \<noteq> JobPaused" and "cron (jbSchedule j0) = Ok nxt0"
  shows "\<exists>j' s'. CreateJob cron cx parent (Some j) s = (Ok j', s') \<and>
    length (filter (\<lambda>t. tF t = jbName j) (ckQ (csClock s'))) = 2"
proof -
  have inv: "cs_inv cron s" by (rule cs_run_inv [OF assms(1)])
  then have base: "cs_base s" by (simp add: cs_inv_def)
  let ?j = "j\<lparr>jbState := JobEnabled, jbUserUpdate := Some (ckNow (csClock s))\<rparr>"
  obtain s1 where p: "putJob ?j s = (Ok (), s1)" "cs_base s1" "csClock s1 = csClock s" "job_at s1 = (job_at s)(jbName ?j \<mapsto> ?j)"
    using putJob_ok [OF base assms(2), of ?j] by metis
  have "CreateJob cron cx parent (Some j) s = (Ok ?j, arm_job cron ?j (ckNow (csClock s1)) s1)"
    using assms p(1) by (simp add: CreateJob_def Let_def mem_Get_def)
  moreover have "has_timer s (jbName j)"
    using inv getJobRecord_at(1) [OF base, of "jbName j"] assms(9-11) by (auto simp: cs_inv_def live_def GetJob_def)
  then have "length (filter (\<lambda>t. tF t = jbName j) (ckQ (csClock s1))) = 1" using one_timer [OF base] p(3) by simp
  then have "length (filter (\<lambda>t. tF t = jbName j) (ckQ (csClock (arm_job cron ?j (ckNow (csClock s1)) s1)))) = 2"
    using assms(8) count_AfterFunc [OF cs_baseD(2) [OF p(2)], of "jbName j" _ "jbName j"] by (simp add: arm_job_def Let_def split_beta)
  ultimately show ?thesis by blast
qed

theorem ended_create_arms_twice_witness:
  "\<exists>j' s'. CreateJob minutely CtxCanceled ''projects/p/locations/l'' (Some demo_job) demo_cs = (Ok j', s') \<and>
     length (filter (\<lambda>t. tF t = jbName demo_job) (ckQ (csClock s'))) = 2"
proof (rule ended_create_arms_twice [OF demo_cs_run])
  show "cs_roomy demo_cs" by (simp add: cs_roomy_def key_room_def demo_cs_state(3))
  show "GetJob (jbName demo_job) demo_cs = Ok stored_demo"
    by (simp add: GetJob_def getJobRecord_def mem_Get_def demo_cs_state(3))
qed (use demo_job_name in \<open>simp_all add: demo_job_def stored_demo_def minutely_def\<close>)

end
