(* ===== verification/Go_Time.thy ===== *)
theory Go_Time
  imports Go_Prelude
begin

text \<open>
  \<open>time.Parse\<close> with the layout \<open>RFC3339Nano\<close>, as the package reads it: fixed two-digit fields but for the hour, a fraction of any
  length after a period or a comma of which nine digits count, and a zone of \<open>Z\<close> or a signed offset.  A time is the number of
  nanoseconds since the Unix epoch.
\<close>

definition expect :: "char \<Rightarrow> string \<Rightarrow> string option" where
  "expect c s = (case s of x # r \<Rightarrow> if x = c then Some r else None | [] \<Rightarrow> None)"

definition getnum :: "bool \<Rightarrow> string \<Rightarrow> (nat \<times> string) option" where
  "getnum fixed s =
     (case s of
        [] \<Rightarrow> None
      | a # r \<Rightarrow>
          if \<not> is_digit a then None
          else (case r of
                  b # r' \<Rightarrow> if is_digit b then Some (10 * digit_val a + digit_val b, r') else if fixed then None else Some (digit_val a, r)
                | [] \<Rightarrow> if fixed then None else Some (digit_val a, r)))"

definition get_year :: "string \<Rightarrow> (nat \<times> string) option" where
  "get_year s = (if 4 \<le> length s \<and> list_all is_digit (take 4 s) then Some (dec_val (take 4 s), drop 4 s) else None)"

definition get_fraction :: "string \<Rightarrow> nat \<times> string" where
  "get_fraction s =
     (case s of
        c # r \<Rightarrow>
          let ds = takeWhile is_digit r
          in if (c = CHR ''.'' \<or> c = CHR '','') \<and> ds \<noteq> []
             then (dec_val (take 9 ds) * 10 ^ (9 - min 9 (length ds)), drop (length ds) r)
             else (0, s)
      | [] \<Rightarrow> (0, s))"

text \<open>The offset in seconds.\<close>

definition get_zone :: "string \<Rightarrow> (int \<times> string) option" where
  "get_zone s =
     (case s of
        [] \<Rightarrow> None
      | c # r \<Rightarrow>
          if c = CHR ''Z'' then Some (0, r)
          else if length s < 6 \<or> s ! 3 \<noteq> CHR '':'' then None
          else (case (getnum True (take 2 r), getnum True (take 2 (drop 3 r))) of
                  (Some (hr, _), Some (mm, _)) \<Rightarrow>
                    if 24 < hr \<or> 60 < mm then None
                    else if c = CHR ''+'' then Some (int ((hr * 60 + mm) * 60), drop 5 r)
                    else if c = CHR ''-'' then Some (- int ((hr * 60 + mm) * 60), drop 5 r)
                    else None
                | _ \<Rightarrow> None))"

definition leap :: "nat \<Rightarrow> bool" where
  "leap y \<longleftrightarrow> y mod 4 = 0 \<and> (y mod 100 \<noteq> 0 \<or> y mod 400 = 0)"

definition daysIn :: "nat \<Rightarrow> nat \<Rightarrow> nat" where
  "daysIn m y = (if m = 2 then (if leap y then 29 else 28) else if m \<in> {4, 6, 9, 11} then 30 else 31)"

text \<open>Days from the epoch to a date of the proleptic Gregorian calendar.\<close>

definition unix_days :: "nat \<Rightarrow> nat \<Rightarrow> nat \<Rightarrow> int" where
  "unix_days y m d =
     (let p = int y - 1
      in 365 * p + p div 4 - p div 100 + p div 400 + int (sum_list (map (\<lambda>k. daysIn k y) [1..<m])) + int d - 1 - 719162)"

definition parseRFC3339Nano :: "string \<Rightarrow> time option" where
  "parseRFC3339Nano s0 =
     (case get_year s0 of None \<Rightarrow> None | Some (y, s1) \<Rightarrow>
     (case Option.bind (expect (CHR ''-'') s1) (getnum True) of None \<Rightarrow> None | Some (m, s2) \<Rightarrow>
     (case Option.bind (expect (CHR ''-'') s2) (getnum True) of None \<Rightarrow> None | Some (d, s3) \<Rightarrow>
     (case Option.bind (expect (CHR ''T'') s3) (getnum False) of None \<Rightarrow> None | Some (hr, s4) \<Rightarrow>
     (case Option.bind (expect (CHR '':'') s4) (getnum True) of None \<Rightarrow> None | Some (mi, s5) \<Rightarrow>
     (case Option.bind (expect (CHR '':'') s5) (getnum True) of None \<Rightarrow> None | Some (se, s6) \<Rightarrow>
     (case get_fraction s6 of (ns, s7) \<Rightarrow>
     (case get_zone s7 of None \<Rightarrow> None | Some (off, s8) \<Rightarrow>
        if s8 \<noteq> [] \<or> m < 1 \<or> 12 < m \<or> d < 1 \<or> daysIn m y < d \<or> 24 \<le> hr \<or> 60 \<le> mi \<or> 60 \<le> se then None
        else Some ((unix_days y m d * 86400 + int (hr * 3600 + mi * 60 + se) - off) * second + int ns)))))))))"

end
