(* ===== verification/Log_Filter.thy ===== *)
theory Log_Filter
  imports Go_Time Gerr
begin

text \<open>
  The filter language of Cloud Logging (\<open>services/cloudlogging/filter.go\<close>): a tokenizer, a recursive-descent parser bounded in
  depth, and the predicates it builds.  A predicate is a function on entries.  The parser's position is the list of tokens
  left, its depth the number of levels left; its loops take fuel, and \<open>None\<close> is fuel that ran out, which
  \<open>parseFilter\<close> never answers.
\<close>

subsection \<open>Entries\<close>

record resource =
  rsType :: string
  rsLabels :: "(string \<times> string) list"

record lentry =
  leLogName :: string
  leResource :: "resource option"
  leTimestamp :: "time option"
  leReceive :: "time option"
  leSeverity :: int
  leInsertId :: string
  leTrace :: string
  leLabels :: "(string \<times> string) list"
  leText :: string

definition ts_time :: "time option \<Rightarrow> time" where
  "ts_time t = (case t of None \<Rightarrow> 0 | Some x \<Rightarrow> x)"

text \<open>A map read at an absent key gives the empty string.\<close>

definition label_of :: "(string \<times> string) list \<Rightarrow> string \<Rightarrow> string" where
  "label_of ls k = (case map_of ls k of None \<Rightarrow> '''' | Some v \<Rightarrow> v)"

type_synonym predicate = "lentry \<Rightarrow> bool"

subsection \<open>Tokens\<close>

definition severityRank :: "(string \<times> int) list" where
  "severityRank = [(''DEFAULT'', 0), (''DEBUG'', 100), (''INFO'', 200), (''NOTICE'', 300), (''WARNING'', 400), (''ERROR'', 500),
     (''CRITICAL'', 600), (''ALERT'', 700), (''EMERGENCY'', 800)]"

text \<open>The name of a severity; a number that has none prints as itself.\<close>

definition severity_String :: "int \<Rightarrow> string" where
  "severity_String n = (case map_of (map (\<lambda>(a, b). (b, a)) severityRank) n of Some w \<Rightarrow> w | None \<Rightarrow> itoa n)"

definition invalid :: "string \<Rightarrow> string list \<Rightarrow> rpc_error" where
  "invalid fmt args = Errorf InvalidArgument fmt args"

datatype tokKind = TokWord | TokString | TokOp | TokLParen | TokRParen

type_synonym token = "tokKind \<times> string"

definition filter_ops :: "string list" where
  "filter_ops = [''>='', ''<='', ''!='', ''='', ''>'', ''<'', '':'']"

definition opAt :: "string \<Rightarrow> string" where
  "opAt s = (case find (\<lambda>p. prefix p s) filter_ops of None \<Rightarrow> '''' | Some p \<Rightarrow> p)"

text \<open>The rest of a quoted string after its opening quote: what it denotes and what follows it.\<close>

fun quoted :: "string \<Rightarrow> (rpc_error, string \<times> string) result" where
  "quoted [] = Err (invalid ''unterminated quote in filter'' [])"
| "quoted (c # s) =
     (if c = CHR 0x5C
      then (case s of
              [] \<Rightarrow> Err (invalid ''unterminated quote in filter'' [])
            | d # s' \<Rightarrow> (case quoted s' of Err e \<Rightarrow> Err e | Ok (w, r) \<Rightarrow> Ok (d # w, r)))
      else if c = CHR 0x22 then Ok ([], s)
      else (case quoted s of Err e \<Rightarrow> Err e | Ok (w, r) \<Rightarrow> Ok (c # w, r)))"

definition blank :: "char \<Rightarrow> bool" where
  "blank c \<longleftrightarrow> c = CHR '' '' \<or> c = CHR 0x09 \<or> c = CHR 0x0A"

definition word_stop :: "string \<Rightarrow> bool" where
  "word_stop s \<longleftrightarrow> (case s of [] \<Rightarrow> True | c # _ \<Rightarrow> blank c \<or> c = CHR ''('' \<or> c = CHR '')'' \<or> opAt s \<noteq> '''')"

lemma quoted_shorter: "quoted s = Ok (w, r) \<Longrightarrow> length r < length s"
  by (induction s arbitrary: w r rule: quoted.induct) (fastforce split: if_splits list.splits result.splits)+

text \<open>A word up to a blank, a parenthesis or an operator, with quoted segments joined into it.\<close>

function word :: "string \<Rightarrow> (rpc_error, string \<times> string) result" where
  "word s =
     (if word_stop s then Ok ([], s)
      else if hd s = CHR 0x22
      then (case quoted (tl s) of
              Err e \<Rightarrow> Err e
            | Ok (q, r) \<Rightarrow> (case word r of Err e \<Rightarrow> Err e | Ok (w, r') \<Rightarrow> Ok (q @ w, r')))
      else (case word (tl s) of Err e \<Rightarrow> Err e | Ok (w, r) \<Rightarrow> Ok (hd s # w, r)))"
  by pat_completeness auto

termination word
  by (relation "measure length") (auto simp: word_stop_def dest!: quoted_shorter split: list.splits)

declare word.simps [simp del]

lemma word_stop_word: "word_stop s \<Longrightarrow> word s = Ok ([], s)"
  by (simp add: word.simps [of s])

lemma word_quote:
  "\<not> word_stop (CHR 0x22 # t) \<Longrightarrow> word (CHR 0x22 # t) =
   (case quoted t of Err e \<Rightarrow> Err e | Ok (q, r) \<Rightarrow> (case word r of Err e \<Rightarrow> Err e | Ok (w, r') \<Rightarrow> Ok (q @ w, r')))"
  by (simp add: word.simps [of "CHR 0x22 # t"])

lemma word_Cons:
  "\<not> word_stop (c # t) \<Longrightarrow> c \<noteq> CHR 0x22 \<Longrightarrow> word (c # t) = (case word t of Err e \<Rightarrow> Err e | Ok (w, r) \<Rightarrow> Ok (c # w, r))"
  by (cases "word t") (simp_all add: word.simps [of "c # t"] split: prod.splits)

lemma word_shorter: "word s = Ok (w, r) \<Longrightarrow> length r \<le> length s"
proof (induction s arbitrary: w r rule: length_induct)
  case (1 s)
  show ?case
  proof (cases "word_stop s")
    case True
    then show ?thesis using "1.prems" by (simp add: word_stop_word)
  next
    case False
    then obtain c t where s: "s = c # t" by (cases s) (auto simp: word_stop_def)
    have IH: "length r' \<le> length u" if "word u = Ok (w', r')" "length u < length s" for u w' r' using "1.IH" that by blast
    show ?thesis
    proof (cases "c = CHR 0x22")
      case True
      then obtain q r1 w1 where q: "quoted t = Ok (q, r1)" "word r1 = Ok (w1, r)"
        using "1.prems" False s by (auto simp: word_quote split: result.splits)
      then show ?thesis using IH [OF q(2)] quoted_shorter [OF q(1)] s by simp
    next
      case c: False
      then obtain w1 where "word t = Ok (w1, r)" using "1.prems" False s by (auto simp: word_Cons split: result.splits)
      then show ?thesis using IH [of t w1 r] s by simp
    qed
  qed
qed

lemma word_progress:
  assumes "\<not> word_stop s" and "hd s \<noteq> CHR 0x22" and "word s = Ok (w, r)"
  shows "length r < length s"
proof -
  obtain c t where s: "s = c # t" using assms(1) by (cases s) (auto simp: word_stop_def)
  then obtain w1 where "word t = Ok (w1, r)" using assms by (auto simp: word_Cons split: result.splits)
  then show ?thesis using word_shorter s by fastforce
qed

lemma opAt_length: "opAt s \<noteq> '''' \<Longrightarrow> 0 < length (opAt s) \<and> length (opAt s) \<le> length s"
  by (auto simp: opAt_def filter_ops_def dest: prefix_length_le split: if_splits option.splits)

function tokenize :: "string \<Rightarrow> (rpc_error, token list) result" where
  "tokenize [] = Ok []"
| "tokenize (c # s) =
     (if blank c then tokenize s
      else if c = CHR ''('' then (case tokenize s of Err e \<Rightarrow> Err e | Ok ts \<Rightarrow> Ok ((TokLParen, ''('') # ts))
      else if c = CHR '')'' then (case tokenize s of Err e \<Rightarrow> Err e | Ok ts \<Rightarrow> Ok ((TokRParen, '')'') # ts))
      else if c = CHR 0x22
      then (case quoted s of
              Err e \<Rightarrow> Err e
            | Ok (q, r) \<Rightarrow> (case tokenize r of Err e \<Rightarrow> Err e | Ok ts \<Rightarrow> Ok ((TokString, q) # ts)))
      else if opAt (c # s) \<noteq> ''''
      then (case tokenize (drop (length (opAt (c # s))) (c # s)) of
              Err e \<Rightarrow> Err e
            | Ok ts \<Rightarrow> Ok ((TokOp, opAt (c # s)) # ts))
      else (case word (c # s) of
              Err e \<Rightarrow> Err e
            | Ok (w, r) \<Rightarrow> (case tokenize r of Err e \<Rightarrow> Err e | Ok ts \<Rightarrow> Ok ((TokWord, w) # ts))))"
  by pat_completeness auto

termination tokenize
  by (relation "measure length")
    (auto simp: word_stop_def dest: quoted_shorter dest!: word_progress [rotated 2] opAt_length)

subsection \<open>Predicates\<close>

text \<open>An operator as a test on the sign of the difference.\<close>

definition compare_op :: "string \<Rightarrow> (rpc_error, int \<Rightarrow> bool) result" where
  "compare_op p =
     (if p = ''='' \<or> p = '':'' then Ok (\<lambda>d. d = 0)
      else if p = ''!='' then Ok (\<lambda>d. d \<noteq> 0)
      else if p = ''>'' then Ok (\<lambda>d. 0 < d)
      else if p = ''>='' then Ok (\<lambda>d. 0 \<le> d)
      else if p = ''<'' then Ok (\<lambda>d. d < 0)
      else if p = ''<='' then Ok (\<lambda>d. d \<le> 0)
      else Err (invalid ''unsupported operator %q'' [p]))"

definition rank_of :: "string \<Rightarrow> int" where
  "rank_of w = (case map_of severityRank w of None \<Rightarrow> 0 | Some n \<Rightarrow> n)"

definition severityCmp :: "string \<Rightarrow> string \<Rightarrow> (rpc_error, predicate) result" where
  "severityCmp p val =
     (case map_of severityRank (map upper_char val) of
        None \<Rightarrow> Err (invalid ''unknown severity %q'' [val])
      | Some want \<Rightarrow>
          (case compare_op p of
             Err e \<Rightarrow> Err e
           | Ok cmp \<Rightarrow> Ok (\<lambda>e. cmp (rank_of (severity_String (leSeverity e)) - want))))"

definition timeCmp :: "string \<Rightarrow> string \<Rightarrow> string \<Rightarrow> (rpc_error, predicate) result" where
  "timeCmp field p val =
     (case parseRFC3339Nano val of
        None \<Rightarrow> Err (invalid ''%s wants an RFC 3339 time, got %q'' [field, val])
      | Some want \<Rightarrow>
          (case compare_op p of
             Err e \<Rightarrow> Err e
           | Ok cmp \<Rightarrow>
               Ok (\<lambda>e. cmp (sgn (ts_time (if field = ''receiveTimestamp'' then leReceive e else leTimestamp e) - want)))))"

definition stringField :: "string \<Rightarrow> (lentry \<Rightarrow> string) option" where
  "stringField field =
     (if field = ''logName'' then Some leLogName
      else if field = ''resource.type'' then Some (\<lambda>e. case leResource e of None \<Rightarrow> '''' | Some r \<Rightarrow> rsType r)
      else if field = ''insertId'' then Some leInsertId
      else if field = ''trace'' then Some leTrace
      else if field = ''textPayload'' then Some leText
      else (case cutPrefix field ''resource.labels.'' of
              Some name \<Rightarrow> Some (\<lambda>e. case leResource e of None \<Rightarrow> '''' | Some r \<Rightarrow> label_of (rsLabels r) name)
            | None \<Rightarrow>
                (case cutPrefix field ''labels.'' of
                   Some name \<Rightarrow> Some (\<lambda>e. label_of (leLabels e) name)
                 | None \<Rightarrow> None)))"

definition comparison_filter :: "string \<Rightarrow> string \<Rightarrow> string \<Rightarrow> (rpc_error, predicate) result" where
  "comparison_filter field p val =
     (if field = ''severity'' then severityCmp p val
      else if field = ''timestamp'' \<or> field = ''receiveTimestamp'' then timeCmp field p val
      else case stringField field of
             None \<Rightarrow> Err (invalid ''unsupported filter field %q'' [field])
           | Some get \<Rightarrow>
               if p = ''='' then Ok (\<lambda>e. get e = val)
               else if p = ''!='' then Ok (\<lambda>e. get e \<noteq> val)
               else if p = '':'' then Ok (\<lambda>e. go_contains (map lower_char (get e)) (map lower_char val))
               else Err (invalid ''unsupported operator %q on %q'' [p, field]))"

subsection \<open>The parser\<close>

definition MaxFilterLength :: nat where "MaxFilterLength = 20000"
definition MaxFilterDepth :: nat where "MaxFilterDepth = 64"

type_synonym parse = "(rpc_error, predicate \<times> token list) result option"

definition keyword :: "string \<Rightarrow> token list \<Rightarrow> token list option" where
  "keyword kw ts = (case ts of t # r \<Rightarrow> if t = (TokWord, kw) then Some r else None | [] \<Rightarrow> None)"

definition negated :: "parse \<Rightarrow> parse" where
  "negated r =
     (case r of
        Some (Ok (p, ts)) \<Rightarrow> Some (Ok (\<lambda>e. \<not> p e, ts))
      | _ \<Rightarrow> r)"

fun or_loop :: "(token list \<Rightarrow> parse) \<Rightarrow> nat \<Rightarrow> predicate \<Rightarrow> token list \<Rightarrow> parse" where
  "or_loop u 0 left ts = None"
| "or_loop u (Suc k) left ts =
     (case keyword ''OR'' ts of
        None \<Rightarrow> Some (Ok (left, ts))
      | Some ts1 \<Rightarrow>
          (case u ts1 of
             Some (Ok (right, ts2)) \<Rightarrow> or_loop u k (\<lambda>e. left e \<or> right e) ts2
           | r \<Rightarrow> r))"

definition parse_or :: "(token list \<Rightarrow> parse) \<Rightarrow> token list \<Rightarrow> parse" where
  "parse_or u ts =
     (case u ts of
        Some (Ok (left, ts1)) \<Rightarrow> or_loop u (Suc (length ts1)) left ts1
      | r \<Rightarrow> r)"

fun and_loop :: "(token list \<Rightarrow> parse) \<Rightarrow> nat \<Rightarrow> predicate list \<Rightarrow> token list \<Rightarrow> parse" where
  "and_loop d 0 preds ts = None"
| "and_loop d (Suc k) preds ts =
     (if ts = [] \<or> fst (hd ts) = TokRParen
      then (if preds = [] then Some (Err (invalid ''empty expression in filter'' []))
            else Some (Ok (\<lambda>e. \<forall>p\<in>set preds. p e, ts)))
      else
        (case d (case keyword ''AND'' ts of None \<Rightarrow> ts | Some ts1 \<Rightarrow> ts1) of
           Some (Ok (p, ts2)) \<Rightarrow> and_loop d k (preds @ [p]) ts2
         | r \<Rightarrow> r))"

definition parse_and :: "(token list \<Rightarrow> parse) \<Rightarrow> token list \<Rightarrow> parse" where
  "parse_and u ts = and_loop (parse_or u) (Suc (length ts)) [] ts"

definition primary :: "(token list \<Rightarrow> parse) \<Rightarrow> token list \<Rightarrow> parse" where
  "primary u ts =
     (case ts of
        [] \<Rightarrow> Some (Err (invalid ''filter ends early'' []))
      | t # ts1 \<Rightarrow>
          if fst t = TokLParen
          then (case parse_and u ts1 of
                  Some (Ok (p, ts2)) \<Rightarrow>
                    (case ts2 of
                       (TokRParen, _) # ts3 \<Rightarrow> Some (Ok (p, ts3))
                     | _ \<Rightarrow> Some (Err (invalid ''missing ) in filter'' [])))
                | r \<Rightarrow> r)
          else
            (case ts1 of
               p # v # ts2 \<Rightarrow>
                 if fst t \<noteq> TokWord \<or> fst p \<noteq> TokOp \<or> (fst v \<noteq> TokWord \<and> fst v \<noteq> TokString)
                 then Some (Err (invalid ''unsupported filter term %q'' [snd t]))
                 else (case comparison_filter (snd t) (snd p) (snd v) of
                         Err e \<Rightarrow> Some (Err e)
                       | Ok q \<Rightarrow> Some (Ok (q, ts2)))
             | _ \<Rightarrow> Some (Err (invalid ''unsupported filter term %q'' [snd t]))))"

text \<open>The argument is the number of levels left below \<open>MaxFilterDepth\<close>.\<close>

fun unary :: "nat \<Rightarrow> token list \<Rightarrow> parse" where
  "unary 0 ts = Some (Err (invalid ''filter nests deeper than %d levels'' [dec MaxFilterDepth]))"
| "unary (Suc n) ts =
     (case keyword ''NOT'' ts of
        Some ts1 \<Rightarrow> negated (unary n ts1)
      | None \<Rightarrow>
          (case ts of
             (TokWord, c # w) # ts1 \<Rightarrow>
               if c = CHR ''-'' \<and> w \<noteq> '''' then negated (unary n ((TokWord, w) # ts1))
               else primary (unary n) ts
           | _ \<Rightarrow> primary (unary n) ts))"

definition parseFilter :: "string \<Rightarrow> (rpc_error, predicate) result option" where
  "parseFilter flt =
     (if MaxFilterLength < length flt then Some (Err (invalid ''filter is longer than %d characters'' [dec MaxFilterLength]))
      else case tokenize flt of
             Err e \<Rightarrow> Some (Err e)
           | Ok toks \<Rightarrow>
               if toks = [] then Some (Ok (\<lambda>_. True))
               else (case parse_and (unary MaxFilterDepth) toks of
                       None \<Rightarrow> None
                     | Some (Err e) \<Rightarrow> Some (Err e)
                     | Some (Ok (p, rest)) \<Rightarrow>
                         (case rest of
                            [] \<Rightarrow> Some (Ok p)
                          | t # _ \<Rightarrow> Some (Err (invalid ''unexpected %q in filter'' [snd t])))))"

end
