(* ===== verification/Cloud_Logging.thy ===== *)
theory Cloud_Logging
  imports Log_Filter Comparison "HOL-Library.AList"
begin

text \<open>
  Cloud Logging (\<open>services/cloudlogging\<close>): entries kept in memory up to a bound, written in batches, listed by scope and filter,
  and the writer that turns a function's output into entries.  Every call runs under the service's lock; of the clock it reads the
  time, which is an argument.  A map of labels is an association list.
\<close>

subsection \<open>The service (cloudlogging.go)\<close>

definition MaxEntries :: nat where "MaxEntries = 10000"

record logsvc =
  lgEntries :: "lentry list"
  lgMax :: nat
  lgSeq :: nat

definition New_log :: logsvc where
  "New_log = \<lparr>lgEntries = [], lgMax = MaxEntries, lgSeq = 0\<rparr>"

record write_req =
  wqLogName :: string
  wqResource :: "resource option"
  wqLabels :: "(string \<times> string) list"
  wqEntries :: "lentry list"

definition mergeLabels :: "(string \<times> string) list \<Rightarrow> (string \<times> string) list \<Rightarrow> (string \<times> string) list" where
  "mergeLabels base over =
     (if base = [] then over else foldl (\<lambda>ls (k, v). AList.update k v ls) base over)"

definition insertID :: "nat \<Rightarrow> string" where
  "insertID seq = ''cloudrig-'' @ dec seq"

text \<open>What the server stamps on one entry of a request.\<close>

definition stamp :: "time \<Rightarrow> write_req \<Rightarrow> nat \<Rightarrow> lentry \<Rightarrow> lentry" where
  "stamp now req seq e =
     e\<lparr>leLogName := (if leLogName e = '''' then wqLogName req else leLogName e),
       leResource := (if leResource e = None then wqResource req else leResource e),
       leTimestamp := (if leTimestamp e = None then Some now else leTimestamp e),
       leReceive := Some now,
       leInsertId := (if leInsertId e = '''' then insertID seq else leInsertId e),
       leLabels := mergeLabels (wqLabels req) (leLabels e)\<rparr>"

fun append_entries :: "time \<Rightarrow> write_req \<Rightarrow> lentry list \<Rightarrow> logsvc \<Rightarrow> logsvc" where
  "append_entries now req [] s = s"
| "append_entries now req (e # es) s =
     append_entries now req es (s\<lparr>lgSeq := u64 (lgSeq s + 1), lgEntries := lgEntries s @ [stamp now req (lgSeq s) e]\<rparr>)"

definition WriteLogEntries :: "time \<Rightarrow> write_req \<Rightarrow> logsvc \<Rightarrow> logsvc" where
  "WriteLogEntries now req s =
     (let s1 = append_entries now req (wqEntries req) s
      in if lgMax s1 < length (lgEntries s1)
         then s1\<lparr>lgEntries := drop (length (lgEntries s1) - lgMax s1) (lgEntries s1)\<rparr>
         else s1)"

definition projectScope :: "string list \<Rightarrow> string \<Rightarrow> bool" where
  "projectScope resourceNames logName =
     (let prefixes = map (\<lambda>rn. rn @ ''/'') (filter (\<lambda>rn. rn \<noteq> '''') resourceNames)
      in prefixes = [] \<or> list_ex (\<lambda>p. prefix p logName) prefixes)"

text \<open>\<open>None\<close> is a parser that does not stop.\<close>

definition ListLogEntries ::
  "string list \<Rightarrow> string \<Rightarrow> string \<Rightarrow> logsvc \<Rightarrow> (rpc_error, lentry list) result option" where
  "ListLogEntries resourceNames flt orderBy s =
     (case parseFilter flt of
        None \<Rightarrow> None
      | Some (Err e) \<Rightarrow> Some (Err e)
      | Some (Ok pred) \<Rightarrow>
          let matched = filter (\<lambda>e. projectScope resourceNames (leLogName e) \<and> pred e) (lgEntries s)
          in Some (Ok (if orderBy = ''timestamp desc''
                       then sliceStable (\<lambda>a b. ts_time (leTimestamp b) < ts_time (leTimestamp a)) matched
                       else matched)))"

definition ListLogs :: "string \<Rightarrow> logsvc \<Rightarrow> string list" where
  "ListLogs parent s = sort (remdups (map leLogName (filter (\<lambda>e. projectScope [parent] (leLogName e)) (lgEntries s))))"

definition DeleteLog :: "string \<Rightarrow> logsvc \<Rightarrow> logsvc" where
  "DeleteLog logName s = s\<lparr>lgEntries := filter (\<lambda>e. leLogName e \<noteq> logName) (lgEntries s)\<rparr>"

definition Reset_log :: "string \<Rightarrow> logsvc \<Rightarrow> logsvc" where
  "Reset_log project s =
     (if project = '''' then s\<lparr>lgEntries := []\<rparr>
      else s\<lparr>lgEntries := filter (\<lambda>e. \<not> prefix (''projects/'' @ project @ ''/'') (leLogName e)) (lgEntries s)\<rparr>)"

subsection \<open>Function output (functionlog.go)\<close>

definition MaxLineBytes :: nat where "MaxLineBytes = 256 * 1024"

definition trimRight_cr :: "string \<Rightarrow> string" where
  "trimRight_cr s = rev (dropWhile (\<lambda>c. c = CHR 0x0D) (rev s))"

text \<open>The complete lines of the buffer that are not empty, and what is left of it.\<close>

fun complete_lines :: "string \<Rightarrow> string \<Rightarrow> string list \<times> string" where
  "complete_lines acc [] = ([], acc)"
| "complete_lines acc (c # s) =
     (if c = CHR 0x0A
      then (let (ls, r) = complete_lines '''' s
            in ((if trimRight_cr acc = '''' then ls else trimRight_cr acc # ls), r))
      else complete_lines (acc @ [c]) s)"

function long_pieces :: "string \<Rightarrow> string list \<times> string" where
  "long_pieces buf =
     (if MaxLineBytes \<le> length buf
      then (let (ps, r) = long_pieces (drop MaxLineBytes buf) in (take MaxLineBytes buf # ps, r))
      else ([], buf))"
  by pat_completeness auto

termination long_pieces
  by (relation "measure length") (auto simp: MaxLineBytes_def)

text \<open>One write: the lines emitted, in order, and the buffer kept.\<close>

definition lineWriter_Write :: "string \<Rightarrow> string \<Rightarrow> string list \<times> string" where
  "lineWriter_Write buf p =
     (let (ls, r) = complete_lines '''' (buf @ p); (ps, r') = long_pieces r in (ls @ ps, r'))"

definition function_req :: "string \<Rightarrow> string \<Rightarrow> string \<Rightarrow> string \<Rightarrow> write_req" where
  "function_req project region name line =
     \<lparr>wqLogName = ''projects/'' @ project @ ''/logs/cloudfunctions.googleapis.com%2Fcloud-functions'',
      wqResource = Some \<lparr>rsType = ''cloud_function'', rsLabels = [(''project_id'', project), (''region'', region), (''function_name'', name)]\<rparr>,
      wqLabels = [],
      wqEntries = [\<lparr>leLogName = '''', leResource = None, leTimestamp = None, leReceive = None, leSeverity = 200, leInsertId = '''', leTrace = '''',
        leLabels = [], leText = line\<rparr>]\<rparr>"

definition FunctionLog_Write :: "string \<Rightarrow> string \<Rightarrow> string \<Rightarrow> time \<Rightarrow> string \<Rightarrow> string \<times> logsvc \<Rightarrow> string \<times> logsvc" where
  "FunctionLog_Write project region name now p bs =
     (let (ls, r) = lineWriter_Write (fst bs) p
      in (r, fold (\<lambda>line. WriteLogEntries now (function_req project region name line)) ls (snd bs)))"

end
