(* ===== verification/Log_Filter_Props.thy ===== *)
theory Log_Filter_Props
  imports Log_Filter
begin

text \<open>
  Properties of the filter language: its parser answers every text, and it reads back what its grammar writes.
\<close>

subsection \<open>The parser stops\<close>

text \<open>A parser that always answers and leaves fewer tokens than it was given.\<close>

definition consumes :: "(token list \<Rightarrow> parse) \<Rightarrow> bool" where
  "consumes u \<longleftrightarrow> (\<forall>ts. u ts \<noteq> None \<and> (\<forall>p r. u ts = Some (Ok (p, r)) \<longrightarrow> length r < length ts))"

lemma consumesD: "consumes u \<Longrightarrow> u ts \<noteq> None" "consumes u \<Longrightarrow> u ts = Some (Ok (p, r)) \<Longrightarrow> length r < length ts"
  by (simp_all add: consumes_def)

lemma keyword_shorter: "keyword kw ts = Some r \<Longrightarrow> length r < length ts"
  by (auto simp: keyword_def split: list.splits if_splits)

lemma or_loop_answers:
  "consumes u \<Longrightarrow> length ts < k \<Longrightarrow> or_loop u k l ts \<noteq> None \<and> (\<forall>p r. or_loop u k l ts = Some (Ok (p, r)) \<longrightarrow> length r \<le> length ts)"
proof (induction k arbitrary: l ts)
  case (Suc k)
  show ?case
  proof (cases "keyword ''OR'' ts")
    case (Some ts1)
    have len: "length ts1 < length ts" by (rule keyword_shorter [OF Some])
    show ?thesis
    proof (cases "\<exists>q ts2. u ts1 = Some (Ok (q, ts2))")
      case True
      then obtain q ts2 where q: "u ts1 = Some (Ok (q, ts2))" by blast
      then have "length ts2 < length ts1" using consumesD(2) [OF Suc.prems(1)] by blast
      with Suc.IH [OF Suc.prems(1), of ts2 "\<lambda>e. l e \<or> q e"] len Suc.prems(2) Some q show ?thesis by fastforce
    next
      case False
      with consumesD(1) [OF Suc.prems(1), of ts1] Some show ?thesis by (auto split: result.splits)
    qed
  qed simp
qed simp

lemma parse_or_consumes: "consumes u \<Longrightarrow> consumes (parse_or u)"
proof -
  assume u: "consumes u"
  have "parse_or u ts \<noteq> None \<and> (\<forall>p r. parse_or u ts = Some (Ok (p, r)) \<longrightarrow> length r < length ts)" for ts
  proof (cases "\<exists>q ts1. u ts = Some (Ok (q, ts1))")
    case True
    then obtain q ts1 where q: "u ts = Some (Ok (q, ts1))" by blast
    have "length ts1 < length ts" by (rule consumesD(2) [OF u q])
    with or_loop_answers [OF u, of ts1 "Suc (length ts1)" q] q show ?thesis by (fastforce simp: parse_or_def)
  next
    case False
    with consumesD(1) [OF u, of ts] show ?thesis by (auto simp: parse_or_def split: result.splits)
  qed
  then show ?thesis by (simp add: consumes_def)
qed

lemma and_loop_answers:
  "consumes d \<Longrightarrow> length ts < k \<Longrightarrow> and_loop d k ps ts \<noteq> None \<and>
   (\<forall>p r. and_loop d k ps ts = Some (Ok (p, r)) \<longrightarrow> length r \<le> length ts \<and> (r = [] \<or> fst (hd r) = TokRParen))"
proof (induction k arbitrary: ps ts)
  case (Suc k)
  let ?ts = "case keyword ''AND'' ts of None \<Rightarrow> ts | Some ts1 \<Rightarrow> ts1"
  have len: "length ?ts \<le> length ts" using keyword_shorter [of "''AND''" ts] by (fastforce split: option.splits)
  show ?case
  proof (cases "ts = [] \<or> fst (hd ts) = TokRParen")
    case False
    show ?thesis
    proof (cases "\<exists>q ts2. d ?ts = Some (Ok (q, ts2))")
      case True
      then obtain q ts2 where q: "d ?ts = Some (Ok (q, ts2))" by blast
      have "length ts2 < length ?ts" by (rule consumesD(2) [OF Suc.prems(1) q])
      with Suc.IH [OF Suc.prems(1), of ts2 "ps @ [q]"] len Suc.prems(2) False q show ?thesis by (fastforce split del: if_split)
    next
      case nq: False
      with consumesD(1) [OF Suc.prems(1), of ?ts] False show ?thesis by (auto split: result.splits option.splits)
    qed
  qed auto
qed simp

lemma primary_consumes: "consumes u \<Longrightarrow> consumes (primary u)"
proof -
  assume u: "consumes u"
  note A = and_loop_answers [OF parse_or_consumes [OF u]]
  have "primary u ts \<noteq> None \<and> (\<forall>p r. primary u ts = Some (Ok (p, r)) \<longrightarrow> length r < length ts)" for ts
  proof (cases ts)
    case (Cons t ts1)
    note A1 = A [of ts1 "Suc (length ts1)" "[]"]
    show ?thesis
    proof (cases "fst t = TokLParen")
      case True
      have pa: "parse_and u ts1 \<noteq> None" "\<And>p r. parse_and u ts1 = Some (Ok (p, r)) \<Longrightarrow> length r \<le> length ts1"
        using A1 unfolding parse_and_def by blast+
      then obtain x where x: "parse_and u ts1 = Some x" by blast
      show ?thesis
      proof (cases x)
        case (Err e)
        then show ?thesis using x True Cons by (simp add: primary_def)
      next
        case (Ok pr)
        obtain p ts2 where pr: "pr = (p, ts2)" by (cases pr)
        have "length ts2 \<le> length ts1" using pa(2) x Ok pr by blast
        then show ?thesis using x Ok pr True Cons by (cases ts2) (auto simp: primary_def split: tokKind.splits)
      qed
    next
      case False
      then show ?thesis using Cons by (auto simp: primary_def split: list.splits result.splits)
    qed
  qed (simp add: primary_def)
  then show ?thesis by (simp add: consumes_def)
qed

lemma negated_simps:
  "negated r = None \<longleftrightarrow> r = None" "negated r = Some (Ok (p, ts)) \<longleftrightarrow> (\<exists>q. r = Some (Ok (q, ts)) \<and> p = (\<lambda>e. \<not> q e))"
  by (auto simp: negated_def split: option.splits result.splits)

lemma unary_primary:
  assumes "keyword ''NOT'' ts = None" and "\<And>w ts1. ts = (TokWord, CHR ''-'' # w) # ts1 \<Longrightarrow> w = ''''"
  shows "unary (Suc n) ts = primary (unary n) ts"
proof (cases ts)
  case (Cons t ts1)
  obtain k w where t: "t = (k, w)" by (cases t)
  show ?thesis
  proof (cases "k = TokWord")
    case True
    then show ?thesis using assms Cons t by (cases w) auto
  next
    case False
    then show ?thesis using assms(1) Cons t by (cases k) simp_all
  qed
qed (simp add: keyword_def)

lemma unary_consumes: "consumes (unary n)"
proof (induction n)
  case 0
  show ?case by (simp add: consumes_def)
next
  case (Suc n)
  note P = primary_consumes [OF Suc]
  have "unary (Suc n) ts \<noteq> None \<and> (\<forall>p r. unary (Suc n) ts = Some (Ok (p, r)) \<longrightarrow> length r < length ts)" for ts
  proof (cases "keyword ''NOT'' ts")
    case (Some ts1)
    then have "unary (Suc n) ts = negated (unary n ts1)" by simp
    then show ?thesis using consumesD [OF Suc, of ts1] keyword_shorter [OF Some] by (metis negated_simps less_trans)
  next
    case None
    show ?thesis
    proof (cases "\<exists>w ts1. ts = (TokWord, CHR ''-'' # w) # ts1 \<and> w \<noteq> ''''")
      case True
      then obtain w ts1 where ts: "ts = (TokWord, CHR ''-'' # w) # ts1" "w \<noteq> ''''" by blast
      have "length ((TokWord, w) # ts1) = length ts" using ts by simp
      moreover have "unary (Suc n) ts = negated (unary n ((TokWord, w) # ts1))" using None ts by simp
      ultimately show ?thesis using consumesD [OF Suc, of "(TokWord, w) # ts1"] by (metis negated_simps)
    next
      case False
      then have "unary (Suc n) ts = primary (unary n) ts" by (intro unary_primary [OF None]) blast
      then show ?thesis using P by (simp add: consumes_def)
    qed
  qed
  then show ?case unfolding consumes_def by blast
qed

subsection \<open>The grammar\<close>

text \<open>
  A term is a comparison, a negation or a group in parentheses; a group is a conjunction of disjunctions of terms, each
  disjunction with or without the keyword \<open>AND\<close> in front.
\<close>

datatype fterm = Atom string string string | Not fterm | Group "(bool \<times> fterm list) list"

definition atom_holds :: "string \<Rightarrow> string \<Rightarrow> string \<Rightarrow> predicate" where
  "atom_holds f p v = (case comparison_filter f p v of Ok q \<Rightarrow> q | Err _ \<Rightarrow> (\<lambda>_. False))"

text \<open>What a term means.\<close>

fun holds :: "fterm \<Rightarrow> lentry \<Rightarrow> bool" where
  "holds (Atom f p v) e = atom_holds f p v e"
| "holds (Not t) e = (\<not> holds t e)"
| "holds (Group ds) e = (\<forall>d\<in>set ds. \<exists>t\<in>set (snd d). holds t e)"

text \<open>How it is written: values quoted, the characters of a field that need it quoted one by one.\<close>

definition escaped :: "string \<Rightarrow> string" where
  "escaped v = concat (map (\<lambda>c. if c = CHR 0x5C \<or> c = CHR 0x22 then [CHR 0x5C, c] else [c]) v)"

definition quote :: "string \<Rightarrow> string" where
  "quote v = CHR 0x22 # escaped v @ [CHR 0x22]"

definition plain :: "char \<Rightarrow> bool" where
  "plain c \<longleftrightarrow> \<not> blank c \<and> c \<notin> set ''()<>!=:'' \<and> c \<noteq> CHR 0x22"

definition show_field :: "string \<Rightarrow> string" where
  "show_field f = concat (map (\<lambda>c. if plain c then [c] else quote [c]) f)"

fun show_term :: "fterm \<Rightarrow> string" where
  "show_term (Atom f p v) = show_field f @ p @ quote v"
| "show_term (Not t) = ''NOT '' @ show_term t"
| "show_term (Group ds) = ''('' @
     concat (map (\<lambda>d. (if fst d then ''AND '' else '''') @
       (case map show_term (snd d) of [] \<Rightarrow> '''' | s # ss \<Rightarrow> s @ concat (map (\<lambda>s. '' OR '' @ s) ss)) @ '' '') ds) @ '')''"

definition show_group :: "(bool \<times> fterm list) list \<Rightarrow> string" where
  "show_group ds = concat (map (\<lambda>d. (if fst d then ''AND '' else '''') @
       (case map show_term (snd d) of [] \<Rightarrow> '''' | s # ss \<Rightarrow> s @ concat (map (\<lambda>s. '' OR '' @ s) ss)) @ '' '') ds)"

fun term_tokens :: "fterm \<Rightarrow> token list" where
  "term_tokens (Atom f p v) = [(TokWord, f), (TokOp, p), (TokString, v)]"
| "term_tokens (Not t) = (TokWord, ''NOT'') # term_tokens t"
| "term_tokens (Group ds) = (TokLParen, ''('') #
     concat (map (\<lambda>d. (if fst d then [(TokWord, ''AND'')] else []) @
       (case map term_tokens (snd d) of [] \<Rightarrow> [] | s # ss \<Rightarrow> s @ concat (map (\<lambda>s. (TokWord, ''OR'') # s) ss))) ds) @ [(TokRParen, '')'')]"

definition disj_tokens :: "bool \<times> fterm list \<Rightarrow> token list" where
  "disj_tokens d = (if fst d then [(TokWord, ''AND'')] else []) @
     (case map term_tokens (snd d) of [] \<Rightarrow> [] | s # ss \<Rightarrow> s @ concat (map (\<lambda>s. (TokWord, ''OR'') # s) ss))"

lemma term_tokens_Group: "term_tokens (Group ds) = (TokLParen, ''('') # concat (map disj_tokens ds) @ [(TokRParen, '')'')]"
  by (simp add: disj_tokens_def [abs_def])

lemma show_term_Group: "show_term (Group ds) = ''('' @ show_group ds @ '')''"
  by (simp add: show_group_def)

declare term_tokens.simps(3) [simp del] show_term.simps(3) [simp del]

text \<open>The comparisons are ones the language has, and no group or disjunction is empty.\<close>

fun wf_term :: "fterm \<Rightarrow> bool" where
  "wf_term (Atom f p v) \<longleftrightarrow> p \<in> set filter_ops \<and> is_ok (comparison_filter f p v)"
| "wf_term (Not t) \<longleftrightarrow> wf_term t"
| "wf_term (Group ds) \<longleftrightarrow> ds \<noteq> [] \<and> (\<forall>d\<in>set ds. snd d \<noteq> [] \<and> (\<forall>t\<in>set (snd d). wf_term t))"

text \<open>A term that nests at most so many levels deep.\<close>

fun fits :: "nat \<Rightarrow> fterm \<Rightarrow> bool" where
  "fits 0 t = False"
| "fits (Suc n) (Atom f p v) = True"
| "fits (Suc n) (Not t) = fits n t"
| "fits (Suc n) (Group ds) = (\<forall>d\<in>set ds. \<forall>t\<in>set (snd d). fits n t)"

subsection \<open>Reading what was written\<close>

lemma quoted_escaped: "quoted (escaped v @ CHR 0x22 # rest) = Ok (v, rest)"
  by (induction v) (auto simp: escaped_def)

lemma filter_ops_cases:
  assumes "p \<in> set filter_ops"
  shows "p = ''>='' \<or> p = ''<='' \<or> p = ''!='' \<or> p = ''='' \<or> p = ''>'' \<or> p = ''<'' \<or> p = '':''"
  using assms by (simp add: filter_ops_def)

lemma opAt_op: "p \<in> set filter_ops \<Longrightarrow> opAt (p @ CHR 0x22 # rest) = p"
  by (drule filter_ops_cases, elim disjE) (simp_all add: opAt_def filter_ops_def)

lemma word_stop_op: "p \<in> set filter_ops \<Longrightarrow> word_stop (p @ CHR 0x22 # rest)"
  using opAt_op [of p rest] filter_ops_cases [of p] by (cases p) (auto simp: word_stop_def)

lemma plain_not_stop: "plain c \<Longrightarrow> \<not> word_stop (c # s)"
  by (auto simp: plain_def word_stop_def opAt_def filter_ops_def)

lemma quote_not_stop: "\<not> word_stop (CHR 0x22 # s)"
  by (auto simp: word_stop_def opAt_def filter_ops_def blank_def)

lemma word_show_field: "word_stop rest \<Longrightarrow> word (show_field f @ rest) = Ok (f, rest)"
proof (induction f)
  case Nil
  then show ?case by (simp add: show_field_def word_stop_word)
next
  case (Cons c f)
  have sf: "show_field (c # f) = (if plain c then [c] else quote [c]) @ show_field f" by (simp add: show_field_def)
  show ?case
  proof (cases "plain c")
    case True
    then have "c \<noteq> CHR 0x22" by (simp add: plain_def)
    then show ?thesis using True Cons plain_not_stop [OF True] by (simp add: sf word_Cons)
  next
    case False
    then show ?thesis using Cons quoted_escaped [of "[c]" "show_field f @ rest"] quote_not_stop
      by (simp add: sf quote_def word_quote)
  qed
qed

text \<open>A field the language has starts with a letter that is no keyword's.\<close>

lemma field_letter:
  assumes "is_ok (comparison_filter f p v)"
  shows "\<exists>c g. f = c # g \<and> c \<in> set ''strlie''"
proof -
  have "f \<in> {''severity'', ''timestamp'', ''receiveTimestamp'', ''logName'', ''resource.type'', ''insertId'', ''trace'', ''textPayload''} \<or>
      prefix ''resource.labels.'' f \<or> prefix ''labels.'' f"
    using assms by (auto simp: comparison_filter_def stringField_def cutPrefix_def split: if_splits option.splits)
  then show ?thesis by (auto simp: prefix_def)
qed

definition ok_app :: "token list \<Rightarrow> (rpc_error, token list) result \<Rightarrow> (rpc_error, token list) result" where
  "ok_app xs r = (case r of Err e \<Rightarrow> Err e | Ok ts \<Rightarrow> Ok (xs @ ts))"

lemma ok_app_simps [simp]: "ok_app xs (Ok ts) = Ok (xs @ ts)" "ok_app xs (Err e) = Err e" "ok_app [] r = r" "ok_app xs (ok_app ys r) = ok_app (xs @ ys) r"
  by (auto simp: ok_app_def split: result.splits)

lemma ok_app_cons: "(case r of Err e \<Rightarrow> Err e | Ok ts \<Rightarrow> Ok (t # ts)) = ok_app [t] r"
  by (cases r) simp_all

lemma tokenize_word:
  assumes "word (c # s) = Ok (w, r)" and "plain c"
  shows "tokenize (c # s) = ok_app [(TokWord, w)] (tokenize r)"
proof -
  have "\<not> blank c" "c \<noteq> CHR ''(''" "c \<noteq> CHR '')''" "c \<noteq> CHR 0x22" "opAt (c # s) = ''''"
    using assms(2) plain_not_stop [OF assms(2), of s] by (auto simp: plain_def word_stop_def)
  then show ?thesis using assms(1) by (simp add: ok_app_cons)
qed

lemma tokenize_quote: "tokenize (quote v @ rest) = ok_app [(TokString, v)] (tokenize rest)"
  using quoted_escaped [of v rest] by (simp add: quote_def blank_def ok_app_cons)

lemma tokenize_opAt:
  assumes "opAt (c # s) = p" and "p \<noteq> ''''" and "drop (length p) (c # s) = r"
    and "\<not> blank c" and "c \<noteq> CHR ''(''" and "c \<noteq> CHR '')''" and "c \<noteq> CHR 0x22"
  shows "tokenize (c # s) = ok_app [(TokOp, p)] (tokenize r)"
  using assms by (simp add: ok_app_cons)

lemma tokenize_op:
  assumes "p \<in> set filter_ops"
  shows "tokenize (p @ quote v @ rest) = ok_app [(TokOp, p)] (tokenize (quote v @ rest))"
proof -
  obtain q where q: "quote v @ rest = CHR 0x22 # q" by (simp add: quote_def)
  obtain c s where p: "p = c # s" "\<not> blank c" "c \<noteq> CHR ''(''" "c \<noteq> CHR '')''" "c \<noteq> CHR 0x22"
    using assms by (auto simp: filter_ops_def blank_def)
  have o: "opAt (c # s @ CHR 0x22 # q) = p" using opAt_op [OF assms, of q] p(1) by simp
  have "tokenize (c # s @ CHR 0x22 # q) = ok_app [(TokOp, p)] (tokenize (CHR 0x22 # q))"
    using tokenize_opAt [of c "s @ CHR 0x22 # q" p "CHR 0x22 # q"] p o by simp
  then show ?thesis using p(1) q by simp
qed

lemma tokenize_kw: "tokenize (''NOT '' @ rest) = ok_app [(TokWord, ''NOT'')] (tokenize rest)" "tokenize (''AND '' @ rest) = ok_app [(TokWord, ''AND'')] (tokenize rest)"
  "tokenize ('' OR '' @ rest) = ok_app [(TokWord, ''OR'')] (tokenize rest)" "tokenize (CHR '' '' # rest) = tokenize rest"
proof -
  have st: "word_stop (CHR '' '' # rest)" by (simp add: word_stop_def blank_def)
  have w: "word (f @ CHR '' '' # rest) = Ok (f, CHR '' '' # rest)" if "list_all plain f" for f
    using that word_stop_word [OF st] plain_not_stop by (induction f) (auto simp: word_Cons plain_def)
  have p: "list_all plain ''NOT''" "list_all plain ''AND''" "list_all plain ''OR''" by (simp_all add: plain_def blank_def)
  show b: "tokenize (CHR '' '' # rest) = tokenize rest" by (simp add: blank_def)
  show "tokenize (''NOT '' @ rest) = ok_app [(TokWord, ''NOT'')] (tokenize rest)" "tokenize (''AND '' @ rest) = ok_app [(TokWord, ''AND'')] (tokenize rest)"
    using tokenize_word [of "CHR ''N''" "''OT '' @ rest"] tokenize_word [of "CHR ''A''" "''ND '' @ rest"] w [OF p(1)] w [OF p(2)] p b by simp_all
  have "tokenize (''OR '' @ rest) = ok_app [(TokWord, ''OR'')] (tokenize rest)"
    using tokenize_word [of "CHR ''O''" "''R '' @ rest"] w [OF p(3)] p b by simp
  then show "tokenize ('' OR '' @ rest) = ok_app [(TokWord, ''OR'')] (tokenize rest)" by (simp add: blank_def)
qed

declare tokenize.simps [simp del] or_loop.simps [simp del] and_loop.simps [simp del] unary.simps [simp del]

lemma tokenize_atom:
  assumes "wf_term (Atom f p v)"
  shows "tokenize (show_term (Atom f p v) @ rest) = ok_app (term_tokens (Atom f p v)) (tokenize rest)"
proof -
  have p: "p \<in> set filter_ops" using assms by simp
  obtain c g where f: "f = c # g" "c \<in> set ''strlie''" using field_letter [of f p v] assms by auto
  then have c: "plain c" by (auto simp: plain_def blank_def)
  let ?r = "p @ quote v @ rest"
  have "word_stop ?r" using word_stop_op [OF p] by (simp add: quote_def)
  then have "word (show_field f @ ?r) = Ok (f, ?r)" by (rule word_show_field)
  then have "tokenize (show_field f @ ?r) = ok_app [(TokWord, f)] (tokenize ?r)"
    using tokenize_word [of c "show_field g @ ?r" f ?r] c f(1) by (simp add: show_field_def)
  then show ?thesis by (simp add: tokenize_op [OF p] tokenize_quote)
qed

text \<open>Printing a list of pieces and reading it back, piece by piece.\<close>

lemma tokenize_concat:
  "(\<And>x rest. x \<in> set xs \<Longrightarrow> tokenize (sh x @ rest) = ok_app (tk x) (tokenize rest)) \<Longrightarrow>
   tokenize (concat (map sh xs) @ rest) = ok_app (concat (map tk xs)) (tokenize rest)"
  by (induction xs arbitrary: rest) simp_all

definition show_disj :: "bool \<times> fterm list \<Rightarrow> string" where
  "show_disj d = (if fst d then ''AND '' else '''') @
     (case map show_term (snd d) of [] \<Rightarrow> '''' | s # ss \<Rightarrow> s @ concat (map (\<lambda>s. '' OR '' @ s) ss)) @ '' ''"

lemma show_group_disj: "show_group ds = concat (map show_disj ds)"
  by (simp add: show_group_def show_disj_def [abs_def])

lemma tokenize_disj:
  assumes "\<And>t rest. t \<in> set (snd d) \<Longrightarrow> tokenize (show_term t @ rest) = ok_app (term_tokens t) (tokenize rest)"
  shows "tokenize (show_disj d @ rest) = ok_app (disj_tokens d) (tokenize rest)"
proof -
  obtain b ts where d: "d = (b, ts)" by (cases d)
  have body: "tokenize ((case map show_term ts of [] \<Rightarrow> '''' | s # ss \<Rightarrow> s @ concat (map (\<lambda>s. '' OR '' @ s) ss)) @ '' '' @ rest) =
      ok_app (case map term_tokens ts of [] \<Rightarrow> [] | s # ss \<Rightarrow> s @ concat (map (\<lambda>s. (TokWord, ''OR'') # s) ss)) (tokenize rest)"
  proof (cases ts)
    case Nil
    then show ?thesis using tokenize_kw(4) by simp
  next
    case (Cons t us)
    have "tokenize (concat (map (\<lambda>u. '' OR '' @ show_term u) us) @ r) = ok_app (concat (map (\<lambda>u. (TokWord, ''OR'') # term_tokens u) us)) (tokenize r)" for r
      by (rule tokenize_concat) (use assms d Cons tokenize_kw(3) in simp)
    then show ?thesis using assms [of t] d Cons tokenize_kw(4) by (simp add: comp_def)
  qed
  show ?thesis
  proof (cases b)
    case True
    then show ?thesis using body d tokenize_kw(2) by (simp add: show_disj_def disj_tokens_def)
  next
    case False
    then show ?thesis using body d by (simp add: show_disj_def disj_tokens_def)
  qed
qed

lemma tokenize_show_term: "wf_term t \<Longrightarrow> tokenize (show_term t @ rest) = ok_app (term_tokens t) (tokenize rest)"
proof (induction t arbitrary: rest)
  case (Atom f p v)
  then show ?case by (rule tokenize_atom)
next
  case (Not t)
  then show ?case using tokenize_kw(1) [of "show_term t @ rest"] by simp
next
  case (Group ds)
  have "tokenize (show_disj d @ r) = ok_app (disj_tokens d) (tokenize r)" if "d \<in> set ds" for d r
    by (rule tokenize_disj) (use Group that in \<open>cases d, force simp: snds.simps\<close>)
  then have "tokenize (show_group ds @ r) = ok_app (concat (map disj_tokens ds)) (tokenize r)" for r
    unfolding show_group_disj by (rule tokenize_concat)
  then show ?case by (simp add: show_term_Group term_tokens_Group blank_def ok_app_cons tokenize.simps)
qed

subsection \<open>Parsing the tokens\<close>

definition reads :: "(token list \<Rightarrow> parse) \<Rightarrow> fterm \<Rightarrow> bool" where
  "reads u t \<longleftrightarrow> (\<forall>rest. u (term_tokens t @ rest) = Some (Ok (holds t, rest)))"

definition no_kw :: "string \<Rightarrow> token list \<Rightarrow> bool" where
  "no_kw kw ts \<longleftrightarrow> (ts = [] \<or> hd ts \<noteq> (TokWord, kw))"

lemma keyword_simps: "no_kw kw ts \<Longrightarrow> keyword kw ts = None" "keyword kw ((TokWord, kw) # ts) = Some ts"
  by (auto simp: keyword_def no_kw_def split: list.splits)

lemma or_loop_reads:
  "(\<And>t. t \<in> set ts \<Longrightarrow> reads u t) \<Longrightarrow> no_kw ''OR'' rest \<Longrightarrow> length ts < k \<Longrightarrow>
   or_loop u k l (concat (map (\<lambda>t. (TokWord, ''OR'') # term_tokens t) ts) @ rest) = Some (Ok (\<lambda>e. l e \<or> (\<exists>t\<in>set ts. holds t e), rest))"
proof (induction ts arbitrary: l k)
  case Nil
  then obtain k' where "k = Suc k'" by (cases k) auto
  then show ?case using keyword_simps(1) [OF Nil(2)] by (simp add: or_loop.simps)
next
  case (Cons t ts)
  obtain k' where k: "k = Suc k'" "length ts < k'" using Cons.prems(3) by (cases k) auto
  let ?r = "concat (map (\<lambda>t. (TokWord, ''OR'') # term_tokens t) ts) @ rest"
  have "u (term_tokens t @ ?r) = Some (Ok (holds t, ?r))" using Cons.prems(1) [of t] by (simp add: reads_def)
  then show ?case using Cons.IH [of k' "\<lambda>e. l e \<or> holds t e"] Cons.prems(1,2) k keyword_simps(2)
    by (simp add: disj_assoc or_loop.simps)
qed

lemma first_token:
  assumes "wf_term t"
  shows "\<exists>k w r. term_tokens t = (k, w) # r \<and> k \<noteq> TokRParen \<and> (k = TokWord \<longrightarrow> w \<noteq> ''AND'' \<and> w \<noteq> ''OR'')"
proof (cases t)
  case (Atom f p v)
  then show ?thesis using field_letter [of f p v] assms by auto
qed (simp_all add: term_tokens_Group)

lemma parse_or_reads:
  assumes "\<And>t. t \<in> set ts \<Longrightarrow> reads u t" and "ts \<noteq> []" and "no_kw ''OR'' rest"
  shows "parse_or u ((case map term_tokens ts of [] \<Rightarrow> [] | s # ss \<Rightarrow> s @ concat (map (\<lambda>s. (TokWord, ''OR'') # s) ss)) @ rest) =
    Some (Ok (\<lambda>e. \<exists>t\<in>set ts. holds t e, rest))"
proof -
  obtain t us where ts: "ts = t # us" using assms(2) by (cases ts) auto
  let ?r = "concat (map (\<lambda>t. (TokWord, ''OR'') # term_tokens t) us) @ rest"
  have "length us \<le> length (concat (map (\<lambda>t. (TokWord, ''OR'') # term_tokens t) us))" by (induction us) auto
  then have len: "length us < Suc (length ?r)" by simp
  have "u (term_tokens t @ ?r) = Some (Ok (holds t, ?r))" using assms(1) ts by (simp add: reads_def)
  then show ?thesis using or_loop_reads [of us u rest "Suc (length ?r)" "holds t"] assms ts len by (simp add: parse_or_def comp_def)
qed

lemma and_loop_reads:
  assumes rest: "rest = [] \<or> fst (hd rest) = TokRParen"
  shows "(\<And>d t. d \<in> set ds \<Longrightarrow> t \<in> set (snd d) \<Longrightarrow> reads u t \<and> wf_term t) \<Longrightarrow> (\<And>d. d \<in> set ds \<Longrightarrow> snd d \<noteq> []) \<Longrightarrow>
    length ds < k \<Longrightarrow> ps \<noteq> [] \<or> ds \<noteq> [] \<Longrightarrow>
    and_loop (parse_or u) k ps (concat (map disj_tokens ds) @ rest) =
      Some (Ok (\<lambda>e. (\<forall>p\<in>set ps. p e) \<and> (\<forall>d\<in>set ds. \<exists>t\<in>set (snd d). holds t e), rest))"
proof (induction ds arbitrary: k ps)
  case Nil
  then obtain k' where "k = Suc k'" by (cases k) auto
  then show ?case using rest Nil by (simp add: and_loop.simps)
next
  case (Cons d ds)
  obtain k' where k: "k = Suc k'" "length ds < k'" using Cons.prems(3) by (cases k) auto
  obtain b t us where d: "d = (b, t # us)" using Cons.prems(2) [of d] by (cases d; cases "snd d") auto
  let ?more = "concat (map disj_tokens ds) @ rest"
  let ?body = "case map term_tokens (t # us) of [] \<Rightarrow> [] | s # ss \<Rightarrow> s @ concat (map (\<lambda>s. (TokWord, ''OR'') # s) ss)"
  have ft: "\<exists>k w r. disj_tokens d' = (k, w) # r \<and> k \<noteq> TokRParen \<and> (k = TokWord \<longrightarrow> w \<noteq> ''OR'' \<and> (\<not> fst d' \<longrightarrow> w \<noteq> ''AND''))"
    if mem: "d' \<in> set (d # ds)" for d'
  proof -
    obtain b' t' us' where d': "d' = (b', t' # us')" using Cons.prems(2) [OF mem] by (cases d'; cases "snd d'") auto
    then have "wf_term t'" using Cons.prems(1) [OF mem] by auto
    from first_token [OF this] d' show ?thesis by (auto simp: disj_tokens_def)
  qed
  have no: "no_kw ''OR'' ?more"
  proof (cases ds)
    case Nil
    then show ?thesis using rest by (auto simp: no_kw_def)
  next
    case (Cons d' ds')
    then show ?thesis using ft [of d'] by (auto simp: no_kw_def)
  qed
  have body: "parse_or u (?body @ ?more) = Some (Ok (\<lambda>e. \<exists>t\<in>set (t # us). holds t e, ?more))"
    by (rule parse_or_reads) (use Cons.prems(1) [of d] d no in auto)
  have start: "disj_tokens d @ ?more = (if b then [(TokWord, ''AND'')] else []) @ ?body @ ?more" by (simp add: disj_tokens_def d)
  obtain kd w r where kd: "disj_tokens d = (kd, w) # r" "kd \<noteq> TokRParen" "\<not> b \<longrightarrow> kd = TokWord \<longrightarrow> w \<noteq> ''AND''" using ft [of d] d by auto
  have kw: "(case keyword ''AND'' (disj_tokens d @ ?more) of None \<Rightarrow> disj_tokens d @ ?more | Some ts1 \<Rightarrow> ts1) = ?body @ ?more"
  proof (cases b)
    case True
    then show ?thesis unfolding start by (simp add: keyword_simps)
  next
    case False
    then have "no_kw ''AND'' (disj_tokens d @ ?more)" using kd by (auto simp: no_kw_def)
    then show ?thesis using False start by (simp add: keyword_simps)
  qed
  have "and_loop (parse_or u) k ps (disj_tokens d @ ?more) = and_loop (parse_or u) k' (ps @ [\<lambda>e. \<exists>t\<in>set (t # us). holds t e]) ?more"
    unfolding k(1) and_loop.simps kw body using kd by simp
  also have "\<dots> = Some (Ok (\<lambda>e. (\<forall>p\<in>set (ps @ [\<lambda>e. \<exists>t\<in>set (t # us). holds t e]). p e) \<and> (\<forall>d\<in>set ds. \<exists>t\<in>set (snd d). holds t e), rest))"
    by (rule Cons.IH) (use Cons.prems(1,2) k(2) in auto)
  finally show ?case using d by (auto simp: fun_eq_iff)
qed

lemma parse_and_reads:
  assumes "rest = [] \<or> fst (hd rest) = TokRParen" and "\<And>d t. d \<in> set ds \<Longrightarrow> t \<in> set (snd d) \<Longrightarrow> reads u t \<and> wf_term t"
    and "\<And>d. d \<in> set ds \<Longrightarrow> snd d \<noteq> []" and "ds \<noteq> []"
  shows "parse_and u (concat (map disj_tokens ds) @ rest) = Some (Ok (\<lambda>e. \<forall>d\<in>set ds. \<exists>t\<in>set (snd d). holds t e, rest))"
proof -
  have "disj_tokens d \<noteq> []" if mem: "d \<in> set ds" for d
  proof -
    obtain b t us where "d = (b, t # us)" using assms(3) [OF mem] by (cases d; cases "snd d") auto
    then show ?thesis using first_token [of t] assms(2) [OF mem, of t] by (auto simp: disj_tokens_def)
  qed
  then have "length ds \<le> length (concat (map disj_tokens ds))"
  proof (induction ds)
    case (Cons d ds)
    then have "disj_tokens d \<noteq> []" "length ds \<le> length (concat (map disj_tokens ds))" by auto
    then show ?case by (cases "disj_tokens d") auto
  qed simp
  then have "length ds < Suc (length (concat (map disj_tokens ds) @ rest))" by simp
  from and_loop_reads [OF assms(1,2,3) this, where ps = "[]"] assms(4) show ?thesis by (simp add: parse_and_def)
qed

lemma unary_reads: "wf_term t \<Longrightarrow> fits n t \<Longrightarrow> reads (unary n) t"
proof (induction n arbitrary: t)
  case (Suc n)
  show ?case
  proof (cases t)
    case (Atom f p v)
    obtain c g where f: "f = c # g" "c \<in> set ''strlie''" using field_letter [of f p v] Suc.prems Atom by auto
    obtain q where q: "comparison_filter f p v = Ok q" using Suc.prems(1) Atom by (cases "comparison_filter f p v") auto
    have "unary (Suc n) (term_tokens t @ rest) = primary (unary n) (term_tokens t @ rest)" for rest
      by (rule unary_primary) (use Atom f in \<open>auto simp: keyword_def\<close>)
    then show ?thesis using Atom q by (simp add: reads_def primary_def atom_holds_def fun_eq_iff)
  next
    case (Not s)
    then have "reads (unary n) s" using Suc by simp
    then show ?thesis using Not by (simp add: reads_def keyword_simps negated_def fun_eq_iff unary.simps)
  next
    case (Group ds)
    have r: "reads (unary n) s \<and> wf_term s" if "d \<in> set ds" "s \<in> set (snd d)" for d s
      using Suc.prems Suc.IH [of s] that Group by auto
    have "parse_and (unary n) (concat (map disj_tokens ds) @ (TokRParen, '')'') # rest) =
        Some (Ok (holds t, (TokRParen, '')'') # rest))" for rest
      using parse_and_reads [of "(TokRParen, '')'') # rest" ds "unary n"] r Suc.prems(1) Group by (auto simp: fun_eq_iff)
    moreover have "unary (Suc n) (term_tokens t @ rest) = primary (unary n) (term_tokens t @ rest)" for rest
      by (rule unary_primary) (use Group in \<open>auto simp: keyword_def term_tokens_Group\<close>)
    ultimately show ?thesis using Group by (simp add: reads_def primary_def term_tokens_Group)
  qed
qed simp

lemma parse_show_group:
  assumes "ds \<noteq> []" and "\<forall>d\<in>set ds. snd d \<noteq> [] \<and> (\<forall>t\<in>set (snd d). wf_term t \<and> fits MaxFilterDepth t)"
    and "length (show_group ds) \<le> MaxFilterLength"
  shows "parseFilter (show_group ds) = Some (Ok (\<lambda>e. \<forall>d\<in>set ds. \<exists>t\<in>set (snd d). holds t e))"
proof -
  have "tokenize (show_disj d @ r) = ok_app (disj_tokens d) (tokenize r)" if "d \<in> set ds" for d r
    by (rule tokenize_disj) (use assms(2) that in \<open>auto intro: tokenize_show_term\<close>)
  then have "tokenize (concat (map show_disj ds) @ []) = ok_app (concat (map disj_tokens ds)) (tokenize [])" by (rule tokenize_concat)
  then have tok: "tokenize (show_group ds) = Ok (concat (map disj_tokens ds))" by (simp add: show_group_disj tokenize.simps)
  have r: "reads (unary MaxFilterDepth) t \<and> wf_term t" if "d \<in> set ds" "t \<in> set (snd d)" for d t
    using assms(2) that unary_reads by blast
  have p: "parse_and (unary MaxFilterDepth) (concat (map disj_tokens ds)) = Some (Ok (\<lambda>e. \<forall>d\<in>set ds. \<exists>t\<in>set (snd d). holds t e, []))"
    using parse_and_reads [of "[]" ds "unary MaxFilterDepth"] r assms(1,2) by simp
  have "concat (map disj_tokens ds) \<noteq> []"
  proof -
    obtain d ds' where ds: "ds = d # ds'" using assms(1) by (cases ds) auto
    obtain b t us where d: "d = (b, t # us)" using assms(2) ds by (cases d; cases "snd d") auto
    have "wf_term t" using assms(2) ds d by simp
    from first_token [OF this] show ?thesis by (auto simp: ds d disj_tokens_def)
  qed
  with tok p assms(3) show ?thesis by (cases "concat (map disj_tokens ds)") (simp_all add: parseFilter_def)
qed

definition demo_group :: "(bool \<times> fterm list) list" where
  "demo_group = [(False, [Atom ''severity'' ''>='' ''error'', Not (Atom ''labels.a b'' ''='' ''x'')]), (True, [Group [(False, [Atom ''textPayload'' '':'' ''failed''])]])]"

lemma demo_group_ok:
  "demo_group \<noteq> []" "\<forall>d\<in>set demo_group. snd d \<noteq> [] \<and> (\<forall>t\<in>set (snd d). wf_term t \<and> fits MaxFilterDepth t)"
proof -
  have "is_ok (comparison_filter ''severity'' ''>='' ''error'')" "is_ok (comparison_filter ''labels.a b'' ''='' ''x'')"
    "is_ok (comparison_filter ''textPayload'' '':'' ''failed'')" by code_simp+
  moreover obtain n where n: "MaxFilterDepth = Suc (Suc n)" using that [of 62] by (simp add: MaxFilterDepth_def)
  have "fits MaxFilterDepth (Atom f p v)" "fits MaxFilterDepth (Not (Atom f p v))" "fits MaxFilterDepth (Group [(b, [Atom f p v])])" for f p v b
    unfolding n by simp_all
  ultimately show "demo_group \<noteq> []" "\<forall>d\<in>set demo_group. snd d \<noteq> [] \<and> (\<forall>t\<in>set (snd d). wf_term t \<and> fits MaxFilterDepth t)"
    by (simp_all add: demo_group_def filter_ops_def)
qed

lemma demo_group_text: "show_group demo_group = ''severity>='' @ quote ''error'' @ '' OR NOT labels.a'' @ quote '' '' @ ''b='' @ quote ''x'' @
    '' AND (textPayload:'' @ quote ''failed'' @ '' ) ''"
  by (simp add: demo_group_def show_group_def show_term.simps show_field_def plain_def blank_def)

subsection \<open>Properties\<close>

text \<open>
  C32: the parser answers every filter.  Its loops never run out of tokens to read without stopping: the fuel of the model, one turn per
  token, is always enough.
\<close>

theorem filter_parser_stops: "parseFilter flt \<noteq> None"
proof -
  note A = and_loop_answers [OF parse_or_consumes [OF unary_consumes [of MaxFilterDepth]]]
  have "parse_and (unary MaxFilterDepth) ts \<noteq> None" for ts using A [of ts "Suc (length ts)" "[]"] unfolding parse_and_def by blast
  then show ?thesis by (auto simp: parseFilter_def split: result.splits option.splits list.splits) (metis option.distinct(1))
qed

text \<open>
  C17: a filter means what its grammar says.  A conjunction of disjunctions of comparisons, negations and groups, written out with
  values and odd characters quoted, is parsed as exactly that predicate: adjacency and \<open>AND\<close> conjoin, \<open>OR\<close> binds tighter.
\<close>

theorem printed_filter_parses:
  assumes "ds \<noteq> []" and "\<forall>d\<in>set ds. snd d \<noteq> [] \<and> (\<forall>t\<in>set (snd d). wf_term t \<and> fits MaxFilterDepth t)"
    and "length (show_group ds) \<le> MaxFilterLength"
  shows "parseFilter (show_group ds) = Some (Ok (\<lambda>e. \<forall>d\<in>set ds. \<exists>t\<in>set (snd d). holds t e))"
  by (rule parse_show_group [OF assms])

theorem printed_filter_parses_witness:
  "parseFilter (''severity>='' @ quote ''error'' @ '' OR NOT labels.a'' @ quote '' '' @ ''b='' @ quote ''x'' @ '' AND (textPayload:'' @ quote ''failed'' @ '' ) '') =
   Some (Ok (\<lambda>e. \<forall>d\<in>set demo_group. \<exists>t\<in>set (snd d). holds t e))"
proof -
  have "length (show_group demo_group) \<le> MaxFilterLength"
    unfolding demo_group_text by (simp add: quote_def escaped_def MaxFilterLength_def)
  from printed_filter_parses [OF demo_group_ok this] show ?thesis unfolding demo_group_text .
qed

end
