(* ===== verification/Cloud_Logging_Props.thy ===== *)
theory Cloud_Logging_Props
  imports Cloud_Logging Log_Filter_Props
begin

text \<open>
  Properties of Cloud Logging: what a query answers, by the interpretation of \<open>comparison\<close> on the time stamps, and what the log keeps.
\<close>

definition newest_first :: "lentry \<Rightarrow> lentry \<Rightarrow> int" where
  "newest_first a b = sgn (ts_time (leTimestamp b) - ts_time (leTimestamp a))"

interpretation newest: comparison newest_first
  by unfold_locales (auto simp: newest_first_def sgn_if split: if_splits)

lemma newest_first_less: "(\<lambda>a b. ts_time (leTimestamp b) < ts_time (leTimestamp a)) = (\<lambda>a b. newest_first a b < 0)"
  by (auto simp: newest_first_def fun_eq_iff sgn_if)

text \<open>A query's scope and filter, stated on the abstract syntax.\<close>

definition selected :: "string list \<Rightarrow> (bool \<times> fterm list) list \<Rightarrow> lentry \<Rightarrow> bool" where
  "selected rns ds e \<longleftrightarrow>
     ((\<forall>rn\<in>set rns. rn = '''') \<or> (\<exists>rn\<in>set rns. rn \<noteq> '''' \<and> prefix (rn @ ''/'') (leLogName e))) \<and>
     (\<forall>d\<in>set ds. \<exists>t\<in>set (snd d). holds t e)"

lemma projectScope_iff:
  "projectScope rns n \<longleftrightarrow> (\<forall>rn\<in>set rns. rn = '''') \<or> (\<exists>rn\<in>set rns. rn \<noteq> '''' \<and> prefix (rn @ ''/'') n)"
  by (auto simp: projectScope_def Let_def list_ex_iff filter_empty_conv)

text \<open>What a request adds to the log, and the sequence number after it.\<close>

fun stamped :: "time \<Rightarrow> write_req \<Rightarrow> nat \<Rightarrow> lentry list \<Rightarrow> lentry list" where
  "stamped now req q [] = []"
| "stamped now req q (e # es) = stamp now req q e # stamped now req (u64 (q + 1)) es"

fun seq_after :: "nat \<Rightarrow> nat \<Rightarrow> nat" where
  "seq_after 0 q = q"
| "seq_after (Suc n) q = seq_after n (u64 (q + 1))"

lemma append_entries_eq:
  "append_entries now req es s = s\<lparr>lgEntries := lgEntries s @ stamped now req (lgSeq s) es, lgSeq := seq_after (length es) (lgSeq s)\<rparr>"
  by (induction es arbitrary: s) simp_all

lemma WriteLogEntries_fields:
  "lgEntries (WriteLogEntries now req s) =
     drop (length (lgEntries s @ stamped now req (lgSeq s) (wqEntries req)) - lgMax s) (lgEntries s @ stamped now req (lgSeq s) (wqEntries req))"
  "lgSeq (WriteLogEntries now req s) = seq_after (length (wqEntries req)) (lgSeq s)" "lgMax (WriteLogEntries now req s) = lgMax s"
  by (simp_all add: WriteLogEntries_def Let_def append_entries_eq del: length_append drop_append)

lemma drop_keep: "drop (length (drop (length a - m) a @ d) - m) (drop (length a - m) a @ d) = drop (length (a @ d) - m) (a @ d)"
  by (cases "length a \<le> m") (simp_all add: min_def add.commute)

text \<open>All the entries of a sequence of requests, in order, each with the time and the request it came with, and as they are stamped: numbered from 0 on.\<close>

definition arrivals :: "(time \<times> write_req) list \<Rightarrow> (time \<times> write_req \<times> lentry) list" where
  "arrivals reqs = concat (map (\<lambda>(now, req). map (\<lambda>e. (now, req, e)) (wqEntries req)) reqs)"

definition numbered :: "nat \<Rightarrow> (time \<times> write_req \<times> lentry) list \<Rightarrow> lentry list" where
  "numbered n xs = map (\<lambda>(i, now, req, e). stamp now req (u64 i) e) (enumerate n xs)"

lemma stamped_numbered: "stamped now req (u64 n) es = numbered n (map (\<lambda>e. (now, req, e)) es)"
  by (induction es arbitrary: n) (simp_all add: numbered_def u64_def mod_Suc_eq)

lemma seq_after_u64: "seq_after n (u64 q) = u64 (q + n)"
  by (induction n arbitrary: q) (simp_all add: u64_def mod_Suc_eq)

lemma numbered_append: "numbered n (xs @ ys) = numbered n xs @ numbered (n + length xs) ys"
  by (simp add: numbered_def enumerate_append_eq)

definition demo_log :: logsvc where
  "demo_log = WriteLogEntries 7 \<lparr>wqLogName = ''projects/p/logs/app'', wqResource = None, wqLabels = [(''a b'', ''x'')],
     wqEntries = [\<lparr>leLogName = '''', leResource = None, leTimestamp = Some 3, leReceive = None, leSeverity = 500, leInsertId = '''', leTrace = '''',
       leLabels = [], leText = ''payment FAILED''\<rparr>]\<rparr> New_log"

subsection \<open>Properties\<close>

text \<open>
  C27: a log query answers with exactly the entries it selects.  They come in the order they were written, whatever time they
  carry, or, for \<open>timestamp desc\<close>, latest time first with entries of the same time in the order they were written: the one
  order is not by time, and the other not its reverse.
\<close>

theorem log_query_answers:
  assumes "ds \<noteq> []" and "\<forall>d\<in>set ds. snd d \<noteq> [] \<and> (\<forall>t\<in>set (snd d). wf_term t \<and> fits MaxFilterDepth t)"
    and "length (show_group ds) \<le> MaxFilterLength"
  shows "\<exists>out. ListLogEntries rns (show_group ds) orderBy s = Some (Ok out) \<and>
    mset out = mset (filter (selected rns ds) (lgEntries s)) \<and>
    (if orderBy = ''timestamp desc''
     then sorted_wrt (\<lambda>a b. ts_time (leTimestamp b) \<le> ts_time (leTimestamp a)) out \<and>
       (\<forall>t. filter (\<lambda>e. ts_time (leTimestamp e) = t) out = filter (\<lambda>e. ts_time (leTimestamp e) = t) (filter (selected rns ds) (lgEntries s)))
     else out = filter (selected rns ds) (lgEntries s))"
proof -
  have p: "parseFilter (show_group ds) = Some (Ok (\<lambda>e. \<forall>d\<in>set ds. \<exists>t\<in>set (snd d). holds t e))"
    by (rule parse_show_group [OF assms])
  let ?m = "filter (selected rns ds) (lgEntries s)"
  have m: "filter (\<lambda>e. projectScope rns (leLogName e) \<and> (\<forall>d\<in>set ds. \<exists>t\<in>set (snd d). holds t e)) (lgEntries s) = ?m"
    by (rule filter_cong) (simp_all add: selected_def projectScope_iff)
  let ?o = "sliceStable (\<lambda>a b. newest_first a b < 0) ?m"
  have so: "sorted_wrt (\<lambda>a b. ts_time (leTimestamp b) \<le> ts_time (leTimestamp a)) ?o"
    by (rule sorted_wrt_mono_rel [OF _ newest.sort_sorted]) (auto simp: newest_first_def sgn_if split: if_splits)
  have st: "filter (\<lambda>e. ts_time (leTimestamp e) = t) ?o = filter (\<lambda>e. ts_time (leTimestamp e) = t) ?m" for t
  proof -
    obtain x :: lentry where x: "ts_time (leTimestamp x) = t" using that [of "undefined\<lparr>leTimestamp := Some t\<rparr>"] by (simp add: ts_time_def)
    have "(\<lambda>e. ts_time (leTimestamp e) = t) = (\<lambda>e. newest_first x e = 0)" using x by (auto simp: newest_first_def sgn_if fun_eq_iff)
    then show ?thesis using newest.sort_stable [of x ?m] by simp
  qed
  show ?thesis using so st by (simp add: ListLogEntries_def p m Let_def newest_first_less)
qed

theorem log_query_answers_witness:
  "\<exists>out. ListLogEntries [''projects/p''] (show_group demo_group) ''timestamp desc'' demo_log = Some (Ok out) \<and>
     mset out = mset (filter (selected [''projects/p''] demo_group) (lgEntries demo_log)) \<and>
     sorted_wrt (\<lambda>a b. ts_time (leTimestamp b) \<le> ts_time (leTimestamp a)) out"
proof -
  have "length (show_group demo_group) \<le> MaxFilterLength"
    unfolding demo_group_text by (simp add: quote_def escaped_def MaxFilterLength_def)
  from log_query_answers [OF demo_group_ok this, of "[''projects/p'']" "''timestamp desc''" demo_log] show ?thesis by auto
qed

text \<open>
  C33: the log keeps the newest entries.  After any sequence of writes it holds, in the order they were written, the last
  \<open>MaxEntries\<close> of all the entries of the requests; the one that arrived after \<open>i\<close> others is stamped with the defaults of its
  request, the time of the write and the number \<open>i\<close>.
\<close>

theorem log_keeps_newest:
  "lgEntries (fold (\<lambda>(now, req). WriteLogEntries now req) reqs New_log) =
     drop (length (arrivals reqs) - MaxEntries) (map (\<lambda>(i, now, req, e). stamp now req (u64 i) e) (enumerate 0 (arrivals reqs)))"
proof -
  let ?W = "\<lambda>(now, req). WriteLogEntries now req" and ?N = "\<lambda>reqs. numbered 0 (arrivals reqs)"
  have len: "length (?N reqs) = length (arrivals reqs)" for reqs by (simp add: numbered_def)
  have "lgEntries (fold ?W reqs New_log) = drop (length (?N reqs) - MaxEntries) (?N reqs) \<and>
      lgSeq (fold ?W reqs New_log) = u64 (length (arrivals reqs)) \<and> lgMax (fold ?W reqs New_log) = MaxEntries"
  proof (induction reqs rule: rev_induct)
    case Nil
    show ?case by (simp add: New_log_def arrivals_def numbered_def u64_def)
  next
    case (snoc r reqs)
    obtain now req where r: "r = (now, req)" by (cases r)
    let ?w = "fold ?W reqs New_log"
    have ar: "arrivals (reqs @ [r]) = arrivals reqs @ map (\<lambda>e. (now, req, e)) (wqEntries req)" by (simp add: arrivals_def r)
    then have n: "?N (reqs @ [r]) = ?N reqs @ stamped now req (lgSeq ?w) (wqEntries req)"
      using snoc by (simp add: numbered_append stamped_numbered)
    have "lgEntries (fold ?W (reqs @ [r]) New_log) = drop (length (?N (reqs @ [r])) - MaxEntries) (?N (reqs @ [r]))"
      unfolding n using snoc by (simp only: fold_append comp_apply fold_simps r prod.case WriteLogEntries_fields drop_keep)
    moreover have "lgSeq (fold ?W (reqs @ [r]) New_log) = u64 (length (arrivals (reqs @ [r])))"
      unfolding ar using snoc by (simp add: r WriteLogEntries_fields seq_after_u64)
    ultimately show ?case using snoc by (simp add: r WriteLogEntries_fields)
  qed
  then show ?thesis unfolding len by (simp add: numbered_def)
qed

end
