(* ===== verification/Http_Content.thy ===== *)
theory Http_Content
  imports Go_Prelude
begin

text \<open>
  What \<open>http.ServeContent\<close> answers to a read of some content: the conditions of RFC 7232 in their order, and the ranges
  asked for.  A header that is absent reads as the empty text; \<open>parseTime\<close> is \<open>http.ParseTime\<close> in seconds, \<open>etag\<close> the
  entity tag the handler set, and the modification time is in nanoseconds, zero for an unknown one.
\<close>

subsection \<open>Entity tags\<close>

definition ascii_space :: "char \<Rightarrow> bool" where
  "ascii_space c \<longleftrightarrow> c \<in> {CHR '' '', CHR 0x09, CHR 0x0A, CHR 0x0D}"

definition trimString :: "string \<Rightarrow> string" where
  "trimString s = rev (dropWhile ascii_space (rev (dropWhile ascii_space s)))"

definition etag_char :: "char \<Rightarrow> bool" where
  "etag_char c \<longleftrightarrow> of_char c = (0x21::nat) \<or> 0x23 \<le> (of_char c :: nat) \<and> (of_char c :: nat) \<le> 0x7E \<or> 0x80 \<le> (of_char c :: nat)"

definition scanETag :: "string \<Rightarrow> (string \<times> string) option" where
  "scanETag s =
     (let t = trimString s; n = (if prefix ''W/'' t then 2 else 0); q = drop n t
      in if length q < 2 \<or> hd q \<noteq> CHR 0x22 then None
         else case dropWhile etag_char (tl q) of
                [] \<Rightarrow> None
              | c # remain \<Rightarrow>
                  if c = CHR 0x22 then Some (take n t @ CHR 0x22 # takeWhile etag_char (tl q) @ [CHR 0x22], remain) else None)"

definition etagStrongMatch :: "string \<Rightarrow> string \<Rightarrow> bool" where
  "etagStrongMatch a b \<longleftrightarrow> a = b \<and> a \<noteq> '''' \<and> hd a = CHR 0x22"

definition unweak :: "string \<Rightarrow> string" where
  "unweak s = (if prefix ''W/'' s then drop 2 s else s)"

definition etagWeakMatch :: "string \<Rightarrow> string \<Rightarrow> bool" where
  "etagWeakMatch a b \<longleftrightarrow> unweak a = unweak b"

lemma trimString_le: "length (trimString s) \<le> length s"
  by (metis trimString_def length_dropWhile_le length_rev order_trans)

lemma scanETag_shorter: "scanETag s = Some (e, remain) \<Longrightarrow> length remain < length s"
proof -
  assume a: "scanETag s = Some (e, remain)"
  define n :: nat where "n = (if prefix ''W/'' (trimString s) then 2 else 0)"
  obtain c where c: "dropWhile etag_char (tl (drop n (trimString s))) = c # remain"
    using a by (auto simp: scanETag_def Let_def n_def split: if_splits list.splits)
  then have "Suc (length remain) \<le> length (tl (drop n (trimString s)))"
    using length_dropWhile_le [of etag_char "tl (drop n (trimString s))"] by simp
  then show ?thesis using trimString_le [of s] by simp
qed

text \<open>Whether a list of entity tags has one that matches; a star matches anything.\<close>

function any_etag :: "(string \<Rightarrow> bool) \<Rightarrow> string \<Rightarrow> bool" where
  "any_etag f s =
     (case trimString s of
        [] \<Rightarrow> False
      | c # rest \<Rightarrow>
          if c = CHR '','' then any_etag f rest
          else if c = CHR ''*'' then True
          else case scanETag (c # rest) of
                 None \<Rightarrow> False
               | Some (e, remain) \<Rightarrow> f e \<or> any_etag f remain)"
  by pat_completeness auto
termination
proof (relation "measure (\<lambda>(f, s). length s)")
  fix f s c rest
  assume t: "trimString s = c # rest"
  show "((f, rest), f, s) \<in> measure (\<lambda>(f, s). length s)"
    using trimString_le [of s] t by simp
  show "((f, remain), f, s) \<in> measure (\<lambda>(f, s). length s)"
    if "scanETag (c # rest) = Some x" "(e, remain) = x" for x e remain
    using scanETag_shorter [of "c # rest" e remain] that trimString_le [of s] t by simp
qed auto

subsection \<open>Conditions\<close>

datatype cond = CondNone | CondTrue | CondFalse

type_synonym headers = "string \<Rightarrow> string"

definition of_bool_cond :: "bool \<Rightarrow> cond" where
  "of_bool_cond b = (if b then CondTrue else CondFalse)"

definition checkIfMatch :: "string \<Rightarrow> headers \<Rightarrow> cond" where
  "checkIfMatch etag hdr =
     (if hdr ''If-Match'' = '''' then CondNone
      else of_bool_cond (any_etag (\<lambda>e. etagStrongMatch e etag) (hdr ''If-Match'')))"

definition checkIfNoneMatch :: "string \<Rightarrow> headers \<Rightarrow> cond" where
  "checkIfNoneMatch etag hdr =
     (if hdr ''If-None-Match'' = '''' then CondNone
      else of_bool_cond (\<not> any_etag (\<lambda>e. etagWeakMatch e etag) (hdr ''If-None-Match'')))"

definition checkIfUnmodifiedSince :: "(string \<Rightarrow> int option) \<Rightarrow> headers \<Rightarrow> time \<Rightarrow> cond" where
  "checkIfUnmodifiedSince parseTime hdr modtime =
     (if hdr ''If-Unmodified-Since'' = '''' \<or> modtime = 0 then CondNone
      else case parseTime (hdr ''If-Unmodified-Since'') of
             None \<Rightarrow> CondNone
           | Some t \<Rightarrow> of_bool_cond (modtime div 1000000000 \<le> t))"

definition reads :: "string \<Rightarrow> bool" where
  "reads meth \<longleftrightarrow> meth = ''GET'' \<or> meth = ''HEAD''"

definition checkIfModifiedSince :: "(string \<Rightarrow> int option) \<Rightarrow> string \<Rightarrow> headers \<Rightarrow> time \<Rightarrow> cond" where
  "checkIfModifiedSince parseTime meth hdr modtime =
     (if \<not> reads meth \<or> hdr ''If-Modified-Since'' = '''' \<or> modtime = 0 then CondNone
      else case parseTime (hdr ''If-Modified-Since'') of
             None \<Rightarrow> CondNone
           | Some t \<Rightarrow> of_bool_cond (\<not> modtime div 1000000000 \<le> t))"

definition checkIfRange :: "(string \<Rightarrow> int option) \<Rightarrow> string \<Rightarrow> string \<Rightarrow> headers \<Rightarrow> time \<Rightarrow> cond" where
  "checkIfRange parseTime etag meth hdr modtime =
     (if \<not> reads meth \<or> hdr ''If-Range'' = '''' then CondNone
      else case scanETag (hdr ''If-Range'') of
             Some (e, _) \<Rightarrow> of_bool_cond (etagStrongMatch e etag)
           | None \<Rightarrow>
               (case parseTime (hdr ''If-Range'') of
                  None \<Rightarrow> CondFalse
                | Some t \<Rightarrow> of_bool_cond (t = modtime div 1000000000)))"

text \<open>\<open>checkPreconditions\<close>: the status that ends the request, or the range header that is left.\<close>

definition http_preconditions ::
  "(string \<Rightarrow> int option) \<Rightarrow> string \<Rightarrow> string \<Rightarrow> headers \<Rightarrow> time \<Rightarrow> int + string" where
  "http_preconditions parseTime etag meth hdr modtime =
     (let ch = (case checkIfMatch etag hdr of CondNone \<Rightarrow> checkIfUnmodifiedSince parseTime hdr modtime | c \<Rightarrow> c);
          asked = (if hdr ''Range'' \<noteq> '''' \<and> checkIfRange parseTime etag meth hdr modtime = CondFalse then '''' else hdr ''Range'')
      in if ch = CondFalse then Inl 412
         else case checkIfNoneMatch etag hdr of
                CondFalse \<Rightarrow> Inl (if reads meth then 304 else 412)
              | CondNone \<Rightarrow> if checkIfModifiedSince parseTime meth hdr modtime = CondFalse then Inl 304 else Inr asked
              | CondTrue \<Rightarrow> Inr asked)"

subsection \<open>Ranges\<close>

fun split_at :: "char \<Rightarrow> string \<Rightarrow> string list" where
  "split_at c [] = [[]]"
| "split_at c (a # s) =
     (if a = c then [] # split_at c s
      else case split_at c s of [] \<Rightarrow> [[a]] | w # ws \<Rightarrow> (a # w) # ws)"

datatype range_spec = InvalidRange | Outside | Inside int int

definition parse_spec :: "int \<Rightarrow> string \<Rightarrow> range_spec" where
  "parse_spec sz ra =
     (case go_cut ra ''-'' of
        None \<Rightarrow> InvalidRange
      | Some (start0, end0) \<Rightarrow>
          let start = trimString start0; stop = trimString end0
          in if start = ''''
             then (if stop = '''' \<or> hd stop = CHR ''-'' then InvalidRange
                   else case parseInt stop of
                          None \<Rightarrow> InvalidRange
                        | Some i \<Rightarrow>
                            if i < 0 then InvalidRange
                            else let st = sz - (if sz < i then sz else i) in Inside st (sz - st))
             else case parseInt start of
                    None \<Rightarrow> InvalidRange
                  | Some i \<Rightarrow>
                      if i < 0 then InvalidRange
                      else if sz \<le> i then Outside
                      else if stop = '''' then Inside i (sz - i)
                      else case parseInt stop of
                             None \<Rightarrow> InvalidRange
                           | Some j \<Rightarrow> if j < i then InvalidRange else Inside i ((if sz \<le> j then sz - 1 else j) - i + 1))"

datatype range_error = MalformedRange | NoOverlap

fun parse_specs :: "int \<Rightarrow> string list \<Rightarrow> bool \<Rightarrow> (int \<times> int) list \<Rightarrow> range_error + (int \<times> int) list" where
  "parse_specs sz [] noOverlap ranges = (if noOverlap \<and> ranges = [] then Inl NoOverlap else Inr ranges)"
| "parse_specs sz (ra # ras) noOverlap ranges =
     (if trimString ra = '''' then parse_specs sz ras noOverlap ranges
      else case parse_spec sz (trimString ra) of
             InvalidRange \<Rightarrow> Inl MalformedRange
           | Outside \<Rightarrow> parse_specs sz ras True ranges
           | Inside st len \<Rightarrow> parse_specs sz ras noOverlap (ranges @ [(st, len)]))"

definition parseRange :: "string \<Rightarrow> int \<Rightarrow> range_error + (int \<times> int) list" where
  "parseRange s sz =
     (if s = '''' then Inr []
      else if \<not> prefix ''bytes='' s then Inl MalformedRange
      else parse_specs sz (split_at (CHR '','') (drop 6 s)) False [])"

definition contentRange :: "int \<times> int \<Rightarrow> int \<Rightarrow> string" where
  "contentRange ra sz = ''bytes '' @ itoa (fst ra) @ ''-'' @ itoa (fst ra + snd ra - 1) @ ''/'' @ itoa sz"

subsection \<open>What is sent\<close>

datatype served =
    Stopped int
  | NotSatisfiable range_error
  | Whole
  | Part "int \<times> int"
  | Parts "(int \<times> int) list"

definition serveContent ::
  "(string \<Rightarrow> int option) \<Rightarrow> string \<Rightarrow> string \<Rightarrow> headers \<Rightarrow> time \<Rightarrow> int \<Rightarrow> served" where
  "serveContent parseTime etag meth hdr modtime sz =
     (case http_preconditions parseTime etag meth hdr modtime of
        Inl code \<Rightarrow> Stopped code
      | Inr asked \<Rightarrow>
          (case parseRange asked sz of
             Inl NoOverlap \<Rightarrow> if sz = 0 then Whole else NotSatisfiable NoOverlap
           | Inl e \<Rightarrow> NotSatisfiable e
           | Inr ranges \<Rightarrow>
               (case if sz < sum_list (map snd ranges) then [] else ranges of
                  [] \<Rightarrow> Whole
                | [ra] \<Rightarrow> Part ra
                | ras \<Rightarrow> Parts ras)))"

definition cut_range :: "int \<times> int \<Rightarrow> string \<Rightarrow> string" where
  "cut_range ra content = take (nat (snd ra)) (drop (nat (fst ra)) content)"

text \<open>A request that sets no condition and asks for no range gets the whole content.\<close>

definition unconditional :: "headers \<Rightarrow> bool" where
  "unconditional hdr \<longleftrightarrow>
     list_all (\<lambda>h. hdr h = '''') [''If-Match'', ''If-Unmodified-Since'', ''If-None-Match'', ''If-Modified-Since'']"

lemma unconditional_whole:
  "unconditional hdr \<Longrightarrow> hdr ''Range'' = '''' \<Longrightarrow> 0 \<le> sz \<Longrightarrow> serveContent parseTime etag meth hdr modtime sz = Whole"
  by (simp add: unconditional_def serveContent_def http_preconditions_def checkIfMatch_def checkIfUnmodifiedSince_def
      checkIfNoneMatch_def checkIfModifiedSince_def parseRange_def)


text \<open>A range within the content is answered with that range.\<close>

lemma digit_plain: "is_digit c \<Longrightarrow> \<not> ascii_space c \<and> c \<noteq> CHR '','' \<and> c \<noteq> CHR ''-''"
  by (auto simp: is_digit_def ascii_space_def)

lemma trimString_id: "list_all (\<lambda>c. \<not> ascii_space c) s \<Longrightarrow> trimString s = s"
proof -
  have "list_all (\<lambda>c. \<not> ascii_space c) t \<Longrightarrow> dropWhile ascii_space t = t" for t by (cases t) auto
  then show "list_all (\<lambda>c. \<not> ascii_space c) s \<Longrightarrow> trimString s = s" using list_all_rev [of _ s] by (simp add: trimString_def)
qed

lemma split_at_none: "c \<notin> set s \<Longrightarrow> split_at c s = [s]"
  by (induction s) auto

lemma range_served:
  assumes "unconditional hdr" and "hdr ''If-Range'' = ''''" and "hdr ''Range'' = ''bytes='' @ dec a @ ''-'' @ dec b"
    and "a \<le> b" and "int b < sz" and "sz \<le> max_i64"
  shows "serveContent parseTime etag meth hdr modtime sz = Part (int a, int (Suc b - a))"
proof -
  let ?s = "dec a @ ''-'' @ dec b"
  have d: "c \<in> set (dec n) \<Longrightarrow> \<not> ascii_space c \<and> c \<noteq> CHR '','' \<and> c \<noteq> CHR ''-''" for c n
    using dec_digits [of n] digit_plain by (auto simp: list_all_iff)
  have t: "trimString ?s = ?s" "trimString (dec n) = dec n" for n
  proof -
    have "\<not> ascii_space (CHR ''-'')" by (simp add: ascii_space_def)
    with d show "trimString ?s = ?s" "trimString (dec n) = dec n" by (auto intro!: trimString_id simp: list_all_iff)
  qed
  have sp: "split_at (CHR '','') ?s = [?s]" by (rule split_at_none) (use d in auto)
  have pi: "parseInt (dec n) = Some (int n)" if "int n < sz" for n
    using parseInt_itoa [of "int n"] that assms(6) by (simp add: itoa_def min_i64_def)
  have cut: "go_cut ?s ''-'' = Some (dec a, dec b)"
    using go_cut_first [of "CHR ''-''" "dec a" "[]" "dec b"] dec_no_sep [of "CHR ''-''" a] by simp
  have "parse_spec sz ?s = Inside (int a) (int (Suc b - a))"
    using assms(4,5) pi [of a] pi [of b] cut t by (simp add: parse_spec_def Let_def of_nat_diff Suc_diff_le)
  then have "parseRange (hdr ''Range'') sz = Inr [(int a, int (Suc b - a))]"
    using sp t assms(3) by (simp add: parseRange_def)
  moreover have "http_preconditions parseTime etag meth hdr modtime = Inr (hdr ''Range'')"
    using assms(1,2) by (simp add: unconditional_def http_preconditions_def checkIfMatch_def checkIfUnmodifiedSince_def
        checkIfNoneMatch_def checkIfModifiedSince_def checkIfRange_def)
  ultimately show ?thesis using assms(4,5) by (simp add: serveContent_def)
qed

end
