(* ===== verification/Http_Router.thy ===== *)
theory Http_Router
  imports Gerr
begin

text \<open>
  The route table the HTTP services share (\<open>transport/router.go\<close>), with the escaping of path
  segments it relies on (\<open>url.PathEscape\<close>, \<open>url.PathUnescape\<close>).  A path is the still escaped
  path of the request; handlers are values of a type the services choose.
\<close>

subsection \<open>Escaped path segments (net/url)\<close>

definition hex_digits :: string where "hex_digits = ''0123456789ABCDEF''"

definition unhex :: "char \<Rightarrow> nat option" where
  "unhex c =
     (let n = of_char c :: nat
      in if 48 \<le> n \<and> n \<le> 57 then Some (n - 48)
         else if 97 \<le> n \<and> n \<le> 102 then Some (n - 87)
         else if 65 \<le> n \<and> n \<le> 70 then Some (n - 55)
         else None)"

definition alnum :: "char \<Rightarrow> bool" where
  "alnum c =
     (let n = of_char c :: nat
      in 48 \<le> n \<and> n \<le> 57 \<or> 65 \<le> n \<and> n \<le> 90 \<or> 97 \<le> n \<and> n \<le> 122)"

text \<open>\<open>shouldEscape(c, encodePathSegment)\<close>.\<close>

definition shouldEscape :: "char \<Rightarrow> bool" where
  "shouldEscape c \<longleftrightarrow> \<not> alnum c \<and> c \<notin> set ''-_.~$&+:=@''"

definition escape_char :: "char \<Rightarrow> string" where
  "escape_char c =
     (if shouldEscape c
      then let n = of_char c :: nat in [CHR ''%'', hex_digits ! (n div 16), hex_digits ! (n mod 16)]
      else [c])"

definition PathEscape :: "string \<Rightarrow> string" where
  "PathEscape s = concat (map escape_char s)"

text \<open>\<open>None\<close> is the \<open>EscapeError\<close> of a percent sign without two hexadecimal digits.\<close>

fun PathUnescape :: "string \<Rightarrow> string option" where
  "PathUnescape [] = Some []"
| "PathUnescape (c # s) =
     (if c \<noteq> CHR ''%'' then map_option ((#) c) (PathUnescape s)
      else (case s of
              a # b # t \<Rightarrow>
                (case (unhex a, unhex b) of
                   (Some h, Some l) \<Rightarrow> map_option ((#) (char_of (16 * h + l))) (PathUnescape t)
                 | _ \<Rightarrow> None)
            | _ \<Rightarrow> None))"

subsection \<open>Routes\<close>

type_synonym params = "string \<rightharpoonup> string"

definition param :: "params \<Rightarrow> string \<Rightarrow> string" where
  "param p k = (case p k of None \<Rightarrow> '''' | Some v \<Rightarrow> v)"

record segment =
  sgLiteral :: string
  sgCapture :: string

record 'h route =
  rtMethod :: string
  rtSegs :: "segment list"
  rtHandler :: 'h

definition path_segments :: "string \<Rightarrow> string list" where
  "path_segments path = split_on slash (trimPrefix path ''/'')"

definition parse_segment :: "string \<Rightarrow> segment" where
  "parse_segment s =
     (if 2 < length s \<and> hasPrefix s ''{'' \<and> hasSuffix s ''}''
      then \<lparr>sgLiteral = '''', sgCapture = take (length s - 2) (drop 1 s)\<rparr>
      else \<lparr>sgLiteral = s, sgCapture = ''''\<rparr>)"

definition Handle :: "string \<Rightarrow> string \<Rightarrow> 'h \<Rightarrow> 'h route list \<Rightarrow> 'h route list" where
  "Handle verb pattern h routes =
     routes @ [\<lparr>rtMethod = verb, rtSegs = map parse_segment (path_segments pattern), rtHandler = h\<rparr>]"

fun match_segs :: "segment list \<Rightarrow> string list \<Rightarrow> params \<Rightarrow> params option" where
  "match_segs (seg # segs) (g # got) p =
     (if sgCapture seg = '''' then (if g \<noteq> sgLiteral seg then None else match_segs segs got p)
      else (case PathUnescape g of
              None \<Rightarrow> None
            | Some val \<Rightarrow> match_segs segs got (p(sgCapture seg \<mapsto> val))))"
| "match_segs _ _ p = Some p"

definition matchPath :: "'h route \<Rightarrow> string list \<Rightarrow> params option" where
  "matchPath rr got =
     (if length got \<noteq> length (rtSegs rr) then None else match_segs (rtSegs rr) got Map.empty)"

fun match_loop :: "string \<Rightarrow> string list \<Rightarrow> 'h route list \<Rightarrow> bool \<Rightarrow> ('h route \<times> params) option \<times> bool" where
  "match_loop verb got [] pathOK = (None, pathOK)"
| "match_loop verb got (rr # rs) pathOK =
     (case matchPath rr got of
        None \<Rightarrow> match_loop verb got rs pathOK
      | Some p \<Rightarrow> if rtMethod rr = verb then (Some (rr, p), True) else match_loop verb got rs True)"

definition rt_match :: "string \<Rightarrow> string \<Rightarrow> 'h route list \<Rightarrow> ('h route \<times> params) option \<times> bool" where
  "rt_match verb escapedPath routes = match_loop verb (path_segments escapedPath) routes False"

definition Matches :: "string \<Rightarrow> string \<Rightarrow> 'h route list \<Rightarrow> bool" where
  "Matches verb escapedPath routes =
     (let (r, pathOK) = rt_match verb escapedPath routes in r \<noteq> None \<or> pathOK)"

definition methodNotAllowed :: "string \<Rightarrow> string \<Rightarrow> goerr" where
  "methodNotAllowed verb path =
     GErr (WithReason ''methodNotAllowed'' (WithHTTPStatus 405
       (New InvalidArgument (Msg ''method %s not allowed on %s'' [verb, path])))) None"

definition noRoute :: "string \<Rightarrow> string \<Rightarrow> goerr" where
  "noRoute verb path =
     GErr (WithReason ''notFound'' (WithHTTPStatus 404
       (New NotFound (Msg ''no route for %s %s'' [verb, path])))) None"

text \<open>
  \<open>ServeHTTP\<close>: the matching handler's own outcome, or the error the router writes.  \<open>run\<close> calls a
  handler on the captured parameters.
\<close>

definition rt_ServeHTTP ::
  "('h \<Rightarrow> params \<Rightarrow> 's \<Rightarrow> (goerr, 'r) result \<times> 's) \<Rightarrow> string \<Rightarrow> string \<Rightarrow> 'h route list \<Rightarrow> 's
     \<Rightarrow> (goerr, 'r) result \<times> 's" where
  "rt_ServeHTTP run verb path routes s =
     (case rt_match verb path routes of
        (Some (rr, p), _) \<Rightarrow> run (rtHandler rr) p s
      | (None, True) \<Rightarrow> (Err (methodNotAllowed verb path), s)
      | (None, False) \<Rightarrow> (Err (noRoute verb path), s))"

subsection \<open>Escaping\<close>

lemma hex_digits_read: "list_all (\<lambda>n. unhex (hex_digits ! n) = Some n \<and> hex_digits ! n \<noteq> slash) [0..<16]"
  by code_simp

lemma unhex_digit [simp]: "n < 16 \<Longrightarrow> unhex (hex_digits ! n) = Some n"
  and hex_digit_not_slash: "n < 16 \<Longrightarrow> hex_digits ! n \<noteq> slash"
  using hex_digits_read by (auto simp: list_all_iff)

lemma char_halves: "(of_char c :: nat) div 16 < 16" "char_of (16 * (of_char c div 16) + of_char c mod 16 :: nat) = (c :: char)"
proof -
  have "(of_char c :: nat) < 256" by (rule nat_of_char_less_256)
  then show "(of_char c :: nat) div 16 < 16" by linarith
  show "char_of (16 * (of_char c div 16) + of_char c mod 16 :: nat) = c" by simp
qed

lemma PathUnescape_escape_char: "PathUnescape (escape_char c @ s) = map_option ((#) c) (PathUnescape s)"
proof (cases "shouldEscape c")
  case True
  then show ?thesis using char_halves [of c] by (simp add: escape_char_def Let_def)
next
  case False
  then have "c \<noteq> CHR ''%''" by (auto simp: shouldEscape_def alnum_def)
  with False show ?thesis by (simp add: escape_char_def)
qed

lemma PathUnescape_PathEscape [simp]: "PathUnescape (PathEscape s) = Some s"
  by (induction s) (simp_all add: PathEscape_def PathUnescape_escape_char del: PathUnescape.simps(2))

lemma PathEscape_slash_free [simp]: "slash \<notin> set (PathEscape s)"
proof -
  have "slash \<notin> set (escape_char c)" for c
    using char_halves(1) [of c] hex_digit_not_slash
    by (auto simp: escape_char_def shouldEscape_def alnum_def Let_def dest!: sym [where s = slash])
  then show ?thesis by (auto simp: PathEscape_def)
qed

subsection \<open>Matching\<close>

definition captures :: "segment list \<Rightarrow> string set" where
  "captures segs = sgCapture ` set segs - {''''}"

text \<open>The path a client builds from a pattern and the values of its captures.\<close>

definition fill :: "segment list \<Rightarrow> params \<Rightarrow> string list" where
  "fill segs v = map (\<lambda>seg. if sgCapture seg = '''' then sgLiteral seg else PathEscape (param v (sgCapture seg))) segs"

definition path_of :: "segment list \<Rightarrow> params \<Rightarrow> string" where
  "path_of segs v = slash # join_with [slash] (fill segs v)"

definition segs_ok :: "segment list \<Rightarrow> bool" where
  "segs_ok segs \<longleftrightarrow> segs \<noteq> [] \<and> (\<forall>seg\<in>set segs. slash \<notin> set (sgLiteral seg))"

lemma match_segs_fill:
  "match_segs segs (fill segs v) p = Some (\<lambda>k. if k \<in> captures segs then Some (param v k) else p k)"
  by (induction segs arbitrary: p) (auto simp: fill_def captures_def fun_eq_iff)

lemma path_segments_path_of: "segs_ok segs \<Longrightarrow> path_segments (path_of segs v) = fill segs v"
proof -
  assume ok: "segs_ok segs"
  have "split_on slash (join_with [slash] (fill segs v)) = fill segs v"
    by (rule split_join_with) (use ok in \<open>auto simp: segs_ok_def fill_def\<close>)
  then show ?thesis by (simp add: path_segments_def path_of_def trimPrefix_def)
qed

lemma Handle_segs_ok: "segs_ok (map parse_segment (path_segments pattern))"
proof -
  have "slash \<notin> set (sgLiteral (parse_segment s))" if "s \<in> set (path_segments pattern)" for s
    using that split_on_seps by (auto simp: parse_segment_def path_segments_def)
  then show ?thesis by (auto simp: segs_ok_def path_segments_def)
qed

lemma match_loop_found:
  "match_loop verb got rs ok = (Some (rr, p), ok') \<Longrightarrow>
    \<exists>xs ys. rs = xs @ rr # ys \<and> rtMethod rr = verb \<and> matchPath rr got = Some p \<and>
      (\<forall>r\<in>set xs. matchPath r got \<noteq> None \<longrightarrow> rtMethod r \<noteq> verb)"
proof (induction rs arbitrary: ok)
  case (Cons r rs)
  show ?case
  proof (cases "matchPath r got \<noteq> None \<and> rtMethod r = verb")
    case True
    then have "r # rs = [] @ rr # rs \<and> rtMethod rr = verb \<and> matchPath rr got = Some p" using Cons.prems by auto
    then show ?thesis by fastforce
  next
    case False
    then obtain ok1 where "match_loop verb got rs ok1 = (Some (rr, p), ok')" using Cons.prems by (auto split: option.splits if_splits)
    from Cons.IH [OF this] obtain xs ys where "r # rs = (r # xs) @ rr # ys" "rtMethod rr = verb" "matchPath rr got = Some p"
      "\<forall>q\<in>set (r # xs). matchPath q got \<noteq> None \<longrightarrow> rtMethod q \<noteq> verb" using False by auto
    then show ?thesis by blast
  qed
qed simp

lemma match_loop_none:
  "match_loop verb got rs ok = (None, ok') \<Longrightarrow>
    (\<forall>r\<in>set rs. matchPath r got \<noteq> None \<longrightarrow> rtMethod r \<noteq> verb) \<and> (ok' \<longleftrightarrow> ok \<or> (\<exists>r\<in>set rs. matchPath r got \<noteq> None))"
  by (induction rs arbitrary: ok) (auto split: option.splits if_splits)

subsection \<open>Properties\<close>

text \<open>
  C25: escaping a value into a path and matching the path against the route gives the value back,
  whatever bytes it holds, a slash or a percent sign included: for every registered pattern, the path
  built from it matches and captures exactly the values it was built from.
\<close>

theorem captured_value_roundtrip:
  assumes "rtSegs rr = map parse_segment (path_segments pattern)"
  shows "matchPath rr (path_segments (path_of (rtSegs rr) v)) =
    Some (\<lambda>k. if k \<in> captures (rtSegs rr) then Some (param v k) else None)"
proof -
  have "path_segments (path_of (rtSegs rr) v) = fill (rtSegs rr) v"
    using path_segments_path_of [OF Handle_segs_ok [of pattern]] by (simp add: assms)
  then show ?thesis by (simp add: matchPath_def match_segs_fill) (simp add: fill_def)
qed

theorem captured_value_roundtrip_witness:
  "matchPath \<lparr>rtMethod = ''GET'', rtSegs = map parse_segment (path_segments ''/b/{bucket}/o/{object}''), rtHandler = ()\<rparr>
     (path_segments ''/b/bkt/o/a%2Fb%25'') = Some [''bucket'' \<mapsto> ''bkt'', ''object'' \<mapsto> ''a/b%'']"
proof -
  let ?rr = "\<lparr>rtMethod = ''GET'', rtSegs = map parse_segment (path_segments ''/b/{bucket}/o/{object}''), rtHandler = ()\<rparr>"
  let ?v = "[''bucket'' \<mapsto> ''bkt'', ''object'' \<mapsto> ''a/b%'']"
  have segs: "rtSegs ?rr = [\<lparr>sgLiteral = ''b'', sgCapture = ''''\<rparr>, \<lparr>sgLiteral = '''', sgCapture = ''bucket''\<rparr>,
      \<lparr>sgLiteral = ''o'', sgCapture = ''''\<rparr>, \<lparr>sgLiteral = '''', sgCapture = ''object''\<rparr>]"
    by (simp add: path_segments_def trimPrefix_def parse_segment_def hasPrefix_def hasSuffix_def suffix_def)
  have "path_of (rtSegs ?rr) ?v = ''/b/bkt/o/a%2Fb%25''"
    unfolding segs by (simp add: path_of_def fill_def param_def PathEscape_def escape_char_def shouldEscape_def alnum_def hex_digits_def)
  moreover have "(\<lambda>k. if k \<in> captures (rtSegs ?rr) then Some (param ?v k) else None) = ?v"
    unfolding segs by (auto simp: captures_def param_def fun_eq_iff)
  ultimately show ?thesis using captured_value_roundtrip [of ?rr "''/b/{bucket}/o/{object}''" ?v] by simp
qed

text \<open>
  The router answers with the first registered route of the request's method whose pattern
  matches the path; it answers 405 exactly when the path matches some route but none of that method,
  and 404 exactly when no route matches the path.
\<close>

theorem router_picks_first_match:
  "case rt_match verb path routes of
     (Some (rr, p), _) \<Rightarrow> \<exists>xs ys. routes = xs @ rr # ys \<and> rtMethod rr = verb \<and> matchPath rr (path_segments path) = Some p \<and>
        filter (\<lambda>r. matchPath r (path_segments path) \<noteq> None \<and> rtMethod r = verb) xs = []
   | (None, pathOK) \<Rightarrow> filter (\<lambda>r. matchPath r (path_segments path) \<noteq> None \<and> rtMethod r = verb) routes = [] \<and>
        (pathOK \<longleftrightarrow> filter (\<lambda>r. matchPath r (path_segments path) \<noteq> None) routes \<noteq> [])"
proof (cases "rt_match verb path routes")
  case (Pair found ok)
  show ?thesis
  proof (cases found)
    case None
    with Pair match_loop_none [of verb "path_segments path" routes False ok] show ?thesis
      by (auto simp: rt_match_def filter_empty_conv)
  next
    case (Some q)
    with Pair match_loop_found [of verb "path_segments path" routes False "fst q" "snd q" ok] show ?thesis
      by (cases q) (fastforce simp: rt_match_def filter_empty_conv)
  qed
qed

end
