(* ===== verification/Storage_Wire.thy ===== *)
theory Storage_Wire
  imports Storage_Props Http_Content Http_Router
begin

text \<open>
  What the Cloud Storage JSON API sends and receives (\<open>services/storage/wire.go\<close> and the helpers of
  \<open>api.go\<close>): requests, their query parameters and decoded bodies, and responses.

  A query is the list of decoded parameters.  The decoder of request bodies (\<open>encoding/json\<close>) and
  the readers of media types and multipart bodies are fields of \<open>codecs\<close>: what they return for
  the bytes of the request, of any kind.  A time is kept as such where the code prints it with
  \<open>rfc3339\<close> or in a header.  Media content is served by \<open>http.ServeContent\<close> (\<open>Http_Content\<close>).
\<close>

subsection \<open>Responses\<close>

record api_bucket =
  abKind :: string
  abID :: string
  abName :: string
  abLocation :: string
  abStorageClass :: string
  abVersioning :: "bool option"
  abMetageneration :: string
  abTimeCreated :: time
  abUpdated :: time
  abSelfLink :: string

record api_object =
  aoKind :: string
  aoID :: string
  aoName :: string
  aoBucket :: string
  aoGeneration :: string
  aoMetageneration :: string
  aoContentType :: string
  aoSize :: string
  aoMD5Hash :: string
  aoCRC32C :: string
  aoETag :: string
  aoMetadata :: metadata
  aoTimeCreated :: time
  aoUpdated :: time
  aoMediaLink :: string
  aoSelfLink :: string

text \<open>\<open>strings.ReplaceAll\<close> of a slash.\<close>

definition replace_slash :: "string \<Rightarrow> string \<Rightarrow> string" where
  "replace_slash new s = concat (map (\<lambda>c. if c = slash then new else [c]) s)"

definition escapeObject :: "string \<Rightarrow> string" where
  "escapeObject name = replace_slash ''%2F'' (PathEscape name)"

definition baseURL :: "bool \<Rightarrow> string \<Rightarrow> string" where
  "baseURL tls host = (if tls then ''https'' else ''http'') @ ''://'' @ host"

definition toAPIBucket :: "bucket \<Rightarrow> string \<Rightarrow> api_bucket" where
  "toAPIBucket b base =
     \<lparr>abKind = ''storage#bucket'', abID = bkName b, abName = bkName b, abLocation = bkLocation b,
      abStorageClass = bkStorageClass b, abVersioning = Some (bkVersioning b),
      abMetageneration = itoa (bkMetageneration b), abTimeCreated = bkCreated b, abUpdated = bkUpdated b,
      abSelfLink = base @ ''/storage/v1/b/'' @ bkName b\<rparr>"

definition self_link :: "object \<Rightarrow> string \<Rightarrow> string" where
  "self_link ob base = base @ ''/storage/v1/b/'' @ obBucket ob @ ''/o/'' @ escapeObject (obName ob)"

definition toAPIObject :: "object \<Rightarrow> string \<Rightarrow> api_object" where
  "toAPIObject ob base =
     (let generation = itoa (obGeneration ob); self = self_link ob base
      in \<lparr>aoKind = ''storage#object'', aoID = obBucket ob @ ''/'' @ obName ob @ ''/'' @ generation,
          aoName = obName ob, aoBucket = obBucket ob, aoGeneration = generation,
          aoMetageneration = itoa (obMetageneration ob), aoContentType = obContentType ob, aoSize = itoa (obSize ob),
          aoMD5Hash = obMD5 ob, aoCRC32C = obCRC32C ob, aoETag = obETag ob, aoMetadata = obMetadata ob,
          aoTimeCreated = obCreated ob, aoUpdated = obUpdated ob, aoMediaLink = self @ ''?alt=media'', aoSelfLink = self\<rparr>)"

datatype body =
    NoBody
  | BBucket api_bucket
  | BBuckets "api_bucket list"
  | BObject api_object
  | BObjects "api_object list" "string list" string
  | BLayout string string
  | BFolders
  | BRewrite string string bool api_object
  | BPolicy policy
  | BPermissions "string list"
  | BMedia time string
  | BParts time "(string \<times> string) list"
  | BText string

record response =
  rsStatus :: int
  rsHeaders :: "(string \<times> string) list"
  rsBody :: body

definition writeJSON :: "int \<Rightarrow> body \<Rightarrow> response" where
  "writeJSON code b = \<lparr>rsStatus = code, rsHeaders = [(''Content-Type'', ''application/json; charset=UTF-8'')], rsBody = b\<rparr>"

definition noContent :: response where
  "noContent = \<lparr>rsStatus = 204, rsHeaders = [], rsBody = NoBody\<rparr>"

subsection \<open>Requests\<close>

record object_request =
  orName :: string
  orContentType :: string
  orMetadata :: metadata

record bucket_request =
  brName :: string
  brLocation :: string
  brStorageClass :: string
  brVersioning :: "bool option"

record compose_source =
  csName :: string
  csGeneration :: int

record compose_request =
  crSourceObjects :: "compose_source list"
  crDestination :: object_request

text \<open>A decoder meets the end of the body, an error, or a value.\<close>

datatype 'a decoded = AtEOF | Malformed goerr | Decoded 'a

record part =
  ptContentType :: string
  ptContent :: string

record codecs =
  cdBucket :: "string \<Rightarrow> bucket_request decoded"
  cdObject :: "string \<Rightarrow> object_request decoded"
  cdCompose :: "string \<Rightarrow> compose_request decoded"
  cdPolicy :: "string \<Rightarrow> policy decoded"
  cdBoundary :: "string \<Rightarrow> string option"
  cdParts :: "string \<Rightarrow> string \<Rightarrow> part list"
  cdTime :: "string \<Rightarrow> int option"

text \<open>
  A request.  The body is the bytes that arrive, and the error its reader ends with, if any; a
  request's id stands for what \<open>rand.Read\<close> and \<open>os.Create\<close> give a new upload session.
\<close>

record request =
  rqMethod :: string
  rqPath :: string
  rqQuery :: "(string \<times> string) list"
  rqHeader :: "string \<Rightarrow> string"
  rqBody :: string
  rqBodyErr :: "goerr option"
  rqBase :: string
  rqSession :: "(goerr, string) result"

definition qget :: "request \<Rightarrow> string \<Rightarrow> string" where
  "qget r k = (case map_of (rqQuery r) k of None \<Rightarrow> '''' | Some v \<Rightarrow> v)"

definition requiredParam :: "string \<Rightarrow> goerr" where
  "requiredParam name =
     GErr (WithLocation name ''parameter'' (WithReason ''required'' (WithHTTPStatus 400
       (New InvalidArgument (Msg ''Required parameter: %s'' [name]))))) None"

definition invalidParam :: "string \<Rightarrow> string \<Rightarrow> goerr" where
  "invalidParam name value =
     GErr (WithLocation name ''parameter'' (WithReason ''invalid'' (WithHTTPStatus 400
       (New InvalidArgument (Msg ''Invalid value for %s: %s'' [name, value]))))) None"

definition malformed :: "goerr \<Rightarrow> string \<Rightarrow> string \<Rightarrow> goerr" where
  "malformed e msg reason =
     GErr (WithReason reason (WithHTTPStatus 400 (New InvalidArgument (Msg msg [])))) (Some e)"

text \<open>\<open>decodeJSON\<close>: an empty body leaves the zero value.\<close>

definition decodeJSON :: "'a \<Rightarrow> 'a decoded \<Rightarrow> (goerr, 'a) result" where
  "decodeJSON zero_val d =
     (case d of AtEOF \<Rightarrow> Ok zero_val | Malformed e \<Rightarrow> Err (malformed e ''malformed request body'' ''parseError'') | Decoded x \<Rightarrow> Ok x)"

definition noObjectRequest :: object_request where
  "noObjectRequest = \<lparr>orName = '''', orContentType = '''', orMetadata = None\<rparr>"

definition noBucketRequest :: bucket_request where
  "noBucketRequest = \<lparr>brName = '''', brLocation = '''', brStorageClass = '''', brVersioning = None\<rparr>"

text \<open>\<open>optionalNamed\<close>; \<open>optionalGeneration\<close> is it for one name, \<open>optionalInt\<close> with 0 when absent.\<close>

definition optionalNamed :: "request \<Rightarrow> string \<Rightarrow> (goerr, int option) result" where
  "optionalNamed r name =
     (if qget r name = '''' then Ok None
      else case parseInt (qget r name) of None \<Rightarrow> Err (invalidParam name (qget r name)) | Some n \<Rightarrow> Ok (Some n))"

definition optionalGeneration :: "request \<Rightarrow> (goerr, int option) result" where
  "optionalGeneration r = optionalNamed r ''generation''"

definition optionalInt :: "request \<Rightarrow> string \<Rightarrow> (goerr, int) result" where
  "optionalInt r name =
     (if qget r name = '''' then Ok 0
      else case parseInt (qget r name) of None \<Rightarrow> Err (invalidParam name (qget r name)) | Some n \<Rightarrow> Ok n)"

definition preconditionsOf :: "request \<Rightarrow> (goerr, preconditions) result" where
  "preconditionsOf r =
     (case optionalNamed r ''ifGenerationMatch'' of
        Err e \<Rightarrow> Err e
      | Ok gm \<Rightarrow>
     (case optionalNamed r ''ifGenerationNotMatch'' of
        Err e \<Rightarrow> Err e
      | Ok gn \<Rightarrow>
     (case optionalNamed r ''ifMetagenerationMatch'' of
        Err e \<Rightarrow> Err e
      | Ok mm \<Rightarrow>
     (case optionalNamed r ''ifMetagenerationNotMatch'' of
        Err e \<Rightarrow> Err e
      | Ok mn \<Rightarrow> Ok \<lparr>pcGenerationMatch = gm, pcGenerationNotMatch = gn,
                        pcMetagenerationMatch = mm, pcMetagenerationNotMatch = mn\<rparr>))))"

definition unimplemented :: "string \<Rightarrow> goerr" where
  "unimplemented what = GErr (NewUnimplemented what) None"

fun unsupported_source :: "request \<Rightarrow> string list \<Rightarrow> goerr option" where
  "unsupported_source r [] = None"
| "unsupported_source r (k # ks) =
     (if qget r k \<noteq> '''' then Some (unimplemented (''storage.objects.copy with '' @ k)) else unsupported_source r ks)"

definition destinationPreconditions :: "request \<Rightarrow> (goerr, preconditions) result" where
  "destinationPreconditions r =
     (case unsupported_source r [''ifSourceGenerationMatch'', ''ifSourceGenerationNotMatch'',
         ''ifSourceMetagenerationMatch'', ''ifSourceMetagenerationNotMatch''] of
        Some e \<Rightarrow> Err e
      | None \<Rightarrow> preconditionsOf r)"

end
