(* ===== verification/Storage_Upload.thy ===== *)
theory Storage_Upload
  imports Storage_Wire
begin

text \<open>
  Resumable uploads (\<open>services/storage/resumable.go\<close>): a session collects the chunks of an upload in a
  temporary file and becomes an object when the last one lands.

  A session is kept under its id after it leaves the table of open sessions, as the pointer a running
  request holds; \<open>upM\<close> is the table.  The handler of a chunk runs in three parts, each under its lock
  or on its own: \<open>chunk_section\<close>, \<open>final_claim\<close> and \<open>final_write\<close>; requests may interleave between
  them.  A chunk's body is the bytes that arrive and the error its reader ends with, if any.
\<close>

subsection \<open>Sessions\<close>

record session =
  ssBucket :: string
  ssProject :: string
  ssWrite :: write_req
  ssFile :: "string option"
  ssOffset :: int
  ssTotal :: int
  ssDone :: bool

record 'h uploads =
  upSvc :: "'h svc"
  upObjs :: "string \<rightharpoonup> session"
  upM :: "string set"

definition sess_open :: "string \<Rightarrow> string \<Rightarrow> string \<Rightarrow> write_req \<Rightarrow> 'h uploads \<Rightarrow> 'h uploads" where
  "sess_open uid project bucket w u =
     u\<lparr>upObjs := (upObjs u)(uid \<mapsto> \<lparr>ssBucket = bucket, ssProject = project, ssWrite = w, ssFile = Some '''',
         ssOffset = 0, ssTotal = -1, ssDone = False\<rparr>),
       upM := insert uid (upM u)\<rparr>"

definition sess_get :: "string \<Rightarrow> 'h uploads \<Rightarrow> session option" where
  "sess_get uid u = (if uid \<in> upM u then upObjs u uid else None)"

definition sess_close :: "string \<Rightarrow> 'h uploads \<Rightarrow> 'h uploads" where
  "sess_close uid u =
     (if uid \<in> upM u
      then u\<lparr>upM := upM u - {uid}, upObjs := (upObjs u)(uid := map_option (\<lambda>s. s\<lparr>ssFile := None\<rparr>) (upObjs u uid))\<rparr>
      else u)"

subsection \<open>The Content-Range header\<close>

text \<open>\<open>strings.TrimSpace\<close> on ASCII text.\<close>

definition go_space :: "char \<Rightarrow> bool" where
  "go_space c \<longleftrightarrow> c = CHR '' '' \<or> (9 \<le> (of_char c :: nat) \<and> (of_char c :: nat) \<le> 13)"

definition trimSpace :: "string \<Rightarrow> string" where
  "trimSpace s = rev (dropWhile go_space (rev (dropWhile go_space s)))"

record content_range =
  rgStart :: int
  rgEnd :: int
  rgTotal :: int
  rgQuery :: bool

definition badRange :: "string \<Rightarrow> goerr" where
  "badRange header =
     GErr (WithLocation ''Content-Range'' ''header'' (WithReason ''invalid'' (WithHTTPStatus 400
       (New InvalidArgument (Msg ''Invalid Content-Range header: %q'' [header]))))) None"

definition nonneg_int :: "string \<Rightarrow> int option" where
  "nonneg_int s = (case parseInt s of None \<Rightarrow> None | Some n \<Rightarrow> if n < 0 then None else Some n)"

definition parse_bounds :: "string \<Rightarrow> int \<Rightarrow> string \<Rightarrow> (goerr, content_range) result" where
  "parse_bounds header tot rangePart =
     (case go_cut rangePart ''-'' of
        None \<Rightarrow> Err (badRange header)
      | Some (startPart, endPart) \<Rightarrow>
     (case nonneg_int startPart of
        None \<Rightarrow> Err (badRange header)
      | Some start \<Rightarrow>
     (case nonneg_int endPart of
        None \<Rightarrow> Err (badRange header)
      | Some last_byte \<Rightarrow> Ok \<lparr>rgStart = start, rgEnd = last_byte, rgTotal = tot, rgQuery = False\<rparr>)))"

definition parseContentRange :: "string \<Rightarrow> (goerr, content_range) result" where
  "parseContentRange header =
     (if header = '''' then Ok \<lparr>rgStart = 0, rgEnd = -1, rgTotal = -1, rgQuery = False\<rparr>
      else
     (case cutPrefix (trimSpace header) ''bytes '' of
        None \<Rightarrow> Err (badRange header)
      | Some spec \<Rightarrow>
     (case go_cut spec ''/'' of
        None \<Rightarrow> Err (badRange header)
      | Some (rangePart, totalPart) \<Rightarrow>
     (case if totalPart = ''*'' then Some (-1) else nonneg_int totalPart of
        None \<Rightarrow> Err (badRange header)
      | Some tot \<Rightarrow>
          if rangePart = ''*'' then Ok \<lparr>rgStart = 0, rgEnd = -1, rgTotal = tot, rgQuery = True\<rparr>
          else parse_bounds header tot rangePart))))"

subsection \<open>Chunks\<close>

datatype chunk_outcome = Incomplete int | Rejected goerr | Complete

definition errInvalid :: goerr where "errInvalid = Plain (Msg ''invalid argument'' [])"

definition wrongLength :: "content_range \<Rightarrow> int \<Rightarrow> goerr" where
  "wrongLength rg written =
     GErr (WithReason ''invalid'' (WithHTTPStatus 400
       (New InvalidArgument (Msg ''chunk declared bytes %d-%d but carried %d'' [itoa (rgStart rg), itoa (rgEnd rg), itoa written])))) None"

text \<open>The part of \<open>resumableChunk\<close> under the session's lock, and what it decides.\<close>

definition chunk_section :: "content_range \<Rightarrow> string \<Rightarrow> goerr option \<Rightarrow> session \<Rightarrow> chunk_outcome \<times> session" where
  "chunk_section rg body body_err sess0 =
     (let sess = (if 0 \<le> rgTotal rg then sess0\<lparr>ssTotal := rgTotal rg\<rparr> else sess0)
      in if rgQuery rg
         then (if 0 \<le> ssTotal sess \<and> ssTotal sess \<le> ssOffset sess then Complete else Incomplete (ssOffset sess), sess)
         else if rgStart rg \<noteq> ssOffset sess then (Incomplete (ssOffset sess), sess)
         else
           let (written, copyErr, file) =
                 (case ssFile sess of
                    None \<Rightarrow> (0, Some errInvalid, None)
                  | Some c \<Rightarrow> (int (length body), body_err, Some (c @ body)));
               offset = i64 (ssOffset sess + written);
               sess1 = sess\<lparr>ssFile := file, ssOffset := offset\<rparr>
           in case copyErr of
                Some e \<Rightarrow> (Rejected (Wrap e Internal (Msg ''storing an uploaded chunk'' [])), sess1)
              | None \<Rightarrow>
                  if 0 \<le> rgEnd rg \<and> offset \<noteq> i64 (rgEnd rg + 1) then (Rejected (wrongLength rg written), sess1)
                  else if ssTotal sess1 < 0 \<or> offset < ssTotal sess1 then (Incomplete offset, sess1)
                  else (Complete, sess1))"

definition resumeIncomplete :: "request \<Rightarrow> int \<Rightarrow> response" where
  "resumeIncomplete r offset =
     (let hs = (if 0 < offset then [(''Range'', ''bytes=0-'' @ itoa (offset - 1))] else []) @ [(''X-Range-MD5'', '''')]
      in if equalFold (rqHeader r ''X-GUploader-No-308'') ''yes''
         then \<lparr>rsStatus = 200, rsHeaders = hs @ [(''X-Http-Status-Code-Override'', ''308'')], rsBody = NoBody\<rparr>
         else \<lparr>rsStatus = 308, rsHeaders = hs, rsBody = NoBody\<rparr>)"

definition sessionDone :: goerr where
  "sessionDone =
     GErr (WithReason ''notFound'' (WithHTTPStatus 404 (New NotFound (Msg ''upload session already completed'' [])))) None"

definition unknownSession :: goerr where
  "unknownSession =
     GErr (WithReason ''notFound'' (WithHTTPStatus 404 (New NotFound (Msg ''unknown or completed upload session'' [])))) None"

text \<open>\<open>finalizeResumable\<close>: claiming the session under its lock, then writing the object.\<close>

definition final_claim :: "session \<Rightarrow> bool \<times> session" where
  "final_claim sess = (if ssDone sess then (False, sess) else (True, sess\<lparr>ssDone := True\<rparr>))"

definition final_write ::
  "hashes \<Rightarrow> (nat \<Rightarrow> 'h svc \<Rightarrow> 'h svc) \<Rightarrow> ctx \<Rightarrow> string \<Rightarrow> string \<Rightarrow> session \<Rightarrow> 'h uploads
     \<Rightarrow> (goerr, response) result \<times> 'h uploads" where
  "final_write H env cx base uid sess u =
     (case ssFile sess of
        None \<Rightarrow> (Err (Wrap errInvalid Internal (Msg ''rewinding the uploaded content'' [])), u)
      | Some content \<Rightarrow>
          (case WriteObject H env cx (ssProject sess) (ssWrite sess) content (upSvc u) of
             (r, s1) \<Rightarrow>
               let u1 = sess_close uid (u\<lparr>upSvc := s1\<rparr>)
               in (case r of Err e \<Rightarrow> Err e | Ok ob \<Rightarrow> Ok (writeJSON 200 (BObject (toAPIObject ob base))), u1)))"

definition finalizeResumable ::
  "hashes \<Rightarrow> (nat \<Rightarrow> 'h svc \<Rightarrow> 'h svc) \<Rightarrow> ctx \<Rightarrow> string \<Rightarrow> string \<Rightarrow> session \<Rightarrow> 'h uploads
     \<Rightarrow> (goerr, response) result \<times> 'h uploads" where
  "finalizeResumable H env cx base uid sess u =
     (case final_claim sess of
        (False, _) \<Rightarrow> (Err sessionDone, u)
      | (True, sess1) \<Rightarrow> final_write H env cx base uid sess1 (u\<lparr>upObjs := (upObjs u)(uid \<mapsto> sess1)\<rparr>))"

definition resumableChunk ::
  "hashes \<Rightarrow> (nat \<Rightarrow> 'h svc \<Rightarrow> 'h svc) \<Rightarrow> ctx \<Rightarrow> request \<Rightarrow> string \<Rightarrow> 'h uploads
     \<Rightarrow> (goerr, response) result \<times> 'h uploads" where
  "resumableChunk H env cx r uid u =
     (case sess_get uid u of
        None \<Rightarrow> (Err unknownSession, u)
      | Some sess \<Rightarrow>
     (case parseContentRange (rqHeader r ''Content-Range'') of
        Err e \<Rightarrow> (Err e, u)
      | Ok rg \<Rightarrow>
          (case chunk_section rg (rqBody r) (rqBodyErr r) sess of
             (outcome, sess1) \<Rightarrow>
               let u1 = u\<lparr>upObjs := (upObjs u)(uid \<mapsto> sess1)\<rparr>
               in case outcome of
                    Incomplete offset \<Rightarrow> (Ok (resumeIncomplete r offset), u1)
                  | Rejected e \<Rightarrow> (Err e, u1)
                  | Complete \<Rightarrow> finalizeResumable H env cx (rqBase r) uid sess1 u1)))"

definition startResumable ::
  "codecs \<Rightarrow> ctx \<Rightarrow> request \<Rightarrow> string \<Rightarrow> write_req \<Rightarrow> 'h uploads \<Rightarrow> (goerr, response) result \<times> 'h uploads" where
  "startResumable C cx r bucket write u =
     (case decodeJSON noObjectRequest (cdObject C (rqBody r)) of
        Err e \<Rightarrow> (Err e, u)
      | Ok meta \<Rightarrow>
          let w1 = (if orName meta \<noteq> '''' then write\<lparr>wrName := orName meta\<rparr> else write)
          in if wrName w1 = '''' then (Err (requiredParam ''name''), u)
             else
               let ct = (if orContentType meta \<noteq> '''' then orContentType meta else wrContentType w1);
                   w = w1\<lparr>wrContentType := (if ct = '''' then rqHeader r ''X-Upload-Content-Type'' else ct),
                          wrMetadata := orMetadata meta\<rparr>
               in case ProjectOf cx bucket (upSvc u) of
                    Err e \<Rightarrow> (Err e, u)
                  | Ok project \<Rightarrow>
                 (case bucket_of cx project bucket (upSvc u) of
                    Err e \<Rightarrow> (Err e, u)
                  | Ok _ \<Rightarrow>
                 (case rqSession r of
                    Err e \<Rightarrow> (Err (Wrap e Internal (Msg ''opening a resumable session'' [])), u)
                  | Ok uid \<Rightarrow>
                      (Ok \<lparr>rsStatus = 200,
                           rsHeaders = [(''Location'', rqBase r @ ''/upload/storage/v1/b/'' @ bucket @
                                          ''/o?uploadType=resumable&upload_id='' @ uid), (''X-GUploader-UploadID'', uid)],
                           rsBody = NoBody\<rparr>,
                       sess_open uid project bucket w u))))"

subsection \<open>What a session has collected\<close>

text \<open>
  A session for the content \<open>c\<close>: its file is the part of \<open>c\<close> before its offset, and a declared total
  is the length of \<open>c\<close>.  A request is honest about \<open>c\<close> when the bytes it carries, all of them or
  as many as arrive, are those of \<open>c\<close> from the start it declares.
\<close>

definition sess_inv :: "string \<Rightarrow> session \<Rightarrow> bool" where
  "sess_inv c sess \<longleftrightarrow>
     (\<exists>k. k \<le> length c \<and> ssFile sess = Some (take k c) \<and> ssOffset sess = int k) \<and>
     (ssTotal sess = -1 \<or> ssTotal sess = int (length c)) \<and> \<not> ssDone sess"

definition honest :: "string \<Rightarrow> content_range \<Rightarrow> string \<Rightarrow> bool" where
  "honest c rg body \<longleftrightarrow>
     (rgTotal rg = -1 \<or> rgTotal rg = int (length c)) \<and> (rgQuery rg \<or> prefix body (drop (nat (rgStart rg)) c))"

definition sendable :: "string \<Rightarrow> bool" where
  "sendable c \<longleftrightarrow> int (length c) < max_i64"

lemma chunk_section_keeps:
  assumes inv: "sess_inv c sess" and h: "honest c rg body" and c: "sendable c"
    and sec: "chunk_section rg body err sess = (out, sess')"
  shows "sess_inv c sess'" and "out = Complete \<Longrightarrow> ssFile sess' = Some c"
    and "out = Incomplete n \<Longrightarrow> n = ssOffset sess'"
    and "ssProject sess' = ssProject sess" and "ssWrite sess' = ssWrite sess"
proof -
  obtain k where k: "k \<le> length c" "ssFile sess = Some (take k c)" "ssOffset sess = int k"
    and t: "ssTotal sess = -1 \<or> ssTotal sess = int (length c)" and d: "\<not> ssDone sess"
    using inv by (auto simp: sess_inv_def)
  define s1 where "s1 = (if 0 \<le> rgTotal rg then sess\<lparr>ssTotal := rgTotal rg\<rparr> else sess)"
  have s1: "ssFile s1 = Some (take k c)" "ssOffset s1 = int k" "ssTotal s1 = -1 \<or> ssTotal s1 = int (length c)" "\<not> ssDone s1"
    "ssProject s1 = ssProject sess" "ssWrite s1 = ssWrite sess"
    using k t d h by (auto simp: s1_def honest_def)
  have same: "sess_inv c s1" using k(1) s1 by (auto simp: sess_inv_def)
  have all: "sess_inv c sess' \<and> (out = Complete \<longrightarrow> ssFile sess' = Some c) \<and> (out = Incomplete n \<longrightarrow> n = ssOffset sess') \<and>
      ssProject sess' = ssProject sess \<and> ssWrite sess' = ssWrite sess"
  proof (cases "rgQuery rg \<or> rgStart rg \<noteq> int k")
    case True
    then have "sess' = s1" using sec s1 by (auto simp: chunk_section_def s1_def [symmetric] Let_def split: if_splits)
    moreover have "out = Complete \<Longrightarrow> length c \<le> k"
      using sec s1 True by (auto simp: chunk_section_def s1_def [symmetric] Let_def split: if_splits)
    moreover have "out = Incomplete n \<Longrightarrow> n = int k"
      using sec s1 True by (auto simp: chunk_section_def s1_def [symmetric] Let_def split: if_splits)
    ultimately show ?thesis using same s1 by auto
  next
    case False
    then have "prefix body (drop k c)" using h by (auto simp: honest_def)
    then have b: "body = take (length body) (drop k c)" "k + length body \<le> length c"
      using k(1) prefix_length_le [of body "drop k c"] by (auto simp: prefix_def)
    then have fl: "take k c @ body = take (k + length body) c" by (metis take_add)
    have off: "i64 (int k + int (length body)) = int (k + length body)"
      using b(2) c by (simp add: sendable_def i64_id min_i64_def)
    let ?s = "s1\<lparr>ssFile := Some (take k c @ body), ssOffset := int (k + length body)\<rparr>"
    have "sess' = ?s"
      using sec s1 False off by (auto simp: chunk_section_def s1_def [symmetric] Let_def split: if_splits option.splits)
    moreover have "sess_inv c ?s" using b(2) fl s1 by (auto simp: sess_inv_def intro!: exI [of _ "k + length body"])
    moreover have "out = Complete \<Longrightarrow> length c \<le> k + length body" "out = Incomplete n \<Longrightarrow> n = int (k + length body)"
      using sec s1 False off by (auto simp: chunk_section_def s1_def [symmetric] Let_def split: if_splits option.splits)
    ultimately show ?thesis using fl s1 by auto
  qed
  show "sess_inv c sess'" "out = Complete \<Longrightarrow> ssFile sess' = Some c" "out = Incomplete n \<Longrightarrow> n = ssOffset sess'"
    "ssProject sess' = ssProject sess" "ssWrite sess' = ssWrite sess" using all by auto
qed

text \<open>
  The life of a session: honest chunks in any order and number, cut short or repeated, with any
  environment of the service's other calls, and anything that leaves the session itself alone.
\<close>

inductive session_run :: "hashes \<Rightarrow> string \<Rightarrow> string \<Rightarrow> string \<Rightarrow> write_req \<Rightarrow> 'h uploads \<Rightarrow> bool"
  for H c uid project w where
  opened: "session_run H c uid project w (sess_open uid project bucket w u)"
| chunk: "session_run H c uid project w u \<Longrightarrow> parseContentRange (rqHeader r ''Content-Range'') = Ok rg \<Longrightarrow>
    honest c rg (rqBody r) \<Longrightarrow> session_run H c uid project w (snd (resumableChunk H env cx r uid u))"
| elsewhere: "session_run H c uid project w u \<Longrightarrow> upObjs v uid = upObjs u uid \<Longrightarrow> uid \<in> upM v \<longleftrightarrow> uid \<in> upM u \<Longrightarrow>
    session_run H c uid project w v"

lemma finalize_complete:
  assumes "ssFile sess = Some c" and "\<not> ssDone sess" and "uid \<in> upM u"
  shows "\<exists>u'. finalizeResumable H env cx base uid sess u =
      ((case fst (WriteObject H env cx (ssProject sess) (ssWrite sess) c (upSvc u)) of
          Err e \<Rightarrow> Err e | Ok ob \<Rightarrow> Ok (writeJSON 200 (BObject (toAPIObject ob base)))), u') \<and>
      upSvc u' = snd (WriteObject H env cx (ssProject sess) (ssWrite sess) c (upSvc u)) \<and> uid \<notin> upM u'"
  using assms
  by (cases "WriteObject H env cx (ssProject sess) (ssWrite sess) c (upSvc u)")
    (auto simp: finalizeResumable_def final_claim_def final_write_def sess_close_def Let_def split: result.splits)

lemma chunk_cases:
  assumes get: "sess_get uid u = Some sess" and inv: "sess_inv c sess"
    and rg: "parseContentRange (rqHeader r ''Content-Range'') = Ok rg" and h: "honest c rg (rqBody r)" and c: "sendable c"
    and run: "resumableChunk H env cx r uid u = (res, u')"
  shows "(\<exists>sess'. sess_get uid u' = Some sess' \<and> sess_inv c sess' \<and> ssProject sess' = ssProject sess \<and> ssWrite sess' = ssWrite sess \<and>
      upSvc u' = upSvc u \<and> (case res of Ok resp \<Rightarrow> resp = resumeIncomplete r (ssOffset sess') | Err _ \<Rightarrow> True)) \<or>
    (uid \<notin> upM u' \<and> upSvc u' = snd (WriteObject H env cx (ssProject sess) (ssWrite sess) c (upSvc u)) \<and>
      res = (case fst (WriteObject H env cx (ssProject sess) (ssWrite sess) c (upSvc u)) of
          Err e \<Rightarrow> Err e | Ok ob \<Rightarrow> Ok (writeJSON 200 (BObject (toAPIObject ob (rqBase r))))))"
proof -
  obtain out sess1 where sec: "chunk_section rg (rqBody r) (rqBodyErr r) sess = (out, sess1)" by force
  note K = chunk_section_keeps [OF inv h c sec]
  have m: "uid \<in> upM u" using get by (auto simp: sess_get_def split: if_splits)
  let ?u1 = "u\<lparr>upObjs := (upObjs u)(uid \<mapsto> sess1)\<rparr>"
  have eq: "resumableChunk H env cx r uid u =
      (case out of Incomplete n \<Rightarrow> (Ok (resumeIncomplete r n), ?u1) | Rejected e \<Rightarrow> (Err e, ?u1)
       | Complete \<Rightarrow> finalizeResumable H env cx (rqBase r) uid sess1 ?u1)"
    using get rg sec by (simp add: resumableChunk_def Let_def)
  have still: "sess_get uid ?u1 = Some sess1" using m by (simp add: sess_get_def)
  show ?thesis
  proof (cases out)
    case (Incomplete n)
    with eq run K still show ?thesis by auto
  next
    case (Rejected e)
    with eq run K still show ?thesis by auto
  next
    case Complete
    then have "ssFile sess1 = Some c" "\<not> ssDone sess1" using K(1,2) by (auto simp: sess_inv_def)
    from finalize_complete [OF this, of uid ?u1 H env cx "rqBase r"] Complete eq run K(4,5) m show ?thesis
      by (cases "WriteObject H env cx (ssProject sess) (ssWrite sess) c (upSvc u)") (auto split: result.splits)
  qed
qed

lemma session_run_inv:
  assumes "session_run H c uid project w u" and "sendable c"
  shows "sess_get uid u = Some sess \<Longrightarrow> sess_inv c sess \<and> ssProject sess = project \<and> ssWrite sess = w"
  using assms(1)
proof (induction arbitrary: sess rule: session_run.induct)
  case (opened bucket u)
  then have "sess = \<lparr>ssBucket = bucket, ssProject = project, ssWrite = w, ssFile = Some '''', ssOffset = 0, ssTotal = -1, ssDone = False\<rparr>"
    by (auto simp: sess_get_def sess_open_def split: if_splits)
  then show ?case by (auto simp: sess_inv_def intro!: exI [of _ 0])
next
  case (chunk u r rg env cx)
  show ?case
  proof (cases "sess_get uid u")
    case None
    then have "snd (resumableChunk H env cx r uid u) = u" by (simp add: resumableChunk_def)
    with chunk.IH chunk.prems None show ?thesis by simp
  next
    case (Some s0)
    obtain res u' where run: "resumableChunk H env cx r uid u = (res, u')" by force
    note I = chunk.IH [OF Some]
    from chunk_cases [OF Some _ chunk.hyps(2,3) assms(2) run] I chunk.prems run show ?thesis
      by (auto simp: sess_get_def split: if_splits)
  qed
next
  case (elsewhere u v)
  then show ?case by (simp add: sess_get_def split: if_splits)
qed

subsection \<open>Printed ranges\<close>

definition query_header :: "nat \<Rightarrow> string" where
  "query_header n = ''bytes */'' @ dec n"

definition range_header :: "nat \<Rightarrow> nat \<Rightarrow> nat \<Rightarrow> string" where
  "range_header a b n = ''bytes '' @ dec a @ ''-'' @ dec b @ ''/'' @ dec n"

lemma digit_not_space: "is_digit c \<Longrightarrow> \<not> go_space c"
  by (auto simp: is_digit_def go_space_def)

lemma trimSpace_id:
  assumes "s \<noteq> []" and "\<not> go_space (hd s)" and "\<not> go_space (last s)"
  shows "trimSpace s = s"
proof -
  have "dropWhile go_space s = s" using assms by (cases s) auto
  moreover have "dropWhile go_space (rev s) = rev s" using assms by (cases s rule: rev_cases) auto
  ultimately show ?thesis by (simp add: trimSpace_def)
qed

lemma nonneg_int_dec: "int n \<le> max_i64 \<Longrightarrow> nonneg_int (dec n) = Some (int n)"
  using parseInt_itoa [of "int n"] by (simp add: nonneg_int_def itoa_def min_i64_def)

lemma last_dec_not_space: "\<not> go_space (last (dec n))"
  using dec_digits [of n] digit_not_space by (metis dec_ne last_in_set list_all_iff)

lemma dec_not_star: "dec n \<noteq> ''*''" "dec n @ x \<noteq> ''*''"
proof -
  have "hd (dec n) \<noteq> CHR ''*''"
    using hd_dec [of n] by (auto simp: is_digit_def)
  then show "dec n \<noteq> ''*''" "dec n @ x \<noteq> ''*''" by (auto dest!: arg_cong [where f = hd])
qed

lemma parse_query_header:
  "int n \<le> max_i64 \<Longrightarrow> parseContentRange (query_header n) = Ok \<lparr>rgStart = 0, rgEnd = -1, rgTotal = int n, rgQuery = True\<rparr>"
  using trimSpace_id [of "query_header n"] go_cut_first [of slash "''*''" "[]" "dec n"] last_dec_not_space [of n]
  by (simp add: parseContentRange_def query_header_def cutPrefix_def go_space_def nonneg_int_dec dec_not_star)

lemma parse_range_header:
  assumes "int a \<le> max_i64" "int b \<le> max_i64" "int n \<le> max_i64"
  shows "parseContentRange (range_header a b n) = Ok \<lparr>rgStart = int a, rgEnd = int b, rgTotal = int n, rgQuery = False\<rparr>"
proof -
  have t: "trimSpace (range_header a b n) = range_header a b n"
    using last_dec_not_space [of n] by (intro trimSpace_id) (simp_all add: range_header_def go_space_def)
  have "slash \<notin> set (dec a @ ''-'' @ dec b)" using dec_no_sep [of slash] by auto
  then have "go_cut (dec a @ ''-'' @ dec b @ ''/'' @ dec n) ''/'' = Some (dec a @ ''-'' @ dec b, dec n)"
    using go_cut_first [of slash "dec a @ ''-'' @ dec b" "[]" "dec n"] by simp
  moreover have "go_cut (dec a @ ''-'' @ dec b) ''-'' = Some (dec a, dec b)"
    using go_cut_first [of "CHR ''-''" "dec a" "[]" "dec b"] dec_no_sep [of "CHR ''-''" a] by simp
  ultimately show ?thesis using t assms
    by (simp add: parseContentRange_def range_header_def cutPrefix_def parse_bounds_def nonneg_int_dec dec_not_star)
qed

subsection \<open>Interleaved requests\<close>

text \<open>
  Requests to one session running at the same time: the locked sections of chunks, the claims that
  succeed, and the writes that follow a claim, in any order; \<open>claims\<close> are the sessions claimed and
  not yet written, \<open>n\<close> counts the writes.
\<close>

inductive upload_steps :: "hashes \<Rightarrow> string \<Rightarrow> 'h uploads \<Rightarrow> session list \<Rightarrow> nat \<Rightarrow> bool" for H uid where
  opened: "upload_steps H uid (sess_open uid project bucket w u) [] 0"
| receive: "upload_steps H uid u claims n \<Longrightarrow> upObjs u uid = Some sess \<Longrightarrow> chunk_section rg body err sess = (out, sess') \<Longrightarrow>
    upload_steps H uid (u\<lparr>upObjs := (upObjs u)(uid \<mapsto> sess')\<rparr>) claims n"
| claim: "upload_steps H uid u claims n \<Longrightarrow> upObjs u uid = Some sess \<Longrightarrow> final_claim sess = (True, sess') \<Longrightarrow>
    upload_steps H uid (u\<lparr>upObjs := (upObjs u)(uid \<mapsto> sess')\<rparr>) (sess' # claims) n"
| publish: "upload_steps H uid u (xs @ sess # ys) n \<Longrightarrow> final_write H env cx base uid sess u = (res, u') \<Longrightarrow>
    upload_steps H uid u' (xs @ ys) (Suc n)"
| elsewhere: "upload_steps H uid u claims n \<Longrightarrow> upObjs v uid = upObjs u uid \<Longrightarrow> upload_steps H uid v claims n"

lemma chunk_section_done: "chunk_section rg body err sess = (out, sess') \<Longrightarrow> ssDone sess' = ssDone sess"
  by (auto simp: chunk_section_def Let_def split: if_splits option.splits)

lemma final_write_objs:
  "final_write H env cx base uid sess u = (res, u') \<Longrightarrow>
    map_option ssDone (upObjs u' uid) = map_option ssDone (upObjs u uid)"
  by (auto simp: final_write_def sess_close_def Let_def option.map_comp comp_def split: option.splits prod.splits if_splits)

lemma upload_steps_inv:
  "upload_steps H uid u claims n \<Longrightarrow>
    \<exists>d. map_option ssDone (upObjs u uid) = Some d \<and> length claims + n = (if d then 1 else 0)"
proof (induction rule: upload_steps.induct)
  case (publish u xs sess ys n env cx base res u')
  then show ?case using final_write_objs by fastforce
qed (auto simp: sess_open_def final_claim_def dest!: chunk_section_done split: if_splits)

lemma chunk_section_rest:
  assumes "sess_inv c sess" and "sendable c" and "ssOffset sess = int k" and "k < length c"
    and "rg = \<lparr>rgStart = int k, rgEnd = int (length c - 1), rgTotal = int (length c), rgQuery = False\<rparr>"
  shows "fst (chunk_section rg (drop k c) None sess) = Complete"
proof -
  have "ssFile sess = Some (take k c)" using assms(1,3) by (auto simp: sess_inv_def)
  moreover have "i64 (int (length c)) = int (length c)" "i64 (1 + int (length c - 1)) = int (length c)" "int k + int (length c - k) = int (length c)"
    using assms(2,4) by (auto simp: sendable_def i64_id min_i64_def)
  ultimately show ?thesis using assms(3,4) by (simp add: chunk_section_def Let_def assms(5) add.commute)
qed

lemma rest_finishes:
  assumes get: "sess_get uid u = Some sess" and inv: "sess_inv c sess" and c: "sendable c"
    and k: "ssOffset sess = int k" "k < length c"
    and r: "rqHeader r ''Content-Range'' = range_header k (length c - 1) (length c)" "rqBody r = drop k c" "rqBodyErr r = None"
  shows "\<exists>u'. resumableChunk H env cx r uid u =
      (case fst (WriteObject H env cx (ssProject sess) (ssWrite sess) c (upSvc u)) of
         Err e \<Rightarrow> Err e | Ok ob \<Rightarrow> Ok (writeJSON 200 (BObject (toAPIObject ob (rqBase r)))), u') \<and>
    sess_get uid u' = None"
proof -
  have m: "uid \<in> upM u" using get by (auto simp: sess_get_def split: if_splits)
  let ?rg = "\<lparr>rgStart = int k, rgEnd = int (length c - 1), rgTotal = int (length c), rgQuery = False\<rparr>"
  have rg: "parseContentRange (rqHeader r ''Content-Range'') = Ok ?rg"
    using parse_range_header [of k "length c - 1" "length c"] c k(2) r(1) by (auto simp: sendable_def)
  obtain sess1 where sec: "chunk_section ?rg (rqBody r) (rqBodyErr r) sess = (Complete, sess1)"
    using chunk_section_rest [OF inv c k refl] r(2,3) by (cases "chunk_section ?rg (rqBody r) (rqBodyErr r) sess") auto
  have "honest c ?rg (rqBody r)" by (simp add: honest_def r(2))
  note K = chunk_section_keeps [OF inv this c sec]
  let ?u1 = "u\<lparr>upObjs := (upObjs u)(uid \<mapsto> sess1)\<rparr>"
  have "ssFile sess1 = Some c" "\<not> ssDone sess1" using K(1,2) by (auto simp: sess_inv_def)
  from finalize_complete [OF this, of uid ?u1 H env cx "rqBase r"] m K(4,5)
  obtain u' where "finalizeResumable H env cx (rqBase r) uid sess1 ?u1 =
      (case fst (WriteObject H env cx (ssProject sess) (ssWrite sess) c (upSvc u)) of
         Err e \<Rightarrow> Err e | Ok ob \<Rightarrow> Ok (writeJSON 200 (BObject (toAPIObject ob (rqBase r)))), u')" "uid \<notin> upM u'" by auto
  moreover from this have "resumableChunk H env cx r uid u = finalizeResumable H env cx (rqBase r) uid sess1 ?u1"
    using get rg sec by (simp add: resumableChunk_def Let_def)
  ultimately show ?thesis by (auto simp: sess_get_def)
qed

subsection \<open>A concrete session\<close>

definition demo_uploads :: "unit uploads" where
  "demo_uploads = sess_open ''u'' ''prj'' ''bkt'' (demo_write ''a'') \<lparr>upSvc = demo_svc, upObjs = Map.empty, upM = {}\<rparr>"

definition demo_chunk :: "string \<Rightarrow> string \<Rightarrow> request" where
  "demo_chunk rng content =
     \<lparr>rqMethod = ''PUT'', rqPath = ''/upload/storage/v1/b/bkt/o'', rqQuery = [(''upload_id'', ''u'')],
      rqHeader = (\<lambda>_. '''')(''Content-Range'' := rng), rqBody = content, rqBodyErr = None, rqBase = '''', rqSession = Ok ''''\<rparr>"

lemma demo_sel:
  "rqHeader (demo_chunk rng content) ''Content-Range'' = rng" "rqBody (demo_chunk rng content) = content"
  "rqBodyErr (demo_chunk rng content) = None" "rqBase (demo_chunk rng content) = ''''"
  by (simp_all add: demo_chunk_def)

lemma demo_uploads_get:
  "sess_get ''u'' demo_uploads = Some \<lparr>ssBucket = ''bkt'', ssProject = ''prj'', ssWrite = demo_write ''a'', ssFile = Some '''',
     ssOffset = 0, ssTotal = -1, ssDone = False\<rparr>" "upSvc demo_uploads = demo_svc"
  by (simp_all add: demo_uploads_def sess_get_def sess_open_def)

lemma demo_uploads_run: "session_run H c ''u'' ''prj'' (demo_write ''a'') demo_uploads"
  unfolding demo_uploads_def by (rule session_run.opened)

subsection \<open>Properties\<close>

text \<open>
  C9: however the chunks of an upload arrived, cut short, repeated, out of place or after rejected
  ones, when the session answers with an object, that object's content is exactly the content the
  chunks were taken from: opening it returns those bytes, and the session is gone.
\<close>

theorem resumed_upload_stores_content:
  assumes "session_run H c uid project w u" and "sendable c"
    and "parseContentRange (rqHeader r ''Content-Range'') = Ok rg" and "honest c rg (rqBody r)"
    and "resumableChunk H quiet CtxLive r uid u = (Ok resp, u')" and "rsBody resp = BObject ao"
    and "storage_run H (upSvc u)" and "hashes_ok H" and "roomy (upSvc u)" and "slash_free project" and "slash_free (wrBucket w)"
  shows "\<exists>ob. ao = toAPIObject ob (rqBase r) \<and> obSize ob = int (length c) \<and> sess_get uid u' = None \<and>
    OpenObject CtxLive project (wrBucket w) (wrName w) None noPreconditions (upSvc u') = Ok (stored_object ob, c)"
proof -
  obtain sess where get: "sess_get uid u = Some sess" using assms(5) by (cases "sess_get uid u") (auto simp: resumableChunk_def)
  note I = session_run_inv [OF assms(1,2) get]
  have "rsBody (resumeIncomplete r n) = NoBody" for n by (simp add: resumeIncomplete_def Let_def)
  with chunk_cases [OF get _ assms(3,4,2,5)] I assms(6)
  have gone: "uid \<notin> upM u'" and s: "upSvc u' = snd (WriteObject H quiet CtxLive project w c (upSvc u))"
    and resp: "Ok resp = (case fst (WriteObject H quiet CtxLive project w c (upSvc u)) of
          Err e \<Rightarrow> Err e | Ok ob \<Rightarrow> Ok (writeJSON 200 (BObject (toAPIObject ob (rqBase r)))))"
    by auto
  obtain ob where ob: "fst (WriteObject H quiet CtxLive project w c (upSvc u)) = Ok ob" "ao = toAPIObject ob (rqBase r)"
    using resp assms(6) by (auto simp: writeJSON_def split: result.splits)
  then have "WriteObject H quiet CtxLive project w c (upSvc u) = (Ok ob, upSvc u')" using s by (metis prod.collapse)
  from write_opens [OF assms(7-11) this] ob(2) gone show ?thesis by (auto simp: sess_get_def)
qed

theorem resumed_upload_stores_content_witness:
  "\<exists>u' ob. resumableChunk demo_hashes quiet CtxLive (demo_chunk (range_header 0 2 3) ''xyz'') ''u'' demo_uploads =
      (Ok (writeJSON 200 (BObject (toAPIObject ob ''''))), u') \<and>
    OpenObject CtxLive ''prj'' ''bkt'' ''a'' None noPreconditions (upSvc u') = Ok (stored_object ob, ''xyz'')"
proof -
  let ?r = "demo_chunk (range_header 0 2 3) ''xyz''"
  have c: "sendable ''xyz''" by (simp add: sendable_def max_i64_def)
  obtain ob s' where w: "WriteObject demo_hashes quiet CtxLive ''prj'' (demo_write ''a'') ''xyz'' demo_svc = (Ok ob, s')"
    by (rule demo_write_ok [of "''a''" "''xyz''"]) auto
  have "\<exists>u'. resumableChunk demo_hashes quiet CtxLive ?r ''u'' demo_uploads =
      (case fst (WriteObject demo_hashes quiet CtxLive ''prj'' (demo_write ''a'') ''xyz'' demo_svc) of
         Err e \<Rightarrow> Err e | Ok ob \<Rightarrow> Ok (writeJSON 200 (BObject (toAPIObject ob (rqBase ?r)))), u') \<and> sess_get ''u'' u' = None"
    using rest_finishes [OF demo_uploads_get(1) _ c, of 0 ?r demo_hashes quiet CtxLive] demo_uploads_get(2)
    by (simp add: sess_inv_def demo_chunk_def numeral_2_eq_2 numeral_3_eq_3)
  then obtain u' where run: "resumableChunk demo_hashes quiet CtxLive ?r ''u'' demo_uploads =
      (Ok (writeJSON 200 (BObject (toAPIObject ob ''''))), u')" using w by (auto simp: demo_chunk_def)
  have rg: "parseContentRange (rqHeader ?r ''Content-Range'') = Ok \<lparr>rgStart = 0, rgEnd = 2, rgTotal = 3, rgQuery = False\<rparr>"
    using parse_range_header [of 0 2 3] by (simp add: demo_chunk_def max_i64_def)
  have "\<exists>ob2. toAPIObject ob '''' = toAPIObject ob2 '''' \<and>
      OpenObject CtxLive ''prj'' ''bkt'' ''a'' None noPreconditions (upSvc u') = Ok (stored_object ob2, ''xyz'')"
    using resumed_upload_stores_content [OF demo_uploads_run c rg _ run, of "toAPIObject ob ''''"]
      demo_svc_run demo_hashes_good demo_svc_roomy
    by (simp add: honest_def demo_chunk_def writeJSON_def demo_uploads_get demo_write_def) blast
  then show ?thesis using run by metis
qed

text \<open>
  C18: an interrupted upload can always be finished: while the session is open and lacks bytes, a
  status query answers with the number of bytes it has, and sending the rest from there, declared as
  such, ends in the write of the whole content and closes the session.
\<close>

theorem interrupted_upload_finishes:
  assumes "session_run H c uid project w u" and "sendable c" and "sess_get uid u = Some sess" and "nat (ssOffset sess) < length c"
    and "rqHeader q ''Content-Range'' = query_header (length c)"
    and "rqHeader r ''Content-Range'' = range_header (nat (ssOffset sess)) (length c - 1) (length c)"
    and "rqBody r = drop (nat (ssOffset sess)) c" and "rqBodyErr r = None"
  shows "\<exists>u1 u2. resumableChunk H env cx q uid u = (Ok (resumeIncomplete q (ssOffset sess)), u1) \<and>
    resumableChunk H env cx r uid u1 =
      (case fst (WriteObject H env cx project w c (upSvc u)) of
         Err e \<Rightarrow> Err e | Ok ob \<Rightarrow> Ok (writeJSON 200 (BObject (toAPIObject ob (rqBase r)))), u2) \<and>
    sess_get uid u2 = None"
proof -
  note I = session_run_inv [OF assms(1-3)]
  define k where "k = nat (ssOffset sess)"
  have k: "ssOffset sess = int k" "k < length c" using I assms(4) by (auto simp: sess_inv_def k_def)
  let ?s1 = "sess\<lparr>ssTotal := int (length c)\<rparr>" and ?u1 = "u\<lparr>upObjs := (upObjs u)(uid \<mapsto> sess\<lparr>ssTotal := int (length c)\<rparr>)\<rparr>"
  have "parseContentRange (query_header (length c)) = Ok \<lparr>rgStart = 0, rgEnd = -1, rgTotal = int (length c), rgQuery = True\<rparr>"
    by (rule parse_query_header) (use assms(2) in \<open>simp add: sendable_def\<close>)
  then have q: "resumableChunk H env cx q uid u = (Ok (resumeIncomplete q (ssOffset sess)), ?u1)"
    using assms(3,5) k by (simp add: resumableChunk_def chunk_section_def Let_def)
  have get1: "sess_get uid ?u1 = Some ?s1" using assms(3) by (auto simp: sess_get_def split: if_splits)
  have inv1: "sess_inv c ?s1" using I by (auto simp: sess_inv_def)
  have "\<exists>u'. resumableChunk H env cx r uid ?u1 =
      (case fst (WriteObject H env cx (ssProject ?s1) (ssWrite ?s1) c (upSvc ?u1)) of
         Err e \<Rightarrow> Err e | Ok ob \<Rightarrow> Ok (writeJSON 200 (BObject (toAPIObject ob (rqBase r)))), u') \<and> sess_get uid u' = None"
    by (rule rest_finishes [OF get1 inv1 assms(2), of k]) (use k assms(6-8) in \<open>simp_all add: k_def\<close>)
  with q I show ?thesis by auto
qed

theorem interrupted_upload_finishes_witness:
  "\<exists>u1 u2. resumableChunk demo_hashes quiet CtxLive (demo_chunk (query_header 3) '''') ''u'' demo_uploads =
      (Ok (resumeIncomplete (demo_chunk (query_header 3) '''') 0), u1) \<and>
    (\<exists>ob. resumableChunk demo_hashes quiet CtxLive (demo_chunk (range_header 0 2 3) ''xyz'') ''u'' u1 =
      (Ok (writeJSON 200 (BObject (toAPIObject ob ''''))), u2)) \<and> sess_get ''u'' u2 = None"
proof -
  obtain ob s' where w: "WriteObject demo_hashes quiet CtxLive ''prj'' (demo_write ''a'') ''xyz'' demo_svc = (Ok ob, s')"
    by (rule demo_write_ok [of "''a''" "''xyz''"]) auto
  show ?thesis
    using interrupted_upload_finishes [OF demo_uploads_run [of demo_hashes "''xyz''"] _ demo_uploads_get(1),
        of "demo_chunk (query_header 3) ''''" "demo_chunk (range_header 0 2 3) ''xyz''" quiet CtxLive]
    by (simp add: w demo_sel sendable_def max_i64_def demo_uploads_get(2) numeral_2_eq_2 numeral_3_eq_3) blast
qed

text \<open>
  C19: however the requests of a session interleave, at most one of them writes the object: a claim
  succeeds once, so two requests that both see the last byte do not publish the upload twice.
\<close>

theorem session_publishes_once:
  assumes "upload_steps H uid u claims n"
  shows "n + length claims \<le> 1"
  using upload_steps_inv [OF assms] by (auto split: if_splits)

theorem session_publishes_once_witness:
  "\<exists>sess sess1 u' ob. upObjs demo_uploads ''u'' = Some sess \<and>
     chunk_section \<lparr>rgStart = 0, rgEnd = 2, rgTotal = 3, rgQuery = False\<rparr> ''xyz'' None sess = (Complete, sess1) \<and>
     chunk_section \<lparr>rgStart = 0, rgEnd = -1, rgTotal = 3, rgQuery = True\<rparr> '''' None sess1 = (Complete, sess1) \<and>
     final_claim sess1 = (True, sess1\<lparr>ssDone := True\<rparr>) \<and> fst (final_claim (sess1\<lparr>ssDone := True\<rparr>)) = False \<and>
     upload_steps demo_hashes ''u'' (u' :: unit uploads) [] 1 \<and> 1 + length ([] :: session list) \<le> 1 \<and>
     OpenObject CtxLive ''prj'' ''bkt'' ''a'' None noPreconditions (upSvc u') = Ok (stored_object ob, ''xyz'')"
proof -
  define sess :: session where "sess = \<lparr>ssBucket = ''bkt'', ssProject = ''prj'', ssWrite = demo_write ''a'', ssFile = Some '''',
     ssOffset = 0, ssTotal = -1, ssDone = False\<rparr>"
  let ?s1 = "sess\<lparr>ssFile := Some ''xyz'', ssOffset := 3, ssTotal := 3\<rparr>"
  let ?q = "\<lparr>rgStart = 0, rgEnd = -1, rgTotal = 3, rgQuery = True\<rparr>" and ?r = "\<lparr>rgStart = 0, rgEnd = 2, rgTotal = 3, rgQuery = False\<rparr>"
  have s: "upObjs demo_uploads ''u'' = Some sess" by (simp add: demo_uploads_def sess_open_def sess_def)
  have r: "chunk_section ?r ''xyz'' None sess = (Complete, ?s1)"
    by (simp add: chunk_section_def sess_def Let_def i64_id min_i64_def max_i64_def)
  have q: "chunk_section ?q '''' None ?s1 = (Complete, ?s1)" by (simp add: chunk_section_def Let_def)
  have c: "final_claim ?s1 = (True, ?s1\<lparr>ssDone := True\<rparr>)" "fst (final_claim (?s1\<lparr>ssDone := True\<rparr>)) = False"
    by (simp_all add: final_claim_def sess_def)
  let ?u1 = "demo_uploads\<lparr>upObjs := (upObjs demo_uploads)(''u'' \<mapsto> ?s1)\<rparr>"
  have "upload_steps demo_hashes ''u'' demo_uploads [] 0" unfolding demo_uploads_def by (rule upload_steps.opened)
  from upload_steps.receive [OF this s r] have u1: "upload_steps demo_hashes ''u'' ?u1 [] 0" .
  have "upload_steps demo_hashes ''u'' (?u1\<lparr>upObjs := (upObjs ?u1)(''u'' \<mapsto> ?s1)\<rparr>) [] 0"
    by (rule upload_steps.receive [OF u1 _ q]) simp
  then have "upload_steps demo_hashes ''u'' ?u1 [] 0" by simp
  from upload_steps.claim [OF this _ c(1)] have
    u2: "upload_steps demo_hashes ''u'' (demo_uploads\<lparr>upObjs := (upObjs demo_uploads)(''u'' \<mapsto> ?s1\<lparr>ssDone := True\<rparr>)\<rparr>)
           ([] @ ?s1\<lparr>ssDone := True\<rparr> # []) 0" (is "upload_steps _ _ ?u2 _ _") by simp
  obtain ob s' where w: "WriteObject demo_hashes quiet CtxLive ''prj'' (demo_write ''a'') ''xyz'' demo_svc = (Ok ob, s')"
    by (rule demo_write_ok [of "''a''" "''xyz''"]) auto
  obtain res u' where f: "final_write demo_hashes quiet CtxLive '''' ''u'' (?s1\<lparr>ssDone := True\<rparr>) ?u2 = (res, u')" by force
  have "upSvc u' = s'"
    using f w by (simp add: final_write_def sess_def demo_uploads_get(2) Let_def sess_close_def split: option.splits) auto
  then have "OpenObject CtxLive ''prj'' ''bkt'' ''a'' None noPreconditions (upSvc u') = Ok (stored_object ob, ''xyz'')"
    using write_opens [OF demo_svc_run demo_hashes_good demo_svc_roomy _ _ w] by (simp add: demo_write_def)
  moreover from upload_steps.publish [OF u2 f] have "upload_steps demo_hashes ''u'' u' [] 1" by simp
  moreover note session_publishes_once [OF this]
  ultimately show ?thesis using s r q c
    by blast
qed

text \<open>
  A request that carries the whole content without a \<open>Content-Range\<close> header is never the end of the
  upload: nothing declares the total, so the session stores every byte, answers that it is incomplete
  and stays open, although the header's absence is documented as the whole object in one request.
\<close>

theorem upload_without_range_stays_open:
  assumes "sess_get uid u = Some sess" and "ssTotal sess = -1" and "ssOffset sess = 0" and "ssFile sess = Some ''''"
    and "rqHeader r ''Content-Range'' = ''''" and "rqBodyErr r = None" and "sendable (rqBody r)"
  shows "\<exists>u'. resumableChunk H env cx r uid u = (Ok (resumeIncomplete r (int (length (rqBody r)))), u') \<and>
    sess_get uid u' = Some (sess\<lparr>ssFile := Some (rqBody r), ssOffset := int (length (rqBody r))\<rparr>) \<and> upSvc u' = upSvc u"
proof -
  have "i64 (int (length (rqBody r))) = int (length (rqBody r))" using assms(7) by (simp add: sendable_def i64_id min_i64_def)
  with assms show ?thesis
    by (auto simp: resumableChunk_def parseContentRange_def chunk_section_def Let_def sess_get_def split: if_splits)
qed

theorem upload_without_range_stays_open_witness:
  "\<exists>u'. resumableChunk demo_hashes quiet CtxLive (demo_chunk '''' ''xyz'') ''u'' demo_uploads =
      (Ok (resumeIncomplete (demo_chunk '''' ''xyz'') 3), u') \<and> sess_get ''u'' u' \<noteq> None"
  using upload_without_range_stays_open [OF demo_uploads_get(1), of "demo_chunk '''' ''xyz''" demo_hashes quiet CtxLive]
  by (auto simp: demo_chunk_def sendable_def max_i64_def)

end
