(* ===== verification/Storage_List.thy ===== *)
theory Storage_List
  imports Storage_Props
begin

text \<open>
  Listing the live objects of a bucket (\<open>services/storage/list.go\<close>): pages of objects and of the
  prefixes that names roll up to at a delimiter.  The listing reads one state of the store.
\<close>

subsection \<open>Requests and results\<close>

definition DefaultMaxResults :: int where "DefaultMaxResults = 1000"
definition scanChunk :: int where "scanChunk = 512"

record list_request =
  lrBucket :: string
  lrPrefix :: string
  lrDelimiter :: string
  lrMaxResults :: int
  lrPageToken :: string

record list_result =
  ltObjects :: "object list"
  ltPrefixes :: "string list"
  ltNextPageToken :: string

definition noResults :: list_result where
  "noResults = \<lparr>ltObjects = [], ltPrefixes = [], ltNextPageToken = ''''\<rparr>"

subsection \<open>One entry\<close>

definition rollupOf :: "string \<Rightarrow> string \<Rightarrow> string \<Rightarrow> string option" where
  "rollupOf name pfx delimiter =
     (if delimiter = '''' then None
      else let rest = trimPrefix name pfx
           in case go_index rest delimiter of
                None \<Rightarrow> None
              | Some i \<Rightarrow> Some (pfx @ take (i + length delimiter) rest))"

definition objectFor :: "ctx \<Rightarrow> string \<Rightarrow> string \<Rightarrow> string \<Rightarrow> sval \<Rightarrow> 'h svc \<Rightarrow> (goerr, object) result" where
  "objectFor cx project bucket name pointer s =
     (case pointer of
        SLive l \<Rightarrow> readGeneration cx project bucket name (lpGeneration l) s
      | _ \<Rightarrow> Err (decodeError ''decoding the live pointer''))"

subsection \<open>One page\<close>

text \<open>
  The loop over the entries of one read: \<open>Inl\<close> is the finished page, \<open>Inr\<close> what was collected
  when the entries ran out, with the rollups already emitted.
\<close>

fun list_entries ::
  "ctx \<Rightarrow> string \<Rightarrow> list_request \<Rightarrow> int \<Rightarrow> 'h svc \<Rightarrow> sval kv list \<Rightarrow> list_result \<Rightarrow> string set
     \<Rightarrow> (goerr, list_result + list_result \<times> string set) result" where
  "list_entries cx project req limit s [] res seen = Ok (Inr (res, seen))"
| "list_entries cx project req limit s (kv # kvs) res seen =
     (let full = (\<lambda>res1 seen1.
        if limit \<le> int (length (ltObjects res1) + length (ltPrefixes res1))
        then Ok (Inl (res1\<lparr>ltNextPageToken := PageToken (kvKey kv), ltPrefixes := sort (ltPrefixes res1)\<rparr>))
        else list_entries cx project req limit s kvs res1 seen1)
      in case ObjectName project (lrBucket req) (kvKey kv) of
           Err e \<Rightarrow> Err (Wrap e Internal (Msg ''decoding a live pointer key'' []))
         | Ok name \<Rightarrow>
             (case rollupOf name (lrPrefix req) (lrDelimiter req) of
                Some rollup \<Rightarrow>
                  if rollup \<in> seen then list_entries cx project req limit s kvs res seen
                  else full (res\<lparr>ltPrefixes := ltPrefixes res @ [rollup]\<rparr>) (insert rollup seen)
              | None \<Rightarrow>
                  (case objectFor cx project (lrBucket req) name (kvVal kv) s of
                     Err e \<Rightarrow> if isNotFound e then list_entries cx project req limit s kvs res seen else Err e
                   | Ok obj \<Rightarrow> full (res\<lparr>ltObjects := ltObjects res @ [obj]\<rparr>) seen)))"

definition badListToken :: "store_error \<Rightarrow> goerr" where
  "badListToken e =
     GErr (WithReason ''invalid'' (WithHTTPStatus 400 (New InvalidArgument (Msg ''%s'' [store_text e]))))
       (Some (store_goerr e))"

text \<open>The loop over the reads, each of at most \<open>scanChunk\<close> entries.\<close>

fun list_chunks ::
  "nat \<Rightarrow> ctx \<Rightarrow> string \<Rightarrow> list_request \<Rightarrow> int \<Rightarrow> 'h svc \<Rightarrow> string \<Rightarrow> list_result \<Rightarrow> string set
     \<Rightarrow> (goerr, list_result) result option" where
  "list_chunks 0 cx project req limit s tok res seen = None"
| "list_chunks (Suc fuel) cx project req limit s tok res seen =
     (case mem_List cx (LivePrefix project (lrBucket req) @ lrPrefix req) scanChunk tok (svKV s) of
        Err e \<Rightarrow> Some (Err (badListToken e))
      | Ok (entries, nxt) \<Rightarrow>
          (case list_entries cx project req limit s entries res seen of
             Err e \<Rightarrow> Some (Err e)
           | Ok (Inl r) \<Rightarrow> Some (Ok r)
           | Ok (Inr (res1, seen1)) \<Rightarrow>
               if nxt = '''' then Some (Ok (res1\<lparr>ltPrefixes := sort (ltPrefixes res1)\<rparr>))
               else list_chunks fuel cx project req limit s nxt res1 seen1))"

definition ListObjects ::
  "nat \<Rightarrow> ctx \<Rightarrow> string \<Rightarrow> list_request \<Rightarrow> 'h svc \<Rightarrow> (goerr, list_result) result option" where
  "ListObjects fuel cx project req s =
     (case bucket_of cx project (lrBucket req) s of
        Err e \<Rightarrow> Some (Err e)
      | Ok _ \<Rightarrow>
          let limit = (if lrMaxResults req \<le> 0 then DefaultMaxResults else lrMaxResults req)
          in list_chunks fuel cx project req limit s (lrPageToken req) noResults {})"

subsection \<open>Following page tokens\<close>

text \<open>
  The contract of a paged listing: \<open>stream tok\<close> is what is left to list at a token, a page covers a
  non-empty piece of it unless it is the last one.  A client that follows the tokens then sees all of
  it, piece by piece, and comes to an end.
\<close>

fun follow :: "(string \<Rightarrow> ('p \<times> string) option) \<Rightarrow> nat \<Rightarrow> string \<Rightarrow> 'p list option" where
  "follow page 0 tok = None"
| "follow page (Suc fuel) tok =
     (case page tok of
        None \<Rightarrow> None
      | Some (p, nxt) \<Rightarrow> if nxt = '''' then Some [p] else map_option ((#) p) (follow page fuel nxt))"

locale pager =
  fixes page :: "string \<Rightarrow> ('p \<times> string) option"
    and good :: "string \<Rightarrow> bool"
    and stream :: "string \<Rightarrow> 'k list"
    and covers :: "'p \<Rightarrow> 'k list \<Rightarrow> bool"
  assumes page_step: "good tok \<Longrightarrow>
    \<exists>p nxt ds. page tok = Some (p, nxt) \<and> covers p ds \<and>
      (nxt = '''' \<and> stream tok = ds \<or> nxt \<noteq> '''' \<and> good nxt \<and> ds \<noteq> [] \<and> stream tok = ds @ stream nxt)"
begin

lemma follow_covers:
  "good tok \<Longrightarrow> length (stream tok) < fuel \<Longrightarrow>
    \<exists>ps dss. follow page fuel tok = Some ps \<and> list_all2 covers ps dss \<and> concat dss = stream tok"
proof (induction fuel arbitrary: tok)
  case (Suc fuel)
  obtain p nxt ds where p: "page tok = Some (p, nxt)" "covers p ds"
    and c: "nxt = '''' \<and> stream tok = ds \<or> nxt \<noteq> '''' \<and> good nxt \<and> ds \<noteq> [] \<and> stream tok = ds @ stream nxt"
    using page_step [OF Suc.prems(1)] by blast
  show ?case
  proof (cases "nxt = ''''")
    case True
    with p c have "follow page (Suc fuel) tok = Some [p] \<and> list_all2 covers [p] [ds] \<and> concat [ds] = stream tok" by simp
    then show ?thesis by blast
  next
    case False
    with c Suc.prems(2) have n: "good nxt" "length (stream nxt) < fuel" "stream tok = ds @ stream nxt"
      by (cases ds; force)+
    then obtain ps dss where "follow page fuel nxt = Some ps" "list_all2 covers ps dss" "concat dss = stream nxt"
      using Suc.IH by blast
    with p n False have "follow page (Suc fuel) tok = Some (p # ps) \<and> list_all2 covers (p # ps) (ds # dss) \<and>
        concat (ds # dss) = stream tok" by simp
    then show ?thesis by blast
  qed
qed simp

end

subsection \<open>What a listing shows\<close>

text \<open>
  The reference: every live key is one entry.  A name with the delimiter after the request's prefix
  shows as its rollup, any other as the object its pointer leads to, if that is still there.
\<close>

definition live_name :: "string \<Rightarrow> list_request \<Rightarrow> string \<Rightarrow> string" where
  "live_name project req k = drop (length (LivePrefix project (lrBucket req))) k"

definition roll :: "string \<Rightarrow> list_request \<Rightarrow> string \<Rightarrow> string option" where
  "roll project req k = rollupOf (live_name project req k) (lrPrefix req) (lrDelimiter req)"

definition shown_at :: "string \<Rightarrow> list_request \<Rightarrow> 'h svc \<Rightarrow> string \<Rightarrow> object list" where
  "shown_at project req s k =
     (case objectFor CtxLive project (lrBucket req) (live_name project req k) (kvVal (kv_at (svKV s) k)) s of
        Ok ob \<Rightarrow> [ob] | Err _ \<Rightarrow> [])"

definition shown_objects :: "string \<Rightarrow> list_request \<Rightarrow> 'h svc \<Rightarrow> string list \<Rightarrow> object list" where
  "shown_objects project req s ks = concat (map (\<lambda>k. if roll project req k = None then shown_at project req s k else []) ks)"

definition shown_prefixes :: "string \<Rightarrow> list_request \<Rightarrow> string list \<Rightarrow> string set" where
  "shown_prefixes project req ks = {r. \<exists>k\<in>set ks. roll project req k = Some r}"

lemma shown_append [simp]:
  "shown_objects project req s (xs @ ys) = shown_objects project req s xs @ shown_objects project req s ys"
  "shown_prefixes project req (xs @ ys) = shown_prefixes project req xs \<union> shown_prefixes project req ys"
  "shown_objects project req s [] = []" "shown_prefixes project req [] = {}"
  by (auto simp: shown_objects_def shown_prefixes_def)

lemma shown_concat:
  "shown_objects project req s (concat dss) = concat (map (shown_objects project req s) dss)"
  "shown_prefixes project req (concat dss) = (\<Union>ds\<in>set dss. shown_prefixes project req ds)"
  by (induction dss) auto

text \<open>The records of a bucket decode: pointers under live keys, objects under the keys they name.\<close>

definition live_ok :: "string \<Rightarrow> string \<Rightarrow> 'h svc \<Rightarrow> bool" where
  "live_ok project bucket s \<longleftrightarrow>
     (\<forall>name e. memM (svKV s) (Live project bucket name) = Some e \<longrightarrow>
        (\<exists>l. entVal e = SLive l \<and>
           (\<forall>e1. memM (svKV s) (Object project bucket name (lpGeneration l)) = Some e1 \<longrightarrow> (\<exists>ob. entVal e1 = SObject ob))))"

lemma live_key:
  assumes "prefix (LivePrefix project (lrBucket req)) k"
  shows "k = Live project (lrBucket req) (live_name project req k)"
    and "ObjectName project (lrBucket req) k = Ok (live_name project req k)"
  using assms by (auto simp: live_name_def Live_def LivePrefix_def ObjectName_def cutPrefix_def prefix_def)

lemma objectFor_cases:
  assumes "live_ok project (lrBucket req) s" and "prefix (LivePrefix project (lrBucket req)) k"
    and "memM (svKV s) k \<noteq> None"
  shows "(\<exists>ob. objectFor CtxLive project (lrBucket req) (live_name project req k) (kvVal (kv_at (svKV s) k)) s = Ok ob) \<or>
    (\<exists>e. objectFor CtxLive project (lrBucket req) (live_name project req k) (kvVal (kv_at (svKV s) k)) s = Err e \<and> isNotFound e)"
proof -
  let ?n = "live_name project req k"
  obtain e where e: "memM (svKV s) k = Some e" using assms(3) by blast
  then obtain l where l: "entVal e = SLive l"
    "\<forall>e1. memM (svKV s) (Object project (lrBucket req) ?n (lpGeneration l)) = Some e1 \<longrightarrow> (\<exists>ob. entVal e1 = SObject ob)"
    using assms(1) live_key(1) [OF assms(2)] unfolding live_ok_def by metis
  show ?thesis
    using e l by (cases "memM (svKV s) (Object project (lrBucket req) ?n (lpGeneration l))")
      (auto simp: objectFor_def kv_at_def readGeneration_def readGenerationVersion_def kvGet_def mem_Get_def isNotFound_def
        notFoundObject_def WithReason_def WithHTTPStatus_def New_def)
qed

subsection \<open>A page covers what it read\<close>

definition collected :: "string \<Rightarrow> list_request \<Rightarrow> 'h svc \<Rightarrow> list_result \<Rightarrow> string list \<Rightarrow> bool" where
  "collected project req s res ds \<longleftrightarrow>
     ltObjects res = shown_objects project req s ds \<and> set (ltPrefixes res) = shown_prefixes project req ds \<and>
     distinct (ltPrefixes res)"

definition page_covers :: "string \<Rightarrow> list_request \<Rightarrow> int \<Rightarrow> 'h svc \<Rightarrow> list_result \<Rightarrow> string list \<Rightarrow> bool" where
  "page_covers project req limit s res ds \<longleftrightarrow>
     collected project req s res ds \<and> sorted (ltPrefixes res) \<and>
     int (length (ltObjects res) + length (ltPrefixes res)) \<le> limit"

definition scan_post ::
  "string \<Rightarrow> list_request \<Rightarrow> int \<Rightarrow> 'h svc \<Rightarrow> string list \<Rightarrow> string list
     \<Rightarrow> list_result + list_result \<times> string set \<Rightarrow> bool" where
  "scan_post project req limit s ds ks r =
     (case r of
        Inl res \<Rightarrow> \<exists>xs k ys. ks = xs @ k # ys \<and> page_covers project req limit s res (ds @ xs @ [k]) \<and>
          ltNextPageToken res = PageToken k
      | Inr (res, seen) \<Rightarrow> collected project req s res (ds @ ks) \<and> seen = set (ltPrefixes res) \<and>
          ltNextPageToken res = '''' \<and> int (length (ltObjects res) + length (ltPrefixes res)) < limit)"

lemma scan_post_Cons:
  "scan_post project req limit s (ds @ [k]) ks r \<Longrightarrow> scan_post project req limit s ds (k # ks) r"
proof (cases r)
  case (Inl res)
  assume "scan_post project req limit s (ds @ [k]) ks r"
  then obtain xs j ys where "ks = xs @ j # ys" "page_covers project req limit s res (ds @ (k # xs) @ [j])"
    "ltNextPageToken res = PageToken j" unfolding scan_post_def Inl by auto
  then have "k # ks = (k # xs) @ j # ys \<and> page_covers project req limit s res (ds @ (k # xs) @ [j]) \<and>
     ltNextPageToken res = PageToken j" by simp
  then show ?thesis unfolding scan_post_def Inl sum.case by blast
qed (auto simp: scan_post_def)

text \<open>The two ways on from an entry: the page is full, or the rest is read.\<close>

lemma page_full:
  assumes "collected project req s res (ds @ [k])" and "ltNextPageToken res = ''''"
    and "int (length (ltObjects res) + length (ltPrefixes res)) \<le> limit"
    and "int (length (ltObjects res) + length (ltPrefixes res)) < limit \<Longrightarrow>
      \<exists>r. cont = Ok r \<and> scan_post project req limit s (ds @ [k]) ks r"
  shows "\<exists>r. (if limit \<le> int (length (ltObjects res) + length (ltPrefixes res))
        then Ok (Inl (res\<lparr>ltNextPageToken := PageToken k, ltPrefixes := sort (ltPrefixes res)\<rparr>))
        else cont) = Ok r \<and> scan_post project req limit s ds (k # ks) r"
proof (cases "limit \<le> int (length (ltObjects res) + length (ltPrefixes res))")
  case True
  let ?r = "res\<lparr>ltNextPageToken := PageToken k, ltPrefixes := sort (ltPrefixes res)\<rparr>"
  have "page_covers project req limit s ?r (ds @ [] @ [k])"
    using assms(1,3) by (auto simp: page_covers_def collected_def)
  then have "scan_post project req limit s ds (k # ks) (Inl ?r)"
    unfolding scan_post_def sum.case by - (rule exI [of _ "[]"], rule exI [of _ k], rule exI [of _ ks], simp)
  with True show ?thesis by simp
qed (use assms(4) scan_post_Cons in fastforce)

lemma collected_snoc:
  assumes "collected project req s res ds"
  shows "roll project req k = Some r \<Longrightarrow> r \<in> set (ltPrefixes res) \<Longrightarrow> collected project req s res (ds @ [k])"
    and "roll project req k = Some r \<Longrightarrow> r \<notin> set (ltPrefixes res) \<Longrightarrow>
      collected project req s (res\<lparr>ltPrefixes := ltPrefixes res @ [r]\<rparr>) (ds @ [k])"
    and "roll project req k = None \<Longrightarrow> shown_at project req s k = [ob] \<Longrightarrow>
      collected project req s (res\<lparr>ltObjects := ltObjects res @ [ob]\<rparr>) (ds @ [k])"
    and "roll project req k = None \<Longrightarrow> shown_at project req s k = [] \<Longrightarrow> collected project req s res (ds @ [k])"
  using assms by (auto simp: collected_def shown_objects_def shown_prefixes_def)

lemma entries_scan:
  assumes "live_ok project (lrBucket req) s"
  shows "\<forall>k\<in>set ks. prefix (LivePrefix project (lrBucket req)) k \<and> memM (svKV s) k \<noteq> None \<Longrightarrow>
    collected project req s res ds \<Longrightarrow> ltNextPageToken res = '''' \<Longrightarrow>
    int (length (ltObjects res) + length (ltPrefixes res)) < limit \<Longrightarrow>
    \<exists>r. list_entries CtxLive project req limit s (map (kv_at (svKV s)) ks) res (set (ltPrefixes res)) = Ok r \<and>
      scan_post project req limit s ds ks r"
proof (induction ks arbitrary: res ds)
  case (Cons k ks)
  let ?next = "\<lambda>res1. list_entries CtxLive project req limit s (map (kv_at (svKV s)) ks) res1 (set (ltPrefixes res1))"
  have k: "prefix (LivePrefix project (lrBucket req)) k" "memM (svKV s) k \<noteq> None" using Cons.prems(1) by auto
  note name = live_key(2) [OF k(1)] and snoc = collected_snoc [OF Cons.prems(2)]
  have go: "\<exists>r. ?next res1 = Ok r \<and> scan_post project req limit s (ds @ [k]) ks r"
    if "collected project req s res1 (ds @ [k])" "ltNextPageToken res1 = ''''"
    "int (length (ltObjects res1) + length (ltPrefixes res1)) < limit" for res1
    using Cons.IH [of res1 "ds @ [k]"] that Cons.prems(1) by fastforce
  show ?case
  proof (cases "roll project req k")
    case (Some r)
    show ?thesis
    proof (cases "r \<in> set (ltPrefixes res)")
      case True
      from go [OF snoc(1) [OF Some this] Cons.prems(3,4)] True Some name scan_post_Cons
      show ?thesis by (auto simp: roll_def)
    next
      case False
      note c = snoc(2) [OF Some this]
      from page_full [OF c _ _ go [OF c]] Cons.prems(3,4) False Some name
      show ?thesis by (simp add: roll_def Let_def ac_simps cong: if_cong split del: if_split)
    qed
  next
    case None
    let ?ob = "objectFor CtxLive project (lrBucket req) (live_name project req k) (kvVal (kv_at (svKV s) k)) s"
    show ?thesis
    proof (cases ?ob)
      case (Ok ob)
      note c = snoc(3) [OF None, of ob]
      from page_full [OF c _ _ go [OF c]] Cons.prems(3,4) None Ok name
      show ?thesis by (simp add: roll_def Let_def shown_at_def ac_simps cong: if_cong split del: if_split)
    next
      case (Err e)
      with objectFor_cases [OF assms k] have "isNotFound e" by auto
      moreover have "shown_at project req s k = []" using Err by (simp add: shown_at_def)
      ultimately show ?thesis
        using go [OF snoc(4) [OF None] Cons.prems(3,4)] None Err name scan_post_Cons by (auto simp: roll_def)
    qed
  qed
qed (simp add: scan_post_def)

subsection \<open>The reads of a page\<close>

definition live_prefix :: "string \<Rightarrow> list_request \<Rightarrow> string" where
  "live_prefix project req = LivePrefix project (lrBucket req) @ lrPrefix req"

definition token_ok :: "string \<Rightarrow> list_request \<Rightarrow> string \<Rightarrow> bool" where
  "token_ok project req tok \<longleftrightarrow> tok = '''' \<or> (\<exists>a. tok = PageToken a \<and> prefix (live_prefix project req) a)"

text \<open>The live keys a listing has yet to read at a token.\<close>

definition unlisted :: "string \<Rightarrow> list_request \<Rightarrow> 'h svc \<Rightarrow> string \<Rightarrow> string list" where
  "unlisted project req s tok =
     list_keys (live_prefix project req)
       (if tok = '''' then None else case decodeToken tok of Ok a \<Rightarrow> Some a | Err _ \<Rightarrow> None) (svKV s)"

lemma live_prefix_nonempty [simp]: "live_prefix project req \<noteq> ''''"
  by (simp add: live_prefix_def LivePrefix_def)

lemma read_chunk:
  assumes "mem_wf (svKV s)" and "token_ok project req tok"
  shows "mem_List CtxLive (live_prefix project req) n tok (svKV s) =
    Ok (let ks = unlisted project req s tok
        in if 0 < n \<and> n < int (length ks) then (map (kv_at (svKV s)) (take (nat n) ks), PageToken (ks ! (nat n - 1)))
           else (map (kv_at (svKV s)) ks, ''''))"
  using assms(2) unfolding token_ok_def
proof
  assume "\<exists>a. tok = PageToken a \<and> prefix (live_prefix project req) a"
  then obtain a where a: "tok = encodeToken a" "prefix (live_prefix project req) a" by (auto simp: PageToken_def)
  then have "a \<noteq> ''''" using live_prefix_nonempty by (metis prefix_bot.extremum_uniqueI)
  with a show ?thesis by (simp add: mem_List_after [OF assms(1)] unlisted_def list_spec_def PageToken_def Let_def)
qed (simp add: mem_List_first [OF assms(1)] unlisted_def list_spec_def PageToken_def Let_def)

lemma unlisted_key:
  assumes "mem_wf (svKV s)" and "k \<in> set (unlisted project req s tok)"
  shows "prefix (live_prefix project req) k" and "prefix (LivePrefix project (lrBucket req)) k"
    and "memM (svKV s) k \<noteq> None" and "token_ok project req (PageToken k)" and "PageToken k \<noteq> ''''"
proof -
  show k: "prefix (live_prefix project req) k" using assms(2) by (auto simp: unlisted_def list_keys_def)
  then show "prefix (LivePrefix project (lrBucket req)) k" by (auto simp: live_prefix_def prefix_def)
  show "memM (svKV s) k \<noteq> None" using assms mem_wfD(4) [OF assms(1)] by (auto simp: unlisted_def list_keys_def)
  show "token_ok project req (PageToken k)" using k by (auto simp: token_ok_def)
  show "PageToken k \<noteq> ''''" using k live_prefix_nonempty by (metis PageToken_def encodeToken_eq_Nil prefix_bot.extremum_uniqueI)
qed

lemma unlisted_after:
  assumes "mem_wf (svKV s)" and "unlisted project req s tok = xs @ k # ys"
  shows "unlisted project req s (PageToken k) = ys"
proof -
  have "k \<in> set (unlisted project req s tok)" using assms(2) by simp
  then have "PageToken k \<noteq> ''''" using unlisted_key(5) [OF assms(1)] by blast
  moreover from list_keys_after [OF assms(1), of "length xs" "live_prefix project req"]
  have "list_keys (live_prefix project req) (Some k) (svKV s) = ys"
    using assms(2) unfolding unlisted_def by (metis append_eq_conv_conj drop_Suc list.sel(3) length_append
      length_Cons less_add_Suc1 add_Suc_right nth_append_length tl_drop)
  ultimately show ?thesis by (simp add: unlisted_def PageToken_def)
qed

definition page_post :: "string \<Rightarrow> list_request \<Rightarrow> int \<Rightarrow> 'h svc \<Rightarrow> string list \<Rightarrow> string list \<Rightarrow> list_result \<Rightarrow> bool" where
  "page_post project req limit s ds ks r \<longleftrightarrow>
     ltNextPageToken r = '''' \<and> page_covers project req limit s r (ds @ ks) \<or>
     (\<exists>xs k ys. ks = xs @ k # ys \<and> page_covers project req limit s r (ds @ xs @ [k]) \<and> ltNextPageToken r = PageToken k)"

lemma page_post_later:
  assumes "page_post project req limit s (ds @ zs) ks r"
  shows "page_post project req limit s ds (zs @ ks) r"
  using assms unfolding page_post_def
proof
  assume "\<exists>xs k ys. ks = xs @ k # ys \<and> page_covers project req limit s r ((ds @ zs) @ xs @ [k]) \<and> ltNextPageToken r = PageToken k"
  then obtain xs k ys where "zs @ ks = (zs @ xs) @ k # ys" "page_covers project req limit s r (ds @ (zs @ xs) @ [k])"
    "ltNextPageToken r = PageToken k" by auto
  then show "ltNextPageToken r = '''' \<and> page_covers project req limit s r (ds @ zs @ ks) \<or>
     (\<exists>xs k ys. zs @ ks = xs @ k # ys \<and> page_covers project req limit s r (ds @ xs @ [k]) \<and> ltNextPageToken r = PageToken k)"
    by blast
qed simp

text \<open>Reading in chunks makes no difference: the page is the one a single read would give.\<close>

lemma chunks_page:
  assumes wf: "mem_wf (svKV s)" and ok: "live_ok project (lrBucket req) s"
  shows "token_ok project req tok \<Longrightarrow> length (unlisted project req s tok) < fuel \<Longrightarrow>
    collected project req s res ds \<Longrightarrow> ltNextPageToken res = '''' \<Longrightarrow>
    int (length (ltObjects res) + length (ltPrefixes res)) < limit \<Longrightarrow>
    \<exists>r. list_chunks fuel CtxLive project req limit s tok res (set (ltPrefixes res)) = Some (Ok r) \<and>
      page_post project req limit s ds (unlisted project req s tok) r"
proof (induction fuel arbitrary: tok res ds)
  case (Suc fuel)
  let ?ks = "unlisted project req s tok"
  define n where "n = (if 512 < length ?ks then 512 else length ?ks)"
  define nxt where "nxt = (if 512 < length ?ks then PageToken (?ks ! 511) else '''')"
  have rd: "mem_List CtxLive (LivePrefix project (lrBucket req) @ lrPrefix req) scanChunk tok (svKV s) =
      Ok (map (kv_at (svKV s)) (take n ?ks), nxt)"
    using read_chunk [OF wf Suc.prems(1)] by (simp add: live_prefix_def n_def nxt_def scanChunk_def Let_def)
  have keys: "\<forall>k\<in>set (take n ?ks). prefix (LivePrefix project (lrBucket req)) k \<and> memM (svKV s) k \<noteq> None"
    using unlisted_key(2,3) [OF wf] in_set_takeD by metis
  obtain r where r: "list_entries CtxLive project req limit s (map (kv_at (svKV s)) (take n ?ks)) res (set (ltPrefixes res)) = Ok r"
    and post: "scan_post project req limit s ds (take n ?ks) r"
    using entries_scan [OF ok keys Suc.prems(3-5)] by blast
  show ?case
  proof (cases r)
    case (Inl p)
    then obtain xs k ys where xs: "take n ?ks = xs @ k # ys" "page_covers project req limit s p (ds @ xs @ [k])"
      "ltNextPageToken p = PageToken k" using post by (auto simp: scan_post_def)
    have "?ks = xs @ k # (ys @ drop n ?ks)" using xs(1) append_take_drop_id [of n ?ks] by (metis append.assoc append_Cons)
    with xs(2,3) rd r Inl show ?thesis by (auto simp: page_post_def)
  next
    case (Inr q)
    then obtain p where q: "q = (p, set (ltPrefixes p))" and p: "collected project req s p (ds @ take n ?ks)"
      "ltNextPageToken p = ''''" "int (length (ltObjects p) + length (ltPrefixes p)) < limit"
      using post by (cases q) (auto simp: scan_post_def)
    show ?thesis
    proof (cases "512 < length ?ks")
      case False
      then have "page_post project req limit s ds ?ks (p\<lparr>ltPrefixes := sort (ltPrefixes p)\<rparr>)"
        using p by (auto simp: page_post_def page_covers_def collected_def n_def)
      with False rd r Inr q show ?thesis by (simp add: nxt_def)
    next
      case True
      let ?k = "?ks ! 511"
      have s: "?ks = take 511 ?ks @ ?k # drop n ?ks" using id_take_nth_drop [of 511 ?ks] True by (simp add: n_def)
      have k: "token_ok project req nxt" "nxt \<noteq> ''''"
        using unlisted_key(4,5) [OF wf nth_mem, of 511 project req tok] True by (auto simp: nxt_def)
      have rest: "unlisted project req s nxt = drop n ?ks"
        using unlisted_after [OF wf s] True by (simp add: nxt_def)
      have "length (drop n ?ks) < fuel" using Suc.prems(2) True by (simp add: n_def)
      then obtain r' where "list_chunks fuel CtxLive project req limit s nxt p (set (ltPrefixes p)) = Some (Ok r')"
        "page_post project req limit s (ds @ take n ?ks) (drop n ?ks) r'"
        using Suc.IH [OF k(1) _ p] rest by auto
      moreover from this(2) have "page_post project req limit s ds ?ks r'" using page_post_later by fastforce
      ultimately show ?thesis using rd r Inr q k(2) by simp
    qed
  qed
qed simp

subsection \<open>Pages of a bucket\<close>

definition page_limit :: "list_request \<Rightarrow> int" where
  "page_limit req = (if lrMaxResults req \<le> 0 then DefaultMaxResults else lrMaxResults req)"

definition object_page :: "string \<Rightarrow> list_request \<Rightarrow> 'h svc \<Rightarrow> string \<Rightarrow> (list_result \<times> string) option" where
  "object_page project req s tok =
     (case ListObjects (Suc (length (memKeys (svKV s)))) CtxLive project (req\<lparr>lrPageToken := tok\<rparr>) s of
        Some (Ok r) \<Rightarrow> Some (r, ltNextPageToken r)
      | _ \<Rightarrow> None)"

definition listable :: "string \<Rightarrow> list_request \<Rightarrow> 'h svc \<Rightarrow> bool" where
  "listable project req s \<longleftrightarrow>
     mem_wf (svKV s) \<and> live_ok project (lrBucket req) s \<and> (\<exists>b. bucket_of CtxLive project (lrBucket req) s = Ok b)"

lemma at_token [simp]:
  "roll project (req\<lparr>lrPageToken := tok\<rparr>) = roll project req"
  "shown_objects project (req\<lparr>lrPageToken := tok\<rparr>) s = shown_objects project req s"
  "shown_prefixes project (req\<lparr>lrPageToken := tok\<rparr>) = shown_prefixes project req"
  "page_covers project (req\<lparr>lrPageToken := tok\<rparr>) limit s = page_covers project req limit s"
  "unlisted project (req\<lparr>lrPageToken := tok\<rparr>) s = unlisted project req s"
  "token_ok project (req\<lparr>lrPageToken := tok\<rparr>) = token_ok project req"
  by (simp_all add: fun_eq_iff roll_def live_name_def shown_objects_def shown_at_def shown_prefixes_def page_covers_def collected_def
      unlisted_def live_prefix_def token_ok_def cong: if_cong)

lemma page_post_at_token [simp]: "page_post project (req\<lparr>lrPageToken := tok\<rparr>) = page_post project req"
  by (simp add: fun_eq_iff page_post_def)

lemma unlisted_length: "length (unlisted project req s tok) \<le> length (memKeys (svKV s))"
  by (simp add: unlisted_def list_keys_def)

lemma object_page_step:
  assumes "listable project req s" and "token_ok project req tok"
  shows "\<exists>r. object_page project req s tok = Some (r, ltNextPageToken r) \<and>
    page_post project req (page_limit req) s [] (unlisted project req s tok) r"
proof -
  let ?req = "req\<lparr>lrPageToken := tok\<rparr>"
  obtain b where b: "bucket_of CtxLive project (lrBucket req) s = Ok b" using assms(1) by (auto simp: listable_def)
  have l: "0 < page_limit req" by (simp add: page_limit_def DefaultMaxResults_def)
  have "\<exists>r. list_chunks (Suc (length (memKeys (svKV s)))) CtxLive project ?req (page_limit req) s tok noResults
      (set (ltPrefixes noResults)) = Some (Ok r) \<and> page_post project ?req (page_limit req) s [] (unlisted project ?req s tok) r"
    using assms unlisted_length [of project req s tok] l
    by (intro chunks_page) (auto simp: listable_def noResults_def collected_def less_Suc_eq_le)
  then show ?thesis using b
    by (auto simp: object_page_def ListObjects_def page_limit_def noResults_def split: if_splits)
qed

interpretation live: pager "object_page project req s" "\<lambda>tok. listable project req s \<and> token_ok project req tok"
    "unlisted project req s" "page_covers project req (page_limit req) s" for project req s
proof (unfold_locales, elim conjE)
  fix tok assume ok: "listable project req s" "token_ok project req tok"
  have wf: "mem_wf (svKV s)" using ok(1) by (simp add: listable_def)
  obtain r where r: "object_page project req s tok = Some (r, ltNextPageToken r)"
    and post: "page_post project req (page_limit req) s [] (unlisted project req s tok) r"
    using object_page_step [OF ok] by blast
  let ?nxt = "ltNextPageToken r" and ?covers = "page_covers project req (page_limit req) s r" and ?ks = "unlisted project req s"
  have "\<exists>ds. ?covers ds \<and> (?nxt = '''' \<and> ?ks tok = ds \<or>
      ?nxt \<noteq> '''' \<and> token_ok project req ?nxt \<and> ds \<noteq> [] \<and> ?ks tok = ds @ ?ks ?nxt)"
    using post unfolding page_post_def
  proof
    assume "\<exists>xs k ys. ?ks tok = xs @ k # ys \<and> ?covers ([] @ xs @ [k]) \<and> ?nxt = PageToken k"
    then obtain xs k ys where x: "?ks tok = xs @ k # ys" "?covers (xs @ [k])" "?nxt = PageToken k" by auto
    have "token_ok project req (PageToken k)" "PageToken k \<noteq> ''''"
      using unlisted_key(4,5) [OF wf, of k project req tok] x(1) by auto
    with x unlisted_after [OF wf x(1)] show ?thesis by (intro exI [of _ "xs @ [k]"]) simp
  qed auto
  with r ok show "\<exists>p nxt ds. object_page project req s tok = Some (p, nxt) \<and> page_covers project req (page_limit req) s p ds \<and>
      (nxt = '''' \<and> ?ks tok = ds \<or>
       nxt \<noteq> '''' \<and> (listable project req s \<and> token_ok project req nxt) \<and> ds \<noteq> [] \<and> ?ks tok = ds @ ?ks nxt)"
    by blast
qed

subsection \<open>Every listing answers\<close>

lemma token_canonical:
  "(\<exists>e. mem_List CtxLive (live_prefix project req) n tok m = Err e) \<or>
   (\<exists>tok'. token_ok project req tok' \<and>
      mem_List CtxLive (live_prefix project req) n tok m = mem_List CtxLive (live_prefix project req) n tok' m)"
proof (cases "tok = ''''")
  case False
  show ?thesis
  proof (cases "decodeToken tok")
    case (Ok a)
    show ?thesis
    proof (cases "prefix (live_prefix project req) a")
      case True
      then have "a \<noteq> ''''" using live_prefix_nonempty by (metis prefix_bot.extremum_uniqueI)
      then have "mem_List CtxLive (live_prefix project req) n tok m = mem_List CtxLive (live_prefix project req) n (PageToken a) m"
        using False Ok True by (simp add: mem_List_def PageToken_def)
      with True show ?thesis by (auto simp: token_ok_def)
    qed (use False Ok in \<open>simp add: mem_List_def\<close>)
  qed (use False in \<open>simp add: mem_List_def\<close>)
qed (auto simp: token_ok_def)

lemma chunks_total:
  assumes wf: "mem_wf (svKV s)"
  shows "token_ok project req tok \<Longrightarrow> length (unlisted project req s tok) < fuel \<Longrightarrow>
    list_chunks fuel CtxLive project req limit s tok res seen \<noteq> None"
proof (induction fuel arbitrary: tok res seen)
  case (Suc fuel)
  let ?ks = "unlisted project req s tok"
  have rd: "mem_List CtxLive (LivePrefix project (lrBucket req) @ lrPrefix req) scanChunk tok (svKV s) =
      Ok (if 512 < length ?ks then (map (kv_at (svKV s)) (take 512 ?ks), PageToken (?ks ! 511))
          else (map (kv_at (svKV s)) ?ks, ''''))"
    using read_chunk [OF wf Suc.prems(1)] by (simp add: live_prefix_def scanChunk_def Let_def)
  show ?case
  proof (cases "512 < length ?ks")
    case True
    have s: "?ks = take 511 ?ks @ ?ks ! 511 # drop 512 ?ks" using id_take_nth_drop [of 511 ?ks] True by simp
    have "token_ok project req (PageToken (?ks ! 511))" using unlisted_key(4) [OF wf nth_mem, of 511 project req tok] True by simp
    moreover have "length (unlisted project req s (PageToken (?ks ! 511))) < fuel"
      using unlisted_after [OF wf s] Suc.prems(2) True by simp
    ultimately have "list_chunks fuel CtxLive project req limit s (PageToken (?ks ! 511)) res1 seen1 \<noteq> None" for res1 seen1
      by (rule Suc.IH)
    with rd True show ?thesis by (auto split: result.splits sum.splits)
  qed (use rd in \<open>auto split: result.splits sum.splits\<close>)
qed simp

subsection \<open>A concrete bucket\<close>

text \<open>Two objects under \<open>a/\<close> and one at the top.\<close>

definition demo_object :: "string \<Rightarrow> object" where
  "demo_object nm = zeroObject\<lparr>obBucket := ''bkt'', obName := nm, obGeneration := 7\<rparr>"

definition demo_entries :: "(string \<times> sval) list" where
  "demo_entries =
     (Bucket ''prj'' ''bkt'', SBucket demo_bucket) #
     concat (map (\<lambda>nm. [(Live ''prj'' ''bkt'' nm, SLive \<lparr>lpGeneration = 7, lpHighest = 7\<rparr>),
                        (Object ''prj'' ''bkt'' nm 7, SObject (demo_object nm))]) [''a/1'', ''a/2'', ''b''])"

definition demo_listing :: "unit svc" where
  "demo_listing = \<lparr>svKV = mem_Restore (map (\<lambda>(k, v). \<lparr>kvKey = k, kvVal = v, kvVersion = 1\<rparr>) demo_entries),
     svBlobs = New_blobs ''r'', svNow = 0, svBus = None\<rparr>"

definition demo_request :: list_request where
  "demo_request = \<lparr>lrBucket = ''bkt'', lrPrefix = '''', lrDelimiter = ''/'', lrMaxResults = 1, lrPageToken = ''''\<rparr>"

lemma demo_kv_keys:
  "Live ''prj'' ''bkt'' nm \<noteq> Bucket ''prj'' ''bkt''" "Object ''prj'' ''bkt'' nm g \<noteq> Bucket ''prj'' ''bkt''"
  "Live ''prj'' ''bkt'' nm \<noteq> Object ''prj'' ''bkt'' nm' g"
  "Live ''prj'' ''bkt'' nm = Live ''prj'' ''bkt'' nm' \<longleftrightarrow> nm = nm'"
  "Object ''prj'' ''bkt'' nm 7 = Object ''prj'' ''bkt'' nm' 7 \<longleftrightarrow> nm = nm'"
  by (simp_all add: key_defs)

lemma demo_listable: "listable ''prj'' demo_request demo_listing"
  unfolding listable_def
proof (intro conjI)
  note kv = demo_listing_def demo_entries_def demo_kv_keys demo_kv_keys(1-3) [symmetric]
  show "mem_wf (svKV demo_listing)" by (simp add: kv mem_Restore_wf)
  have at: "(k, entVal e) \<in> set demo_entries" if "memM (svKV demo_listing) k = Some e" for k e
    using that by (auto simp: demo_listing_def mem_Restore_def dest!: restore_map_SomeD)
  have live: "v = SLive \<lparr>lpGeneration = 7, lpHighest = 7\<rparr>" if "(Live ''prj'' ''bkt'' nm, v) \<in> set demo_entries" for nm v
    using that by (auto simp: demo_entries_def demo_kv_keys)
  have obj: "\<exists>ob. v = SObject ob" if "(Object ''prj'' ''bkt'' nm g, v) \<in> set demo_entries" for nm g v
    using that by (auto simp: demo_entries_def demo_kv_keys demo_kv_keys(1-3) [symmetric])
  show "live_ok ''prj'' (lrBucket demo_request) demo_listing"
    unfolding live_ok_def demo_request_def using live [OF at] obj [OF at] by (metis list_request.select_convs(1))
  show "\<exists>b. bucket_of CtxLive ''prj'' (lrBucket demo_request) demo_listing = Ok b"
    by (simp add: bucket_of_def kvGet_def mem_Get_def mem_Restore_def restore_map_def kv demo_request_def)
qed

lemma demo_unlisted: "unlisted ''prj'' demo_request demo_listing '''' = map (Live ''prj'' ''bkt'') [''a/1'', ''a/2'', ''b'']"
proof (rule strict_sorted_equal)
  note wf = demo_listable [unfolded listable_def, THEN conjunct1]
  show "sorted_wrt (<) (unlisted ''prj'' demo_request demo_listing '''')" by (simp add: unlisted_def list_keys_sorted [OF wf])
  show "sorted_wrt (<) (map (Live ''prj'' ''bkt'') [''a/1'', ''a/2'', ''b''])" by (simp add: Live_def Bucket_def less_char_def)
  have "memM (svKV demo_listing) k \<noteq> None \<longleftrightarrow> k \<in> fst ` set demo_entries" for k
    using dom_restore_map [of "map (\<lambda>(k, v). \<lparr>kvKey = k, kvVal = v, kvVersion = 1\<rparr>) demo_entries"]
    by (force simp: demo_listing_def mem_Restore_def dom_def set_eq_iff)
  then have "set (unlisted ''prj'' demo_request demo_listing '''') =
      {k \<in> fst ` set demo_entries. prefix (LivePrefix ''prj'' ''bkt'') k}"
    by (simp add: set_eq_iff unlisted_def listed_key [OF wf] live_prefix_def demo_request_def conj_commute del: not_None_eq)
  moreover have "prefix (LivePrefix ''prj'' ''bkt'') (Live ''prj'' ''bkt'' nm)"
    "\<not> prefix (LivePrefix ''prj'' ''bkt'') (Object ''prj'' ''bkt'' nm g)"
    "\<not> prefix (LivePrefix ''prj'' ''bkt'') (Bucket ''prj'' ''bkt'')" for nm g
    by (simp_all add: key_defs)
  ultimately show "set (unlisted ''prj'' demo_request demo_listing '''') = set (map (Live ''prj'' ''bkt'') [''a/1'', ''a/2'', ''b''])"
    by (auto simp: demo_entries_def)
qed

subsection \<open>Properties\<close>

text \<open>
  C13: a client that follows the page tokens of a listing comes to an end and has then seen every live
  object under the prefix exactly once, in the order of names, and every rollup; each page is within
  the limit, which counts objects and rollups together, with its rollups sorted and distinct.
\<close>

theorem object_pages_complete:
  assumes "listable project req s"
  shows "\<exists>pages. follow (object_page project req s) (Suc (length (memKeys (svKV s)))) '''' = Some pages \<and>
    concat (map ltObjects pages) = shown_objects project req s (unlisted project req s '''') \<and>
    (\<Union>p\<in>set pages. set (ltPrefixes p)) = shown_prefixes project req (unlisted project req s '''') \<and>
    (\<forall>p\<in>set pages. int (length (ltObjects p) + length (ltPrefixes p)) \<le> page_limit req \<and>
       sorted (ltPrefixes p) \<and> distinct (ltPrefixes p))"
proof -
  obtain ps dss where ps: "follow (object_page project req s) (Suc (length (memKeys (svKV s)))) '''' = Some ps"
    "concat dss = unlisted project req s ''''" and all: "list_all2 (page_covers project req (page_limit req) s) ps dss"
    using live.follow_covers [of project req s "''''" "Suc (length (memKeys (svKV s)))"] assms unlisted_length [of project req s "''''"]
    by (auto simp: token_ok_def less_Suc_eq_le)
  from all have "map ltObjects ps = map (shown_objects project req s) dss \<and>
      (\<Union>p\<in>set ps. set (ltPrefixes p)) = (\<Union>ds\<in>set dss. shown_prefixes project req ds) \<and>
      (\<forall>p\<in>set ps. int (length (ltObjects p) + length (ltPrefixes p)) \<le> page_limit req \<and>
         sorted (ltPrefixes p) \<and> distinct (ltPrefixes p))"
    by (induction rule: list_all2_induct) (auto simp: page_covers_def collected_def)
  with ps show ?thesis by (auto simp: shown_concat simp flip: ps(2))
qed

theorem object_pages_complete_witness:
  "\<exists>pages. follow (object_page ''prj'' demo_request demo_listing) (Suc (length (memKeys (svKV demo_listing)))) '''' = Some pages \<and>
     ''a/'' \<in> (\<Union>p\<in>set pages. set (ltPrefixes p)) \<and> demo_object ''b'' \<in> set (concat (map ltObjects pages))"
proof -
  let ?ks = "unlisted ''prj'' demo_request demo_listing ''''"
  note kv = demo_listing_def demo_entries_def demo_kv_keys demo_kv_keys(1-3) [symmetric]
  have ks: "Live ''prj'' ''bkt'' ''a/1'' \<in> set ?ks" "Live ''prj'' ''bkt'' ''b'' \<in> set ?ks"
    by (simp_all add: demo_unlisted)
  have a: "''a/'' \<in> shown_prefixes ''prj'' demo_request ?ks"
    unfolding shown_prefixes_def mem_Collect_eq
    by (rule bexI [OF _ ks(1)])
      (simp add: roll_def live_name_def Live_def LivePrefix_def demo_request_def rollupOf_def Let_def trimPrefix_def)
  have "shown_at ''prj'' demo_request demo_listing (Live ''prj'' ''bkt'' ''b'') = [demo_object ''b'']"
  proof -
    have n: "live_name ''prj'' demo_request (Live ''prj'' ''bkt'' ''b'') = ''b''" "lrBucket demo_request = ''bkt''"
      by (simp_all add: live_name_def Live_def LivePrefix_def demo_request_def)
    show ?thesis
      by (simp add: shown_at_def objectFor_def n readGeneration_def readGenerationVersion_def kvGet_def mem_Get_def
        kv_at_def mem_Restore_def restore_map_def kv del: sort_key_simps)
  qed
  moreover have "roll ''prj'' demo_request (Live ''prj'' ''bkt'' ''b'') = None"
    by (simp add: roll_def live_name_def Live_def LivePrefix_def demo_request_def rollupOf_def Let_def trimPrefix_def)
  ultimately have "demo_object ''b'' \<in> set (shown_objects ''prj'' demo_request demo_listing ?ks)"
    by (simp add: demo_unlisted shown_objects_def)
  with a object_pages_complete [OF demo_listable] show ?thesis by metis
qed

text \<open>
  A listing always answers, with a page or an error, whatever token the client sends: one turn of
  the read loop for every key of the store is enough.
\<close>

theorem listing_always_answers:
  assumes "mem_wf (svKV s)"
  shows "ListObjects (Suc (length (memKeys (svKV s)))) cx project req s \<noteq> None"
proof (cases "cx = CtxLive")
  case True
  let ?n = "length (memKeys (svKV s))"
  have "list_chunks (Suc ?n) CtxLive project req limit s tok res seen \<noteq> None" for limit tok res seen
  proof (cases "\<exists>e. mem_List CtxLive (live_prefix project req) scanChunk tok (svKV s) = Err e")
    case False
    then obtain tok' where t: "token_ok project req tok'"
      "mem_List CtxLive (live_prefix project req) scanChunk tok (svKV s) = mem_List CtxLive (live_prefix project req) scanChunk tok' (svKV s)"
      using token_canonical by blast
    then have "list_chunks (Suc ?n) CtxLive project req limit s tok res seen = list_chunks (Suc ?n) CtxLive project req limit s tok' res seen"
      by (simp add: live_prefix_def)
    moreover have "list_chunks (Suc ?n) CtxLive project req limit s tok' res seen \<noteq> None"
      by (rule chunks_total [OF assms t(1)]) (simp add: less_Suc_eq_le unlisted_length)
    ultimately show ?thesis by metis
  qed (auto simp: live_prefix_def)
  with True show ?thesis by (auto simp: ListObjects_def Let_def split: result.splits simp del: list_chunks.simps)
qed (simp add: ListObjects_def mem_List_def Let_def split: result.splits)

theorem listing_always_answers_witness:
  "mem_wf (svKV demo_listing) \<and>
   ListObjects (Suc (length (memKeys (svKV demo_listing)))) CtxLive ''prj'' (demo_request\<lparr>lrPageToken := ''?''\<rparr>) demo_listing \<noteq> None"
  using demo_listable listing_always_answers [of demo_listing] by (simp add: listable_def)

text \<open>
  A page that stops at a rollup does not skip the rest of it: when the next live key rolls up to
  the same prefix, the next page reports that prefix again, so a client that collects the rollups of
  all pages gets it more than once.
\<close>

theorem rollup_reported_again:
  assumes "listable project req s" and "token_ok project req tok"
    and "object_page project req s tok = Some (r, PageToken k)"
    and "unlisted project req s tok = xs @ k # k2 # ys"
    and "roll project req k = Some p" and "roll project req k2 = Some p"
  shows "p \<in> set (ltPrefixes r) \<and>
    (\<exists>r2 nxt. object_page project req s (PageToken k) = Some (r2, nxt) \<and> p \<in> set (ltPrefixes r2))"
proof -
  have wf: "mem_wf (svKV s)" using assms(1) by (simp add: listable_def)
  have tok: "token_ok project req (PageToken k)" "PageToken k \<noteq> ''''"
    using unlisted_key(4,5) [OF wf, of k project req tok] assms(4) by auto
  have rest: "unlisted project req s (PageToken k) = k2 # ys" by (rule unlisted_after [OF wf assms(4)])
  obtain ds where ds: "page_covers project req (page_limit req) s r ds" "unlisted project req s tok = ds @ k2 # ys"
    using live.page_step [of project req s tok] assms(1-3) tok rest by auto
  have "ds @ k2 # ys = (xs @ [k]) @ k2 # ys" using ds(2) assms(4) by simp
  then have "k \<in> set ds" by (simp only: append_same_eq) simp
  then have "p \<in> set (ltPrefixes r)" using ds(1) assms(5) by (auto simp: page_covers_def collected_def shown_prefixes_def)
  moreover obtain r2 nxt ds2 where r2: "object_page project req s (PageToken k) = Some (r2, nxt)"
    "page_covers project req (page_limit req) s r2 ds2" "k2 \<in> set ds2"
    using live.page_step [of project req s "PageToken k"] assms(1) tok(1) rest by (auto simp: Cons_eq_append_conv)
  ultimately show ?thesis using assms(6) by (auto simp: page_covers_def collected_def shown_prefixes_def)
qed

lemma demo_roll:
  "roll ''prj'' demo_request (Live ''prj'' ''bkt'' ''a/1'') = Some ''a/''"
  "roll ''prj'' demo_request (Live ''prj'' ''bkt'' ''a/2'') = Some ''a/''"
  by (simp_all add: roll_def live_name_def Live_def LivePrefix_def demo_request_def rollupOf_def Let_def trimPrefix_def)

theorem rollup_reported_again_witness:
  "\<exists>r r2 nxt. object_page ''prj'' demo_request demo_listing '''' = Some (r, PageToken (Live ''prj'' ''bkt'' ''a/1'')) \<and>
     ''a/'' \<in> set (ltPrefixes r) \<and>
     object_page ''prj'' demo_request demo_listing (PageToken (Live ''prj'' ''bkt'' ''a/1'')) = Some (r2, nxt) \<and>
     ''a/'' \<in> set (ltPrefixes r2)"
proof -
  let ?k = "Live ''prj'' ''bkt'' ''a/1''" and ?k2 = "Live ''prj'' ''bkt'' ''a/2''"
  have u: "unlisted ''prj'' demo_request demo_listing '''' = [] @ ?k # ?k2 # [Live ''prj'' ''bkt'' ''b'']"
    by (simp add: demo_unlisted)
  obtain b where b: "bucket_of CtxLive ''prj'' (lrBucket demo_request) demo_listing = Ok b"
    using demo_listable by (auto simp: listable_def)
  have wf: "mem_wf (svKV demo_listing)" using demo_listable by (simp add: listable_def)
  have p: "ObjectName ''prj'' (lrBucket demo_request) ?k = Ok ''a/1''" "rollupOf ''a/1'' '''' (lrDelimiter demo_request) = Some ''a/''"
    "lrPrefix demo_request = ''''" "lrMaxResults demo_request = 1"
    by (simp_all add: demo_request_def ObjectName_Live rollupOf_def Let_def trimPrefix_def)
  have rd: "mem_List CtxLive (LivePrefix ''prj'' (lrBucket demo_request)) scanChunk '''' (svKV demo_listing) =
      Ok (map (kv_at (svKV demo_listing)) (map (Live ''prj'' ''bkt'') [''a/1'', ''a/2'', ''b'']), '''')"
    using read_chunk [OF wf, of "''prj''" demo_request "''''" scanChunk]
    by (simp add: demo_unlisted live_prefix_def p scanChunk_def token_ok_def)
  have "\<exists>r. object_page ''prj'' demo_request demo_listing '''' = Some (r, PageToken ?k)"
    by (simp add: object_page_def ListObjects_def b rd p noResults_def)
  then obtain r where r: "object_page ''prj'' demo_request demo_listing '''' = Some (r, PageToken ?k)" by blast
  from rollup_reported_again [OF demo_listable _ r u demo_roll] r show ?thesis by (auto simp: token_ok_def)
qed

end
