(* ===== verification/Storage_Api.thy ===== *)
theory Storage_Api
  imports Storage_Upload Storage_List
begin

text \<open>
  The Cloud Storage JSON API (\<open>services/storage/api.go\<close>, \<open>signed.go\<close> and the handlers of \<open>iam.go\<close>): one
  handler per route over the operations of the service, the table of routes, and uploads.  A handler
  returns its response or the error the router writes.
\<close>

subsection \<open>Handlers of buckets\<close>

record 'h api_cfg =
  acHashes :: hashes
  acEnv :: "nat \<Rightarrow> 'h svc \<Rightarrow> 'h svc"
  acCodecs :: codecs
  acSessions :: bool

type_synonym 'h reply = "(goerr, response) result \<times> 'h uploads"

text \<open>The lookup nearly every handler starts with.\<close>

definition onProject :: "ctx \<Rightarrow> string \<Rightarrow> 'h uploads \<Rightarrow> (string \<Rightarrow> 'h reply) \<Rightarrow> 'h reply" where
  "onProject cx bucket u k = (case ProjectOf cx bucket (upSvc u) of Err e \<Rightarrow> (Err e, u) | Ok project \<Rightarrow> k project)"

definition orFail :: "(goerr, 'a) result \<Rightarrow> 'h uploads \<Rightarrow> ('a \<Rightarrow> 'h reply) \<Rightarrow> 'h reply" where
  "orFail r u k = (case r of Err e \<Rightarrow> (Err e, u) | Ok x \<Rightarrow> k x)"

definition answer :: "(goerr, 'a) result \<times> 'h svc \<Rightarrow> 'h uploads \<Rightarrow> ('a \<Rightarrow> response) \<Rightarrow> 'h reply" where
  "answer rs u f = (case rs of (Err e, s) \<Rightarrow> (Err e, u\<lparr>upSvc := s\<rparr>) | (Ok x, s) \<Rightarrow> (Ok (f x), u\<lparr>upSvc := s\<rparr>))"

definition createBucket :: "'h api_cfg \<Rightarrow> ctx \<Rightarrow> request \<Rightarrow> params \<Rightarrow> 'h uploads \<Rightarrow> 'h reply" where
  "createBucket cfg cx r p u =
     (let project = qget r ''project''
      in if project = '''' then (Err (requiredParam ''project''), u)
         else orFail (decodeJSON noBucketRequest (cdBucket (acCodecs cfg) (rqBody r))) u (\<lambda>body.
           answer (CreateBucket cx \<lparr>bkName = brName body, bkProject = project, bkLocation = brLocation body,
               bkStorageClass = brStorageClass body,
               bkVersioning = (case brVersioning body of None \<Rightarrow> False | Some enabled \<Rightarrow> enabled),
               bkMetageneration = 0, bkCreated = 0, bkUpdated = 0\<rparr> (upSvc u)) u
             (\<lambda>b. writeJSON 200 (BBucket (toAPIBucket b (rqBase r))))))"

definition listBuckets :: "'h api_cfg \<Rightarrow> ctx \<Rightarrow> request \<Rightarrow> params \<Rightarrow> 'h uploads \<Rightarrow> 'h reply" where
  "listBuckets cfg cx r p u =
     (let project = qget r ''project''
      in if project = '''' then (Err (requiredParam ''project''), u)
         else orFail (ListBuckets cx project (upSvc u)) u (\<lambda>buckets.
           (Ok (writeJSON 200 (BBuckets (map (\<lambda>b. toAPIBucket b (rqBase r)) buckets))), u)))"

definition getBucket :: "'h api_cfg \<Rightarrow> ctx \<Rightarrow> request \<Rightarrow> params \<Rightarrow> 'h uploads \<Rightarrow> 'h reply" where
  "getBucket cfg cx r p u =
     onProject cx (param p ''bucket'') u (\<lambda>project.
       orFail (GetBucket cx project (param p ''bucket'') (upSvc u)) u (\<lambda>b.
         (Ok (writeJSON 200 (BBucket (toAPIBucket b (rqBase r)))), u)))"

definition patchBucket :: "'h api_cfg \<Rightarrow> ctx \<Rightarrow> request \<Rightarrow> params \<Rightarrow> 'h uploads \<Rightarrow> 'h reply" where
  "patchBucket cfg cx r p u =
     onProject cx (param p ''bucket'') u (\<lambda>project.
       orFail (decodeJSON noBucketRequest (cdBucket (acCodecs cfg) (rqBody r))) u (\<lambda>body.
         orFail (preconditionsOf r) u (\<lambda>pre.
           answer (UpdateBucket cx project (param p ''bucket'')
               \<lparr>bpStorageClass = brStorageClass body, bpVersioning = brVersioning body, bpPreconditions = pre\<rparr> (upSvc u)) u
             (\<lambda>b. writeJSON 200 (BBucket (toAPIBucket b (rqBase r)))))))"

definition deleteBucket :: "'h api_cfg \<Rightarrow> ctx \<Rightarrow> request \<Rightarrow> params \<Rightarrow> 'h uploads \<Rightarrow> 'h reply" where
  "deleteBucket cfg cx r p u =
     onProject cx (param p ''bucket'') u (\<lambda>project.
       answer (DeleteBucket cx project (param p ''bucket'') (upSvc u)) u (\<lambda>_. noContent))"

definition storageLayout :: "'h api_cfg \<Rightarrow> ctx \<Rightarrow> request \<Rightarrow> params \<Rightarrow> 'h uploads \<Rightarrow> 'h reply" where
  "storageLayout cfg cx r p u =
     onProject cx (param p ''bucket'') u (\<lambda>project.
       orFail (GetBucket cx project (param p ''bucket'') (upSvc u)) u (\<lambda>b.
         (Ok (writeJSON 200 (BLayout (bkName b) (bkLocation b))), u)))"

definition listManagedFolders :: "'h api_cfg \<Rightarrow> ctx \<Rightarrow> request \<Rightarrow> params \<Rightarrow> 'h uploads \<Rightarrow> 'h reply" where
  "listManagedFolders cfg cx r p u =
     onProject cx (param p ''bucket'') u (\<lambda>project. (Ok (writeJSON 200 BFolders), u))"

subsection \<open>Handlers of policies (iam.go)\<close>

definition noPolicy :: policy where
  "noPolicy = \<lparr>plKind = '''', plResourceID = '''', plVersion = 0, plEtag = '''', plBindings = None\<rparr>"

definition readPolicy :: "ctx \<Rightarrow> string \<Rightarrow> string \<Rightarrow> 'h uploads \<Rightarrow> 'h reply" where
  "readPolicy cx bucket obj u =
     onProject cx bucket u (\<lambda>project.
       orFail (GetIAMPolicy cx project bucket obj (upSvc u)) u (\<lambda>pol. (Ok (writeJSON 200 (BPolicy pol)), u)))"

definition writePolicy :: "'h api_cfg \<Rightarrow> ctx \<Rightarrow> request \<Rightarrow> string \<Rightarrow> string \<Rightarrow> 'h uploads \<Rightarrow> 'h reply" where
  "writePolicy cfg cx r bucket obj u =
     onProject cx bucket u (\<lambda>project.
       orFail (decodeJSON noPolicy (cdPolicy (acCodecs cfg) (rqBody r))) u (\<lambda>pol.
         answer (SetIAMPolicy cx project bucket obj pol (upSvc u)) u (\<lambda>stored. writeJSON 200 (BPolicy stored))))"

definition testIAMPermissions :: "'h api_cfg \<Rightarrow> ctx \<Rightarrow> request \<Rightarrow> params \<Rightarrow> 'h uploads \<Rightarrow> 'h reply" where
  "testIAMPermissions cfg cx r p u =
     onProject cx (param p ''bucket'') u (\<lambda>project.
       (Ok (writeJSON 200 (BPermissions (map snd (filter (\<lambda>kv. fst kv = ''permissions'') (rqQuery r))))), u))"

subsection \<open>Handlers of objects\<close>

text \<open>The scan of a listing takes a turn per read, at most one for every key; it never runs out
  (\<open>ListObjects_total\<close> below).\<close>

definition outOfTurns :: goerr where "outOfTurns = Plain (Msg ''listing did not end'' [])"

definition listObjects :: "'h api_cfg \<Rightarrow> ctx \<Rightarrow> request \<Rightarrow> params \<Rightarrow> 'h uploads \<Rightarrow> 'h reply" where
  "listObjects cfg cx r p u =
     onProject cx (param p ''bucket'') u (\<lambda>project.
       orFail (optionalInt r ''maxResults'') u (\<lambda>maxResults.
         if maxResults < 0 \<or> 2 ^ 31 - 1 < maxResults
         then (Err (invalidParam ''maxResults'' (qget r ''maxResults'')), u)
         else
           orFail (case ListObjects (Suc (length (memKeys (svKV (upSvc u))))) cx project
                     \<lparr>lrBucket = param p ''bucket'', lrPrefix = qget r ''prefix'', lrDelimiter = qget r ''delimiter'',
                      lrMaxResults = maxResults, lrPageToken = qget r ''pageToken''\<rparr> (upSvc u) of
                     None \<Rightarrow> Err outOfTurns | Some res \<Rightarrow> res) u (\<lambda>res.
             (Ok (writeJSON 200 (BObjects (map (\<lambda>ob. toAPIObject ob (rqBase r)) (ltObjects res))
                (ltPrefixes res) (ltNextPageToken res))), u))))"

definition media_headers :: "object \<Rightarrow> (string \<times> string) list" where
  "media_headers ob =
     [(''Content-Type'', obContentType ob), (''X-Goog-Generation'', itoa (obGeneration ob))]"

definition hash_header :: "object \<Rightarrow> string \<times> string" where
  "hash_header ob = (''X-Goog-Hash'', ''crc32c='' @ obCRC32C ob @ '',md5='' @ obMD5 ob)"

text \<open>
  \<open>http.ServeContent\<close> with the headers set so far, none of them an entity tag.  The time of a body of content is what the
  header \<open>Last-Modified\<close> prints; the boundary between several ranges is random, so each comes with its own
  \<open>Content-Range\<close>.  The length of a body is not repeated as a header.
\<close>

definition media_reply :: "'h api_cfg \<Rightarrow> request \<Rightarrow> object \<Rightarrow> (string \<times> string) list \<Rightarrow> string \<Rightarrow> response" where
  "media_reply cfg r ob hs content =
     (let size = int (length content); typed = filter (\<lambda>h. fst h \<noteq> ''Content-Type'') hs
      in case serveContent (cdTime (acCodecs cfg)) '''' (rqMethod r) (rqHeader r) (obUpdated ob) size of
           Stopped code \<Rightarrow> \<lparr>rsStatus = code, rsHeaders = (if code = 304 then typed else hs), rsBody = NoBody\<rparr>
         | NotSatisfiable e \<Rightarrow>
             \<lparr>rsStatus = 416,
              rsHeaders = typed @ (if e = NoOverlap then [(''Content-Range'', ''bytes */'' @ itoa size)] else []) @
                [(''Content-Type'', ''text/plain; charset=utf-8''), (''X-Content-Type-Options'', ''nosniff'')],
              rsBody = BText (if e = NoOverlap then ''invalid range: failed to overlap'' else ''invalid range'')\<rparr>
         | Whole \<Rightarrow> \<lparr>rsStatus = 200, rsHeaders = hs @ [(''Accept-Ranges'', ''bytes'')], rsBody = BMedia (obUpdated ob) content\<rparr>
         | Part ra \<Rightarrow>
             \<lparr>rsStatus = 206, rsHeaders = hs @ [(''Content-Range'', contentRange ra size), (''Accept-Ranges'', ''bytes'')],
              rsBody = BMedia (obUpdated ob) (cut_range ra content)\<rparr>
         | Parts ras \<Rightarrow>
             \<lparr>rsStatus = 206, rsHeaders = typed @ [(''Content-Type'', ''multipart/byteranges''), (''Accept-Ranges'', ''bytes'')],
              rsBody = BParts (obUpdated ob) (map (\<lambda>ra. (contentRange ra size, cut_range ra content)) ras)\<rparr>)"

definition getObject :: "'h api_cfg \<Rightarrow> ctx \<Rightarrow> request \<Rightarrow> params \<Rightarrow> 'h uploads \<Rightarrow> 'h reply" where
  "getObject cfg cx r p u =
     onProject cx (param p ''bucket'') u (\<lambda>project.
       orFail (optionalGeneration r) u (\<lambda>generation.
         orFail (preconditionsOf r) u (\<lambda>pre.
           if qget r ''alt'' \<noteq> ''media''
           then orFail (GetObjectIf cx project (param p ''bucket'') (param p ''object'') generation pre (upSvc u)) u (\<lambda>ob.
                  (Ok (writeJSON 200 (BObject (toAPIObject ob (rqBase r)))), u))
           else orFail (OpenObject cx project (param p ''bucket'') (param p ''object'') generation pre (upSvc u)) u (\<lambda>(ob, content).
                  (Ok (media_reply cfg r ob (media_headers ob @ [hash_header ob]) content), u)))))"

definition downloadMedia :: "'h api_cfg \<Rightarrow> ctx \<Rightarrow> request \<Rightarrow> params \<Rightarrow> 'h uploads \<Rightarrow> 'h reply" where
  "downloadMedia cfg cx r p u =
     onProject cx (param p ''bucket'') u (\<lambda>project.
       orFail (optionalGeneration r) u (\<lambda>generation.
         orFail (preconditionsOf r) u (\<lambda>pre.
           orFail (OpenObject cx project (param p ''bucket'') (param p ''object'') generation pre (upSvc u)) u (\<lambda>(ob, content).
             (Ok (media_reply cfg r ob
                (media_headers ob @ [(''X-Goog-Metageneration'', itoa (obMetageneration ob)), hash_header ob]) content), u)))))"

definition patchObject :: "'h api_cfg \<Rightarrow> ctx \<Rightarrow> request \<Rightarrow> params \<Rightarrow> 'h uploads \<Rightarrow> 'h reply" where
  "patchObject cfg cx r p u =
     onProject cx (param p ''bucket'') u (\<lambda>project.
       orFail (decodeJSON noObjectRequest (cdObject (acCodecs cfg) (rqBody r))) u (\<lambda>body.
         orFail (preconditionsOf r) u (\<lambda>pre.
           answer (UpdateObject cx project (param p ''bucket'') (param p ''object'')
               \<lparr>wrBucket = '''', wrName = '''', wrContentType = orContentType body, wrMetadata = orMetadata body,
                wrPreconditions = pre\<rparr> (upSvc u)) u
             (\<lambda>ob. writeJSON 200 (BObject (toAPIObject ob (rqBase r)))))))"

definition deleteObject :: "'h api_cfg \<Rightarrow> ctx \<Rightarrow> request \<Rightarrow> params \<Rightarrow> 'h uploads \<Rightarrow> 'h reply" where
  "deleteObject cfg cx r p u =
     onProject cx (param p ''bucket'') u (\<lambda>project.
       orFail (preconditionsOf r) u (\<lambda>pre.
         answer (DeleteObject cx project (param p ''bucket'') (param p ''object'') pre (upSvc u)) u (\<lambda>_. noContent)))"

definition api_copy :: "'h api_cfg \<Rightarrow> ctx \<Rightarrow> request \<Rightarrow> params \<Rightarrow> 'h uploads \<Rightarrow> (object \<Rightarrow> response) \<Rightarrow> 'h reply" where
  "api_copy cfg cx r p u f =
     onProject cx (param p ''bucket'') u (\<lambda>project.
       orFail (decodeJSON noObjectRequest (cdObject (acCodecs cfg) (rqBody r))) u (\<lambda>body.
         orFail (destinationPreconditions r) u (\<lambda>pre.
           orFail (optionalNamed r ''sourceGeneration'') u (\<lambda>generation.
             answer (CopyObject (acEnv cfg) cx project
                 \<lparr>srBucket = param p ''bucket'', srName = param p ''object'', srGeneration = generation\<rparr>
                 \<lparr>wrBucket = param p ''dstBucket'', wrName = param p ''dstObject'', wrContentType = orContentType body,
                  wrMetadata = orMetadata body, wrPreconditions = pre\<rparr> (upSvc u)) u f))))"

definition copyObject :: "'h api_cfg \<Rightarrow> ctx \<Rightarrow> request \<Rightarrow> params \<Rightarrow> 'h uploads \<Rightarrow> 'h reply" where
  "copyObject cfg cx r p u = api_copy cfg cx r p u (\<lambda>ob. writeJSON 200 (BObject (toAPIObject ob (rqBase r))))"

definition rewriteObject :: "'h api_cfg \<Rightarrow> ctx \<Rightarrow> request \<Rightarrow> params \<Rightarrow> 'h uploads \<Rightarrow> 'h reply" where
  "rewriteObject cfg cx r p u =
     api_copy cfg cx r p u (\<lambda>ob.
       writeJSON 200 (BRewrite (itoa (obSize ob)) (itoa (obSize ob)) True (toAPIObject ob (rqBase r))))"

definition noComposeRequest :: compose_request where
  "noComposeRequest = \<lparr>crSourceObjects = [], crDestination = noObjectRequest\<rparr>"

definition composeObject :: "'h api_cfg \<Rightarrow> ctx \<Rightarrow> request \<Rightarrow> params \<Rightarrow> 'h uploads \<Rightarrow> 'h reply" where
  "composeObject cfg cx r p u =
     onProject cx (param p ''bucket'') u (\<lambda>project.
       orFail (decodeJSON noComposeRequest (cdCompose (acCodecs cfg) (rqBody r))) u (\<lambda>body.
         orFail (destinationPreconditions r) u (\<lambda>pre.
           answer (ComposeObject (acHashes cfg) (acEnv cfg) cx project
               (map (\<lambda>src. \<lparr>srBucket = param p ''bucket'', srName = csName src,
                            srGeneration = (if csGeneration src \<noteq> 0 then Some (csGeneration src) else None)\<rparr>)
                  (crSourceObjects body))
               \<lparr>wrBucket = param p ''bucket'', wrName = param p ''object'', wrContentType = orContentType (crDestination body),
                wrMetadata = orMetadata (crDestination body), wrPreconditions = pre\<rparr> (upSvc u)) u
             (\<lambda>ob. writeJSON 200 (BObject (toAPIObject ob (rqBase r)))))))"

subsection \<open>Uploads\<close>

text \<open>\<open>WriteObject\<close> of a body that may end in a read error: the content is streamed before anything is
  published.\<close>

definition write_body :: "'h api_cfg \<Rightarrow> ctx \<Rightarrow> string \<Rightarrow> write_req \<Rightarrow> string \<Rightarrow> goerr option \<Rightarrow> 'h svc \<Rightarrow> (goerr, object) result \<times> 'h svc" where
  "write_body cfg cx project w content err s =
     (case err of
        None \<Rightarrow> WriteObject (acHashes cfg) (acEnv cfg) cx project w content s
      | Some e \<Rightarrow>
          (case bucket_of cx project (wrBucket w) s of
             Err e' \<Rightarrow> (Err e', s)
           | Ok _ \<Rightarrow>
               if wrName w = '''' then (Err (required ''an object needs a name''), s)
               else (Err (Wrap (if cx \<noteq> CtxLive then blob_goerr (BlobCtx cx)
                                else Wrapped (Msg ''blob: streaming content: %w'' []) e)
                            Internal (Msg ''storing object content'' [])), s)))"

definition badBoundary :: "string \<Rightarrow> string \<Rightarrow> goerr" where
  "badBoundary message contentType =
     GErr (WithReason ''invalid'' (WithHTTPStatus 400 (New InvalidArgument (Msg ''%s: %q'' [message, contentType])))) None"

text \<open>\<open>strings.Trim\<close> with the set of the two quotation marks.\<close>

definition quote_mark :: "char \<Rightarrow> bool" where
  "quote_mark c \<longleftrightarrow> c = CHR 0x22 \<or> c = CHR 0x27"

definition trimQuotes :: "string \<Rightarrow> string" where
  "trimQuotes s = rev (dropWhile quote_mark (rev (dropWhile quote_mark s)))"

definition multipartBoundary :: "codecs \<Rightarrow> string \<Rightarrow> (goerr, string) result" where
  "multipartBoundary C contentType =
     (let parsed = (case cdBoundary C contentType of None \<Rightarrow> '''' | Some b \<Rightarrow> b);
          raw = (if parsed \<noteq> '''' then Ok parsed
                 else case go_cut contentType ''boundary='' of
                   None \<Rightarrow> Err (badBoundary ''multipart upload has no boundary'' contentType)
                 | Some (_, rest) \<Rightarrow> Ok (takeWhile (\<lambda>c. c \<noteq> CHR '';'') rest))
      in case raw of
           Err e \<Rightarrow> Err e
         | Ok b \<Rightarrow>
             let boundary = trimQuotes (trimSpace b)
             in if boundary = '''' then Err (badBoundary ''multipart upload has an empty boundary'' contentType) else Ok boundary)"

definition errEOF :: goerr where "errEOF = Plain (Msg ''EOF'' [])"

text \<open>The metadata part and the media part; \<open>errEOF\<close> stands for what \<open>NextPart\<close> reports when a part is
  missing.\<close>

definition splitMultipart :: "codecs \<Rightarrow> request \<Rightarrow> (goerr, object_request \<times> string) result" where
  "splitMultipart C r =
     (case multipartBoundary C (rqHeader r ''Content-Type'') of
        Err e \<Rightarrow> Err e
      | Ok boundary \<Rightarrow>
     (case cdParts C (rqBody r) boundary of
        [] \<Rightarrow> Err (malformed errEOF ''multipart upload has no metadata part'' ''invalid'')
      | metaPart # rest \<Rightarrow>
     (case cdObject C (ptContent metaPart) of
        AtEOF \<Rightarrow> Err (malformed errEOF ''malformed object metadata'' ''invalid'')
      | Malformed e \<Rightarrow> Err (malformed e ''malformed object metadata'' ''invalid'')
      | Decoded meta \<Rightarrow>
     (case rest of
        [] \<Rightarrow> Err (malformed errEOF ''multipart upload has no media part'' ''invalid'')
      | mediaPart # _ \<Rightarrow>
          Ok (meta\<lparr>orContentType := (if orContentType meta = '''' then ptContentType mediaPart else orContentType meta)\<rparr>,
              ptContent mediaPart)))))"

definition noSessions :: goerr where
  "noSessions = GErr (WithHTTPStatus 500 (New Internal (Msg ''no temporary directory for resumable uploads'' []))) None"

definition unknownUploadType :: "string \<Rightarrow> goerr" where
  "unknownUploadType t =
     GErr (WithReason ''invalid'' (WithHTTPStatus 400 (New InvalidArgument (Msg ''unknown uploadType %q'' [t])))) None"

definition upload :: "'h api_cfg \<Rightarrow> ctx \<Rightarrow> request \<Rightarrow> params \<Rightarrow> 'h uploads \<Rightarrow> 'h reply" where
  "upload cfg cx r p u =
     onProject cx (param p ''bucket'') u (\<lambda>project.
       orFail (preconditionsOf r) u (\<lambda>pre.
         let write = \<lparr>wrBucket = param p ''bucket'', wrName = qget r ''name'', wrContentType = '''', wrMetadata = None,
                      wrPreconditions = pre\<rparr>;
             stored = (\<lambda>w content err. answer (write_body cfg cx project w content err (upSvc u)) u
                         (\<lambda>ob. writeJSON 200 (BObject (toAPIObject ob (rqBase r)))));
             uploadType = qget r ''uploadType''
         in if qget r ''upload_id'' \<noteq> ''''
            then (if \<not> acSessions cfg then (Err noSessions, u)
                  else resumableChunk (acHashes cfg) (acEnv cfg) cx r (qget r ''upload_id'') u)
            else if uploadType = ''media'' \<or> uploadType = ''''
            then stored (write\<lparr>wrContentType := rqHeader r ''Content-Type''\<rparr>) (rqBody r) (rqBodyErr r)
            else if uploadType = ''multipart''
            then orFail (splitMultipart (acCodecs cfg) r) u (\<lambda>(meta, media).
                   stored (write\<lparr>wrName := (if orName meta \<noteq> '''' then orName meta else wrName write),
                                 wrContentType := orContentType meta, wrMetadata := orMetadata meta\<rparr>) media None)
            else if uploadType = ''resumable''
            then (if \<not> acSessions cfg then (Err noSessions, u)
                  else startResumable (acCodecs cfg) cx r (param p ''bucket'') write u)
            else (Err (unknownUploadType uploadType), u)))"

definition uploadSigned :: "'h api_cfg \<Rightarrow> ctx \<Rightarrow> request \<Rightarrow> params \<Rightarrow> 'h uploads \<Rightarrow> 'h reply" where
  "uploadSigned cfg cx r p u =
     onProject cx (param p ''bucket'') u (\<lambda>project.
       orFail (preconditionsOf r) u (\<lambda>pre.
         answer (write_body cfg cx project
             \<lparr>wrBucket = param p ''bucket'', wrName = param p ''object'', wrContentType = rqHeader r ''Content-Type'',
              wrMetadata = None, wrPreconditions = pre\<rparr> (rqBody r) (rqBodyErr r) (upSvc u)) u
           (\<lambda>ob. \<lparr>rsStatus = 200, rsHeaders = [(''ETag'', obETag ob), (''X-Goog-Generation'', itoa (obGeneration ob)), hash_header ob],
                  rsBody = NoBody\<rparr>)))"

definition deleteSigned :: "'h api_cfg \<Rightarrow> ctx \<Rightarrow> request \<Rightarrow> params \<Rightarrow> 'h uploads \<Rightarrow> 'h reply" where
  "deleteSigned cfg cx r p u =
     onProject cx (param p ''bucket'') u (\<lambda>project.
       orFail (preconditionsOf r) u (\<lambda>pre.
         answer (DeleteObject cx project (param p ''bucket'') (param p ''object'') pre (upSvc u)) u (\<lambda>_. noContent)))"

subsection \<open>The table of routes\<close>

datatype handler =
    H_createBucket | H_listBuckets | H_getBucket | H_patchBucket | H_deleteBucket | H_storageLayout | H_listManagedFolders
  | H_getBucketIAM | H_setBucketIAM | H_testIAMPermissions | H_getObjectIAM | H_setObjectIAM
  | H_listObjects | H_getObject | H_patchObject | H_deleteObject | H_copyObject | H_rewriteObject | H_composeObject
  | H_upload | H_downloadMedia | H_uploadSigned | H_deleteSigned

definition api_table :: "(string \<times> string \<times> handler) list" where
  "api_table =
     [(''POST'', ''/storage/v1/b'', H_createBucket),
      (''GET'', ''/storage/v1/b'', H_listBuckets),
      (''GET'', ''/storage/v1/b/{bucket}'', H_getBucket),
      (''PATCH'', ''/storage/v1/b/{bucket}'', H_patchBucket),
      (''PUT'', ''/storage/v1/b/{bucket}'', H_patchBucket),
      (''DELETE'', ''/storage/v1/b/{bucket}'', H_deleteBucket),
      (''GET'', ''/storage/v1/b/{bucket}/storageLayout'', H_storageLayout),
      (''GET'', ''/storage/v1/b/{bucket}/managedFolders'', H_listManagedFolders),
      (''GET'', ''/storage/v1/b/{bucket}/iam'', H_getBucketIAM),
      (''PUT'', ''/storage/v1/b/{bucket}/iam'', H_setBucketIAM),
      (''GET'', ''/storage/v1/b/{bucket}/iam/testPermissions'', H_testIAMPermissions),
      (''GET'', ''/storage/v1/b/{bucket}/o/{object}/iam'', H_getObjectIAM),
      (''PUT'', ''/storage/v1/b/{bucket}/o/{object}/iam'', H_setObjectIAM),
      (''GET'', ''/storage/v1/b/{bucket}/o'', H_listObjects),
      (''GET'', ''/storage/v1/b/{bucket}/o/{object}'', H_getObject),
      (''GET'', ''/download/storage/v1/b/{bucket}/o/{object}'', H_getObject),
      (''PATCH'', ''/storage/v1/b/{bucket}/o/{object}'', H_patchObject),
      (''PUT'', ''/storage/v1/b/{bucket}/o/{object}'', H_patchObject),
      (''DELETE'', ''/storage/v1/b/{bucket}/o/{object}'', H_deleteObject),
      (''POST'', ''/storage/v1/b/{bucket}/o/{object}/copyTo/b/{dstBucket}/o/{dstObject}'', H_copyObject),
      (''POST'', ''/storage/v1/b/{bucket}/o/{object}/rewriteTo/b/{dstBucket}/o/{dstObject}'', H_rewriteObject),
      (''POST'', ''/storage/v1/b/{bucket}/o/{object}/compose'', H_composeObject),
      (''POST'', ''/upload/storage/v1/b/{bucket}/o'', H_upload),
      (''PUT'', ''/upload/storage/v1/b/{bucket}/o'', H_upload),
      (''GET'', ''/{bucket}/{object}'', H_downloadMedia),
      (''HEAD'', ''/{bucket}/{object}'', H_downloadMedia),
      (''PUT'', ''/{bucket}/{object}'', H_uploadSigned),
      (''DELETE'', ''/{bucket}/{object}'', H_deleteSigned)]"

definition api_routes :: "handler route list" where
  "api_routes = foldl (\<lambda>rs (m, pat, h). Handle m pat h rs) [] api_table"

definition run_handler :: "'h api_cfg \<Rightarrow> ctx \<Rightarrow> request \<Rightarrow> handler \<Rightarrow> params \<Rightarrow> 'h uploads \<Rightarrow> 'h reply" where
  "run_handler cfg cx r h p u =
     (case h of
        H_createBucket \<Rightarrow> createBucket cfg cx r p u
      | H_listBuckets \<Rightarrow> listBuckets cfg cx r p u
      | H_getBucket \<Rightarrow> getBucket cfg cx r p u
      | H_patchBucket \<Rightarrow> patchBucket cfg cx r p u
      | H_deleteBucket \<Rightarrow> deleteBucket cfg cx r p u
      | H_storageLayout \<Rightarrow> storageLayout cfg cx r p u
      | H_listManagedFolders \<Rightarrow> listManagedFolders cfg cx r p u
      | H_getBucketIAM \<Rightarrow> readPolicy cx (param p ''bucket'') '''' u
      | H_setBucketIAM \<Rightarrow> writePolicy cfg cx r (param p ''bucket'') '''' u
      | H_testIAMPermissions \<Rightarrow> testIAMPermissions cfg cx r p u
      | H_getObjectIAM \<Rightarrow> readPolicy cx (param p ''bucket'') (param p ''object'') u
      | H_setObjectIAM \<Rightarrow> writePolicy cfg cx r (param p ''bucket'') (param p ''object'') u
      | H_listObjects \<Rightarrow> listObjects cfg cx r p u
      | H_getObject \<Rightarrow> getObject cfg cx r p u
      | H_patchObject \<Rightarrow> patchObject cfg cx r p u
      | H_deleteObject \<Rightarrow> deleteObject cfg cx r p u
      | H_copyObject \<Rightarrow> copyObject cfg cx r p u
      | H_rewriteObject \<Rightarrow> rewriteObject cfg cx r p u
      | H_composeObject \<Rightarrow> composeObject cfg cx r p u
      | H_upload \<Rightarrow> upload cfg cx r p u
      | H_downloadMedia \<Rightarrow> downloadMedia cfg cx r p u
      | H_uploadSigned \<Rightarrow> uploadSigned cfg cx r p u
      | H_deleteSigned \<Rightarrow> deleteSigned cfg cx r p u)"

definition api_ServeHTTP :: "'h api_cfg \<Rightarrow> ctx \<Rightarrow> request \<Rightarrow> 'h uploads \<Rightarrow> 'h reply" where
  "api_ServeHTTP cfg cx r u = rt_ServeHTTP (run_handler cfg cx r) (rqMethod r) (rqPath r) api_routes u"

end
