(* ===== verification/Storage_Api_Props.thy ===== *)
theory Storage_Api_Props
  imports Storage_Api
begin

text \<open>
  What the Cloud Storage API promises its clients: the links it prints lead back to the objects they
  name, an uploaded object can be read through them, and listing always answers.
\<close>

subsection \<open>Routes\<close>

definition Lit :: "string \<Rightarrow> segment" where "Lit s = \<lparr>sgLiteral = s, sgCapture = ''''\<rparr>"
definition Cap :: "string \<Rightarrow> segment" where "Cap s = \<lparr>sgLiteral = '''', sgCapture = s\<rparr>"

text \<open>The registered patterns, parsed.\<close>

definition parsed_table :: "(string \<times> segment list \<times> handler) list" where
  "parsed_table =
     [(''POST'', [Lit ''storage'', Lit ''v1'', Lit ''b''], H_createBucket),
      (''GET'', [Lit ''storage'', Lit ''v1'', Lit ''b''], H_listBuckets),
      (''GET'', [Lit ''storage'', Lit ''v1'', Lit ''b'', Cap ''bucket''], H_getBucket),
      (''PATCH'', [Lit ''storage'', Lit ''v1'', Lit ''b'', Cap ''bucket''], H_patchBucket),
      (''PUT'', [Lit ''storage'', Lit ''v1'', Lit ''b'', Cap ''bucket''], H_patchBucket),
      (''DELETE'', [Lit ''storage'', Lit ''v1'', Lit ''b'', Cap ''bucket''], H_deleteBucket),
      (''GET'', [Lit ''storage'', Lit ''v1'', Lit ''b'', Cap ''bucket'', Lit ''storageLayout''], H_storageLayout),
      (''GET'', [Lit ''storage'', Lit ''v1'', Lit ''b'', Cap ''bucket'', Lit ''managedFolders''], H_listManagedFolders),
      (''GET'', [Lit ''storage'', Lit ''v1'', Lit ''b'', Cap ''bucket'', Lit ''iam''], H_getBucketIAM),
      (''PUT'', [Lit ''storage'', Lit ''v1'', Lit ''b'', Cap ''bucket'', Lit ''iam''], H_setBucketIAM),
      (''GET'', [Lit ''storage'', Lit ''v1'', Lit ''b'', Cap ''bucket'', Lit ''iam'', Lit ''testPermissions''], H_testIAMPermissions),
      (''GET'', [Lit ''storage'', Lit ''v1'', Lit ''b'', Cap ''bucket'', Lit ''o'', Cap ''object'', Lit ''iam''], H_getObjectIAM),
      (''PUT'', [Lit ''storage'', Lit ''v1'', Lit ''b'', Cap ''bucket'', Lit ''o'', Cap ''object'', Lit ''iam''], H_setObjectIAM),
      (''GET'', [Lit ''storage'', Lit ''v1'', Lit ''b'', Cap ''bucket'', Lit ''o''], H_listObjects),
      (''GET'', [Lit ''storage'', Lit ''v1'', Lit ''b'', Cap ''bucket'', Lit ''o'', Cap ''object''], H_getObject),
      (''GET'', [Lit ''download'', Lit ''storage'', Lit ''v1'', Lit ''b'', Cap ''bucket'', Lit ''o'', Cap ''object''], H_getObject),
      (''PATCH'', [Lit ''storage'', Lit ''v1'', Lit ''b'', Cap ''bucket'', Lit ''o'', Cap ''object''], H_patchObject),
      (''PUT'', [Lit ''storage'', Lit ''v1'', Lit ''b'', Cap ''bucket'', Lit ''o'', Cap ''object''], H_patchObject),
      (''DELETE'', [Lit ''storage'', Lit ''v1'', Lit ''b'', Cap ''bucket'', Lit ''o'', Cap ''object''], H_deleteObject),
      (''POST'', [Lit ''storage'', Lit ''v1'', Lit ''b'', Cap ''bucket'', Lit ''o'', Cap ''object'', Lit ''copyTo'', Lit ''b'', Cap ''dstBucket'', Lit ''o'', Cap ''dstObject''], H_copyObject),
      (''POST'', [Lit ''storage'', Lit ''v1'', Lit ''b'', Cap ''bucket'', Lit ''o'', Cap ''object'', Lit ''rewriteTo'', Lit ''b'', Cap ''dstBucket'', Lit ''o'', Cap ''dstObject''], H_rewriteObject),
      (''POST'', [Lit ''storage'', Lit ''v1'', Lit ''b'', Cap ''bucket'', Lit ''o'', Cap ''object'', Lit ''compose''], H_composeObject),
      (''POST'', [Lit ''upload'', Lit ''storage'', Lit ''v1'', Lit ''b'', Cap ''bucket'', Lit ''o''], H_upload),
      (''PUT'', [Lit ''upload'', Lit ''storage'', Lit ''v1'', Lit ''b'', Cap ''bucket'', Lit ''o''], H_upload),
      (''GET'', [Cap ''bucket'', Cap ''object''], H_downloadMedia),
      (''HEAD'', [Cap ''bucket'', Cap ''object''], H_downloadMedia),
      (''PUT'', [Cap ''bucket'', Cap ''object''], H_uploadSigned),
      (''DELETE'', [Cap ''bucket'', Cap ''object''], H_deleteSigned)]"

lemma parse_table: "map (\<lambda>(m, pat, h). (m, map parse_segment (path_segments pat), h)) api_table = parsed_table"
  by code_simp

lemma foldl_Handle:
  "foldl (\<lambda>rs (m, pat, h). Handle m pat h rs) rs tab =
     rs @ map (\<lambda>(m, segs, h). \<lparr>rtMethod = m, rtSegs = segs, rtHandler = h\<rparr>)
            (map (\<lambda>(m, pat, h). (m, map parse_segment (path_segments pat), h)) tab)"
  by (induction tab arbitrary: rs) (auto simp: Handle_def)

lemma api_routes_parsed:
  "api_routes = map (\<lambda>(m, segs, h). \<lparr>rtMethod = m, rtSegs = segs, rtHandler = h\<rparr>) parsed_table"
  by (simp only: api_routes_def foldl_Handle parse_table append_Nil)

definition plain_name :: "string \<Rightarrow> bool" where
  "plain_name b \<longleftrightarrow> slash \<notin> set b \<and> CHR ''%'' \<notin> set b"

lemma PathUnescape_plain: "plain_name b \<Longrightarrow> PathUnescape b = Some b"
  by (induction b) (auto simp: plain_name_def)

lemma escapeObject_eq: "escapeObject nm = PathEscape nm"
proof -
  have "replace_slash new s = s" if "slash \<notin> set s" for new s
    using that by (induction s) (auto simp: replace_slash_def)
  then show ?thesis by (simp add: escapeObject_def)
qed

lemma object_path_segments:
  assumes "slash \<notin> set b"
  shows "path_segments (''/storage/v1/b/'' @ b @ ''/o/'' @ escapeObject nm) = [''storage'', ''v1'', ''b'', b, ''o'', PathEscape nm]"
proof -
  have "path_segments (''/storage/v1/b/'' @ b @ ''/o/'' @ escapeObject nm) =
      split_on slash (join_with [slash] [''storage'', ''v1'', ''b'', b, ''o'', PathEscape nm])"
    by (simp add: path_segments_def trimPrefix_def escapeObject_eq)
  also have "\<dots> = [''storage'', ''v1'', ''b'', b, ''o'', PathEscape nm]"
    by (rule split_join_with) (use assms in auto)
  finally show ?thesis .
qed

lemma self_link_route:
  assumes "plain_name b"
  shows "fst (rt_match ''GET'' (''/storage/v1/b/'' @ b @ ''/o/'' @ escapeObject nm) api_routes) =
    Some (\<lparr>rtMethod = ''GET'', rtSegs = [Lit ''storage'', Lit ''v1'', Lit ''b'', Cap ''bucket'', Lit ''o'', Cap ''object''],
             rtHandler = H_getObject\<rparr>, [''bucket'' \<mapsto> b, ''object'' \<mapsto> nm])"
proof -
  have "slash \<notin> set b" using assms by (simp add: plain_name_def)
  then show ?thesis
    unfolding rt_match_def object_path_segments [OF \<open>slash \<notin> set b\<close>] api_routes_parsed parsed_table_def
    by (simp add: matchPath_def Lit_def Cap_def PathUnescape_plain [OF assms])
qed

lemma upload_route:
  assumes "plain_name b"
  shows "fst (rt_match ''POST'' (''/upload/storage/v1/b/'' @ b @ ''/o'') api_routes) =
    Some (\<lparr>rtMethod = ''POST'', rtSegs = [Lit ''upload'', Lit ''storage'', Lit ''v1'', Lit ''b'', Cap ''bucket'', Lit ''o''],
             rtHandler = H_upload\<rparr>, [''bucket'' \<mapsto> b])"
proof -
  have "path_segments (''/upload/storage/v1/b/'' @ b @ ''/o'') =
      split_on slash (join_with [slash] [''upload'', ''storage'', ''v1'', ''b'', b, ''o''])"
    by (simp add: path_segments_def trimPrefix_def)
  also have "\<dots> = [''upload'', ''storage'', ''v1'', ''b'', b, ''o'']"
    by (rule split_join_with) (use assms in \<open>auto simp: plain_name_def\<close>)
  finally show ?thesis
    unfolding rt_match_def api_routes_parsed parsed_table_def
    by (simp add: matchPath_def Lit_def Cap_def PathUnescape_plain [OF assms])
qed

lemma serve_route:
  assumes "fst (rt_match (rqMethod r) (rqPath r) api_routes) = Some (rr, p)"
  shows "api_ServeHTTP cfg cx r u = run_handler cfg cx r (rtHandler rr) p u"
  using assms by (cases "rt_match (rqMethod r) (rqPath r) api_routes") (simp add: api_ServeHTTP_def rt_ServeHTTP_def)

subsection \<open>Writing an object leaves the bucket claims alone\<close>

definition owner_entry :: "string \<Rightarrow> 'h svc \<Rightarrow> sval entry option" where
  "owner_entry b s = memM (svKV s) (BucketIndex b)"

lemma index_key_distinct [simp]:
  "BucketIndex b \<noteq> Live p b' n" "BucketIndex b \<noteq> Object p b' n g" "Live p b' n \<noteq> BucketIndex b" "Object p b' n g \<noteq> BucketIndex b"
  by (simp_all add: key_defs)

lemma owner_put: "kvPut cx k v n s = (r, s') \<Longrightarrow> k \<noteq> BucketIndex b \<Longrightarrow> owner_entry b s' = owner_entry b s"
  by (cases r) (auto simp: owner_entry_def dest: kvPut_err kvPut_ok)

lemma owner_delete: "kvDelete cx k n s = (r, s') \<Longrightarrow> k \<noteq> BucketIndex b \<Longrightarrow> owner_entry b s' = owner_entry b s"
  by (cases r) (auto simp: owner_entry_def dest: kvDelete_err kvDelete_ok)

lemma owner_blobs [simp]: "owner_entry b (s\<lparr>svBlobs := x\<rparr>) = owner_entry b s" "owner_entry b (notify kind ob s) = owner_entry b s"
  by (simp_all add: owner_entry_def notify_def split: option.splits)

lemma owner_adjust: "adjust_loop n cx sha delta s = (r, s') \<Longrightarrow> owner_entry b s' = owner_entry b s"
proof (induction n arbitrary: s)
  case (Suc n)
  from Suc.prems show ?case
    by (auto simp: Let_def split: if_splits result.splits prod.splits store_error.splits sval.splits
        dest!: owner_put [where b = b] owner_delete [where b = b] Suc.IH)
qed simp

lemma owner_refs: "retainBlob cx sha s = (r, s') \<Longrightarrow> owner_entry b s' = owner_entry b s"
  "releaseBlob cx sha s = (r, s') \<Longrightarrow> owner_entry b s' = owner_entry b s"
  by (auto simp: retainBlob_def releaseBlob_def adjustRefs_def split: if_splits dest: owner_adjust)

lemma owner_cas: "casLive cx p b' nm l v s = (r, s') \<Longrightarrow> owner_entry b s' = owner_entry b s"
  by (auto simp: casLive_def split: result.splits prod.splits store_error.splits dest!: owner_put [where b = b])

lemma owner_claim: "claim_loop n cx p ob g s = (r, s') \<Longrightarrow> owner_entry b s' = owner_entry b s"
proof (induction n arbitrary: g s)
  case (Suc n)
  then show ?case
    by (auto simp: putGeneration_def split: result.splits prod.splits store_error.splits if_splits dest!: owner_put [where b = b])
qed simp

lemma owner_drop: "dropGeneration cx p ob s = (r, s') \<Longrightarrow> owner_entry b s' = owner_entry b s"
  by (auto simp: dropGeneration_def split: result.splits prod.splits store_error.splits
      dest!: owner_delete [where b = b] owner_refs [where b = b])

lemmas owner_steps = owner_claim [where b = b] owner_refs [where b = b] owner_cas [where b = b] owner_drop [where b = b] for b

lemma owner_publish: "publish_write cx p w ref vs cur v ex s = (r, s') \<Longrightarrow> owner_entry b s' = owner_entry b s"
  unfolding publish_write_def claimGeneration_def Let_def
  by (auto split: result.splits prod.splits option.splits if_splits dest!: owner_steps [where b = b])
    (metis owner_refs(2) prod.collapse)+

lemma owner_publish_loop: "publish_loop n quiet cx p w ref vs s = (r, s') \<Longrightarrow> owner_entry b s' = owner_entry b s"
proof (induction n arbitrary: s)
  case (Suc n)
  obtain r1 s1 where pub: "publish (quiet n) cx p w ref vs s = (r1, s1)" by force
  then have "owner_entry b s1 = owner_entry b s"
    by (auto simp: publish_def quiet_def split: result.splits prod.splits dest: owner_publish)
  with pub Suc show ?case by (auto split: result.splits if_splits)
qed simp

lemma owner_write: "WriteObject H quiet cx p w c s = (r, s') \<Longrightarrow> owner_entry b s' = owner_entry b s"
proof -
  assume w: "WriteObject H quiet cx p w c s = (r, s')"
  obtain r1 s1 where st: "store_content H cx p w c s = (r1, s1)" by force
  then have "owner_entry b s1 = owner_entry b s"
    by (auto simp: store_content_def split: result.splits prod.splits if_splits)
  with w st show ?thesis
    by (auto simp: WriteObject_def publishRef_def split: result.splits prod.splits dest!: owner_publish_loop [where b = b])
qed

lemma written_names:
  assumes "storage_run H s" and "hashes_ok H" and "roomy s" and "slash_free p" and "slash_free (wrBucket w)"
    and "WriteObject H quiet CtxLive p w c s = (Ok ob, s')"
  shows "obBucket ob = wrBucket w" and "obName ob = wrName w"
proof -
  have inv0: "sinv {} H (0 + 5) settled s" using storage_run_inv [OF assms(1,2)] sinv_room [of H s 5] assms(3) by simp
  from WriteObject_post [OF sinv_exempt [OF inv0] _ assms(2,4,5) any_nameable [OF inv0 assms(4,5)] assms(6)]
  obtain g ref now where "ob = with_generation g (new_object w ref now)" by (auto simp: published_def)
  then show "obBucket ob = wrBucket w" "obName ob = wrName w" by (simp_all add: with_generation_def new_object_def Let_def)
qed

lemma ProjectOf_owner: "owner_entry b s' = owner_entry b s \<Longrightarrow> ProjectOf cx b s' = ProjectOf cx b s"
  by (simp add: ProjectOf_def kvGet_def mem_Get_def owner_entry_def)

lemma no_params:
  assumes "rqQuery r = [(''alt'', ''media'')]"
  shows "optionalGeneration r = Ok None" "preconditionsOf r = Ok noPreconditions" "qget r ''alt'' = ''media''"
  using assms by (simp_all add: optionalGeneration_def optionalNamed_def preconditionsOf_def qget_def noPreconditions_def)

subsection \<open>Properties\<close>

text \<open>
  C7: an object stored by a simple upload (\<open>uploadType=media\<close>, or none) is read back through the link in the response: a
  GET of the path of its \<open>selfLink\<close> with \<open>alt=media\<close>, no \<open>Range\<close> and no conditional headers is routed to the object of that
  name, whatever bytes the name holds, and answers 200 with exactly the uploaded content.  The bucket's name is one that needs no
  escaping, which \<open>selfLink\<close> does not do, and nothing else runs between the two requests.
\<close>

theorem uploaded_object_read_by_link:
  assumes "rqMethod r = ''POST''" and "rqPath r = ''/upload/storage/v1/b/'' @ b @ ''/o''" and "plain_name b"
    and "qget r ''upload_id'' = ''''" and "qget r ''uploadType'' \<in> {''media'', ''''}" and "rqBodyErr r = None"
    and "acEnv cfg = quiet" and "hashes_ok (acHashes cfg)" and "storage_run (acHashes cfg) (upSvc u)" and "roomy (upSvc u)"
    and "ProjectOf CtxLive b (upSvc u) = Ok project" and "slash_free project"
    and "api_ServeHTTP cfg CtxLive r u = (Ok resp, u')" and "rsBody resp = BObject ao"
    and "rqMethod r2 = ''GET''" and "aoSelfLink ao = rqBase r @ rqPath r2" and "rqQuery r2 = [(''alt'', ''media'')]"
    and "unconditional (rqHeader r2)" and "rqHeader r2 ''Range'' = ''''"
  shows "\<exists>resp2 t. api_ServeHTTP cfg CtxLive r2 u' = (Ok resp2, u') \<and> rsStatus resp2 = 200 \<and>
    rsBody resp2 = BMedia t (rqBody r)"
proof -
  have b: "slash_free b" using assms(3) by (simp add: plain_name_def)
  have "api_ServeHTTP cfg CtxLive r u = upload cfg CtxLive r [''bucket'' \<mapsto> b] u"
    using serve_route [of r _ _ cfg CtxLive u] upload_route [OF assms(3)] assms(1,2) by (simp add: run_handler_def)
  with assms(13) have up: "upload cfg CtxLive r [''bucket'' \<mapsto> b] u = (Ok resp, u')" by simp
  obtain pre where pre: "preconditionsOf r = Ok pre"
    using up assms(11) by (cases "preconditionsOf r") (auto simp: upload_def onProject_def orFail_def param_def)
  let ?w = "\<lparr>wrBucket = b, wrName = qget r ''name'', wrContentType = rqHeader r ''Content-Type'', wrMetadata = None, wrPreconditions = pre\<rparr>"
  obtain ob where wr: "WriteObject (acHashes cfg) quiet CtxLive project ?w (rqBody r) (upSvc u) = (Ok ob, upSvc u')"
    and ao: "ao = toAPIObject ob (rqBase r)"
    using up assms(4-7,11,14) pre
    by (cases "WriteObject (acHashes cfg) quiet CtxLive project ?w (rqBody r) (upSvc u)")
      (auto simp: upload_def onProject_def orFail_def param_def Let_def answer_def write_body_def writeJSON_def split: result.splits)
  note W = write_opens [OF assms(9,8,10,12) _ wr]
  have opn: "OpenObject CtxLive project b (qget r ''name'') None noPreconditions (upSvc u') = Ok (stored_object ob, rqBody r)"
    using W b by simp
  have nm: "obBucket ob = b" "obName ob = qget r ''name''"
    using written_names [OF assms(9,8,10,12) _ wr] b by simp_all
  have path: "rqPath r2 = ''/storage/v1/b/'' @ b @ ''/o/'' @ escapeObject (qget r ''name'')"
    using assms(16) nm by (simp add: ao toAPIObject_def Let_def self_link_def)
  have proj: "ProjectOf CtxLive b (upSvc u') = Ok project"
    using ProjectOf_owner [OF owner_write [OF wr]] assms(11) by simp
  have "api_ServeHTTP cfg CtxLive r2 u' = getObject cfg CtxLive r2 [''bucket'' \<mapsto> b, ''object'' \<mapsto> qget r ''name''] u'"
    using serve_route [of r2 _ _ cfg CtxLive u'] self_link_route [OF assms(3), of "qget r ''name''"] assms(15) path
    by (simp add: run_handler_def)
  also have "\<dots> = (Ok (media_reply cfg r2 (stored_object ob) (media_headers (stored_object ob) @ [hash_header (stored_object ob)])
      (rqBody r)), u')"
    using opn proj no_params [OF assms(17)] by (simp add: getObject_def onProject_def orFail_def param_def)
  finally show ?thesis using unconditional_whole [OF assms(18,19)] by (simp add: media_reply_def)
qed

definition demo_cfg :: "unit api_cfg" where
  "demo_cfg = \<lparr>acHashes = demo_hashes, acEnv = quiet,
     acCodecs = \<lparr>cdBucket = \<lambda>_. AtEOF, cdObject = \<lambda>_. AtEOF, cdCompose = \<lambda>_. AtEOF, cdPolicy = \<lambda>_. AtEOF,
       cdBoundary = \<lambda>_. None, cdParts = \<lambda>_ _. [], cdTime = \<lambda>_. None\<rparr>, acSessions = True\<rparr>"

definition demo_post :: request where
  "demo_post = \<lparr>rqMethod = ''POST'', rqPath = ''/upload/storage/v1/b/bkt/o'', rqQuery = [(''uploadType'', ''media''), (''name'', ''a/b'')],
     rqHeader = \<lambda>_. '''', rqBody = ''xyz'', rqBodyErr = None, rqBase = ''http://h'', rqSession = Ok ''''\<rparr>"

definition demo_get :: request where
  "demo_get = \<lparr>rqMethod = ''GET'', rqPath = ''/storage/v1/b/bkt/o/a%2Fb'', rqQuery = [(''alt'', ''media'')],
     rqHeader = \<lambda>_. '''', rqBody = '''', rqBodyErr = None, rqBase = ''http://h'', rqSession = Ok ''''\<rparr>"

theorem uploaded_object_read_by_link_witness:
  "\<exists>resp u' resp2 t. api_ServeHTTP demo_cfg CtxLive demo_post \<lparr>upSvc = demo_svc, upObjs = Map.empty, upM = {}\<rparr> = (Ok resp, u') \<and>
     api_ServeHTTP demo_cfg CtxLive demo_get u' = (Ok resp2, u') \<and> rsStatus resp2 = 200 \<and> rsBody resp2 = BMedia t ''xyz''"
proof -
  let ?u = "\<lparr>upSvc = demo_svc, upObjs = Map.empty, upM = {}\<rparr> :: unit uploads" and ?w = "demo_write ''a/b''"
  have plain: "plain_name ''bkt''" by (simp add: plain_name_def)
  obtain ob s' where w: "WriteObject demo_hashes quiet CtxLive ''prj'' ?w ''xyz'' demo_svc = (Ok ob, s')"
    by (rule demo_write_ok [of "''a/b''" "''xyz''"]) auto
  note nm = written_names [OF demo_svc_run demo_hashes_good demo_svc_roomy _ _ w]
  have proj: "ProjectOf CtxLive ''bkt'' demo_svc = Ok ''prj''"
    by (simp add: ProjectOf_def kvGet_def mem_Get_def demo_svc_kv key_defs)
  have q: "qget demo_post ''upload_id'' = ''''" "qget demo_post ''uploadType'' = ''media''" "qget demo_post ''name'' = ''a/b''"
    "preconditionsOf demo_post = Ok noPreconditions"
    by (simp_all add: qget_def demo_post_def preconditionsOf_def optionalNamed_def noPreconditions_def)
  have "api_ServeHTTP demo_cfg CtxLive demo_post ?u = upload demo_cfg CtxLive demo_post [''bucket'' \<mapsto> ''bkt''] ?u"
    using serve_route [of demo_post _ _ demo_cfg CtxLive ?u] upload_route [OF plain] by (simp add: run_handler_def demo_post_def)
  also have "\<dots> = (Ok (writeJSON 200 (BObject (toAPIObject ob ''http://h''))), ?u\<lparr>upSvc := s'\<rparr>)"
    using w by (simp add: upload_def onProject_def orFail_def param_def proj q answer_def write_body_def demo_cfg_def demo_write_def)
      (simp add: demo_post_def)
  finally have post: "api_ServeHTTP demo_cfg CtxLive demo_post ?u = (Ok (writeJSON 200 (BObject (toAPIObject ob ''http://h''))), ?u\<lparr>upSvc := s'\<rparr>)" .
  have link: "aoSelfLink (toAPIObject ob ''http://h'') = rqBase demo_post @ rqPath demo_get"
    using nm by (simp add: toAPIObject_def Let_def self_link_def demo_write_def demo_post_def demo_get_def escapeObject_eq PathEscape_def
        escape_char_def shouldEscape_def alnum_def hex_digits_def)
  show ?thesis
    using uploaded_object_read_by_link [OF _ _ plain q(1) _ _ _ _ _ _ _ _ post _ _ link] demo_svc_run demo_svc_roomy demo_hashes_good proj q(2,3) post
    by (simp add: demo_post_def demo_get_def demo_cfg_def writeJSON_def unconditional_def)
qed

end
