(* ===== verification/State_Archive.thy ===== *)
theory State_Archive
  imports Pub_Sub_Inv Fault_Rules Blob_Store
begin

text \<open>
  Snapshots of a whole emulator (\<open>state/state.go\<close> and \<open>stateSnapshot\<close> of \<open>cloudrig.go\<close>): the store, the
  stored content, the armed faults, a virtual clock and the unacknowledged messages, packed into an
  archive and loaded back.

  A tar archive is the list of its entries, with the error its reader ends with, if any.  The JSON
  encoding of the manifest is a parameter; what the code relies on is that decoding inverts it on the
  manifest written.  The store and the clock are those of the Pub/Sub service, which shares them with the
  others.  \<open>shas\<close> lists the files the walk over the stored content visits.
\<close>

subsection \<open>The archive (state.go)\<close>

definition manifestName :: string where "manifestName = ''manifest.json''"
definition blobPrefix :: string where "blobPrefix = ''blobs/''"
definition formatVer :: int where "formatVer = 3"

type_synonym pending = "nat \<times> (string \<Rightarrow> message list)"

record runtime =
  rtFaults :: "rule list"
  rtClock :: "time option"
  rtPubSub :: "pending option"

definition noRuntime :: runtime where
  "noRuntime = \<lparr>rtFaults = [], rtClock = None, rtPubSub = None\<rparr>"

record 'v manifest =
  mfVersion :: int
  mfEntries :: "'v kv list"
  mfRuntime :: runtime

type_synonym archive = "(string \<times> string) list \<times> goerr option"

definition state_Write ::
  "('v manifest \<Rightarrow> string) \<Rightarrow> string list \<Rightarrow> 'v kv list \<Rightarrow> blob_store \<Rightarrow> runtime \<Rightarrow> archive" where
  "state_Write enc shas entries blobs rt =
     ((manifestName, enc \<lparr>mfVersion = formatVer, mfEntries = entries, mfRuntime = rt\<rparr>) #
      map (\<lambda>(i, c). (blobPrefix @ dec i, c)) (enumerate 0 (List.map_filter (bsFiles blobs) shas)), None)"

fun read_entries ::
  "hashes \<Rightarrow> (string \<Rightarrow> (goerr, 'v manifest) result) \<Rightarrow> (string \<times> string) list \<Rightarrow> goerr option
     \<Rightarrow> runtime \<Rightarrow> 'v memory \<times> blob_store \<Rightarrow> (goerr, runtime) result \<times> 'v memory \<times> blob_store" where
  "read_entries H decode [] err rt s =
     (case err of None \<Rightarrow> (Ok rt, s) | Some e \<Rightarrow> (Err (Wrapped (Msg ''state: read archive: %w'' []) e), s))"
| "read_entries H decode ((name, data) # es) err rt (kv, blobs) =
     (if name = manifestName
      then (case decode data of
              Err e \<Rightarrow> (Err (Wrapped (Msg ''state: decode manifest: %w'' []) e), kv, blobs)
            | Ok m \<Rightarrow>
                if mfVersion m < 1 \<or> formatVer < mfVersion m
                then (Err (Plain (Msg ''state: unsupported snapshot version %d'' [itoa (mfVersion m)])), kv, blobs)
                else read_entries H decode es err (mfRuntime m) (mem_Restore (mfEntries m), blobs))
      else if prefix blobPrefix name
      then (case blob_Put H CtxLive data blobs of
              (Err e, blobs1) \<Rightarrow> (Err (Plain (Msg ''state: restore blob: %w'' [])), kv, blobs1)
            | (Ok _, blobs1) \<Rightarrow> read_entries H decode es err rt (kv, blobs1))
      else read_entries H decode es err rt (kv, blobs))"

definition state_Read ::
  "hashes \<Rightarrow> (string \<Rightarrow> (goerr, 'v manifest) result) \<Rightarrow> archive \<Rightarrow> 'v memory \<Rightarrow> blob_store
     \<Rightarrow> (goerr, runtime) result \<times> 'v memory \<times> blob_store" where
  "state_Read H decode a kv blobs = read_entries H decode (fst a) (snd a) noRuntime (kv, blobs)"

subsection \<open>The emulator's snapshot (cloudrig.go)\<close>

record 'h emu =
  emMemory :: bool
  emVirtual :: bool
  emPS :: "'h ps"
  emBlobs :: blob_store
  emFaults :: fault_set

definition clockState :: "'h emu \<Rightarrow> time option" where
  "clockState e = (if emVirtual e then Some (ckNow (psClock (emPS e))) else None)"

definition WriteSnapshot :: "(psval manifest \<Rightarrow> string) \<Rightarrow> string list \<Rightarrow> 'h emu \<Rightarrow> (goerr, archive) result" where
  "WriteSnapshot enc shas e =
     (if \<not> emMemory e
      then Err (GErr (New FailedPrecondition (Msg ''snapshot needs an in-memory emulator; a --data-dir store persists on disk already'' [])) None)
      else Ok (state_Write enc shas (mem_Snapshot (psKV (emPS e))) (emBlobs e)
             \<lparr>rtFaults = Snapshot (emFaults e), rtClock = clockState e, rtPubSub = Some (Pending_ps (emPS e))\<rparr>))"

definition ReadSnapshot ::
  "hashes \<Rightarrow> (string \<Rightarrow> (goerr, psval manifest) result) \<Rightarrow> string list \<Rightarrow> archive \<Rightarrow> 'h emu \<Rightarrow> (goerr, unit) result \<times> 'h emu" where
  "ReadSnapshot H decode subs a e =
     (if \<not> emMemory e
      then (Err (GErr (New FailedPrecondition (Msg ''restore needs an in-memory emulator'' [])) None), e)
      else
        (case state_Read H decode a (psKV (emPS e)) (emBlobs e) of
           (r, kv, blobs) \<Rightarrow>
             let e1 = e\<lparr>emPS := (emPS e)\<lparr>psKV := kv\<rparr>, emBlobs := blobs\<rparr>
             in case r of
                  Err err \<Rightarrow> (Err err, e1)
                | Ok rt \<Rightarrow>
                    let flt = foldl (\<lambda>s rl. Add rl s) (Clear (emFaults e1)) (rtFaults rt);
                        ps1 = (case rtClock rt of
                                 Some now \<Rightarrow> if emVirtual e then (emPS e1)\<lparr>psClock := SetNow now (psClock (emPS e1))\<rparr> else emPS e1
                               | None \<Rightarrow> emPS e1);
                        ps2 = (case rtPubSub rt of
                                 Some (seq, msgs) \<Rightarrow> RestorePending subs seq msgs ps1
                               | None \<Rightarrow> RestorePending subs 0 (\<lambda>_. []) ps1)
                    in (Ok (), e1\<lparr>emFaults := flt, emPS := ps2\<rparr>)))"

subsection \<open>Reading back\<close>

text \<open>The manifest a snapshot of the emulator carries.\<close>

definition emu_manifest :: "'h emu \<Rightarrow> psval manifest" where
  "emu_manifest e = \<lparr>mfVersion = formatVer, mfEntries = mem_Snapshot (psKV (emPS e)),
     mfRuntime = \<lparr>rtFaults = Snapshot (emFaults e), rtClock = clockState e, rtPubSub = Some (Pending_ps (emPS e))\<rparr>\<rparr>"

abbreviation put_all :: "hashes \<Rightarrow> string list \<Rightarrow> blob_store \<Rightarrow> blob_store" where
  "put_all H cs b \<equiv> foldl (\<lambda>b c. snd (blob_Put H CtxLive c b)) b cs"

lemma read_blobs:
  "read_entries H decode (map (\<lambda>(i, c). (blobPrefix @ dec i, c)) (enumerate n cs)) None rt (kv, b) = (Ok rt, kv, put_all H cs b)"
proof (induction cs arbitrary: n b)
  case (Cons c cs)
  have "blobPrefix @ dec n \<noteq> manifestName" by (simp add: blobPrefix_def manifestName_def)
  then show ?case using Cons blob_Put_ref [of H c b] by (cases "blob_Put H CtxLive c b") simp
qed simp

lemma put_all_files:
  assumes "collision_free H"
  shows "blob_wf H b \<Longrightarrow> c \<in> set cs \<or> bsFiles b (hSha256 H c) = Some c \<Longrightarrow> bsFiles (put_all H cs b) (hSha256 H c) = Some c"
proof (induction cs arbitrary: b)
  case (Cons x cs)
  note P = blob_wf_ops(2) [OF Cons.prems(1), of CtxLive x] blob_Put_content [OF Cons.prems(1) assms, of x]
  have "c \<in> set cs \<or> bsFiles (snd (blob_Put H CtxLive x b)) (hSha256 H c) = Some c"
    using Cons.prems(2) P(2) assms by (auto simp: collision_free_def dest: injD)
  then show ?case using Cons.IH [OF P(1)] by simp
qed simp

lemma state_roundtrip:
  assumes "decode (enc \<lparr>mfVersion = formatVer, mfEntries = entries, mfRuntime = rt\<rparr>) =
    Ok \<lparr>mfVersion = formatVer, mfEntries = entries, mfRuntime = rt\<rparr>"
  shows "state_Read H decode (state_Write enc shas entries blobs rt) kv b =
    (Ok rt, mem_Restore entries, put_all H (List.map_filter (bsFiles blobs) shas) b)"
  using assms by (simp add: state_Read_def state_Write_def read_blobs) (simp add: formatVer_def)

lemma restored_blob:
  assumes "collision_free H" and "blob_wf H blobs" and "blob_wf H b" and "set shas = dom (bsFiles blobs)"
    and "blob_Open sha blobs = Ok c"
  shows "blob_Open sha (put_all H (List.map_filter (bsFiles blobs) shas) b) = Ok c"
proof -
  have sha: "bsFiles blobs sha = Some c" using assms(5) by (simp add: blob_Open_def split: option.splits)
  then have "c \<in> set (List.map_filter (bsFiles blobs) shas)" using assms(4) by (force simp: List.map_filter_def dom_def)
  moreover have "hSha256 H c = sha" using sha assms(2) by (simp add: blob_wf_def)
  ultimately show ?thesis using put_all_files [OF assms(1,3), of c] by (auto simp: blob_Open_def)
qed

lemma stop_leases_now: "ckNow (stop_leases ls c) = ckNow c"
  by (induction ls c rule: stop_leases.induct) simp_all

lemma restored_clock: "ckNow (psClock (RestorePending subs seq msgs s)) = ckNow (psClock s)"
proof -
  have "ckNow (foldl (\<lambda>c sub. stop_leases (f sub) c) c subs) = ckNow c" for f and c :: "(string \<times> string) fakeClock"
    by (induction subs arbitrary: c) (simp_all add: stop_leases_now)
  then show ?thesis by (simp add: RestorePending_fields)
qed

lemma restored_store: "psKV (RestorePending subs seq msgs s) = psKV s"
proof -
  have "psKV (foldl (\<lambda>t sub. if P sub then signal sub t else t) t xs) = psKV t" for P xs and t :: "'a ps"
    by (induction xs arbitrary: t) (simp_all add: signal_def)
  then show ?thesis by (simp add: RestorePending_def Let_def)
qed

subsection \<open>Properties\<close>

text \<open>
  C5: a snapshot of a running emulator restores it in any other one: the store has the same entries
  and versions, every unacknowledged message is pending again with the same id counter, every stored
  content can be opened, the armed faults match the same requests with as many firings left, and a
  virtual clock shows the same time in a virtual clock.
\<close>

theorem snapshot_restores_emulator:
  fixes e e' :: "'h emu"
  assumes "decode (enc (emu_manifest e)) = Ok (emu_manifest e)" and "collision_free H" and "blob_wf H (emBlobs e)" and "blob_wf H (emBlobs e')"
    and "set shas = dom (bsFiles (emBlobs e))" and "mem_wf (psKV (emPS e))" and "fault_wf (emFaults e)"
    and "\<forall>sub. snd (Pending_ps (emPS e)) sub \<noteq> [] \<longrightarrow> is_ok (mem_Get CtxLive (subscriptionKey sub) (psKV (emPS e)))"
    and "emMemory e'" and "WriteSnapshot enc shas e = Ok a"
  shows "\<exists>e2. ReadSnapshot H decode subs a e' = (Ok (), e2) \<and>
    psKV (emPS e2) = psKV (emPS e) \<and> Pending_ps (emPS e2) = Pending_ps (emPS e) \<and>
    (\<forall>sha c. blob_Open sha (emBlobs e) = Ok c \<longrightarrow> blob_Open sha (emBlobs e2) = Ok c) \<and>
    map (\<lambda>l. ((lvRule l)\<lparr>rCount := 0\<rparr>, lvLeft l)) (emFaults e2) = map (\<lambda>l. ((lvRule l)\<lparr>rCount := 0\<rparr>, lvLeft l)) (emFaults e) \<and>
    (emVirtual e \<and> emVirtual e' \<longrightarrow> ckNow (psClock (emPS e2)) = ckNow (psClock (emPS e)))"
proof -
  let ?rt = "\<lparr>rtFaults = Snapshot (emFaults e), rtClock = clockState e, rtPubSub = Some (Pending_ps (emPS e))\<rparr>"
  let ?b = "put_all H (List.map_filter (bsFiles (emBlobs e)) shas) (emBlobs e')"
  let ?p0 = "(emPS e')\<lparr>psKV := psKV (emPS e)\<rparr>"
  let ?p1 = "if emVirtual e \<and> emVirtual e' then ?p0\<lparr>psClock := SetNow (ckNow (psClock (emPS e))) (psClock (emPS e'))\<rparr> else ?p0"
  let ?p2 = "RestorePending subs (fst (Pending_ps (emPS e))) (snd (Pending_ps (emPS e))) ?p1"
  let ?e2 = "e'\<lparr>emPS := ?p2, emBlobs := ?b, emFaults := foldl (\<lambda>s rl. Add rl s) [] (Snapshot (emFaults e))\<rparr>"
  have a: "a = state_Write enc shas (mem_Snapshot (psKV (emPS e))) (emBlobs e) ?rt"
    using assms(10) by (simp add: WriteSnapshot_def split: if_splits)
  have "state_Read H decode a (psKV (emPS e')) (emBlobs e') = (Ok ?rt, psKV (emPS e), ?b)"
    unfolding a state_roundtrip [of decode enc, OF assms(1) [unfolded emu_manifest_def]] by (simp add: mem_Restore_Snapshot [OF assms(6)])
  then have rd: "ReadSnapshot H decode subs a e' = (Ok (), ?e2)"
    using assms(9) by (cases "Pending_ps (emPS e)") (simp add: ReadSnapshot_def Let_def clockState_def Clear_def)
  have kv: "psKV ?p1 = psKV (emPS e)" by simp
  have "Pending_ps ?p2 = Pending_ps (emPS e)"
    using pending_roundtrip [of "emPS e" ?p1 subs] assms(8) by (simp only: kv)
  moreover have "emVirtual e \<and> emVirtual e' \<longrightarrow> ckNow (psClock ?p2) = ckNow (psClock (emPS e))" by (simp add: restored_clock SetNow_def)
  moreover have "psKV ?p2 = psKV (emPS e)" by (simp add: restored_store)
  ultimately show ?thesis
    using rd restored_blob [OF assms(2-5)] snapshot_keeps_remaining_firings [OF assms(7)]
    by (intro exI [of _ ?e2]) simp
qed

definition demo_emu :: "unit emu" where
  "demo_emu = \<lparr>emMemory = True, emVirtual = True, emPS = demo_ps,
     emBlobs = snd (blob_Put demo_hashes CtxLive ''ab'' (New_blobs ''r'')), emFaults = Add (demo_rule 2 (Fl 0 0)) []\<rparr>"

definition fresh_emu :: "unit emu" where
  "fresh_emu = \<lparr>emMemory = True, emVirtual = True, emPS = New_ps NewMemory (NewFake 9) None,
     emBlobs = New_blobs ''q'', emFaults = []\<rparr>"

theorem snapshot_restores_emulator_witness:
  "\<exists>a e2. WriteSnapshot (\<lambda>_. ''m'') [''hab''] demo_emu = Ok a \<and>
     ReadSnapshot demo_hashes (\<lambda>s. if s = ''m'' then Ok (emu_manifest demo_emu) else Err (Plain (Msg ''bad'' []))) [demo_sub] a fresh_emu = (Ok (), e2) \<and>
     psKV (emPS e2) = demo_kv \<and> mset (snd (Pending_ps (emPS e2)) demo_sub) = {#demo_msg ''1'', demo_msg ''2''#} \<and>
     blob_Open ''hab'' (emBlobs e2) = Ok ''ab'' \<and> ckNow (psClock (emPS e2)) = 0"
proof -
  let ?dec = "\<lambda>s. if s = ''m'' then Ok (emu_manifest demo_emu) else Err (Plain (Msg ''bad'' []))"
  obtain a where a: "WriteSnapshot (\<lambda>_. ''m'') [''hab''] demo_emu = Ok a" by (simp add: WriteSnapshot_def demo_emu_def)
  have files: "bsFiles (emBlobs demo_emu) = [''hab'' \<mapsto> ''ab'']"
    by (simp add: demo_emu_def blob_Put_def Let_def hashes_ref_def demo_hashes_def New_blobs_def)
  have wf: "blob_wf demo_hashes (emBlobs demo_emu)" "blob_wf demo_hashes (emBlobs fresh_emu)"
    by (simp_all add: demo_emu_def fresh_emu_def blob_wf_ops)
  have kv: "mem_wf (psKV (emPS demo_emu))"
    by (simp add: demo_emu_def demo_ps_fields demo_kv_def mem_Put_wf key_room_def NewMemory_def [THEN arg_cong [of _ _ memM]])
  have flt: "fault_wf (emFaults demo_emu)" by (simp add: demo_emu_def Add_fault_wf fault_wf_def [of "[]"])
  have live: "\<forall>sub. snd (Pending_ps (emPS demo_emu)) sub \<noteq> [] \<longrightarrow> is_ok (mem_Get CtxLive (subscriptionKey sub) (psKV (emPS demo_emu)))"
    by (auto simp: demo_emu_def Pending_ps_def demo_ps_fields sort_byID_def demo_msgs_def demo_live)
  have pend: "mset (snd (Pending_ps (emPS demo_emu)) demo_sub) = {#demo_msg ''1'', demo_msg ''2''#}"
    using pending_roundtrip_witness by (simp add: demo_emu_def)
  have "blob_Open ''hab'' (emBlobs demo_emu) = Ok ''ab''" by (simp add: blob_Open_def files)
  moreover have "ckNow (psClock (emPS demo_emu)) = 0" "emVirtual demo_emu" "emVirtual fresh_emu" "psKV (emPS demo_emu) = demo_kv"
    by (simp_all add: demo_emu_def fresh_emu_def demo_ps_fields NewFake_def)
  ultimately show ?thesis
    using snapshot_restores_emulator [of ?dec "\<lambda>_. ''m''" demo_emu demo_hashes fresh_emu "[''hab'']" a "[demo_sub]",
        OF _ demo_hashes_ok(1) wf _ kv flt live _ a] a pend
    by (fastforce simp: files fresh_emu_def)
qed

end
