(* ===== verification/Cloud_Run.thy ===== *)
theory Cloud_Run
  imports Gerr
begin

text \<open>
  Cloud Run (\<open>services/cloudrun\<close>): the registry of running services (\<open>registry.go\<close>, \<open>service.go\<close>), the
  Knative shapes a service is sent and read in (\<open>model.go\<close>), and the framing of a container's log
  (\<open>demultiplex\<close> of \<open>docker.go\<close>).

  Whether a container or a process came up is decided by the Docker daemon, the Go toolchain and the
  program run: the outcome of a launch (the address it listens on, or why it failed) is an argument.
  An instance is identified by the number of launches before it; \<open>rgLive\<close> is the set of those whose
  container or process was started and has been neither stopped nor removed since.
\<close>

subsection \<open>Services (service.go)\<close>

definition DefaultProject :: string where "DefaultProject = ''cloudrig-local''"
definition DefaultLocation :: string where "DefaultLocation = ''us-central1''"

record run_service =
  rsProject :: string
  rsLocation :: string
  rsName :: string
  rsImage :: string
  rsSource :: string
  rsEnv :: "string list"
  rsMemory :: string
  rsCPU :: string
  rsGeneration :: int

definition noService :: run_service where
  "noService = \<lparr>rsProject = '''', rsLocation = '''', rsName = '''', rsImage = '''', rsSource = '''', rsEnv = [],
     rsMemory = '''', rsCPU = '''', rsGeneration = 0\<rparr>"

definition orDefault :: "string \<Rightarrow> string \<Rightarrow> string" where
  "orDefault s d = (if s = '''' then d else s)"

definition resolve :: "run_service \<Rightarrow> (goerr, run_service) result" where
  "resolve s =
     (if rsName s = '''' then Err (Plain (Msg ''a service needs a name'' []))
      else if rsImage s = '''' \<and> rsSource s = ''''
      then Err (Plain (Msg ''service %s: an image or a source directory is required'' [rsName s]))
      else if rsImage s \<noteq> '''' \<and> rsSource s \<noteq> ''''
      then Err (Plain (Msg ''service %s: give an image or a source directory, not both'' [rsName s]))
      else Ok (s\<lparr>rsProject := orDefault (rsProject s) DefaultProject,
                 rsLocation := orDefault (rsLocation s) DefaultLocation,
                 rsGeneration := (if rsGeneration s < 1 then 1 else rsGeneration s)\<rparr>))"

definition run_ResourceName :: "run_service \<Rightarrow> string" where
  "run_ResourceName s = ''projects/'' @ rsProject s @ ''/locations/'' @ rsLocation s @ ''/services/'' @ rsName s"

text \<open>\<open>%05d\<close>.\<close>

definition pad5 :: "int \<Rightarrow> string" where
  "pad5 g = (if g < 0 then CHR ''-'' # zero_pad 4 (dec (nat (- g))) else zero_pad 5 (dec (nat g)))"

definition Revision :: "run_service \<Rightarrow> string" where
  "Revision s = rsName s @ ''-'' @ pad5 (rsGeneration s) @ ''-cri''"

definition run_key :: "string \<Rightarrow> string \<Rightarrow> string \<Rightarrow> string" where
  "run_key project location name = join_with ''/'' [project, location, name]"

abbreviation svc_key :: "run_service \<Rightarrow> string" where
  "svc_key s \<equiv> run_key (rsProject s) (rsLocation s) (rsName s)"

subsection \<open>The registry (registry.go)\<close>

record run_inst =
  riID :: nat
  riName :: string
  riProject :: string
  riLocation :: string
  riRevision :: string
  riAddr :: string
  riContainer :: bool

definition new_inst :: "nat \<Rightarrow> run_service \<Rightarrow> string \<Rightarrow> run_inst" where
  "new_inst i s addr = \<lparr>riID = i, riName = rsName s, riProject = rsProject s, riLocation = rsLocation s,
     riRevision = Revision s, riAddr = addr, riContainer = (rsImage s \<noteq> '''')\<rparr>"

record run_registry =
  rgServices :: "string \<rightharpoonup> run_inst"
  rgDeployed :: "string \<rightharpoonup> run_service"
  rgGeneration :: "string \<Rightarrow> int"
  rgDeploying :: "string set"
  rgNext :: nat
  rgLive :: "nat set"

definition NewRegistry :: run_registry where
  "NewRegistry = \<lparr>rgServices = Map.empty, rgDeployed = Map.empty, rgGeneration = (\<lambda>_. 0), rgDeploying = {},
     rgNext = 0, rgLive = {}\<rparr>"

definition run_Stop :: "run_inst \<Rightarrow> run_registry \<Rightarrow> run_registry" where
  "run_Stop i r = r\<lparr>rgLive := rgLive r - {riID i}\<rparr>"

definition stop_opt :: "run_inst option \<Rightarrow> run_registry \<Rightarrow> run_registry" where
  "stop_opt oi r = (case oi of None \<Rightarrow> r | Some i \<Rightarrow> run_Stop i r)"

text \<open>
  A deploy holds its service's gate from \<open>deploy_lock\<close>, which numbers the revision, to \<open>deploy_end\<close>.  The
  registry's own lock is held only while \<open>deploy_commit\<close> swaps the instances.
\<close>

definition deploy_lock :: "run_service \<Rightarrow> run_registry \<Rightarrow> run_service \<times> run_registry" where
  "deploy_lock s r =
     (s\<lparr>rsGeneration := i64 (rgGeneration r (svc_key s) + 1)\<rparr>, r\<lparr>rgDeploying := insert (svc_key s) (rgDeploying r)\<rparr>)"

definition deploy_end :: "run_service \<Rightarrow> run_registry \<Rightarrow> run_registry" where
  "deploy_end s r = r\<lparr>rgDeploying := rgDeploying r - {svc_key s}\<rparr>"

text \<open>
  A launch starts the container or process, which then runs while \<open>awaitListen\<close> waits for it; when the
  wait fails the launch removes it again.
\<close>

definition deploy_launch :: "run_registry \<Rightarrow> nat \<times> run_registry" where
  "deploy_launch r = (rgNext r, r\<lparr>rgNext := Suc (rgNext r), rgLive := insert (rgNext r) (rgLive r)\<rparr>)"

definition deploy_abort :: "nat \<Rightarrow> run_registry \<Rightarrow> run_registry" where
  "deploy_abort n r = r\<lparr>rgLive := rgLive r - {n}\<rparr>"

definition deploy_commit :: "run_service \<Rightarrow> nat \<Rightarrow> string \<Rightarrow> run_registry \<Rightarrow> run_inst option \<times> run_registry" where
  "deploy_commit s n addr r =
     (let k = svc_key s
      in (rgServices r k,
          r\<lparr>rgServices := (rgServices r)(k \<mapsto> new_inst n s addr), rgDeployed := (rgDeployed r)(k \<mapsto> s),
            rgGeneration := (rgGeneration r)(k := rsGeneration s)\<rparr>))"

type_synonym launcher = "run_service \<Rightarrow> string list \<Rightarrow> (goerr, string) result"

definition run_Deploy ::
  "launcher \<Rightarrow> launcher \<Rightarrow> run_service \<Rightarrow> string list \<Rightarrow> run_registry \<Rightarrow> (goerr, run_service) result \<times> run_registry" where
  "run_Deploy startContainer start svc oEnv r =
     (case resolve svc of
        Err e \<Rightarrow> (Err e, r)
      | Ok s \<Rightarrow>
          let env = rsEnv s @ oEnv; (s1, r1) = deploy_lock s r; (n, r2) = deploy_launch r1
          in case (if rsImage s1 \<noteq> '''' then startContainer s1 env else start s1 env) of
               Err e \<Rightarrow> (Err e, deploy_end s1 (deploy_abort n r2))
             | Ok addr \<Rightarrow> let (previous, r3) = deploy_commit s1 n addr r2 in (Ok s1, deploy_end s1 (stop_opt previous r3)))"

definition run_Instance :: "string \<Rightarrow> string \<Rightarrow> string \<Rightarrow> run_registry \<Rightarrow> run_inst option" where
  "run_Instance project location name r =
     rgServices r (run_key (orDefault project DefaultProject) (orDefault location DefaultLocation) name)"

definition run_Describe :: "string \<Rightarrow> string \<Rightarrow> string \<Rightarrow> run_registry \<Rightarrow> run_service option" where
  "run_Describe project location name r =
     rgDeployed r (run_key (orDefault project DefaultProject) (orDefault location DefaultLocation) name)"

text \<open>A Go map is ranged over in any order: \<open>order\<close> lists the keys as one iteration visits them.\<close>

definition run_List :: "string list \<Rightarrow> string \<Rightarrow> string \<Rightarrow> run_registry \<Rightarrow> run_service list" where
  "run_List order project location r =
     sort_key rsName
       (filter (\<lambda>s. (project = '''' \<or> rsProject s = project) \<and>
                    (location = '''' \<or> location = ''-'' \<or> rsLocation s = location))
         (List.map_filter (rgDeployed r) order))"

text \<open>\<open>Delete\<close> forgets the service under the lock and stops it after.\<close>

definition delete_forget :: "string \<Rightarrow> run_registry \<Rightarrow> run_inst option \<times> run_registry" where
  "delete_forget k r = (rgServices r k, r\<lparr>rgServices := (rgServices r)(k := None), rgDeployed := (rgDeployed r)(k := None)\<rparr>)"

definition run_Delete :: "string \<Rightarrow> string \<Rightarrow> string \<Rightarrow> run_registry \<Rightarrow> (goerr, unit) result \<times> run_registry" where
  "run_Delete project location name r =
     (case delete_forget (run_key (orDefault project DefaultProject) (orDefault location DefaultLocation) name) r of
        (None, r1) \<Rightarrow> (Err (Plain (Msg ''service %s not found'' [name])), r1)
      | (Some i, r1) \<Rightarrow> (Ok (), run_Stop i r1))"

definition forget_all :: "run_registry \<Rightarrow> run_registry" where
  "forget_all r = r\<lparr>rgServices := Map.empty, rgDeployed := Map.empty\<rparr>"

definition run_StopAll :: "string list \<Rightarrow> run_registry \<Rightarrow> run_registry" where
  "run_StopAll order r = foldl (\<lambda>r i. run_Stop i r) (forget_all r) (List.map_filter (rgServices r) order)"

definition route_prefix :: "run_service \<Rightarrow> string" where
  "route_prefix s = ''/'' @ rsLocation s @ ''-'' @ rsProject s @ ''/'' @ rsName s"

fun run_Route :: "string list \<Rightarrow> string \<Rightarrow> run_registry \<Rightarrow> (run_inst \<times> string) option" where
  "run_Route [] path r = None"
| "run_Route (k # ks) path r =
     (case rgDeployed r k of
        None \<Rightarrow> run_Route ks path r
      | Some s \<Rightarrow>
          if \<not> hasPrefix path (route_prefix s) then run_Route ks path r
          else let rest = drop (length (route_prefix s)) path
               in if rest \<noteq> '''' \<and> \<not> hasPrefix rest ''/'' then run_Route ks path r
                  else case rgServices r k of
                         Some i \<Rightarrow> Some (i, if rest = '''' then ''/'' else rest)
                       | None \<Rightarrow> run_Route ks path r)"

subsection \<open>Deploys, deletes and stops at once\<close>

text \<open>
  What a goroutine inside an operation still has to do.  A deploy waits for its gate, builds, waits for
  what it started to listen, and retires the previous instance; a delete or a shutdown stops what it took
  out of the registry.
\<close>

datatype run_op =
  Waiting run_service
| Building run_service
| Starting run_service nat
| Retiring run_service "run_inst option"
| Stopping "run_inst list"

text \<open>
  The states the registry can reach, with the operations in flight and the log of the revisions that came
  up: every operation is cut where the code gives up a lock, and the pieces interleave in any order.
\<close>

inductive run_sys :: "run_registry \<Rightarrow> (nat \<rightharpoonup> run_op) \<Rightarrow> (string \<times> int) list \<Rightarrow> bool" where
  start: "run_sys NewRegistry Map.empty []"
| request: "run_sys r p l \<Longrightarrow> p t = None \<Longrightarrow> resolve svc = Ok s \<Longrightarrow> run_sys r (p(t \<mapsto> Waiting s)) l"
| lock: "run_sys r p l \<Longrightarrow> p t = Some (Waiting s) \<Longrightarrow> svc_key s \<notin> rgDeploying r \<Longrightarrow>
    run_sys (snd (deploy_lock s r)) (p(t \<mapsto> Building (fst (deploy_lock s r)))) l"
| fails: "run_sys r p l \<Longrightarrow> p t = Some (Building s) \<Longrightarrow> run_sys (deploy_end s r) (p(t := None)) l"
| launch: "run_sys r p l \<Longrightarrow> p t = Some (Building s) \<Longrightarrow>
    run_sys (snd (deploy_launch r)) (p(t \<mapsto> Starting s (fst (deploy_launch r)))) l"
| dies: "run_sys r p l \<Longrightarrow> p t = Some (Starting s n) \<Longrightarrow> run_sys (deploy_end s (deploy_abort n r)) (p(t := None)) l"
| commit: "run_sys r p l \<Longrightarrow> p t = Some (Starting s n) \<Longrightarrow>
    run_sys (snd (deploy_commit s n addr r)) (p(t \<mapsto> Retiring s (fst (deploy_commit s n addr r)))) (l @ [(svc_key s, rsGeneration s)])"
| retire: "run_sys r p l \<Longrightarrow> p t = Some (Retiring s prev) \<Longrightarrow> run_sys (deploy_end s (stop_opt prev r)) (p(t := None)) l"
| delete: "run_sys r p l \<Longrightarrow> p t = None \<Longrightarrow> delete_forget k r = (Some i, r') \<Longrightarrow> run_sys r' (p(t \<mapsto> Stopping [i])) l"
| stopAll: "run_sys r p l \<Longrightarrow> p t = None \<Longrightarrow> set is = ran (rgServices r) \<Longrightarrow> distinct is \<Longrightarrow>
    run_sys (forget_all r) (p(t \<mapsto> Stopping is)) l"
| stop: "run_sys r p l \<Longrightarrow> p t = Some (Stopping (i # is)) \<Longrightarrow> run_sys (run_Stop i r) (p(t \<mapsto> Stopping is)) l"
| stopped: "run_sys r p l \<Longrightarrow> p t = Some (Stopping []) \<Longrightarrow> run_sys r (p(t := None)) l"

text \<open>The instances an operation has started and not registered yet, or taken out of the registry and not stopped yet.\<close>

primrec op_ids :: "run_op \<Rightarrow> nat list" where
  "op_ids (Waiting s) = []"
| "op_ids (Building s) = []"
| "op_ids (Starting s n) = [n]"
| "op_ids (Retiring s prev) = (case prev of None \<Rightarrow> [] | Some i \<Rightarrow> [riID i])"
| "op_ids (Stopping is) = map riID is"

definition taken :: "(nat \<rightharpoonup> run_op) \<Rightarrow> nat \<Rightarrow> nat list" where
  "taken p t = (case p t of None \<Rightarrow> [] | Some u \<Rightarrow> op_ids u)"

lemma taken_upd [simp]: "taken (p(t := u)) = (taken p)(t := (case u of None \<Rightarrow> [] | Some v \<Rightarrow> op_ids v))"
  by (auto simp: taken_def)

lemma taken_upd_if [simp]:
  "taken (\<lambda>a. if a = t then u else p a) = (taken p)(t := (case u of None \<Rightarrow> [] | Some v \<Rightarrow> op_ids v))"
  by (auto simp: taken_def)

lemma taken_at: "p t = None \<Longrightarrow> taken p t = []" "p t = Some u \<Longrightarrow> taken p t = op_ids u"
  by (simp_all add: taken_def)

text \<open>Every live instance has one owner: the registry, or the one operation bringing it up or about to stop it.\<close>

definition owned :: "(string \<rightharpoonup> run_inst) \<Rightarrow> nat set \<Rightarrow> nat \<Rightarrow> (nat \<Rightarrow> nat list) \<Rightarrow> bool" where
  "owned R L n q \<longleftrightarrow>
     (\<forall>x\<in>L. x < n) \<and>
     (\<forall>k k' i i'. R k = Some i \<longrightarrow> R k' = Some i' \<longrightarrow> riID i = riID i' \<longrightarrow> k = k') \<and>
     (\<forall>t k i. R k = Some i \<longrightarrow> riID i \<notin> set (q t)) \<and>
     (\<forall>t. distinct (q t)) \<and> (\<forall>t u x. x \<in> set (q t) \<longrightarrow> x \<in> set (q u) \<longrightarrow> t = u) \<and>
     (\<forall>x. x \<in> L \<longleftrightarrow> (\<exists>k. x \<in> riID ` set_option (R k)) \<or> (\<exists>t. x \<in> set (q t)))"

lemma ownedD:
  assumes "owned R L n q"
  shows "R k = Some i \<Longrightarrow> riID i < n" and "x \<in> set (q t) \<Longrightarrow> x < n"
    and "R k = Some i \<Longrightarrow> R k' = Some i' \<Longrightarrow> riID i = riID i' \<Longrightarrow> k' = k"
    and "R k = Some i \<Longrightarrow> riID i \<notin> set (q t)" and "distinct (q t)"
    and "x \<in> set (q t) \<Longrightarrow> x \<in> set (q u) \<Longrightarrow> u = t"
    and "x \<in> L \<longleftrightarrow> (\<exists>k. x \<in> riID ` set_option (R k)) \<or> (\<exists>t. x \<in> set (q t))"
  using assms unfolding owned_def by blast+

lemma ownedI:
  assumes "\<And>k i. R k = Some i \<Longrightarrow> riID i < n" and "\<And>t x. x \<in> set (q t) \<Longrightarrow> x < n"
    and "\<And>k k' i i'. R k = Some i \<Longrightarrow> R k' = Some i' \<Longrightarrow> riID i = riID i' \<Longrightarrow> k = k'"
    and "\<And>t k i. R k = Some i \<Longrightarrow> riID i \<notin> set (q t)" and "\<And>t. distinct (q t)"
    and "\<And>t u x. x \<in> set (q t) \<Longrightarrow> x \<in> set (q u) \<Longrightarrow> t = u"
    and "\<And>x. x \<in> L \<longleftrightarrow> (\<exists>k. x \<in> riID ` set_option (R k)) \<or> (\<exists>t. x \<in> set (q t))"
  shows "owned R L n q"
proof -
  have "x < n" if "x \<in> L" for x using that assms(1,2) unfolding assms(7) by auto
  then show ?thesis unfolding owned_def using assms(3-7) by (intro conjI allI impI ballI) simp_all
qed

lemma ex_upd: "(\<exists>u. P ((f(t := v)) u)) \<longleftrightarrow> P v \<or> (\<exists>u. u \<noteq> t \<and> P (f u))"
  by auto

lemma ex_at: "(\<exists>u. P (f u)) \<longleftrightarrow> P (f t) \<or> (\<exists>u. u \<noteq> t \<and> P (f u))"
  by auto

lemma owned_idle: "owned R L n q \<Longrightarrow> q t = [] \<Longrightarrow> owned R L n (q(t := []))"
  by (simp add: fun_upd_idem)

lemma owned_forget:
  assumes "owned R L n q" and "q t = []" and "R k = Some j"
  shows "owned (R(k := None)) L n (q(t := [riID j]))"
proof (rule ownedI)
  note D = ownedD [OF assms(1)]
  show "x \<in> L \<longleftrightarrow> (\<exists>k'. x \<in> riID ` set_option ((R(k := None)) k')) \<or> (\<exists>u. x \<in> set ((q(t := [riID j])) u))" for x
    unfolding D(7) ex_upd [where P = "\<lambda>a. x \<in> riID ` set_option a"] ex_upd [where P = "\<lambda>a. x \<in> set a"]
      ex_at [where P = "\<lambda>a. x \<in> riID ` set_option a" and t = k] ex_at [where P = "\<lambda>a. x \<in> set a" and t = t]
    using assms(2,3) by auto
  show "u = v" if "x \<in> set ((q(t := [riID j])) u)" "x \<in> set ((q(t := [riID j])) v)" for u v x
    using that D(4) [OF assms(3)] D(6) by (auto split: if_splits)
  show "riID i \<notin> set ((q(t := [riID j])) u)" if "(R(k := None)) k' = Some i" for u k' i
    using that D(4) D(3) [OF assms(3)] by (auto split: if_splits)
qed (use ownedD [OF assms(1)] assms(3) in \<open>auto split: if_splits\<close>)

lemma owned_launch:
  assumes "owned R L n q" and "q t = []"
  shows "owned R (insert n L) (Suc n) (q(t := [n]))"
proof (rule ownedI)
  note D = ownedD [OF assms(1)]
  show "x \<in> insert n L \<longleftrightarrow> (\<exists>k. x \<in> riID ` set_option (R k)) \<or> (\<exists>u. x \<in> set ((q(t := [n])) u))" for x
    unfolding insert_iff D(7) ex_upd [where P = "\<lambda>a. x \<in> set a"] ex_at [where P = "\<lambda>a. x \<in> set a" and t = t]
    using assms(2) by auto
  show "u = v" if "x \<in> set ((q(t := [n])) u)" "x \<in> set ((q(t := [n])) v)" for u v x
    using that D(6) D(2) [of n] by (auto split: if_splits)
  show "riID i \<notin> set ((q(t := [n])) u)" if "R k = Some i" for u k i using D(4) [OF that] D(1) [OF that] by auto
  show "riID i < Suc n" if "R k = Some i" for k i using D(1) [OF that] by simp
  show "x < Suc n" if "x \<in> set ((q(t := [n])) u)" for x u using that D(2) [of x u] by (auto split: if_splits intro: less_SucI)
qed (use ownedD(3,5) [OF assms(1)] in auto)

lemma owned_register:
  assumes "owned R L n q" and "q t = [riID i]" and "R k = None"
  shows "owned (R(k \<mapsto> i)) L n (q(t := []))"
proof (rule ownedI)
  note D = ownedD [OF assms(1)]
  have off: "riID i \<notin> set (q u)" if "u \<noteq> t" for u using D(6) [of "riID i" t u] assms(2) that by auto
  have new: "riID j \<noteq> riID i" if "R k' = Some j" for k' j using D(4) [OF that, of t] assms(2) by auto
  show "x \<in> L \<longleftrightarrow> (\<exists>k'. x \<in> riID ` set_option ((R(k \<mapsto> i)) k')) \<or> (\<exists>u. x \<in> set ((q(t := [])) u))" for x
    unfolding D(7) ex_upd [where P = "\<lambda>a. x \<in> set a"] ex_at [where P = "\<lambda>a. x \<in> set a" and t = t]
      ex_upd [where P = "\<lambda>a. x \<in> riID ` set_option a"] ex_at [where P = "\<lambda>a. x \<in> riID ` set_option a" and t = k]
    using assms(2,3) by auto
  show "k1 = k2" if "(R(k \<mapsto> i)) k1 = Some i1" "(R(k \<mapsto> i)) k2 = Some i2" "riID i1 = riID i2" for k1 k2 i1 i2
    using that D(3) new new [symmetric] by (cases "k1 = k"; cases "k2 = k") auto
  show "riID j \<notin> set ((q(t := [])) u)" if "(R(k \<mapsto> i)) k' = Some j" for u k' j
    using that D(4) off by (auto split: if_splits)
  show "riID j < n" if "(R(k \<mapsto> i)) k' = Some j" for k' j
    using that D(1) D(2) [of "riID i" t] assms(2) by (auto split: if_splits)
qed (use ownedD [OF assms(1)] in \<open>auto split: if_splits\<close>)

lemma owned_swap:
  assumes "owned R L n q" and "q t = [riID i]"
  shows "owned (R(k \<mapsto> i)) L n (q(t := (case R k of None \<Rightarrow> [] | Some j \<Rightarrow> [riID j])))"
proof (cases "R k")
  case None
  then show ?thesis using owned_register [OF assms None] by simp
next
  case (Some j)
  note D = ownedD [OF assms(1)]
  have off: "riID i \<notin> set (q u)" if "u \<noteq> t" for u using D(6) [of "riID i" t u] assms(2) that by auto
  have new: "riID j \<noteq> riID i" if "R k' = Some j" for k' j using D(4) [OF that, of t] assms(2) by auto
  have offj: "riID j \<notin> set (q u)" for u using D(4) [OF Some] .
  have "owned (R(k \<mapsto> i)) L n (q(t := [riID j]))"
  proof (rule ownedI)
    show "x \<in> L \<longleftrightarrow> (\<exists>k'. x \<in> riID ` set_option ((R(k \<mapsto> i)) k')) \<or> (\<exists>u. x \<in> set ((q(t := [riID j])) u))" for x
      unfolding D(7) ex_upd [where P = "\<lambda>a. x \<in> set a"] ex_at [where P = "\<lambda>a. x \<in> set a" and t = t]
        ex_upd [where P = "\<lambda>a. x \<in> riID ` set_option a"] ex_at [where P = "\<lambda>a. x \<in> riID ` set_option a" and t = k]
      using assms(2) Some by auto
    show "k1 = k2" if "(R(k \<mapsto> i)) k1 = Some i1" "(R(k \<mapsto> i)) k2 = Some i2" "riID i1 = riID i2" for k1 k2 i1 i2
      using that D(3) new new [symmetric] by (cases "k1 = k"; cases "k2 = k") auto
    show "riID m \<notin> set ((q(t := [riID j])) u)" if "(R(k \<mapsto> i)) k' = Some m" for u k' m
      using that D(4) D(3) [OF Some, of k' m] off offj [of t] assms(2) by (auto split: if_splits)
    show "riID m < n" if "(R(k \<mapsto> i)) k' = Some m" for k' m
      using that D(1) D(2) [of "riID i" t] assms(2) by (auto split: if_splits)
    show "u = v" if "x \<in> set ((q(t := [riID j])) u)" "x \<in> set ((q(t := [riID j])) v)" for u v x
      using that D(6) offj by (auto split: if_splits)
  qed (use D Some in \<open>auto split: if_splits\<close>)
  with Some show ?thesis by simp
qed

lemma owned_forget_all:
  assumes "owned R L n q" and "q t = []" and "set is = ran R" and "distinct is"
  shows "owned Map.empty L n (q(t := map riID is))"
proof (rule ownedI)
  note D = ownedD [OF assms(1)]
  have in_is: "j \<in> set is \<longleftrightarrow> (\<exists>k. R k = Some j)" for j using assms(3) by (auto simp: ran_def)
  have "inj_on riID (set is)"
  proof (rule inj_onI)
    fix a b assume "a \<in> set is" "b \<in> set is" "riID a = riID b"
    then obtain k k' where R: "R k = Some a" "R k' = Some b" by (auto simp: in_is)
    from D(3) [OF this \<open>riID a = riID b\<close>] R show "a = b" by simp
  qed
  then show "distinct ((q(t := map riID is)) u)" for u using assms(4) D(5) by (simp add: distinct_map)
  show "x \<in> L \<longleftrightarrow> (\<exists>k. x \<in> riID ` set_option (Map.empty k)) \<or> (\<exists>u. x \<in> set ((q(t := map riID is)) u))" for x
    unfolding D(7) ex_upd [where P = "\<lambda>a. x \<in> set a"] ex_at [where P = "\<lambda>a. x \<in> set a" and t = t]
    using assms(2) in_is by (auto simp: image_iff Bex_def)
  show "u = v" if "x \<in> set ((q(t := map riID is)) u)" "x \<in> set ((q(t := map riID is)) v)" for u v x
    using that D(4) D(6) in_is by (auto split: if_splits)
  show "x < n" if "x \<in> set ((q(t := map riID is)) u)" for u x using that D(1,2) in_is by (auto split: if_splits)
qed simp_all

lemma owned_stop:
  assumes "owned R L n q" and "q t = x # xs"
  shows "owned R (L - {x}) n (q(t := xs))"
proof (rule ownedI)
  note D = ownedD [OF assms(1)]
  have d: "x \<notin> set xs" "distinct xs" using D(5) [of t] assms(2) by simp_all
  have off: "x \<notin> set (q u)" if "u \<noteq> t" for u using D(6) [of x t u] assms(2) that by auto
  have "x \<notin> riID ` set_option (R k)" for k using D(4) [of k _ t] assms(2) by (auto simp: image_iff)
  then show "y \<in> L - {x} \<longleftrightarrow> (\<exists>k. y \<in> riID ` set_option (R k)) \<or> (\<exists>u. y \<in> set ((q(t := xs)) u))" for y
    unfolding Diff_iff singleton_iff D(7) ex_upd [where P = "\<lambda>a. y \<in> set a"] ex_at [where P = "\<lambda>a. y \<in> set a" and t = t]
    using assms(2) d off by auto
  show "distinct ((q(t := xs)) u)" for u using D(5) d(2) by simp
  show "riID i \<notin> set ((q(t := xs)) u)" if "R k = Some i" for u k i using D(4) [OF that, of u] D(4) [OF that, of t] assms(2) by auto
  show "u = v" if "y \<in> set ((q(t := xs)) u)" "y \<in> set ((q(t := xs)) v)" for u v y
  proof -
    have "y \<in> set (q u)" "y \<in> set (q v)" using that assms(2) by (auto split: if_splits)
    from D(6) [OF this] show ?thesis by simp
  qed
  show "y < n" if "y \<in> set ((q(t := xs)) u)" for u y using that D(2) [of y u] assms(2) by (auto split: if_splits)
qed (use ownedD [OF assms(1)] in auto)

text \<open>The registry's two maps agree, and every live instance has one owner.\<close>

definition reg_inv :: "run_registry \<Rightarrow> (nat \<rightharpoonup> run_op) \<Rightarrow> bool" where
  "reg_inv r p \<longleftrightarrow> owned (rgServices r) (rgLive r) (rgNext r) (taken p) \<and>
     (\<forall>k. map_option riRevision (rgServices r k) = map_option Revision (rgDeployed r k))"

lemma stop_opt_fields [simp]:
  "rgServices (stop_opt i r) = rgServices r" "rgDeployed (stop_opt i r) = rgDeployed r" "rgGeneration (stop_opt i r) = rgGeneration r"
  "rgDeploying (stop_opt i r) = rgDeploying r" "rgNext (stop_opt i r) = rgNext r"
  "rgLive (stop_opt i r) = rgLive r - set (case i of None \<Rightarrow> [] | Some j \<Rightarrow> [riID j])"
  by (simp_all add: stop_opt_def run_Stop_def split: option.split)

lemma run_sys_reg_inv: "run_sys r p l \<Longrightarrow> reg_inv r p"
proof (induction rule: run_sys.induct)
  case start
  show ?case by (simp add: reg_inv_def owned_def NewRegistry_def taken_def)
next
  case (launch r p l t s)
  then show ?case using owned_launch [of "rgServices r" "rgLive r" "rgNext r" "taken p" t]
    by (simp add: reg_inv_def taken_at deploy_launch_def)
next
  case (dies r p l t s n)
  then show ?case using owned_stop [of "rgServices r" "rgLive r" "rgNext r" "taken p" t n "[]"]
    by (simp add: reg_inv_def taken_at deploy_end_def deploy_abort_def)
next
  case (commit r p l t s n addr)
  then show ?case
    using owned_swap [of "rgServices r" "rgLive r" "rgNext r" "taken p" t "new_inst n s addr" "svc_key s"]
    by (auto simp: reg_inv_def taken_at deploy_commit_def Let_def new_inst_def simp del: fun_upd_apply) simp_all
next
  case (retire r p l t s prev)
  then show ?case using owned_stop [of "rgServices r" "rgLive r" "rgNext r" "taken p" t]
    by (cases prev) (auto simp: reg_inv_def taken_at deploy_end_def owned_idle)
next
  case (delete r p l t k i r')
  then show ?case using owned_forget [of "rgServices r" "rgLive r" "rgNext r" "taken p" t k i]
    by (auto simp: reg_inv_def taken_at delete_forget_def)
next
  case (stopAll r p l t "is")
  then show ?case using owned_forget_all [of "rgServices r" "rgLive r" "rgNext r" "taken p" t "is"]
    by (simp add: reg_inv_def taken_at forget_all_def)
next
  case (stop r p l t i "is")
  then show ?case using owned_stop [of "rgServices r" "rgLive r" "rgNext r" "taken p" t "riID i" "map riID is"]
    by (simp add: reg_inv_def taken_at run_Stop_def)
qed (simp_all add: reg_inv_def taken_at owned_idle deploy_lock_def deploy_end_def)

text \<open>The gate a deploy holds.\<close>

primrec op_gate :: "run_op \<Rightarrow> string option" where
  "op_gate (Waiting s) = None"
| "op_gate (Building s) = Some (svc_key s)"
| "op_gate (Starting s n) = Some (svc_key s)"
| "op_gate (Retiring s prev) = Some (svc_key s)"
| "op_gate (Stopping is) = None"

definition gate_inv :: "run_registry \<Rightarrow> (nat \<rightharpoonup> run_op) \<Rightarrow> bool" where
  "gate_inv r p \<longleftrightarrow>
     (\<forall>t u k. p t = Some u \<longrightarrow> op_gate u = Some k \<longrightarrow> k \<in> rgDeploying r) \<and>
     (\<forall>t t' u u' k. p t = Some u \<longrightarrow> p t' = Some u' \<longrightarrow> op_gate u = Some k \<longrightarrow> op_gate u' = Some k \<longrightarrow> t = t') \<and>
     (\<forall>t s. p t = Some (Building s) \<or> (\<exists>n. p t = Some (Starting s n)) \<longrightarrow> rsGeneration s = i64 (rgGeneration r (svc_key s) + 1))"

lemma gate_inv_free: "gate_inv r p \<Longrightarrow> op_gate u = None \<Longrightarrow> gate_inv r (p(t \<mapsto> u))"
  unfolding gate_inv_def by (cases u) (auto split: if_splits)

lemma gate_inv_done: "gate_inv r p \<Longrightarrow> p t = Some u \<Longrightarrow> op_gate u = None \<Longrightarrow> gate_inv r (p(t := None))"
  unfolding gate_inv_def by auto

lemma gate_inv_reg:
  "gate_inv r p \<Longrightarrow> rgDeploying r' = rgDeploying r \<Longrightarrow> rgGeneration r' = rgGeneration r \<Longrightarrow> gate_inv r' p"
  by (simp add: gate_inv_def)

lemma gate_inv_lock:
  assumes "gate_inv r p" and "svc_key s \<notin> rgDeploying r"
  shows "gate_inv (snd (deploy_lock s r)) (p(t \<mapsto> Building (fst (deploy_lock s r))))"
  using assms unfolding gate_inv_def deploy_lock_def by (auto split: if_splits)

lemma gate_inv_end:
  assumes "gate_inv r p" and "p t = Some u" and "op_gate u = Some (svc_key s)"
  shows "gate_inv (deploy_end s r) (p(t := None))"
  using assms unfolding gate_inv_def deploy_end_def by (auto split: if_splits)

lemma gate_inv_launch:
  assumes "gate_inv r p" and "p t = Some (Building s)"
  shows "gate_inv (snd (deploy_launch r)) (p(t \<mapsto> Starting s n))"
proof -
  have "op_gate (Starting s n) = op_gate (Building s)" by simp
  then show ?thesis using assms unfolding gate_inv_def deploy_launch_def by (auto split: if_splits)
qed

lemma gate_inv_commit:
  assumes "gate_inv r p" and "p t = Some (Starting s n)"
  shows "gate_inv (snd (deploy_commit s n addr r)) (p(t \<mapsto> Retiring s prev))"
proof -
  have "svc_key s' \<noteq> svc_key s" if "p t' = Some (Building s') \<or> (\<exists>m. p t' = Some (Starting s' m))" "t' \<noteq> t" for t' s'
    using assms that unfolding gate_inv_def by (metis op_gate.simps(2,3))
  moreover have "op_gate (Retiring s prev) = op_gate (Starting s n)" by simp
  ultimately show ?thesis using assms unfolding gate_inv_def deploy_commit_def Let_def
    by (auto split: if_splits)
qed

lemma run_sys_gate_inv: "run_sys r p l \<Longrightarrow> gate_inv r p"
proof (induction rule: run_sys.induct)
  case start
  show ?case by (simp add: gate_inv_def)
next
  case (request r p l t svc s)
  then show ?case using gate_inv_free [of r p "Waiting s" t] by (simp add: fun_upd_def)
next
  case (lock r p l t s)
  then show ?case using gate_inv_lock [of r p s t] by (simp add: fun_upd_def)
next
  case (fails r p l t s)
  then show ?case using gate_inv_end [of r p t "Building s" s] by (simp add: fun_upd_def)
next
  case (launch r p l t s)
  then show ?case using gate_inv_launch [of r p t s] by (simp add: fun_upd_def)
next
  case (dies r p l t s n)
  then show ?case using gate_inv_end [OF gate_inv_reg [of r p "deploy_abort n r"], of t "Starting s n" s] by (simp add: fun_upd_def deploy_abort_def)
next
  case (commit r p l t s n addr)
  then show ?case using gate_inv_commit [of r p t s n addr] by (simp add: fun_upd_def)
next
  case (retire r p l t s prev)
  then show ?case using gate_inv_end [OF gate_inv_reg [of r p "stop_opt prev r"], of t "Retiring s prev" s] by (simp add: fun_upd_def)
next
  case (delete r p l t k i r')
  then show ?case using gate_inv_free [OF gate_inv_reg [of r p r'], of "Stopping [i]" t] by (auto simp: delete_forget_def fun_upd_def)
next
  case (stopAll r p l t "is")
  then show ?case using gate_inv_free [of "forget_all r" p "Stopping is" t] gate_inv_reg [of r p "forget_all r"]
    by (simp add: forget_all_def fun_upd_def)
next
  case (stop r p l t i "is")
  then show ?case using gate_inv_free [of "run_Stop i r" p "Stopping is" t] gate_inv_reg [of r p "run_Stop i r"]
    by (simp add: run_Stop_def fun_upd_def)
next
  case (stopped r p l t)
  then show ?case using gate_inv_done [of r p t "Stopping []"] by (simp add: fun_upd_def)
qed

text \<open>As long as the counter does not overflow, the revisions of a service are numbered from 1 on.\<close>

definition revisions :: "string \<Rightarrow> (string \<times> int) list \<Rightarrow> int list" where
  "revisions k l = map snd (filter (\<lambda>e. fst e = k) l)"

definition log_inv :: "(string \<Rightarrow> int) \<Rightarrow> (string \<times> int) list \<Rightarrow> bool" where
  "log_inv G l \<longleftrightarrow> int (length l) \<le> max_i64 \<longrightarrow>
     (\<forall>k. revisions k l = map (\<lambda>i. int i + 1) [0..<length (revisions k l)] \<and> G k = int (length (revisions k l)))"

lemma revisions_snoc: "revisions k (l @ [(k', g)]) = (if k' = k then revisions k l @ [g] else revisions k l)"
  by (simp add: revisions_def)

lemma log_inv_commit:
  assumes "log_inv G l" and "g = i64 (G k + 1)"
  shows "log_inv (G(k := g)) (l @ [(k, g)])"
  unfolding log_inv_def
proof (intro impI allI)
  fix k'
  assume b: "int (length (l @ [(k, g)])) \<le> max_i64"
  then have "int (length l) \<le> max_i64" by simp
  then have I: "revisions h l = map (\<lambda>i. int i + 1) [0..<length (revisions h l)]" "G h = int (length (revisions h l))" for h
    using assms(1) unfolding log_inv_def by blast+
  have "length (revisions k l) \<le> length l" by (simp add: revisions_def)
  then have "g = int (Suc (length (revisions k l)))"
    using b assms(2) I(2) [of k] by (simp add: i64_id min_i64_def)
  then show "revisions k' (l @ [(k, g)]) = map (\<lambda>i. int i + 1) [0..<length (revisions k' (l @ [(k, g)]))] \<and>
      (G(k := g)) k' = int (length (revisions k' (l @ [(k, g)])))"
    using I(1) [of k'] I(2) [of k'] I(1) [of k] by (simp add: revisions_snoc)
qed

lemma run_sys_log_inv: "run_sys r p l \<Longrightarrow> log_inv (rgGeneration r) l"
proof (induction rule: run_sys.induct)
  case start
  show ?case by (simp add: log_inv_def revisions_def NewRegistry_def)
next
  case (commit r p l t s n addr)
  have "rsGeneration s = i64 (rgGeneration r (svc_key s) + 1)"
    using run_sys_gate_inv [OF commit.hyps(1)] commit.hyps(2) unfolding gate_inv_def by blast
  with commit show ?case using log_inv_commit [of "rgGeneration r" l "rsGeneration s" "svc_key s"]
    by (simp add: deploy_commit_def Let_def fun_upd_def)
next
  case (delete r p l t k i r')
  then show ?case by (auto simp: delete_forget_def)
qed (simp_all add: deploy_lock_def deploy_end_def deploy_launch_def deploy_abort_def forget_all_def run_Stop_def)

text \<open>A deploy nothing interleaves with is a run of these steps.\<close>

lemma Deploy_runs:
  assumes "run_sys r p l" and "p t = None" and "\<forall>s. resolve svc = Ok s \<longrightarrow> svc_key s \<notin> rgDeploying r"
  shows "\<exists>l'. run_sys (snd (run_Deploy startContainer start svc env r)) p l'"
proof (cases "resolve svc")
  case (Err e)
  then show ?thesis using assms(1) by (auto simp: run_Deploy_def)
next
  case (Ok s)
  obtain s1 r1 where L: "deploy_lock s r = (s1, r1)" by (cases "deploy_lock s r")
  have b: "run_sys r1 (p(t \<mapsto> Building s1)) l"
    using run_sys.lock [OF run_sys.request [OF assms(1,2) Ok], of t s] assms(3) Ok L by simp
  obtain n r2 where N: "deploy_launch r1 = (n, r2)" by (cases "deploy_launch r1")
  have c: "run_sys r2 (p(t \<mapsto> Starting s1 n)) l" using run_sys.launch [OF b, of t s1] N by simp
  show ?thesis
  proof (cases "if rsImage s1 \<noteq> '''' then startContainer s1 (rsEnv s @ env) else start s1 (rsEnv s @ env)")
    case (Err e)
    then show ?thesis using run_sys.dies [OF c, of t s1 n] assms(2) Ok L N by (auto simp: run_Deploy_def fun_upd_idem)
  next
    case addr: (Ok addr)
    obtain prev r3 where C: "deploy_commit s1 n addr r2 = (prev, r3)" by (cases "deploy_commit s1 n addr r2")
    have "run_sys r3 (p(t \<mapsto> Retiring s1 prev)) (l @ [(svc_key s1, rsGeneration s1)])"
      using run_sys.commit [OF c, of t s1 n addr] C by simp
    from run_sys.retire [OF this, of t s1 prev] show ?thesis
      using assms(2) Ok L N C addr by (auto simp: run_Deploy_def fun_upd_idem)
  qed
qed

subsection \<open>Properties of the registry\<close>

text \<open>
  C4: however deploys, deletes and shutdowns interleave, and whichever launches fail before or after
  their container started, what was started and not stopped is what the registry serves or what one
  operation in flight is bringing up or about to stop; an instance is registered under one name only;
  what the API describes is the revision being served; and once nothing is in flight, exactly the
  registered instances are left, so no container is leaked and no request is routed to a stopped one.
\<close>

theorem registry_serves_what_runs:
  assumes "run_sys r p l"
  shows "rgLive r = riID ` ran (rgServices r) \<union> (\<Union>u\<in>ran p. set (op_ids u)) \<and>
    (\<forall>i\<in>ran (rgServices r). \<forall>u\<in>ran p. riID i \<notin> set (op_ids u)) \<and>
    (\<forall>k k' i i'. rgServices r k = Some i \<and> rgServices r k' = Some i' \<and> riID i = riID i' \<longrightarrow> k = k') \<and>
    (\<forall>k. map_option riRevision (rgServices r k) = map_option Revision (rgDeployed r k)) \<and>
    (p = Map.empty \<longrightarrow> rgLive r = riID ` ran (rgServices r))"
proof -
  have o: "owned (rgServices r) (rgLive r) (rgNext r) (taken p)"
    and a: "\<forall>k. map_option riRevision (rgServices r k) = map_option Revision (rgDeployed r k)"
    using run_sys_reg_inv [OF assms] by (simp_all add: reg_inv_def)
  have reg: "(\<exists>k. x \<in> riID ` set_option (rgServices r k)) \<longleftrightarrow> x \<in> riID ` ran (rgServices r)" for x
    by (auto simp: ran_def image_iff Bex_def)
  have tk: "(\<exists>t. x \<in> set (taken p t)) \<longleftrightarrow> x \<in> (\<Union>u\<in>ran p. set (op_ids u))" for x
    by (auto simp: taken_def ran_def split: option.splits) metis+
  have L: "rgLive r = riID ` ran (rgServices r) \<union> (\<Union>u\<in>ran p. set (op_ids u))"
    using ownedD(7) [OF o] unfolding reg tk by auto
  moreover have "riID i \<notin> set (op_ids u)" if m: "i \<in> ran (rgServices r)" "u \<in> ran p" for i u
  proof -
    obtain k t where "rgServices r k = Some i" "p t = Some u" using m by (auto simp: ran_def)
    then show ?thesis using ownedD(4) [OF o, of k i t] by (simp add: taken_at)
  qed
  ultimately show ?thesis using a ownedD(3) [OF o] by auto
qed

text \<open>
  C20: the revisions of a service that come up are numbered 1, 2, 3 and so on, in the order they come up:
  concurrent deploys never share a revision number, and a failed deploy uses up none.
\<close>

theorem revisions_numbered_in_order:
  assumes "run_sys r p l" and "int (length l) \<le> max_i64"
  shows "revisions k l = map (\<lambda>i. int i + 1) [0..<length (revisions k l)] \<and> rgGeneration r k = int (length (revisions k l))"
  using run_sys_log_inv [OF assms(1)] assms(2) by (simp add: log_inv_def)

definition demo_svc :: run_service where
  "demo_svc = noService\<lparr>rsProject := ''p'', rsLocation := ''l'', rsName := ''s'', rsImage := ''img''\<rparr>"

definition demo_up :: launcher where "demo_up s env = Ok ''127.0.0.1:80''"

lemma demo_twice: "\<exists>l. run_sys (snd (run_Deploy demo_up demo_up demo_svc [] (snd (run_Deploy demo_up demo_up demo_svc [] NewRegistry)))) Map.empty l"
proof -
  have k: "rgDeploying (snd (run_Deploy demo_up demo_up demo_svc [] NewRegistry)) = {}"
    by (simp add: run_Deploy_def resolve_def demo_svc_def noService_def demo_up_def deploy_lock_def deploy_launch_def deploy_commit_def
        deploy_end_def Let_def NewRegistry_def)
  obtain l where "run_sys (snd (run_Deploy demo_up demo_up demo_svc [] NewRegistry)) Map.empty l"
    using Deploy_runs [OF run_sys.start, where svc = demo_svc and startContainer = demo_up and start = demo_up and env = "[]"] by (auto simp: NewRegistry_def)
  from Deploy_runs [OF this, where svc = demo_svc and startContainer = demo_up and start = demo_up and env = "[]"] k show ?thesis by auto
qed

theorem registry_serves_what_runs_witness:
  "rgLive (snd (run_Deploy demo_up demo_up demo_svc [] (snd (run_Deploy demo_up demo_up demo_svc [] NewRegistry)))) = {1}"
proof -
  obtain l where "run_sys (snd (run_Deploy demo_up demo_up demo_svc [] (snd (run_Deploy demo_up demo_up demo_svc [] NewRegistry)))) Map.empty l"
    using demo_twice by blast
  from registry_serves_what_runs [OF this]
  have "rgLive (snd (run_Deploy demo_up demo_up demo_svc [] (snd (run_Deploy demo_up demo_up demo_svc [] NewRegistry)))) =
    riID ` ran (rgServices (snd (run_Deploy demo_up demo_up demo_svc [] (snd (run_Deploy demo_up demo_up demo_svc [] NewRegistry)))))" by blast
  then show ?thesis
    by (simp add: run_Deploy_def resolve_def demo_svc_def noService_def demo_up_def deploy_lock_def deploy_launch_def deploy_commit_def
        deploy_end_def Let_def NewRegistry_def orDefault_def new_inst_def stop_opt_def run_Stop_def)
qed

theorem revisions_numbered_in_order_witness:
  "\<exists>r p. run_sys r p [(svc_key demo_svc, 1)] \<and> revisions (svc_key demo_svc) [(svc_key demo_svc, 1)] = [1] \<and> rgGeneration r (svc_key demo_svc) = 1"
proof -
  let ?s = "demo_svc\<lparr>rsGeneration := 1\<rparr>"
  have "run_sys NewRegistry [0 \<mapsto> Waiting ?s] []"
    by (rule run_sys.request [OF run_sys.start, where svc = demo_svc]) (simp_all add: resolve_def demo_svc_def noService_def orDefault_def)
  from run_sys.lock [OF this, of 0 ?s]
  have "run_sys (snd (deploy_lock ?s NewRegistry)) [0 \<mapsto> Building ?s] []"
    by (simp add: deploy_lock_def NewRegistry_def i64_def)
  from run_sys.launch [OF this, of 0 ?s]
  have "run_sys (snd (deploy_launch (snd (deploy_lock ?s NewRegistry)))) [0 \<mapsto> Starting ?s 0] []"
    by (simp add: deploy_launch_def deploy_lock_def NewRegistry_def)
  from run_sys.commit [OF this, of 0 ?s 0 "''a''"]
  obtain r p where R: "run_sys r p [(svc_key demo_svc, 1)]" by auto
  from revisions_numbered_in_order [OF R, of "svc_key demo_svc"] R show ?thesis
    by (auto simp: revisions_def max_i64_def)
qed

end
