(* ===== verification/Cloud_Run_Api.thy ===== *)
theory Cloud_Run_Api
  imports Cloud_Run Http_Router "HOL-Library.AList"
begin

text \<open>
  The Cloud Run Admin API (\<open>services/cloudrun/api.go\<close>): the Knative shapes of \<open>model.go\<close>, the handlers over
  the registry and their routes; and \<open>demultiplex\<close> of \<open>docker.go\<close>, which strips the framing of a container's
  output.  A request carries its body as decoded; a reply is the value the handler encodes.
\<close>

subsection \<open>Knative shapes (model.go)\<close>

record kn_meta =
  kmName :: string
  kmNamespace :: string
  kmLabels :: "(string \<times> string) list"
  kmAnnotations :: "(string \<times> string) list"
  kmUID :: string
  kmGeneration :: int

record kn_container =
  kcImage :: string
  kcEnv :: "(string \<times> string) list"
  kcPorts :: "(string \<times> int) list"
  kcResources :: "(string \<times> string) list option option"  \<comment> \<open>a nil \<open>Resources\<close>, a nil \<open>Limits\<close> in it\<close>

record kn_status =
  ksURL :: string
  ksReady :: string
  ksCreated :: string
  ksObserved :: int
  ksConditions :: "(string \<times> string) list"
  ksTraffic :: "(string \<times> int \<times> bool) list"

record knative =
  knAPIVersion :: string
  knKind :: string
  knMeta :: kn_meta
  knTemplateMeta :: kn_meta
  knContainers :: "kn_container list"
  knStatus :: "kn_status option"

record kn_revision =
  krAPIVersion :: string
  krKind :: string
  krMeta :: kn_meta
  krContainers :: "kn_container list"
  krStatus :: "kn_status option"

definition noMeta :: kn_meta where
  "noMeta = \<lparr>kmName = '''', kmNamespace = '''', kmLabels = [], kmAnnotations = [], kmUID = '''', kmGeneration = 0\<rparr>"

definition noStatus :: kn_status where
  "noStatus = \<lparr>ksURL = '''', ksReady = '''', ksCreated = '''', ksObserved = 0, ksConditions = [], ksTraffic = []\<rparr>"

definition SourcePrefix :: string where "SourcePrefix = ''source:''"

fun splitEnv :: "string \<Rightarrow> (string \<times> string) option" where
  "splitEnv [] = None"
| "splitEnv (c # s) = (if c = CHR ''='' then Some ('''', s) else map_option (apfst ((#) c)) (splitEnv s))"

definition GetLimits :: "(string \<times> string) list option option \<Rightarrow> (string \<times> string) list option" where
  "GetLimits res = (case res of None \<Rightarrow> None | Some limits \<Rightarrow> limits)"

definition toKnative :: "run_service \<Rightarrow> string \<Rightarrow> knative" where
  "toKnative svc url =
     (let limits = (if rsMemory svc \<noteq> '''' then [(''memory'', rsMemory svc)] else []) @
                   (if rsCPU svc \<noteq> '''' then [(''cpu'', rsCPU svc)] else []);
          cont = \<lparr>kcImage = (if rsImage svc = '''' then SourcePrefix @ rsSource svc else rsImage svc),
                  kcEnv = List.map_filter splitEnv (rsEnv svc), kcPorts = [],
                  kcResources = (if rsMemory svc \<noteq> '''' \<or> rsCPU svc \<noteq> '''' then Some (Some limits) else None)\<rparr>;
          revision = Revision svc
      in \<lparr>knAPIVersion = ''serving.knative.dev/v1'', knKind = ''Service'',
          knMeta = noMeta\<lparr>kmName := rsName svc, kmNamespace := rsProject svc, kmGeneration := rsGeneration svc,
            kmLabels := [(''cloud.googleapis.com/location'', rsLocation svc)],
            kmAnnotations := [(''run.googleapis.com/location'', rsLocation svc)]\<rparr>,
          knTemplateMeta = noMeta\<lparr>kmName := revision\<rparr>,
          knContainers = [cont],
          knStatus = Some \<lparr>ksURL = url, ksReady = revision, ksCreated = revision, ksObserved = rsGeneration svc,
            ksConditions = [(''Ready'', ''True''), (''ConfigurationsReady'', ''True''), (''RoutesReady'', ''True'')],
            ksTraffic = [(revision, 100, True)]\<rparr>\<rparr>)"

definition limit :: "(string \<times> string) list \<Rightarrow> string \<Rightarrow> string" where
  "limit limits k = (case map_of limits k of None \<Rightarrow> '''' | Some v \<Rightarrow> v)"

definition readKnative :: "knative \<Rightarrow> string \<Rightarrow> string \<Rightarrow> (goerr, run_service) result" where
  "readKnative k project location =
     (let svc = noService\<lparr>rsProject := (if kmNamespace (knMeta k) \<noteq> '''' then kmNamespace (knMeta k) else project),
                          rsLocation := location, rsName := kmName (knMeta k)\<rparr>
      in case knContainers k of
           [] \<Rightarrow> Ok svc
         | c # _ \<Rightarrow>
             let svc1 = (case cutPrefix (kcImage c) SourcePrefix of
                           Some source \<Rightarrow> svc\<lparr>rsSource := source\<rparr>
                         | None \<Rightarrow> svc\<lparr>rsImage := kcImage c\<rparr>);
                 svc2 = svc1\<lparr>rsEnv := map (\<lambda>(name, val). name @ ''='' @ val) (kcEnv c)\<rparr>
             in Ok (case GetLimits (kcResources c) of
                      Some limits \<Rightarrow> svc2\<lparr>rsMemory := limit limits ''memory'', rsCPU := limit limits ''cpu''\<rparr>
                    | None \<Rightarrow> svc2))"

definition ErrSourceOverNetwork :: goerr where
  "ErrSourceOverNetwork = Plain (Msg (''a source directory cannot be deployed over the API, because it runs a program on the '' @
     ''emulator's machine: deploy an image, or use cloudrun.Registry.Deploy from your own code'') [])"

definition fromKnative :: "knative \<Rightarrow> string \<Rightarrow> string \<Rightarrow> (goerr, run_service) result" where
  "fromKnative k project location =
     (case readKnative k project location of
        Err e \<Rightarrow> Err e
      | Ok svc \<Rightarrow> if rsSource svc \<noteq> '''' then Err ErrSourceOverNetwork else Ok svc)"

definition toRevision :: "run_service \<Rightarrow> kn_revision" where
  "toRevision svc =
     \<lparr>krAPIVersion = ''serving.knative.dev/v1'', krKind = ''Revision'',
      krMeta = noMeta\<lparr>kmName := Revision svc, kmNamespace := rsProject svc,
        kmLabels := [(''cloud.googleapis.com/location'', rsLocation svc), (''serving.knative.dev/service'', rsName svc),
                     (''serving.knative.dev/configuration'', rsName svc)]\<rparr>,
      krContainers = [\<lparr>kcImage = (if rsImage svc = '''' then SourcePrefix @ rsSource svc else rsImage svc),
        kcEnv = [], kcPorts = [], kcResources = None\<rparr>],
      krStatus = Some (noStatus\<lparr>ksConditions := [(''Ready'', ''True'')]\<rparr>)\<rparr>"

subsection \<open>Handlers (api.go)\<close>

record run_request =
  cqMethod :: string
  cqPath :: string
  cqHost :: string
  cqRegion :: string                            \<comment> \<open>the query parameter \<open>region\<close>\<close>
  cqParams :: string                            \<comment> \<open>the header \<open>X-Goog-Request-Params\<close>\<close>
  cqBody :: "(goerr, knative) result"           \<comment> \<open>the body, decoded as a service\<close>
  cqPermissions :: "string list"                \<comment> \<open>its field \<open>permissions\<close>\<close>
  cqPolicy :: "(string \<times> string) list option"   \<comment> \<open>its field \<open>policy\<close>\<close>
  cqOrder :: "string list"                      \<comment> \<open>the order in which the registry's map is ranged over\<close>

datatype run_body =
  KnService knative
| KnList "knative list"
| KnRevisions "kn_revision list"
| KnRevision kn_revision
| KnStatus
| GlobalService string string string string
| Permissions "string list"
| IamPolicy "(string \<times> string) list"
| EmptyPolicy
| DoneReply

type_synonym run_reply = "(goerr, run_body) result \<times> run_registry"

definition regionOf :: "run_request \<Rightarrow> string" where
  "regionOf q =
     (if cqRegion q \<noteq> '''' then cqRegion q
      else case go_cut (cqParams q) ''location='' of
             Some (_, after) \<Rightarrow> (case go_cut after ''&'' of Some (before, _) \<Rightarrow> before | None \<Rightarrow> after)
           | None \<Rightarrow> DefaultLocation)"

definition serviceURL :: "run_request \<Rightarrow> run_service \<Rightarrow> string" where
  "serviceURL q svc =
     ''http://'' @ (if cqHost q = '''' then ''localhost'' else cqHost q) @
     ''/'' @ rsLocation svc @ ''-'' @ rsProject svc @ ''/'' @ rsName svc"

definition run_err :: "gcode \<Rightarrow> int \<Rightarrow> gmsg \<Rightarrow> goerr" where
  "run_err c status m = GErr (WithHTTPStatus status (New c m)) None"

definition run_notFound :: "string \<Rightarrow> goerr" where
  "run_notFound name = run_err NotFound 404 (Msg ''service %s not found'' [name])"

definition run_deploy :: "launcher \<Rightarrow> launcher \<Rightarrow> run_request \<Rightarrow> run_service \<Rightarrow> run_registry \<Rightarrow> run_reply" where
  "run_deploy sc st q svc r =
     (case run_Deploy sc st svc [] r of
        (Err e, r1) \<Rightarrow> (Err (run_err FailedPrecondition 400 (Msg ''%s'' (err_text e))), r1)
      | (Ok s, r1) \<Rightarrow> (Ok (KnService (toKnative s (serviceURL q s))), r1))"

definition createKnative :: "launcher \<Rightarrow> launcher \<Rightarrow> run_request \<Rightarrow> params \<Rightarrow> run_registry \<Rightarrow> run_reply" where
  "createKnative sc st q p r =
     (case cqBody q of
        Err e \<Rightarrow> (Err (run_err InvalidArgument 400 (Msg ''malformed request body: %s'' (err_text e))), r)
      | Ok b \<Rightarrow>
          (case fromKnative b (param p ''namespace'') (regionOf q) of
             Err e \<Rightarrow> (Err (run_err InvalidArgument 400 (Msg ''%s'' (err_text e))), r)
           | Ok svc \<Rightarrow>
               if rsName svc = '''' then (Err (run_err InvalidArgument 400 (Msg ''metadata.name is required'' [])), r)
               else if run_Describe (rsProject svc) (rsLocation svc) (rsName svc) r \<noteq> None
               then (Err (run_err AlreadyExists 409 (Msg ''service %s already exists'' [rsName svc])), r)
               else run_deploy sc st q svc r))"

definition replaceKnative :: "launcher \<Rightarrow> launcher \<Rightarrow> run_request \<Rightarrow> params \<Rightarrow> run_registry \<Rightarrow> run_reply" where
  "replaceKnative sc st q p r =
     (case cqBody q of
        Err e \<Rightarrow> (Err (run_err InvalidArgument 400 (Msg ''malformed request body: %s'' (err_text e))), r)
      | Ok b \<Rightarrow>
          (case fromKnative b (param p ''namespace'') (regionOf q) of
             Err e \<Rightarrow> (Err (run_err InvalidArgument 400 (Msg ''%s'' (err_text e))), r)
           | Ok svc \<Rightarrow> run_deploy sc st q (svc\<lparr>rsName := orDefault (rsName svc) (param p ''name'')\<rparr>) r))"

definition getKnative :: "run_request \<Rightarrow> params \<Rightarrow> run_registry \<Rightarrow> run_reply" where
  "getKnative q p r =
     (case run_Describe (param p ''namespace'') (regionOf q) (param p ''name'') r of
        None \<Rightarrow> (Err (run_notFound (param p ''name'')), r)
      | Some svc \<Rightarrow> (Ok (KnService (toKnative svc (serviceURL q svc))), r))"

definition listKnative :: "run_request \<Rightarrow> params \<Rightarrow> run_registry \<Rightarrow> run_reply" where
  "listKnative q p r =
     (Ok (KnList (map (\<lambda>svc. toKnative svc (serviceURL q svc)) (run_List (cqOrder q) (param p ''namespace'') '''' r))), r)"

definition deleteKnative :: "run_request \<Rightarrow> params \<Rightarrow> run_registry \<Rightarrow> run_reply" where
  "deleteKnative q p r =
     (case run_Delete (param p ''namespace'') (regionOf q) (param p ''name'') r of
        (Err e, r1) \<Rightarrow> (Err (run_notFound (param p ''name'')), r1)
      | (Ok _, r1) \<Rightarrow> (Ok KnStatus, r1))"

definition listRevisions :: "run_request \<Rightarrow> params \<Rightarrow> run_registry \<Rightarrow> run_reply" where
  "listRevisions q p r = (Ok (KnRevisions (map toRevision (run_List (cqOrder q) (param p ''namespace'') '''' r))), r)"

definition getRevision :: "run_request \<Rightarrow> params \<Rightarrow> run_registry \<Rightarrow> run_reply" where
  "getRevision q p r =
     (case find (\<lambda>svc. Revision svc = param p ''name'') (run_List (cqOrder q) (param p ''namespace'') '''' r) of
        Some svc \<Rightarrow> (Ok (KnRevision (toRevision svc)), r)
      | None \<Rightarrow> (Err (run_notFound (param p ''name'')), r))"

definition listGlobal :: "run_request \<Rightarrow> params \<Rightarrow> run_registry \<Rightarrow> run_reply" where
  "listGlobal q p r =
     (let location = (if param p ''location'' = ''-'' then '''' else param p ''location'')
      in (Ok (KnList (map (\<lambda>svc. toKnative svc (serviceURL q svc)) (run_List (cqOrder q) (param p ''project'') location r))), r))"

definition globalService :: "run_service \<Rightarrow> string \<Rightarrow> run_body" where
  "globalService svc url =
     GlobalService (run_ResourceName svc) url (run_ResourceName svc @ ''/revisions/'' @ Revision svc) (rsImage svc)"

definition getGlobal :: "run_request \<Rightarrow> params \<Rightarrow> run_registry \<Rightarrow> run_reply" where
  "getGlobal q p r =
     (if map_option snd (go_cut (param p ''name'') '':'') = Some ''getIamPolicy'' then (Ok EmptyPolicy, r)
      else case run_Describe (param p ''project'') (param p ''location'') (param p ''name'') r of
             None \<Rightarrow> (Err (run_notFound (param p ''name'')), r)
           | Some svc \<Rightarrow> (Ok (globalService svc (serviceURL q svc)), r))"

definition run_serviceVerb :: "run_request \<Rightarrow> params \<Rightarrow> run_registry \<Rightarrow> run_reply" where
  "run_serviceVerb q p r =
     (case go_cut (param p ''name'') '':'' of
        None \<Rightarrow> (Err (run_err InvalidArgument 400 (Msg ''POST on a service needs a verb'' [])), r)
      | Some (name, verb) \<Rightarrow>
          if verb = ''testIamPermissions'' then (Ok (Permissions (cqPermissions q)), r)
          else if verb = ''setIamPolicy''
          then (Ok (IamPolicy (AList.update ''etag'' ''cloudrig'' (case cqPolicy q of None \<Rightarrow> [] | Some b \<Rightarrow> b))), r)
          else (Err (run_err Unimplemented 501 (Msg ''unsupported verb %s on service %s'' [verb, name])), r))"

definition deleteGlobal :: "run_request \<Rightarrow> params \<Rightarrow> run_registry \<Rightarrow> run_reply" where
  "deleteGlobal q p r =
     (case run_Delete (param p ''project'') (param p ''location'') (param p ''name'') r of
        (Err e, r1) \<Rightarrow> (Err (run_notFound (param p ''name'')), r1)
      | (Ok _, r1) \<Rightarrow> (Ok DoneReply, r1))"

datatype run_handler =
  HListKnative | HCreateKnative | HGetKnative | HReplaceKnative | HDeleteKnative | HListRevisions | HGetRevision
| HListGlobal | HGetGlobal | HDeleteGlobal | HServiceVerb

definition run_table :: "(string \<times> string \<times> run_handler) list" where
  "run_table =
     (let knative = ''/apis/serving.knative.dev/v1/namespaces/{namespace}/services'';
          revs = ''/apis/serving.knative.dev/v1/namespaces/{namespace}/revisions'';
          global = ''/v1/projects/{project}/locations/{location}/services''
      in [(''GET'', knative, HListKnative), (''POST'', knative, HCreateKnative), (''GET'', knative @ ''/{name}'', HGetKnative),
          (''PUT'', knative @ ''/{name}'', HReplaceKnative), (''DELETE'', knative @ ''/{name}'', HDeleteKnative),
          (''GET'', revs, HListRevisions), (''GET'', revs @ ''/{name}'', HGetRevision),
          (''GET'', global, HListGlobal), (''GET'', global @ ''/{name}'', HGetGlobal),
          (''DELETE'', global @ ''/{name}'', HDeleteGlobal), (''POST'', global @ ''/{name}'', HServiceVerb)])"

definition run_routes :: "run_handler route list" where
  "run_routes = foldl (\<lambda>rs (verb, pattern, h). Handle verb pattern h rs) [] run_table"

fun run_handle :: "launcher \<Rightarrow> launcher \<Rightarrow> run_request \<Rightarrow> run_handler \<Rightarrow> params \<Rightarrow> run_registry \<Rightarrow> run_reply" where
  "run_handle sc st q HListKnative p r = listKnative q p r"
| "run_handle sc st q HCreateKnative p r = createKnative sc st q p r"
| "run_handle sc st q HGetKnative p r = getKnative q p r"
| "run_handle sc st q HReplaceKnative p r = replaceKnative sc st q p r"
| "run_handle sc st q HDeleteKnative p r = deleteKnative q p r"
| "run_handle sc st q HListRevisions p r = listRevisions q p r"
| "run_handle sc st q HGetRevision p r = getRevision q p r"
| "run_handle sc st q HListGlobal p r = listGlobal q p r"
| "run_handle sc st q HGetGlobal p r = getGlobal q p r"
| "run_handle sc st q HDeleteGlobal p r = deleteGlobal q p r"
| "run_handle sc st q HServiceVerb p r = run_serviceVerb q p r"

definition run_ServeHTTP :: "launcher \<Rightarrow> launcher \<Rightarrow> run_request \<Rightarrow> run_registry \<Rightarrow> run_reply" where
  "run_ServeHTTP sc st q r = rt_ServeHTTP (run_handle sc st q) (cqMethod q) (cqPath q) run_routes r"

subsection \<open>The log framing (docker.go)\<close>

text \<open>The size in the last four bytes of a frame's header.\<close>

definition frame_size :: "string \<Rightarrow> nat" where
  "frame_size h = of_char (h ! 4) * 2 ^ 24 + of_char (h ! 5) * 2 ^ 16 + of_char (h ! 6) * 2 ^ 8 + of_char (h ! 7)"

function demultiplex :: "string \<Rightarrow> string" where
  "demultiplex s =
     (if length s < 8 then ''''
      else let size = frame_size (take 8 s); rest = drop 8 s
           in if length rest < size then rest else take size rest @ demultiplex (drop size rest))"
  by auto
termination by (relation "measure length") auto

declare demultiplex.simps [simp del]

text \<open>A frame as the daemon writes it: the stream, three zero bytes, the size and the payload.\<close>

definition be32 :: "nat \<Rightarrow> string" where
  "be32 n = [char_of (n div 2 ^ 24), char_of (n div 2 ^ 16), char_of (n div 2 ^ 8), char_of n]"

definition frame :: "char \<times> string \<Rightarrow> string" where
  "frame f = fst f # CHR 0x00 # CHR 0x00 # CHR 0x00 # be32 (length (snd f)) @ snd f"

definition frame_head :: "char \<times> string \<Rightarrow> string" where
  "frame_head f = fst f # CHR 0x00 # CHR 0x00 # CHR 0x00 # be32 (length (snd f))"

lemma frame_split: "frame f = frame_head f @ snd f" "length (frame_head f) = 8"
  by (simp_all add: frame_def frame_head_def be32_def)

lemma base256: "x = y * 256 + a \<Longrightarrow> y = z * 256 + b \<Longrightarrow> z = w * 256 + c \<Longrightarrow> w * 16777216 + c * 65536 + b * 256 + a = (x :: nat)"
  by simp

lemma frame_size_head:
  assumes "length (snd f) < 2 ^ 32"
  shows "frame_size (frame_head f) = length (snd f)"
proof -
  let ?n = "length (snd f)"
  have d: "?n div 65536 = ?n div 256 div 256" "?n div 16777216 = ?n div 256 div 256 div 256"
    by (simp_all add: div_mult2_eq [symmetric])
  have "?n div 16777216 mod 256 = ?n div 16777216" using assms by simp
  then have "frame_size (frame_head f) = ?n div 16777216 * 16777216 + ?n div 65536 mod 256 * 65536 + ?n div 256 mod 256 * 256 + ?n mod 256"
    by (simp add: frame_size_def frame_head_def be32_def)
  also have "\<dots> = ?n" unfolding d by (rule base256 [of _ "?n div 256" _ "?n div 256 div 256"]) simp_all
  finally show ?thesis .
qed

lemma demultiplex_frame:
  assumes "length (snd f) < 2 ^ 32"
  shows "demultiplex (frame f @ s) = snd f @ demultiplex s"
  by (subst demultiplex.simps) (simp add: frame_split Let_def frame_size_head [OF assms])

lemma demultiplex_cut_frame:
  assumes "length (snd f) < 2 ^ 32" and "strict_prefix s (frame f)"
  shows "prefix (demultiplex s) (snd f)"
proof (cases "length s < 8")
  case False
  obtain t where t: "frame f = s @ t" "t \<noteq> []" using assms(2) by (auto simp: strict_prefix_def prefix_def)
  have "take 8 (frame f) = frame_head f" "drop 8 (frame f) = snd f" by (simp_all add: frame_split)
  then have sz: "frame_size (take 8 s) = length (snd f)" and p: "snd f = drop 8 s @ t"
    using False frame_size_head [OF assms(1)] by (simp_all add: t)
  then have "length (drop 8 s) < length (snd f)" using t(2) by simp
  then have "demultiplex s = drop 8 s" using False sz by (subst demultiplex.simps) (simp add: Let_def)
  then show ?thesis using p by simp
qed (subst demultiplex.simps, simp)

text \<open>
  The log of a container is what it wrote: from the frames of its output \<open>demultiplex\<close> recovers the
  payloads in order, and from a stream cut off anywhere it recovers an initial part of them.
\<close>

theorem container_log_recovered:
  assumes "\<forall>f\<in>set fs. length (snd f) < 2 ^ 32"
  shows "demultiplex (concat (map frame fs)) = concat (map snd fs) \<and>
    (\<forall>s. prefix s (concat (map frame fs)) \<longrightarrow> prefix (demultiplex s) (concat (map snd fs)))"
  using assms
proof (induction fs)
  case Nil
  then show ?case by (simp add: demultiplex.simps)
next
  case (Cons f fs)
  have "prefix (demultiplex s) (concat (map snd (f # fs)))" if pre: "prefix s (frame f @ concat (map frame fs))" for s
  proof (cases "strict_prefix s (frame f)")
    case True
    then show ?thesis using demultiplex_cut_frame [of f s] Cons.prems by (simp add: prefix_prefix)
  next
    case False
    then obtain s' where "s = frame f @ s'" "prefix s' (concat (map frame fs))"
      using pre by (auto simp: prefix_append strict_prefix_def)
    then show ?thesis using Cons demultiplex_frame [of f s'] by simp
  qed
  then show ?case using Cons demultiplex_frame [of f "concat (map frame fs)"] by simp
qed

theorem container_log_recovered_witness:
  "demultiplex (concat (map frame [(CHR 0x01, ''hi''), (CHR 0x02, ''err'')])) = ''hierr''"
  using container_log_recovered [of "[(CHR 0x01, ''hi''), (CHR 0x02, ''err'')]"] by simp

subsection \<open>Reading back and the network check\<close>

lemma splitEnv_Some: "CHR ''='' \<in> set kv \<Longrightarrow> \<exists>n v. splitEnv kv = Some (n, v) \<and> n @ ''='' @ v = kv"
  by (induction kv) auto

lemma env_back:
  "\<forall>kv\<in>set env. CHR ''='' \<in> set kv \<Longrightarrow> map (\<lambda>(name, val). name @ ''='' @ val) (List.map_filter splitEnv env) = env"
proof (induction env)
  case (Cons kv env)
  then obtain n v where "splitEnv kv = Some (n, v)" "n @ ''='' @ v = kv" using splitEnv_Some [of kv] by auto
  then show ?case using Cons by (simp add: List.map_filter_def)
qed (simp add: List.map_filter_def)

text \<open>
  A deploy of what was read back deploys the same thing: decoding the rendering of a resolved
  service gives the service again, source directory, environment and limits included, up to the
  generation, which the next deploy numbers.
\<close>

theorem knative_roundtrip:
  assumes "resolve svc = Ok s" and "\<not> prefix SourcePrefix (rsImage s)" and "\<forall>kv\<in>set (rsEnv s). CHR ''='' \<in> set kv"
  shows "readKnative (toKnative s url) project (rsLocation s) = Ok (s\<lparr>rsGeneration := 0\<rparr>)"
proof -
  have r: "rsProject s \<noteq> ''''" "rsImage s = '''' \<or> rsSource s = ''''"
    using assms(1) by (auto simp: resolve_def orDefault_def DefaultProject_def split: if_splits)
  have "(if rsImage s = '''' then SourcePrefix @ rsSource s else rsImage s) = SourcePrefix @ rsSource s \<and> rsImage s = '''' \<or>
     (if rsImage s = '''' then SourcePrefix @ rsSource s else rsImage s) = rsImage s \<and> rsSource s = ''''" using r(2) by auto
  then show ?thesis
    using r(1) assms(2) env_back [OF assms(3)]
    by (auto simp: readKnative_def toKnative_def Let_def cutPrefix_def GetLimits_def limit_def noMeta_def noService_def)
qed

theorem knative_roundtrip_witness:
  "readKnative (toKnative (demo_svc\<lparr>rsImage := '''', rsSource := ''./app'', rsEnv := [''A=1''], rsGeneration := 1\<rparr>) ''u'') ''q'' ''l'' =
     Ok (demo_svc\<lparr>rsImage := '''', rsSource := ''./app'', rsEnv := [''A=1'']\<rparr>)"
  using knative_roundtrip [of "demo_svc\<lparr>rsImage := '''', rsSource := ''./app'', rsEnv := [''A=1'']\<rparr>"
      "demo_svc\<lparr>rsImage := '''', rsSource := ''./app'', rsEnv := [''A=1''], rsGeneration := 1\<rparr>" "''u''" "''q''"]
  by (simp add: resolve_def demo_svc_def noService_def orDefault_def SourcePrefix_def)

lemma fromKnative_no_source: "fromKnative k p l = Ok svc \<Longrightarrow> rsSource svc = ''''"
  by (auto simp: fromKnative_def split: result.splits if_splits)

lemma image_deploy:
  assumes "rsSource svc = ''''"
  shows "run_Deploy sc st svc env r = run_Deploy sc st' svc env r"
    and "rgServices (snd (run_Deploy sc st svc env r)) k = Some i \<Longrightarrow> rgServices r k = Some i \<or> riContainer i"
proof -
  have img: "rsImage (fst (deploy_lock s r)) \<noteq> ''''" if "resolve svc = Ok s" for s
    using that assms by (auto simp: resolve_def deploy_lock_def split: if_splits)
  show "run_Deploy sc st svc env r = run_Deploy sc st' svc env r"
    using img by (auto simp: run_Deploy_def case_prod_beta Let_def split: result.split)
  show "rgServices (snd (run_Deploy sc st svc env r)) k = Some i \<Longrightarrow> rgServices r k = Some i \<or> riContainer i"
    using img by (auto simp: run_Deploy_def case_prod_beta Let_def deploy_lock_def deploy_end_def deploy_launch_def deploy_abort_def deploy_commit_def new_inst_def
        split: result.splits if_splits)
qed

lemmas run_replies = listKnative_def getKnative_def deleteKnative_def listRevisions_def getRevision_def listGlobal_def
  getGlobal_def deleteGlobal_def run_serviceVerb_def

lemma run_deploy_image:
  assumes "rsSource svc = ''''"
  shows "run_deploy sc st q svc r = run_deploy sc st' q svc r"
    and "rgServices (snd (run_deploy sc st q svc r)) k = Some i \<Longrightarrow> rgServices r k = Some i \<or> riContainer i"
proof -
  show "run_deploy sc st q svc r = run_deploy sc st' q svc r"
    unfolding run_deploy_def using image_deploy(1) [OF assms, of sc st "[]" r st'] by simp
  show "rgServices (snd (run_deploy sc st q svc r)) k = Some i \<Longrightarrow> rgServices r k = Some i \<or> riContainer i"
    using image_deploy(2) [OF assms, of sc st "[]" r k i] by (auto simp: run_deploy_def split: prod.splits result.splits)
qed

lemma run_handle_start: "run_handle sc st q h p r = run_handle sc st' q h p r"
  by (cases h) (auto simp: createKnative_def replaceKnative_def fromKnative_no_source intro: run_deploy_image(1) split: result.split)

lemma createKnative_image:
  "rgServices (snd (createKnative sc st q p r)) k = Some i \<Longrightarrow> rgServices r k = Some i \<or> riContainer i"
  using run_deploy_image(2) [OF fromKnative_no_source]
  by (fastforce simp: createKnative_def split: result.splits if_splits)

lemma replaceKnative_image:
  assumes "rgServices (snd (replaceKnative sc st q p r)) k = Some i"
  shows "rgServices r k = Some i \<or> riContainer i"
proof (cases "is_ok (cqBody q) \<and> is_ok (fromKnative (case cqBody q of Ok b \<Rightarrow> b) (param p ''namespace'') (regionOf q))")
  case True
  then obtain b svc where b: "cqBody q = Ok b" "fromKnative b (param p ''namespace'') (regionOf q) = Ok svc"
    by (cases "cqBody q"; cases "fromKnative (case cqBody q of Ok b \<Rightarrow> b) (param p ''namespace'') (regionOf q)") auto
  then show ?thesis
    using assms run_deploy_image(2) [of "svc\<lparr>rsName := orDefault (rsName svc) (param p ''name'')\<rparr>"] fromKnative_no_source [OF b(2)]
    by (simp add: replaceKnative_def)
next
  case False
  then show ?thesis using assms by (auto simp: replaceKnative_def split: result.splits)
qed

lemma run_replies_services:
  "rgServices (snd (getKnative q p r)) = rgServices r" "rgServices (snd (listKnative q p r)) = rgServices r"
  "rgServices (snd (listRevisions q p r)) = rgServices r" "rgServices (snd (getRevision q p r)) = rgServices r"
  "rgServices (snd (listGlobal q p r)) = rgServices r" "rgServices (snd (getGlobal q p r)) = rgServices r"
  "rgServices (snd (run_serviceVerb q p r)) = rgServices r"
  by (simp_all add: run_replies Let_def case_prod_beta split: option.split)

lemma run_deletes_services:
  "rgServices (snd (deleteKnative q p r)) k = Some i \<Longrightarrow> rgServices r k = Some i"
  "rgServices (snd (deleteGlobal q p r)) k = Some i \<Longrightarrow> rgServices r k = Some i"
  by (auto simp: deleteKnative_def deleteGlobal_def run_Delete_def delete_forget_def run_Stop_def split: prod.splits result.splits option.splits if_splits)

lemma run_handle_image:
  assumes "rgServices (snd (run_handle sc st q h p r)) k = Some i"
  shows "rgServices r k = Some i \<or> riContainer i"
  using assms by (cases h) (auto simp: run_replies_services dest: run_deletes_services createKnative_image replaceKnative_image)

text \<open>
  C16: no request to the Cloud Run API makes the emulator run a program of its own machine: whatever the
  request, the answer and the new registry do not depend on what launching a source directory would do,
  and an instance that a request registers is a container.
\<close>

theorem network_runs_containers_only:
  "run_ServeHTTP sc st q r = run_ServeHTTP sc st' q r \<and>
   (\<forall>k i. rgServices (snd (run_ServeHTTP sc st q r)) k = Some i \<longrightarrow> rgServices r k = Some i \<or> riContainer i)"
proof -
  obtain m b where m: "rt_match (cqMethod q) (cqPath q) run_routes = (m, b)" by fastforce
  show ?thesis
  proof (cases m)
    case None
    then show ?thesis using m by (cases b) (simp_all add: run_ServeHTTP_def rt_ServeHTTP_def)
  next
    case (Some rp)
    obtain rr p where "rp = (rr, p)" by (cases rp)
    then have "run_ServeHTTP sc x q r = run_handle sc x q (rtHandler rr) p r" for x
      using m Some by (simp add: run_ServeHTTP_def rt_ServeHTTP_def)
    then show ?thesis using run_handle_image [of sc st q "rtHandler rr" p r] run_handle_start [of sc st q "rtHandler rr" p r st']
      by metis
  qed
qed

definition demo_post :: run_request where
  "demo_post = \<lparr>cqMethod = ''POST'', cqPath = ''/apis/serving.knative.dev/v1/namespaces/p/services'', cqHost = '''', cqRegion = ''l'',
     cqParams = '''', cqBody = Ok (toKnative demo_svc ''u''), cqPermissions = [], cqPolicy = None, cqOrder = []\<rparr>"

theorem network_runs_containers_only_witness:
  "case rgServices (snd (run_ServeHTTP demo_up demo_up demo_post NewRegistry)) ''p/l/s'' of None \<Rightarrow> False | Some i \<Rightarrow> riContainer i"
proof -
  have "rgServices (snd (run_ServeHTTP demo_up demo_up demo_post NewRegistry)) ''p/l/s'' \<noteq> None" by code_simp
  then obtain i where i: "rgServices (snd (run_ServeHTTP demo_up demo_up demo_post NewRegistry)) ''p/l/s'' = Some i" by blast
  with network_runs_containers_only [of demo_up demo_up demo_post NewRegistry demo_up] show ?thesis by (auto simp: NewRegistry_def)
qed

subsection \<open>Reaching a service\<close>











text \<open>
  Two deployed services can share a URL: a location and a project that both contain hyphens can be
  split in two ways, and then the order in which the registry's map happens to be searched decides which
  of the two services answers.
\<close>

definition twin_a :: run_service where
  "twin_a = noService\<lparr>rsLocation := ''us-central1'', rsProject := ''cloudrig-local'', rsName := ''hello'', rsImage := ''a''\<rparr>"

definition twin_b :: run_service where
  "twin_b = noService\<lparr>rsLocation := ''us-central1-cloudrig'', rsProject := ''local'', rsName := ''hello'', rsImage := ''b''\<rparr>"

theorem routed_by_map_order:
  "let r = snd (run_Deploy demo_up demo_up twin_b [] (snd (run_Deploy demo_up demo_up twin_a [] NewRegistry)));
       ka = ''cloudrig-local/us-central1/hello''; kb = ''local/us-central1-cloudrig/hello''
   in dom (rgDeployed r) = {ka, kb} \<and>
      map_option (riProject \<circ> fst) (run_Route [ka, kb] ''/us-central1-cloudrig-local/hello'' r) = Some ''cloudrig-local'' \<and>
      map_option (riProject \<circ> fst) (run_Route [kb, ka] ''/us-central1-cloudrig-local/hello'' r) = Some ''local''"
  by (simp add: run_Deploy_def resolve_def twin_a_def twin_b_def noService_def orDefault_def demo_up_def deploy_lock_def deploy_launch_def deploy_commit_def
      deploy_end_def Let_def NewRegistry_def new_inst_def stop_opt_def run_key_def route_prefix_def hasPrefix_def insert_commute)

end
