(* ===== verification/Functions_Registry.thy ===== *)
theory Functions_Registry
  imports Event_Bus Gerr Http_Router
begin

text \<open>
  The functions runner (\<open>functions\<close>): what a deploy asks for and how it is completed (\<open>functions.go\<close>,
  \<open>runtime.go\<close>), the registry of running functions (\<open>registry.go\<close>), event triggers with their retries
  (\<open>trigger.go\<close>) and the routing of requests (\<open>route.go\<close>).

  The source tree, the toolchain and the child process are a record \<open>fn_host\<close>: what a directory holds and
  whether building and starting a function succeeded.  Registry entries are shared by reference, so they live
  in a heap, addressed by the number of functions started before; the bus is that of \<open>core/events\<close>, with the
  instance's address as the handler.  \<open>frLive\<close> and \<open>frWatching\<close> are the instances that run and the entries
  whose source is being polled.
\<close>

subsection \<open>Functions, runtimes and triggers\<close>

definition fnDefaultProject :: string where "fnDefaultProject = ''cloudrig-local''"
definition fnDefaultLocation :: string where "fnDefaultLocation = ''us-central1''"

record fn_trigger =
  trEventType :: string
  trResource :: string

definition IsSet :: "fn_trigger \<Rightarrow> bool" where "IsSet t \<longleftrightarrow> trEventType t \<noteq> ''''"

definition trigger_matches :: "fn_trigger \<Rightarrow> 'd event \<Rightarrow> bool" where
  "trigger_matches t e \<longleftrightarrow>
     \<not> (trEventType t \<noteq> '''' \<and> trEventType t \<noteq> evType e) \<and>
     (trResource t = '''' \<or> hasSuffix (evSource e) (''/'' @ trResource t))"

record fn_function =
  fnProject :: string
  fnLocation :: string
  fnName :: string
  fnSource :: string
  fnRuntime :: string
  fnEntryPoint :: string
  fnWatch :: bool
  fnTrigger :: fn_trigger

definition fn_ResourceName :: "string \<Rightarrow> string \<Rightarrow> string \<Rightarrow> string" where
  "fn_ResourceName project location name =
     ''projects/'' @ (if project = '''' then fnDefaultProject else project) @
     ''/locations/'' @ (if location = '''' then fnDefaultLocation else location) @ ''/functions/'' @ name"

text \<open>The accepted runtimes; the flag says which are Go.\<close>

definition runtimes :: "(string \<times> bool) list" where
  "runtimes = [(''go'', True), (''go121'', True), (''go122'', True), (''go123'', True), (''go124'', True), (''go125'', True),
     (''nodejs20'', False), (''nodejs22'', False), (''nodejs18'', False)]"

definition KnownRuntimes :: "string list" where
  "KnownRuntimes = sort (map fst runtimes)"

record fn_host =
  hExists :: "string \<Rightarrow> bool"
  hHas :: "string \<Rightarrow> string \<Rightarrow> bool"             \<comment> \<open>a directory holds an entry of that name\<close>
  hGoFile :: "string \<Rightarrow> bool"                   \<comment> \<open>\<open>hasSuffixFile(dir, ".go")\<close>\<close>
  hHandlers :: "string \<Rightarrow> (goerr, string list) result"  \<comment> \<open>\<open>EntryPoints\<close>\<close>
  hLaunch :: "fn_function \<Rightarrow> (goerr, unit) result"

definition DetectRuntime :: "fn_host \<Rightarrow> string \<Rightarrow> (goerr, string) result" where
  "DetectRuntime H source =
     (if hHas H source ''go.mod'' \<or> hGoFile H source then Ok ''go''
      else if hHas H source ''package.json'' then Ok ''nodejs20''
      else Err (Plain (Msg ''cannot tell the runtime of %s; pass --runtime (%s)'' [source, join_with '', '' KnownRuntimes])))"

definition DetectEntryPoint :: "fn_host \<Rightarrow> string \<Rightarrow> (goerr, string) result" where
  "DetectEntryPoint H dir =
     (case hHandlers H dir of
        Err e \<Rightarrow> Err e
      | Ok [] \<Rightarrow> Err (Plain (Msg ''%s has no exported func(http.ResponseWriter, *http.Request)'' [dir]))
      | Ok [found] \<Rightarrow> Ok found
      | Ok found \<Rightarrow> Err (Plain (Msg ''%s has %d entry points (%s); pass --entry-point'' [dir, dec (length found), join_with '', '' found])))"

definition containsAny :: "string \<Rightarrow> string \<Rightarrow> bool" where
  "containsAny s chars \<longleftrightarrow> (\<exists>c\<in>set s. c \<in> set chars)"

definition fn_resolve :: "fn_host \<Rightarrow> fn_function \<Rightarrow> (goerr, fn_function) result" where
  "fn_resolve H f0 =
     (let f = f0\<lparr>fnProject := (if fnProject f0 = '''' then fnDefaultProject else fnProject f0),
                 fnLocation := (if fnLocation f0 = '''' then fnDefaultLocation else fnLocation f0)\<rparr>
      in if fnName f = '''' then Err (Plain (Msg ''function name is empty'' []))
         else if containsAny (fnName f) ''/?#'' then Err (Plain (Msg ''function name %q contains a path character'' [fnName f]))
         else if containsAny (fnProject f) ''/?#'' \<or> containsAny (fnLocation f) ''/?#''
         then Err (Plain (Msg ''function %s: project and location must not contain path characters'' [fnName f]))
         else if fnSource f = '''' then Err (Plain (Msg ''function %s: no source directory given'' [fnName f]))
         else if \<not> hExists H (fnSource f)
         then Err (Plain (Msg ''function %s: source %s: no such file or directory'' [fnName f, fnSource f]))
         else case (if fnRuntime f = '''' then DetectRuntime H (fnSource f) else Ok (fnRuntime f)) of
                Err e \<Rightarrow> Err (Wrapped (Msg ''function %s: %w'' [fnName f]) e)
              | Ok rt \<Rightarrow>
                  (case map_of runtimes rt of
                     None \<Rightarrow> Err (Plain (Msg ''function %s: unknown runtime %q; known: %s''
                               [fnName f, rt, join_with '', '' KnownRuntimes]))
                   | Some isGo \<Rightarrow>
                       if fnEntryPoint f \<noteq> '''' then Ok (f\<lparr>fnRuntime := rt\<rparr>)
                       else if \<not> isGo then Err (Plain (Msg ''function %s: %s needs an explicit entry point'' [fnName f, rt]))
                       else (case DetectEntryPoint H (fnSource f) of
                               Err e \<Rightarrow> Err (Wrapped (Msg ''function %s: %w'' [fnName f]) e)
                             | Ok entry \<Rightarrow> Ok (f\<lparr>fnRuntime := rt, fnEntryPoint := entry\<rparr>))))"

definition fn_Start :: "fn_host \<Rightarrow> fn_function \<Rightarrow> (goerr, fn_function) result" where
  "fn_Start H f =
     (case fn_resolve H f of
        Err e \<Rightarrow> Err e
      | Ok f1 \<Rightarrow> (case hLaunch H f1 of Err e \<Rightarrow> Err e | Ok _ \<Rightarrow> Ok f1))"

subsection \<open>The registry (registry.go)\<close>

record fn_desc =
  fdProject :: string
  fdLocation :: string
  fdName :: string
  fdSource :: string
  fdRuntime :: string
  fdEntryPoint :: string
  fdWatch :: bool
  fdTrigger :: fn_trigger
  fdState :: string
  fdUpdateTime :: time

definition fd_ResourceName :: "fn_desc \<Rightarrow> string" where
  "fd_ResourceName d = fn_ResourceName (fdProject d) (fdLocation d) (fdName d)"

record fn_entry =
  feDesc :: fn_desc
  feWatch :: bool               \<comment> \<open>\<open>stopWatch\<close> is set\<close>
  feUnsub :: "nat option"       \<comment> \<open>\<open>unsubscribe\<close>, by the subscription it ends\<close>

record 'd fn_registry =
  frHasBus :: bool
  frBus :: "(nat, 'd) bus"
  frEntries :: "string \<rightharpoonup> nat"
  frHeap :: "nat \<Rightarrow> fn_entry"
  frNext :: nat
  frLive :: "nat set"
  frWatching :: "nat set"

definition fn_NewRegistry :: "bool \<Rightarrow> (nat \<Rightarrow> fn_entry) \<Rightarrow> 'd fn_registry" where
  "fn_NewRegistry hasBus heap = \<lparr>frHasBus = hasBus, frBus = New_bus, frEntries = Map.empty, frHeap = heap, frNext = 0,
     frLive = {}, frWatching = {}\<rparr>"

definition descriptor :: "fn_function \<Rightarrow> fn_function \<Rightarrow> time \<Rightarrow> fn_desc" where
  "descriptor f inst now = \<lparr>fdProject = fnProject inst, fdLocation = fnLocation inst, fdName = fnName f, fdSource = fnSource f,
     fdRuntime = fnRuntime inst, fdEntryPoint = fnEntryPoint inst, fdWatch = fnWatch f, fdTrigger = fnTrigger f,
     fdState = ''ACTIVE'', fdUpdateTime = now\<rparr>"

text \<open>The section of \<open>Deploy\<close> under the lock: the new entry takes the name; the old one is returned.\<close>

definition fn_swap :: "fn_desc \<Rightarrow> 'd fn_registry \<Rightarrow> nat option \<times> 'd fn_registry" where
  "fn_swap d r =
     (let a = frNext r; k = fd_ResourceName d
      in (frEntries r k,
          r\<lparr>frEntries := (frEntries r)(k \<mapsto> a), frHeap := (frHeap r)(a := \<lparr>feDesc = d, feWatch = False, feUnsub = None\<rparr>),
            frNext := Suc a, frLive := insert a (frLive r)\<rparr>))"

definition fn_retire :: "nat option \<Rightarrow> 'd fn_registry \<Rightarrow> 'd fn_registry" where
  "fn_retire old r =
     (case old of
        None \<Rightarrow> r
      | Some a \<Rightarrow>
          let e = frHeap r a
          in r\<lparr>frWatching := (if feWatch e then frWatching r - {a} else frWatching r),
               frBus := (case feUnsub e of None \<Rightarrow> frBus r | Some i \<Rightarrow> Unsubscribe i (frBus r)),
               frLive := frLive r - {a}\<rparr>)"

definition fn_subscribe :: "nat \<Rightarrow> fn_trigger \<Rightarrow> 'd fn_registry \<Rightarrow> 'd fn_registry" where
  "fn_subscribe a t r =
     (if \<not> frHasBus r \<or> \<not> IsSet t then r
      else let (i, b) = Subscribe (Some (trigger_matches t)) a (frBus r)
           in r\<lparr>frBus := b, frHeap := (frHeap r)(a := (frHeap r a)\<lparr>feUnsub := Some i\<rparr>)\<rparr>)"

definition fn_watch :: "nat \<Rightarrow> bool \<Rightarrow> 'd fn_registry \<Rightarrow> 'd fn_registry" where
  "fn_watch a w r =
     (if w then r\<lparr>frWatching := insert a (frWatching r), frHeap := (frHeap r)(a := (frHeap r a)\<lparr>feWatch := True\<rparr>)\<rparr> else r)"

definition fn_Deploy :: "fn_host \<Rightarrow> time \<Rightarrow> fn_function \<Rightarrow> 'd fn_registry \<Rightarrow> (goerr, fn_desc) result \<times> 'd fn_registry" where
  "fn_Deploy H now f r =
     (case fn_Start H f of
        Err e \<Rightarrow> (Err e, r)
      | Ok inst \<Rightarrow>
          let d = descriptor f inst now; (old, r1) = fn_swap d r
          in (Ok d, fn_watch (frNext r) (fnWatch f) (fn_subscribe (frNext r) (fnTrigger f) (fn_retire old r1))))"

definition fn_lookup :: "string \<Rightarrow> 'd fn_registry \<Rightarrow> nat option" where
  "fn_lookup resource r = frEntries r resource"

definition fn_Get :: "string \<Rightarrow> string \<Rightarrow> string \<Rightarrow> 'd fn_registry \<Rightarrow> fn_desc option" where
  "fn_Get project location name r = map_option (\<lambda>a. feDesc (frHeap r a)) (fn_lookup (fn_ResourceName project location name) r)"

definition fn_GetByResource :: "string \<Rightarrow> 'd fn_registry \<Rightarrow> fn_desc option" where
  "fn_GetByResource resource r = map_option (\<lambda>a. feDesc (frHeap r a)) (fn_lookup resource r)"

definition fn_Handler :: "string \<Rightarrow> string \<Rightarrow> string \<Rightarrow> 'd fn_registry \<Rightarrow> nat option" where
  "fn_Handler project location name r = fn_lookup (fn_ResourceName project location name) r"

definition fn_List :: "string list \<Rightarrow> string \<Rightarrow> string \<Rightarrow> 'd fn_registry \<Rightarrow> fn_desc list" where
  "fn_List order project location r =
     sort_key fd_ResourceName
       (filter (\<lambda>d. (project = '''' \<or> fdProject d = project) \<and> (location = '''' \<or> fdLocation d = location))
         (map (\<lambda>a. feDesc (frHeap r a)) (List.map_filter (frEntries r) order)))"

definition fn_Delete :: "string \<Rightarrow> string \<Rightarrow> string \<Rightarrow> 'd fn_registry \<Rightarrow> (goerr, unit) result \<times> 'd fn_registry" where
  "fn_Delete project location name r =
     (let key = fn_ResourceName project location name; r1 = r\<lparr>frEntries := (frEntries r)(key := None)\<rparr>
      in case frEntries r key of
           None \<Rightarrow> (Err (Plain (Msg ''no function %q is deployed'' [name])), r1)
         | Some a \<Rightarrow> (Ok (), fn_retire (Some a) r1))"

definition fn_StopAll :: "string list \<Rightarrow> 'd fn_registry \<Rightarrow> 'd fn_registry" where
  "fn_StopAll order r =
     foldl (\<lambda>r a. fn_retire (Some a) r) (r\<lparr>frEntries := Map.empty\<rparr>) (List.map_filter (frEntries r) order)"

subsection \<open>Routing (route.go)\<close>

definition cut_slash :: "string \<Rightarrow> string \<times> string" where
  "cut_slash p = (case go_cut p ''/'' of Some hr \<Rightarrow> hr | None \<Rightarrow> (p, ''''))"

definition fn_unescape :: "string \<Rightarrow> string" where
  "fn_unescape s = (case PathUnescape s of None \<Rightarrow> s | Some t \<Rightarrow> t)"

text \<open>\<open>SplitN(seg, "-", 3)\<close>: the third part keeps the remaining hyphens.\<close>

definition splitPrefix :: "string \<Rightarrow> (string \<times> string) option" where
  "splitPrefix seg =
     (case go_cut seg ''-'' of
        None \<Rightarrow> None
      | Some (a, rest) \<Rightarrow>
          (case go_cut rest ''-'' of
             None \<Rightarrow> None
           | Some (b, c) \<Rightarrow> if a = '''' \<or> b = '''' \<or> c = '''' then None else Some (a @ ''-'' @ b, c)))"

definition fn_Route :: "string \<Rightarrow> 'd fn_registry \<Rightarrow> (nat \<times> string) option" where
  "fn_Route escapedPath r =
     (let (first, rest) = cut_slash (trimPrefix escapedPath ''/'');
          bare = map_option (\<lambda>h. (h, ''/'' @ rest)) (fn_Handler '''' '''' (fn_unescape first) r)
      in case splitPrefix first of
           None \<Rightarrow> bare
         | Some (location, project) \<Rightarrow>
             let (name, sub) = cut_slash rest
             in case fn_Handler project location (fn_unescape name) r of
                  Some h \<Rightarrow> Some (h, ''/'' @ sub)
                | None \<Rightarrow> bare)"

subsection \<open>Delivery with retries (trigger.go)\<close>

definition MaxDeliveryAttempts :: nat where "MaxDeliveryAttempts = 5"
definition RetryBackoff :: duration where "RetryBackoff = 200 * millisecond"

text \<open>\<open>statusRecorder\<close> keeps the first status written and bounds the body it holds.\<close>

record status_recorder =
  srBody :: string
  srStatus :: int
  srWritten :: bool

definition sr_Write :: "string \<Rightarrow> status_recorder \<Rightarrow> status_recorder" where
  "sr_Write p r = (if length (srBody r) < 4 * 2 ^ 10 then r\<lparr>srWritten := True, srBody := srBody r @ p\<rparr> else r\<lparr>srWritten := True\<rparr>)"

definition sr_WriteHeader :: "int \<Rightarrow> status_recorder \<Rightarrow> status_recorder" where
  "sr_WriteHeader status r = (if \<not> srWritten r then r\<lparr>srStatus := status, srWritten := True\<rparr> else r)"

text \<open>
  \<open>deliver\<close>: \<open>serve\<close> is what the function does with the response it is given.
\<close>

definition fn_deliver :: "(status_recorder \<Rightarrow> status_recorder) \<Rightarrow> (goerr, unit) result" where
  "fn_deliver serve =
     (let rec = serve \<lparr>srBody = '''', srStatus = 200, srWritten = False\<rparr>
      in if srStatus rec \<ge> 400 then Err (Plain (Msg ''the function answered %d: %s'' [itoa (srStatus rec), srBody rec])) else Ok ())"

datatype delivery = Delivered nat | GaveUp nat | Abandoned nat

text \<open>
  One delivery: \<open>answer n\<close> is the outcome of attempt \<open>n\<close>, and \<open>waited n\<close> says whether the wait after it elapsed or
  the context ended first.  The result is how the delivery ended and the waits it scheduled.
\<close>

function deliver_loop :: "(nat \<Rightarrow> (goerr, unit) result) \<Rightarrow> (nat \<Rightarrow> bool) \<Rightarrow> nat \<Rightarrow> duration \<Rightarrow> delivery \<times> duration list" where
  "deliver_loop answer waited attempt backoff =
     (case answer attempt of
        Ok _ \<Rightarrow> (Delivered attempt, [])
      | Err _ \<Rightarrow>
          if attempt \<ge> MaxDeliveryAttempts then (GaveUp attempt, [])
          else if \<not> waited attempt then (Abandoned attempt, [backoff])
          else (let (res, ws) = deliver_loop answer waited (Suc attempt) (i64 (backoff * 2)) in (res, backoff # ws)))"
  by auto
termination by (relation "measure (\<lambda>(_, _, n, _). MaxDeliveryAttempts - n)") auto

declare deliver_loop.simps [simp del]

definition deliverWithRetry :: "(nat \<Rightarrow> (goerr, unit) result) \<Rightarrow> (nat \<Rightarrow> bool) \<Rightarrow> delivery \<times> duration list" where
  "deliverWithRetry answer waited = deliver_loop answer waited 1 RetryBackoff"

subsection \<open>What is registered is what runs\<close>

definition fn_sub :: "fn_entry \<Rightarrow> nat \<Rightarrow> (nat, 'd) subscription" where
  "fn_sub e a = \<lparr>subMatch = Some (trigger_matches (fdTrigger (feDesc e))), subFn = a\<rparr>"

text \<open>The subscription \<open>(i, s)\<close> is one an entry at \<open>A\<close> can end; these are all the bus has.\<close>

definition held :: "nat set \<Rightarrow> (nat \<Rightarrow> fn_entry) \<Rightarrow> nat \<times> (nat, 'd) subscription \<Rightarrow> bool" where
  "held A h x \<longleftrightarrow> (\<exists>a\<in>A. feUnsub (h a) = Some (fst x) \<and> snd x = fn_sub (h a) a)"

definition subs_ok :: "nat set \<Rightarrow> (nat \<Rightarrow> fn_entry) \<Rightarrow> (nat, 'd) bus \<Rightarrow> bool" where
  "subs_ok A h b \<longleftrightarrow> distinct (map fst (busSubs b)) \<and> (\<forall>x\<in>set (busSubs b). fst x < busNext b) \<and> set (busSubs b) = Collect (held A h)"

lemma subs_ok_inj:
  fixes b :: "(nat, 'd) bus"
  assumes "subs_ok A h b" and "x \<in> A" and "y \<in> A" and "feUnsub (h x) = Some i" and "feUnsub (h y) = Some i"
  shows "x = y"
proof -
  have "(i, fn_sub (h x) x) \<in> set (busSubs b)" "(i, fn_sub (h y) y) \<in> set (busSubs b)"
    using assms by (auto simp: subs_ok_def held_def)
  moreover have "distinct (map fst (busSubs b))" using assms(1) by (simp add: subs_ok_def)
  ultimately have "fn_sub (h x) x = (fn_sub (h y) y :: (nat, 'd) subscription)" by (metis eq_key_imp_eq_value)
  then show ?thesis by (simp add: fn_sub_def)
qed

lemma subs_ok_end:
  fixes b :: "(nat, 'd) bus"
  assumes "subs_ok A h b" and "x \<in> A"
  shows "subs_ok (A - {x}) h (case feUnsub (h x) of None \<Rightarrow> b | Some i \<Rightarrow> Unsubscribe i b)"
proof (cases "feUnsub (h x)")
  case None
  then have "held (A - {x}) h = (held A h :: nat \<times> (nat, 'd) subscription \<Rightarrow> bool)" by (intro ext) (auto simp: held_def)
  then show ?thesis using assms(1) None by (simp add: subs_ok_def)
next
  case (Some i)
  have subs: "set (busSubs (Unsubscribe i b)) = {y \<in> set (busSubs b). fst y \<noteq> i}" by (auto simp: Unsubscribe_def AList.delete_eq)
  have "held (A - {x}) h y \<longleftrightarrow> held A h y \<and> fst y \<noteq> i" for y :: "nat \<times> (nat, 'd) subscription"
  proof
    assume "held (A - {x}) h y"
    then obtain a where "a \<in> A" "a \<noteq> x" "feUnsub (h a) = Some (fst y)" "snd y = fn_sub (h a) a" by (auto simp: held_def)
    moreover from this have "fst y \<noteq> i" using subs_ok_inj [OF assms(1), of a x i] assms(2) Some by auto
    ultimately show "held A h y \<and> fst y \<noteq> i" by (auto simp: held_def)
  next
    assume "held A h y \<and> fst y \<noteq> i"
    then show "held (A - {x}) h y" using Some by (auto simp: held_def)
  qed
  then have "set (busSubs (Unsubscribe i b)) = Collect (held (A - {x}) h)" using assms(1) subs by (auto simp: subs_ok_def)
  moreover have "distinct (map fst (busSubs (Unsubscribe i b)))" "busNext (Unsubscribe i b) = busNext b"
    using assms(1) by (auto simp: subs_ok_def Unsubscribe_def distinct_delete)
  moreover have "\<forall>y\<in>set (busSubs (Unsubscribe i b)). fst y < busNext b" using assms(1) unfolding subs subs_ok_def by blast
  ultimately show ?thesis using Some by (simp only: subs_ok_def option.case)
qed

lemma update_at_end: "k \<notin> fst ` set al \<Longrightarrow> AList.update k v al = al @ [(k, v)]"
  by (induction al) auto

lemma subs_ok_new:
  fixes b :: "(nat, 'd) bus"
  assumes "subs_ok A h b" and "x \<notin> A"
  shows "feUnsub e = None \<Longrightarrow> subs_ok (insert x A) (h(x := e)) b"
    and "busNext b < 2 ^ 64 - 1 \<Longrightarrow>
      subs_ok (insert x A) (h(x := e\<lparr>feUnsub := Some (busNext b)\<rparr>)) (snd (Subscribe (Some (trigger_matches (fdTrigger (feDesc e)))) x b))"
proof -
  have old: "held (insert x A) (h(x := e')) y \<longleftrightarrow> held A h y \<or> feUnsub e' = Some (fst y) \<and> snd y = fn_sub e' x"
    for e' and y :: "nat \<times> (nat, 'd) subscription" using assms(2) by (auto simp: held_def)
  show "subs_ok (insert x A) (h(x := e)) b" if "feUnsub e = None"
    using assms(1) that by (auto simp: subs_ok_def old)
  assume n: "busNext b < 2 ^ 64 - 1"
  let ?s = "\<lparr>subMatch = Some (trigger_matches (fdTrigger (feDesc e))), subFn = x\<rparr> :: (nat, 'd) subscription"
  let ?b = "snd (Subscribe (Some (trigger_matches (fdTrigger (feDesc e)))) x b)"
  have "\<forall>y\<in>set (busSubs b). fst y < busNext b" using assms(1) unfolding subs_ok_def by blast
  then have fresh: "busNext b \<notin> fst ` set (busSubs b)" by auto
  then have b': "busSubs ?b = busSubs b @ [(busNext b, ?s)]" "busNext ?b = Suc (busNext b)"
    using n by (simp_all add: Subscribe_def Let_def update_at_end)
  have "Collect (held (insert x A) (h(x := e\<lparr>feUnsub := Some (busNext b)\<rparr>))) = insert (busNext b, ?s) (Collect (held A h))"
    unfolding old by (auto simp: fn_sub_def prod_eq_iff)
  then show "subs_ok (insert x A) (h(x := e\<lparr>feUnsub := Some (busNext b)\<rparr>)) ?b"
    using assms(1) fresh unfolding subs_ok_def b' by (auto simp: less_SucI)
qed

text \<open>
  The invariant of a registry whose operations do not overlap: the entries are filed under their own names,
  exactly their instances run, exactly the watched ones are polled, and each triggered function has one
  subscription, which its entry can end.
\<close>

definition entry_ok :: "bool \<Rightarrow> string \<Rightarrow> fn_entry \<Rightarrow> bool" where
  "entry_ok hasBus k e \<longleftrightarrow> fd_ResourceName (feDesc e) = k \<and> (feWatch e \<longleftrightarrow> fdWatch (feDesc e)) \<and>
     (feUnsub e \<noteq> None \<longleftrightarrow> hasBus \<and> IsSet (fdTrigger (feDesc e)))"

definition fn_inv :: "'d fn_registry \<Rightarrow> bool" where
  "fn_inv r \<longleftrightarrow>
     (\<forall>k a. frEntries r k = Some a \<longrightarrow> a < frNext r \<and> entry_ok (frHasBus r) k (frHeap r a)) \<and>
     frLive r = ran (frEntries r) \<and> frWatching r = {a \<in> ran (frEntries r). feWatch (frHeap r a)} \<and>
     subs_ok (ran (frEntries r)) (frHeap r) (frBus r) \<and> busNext (frBus r) \<le> frNext r"

lemma fn_inv_ran_del:
  assumes "fn_inv r" and "frEntries r k = Some a"
  shows "ran ((frEntries r)(k := None)) = ran (frEntries r) - {a}"
proof -
  have uniq: "k' = k" if "frEntries r k' = Some a" for k'
  proof -
    have "entry_ok (frHasBus r) k (frHeap r a)" "entry_ok (frHasBus r) k' (frHeap r a)"
      using assms that by (simp_all add: fn_inv_def)
    then show ?thesis by (simp add: entry_ok_def)
  qed
  show ?thesis
  proof (intro set_eqI iffI)
    fix x
    assume "x \<in> ran ((frEntries r)(k := None))"
    then obtain k' where "k' \<noteq> k" "frEntries r k' = Some x" by (auto simp: ran_def split: if_splits)
    then show "x \<in> ran (frEntries r) - {a}" using uniq by (auto simp: ran_def)
  next
    fix x
    assume "x \<in> ran (frEntries r) - {a}"
    then obtain k' where "frEntries r k' = Some x" "x \<noteq> a" by (auto simp: ran_def)
    then have "((frEntries r)(k := None)) k' = Some x" using assms(2) by auto
    then show "x \<in> ran ((frEntries r)(k := None))" by (rule ranI)
  qed
qed

text \<open>Taking an entry out and retiring it.\<close>

definition fn_remove :: "string \<Rightarrow> 'd fn_registry \<Rightarrow> 'd fn_registry" where
  "fn_remove k r = fn_retire (frEntries r k) (r\<lparr>frEntries := (frEntries r)(k := None)\<rparr>)"

lemma fn_retire_fields:
  "frHasBus (fn_retire x r) = frHasBus r" "frEntries (fn_retire x r) = frEntries r" "frHeap (fn_retire x r) = frHeap r"
  "frNext (fn_retire x r) = frNext r" "frLive (fn_retire x r) = frLive r - set_option x"
  "frWatching (fn_retire x r) = frWatching r - {a \<in> set_option x. feWatch (frHeap r a)}"
  "frBus (fn_retire x r) = (case x of None \<Rightarrow> frBus r | Some a \<Rightarrow> case feUnsub (frHeap r a) of None \<Rightarrow> frBus r | Some i \<Rightarrow> Unsubscribe i (frBus r))"
  by (auto simp: fn_retire_def Let_def split: option.split)

lemma fn_inv_remove:
  assumes "fn_inv r"
  shows "fn_inv (fn_remove k r)"
proof (cases "frEntries r k")
  case None
  then show ?thesis using assms by (simp add: fn_remove_def fn_retire_def fun_upd_idem)
next
  case (Some a)
  have "subs_ok (ran (frEntries r) - {a}) (frHeap r) (case feUnsub (frHeap r a) of None \<Rightarrow> frBus r | Some i \<Rightarrow> Unsubscribe i (frBus r))"
    using assms Some by (intro subs_ok_end) (auto simp: fn_inv_def ran_def)
  moreover have "busNext (case feUnsub (frHeap r a) of None \<Rightarrow> frBus r | Some i \<Rightarrow> Unsubscribe i (frBus r)) = busNext (frBus r)"
    by (simp add: Unsubscribe_def split: option.split)
  ultimately show ?thesis
    using assms fn_inv_ran_del [OF assms Some] by (auto simp: fn_inv_def fn_remove_def fn_retire_fields Some cong del: option.case_cong_weak)
qed

text \<open>Filing a new entry under a free name.\<close>

definition fn_add :: "fn_desc \<Rightarrow> 'd fn_registry \<Rightarrow> 'd fn_registry" where
  "fn_add d r = fn_watch (frNext r) (fdWatch d) (fn_subscribe (frNext r) (fdTrigger d) (snd (fn_swap d r)))"

lemma fn_inv_add:
  assumes "fn_inv r" and "frEntries r (fd_ResourceName d) = None" and "frNext r < 2 ^ 64 - 1"
  shows "fn_inv (fn_add d r)"
proof -
  let ?a = "frNext r" and ?k = "fd_ResourceName d" and ?on = "frHasBus r \<and> IsSet (fdTrigger d)"
  let ?e = "\<lparr>feDesc = d, feWatch = fdWatch d, feUnsub = None\<rparr>"
  let ?e' = "if ?on then ?e\<lparr>feUnsub := Some (busNext (frBus r))\<rparr> else ?e"
  let ?b = "if ?on then snd (Subscribe (Some (trigger_matches (fdTrigger d))) ?a (frBus r)) else frBus r"
  have f: "frHasBus (fn_add d r) = frHasBus r" "frEntries (fn_add d r) = (frEntries r)(?k \<mapsto> ?a)" "frHeap (fn_add d r) = (frHeap r)(?a := ?e')"
    "frNext (fn_add d r) = Suc ?a" "frLive (fn_add d r) = insert ?a (frLive r)" "frBus (fn_add d r) = ?b"
    "frWatching (fn_add d r) = (if fdWatch d then insert ?a (frWatching r) else frWatching r)"
    by (auto simp: fn_add_def fn_watch_def fn_subscribe_def fn_swap_def Let_def Subscribe_def)
  have new: "?a \<notin> ran (frEntries r)" using assms(1) by (auto simp: fn_inv_def ran_def)
  have b: "subs_ok (ran (frEntries r)) (frHeap r) (frBus r)" "busNext (frBus r) < 2 ^ 64 - 1" using assms(1,3) by (auto simp: fn_inv_def)
  have "subs_ok (insert ?a (ran (frEntries r))) ((frHeap r)(?a := ?e')) ?b"
    using subs_ok_new(1) [OF b(1) new, of ?e] subs_ok_new(2) [OF b(1) new b(2), of ?e] by (cases ?on) auto
  moreover have "busNext ?b \<le> Suc ?a" using assms(1) b(2) by (auto simp: fn_inv_def Subscribe_def Let_def)
  moreover have "entry_ok (frHasBus r) ?k ?e'" by (auto simp: entry_ok_def)
  moreover have "{a \<in> insert ?a (ran (frEntries r)). feWatch (((frHeap r)(?a := ?e')) a)} =
      (if fdWatch d then insert ?a (frWatching r) else frWatching r)"
    using assms(1) new by (auto simp: fn_inv_def)
  ultimately show ?thesis
    using assms(1,2) new unfolding fn_inv_def f by (auto simp: less_SucI ranI split: if_splits)
qed

text \<open>A deploy is the removal of the old entry and the filing of the new one, a delete a removal.\<close>

lemma fn_Deploy_eq:
  assumes "fn_inv r" and "fn_Start H f = Ok inst"
  shows "fn_Deploy H now f r = (Ok (descriptor f inst now),
    fn_add (descriptor f inst now) (fn_remove (fd_ResourceName (descriptor f inst now)) r))"
proof -
  let ?d = "descriptor f inst now" and ?k = "fd_ResourceName (descriptor f inst now)"
  have tr: "fdTrigger ?d = fnTrigger f" "fdWatch ?d = fnWatch f" by (simp_all add: descriptor_def)
  have n: "frNext (fn_remove ?k r) = frNext r" by (simp add: fn_remove_def fn_retire_fields)
  have "fn_retire (frEntries r ?k) (snd (fn_swap ?d r)) = snd (fn_swap ?d (fn_remove ?k r))"
  proof (cases "frEntries r ?k")
    case None
    then show ?thesis by (simp add: fn_remove_def fn_retire_def fun_upd_idem)
  next
    case (Some a)
    then have "a < frNext r" using assms(1) by (simp add: fn_inv_def)
    with Some show ?thesis
      by (auto simp: fn_remove_def fn_retire_def fn_swap_def Let_def insert_Diff_if cong del: option.case_cong_weak)
  qed
  then show ?thesis using assms(2) by (simp add: fn_Deploy_def fn_add_def Let_def case_prod_beta tr n) (simp add: fn_swap_def Let_def)
qed

lemma fn_inv_Deploy:
  assumes "fn_inv r" and "frNext r < 2 ^ 64 - 1"
  shows "fn_inv (snd (fn_Deploy H now f r))"
proof (cases "fn_Start H f")
  case (Ok inst)
  let ?k = "fd_ResourceName (descriptor f inst now)"
  have "frEntries (fn_remove ?k r) ?k = None" "frNext (fn_remove ?k r) = frNext r" by (simp_all add: fn_remove_def fn_retire_fields)
  then show ?thesis using fn_inv_add [OF fn_inv_remove [OF assms(1)]] assms(2) by (simp add: fn_Deploy_eq [OF assms(1) Ok])
qed (use assms(1) in \<open>simp add: fn_Deploy_def\<close>)

lemma fn_Delete_remove: "snd (fn_Delete p l n r) = fn_remove (fn_ResourceName p l n) r"
  by (simp add: fn_Delete_def fn_remove_def fn_retire_def Let_def split: option.split)

lemma fn_retire_commute: "fn_retire (Some a) (r\<lparr>frEntries := E\<rparr>) = (fn_retire (Some a) r)\<lparr>frEntries := E\<rparr>"
  by (simp add: fn_retire_def Let_def cong del: option.case_cong_weak)

lemma fn_StopAll_removes:
  assumes "distinct order" and "set order = dom (frEntries r)"
  shows "fn_StopAll order r = foldl (\<lambda>r k. fn_remove k r) r order"
proof -
  have "foldl (\<lambda>r k. fn_remove k r) r ks = foldl (\<lambda>r a. fn_retire (Some a) r) (r\<lparr>frEntries := frEntries r |` (- set ks)\<rparr>) (List.map_filter (frEntries r) ks)"
    if "distinct ks" "set ks \<subseteq> dom (frEntries r)" for ks
    using that
  proof (induction ks rule: rev_induct)
    case Nil
    then show ?case by (simp add: List.map_filter_def)
  next
    case (snoc k ks)
    then obtain a where a: "frEntries r k = Some a" by auto
    have mf: "List.map_filter (frEntries r) (ks @ [k]) = List.map_filter (frEntries r) ks @ [a]" using a by (simp add: List.map_filter_def)
    have com: "foldl (\<lambda>r a. fn_retire (Some a) r) (s\<lparr>frEntries := E\<rparr>) xs = (foldl (\<lambda>r a. fn_retire (Some a) r) s xs)\<lparr>frEntries := E\<rparr>" for s xs and E
      by (induction xs arbitrary: s) (simp_all add: fn_retire_commute)
    have "(frEntries r |` (- set ks))(k := None) = frEntries r |` (- set (ks @ [k]))" by (auto simp: restrict_map_def fun_eq_iff)
    moreover have "(frEntries r |` (- set ks)) k = Some a" using snoc.prems a by simp
    ultimately show ?case using snoc by (simp add: mf com fn_remove_def fn_retire_commute)
  qed
  moreover have "frEntries r |` (- dom (frEntries r)) = Map.empty" by (auto simp: restrict_map_def fun_eq_iff dom_def)
  ultimately show ?thesis using assms unfolding fn_StopAll_def by simp
qed

text \<open>Operations one after the other.\<close>

inductive fn_run :: "'d fn_registry \<Rightarrow> bool" where
  start: "fn_run (fn_NewRegistry hasBus heap)"
| deploy: "fn_run r \<Longrightarrow> frNext r < 2 ^ 64 - 1 \<Longrightarrow> fn_run (snd (fn_Deploy H now f r))"
| delete: "fn_run r \<Longrightarrow> fn_run (snd (fn_Delete project location name r))"
| stopAll: "fn_run r \<Longrightarrow> distinct order \<Longrightarrow> set order = dom (frEntries r) \<Longrightarrow> fn_run (fn_StopAll order r)"

lemma fn_run_inv: "fn_run r \<Longrightarrow> fn_inv r"
proof (induction rule: fn_run.induct)
  case (start hasBus heap)
  show ?case by (simp add: fn_inv_def fn_NewRegistry_def subs_ok_def New_bus_def held_def)
next
  case (deploy r H now f)
  then show ?case using fn_inv_Deploy by blast
next
  case (delete r project location name)
  then show ?case by (simp add: fn_Delete_remove fn_inv_remove)
next
  case (stopAll r order)
  have "fn_inv (foldl (\<lambda>r k. fn_remove k r) s ks)" if "fn_inv s" for s :: "'a fn_registry" and ks
    using that by (induction ks arbitrary: s) (simp_all add: fn_inv_remove)
  then show ?case using stopAll by (simp add: fn_StopAll_removes)
qed

text \<open>
  C12: deployed one after the other, the functions an event runs are exactly the registered ones whose
  trigger matches it, each once: redeploying or deleting a function leaves no subscription behind.  The
  running instances are the registered ones, and the polled sources those of the watched ones.
\<close>

theorem event_runs_matching_functions:
  assumes "fn_run r"
  shows "distinct (interested e (frBus r)) \<and>
    set (interested e (frBus r)) = {a \<in> ran (frEntries r). frHasBus r \<and> IsSet (fdTrigger (feDesc (frHeap r a))) \<and>
                                      trigger_matches (fdTrigger (feDesc (frHeap r a))) e} \<and>
    frLive r = ran (frEntries r) \<and> frWatching r = {a \<in> ran (frEntries r). fdWatch (feDesc (frHeap r a))}"
proof -
  have inv: "fn_inv r" by (rule fn_run_inv [OF assms])
  have ent: "feWatch (frHeap r a) \<longleftrightarrow> fdWatch (feDesc (frHeap r a))"
      "feUnsub (frHeap r a) \<noteq> None \<longleftrightarrow> frHasBus r \<and> IsSet (fdTrigger (feDesc (frHeap r a)))" if "a \<in> ran (frEntries r)" for a
    using inv that by (auto simp: fn_inv_def entry_ok_def ran_def)
  have subs: "set (busSubs (frBus r)) = Collect (held (ran (frEntries r)) (frHeap r))" "distinct (map fst (busSubs (frBus r)))"
    using inv by (simp_all add: fn_inv_def subs_ok_def)
  have "inj_on (\<lambda>(i, s). subFn s) (set (busSubs (frBus r)))"
    unfolding subs by (auto simp: inj_on_def held_def fn_sub_def)
  moreover have "distinct (busSubs (frBus r))" using subs(2) by (simp add: distinct_map)
  ultimately have "distinct (interested e (frBus r))"
    by (simp add: interested_def distinct_map inj_on_def)
  moreover have "a \<in> set (interested e (frBus r)) \<longleftrightarrow> a \<in> ran (frEntries r) \<and> frHasBus r \<and> IsSet (fdTrigger (feDesc (frHeap r a))) \<and>
      trigger_matches (fdTrigger (feDesc (frHeap r a))) e" for a
  proof -
    have "a \<in> set (interested e (frBus r)) \<longleftrightarrow> (\<exists>i s. held (ran (frEntries r)) (frHeap r) (i, s) \<and> accepts s e \<and> subFn s = a)"
      unfolding interested_def using subs(1) by force
    also have "\<dots> \<longleftrightarrow> (\<exists>i. \<exists>b\<in>ran (frEntries r). feUnsub (frHeap r b) = Some i \<and> accepts (fn_sub (frHeap r b) b) e \<and> subFn (fn_sub (frHeap r b) b :: (nat, 'a) subscription) = a)"
      by (auto simp: held_def)
    also have "\<dots> \<longleftrightarrow> a \<in> ran (frEntries r) \<and> feUnsub (frHeap r a) \<noteq> None \<and> trigger_matches (fdTrigger (feDesc (frHeap r a))) e"
      by (auto simp: fn_sub_def accepts_def)
    finally show ?thesis using ent(2) by blast
  qed
  ultimately show ?thesis using inv ent(1) by (auto simp: fn_inv_def)
qed

definition demo_fn :: "string \<Rightarrow> fn_function" where
  "demo_fn n = \<lparr>fnProject = ''p'', fnLocation = ''us-central1'', fnName = n, fnSource = ''src'', fnRuntime = ''go'', fnEntryPoint = ''H'',
     fnWatch = False, fnTrigger = \<lparr>trEventType = ''t'', trResource = ''''\<rparr>\<rparr>"

definition demo_host :: fn_host where
  "demo_host = \<lparr>hExists = (\<lambda>_. True), hHas = (\<lambda>_ _. False), hGoFile = (\<lambda>_. True), hHandlers = (\<lambda>_. Ok []), hLaunch = (\<lambda>_. Ok ())\<rparr>"

definition demo_reg :: "unit fn_registry" where
  "demo_reg = fn_NewRegistry True (\<lambda>_. \<lparr>feDesc = descriptor (demo_fn ''x'') (demo_fn ''x'') 0, feWatch = False, feUnsub = None\<rparr>)"

lemma demo_Start: "fn_Start demo_host (demo_fn ''f'') = Ok (demo_fn ''f'')"
  by (simp add: fn_Start_def fn_resolve_def demo_host_def demo_fn_def runtimes_def containsAny_def Let_def)

lemma demo_fn_sel [simp]:
  "fnProject (demo_fn n) = ''p''" "fnLocation (demo_fn n) = ''us-central1''" "fnName (demo_fn n) = n" "fnWatch (demo_fn n) = False"
  "fnTrigger (demo_fn n) = \<lparr>trEventType = ''t'', trResource = ''''\<rparr>"
  by (simp_all add: demo_fn_def)

lemma demo_Deploy: "fn_Deploy demo_host now (demo_fn ''f'') r =
    (let d = descriptor (demo_fn ''f'') (demo_fn ''f'') now; (old, r1) = fn_swap d r
     in (Ok d, fn_watch (frNext r) False (fn_subscribe (frNext r) \<lparr>trEventType = ''t'', trResource = ''''\<rparr> (fn_retire old r1))))"
  by (simp add: fn_Deploy_def demo_Start)

lemmas demo_ops = demo_Deploy fn_swap_def fn_retire_def fn_subscribe_def fn_watch_def Let_def demo_reg_def
  fn_NewRegistry_def New_bus_def Subscribe_def Unsubscribe_def IsSet_def descriptor_def fd_ResourceName_def fn_ResourceName_def

theorem event_runs_matching_functions_witness:
  "set (interested demo_event (frBus (snd (fn_Deploy demo_host 0 (demo_fn ''f'') (snd (fn_Deploy demo_host 0 (demo_fn ''f'') demo_reg)))))) = {1}"
proof -
  let ?r = "snd (fn_Deploy demo_host 0 (demo_fn ''f'') (snd (fn_Deploy demo_host 0 (demo_fn ''f'') demo_reg)))"
  let ?k = "''projects/p/locations/us-central1/functions/f''"
  have n: "frNext demo_reg = 0" "frNext (snd (fn_Deploy demo_host 0 (demo_fn ''f'') demo_reg)) = 1" by (simp_all add: demo_ops)
  have run: "fn_run ?r"
    by (intro fn_run.deploy) (use n in \<open>simp_all add: demo_reg_def fn_run.start\<close>)
  have "frEntries ?r = [?k \<mapsto> 1]" "frHasBus ?r" "fdTrigger (feDesc (frHeap ?r 1)) = \<lparr>trEventType = ''t'', trResource = ''''\<rparr>"
    by (simp_all add: demo_ops)
  with event_runs_matching_functions [OF run, of demo_event] show ?thesis
    by (auto simp: IsSet_def trigger_matches_def demo_event_def)
qed

subsection \<open>Overlapping deploys\<close>

text \<open>
  Two deploys of one function can overlap, a watcher's redeploy and a client's for instance: no gate keeps
  them apart.  A deploy that has taken the name still has to retire the entry it replaced, and then to
  subscribe and watch.
\<close>

datatype fn_op = Swapped nat "nat option" fn_desc | Retired nat fn_desc

inductive fn_sys :: "'d fn_registry \<Rightarrow> (nat \<rightharpoonup> fn_op) \<Rightarrow> bool" where
  start: "fn_run r \<Longrightarrow> fn_sys r Map.empty"
| swap: "fn_sys r p \<Longrightarrow> p t = None \<Longrightarrow> fn_Start H f = Ok inst \<Longrightarrow> d = descriptor f inst now \<Longrightarrow>
    fn_sys (snd (fn_swap d r)) (p(t \<mapsto> Swapped (frNext r) (fst (fn_swap d r)) d))"
| retire: "fn_sys r p \<Longrightarrow> p t = Some (Swapped a old d) \<Longrightarrow> fn_sys (fn_retire old r) (p(t \<mapsto> Retired a d))"
| finish: "fn_sys r p \<Longrightarrow> p t = Some (Retired a d) \<Longrightarrow>
    fn_sys (fn_watch a (fdWatch d) (fn_subscribe a (fdTrigger d) r)) (p(t := None))"
| delete: "fn_sys r p \<Longrightarrow> fn_sys (snd (fn_Delete project location name r)) p"

text \<open>A deploy whose pieces are not interrupted is a deploy.\<close>

lemma fn_Deploy_steps:
  assumes "fn_sys r p" and "p t = None"
  shows "fn_sys (snd (fn_Deploy H now f r)) p"
proof (cases "fn_Start H f")
  case (Err e)
  then show ?thesis using assms(1) by (simp add: fn_Deploy_def)
next
  case (Ok inst)
  let ?d = "descriptor f inst now"
  from fn_sys.swap [OF assms Ok refl, of now]
  have "fn_sys (fn_retire (fst (fn_swap ?d r)) (snd (fn_swap ?d r))) (p(t \<mapsto> Retired (frNext r) ?d))"
    using fn_sys.retire [where t = t and a = "frNext r"] by fastforce
  from fn_sys.finish [OF this, of t "frNext r" ?d] assms(2) Ok show ?thesis
    by (simp add: fn_Deploy_def Let_def case_prod_beta descriptor_def fun_upd_idem)
qed

text \<open>
  C40: two deploys of one triggered function that overlap can leave a subscription nothing can end: when
  the second takes the name before the first has subscribed, it retires an entry that has no subscription
  to end yet, and the first then subscribes an instance already stopped.  With the function deleted again
  and nothing in flight, the bus still delivers every matching event to that stopped instance.
\<close>

theorem overlapping_deploys_leak_subscription:
  "\<exists>r :: unit fn_registry. fn_sys r Map.empty \<and> frEntries r = Map.empty \<and> frLive r = {} \<and> interested demo_event (frBus r) = [0]"
proof -
  let ?d = "descriptor (demo_fn ''f'') (demo_fn ''f'') 0" and ?k = "''projects/p/locations/us-central1/functions/f''"
  let ?r1 = "snd (fn_swap ?d demo_reg)"
  let ?r2 = "snd (fn_swap ?d ?r1)"
  let ?r3 = "fn_retire (Some 0) ?r2"
  let ?r4 = "fn_watch 1 False (fn_subscribe 1 (fnTrigger (demo_fn ''f'')) ?r3)"
  let ?r5 = "fn_watch 0 False (fn_subscribe 0 (fnTrigger (demo_fn ''f'')) ?r4)"
  let ?r6 = "snd (fn_Delete ''p'' ''us-central1'' ''f'' ?r5)"
  have old: "fst (fn_swap ?d demo_reg) = None" "frNext demo_reg = 0" "fst (fn_swap ?d ?r1) = Some 0" "frNext ?r1 = 1"
    by (simp_all add: demo_ops)
  have d: "fdTrigger ?d = fnTrigger (demo_fn ''f'')" "fdWatch ?d = False" by (simp_all add: descriptor_def demo_fn_def)
  have "fn_sys demo_reg Map.empty" unfolding demo_reg_def by (intro fn_sys.start fn_run.start)
  from fn_sys.swap [OF this _ demo_Start refl, of 0 0] have "fn_sys ?r1 [0 \<mapsto> Swapped 0 None ?d]" by (simp add: old)
  from fn_sys.swap [OF this _ demo_Start refl, of 1 0] have "fn_sys ?r2 [0 \<mapsto> Swapped 0 None ?d, 1 \<mapsto> Swapped 1 (Some 0) ?d]" by (simp add: old)
  from fn_sys.retire [OF this, of 1 1 "Some 0" ?d] have "fn_sys ?r3 [0 \<mapsto> Swapped 0 None ?d, 1 \<mapsto> Retired 1 ?d]" by simp
  from fn_sys.finish [OF this, of 1 1 ?d] have "fn_sys ?r4 [0 \<mapsto> Swapped 0 None ?d]" by (simp add: d fun_upd_twist)
  from fn_sys.retire [OF this, of 0 0 None ?d] have "fn_sys ?r4 [0 \<mapsto> Retired 0 ?d]" by (simp add: fn_retire_def)
  from fn_sys.finish [OF this, of 0 0 ?d] have "fn_sys ?r5 Map.empty" by (simp add: d)
  then have "fn_sys ?r6 Map.empty" by (rule fn_sys.delete)
  moreover have "frEntries ?r6 = Map.empty \<and> frLive ?r6 = {} \<and> interested demo_event (frBus ?r6) = [0]"
    by (simp add: demo_ops fn_Delete_def interested_def accepts_def trigger_matches_def demo_event_def) auto
  ultimately show ?thesis by blast
qed

subsection \<open>Reaching a function and delivering to it\<close>

lemma splitPrefix_join:
  assumes "a \<noteq> ''''" and "b \<noteq> ''''" and "p \<noteq> ''''" and "CHR ''-'' \<notin> set a" and "CHR ''-'' \<notin> set b"
  shows "splitPrefix (a @ ''-'' @ b @ ''-'' @ p) = Some (a @ ''-'' @ b, p)"
  using go_cut_first [OF assms(4), of "[]" "b @ ''-'' @ p"] go_cut_first [OF assms(5), of "[]" p] assms(1-3)
  by (simp add: splitPrefix_def)

lemma cut_slash_first: "slash \<notin> set a \<Longrightarrow> cut_slash (a @ ''/'' @ rest) = (a, rest)"
  using go_cut_first [of slash a "[]" rest] by (simp add: cut_slash_def)

text \<open>
  A deployed function is reached at its location, project and name, whatever bytes its name has: a
  location is two parts joined by a hyphen, and a project may have hyphens of its own.  The function sees
  the rest of the path.
\<close>

theorem function_reached_by_prefix:
  assumes "fn_Handler p (a @ ''-'' @ b) name r = Some h"
    and "a \<noteq> ''''" and "b \<noteq> ''''" and "p \<noteq> ''''" and "CHR ''-'' \<notin> set a" and "CHR ''-'' \<notin> set b"
    and "slash \<notin> set a" and "slash \<notin> set b" and "slash \<notin> set p"
  shows "fn_Route (''/'' @ a @ ''-'' @ b @ ''-'' @ p @ ''/'' @ PathEscape name @ ''/'' @ rest) r = Some (h, ''/'' @ rest)"
proof -
  have "cut_slash (a @ ''-'' @ b @ ''-'' @ p @ ''/'' @ PathEscape name @ ''/'' @ rest) = (a @ ''-'' @ b @ ''-'' @ p, PathEscape name @ ''/'' @ rest)"
    using cut_slash_first [of "a @ ''-'' @ b @ ''-'' @ p" "PathEscape name @ ''/'' @ rest"] assms(7-9) by simp
  moreover have "cut_slash (PathEscape name @ ''/'' @ rest) = (PathEscape name, rest)" by (rule cut_slash_first) simp
  moreover have "splitPrefix (a @ ''-'' @ b @ ''-'' @ p) = Some (a @ ''-'' @ b, p)" by (rule splitPrefix_join [OF assms(2-6)])
  ultimately show ?thesis using assms(1) by (simp add: fn_Route_def trimPrefix_def fn_unescape_def)
qed

theorem function_reached_by_prefix_witness:
  "fn_Route ''/us-central1-p/f/x/y'' (snd (fn_Deploy demo_host 0 (demo_fn ''f'') demo_reg)) = Some (0, ''/x/y'')"
proof -
  have "fn_Handler ''p'' (''us'' @ ''-'' @ ''central1'') ''f'' (snd (fn_Deploy demo_host 0 (demo_fn ''f'') demo_reg)) = Some 0"
    by (simp add: demo_ops fn_Handler_def fn_lookup_def)
  from function_reached_by_prefix [OF this, of "''x/y''"] show ?thesis
    by (simp add: PathEscape_def escape_char_def shouldEscape_def alnum_def)
qed

primrec attempts :: "delivery \<Rightarrow> nat" where
  "attempts (Delivered n) = n"
| "attempts (GaveUp n) = n"
| "attempts (Abandoned n) = n"

definition backoffs :: "nat \<Rightarrow> nat \<Rightarrow> duration list" where
  "backoffs i j = map (\<lambda>m. RetryBackoff * 2 ^ (m - 1)) [i..<j]"

definition ended :: "(nat \<Rightarrow> (goerr, unit) result) \<Rightarrow> (nat \<Rightarrow> bool) \<Rightarrow> delivery \<Rightarrow> bool" where
  "ended answer waited res =
     (case res of
        Delivered n \<Rightarrow> is_ok (answer n)
      | GaveUp n \<Rightarrow> n = MaxDeliveryAttempts \<and> \<not> is_ok (answer n)
      | Abandoned n \<Rightarrow> n < MaxDeliveryAttempts \<and> \<not> is_ok (answer n) \<and> \<not> waited n)"

definition last_wait :: "delivery \<Rightarrow> nat" where
  "last_wait res = (case res of Abandoned n \<Rightarrow> Suc n | _ \<Rightarrow> attempts res)"

lemma deliver_loop_outcome:
  assumes "deliver_loop answer waited n bo = (res, ws)" and "1 \<le> n" and "n \<le> MaxDeliveryAttempts" and "bo = RetryBackoff * 2 ^ (n - 1)"
  shows "n \<le> attempts res \<and> attempts res \<le> MaxDeliveryAttempts \<and> (\<forall>m. n \<le> m \<and> m < attempts res \<longrightarrow> \<not> is_ok (answer m) \<and> waited m) \<and>
    ended answer waited res \<and> ws = backoffs n (last_wait res)"
  using assms
proof (induction answer waited n bo arbitrary: res ws rule: deliver_loop.induct)
  case (1 answer waited n bo)
  show ?case
  proof (cases "is_ok (answer n) \<or> n = MaxDeliveryAttempts \<or> \<not> waited n")
    case True
    then show ?thesis using "1.prems"
      by (cases "answer n")
        (auto simp: deliver_loop.simps [of answer waited n] ended_def last_wait_def backoffs_def MaxDeliveryAttempts_def split: if_splits)
  next
    case False
    then obtain e where e: "answer n = Err e" "n < MaxDeliveryAttempts" "waited n" using "1.prems"(3) by (cases "answer n") auto
    have "n = 1 \<or> n = 2 \<or> n = 3 \<or> n = 4" using e(2) "1.prems"(2) by (auto simp: MaxDeliveryAttempts_def)
    then have bo: "i64 (bo * 2) = RetryBackoff * 2 ^ (Suc n - 1)"
      unfolding "1.prems"(4) by (auto simp: RetryBackoff_def millisecond_def i64_def)
    obtain res' ws' where r: "deliver_loop answer waited (Suc n) (i64 (bo * 2)) = (res', ws')" by fastforce
    then have res: "res = res'" "ws = bo # ws'" using "1.prems"(1) e by (auto simp: deliver_loop.simps [of answer waited n])
    have IH: "Suc n \<le> attempts res' \<and> attempts res' \<le> MaxDeliveryAttempts \<and>
        (\<forall>m. Suc n \<le> m \<and> m < attempts res' \<longrightarrow> \<not> is_ok (answer m) \<and> waited m) \<and>
        ended answer waited res' \<and> ws' = backoffs (Suc n) (last_wait res')"
      using "1.IH" [OF e(1) _ _ r] e bo by simp
    then have "n < last_wait res'" by (cases res') (auto simp: last_wait_def)
    then have "backoffs n (last_wait res') = bo # backoffs (Suc n) (last_wait res')"
      using "1.prems"(4) by (simp add: backoffs_def upt_conv_Cons)
    then show ?thesis using IH e res by (auto simp: le_Suc_eq) (metis Suc_leI is_ok.simps(1) le_neq_implies_less)+
  qed
qed

text \<open>
  C30: an event is tried at most five times and a delivery ends at the first attempt that succeeds.  It waits after every
  failed attempt but the fifth, 200, 400, 800 and 1600 ms in this order, and is lost only when the fifth attempt fails or
  its context ends during one of these waits.
\<close>

theorem delivery_retried_with_backoff:
  "case deliverWithRetry answer waited of (res, ws) \<Rightarrow>
     1 \<le> attempts res \<and> attempts res \<le> 5 \<and> (\<forall>m. 1 \<le> m \<and> m < attempts res \<longrightarrow> \<not> is_ok (answer m) \<and> waited m) \<and>
     (case res of Delivered n \<Rightarrow> is_ok (answer n) | GaveUp n \<Rightarrow> n = 5 \<and> \<not> is_ok (answer n) | Abandoned n \<Rightarrow> \<not> is_ok (answer n) \<and> \<not> waited n) \<and>
     ws = take (case res of Delivered n \<Rightarrow> n - 1 | GaveUp n \<Rightarrow> n - 1 | Abandoned n \<Rightarrow> n) [200000000, 400000000, 800000000, 1600000000]"
proof -
  obtain res ws where d: "deliverWithRetry answer waited = (res, ws)" by fastforce
  have o: "1 \<le> attempts res \<and> attempts res \<le> MaxDeliveryAttempts \<and> (\<forall>m. 1 \<le> m \<and> m < attempts res \<longrightarrow> \<not> is_ok (answer m) \<and> waited m) \<and>
      ended answer waited res \<and> ws = backoffs 1 (last_wait res)"
    using deliver_loop_outcome [of answer waited 1 RetryBackoff res ws] d by (simp add: deliverWithRetry_def MaxDeliveryAttempts_def)
  have all: "backoffs 1 5 = [200000000, 400000000, 800000000, 1600000000]"
    by (simp add: backoffs_def RetryBackoff_def millisecond_def upt_rec)
  have "last_wait res \<le> 5" using o by (cases res; simp add: last_wait_def ended_def MaxDeliveryAttempts_def)
  moreover have "backoffs 1 j = take (j - 1) (backoffs 1 5)" if "j \<le> 5" for j
    using that take_upt [of 1 "j - 1" 5] by (cases j) (simp_all add: backoffs_def take_map upt_conv_Nil del: upt_Suc)
  ultimately have "ws = take (last_wait res - 1) [200000000, 400000000, 800000000, 1600000000]" using o all by metis
  then show ?thesis using o d by (cases res) (auto simp: ended_def last_wait_def MaxDeliveryAttempts_def)
qed

theorem delivery_retried_with_backoff_witness:
  "case deliverWithRetry (\<lambda>n. if n = 3 then Ok () else Err (Plain (Msg ''down'' []))) (\<lambda>_. True) of (res, ws) \<Rightarrow>
     attempts res \<le> 5 \<and> res = Delivered 3 \<and> ws = [200000000, 400000000]"
proof -
  have "fst (deliverWithRetry (\<lambda>n. if n = 3 then Ok () else Err (Plain (Msg ''down'' []))) (\<lambda>_. True)) = Delivered 3"
    by (simp add: deliverWithRetry_def deliver_loop.simps MaxDeliveryAttempts_def Let_def case_prod_beta)
  with delivery_retried_with_backoff [of "\<lambda>n. if n = 3 then Ok () else Err (Plain (Msg ''down'' []))" "\<lambda>_. True"]
  show ?thesis by (simp add: case_prod_beta)
qed

end
