(* ===== verification/Service_Usage.thy ===== *)
theory Service_Usage
  imports KV_Store Gerr Http_Router
begin

text \<open>
  Service Usage (\<open>services/serviceusage\<close>): which APIs a project has enabled, kept in the shared store, the
  handlers and their routes.  A handler runs with the state of its request's context; the body of a batch
  request comes decoded.
\<close>

subsection \<open>State and handlers\<close>

datatype su_val = SuVal string

instantiation su_val :: zero
begin
definition zero_su_val_def: "0 = SuVal ''''"
instance ..
end

definition stateKey :: "string \<Rightarrow> string \<Rightarrow> string" where
  "stateKey project service = ''su/'' @ project @ ''/'' @ service"

definition su_Reset :: "ctx \<Rightarrow> string \<Rightarrow> su_val memory \<Rightarrow> (store_error, unit) result \<times> su_val memory" where
  "su_Reset cx project m = mem_Reset cx (''su/'' @ (if project \<noteq> '''' then project @ ''/'' else '''')) m"

definition su_enabled :: "ctx \<Rightarrow> string \<Rightarrow> string \<Rightarrow> su_val memory \<Rightarrow> bool" where
  "su_enabled cx project service m =
     (case mem_Get cx (stateKey project service) m of Err _ \<Rightarrow> True | Ok (raw, _) \<Rightarrow> raw \<noteq> SuVal ''DISABLED'')"

definition su_setState :: "ctx \<Rightarrow> string \<Rightarrow> string \<Rightarrow> bool \<Rightarrow> su_val memory \<Rightarrow> (store_error, unit) result \<times> su_val memory" where
  "su_setState cx project service on m =
     (let val = SuVal (if on then ''ENABLED'' else ''DISABLED''); key = stateKey project service;
          version = (case mem_Get cx key m of Ok (_, i) \<Rightarrow> i | Err _ \<Rightarrow> 0)
      in case mem_Put cx key val version m of
           (Err e, m1) \<Rightarrow> (Err e, m1)
         | (Ok _, m1) \<Rightarrow> (Ok (), m1))"

record su_state =
  ssName :: string
  ssConfig :: string
  ssState :: string
  ssParent :: string

definition su_serviceState :: "ctx \<Rightarrow> string \<Rightarrow> string \<Rightarrow> su_val memory \<Rightarrow> su_state" where
  "su_serviceState cx project service m =
     \<lparr>ssName = ''projects/'' @ project @ ''/services/'' @ service, ssConfig = service,
      ssState = (if su_enabled cx project service m then ''ENABLED'' else ''DISABLED''), ssParent = ''projects/'' @ project\<rparr>"

datatype su_body =
  SuService su_state
| SuList "su_state list"
| SuOperation string su_state  \<comment> \<open>\<open>done\<close>, with the service in the response\<close>
| SuBatchDone

type_synonym su_reply = "(goerr, su_body) result \<times> su_val memory"

record su_request =
  sqMethod :: string
  sqPath :: string
  sqFilter :: string
  sqIds :: "(goerr, string list) result"

definition su_get :: "ctx \<Rightarrow> params \<Rightarrow> su_val memory \<Rightarrow> su_reply" where
  "su_get cx p m = (Ok (SuService (su_serviceState cx (param p ''project'') (param p ''service'') m)), m)"

definition after_slash :: "string \<Rightarrow> string" where
  "after_slash k = (case last_index slash k of None \<Rightarrow> k | Some i \<Rightarrow> drop (Suc i) k)"

definition su_list :: "ctx \<Rightarrow> su_request \<Rightarrow> params \<Rightarrow> su_val memory \<Rightarrow> su_reply" where
  "su_list cx q p m =
     (case mem_List cx (''su/'' @ param p ''project'' @ ''/'') 0 '''' m of
        Err e \<Rightarrow> (Err (GErr (New Internal (Msg ''listing services: %s'' [store_text e])) None), m)
      | Ok (entries, _) \<Rightarrow>
          (Ok (SuList (sort_key ssName
             (map (\<lambda>e. su_serviceState cx (param p ''project'') (after_slash (kvKey e)) m)
               (filter (\<lambda>e. let on = (kvVal e \<noteq> SuVal ''DISABLED'')
                            in if sqFilter q = ''state:ENABLED'' then on
                               else if sqFilter q = ''state:DISABLED'' then \<not> on else True) entries)))), m))"

definition su_serviceVerb :: "ctx \<Rightarrow> params \<Rightarrow> su_val memory \<Rightarrow> su_reply" where
  "su_serviceVerb cx p m =
     (let done = (\<lambda>service m1. (Ok (SuOperation (''operations/enable_'' @ service) (su_serviceState cx (param p ''project'') service m1)), m1))
      in case go_cut (param p ''service'') '':'' of
           None \<Rightarrow> (Err (GErr (WithHTTPStatus 400 (New InvalidArgument (Msg ''a POST on a service needs a verb'' []))) None), m)
         | Some (service, verb) \<Rightarrow>
             if verb = ''enable'' then done service (snd (su_setState cx (param p ''project'') service True m))
             else if verb = ''disable'' then done service (snd (su_setState cx (param p ''project'') service False m))
             else (Err (GErr (NewUnimplemented (''serviceusage.services.'' @ verb)) None), m))"

definition su_batchEnable :: "ctx \<Rightarrow> su_request \<Rightarrow> params \<Rightarrow> su_val memory \<Rightarrow> su_reply" where
  "su_batchEnable cx q p m =
     (case sqIds q of
        Err e \<Rightarrow> (Err e, m)
      | Ok ids \<Rightarrow> (Ok SuBatchDone, foldl (\<lambda>m i. snd (su_setState cx (param p ''project'') i True m)) m ids))"

datatype su_handler = SuHList | SuHGet | SuHVerb | SuHBatch

definition su_routes :: "su_handler route list" where
  "su_routes =
     (let services = ''/v1/projects/{project}/services''
      in Handle ''POST'' (services @ '':batchEnable'') SuHBatch
           (Handle ''POST'' (services @ ''/{service}'') SuHVerb
             (Handle ''GET'' (services @ ''/{service}'') SuHGet
               (Handle ''GET'' services SuHList []))))"

fun su_handle :: "ctx \<Rightarrow> su_request \<Rightarrow> su_handler \<Rightarrow> params \<Rightarrow> su_val memory \<Rightarrow> su_reply" where
  "su_handle cx q SuHList p m = su_list cx q p m"
| "su_handle cx q SuHGet p m = su_get cx p m"
| "su_handle cx q SuHVerb p m = su_serviceVerb cx p m"
| "su_handle cx q SuHBatch p m = su_batchEnable cx q p m"

definition su_ServeHTTP :: "ctx \<Rightarrow> su_request \<Rightarrow> su_val memory \<Rightarrow> su_reply" where
  "su_ServeHTTP cx q m = rt_ServeHTTP (su_handle cx q) (sqMethod q) (sqPath q) su_routes m"

subsection \<open>Following the changes\<close>

lemma stateKey_inject: "slash \<notin> set p \<Longrightarrow> slash \<notin> set p' \<Longrightarrow> stateKey p v = stateKey p' v' \<longleftrightarrow> p = p' \<and> v = v'"
  using segment_eq [of slash p p' v v'] by (simp add: stateKey_def)

text \<open>Every version leaves room for \<open>n\<close> more writes.\<close>

definition su_room :: "nat \<Rightarrow> su_val memory \<Rightarrow> bool" where
  "su_room n m \<longleftrightarrow> n + 1 < 2 ^ 64 \<and> (\<forall>k e. memM m k = Some e \<longrightarrow> entVersion e + n < 2 ^ 64)"

lemma su_setState_live:
  assumes "mem_wf m" and "su_room (Suc n) m"
  shows "fst (su_setState CtxLive p v on m) = Ok ()" and "mem_wf (snd (su_setState CtxLive p v on m))"
    and "su_room n (snd (su_setState CtxLive p v on m))"
    and "map_option entVal (memM (snd (su_setState CtxLive p v on m)) k) =
      (if k = stateKey p v then Some (SuVal (if on then ''ENABLED'' else ''DISABLED'')) else map_option entVal (memM m k))"
proof -
  let ?k = "stateKey p v" and ?x = "SuVal (if on then ''ENABLED'' else ''DISABLED'')"
  have room: "key_room m ?k"
  proof (cases "memM m ?k")
    case (Some e)
    then have "entVersion e + Suc n < 2 ^ 64" using assms(2) by (simp only: su_room_def)
    then show ?thesis using Some by (simp add: key_room_def)
  qed (simp add: key_room_def)
  obtain i m' where P: "mem_Put CtxLive ?k ?x (case mem_Get CtxLive ?k m of Ok (_, i) \<Rightarrow> i | Err _ \<Rightarrow> 0) m = (Ok i, m')"
    "memM m' = (memM m)(?k \<mapsto> \<lparr>entVal = ?x, entVersion = i\<rparr>)" "mem_wf m'"
    using put_current [OF assms(1) room] by blast
  have eq: "su_setState CtxLive p v on m = (Ok (), m')" using P(1) by (simp add: su_setState_def Let_def)
  have "i = (case memM m ?k of None \<Rightarrow> 1 | Some e \<Rightarrow> u64 (entVersion e + 1))"
    using P(1) by (auto simp: mem_Put_def mem_Get_def Let_def split: option.splits if_splits)
  moreover have "u64 (entVersion e + 1) + n < 2 ^ 64" if "memM m ?k = Some e" for e
  proof -
    have "entVersion e + Suc n < 2 ^ 64" using assms(2) that by (simp only: su_room_def)
    moreover from this have "u64 (entVersion e + 1) = entVersion e + 1" by (intro u64_small) linarith
    ultimately show ?thesis by linarith
  qed
  ultimately have "i + n < 2 ^ 64" using assms(2) by (cases "memM m ?k") (auto simp: su_room_def)
  then show "su_room n (snd (su_setState CtxLive p v on m))" using eq P(2) assms(2) by (auto simp: su_room_def intro: less_SucI less_trans)
  show "fst (su_setState CtxLive p v on m) = Ok ()" "mem_wf (snd (su_setState CtxLive p v on m))" using eq P(3) by simp_all
  show "map_option entVal (memM (snd (su_setState CtxLive p v on m)) k) =
      (if k = ?k then Some ?x else map_option entVal (memM m k))"
    using eq P(2) by auto
qed

lemma su_enabled_live: "su_enabled CtxLive p v m \<longleftrightarrow> map_option entVal (memM m (stateKey p v)) \<noteq> Some (SuVal ''DISABLED'')"
  by (auto simp: su_enabled_def mem_Get_def split: option.split)

lemma su_setState_dead: "cx \<noteq> CtxLive \<Longrightarrow> snd (su_setState cx p v on m) = m"
  by (simp add: su_setState_def mem_Get_def mem_Put_def Let_def)

text \<open>
  One call of \<open>:enable\<close> or \<open>:disable\<close> with its context, and what it promises: a table of which service is on.
  A call whose context has ended changes nothing.
\<close>

definition su_call :: "su_val memory \<Rightarrow> ctx \<times> string \<times> string \<times> bool \<Rightarrow> su_val memory" where
  "su_call m c = (case c of (cx, p, v, on) \<Rightarrow>
     snd (su_serviceVerb cx [''project'' \<mapsto> p, ''service'' \<mapsto> v @ (if on then '':enable'' else '':disable'')] m))"

definition su_spec :: "(string \<times> string \<Rightarrow> bool) \<Rightarrow> ctx \<times> string \<times> string \<times> bool \<Rightarrow> string \<times> string \<Rightarrow> bool" where
  "su_spec t c = (case c of (cx, p, v, on) \<Rightarrow> if cx = CtxLive then t((p, v) := on) else t)"

lemma su_call_setState: "CHR '':'' \<notin> set v \<Longrightarrow> su_call m (cx, p, v, on) = snd (su_setState cx p v on m)"
  using go_cut_first [of "CHR '':''" v "[]" "''enable''"] go_cut_first [of "CHR '':''" v "[]" "''disable''"]
  by (simp add: su_call_def su_serviceVerb_def param_def Let_def)

lemma su_call_effect:
  assumes "mem_wf m" and "su_room (Suc n) m" and "CHR '':'' \<notin> set v" and "slash \<notin> set p" and "slash \<notin> set p'"
  shows "mem_wf (su_call m (cx, p, v, on))" "su_room n (su_call m (cx, p, v, on))"
    "su_enabled CtxLive p' v' (su_call m (cx, p, v, on)) = su_spec (\<lambda>(p, v). su_enabled CtxLive p v m) (cx, p, v, on) (p', v')"
proof -
  have "su_room n m" using assms(2) unfolding su_room_def by (metis Suc_lessD add_Suc add_Suc_right)
  then show "mem_wf (su_call m (cx, p, v, on))" "su_room n (su_call m (cx, p, v, on))"
    "su_enabled CtxLive p' v' (su_call m (cx, p, v, on)) = su_spec (\<lambda>(p, v). su_enabled CtxLive p v m) (cx, p, v, on) (p', v')"
    unfolding su_call_setState [OF assms(3)]
    using su_setState_live [OF assms(1,2), of p v on] stateKey_inject [OF assms(5,4), of v' v] su_setState_dead [of cx p v on m] assms(1)
    by (cases "cx = CtxLive"; auto simp: su_enabled_live su_spec_def)+
qed

text \<open>
  C22: a project's services read back as they were last switched: after any sequence of \<open>:enable\<close> and
  \<open>:disable\<close> calls over any projects without a slash in their name, a get reports a service enabled exactly when
  the last call for it whose context had not ended enabled it, or, if there is none, when it was enabled before.
\<close>

theorem service_reads_back_last_switch:
  assumes "mem_wf m" and "su_room (length cs) m" and "\<forall>(cx, p, v, on)\<in>set cs. slash \<notin> set p \<and> CHR '':'' \<notin> set v" and "slash \<notin> set p'"
  shows "su_enabled CtxLive p' v' (foldl su_call m cs) = foldl su_spec (\<lambda>(p, v). su_enabled CtxLive p v m) cs (p', v') \<and>
    fst (su_get CtxLive [''project'' \<mapsto> p', ''service'' \<mapsto> v'] (foldl su_call m cs)) =
      Ok (SuService \<lparr>ssName = ''projects/'' @ p' @ ''/services/'' @ v', ssConfig = v',
        ssState = (if foldl su_spec (\<lambda>(p, v). su_enabled CtxLive p v m) cs (p', v') then ''ENABLED'' else ''DISABLED''), ssParent = ''projects/'' @ p'\<rparr>)"
proof -
  have agree: "foldl su_spec t cs (a, b) = foldl su_spec u cs (a, b)"
    if "\<forall>a b. slash \<notin> set a \<longrightarrow> t (a, b) = u (a, b)" and "slash \<notin> set a" for t u cs a b
    using that
  proof (induction cs arbitrary: t u)
    case (Cons c cs)
    have "\<forall>a b. slash \<notin> set a \<longrightarrow> su_spec t c (a, b) = su_spec u c (a, b)" using Cons.prems(1) by (auto simp: su_spec_def split: prod.split)
    then show ?case using Cons.IH Cons.prems(2) by simp
  qed simp
  have "su_enabled CtxLive p' v' (foldl su_call m cs) = foldl su_spec (\<lambda>(p, v). su_enabled CtxLive p v m) cs (p', v')"
    using assms(1-3)
  proof (induction cs arbitrary: m)
    case (Cons c cs)
    obtain cx p v on where c: "c = (cx, p, v, on)" by (cases c)
    note L = su_call_effect [OF Cons.prems(1), where n = "length cs" and v = v and p = p and on = on and cx = cx]
    have "su_enabled CtxLive p' v' (foldl su_call m (c # cs)) = foldl su_spec (\<lambda>(p, v). su_enabled CtxLive p v (su_call m c)) cs (p', v')"
      using Cons.IH [of "su_call m c"] Cons.prems L(1,2) [OF _ _ _ assms(4)] c by simp
    also have "\<dots> = foldl su_spec (su_spec (\<lambda>(p, v). su_enabled CtxLive p v m) c) cs (p', v')"
      using L(3) Cons.prems c by (intro agree [OF _ assms(4)]) auto
    finally show ?case by simp
  qed simp
  then show ?thesis by (simp add: su_get_def su_serviceState_def param_def)
qed

theorem service_reads_back_last_switch_witness:
  "\<not> su_enabled CtxLive ''p'' ''a'' (foldl su_call NewMemory
     [(CtxLive, ''p'', ''a'', True), (CtxLive, ''q'', ''a'', True), (CtxLive, ''p'', ''a'', False), (CtxCanceled, ''p'', ''a'', True)])"
  using service_reads_back_last_switch [of NewMemory
      "[(CtxLive, ''p'', ''a'', True), (CtxLive, ''q'', ''a'', True), (CtxLive, ''p'', ''a'', False), (CtxCanceled, ''p'', ''a'', True)]" "''p''" "''a''"]
  by (simp add: su_room_def NewMemory_def [THEN arg_cong [of _ _ memM]] su_spec_def)

text \<open>Two services share a record when a project's name has a slash, which the router decodes from \<open>%2F\<close>.\<close>

lemma slash_shares_record: "stateKey (a @ ''/'' @ b) v = stateKey a (b @ ''/'' @ v)"
  by (simp add: stateKey_def)

text \<open>A write that fails is still answered as done: nothing changed, and the answer reports the service enabled.\<close>

lemma failed_switch_answered_done:
  assumes "cx \<noteq> CtxLive" and "CHR '':'' \<notin> set v"
  shows "\<not> is_ok (fst (su_setState cx p v False m)) \<and>
    su_serviceVerb cx [''project'' \<mapsto> p, ''service'' \<mapsto> v @ '':disable''] m =
      (Ok (SuOperation (''operations/enable_'' @ v) (su_serviceState cx p v m)), m) \<and> ssState (su_serviceState cx p v m) = ''ENABLED''"
  using assms(1) go_cut_first [OF assms(2), of "[]" "''disable''"]
  by (simp add: su_serviceVerb_def su_setState_def su_serviceState_def su_enabled_def mem_Get_def mem_Put_def param_def Let_def)

end
