(* ===== verification/Spec2Isabelle.thy ===== *)
theory Spec2Isabelle
  imports Fault_Rules Log_Ring Event_Bus Persistent_Store Storage_Props Cloud_Tasks_Inv Pub_Sub_Inv Secret_Manager_Inv Firestore_Props Cloud_Scheduler_Inv Cloud_Logging_Props Storage_Api_Props State_Archive Cloud_Run_Api Functions_Registry Service_Usage
begin

text \<open>
  A model of cloudrig, a local emulator of Google Cloud services written in Go, with the properties that make its parts correct.

  \<^bold>\<open>The program.\<close>  Every service keeps its records in one key-value store (\<open>store/memory.go\<close>, optionally written to
  disk by \<open>store/persist.go\<close>), writes them by compare-and-swap on the entry's version, takes time and timers from one clock
  (\<open>core/clock/fake.go\<close>), announces changes on one event bus (\<open>core/events\<close>) and answers with canonical errors
  (\<open>core/gerr\<close>).  Cloud Storage keeps content apart from records, in a store addressed by hash (\<open>store/blob\<close>).

  \<^bold>\<open>Conventions.\<close>  A Go struct is a record, a service's state is a record passed and returned, a pair of value and error is
  a \<open>result\<close>, an error text is its format and arguments.  64-bit integers are \<open>int\<close> or \<open>nat\<close> with
  the wrap-around written out (\<open>u64\<close>, \<open>i64\<close>), times and durations count nanoseconds.  A call that runs under
  its service's lock is one step; where the code drops the lock between a read and a write, the call is split there and the steps
  interleave (\<open>inductive\<close> run relations).  The context of a call is live or ended and stays so for the call.  What a decoder of
  stored JSON or protojson returns is the constructor of the stored value, and a value of another kind is its error.  Texts that
  \<open>encoding/json\<close> alters because they are not UTF-8 are altered where they reach a key or a name (object records, the snapshot on
  disk: \<open>json_text\<close>), and documents that protojson refuses make their write fail (\<open>encodable\<close>); the other records hold texts
  that came out of a protobuf or a JSON decoder, which are UTF-8.

  \<^bold>\<open>The theories.\<close>
  \<^item> \<open>Go_Prelude\<close>: results, fixed-width integers, the parts of \<open>strings\<close>, \<open>strconv\<close> and
    \<open>sort\<close> the sources call, and their lemmas.  \<open>Go_Json\<close>: what \<open>encoding/json\<close> makes of a text.
  \<^item> \<open>Gerr\<close> (\<open>core/gerr\<close>): codes, details, wrapping, HTTP status and the JSON envelope.
  \<^item> \<open>Resource_Keys\<close> (\<open>core/resource\<close>): the keys of Cloud Storage records; parsing inverts them, generations sort.
  \<^item> \<open>KV_Store\<close> (\<open>store/memory.go\<close>): the store with its sorted keys, page tokens and versions; the locale
    \<open>cas_store\<close> is the compare-and-swap contract the services rely on, interpreted on the store.
  \<^item> \<open>Fake_Clock\<close> (\<open>core/clock/fake.go\<close>): the timer queue and the run of due callbacks.  The loop takes fuel; the
    termination theorem gives an amount that is enough when callbacks arm finitely many timers strictly in the future.
  \<^item> \<open>Fault_Rules\<close>, \<open>Log_Ring\<close>, \<open>Event_Bus\<close>, \<open>Persistent_Store\<close>, \<open>Blob_Store\<close>: the
    other packages of \<open>core\<close> and \<open>store\<close>.  The bus keeps its wait group beside the deliveries under way, and \<open>Sync\<close> asks
    only the group; publishers overlap (\<open>bus_run\<close>).  A flush to disk may fail, and what it then loses is tracked (\<open>persist_run\<close>).
    The hash functions SHA-256 and MD5 are parameters.
  \<^item> \<open>Storage_Base\<close>, \<open>Storage_Objects\<close>, \<open>Storage_Inv\<close>, \<open>Storage_Props\<close>
    (\<open>services/storage\<close>): buckets, policies, reference counts, events; writes, reads, copies, composition, deletion;
    the invariant that a published generation has content and a positive count; what follows from it, for calls made one after another
    on objects with UTF-8 names (\<open>storage_run\<close>).
  \<^item> \<open>Http_Router\<close> (\<open>transport/router.go\<close>): route patterns, escaped path segments and dispatch; a captured value
    is the one escaped into the path, and the first matching route answers.  \<open>Http_Content\<close>: what \<open>http.ServeContent\<close> does with
    conditional and range headers; the parser of HTTP dates is a parameter.
  \<^item> \<open>Storage_List\<close> (\<open>services/storage/list.go\<close>): pages of objects and rollups.  The locale \<open>pager\<close> is the contract
    of a paged listing, interpreted on it; the read loop gets a turn for every key, which \<open>listing_always_answers\<close> shows
    to be enough.
  \<^item> \<open>Storage_Wire\<close>, \<open>Storage_Upload\<close>, \<open>Storage_Api\<close>, \<open>Storage_Api_Props\<close>
    (\<open>services/storage\<close>: \<open>wire.go\<close>, \<open>resumable.go\<close>, \<open>api.go\<close>, \<open>signed.go\<close>, \<open>iam.go\<close>): the
    JSON API over the service: parameters and responses, resumable sessions and their interleaving, every handler, the table of routes.
    An uploaded object is read back by the link it was answered with, and an interrupted upload can be finished.  The JSON decoder
    and the readers of multipart bodies are parameters (\<open>codecs\<close>).
  \<^item> \<open>Cloud_Tasks\<close>, \<open>Cloud_Tasks_Inv\<close> (\<open>services/cloudtasks\<close>): queues, tasks, dispatch and retries on the
    clock; no stored task of a running queue is stranded, with a timer's expiry or \<open>RunTask\<close> and the start of its dispatch apart
    (\<open>ct_run\<close>).
  \<^item> \<open>Proto_Msg\<close>, \<open>Pub_Sub\<close>, \<open>Pub_Sub_Inv\<close> (\<open>services/pubsub\<close>): masked updates, which clear the other
    members of a oneof; topics,
    subscriptions, leases with deadlines, streams, snapshots; no message is lost or duplicated.
  \<^item> \<open>Secret_Manager\<close>, \<open>Secret_Manager_Inv\<close> (\<open>services/secretmanager\<close>): secrets and versions, which refine a
    vault of version lists.
  \<^item> \<open>Float64\<close>, \<open>Comparison\<close>: IEEE doubles as the sources use them; the locale \<open>comparison\<close> is the contract of a
    Go three-way comparison, with the correctness of \<open>sort.SliceStable\<close> proved in it.
  \<^item> \<open>Firestore_Values\<close>, \<open>Firestore\<close>, \<open>Firestore_Props\<close> (\<open>services/firestore\<close>): the order of
    values, field paths, filters; commits, batches, transforms, transaction handles, queries; a commit of documents that can be encoded
    applies as a unit (one that cannot is left half applied, \<open>commit_half_applied\<close>) and a query answers in order, both by interpretations of \<open>comparison\<close> on the order of values and of documents.
  \<^item> \<open>Cloud_Scheduler\<close>, \<open>Cloud_Scheduler_Inv\<close> (\<open>services/cloudscheduler\<close>): jobs re-armed on the clock at
    every fire; an enabled job has exactly one timer and fires at its cron times, under the conditions without which it has two
    (\<open>update_before_fire_doubles_job\<close>, \<open>ended_create_arms_twice\<close>).  The cron parser is a parameter.
  \<^item> \<open>Go_Time\<close>, \<open>Log_Filter\<close>, \<open>Log_Filter_Props\<close> (\<open>services/cloudlogging/filter.go\<close>): RFC 3339
    times; the tokens and the grammar of log filters.  A printed filter parses back to its meaning, and the parser stops: its loops get
    one turn for every token left, which is shown to be enough.  Letter case folds in ASCII.
  \<^item> \<open>Cloud_Logging\<close>, \<open>Cloud_Logging_Props\<close> (\<open>services/cloudlogging\<close>): the bounded log and its
    queries; a query answers the matching entries in the order asked for, newest first by an interpretation of \<open>comparison\<close>.
  \<^item> \<open>State_Archive\<close> (\<open>state/state.go\<close>, \<open>stateSnapshot\<close> of \<open>cloudrig.go\<close>): a snapshot of a whole emulator as
    an archive, and its restoring.  It joins the store, the blobs, the fault rules, the clock and the pending messages of the theories above.
  \<^item> \<open>Cloud_Run\<close>, \<open>Cloud_Run_Api\<close> (\<open>services/cloudrun\<close>): the registry of running services under interleaved
    deploys, deletes and shutdowns, a launch that dies before it listens and its cleanup included (\<open>run_sys\<close>); the Knative shapes, the handlers and the routes; the framing of container logs.
    Whether a launch succeeds is an argument.
  \<^item> \<open>Functions_Registry\<close> (\<open>functions\<close>): the registry of functions with its watchers and its subscriptions on the bus, run
    one operation after the other (\<open>fn_run\<close>) and with overlapping deploys (\<open>fn_sys\<close>); routing; delivery with retries, whose
    loop ends by the attempts left.  The source tree and the launch of a function are a parameter (\<open>fn_host\<close>).
  \<^item> \<open>Service_Usage\<close> (\<open>services/serviceusage\<close>): which services a project has enabled, which refines a table of switches.

  \<^bold>\<open>Bounds.\<close>  Theorems about counters of 64 bits assume they do not wrap within the run (\<open>key_room\<close>,
  \<open>room_for\<close>, \<open>psDeliveries\<close>, \<open>ckSeq\<close>); version keys of twelve digits bound a secret's versions by \<open>10 ^ 12\<close>.

  \<^bold>\<open>Not modelled.\<close>  The HTTP and gRPC servers, JSON and protobuf encodings, the REST bridges of the gRPC services, the Cloud Functions and GKE
  APIs, what drives docker, k3d or the Go tool chain, and the command line: they call the operations modelled here or the operating system.
\<close>

end
